(* ===== verification/S3_Prelude.thy ===== *)
theory S3_Prelude
  imports Main "HOL-Library.Word"
begin

text \<open>
  Shared vocabulary of the development: the widths of the C++ integer types,
  byte strings, the part of the C library the sources call (\<open>strtol\<close> with base 16),
  the byte representation of a 64-bit integer, and the generic list lemmas that
  several components use.  The collection \<open>s3_defs\<close> holds the definitional
  equations of the small accessor-like operations, so that component proofs can
  unfold them together.
\<close>

named_theorems s3_defs "definitional equations of small operations"

type_synonym size_t = "64 word"
type_synonym bytes = string

section \<open>Characters used by the wire formats\<close>

definition CR :: char where "CR = CHR 0x0D"
definition LF :: char where "LF = CHR 0x0A"

lemma CR_neq_LF [simp]: "CR \<noteq> LF" "LF \<noteq> CR"
  by (simp_all add: CR_def LF_def)

lemma CR_neq_semicolon [simp]: "CR \<noteq> CHR '';''" "CHR '';'' \<noteq> CR"
  by (simp_all add: CR_def)

section \<open>Hexadecimal numbers and strtol\<close>

definition hex_val :: "char \<Rightarrow> nat option" where
  "hex_val c =
     (let n = (of_char c :: nat) in
      if 48 \<le> n \<and> n \<le> 57 then Some (n - 48)
      else if 65 \<le> n \<and> n \<le> 70 then Some (n - 55)
      else if 97 \<le> n \<and> n \<le> 102 then Some (n - 87)
      else None)"

definition c_isspace :: "char \<Rightarrow> bool" where
  "c_isspace c \<longleftrightarrow> (of_char c :: nat) \<in> {9, 10, 11, 12, 13, 32}"

fun hex_digits_value :: "nat \<Rightarrow> string \<Rightarrow> nat" where
  "hex_digits_value acc [] = acc"
| "hex_digits_value acc (c # cs) =
     (case hex_val c of None \<Rightarrow> acc | Some d \<Rightarrow> hex_digits_value (16 * acc + d) cs)"

definition drop_0x :: "string \<Rightarrow> string" where
  "drop_0x s =
     (case s of
        c # d # rest \<Rightarrow> if c = CHR ''0'' \<and> (d = CHR ''x'' \<or> d = CHR ''X'') then rest else s
      | _ \<Rightarrow> s)"

definition LONG_MAX :: int where "LONG_MAX = 2 ^ 63 - 1"
definition LONG_MIN :: int where "LONG_MIN = - (2 ^ 63)"

text \<open>
  \<open>strtol (s, NULL, 16)\<close>: leading white space, an optional sign, an optional
  \<open>0x\<close>, then the longest run of digits; the value saturates at the range of
  \<open>long\<close>.  A string without digits gives 0.
\<close>

definition strtol16 :: "string \<Rightarrow> int" where
  "strtol16 s =
     (let s1 = dropWhile c_isspace s;
          neg = (case s1 of c # _ \<Rightarrow> c = CHR ''-'' | [] \<Rightarrow> False);
          s2 = (case s1 of c # r \<Rightarrow> if c = CHR ''-'' \<or> c = CHR ''+'' then r else s1 | [] \<Rightarrow> []);
          v = int (hex_digits_value 0 (drop_0x s2))
      in if neg then max LONG_MIN (- v) else min LONG_MAX v)"

text \<open>The lower-case hexadecimal rendering that a client writes.\<close>

definition hex_digit :: "nat \<Rightarrow> char" where
  "hex_digit d = (if d < 10 then char_of (48 + d) else char_of (87 + d))"

fun to_hex :: "nat \<Rightarrow> string" where
  "to_hex n = (if n < 16 then [hex_digit n] else to_hex (n div 16) @ [hex_digit (n mod 16)])"

declare to_hex.simps [simp del]

lemma hex_val_hex_digit [simp]: "d < 16 \<Longrightarrow> hex_val (hex_digit d) = Some d"
  by (auto simp: hex_val_def hex_digit_def Let_def)

lemma hex_digits_value_append:
  "(\<And>c. c \<in> set xs \<Longrightarrow> hex_val c \<noteq> None) \<Longrightarrow>
   hex_digits_value acc (xs @ ys) = hex_digits_value (hex_digits_value acc xs) ys"
proof (induction xs arbitrary: acc)
  case (Cons c xs)
  from Cons.prems [of c] obtain d where "hex_val c = Some d" by auto
  with Cons show ?case by simp
qed simp

lemma to_hex_digits: "c \<in> set (to_hex n) \<Longrightarrow> \<exists>d<16. c = hex_digit d"
proof (induction n rule: to_hex.induct)
  case (1 n)
  show ?case
  proof (cases "n < 16")
    case True
    with "1.prems" show ?thesis by (auto simp: to_hex.simps [of n])
  next
    case False
    with "1.prems" have "c \<in> set (to_hex (n div 16)) \<or> c = hex_digit (n mod 16)"
      by (auto simp: to_hex.simps [of n])
    with "1.IH" [OF False] show ?thesis by (metis mod_less_divisor zero_less_numeral)
  qed
qed

lemma to_hex_value: "hex_digits_value 0 (to_hex n) = n"
proof (induction n rule: to_hex.induct)
  case (1 n)
  show ?case
  proof (cases "n < 16")
    case True
    then show ?thesis by (simp add: to_hex.simps [of n])
  next
    case False
    have digits: "hex_val c \<noteq> None" if "c \<in> set (to_hex (n div 16))" for c
      using to_hex_digits [OF that] by auto
    show ?thesis
      using False "1.IH" by (simp add: to_hex.simps [of n] hex_digits_value_append digits)
  qed
qed

lemma of_char_hex_digit:
  "d < 16 \<Longrightarrow> (of_char (hex_digit d) :: nat) = (if d < 10 then 48 + d else 87 + d)"
  by (simp add: hex_digit_def)

lemma hex_digit_plain:
  assumes "d < 16"
  shows "\<not> c_isspace (hex_digit d)" "hex_digit d \<noteq> CHR ''-''" "hex_digit d \<noteq> CHR ''+''"
    "hex_digit d \<noteq> CHR ''x''" "hex_digit d \<noteq> CHR ''X''" "hex_digit d \<noteq> CHR '';''"
proof -
  have neq: "hex_digit d \<noteq> c" if "(of_char c :: nat) < 48 \<or> (of_char c :: nat) \<in> {58..96} \<or>
      (of_char c :: nat) > 102" for c
  proof
    assume "hex_digit d = c"
    then have "(of_char c :: nat) = (if d < 10 then 48 + d else 87 + d)"
      using assms of_char_hex_digit by metis
    with that assms show False by (auto split: if_splits)
  qed
  show "\<not> c_isspace (hex_digit d)"
    using assms by (auto simp: c_isspace_def of_char_hex_digit)
  show "hex_digit d \<noteq> CHR ''-''" "hex_digit d \<noteq> CHR ''+''"
    "hex_digit d \<noteq> CHR ''x''" "hex_digit d \<noteq> CHR ''X''" "hex_digit d \<noteq> CHR '';''"
    by (rule neq, simp)+
qed

lemma to_hex_not_Nil [simp]: "to_hex n \<noteq> []"
  by (simp add: to_hex.simps [of n])

lemma semicolon_notin_to_hex [simp]: "CHR '';'' \<notin> set (to_hex n)"
  using to_hex_digits [of "CHR '';''" n] hex_digit_plain(6) by metis

lemma strtol16_to_hex:
  assumes "n < 2 ^ 63"
  shows "strtol16 (to_hex n) = int n"
proof -
  obtain c cs where eq: "to_hex n = c # cs" by (cases "to_hex n") auto
  have digit: "\<exists>d<16. x = hex_digit d" if "x \<in> set (c # cs)" for x
    using to_hex_digits that eq by metis
  have c: "\<not> c_isspace c" "c \<noteq> CHR ''-''" "c \<noteq> CHR ''+''"
    using digit [of c] hex_digit_plain by auto
  have no_x: "x \<noteq> CHR ''x''" "x \<noteq> CHR ''X''" if "x \<in> set cs" for x
    using digit [of x] hex_digit_plain that by auto
  have "drop_0x (c # cs) = c # cs"
    using no_x by (cases cs) (auto simp: drop_0x_def)
  moreover have "hex_digits_value 0 (c # cs) = n"
    using to_hex_value [of n] eq by simp
  moreover have "int n \<le> LONG_MAX"
    using assms by (simp add: LONG_MAX_def)
  ultimately show ?thesis
    using c by (simp add: eq strtol16_def Let_def del: hex_digits_value.simps)
qed

text \<open>\<open>std::to_string\<close> of an unsigned number.\<close>

fun to_dec :: "nat \<Rightarrow> string" where
  "to_dec n = (if n < 10 then [char_of (48 + n)] else to_dec (n div 10) @ [char_of (48 + n mod 10)])"

declare to_dec.simps [simp del]

section \<open>Faults as values\<close>

text \<open>
  An operation that may fail an assertion or throw returns \<open>fault + result\<close>; \<open>ebind\<close>
  sequences two of them and stops at the first fault.
\<close>

definition ebind :: "'e + 'a \<Rightarrow> ('a \<Rightarrow> 'e + 'b) \<Rightarrow> 'e + 'b" where
  "ebind m f = (case m of Inl e \<Rightarrow> Inl e | Inr x \<Rightarrow> f x)"

lemma ebind_simps [simp]: "ebind (Inl e) f = Inl e" "ebind (Inr x) f = f x"
  by (simp_all add: ebind_def)

lemma ebind_Inr_iff: "ebind m f = Inr y \<longleftrightarrow> (\<exists>x. m = Inr x \<and> f x = Inr y)"
  by (cases m) simp_all

lemma ebind_Inl_iff: "ebind m f = Inl e \<longleftrightarrow> m = Inl e \<or> (\<exists>x. m = Inr x \<and> f x = Inl e)"
  by (cases m) simp_all

section \<open>List facts\<close>

lemma concat_filter_nonempty [simp]: "concat (filter (\<lambda>x. x \<noteq> []) xss) = concat xss"
  by (induction xss) auto

lemma sum_list_map_length_concat: "length (concat xss) = sum_list (map length xss)"
  by (simp add: length_concat)

end
