(* ===== verification/Chunk_Parser.thy ===== *)
theory Chunk_Parser
  imports S3_Prelude
begin

text \<open>
  The parser of AWS signature-V4 chunked uploads: \<open>server/s3_chunk_payload_parser.cc\<close>,
  \<open>server/s3_chunk_payload_parser.h\<close> and the SHA-256 wrapper \<open>server/s3_sha256.cc\<close>.

  An incoming \<open>evbuf_t\<close> is the list of its extents (what \<open>evbuffer_peek\<close> returns);
  a spare or ready buffer is its contents.  The OpenSSL calls are a parameter
  (\<open>sha256_lib\<close>).  The class is a record that extends \<open>parser_core\<close> with the two
  buffer queues: the core is what the byte-level specification \<open>astep\<close> works on.
  Undefined behaviour of the source (\<open>front()\<close> of an empty deque) and its failing
  assertion are the outcome \<open>Abort\<close>, respectively \<open>None\<close>.
\<close>

section \<open>SHA-256 wrapper\<close>

text \<open>
  The three OpenSSL calls the wrapper makes: whether \<open>SHA256_Init\<close> succeeds, whether
  \<open>SHA256_Update\<close> succeeds on a context that was fed the first argument, and the
  hexadecimal form of the digest of everything fed to a context (\<open>None\<close> when
  \<open>SHA256_Final\<close> fails).
\<close>

record sha256_lib =
  SHA256_Init_ok :: bool
  SHA256_Update_ok :: "bytes \<Rightarrow> bytes \<Rightarrow> bool"
  SHA256_Final_hex :: "bytes \<Rightarrow> string option"

text \<open>The documented case: on valid contexts the OpenSSL calls do not fail.\<close>

definition sha256_lib_ok :: "sha256_lib \<Rightarrow> bool" where
  "sha256_lib_ok L \<longleftrightarrow> SHA256_Init_ok L \<and> (\<forall>fed d. SHA256_Update_ok L fed d)
     \<and> (\<forall>fed. SHA256_Final_hex L fed \<noteq> None)"

record S3sha256 =
  fed :: bytes
  status :: bool
  hex_hash :: string

definition S3sha256_reset :: "sha256_lib \<Rightarrow> S3sha256 \<Rightarrow> S3sha256" where
  "S3sha256_reset L h = h\<lparr>fed := [], status := SHA256_Init_ok L\<rparr>"

definition S3sha256_Update :: "sha256_lib \<Rightarrow> bytes \<Rightarrow> S3sha256 \<Rightarrow> S3sha256 \<times> bool" where
  "S3sha256_Update L input h =
     (if \<not> status h then (h, False)
      else if SHA256_Update_ok L (fed h) input
      then (h\<lparr>fed := fed h @ input, status := True\<rparr>, True)
      else (h\<lparr>status := False\<rparr>, False))"

definition S3sha256_Finalize :: "sha256_lib \<Rightarrow> S3sha256 \<Rightarrow> S3sha256 \<times> bool" where
  "S3sha256_Finalize L h =
     (case SHA256_Final_hex L (fed h) of
        None \<Rightarrow> (h\<lparr>status := False\<rparr>, False)
      | Some hex \<Rightarrow> (h\<lparr>status := True, hex_hash := hex\<rparr>, True))"

definition get_hex_hash :: "S3sha256 \<Rightarrow> string" where
  "get_hex_hash h = (if \<not> status h then [] else hex_hash h)"

section \<open>Chunk details\<close>

record S3ChunkDetail =
  chunk_size :: size_t
  signature :: string
  payload_hash :: string
  hash_ctx :: S3sha256
  ready :: bool
  chunk_number :: int

definition S3ChunkDetail_init :: "sha256_lib \<Rightarrow> S3ChunkDetail" where
  "S3ChunkDetail_init L =
     \<lparr>chunk_size = 0, signature = [], payload_hash = [],
      hash_ctx = S3sha256_reset L \<lparr>fed = [], status = False, hex_hash = []\<rparr>,
      ready = False, chunk_number = 0\<rparr>"

definition S3ChunkDetail_reset :: "sha256_lib \<Rightarrow> S3ChunkDetail \<Rightarrow> S3ChunkDetail" where
  "S3ChunkDetail_reset L d =
     d\<lparr>ready := False, chunk_size := 0, signature := [], payload_hash := [],
       hash_ctx := S3sha256_reset L (hash_ctx d)\<rparr>"

definition incr_chunk_number :: "S3ChunkDetail \<Rightarrow> S3ChunkDetail" where
  "incr_chunk_number d = d\<lparr>chunk_number := chunk_number d + 1\<rparr>"

definition add_size :: "size_t \<Rightarrow> S3ChunkDetail \<Rightarrow> S3ChunkDetail" where
  "add_size n d = d\<lparr>chunk_size := n\<rparr>"

definition add_signature :: "string \<Rightarrow> S3ChunkDetail \<Rightarrow> S3ChunkDetail" where
  "add_signature sign d = d\<lparr>signature := sign\<rparr>"

text \<open>\<open>update_hash (NULL)\<close> feeds the empty string: the argument is \<open>None\<close> there.\<close>

definition update_hash :: "sha256_lib \<Rightarrow> bytes option \<Rightarrow> S3ChunkDetail \<Rightarrow> S3ChunkDetail \<times> bool" where
  "update_hash L data d =
     (let (h, ok) = S3sha256_Update L (case data of None \<Rightarrow> [] | Some bs \<Rightarrow> bs) (hash_ctx d)
      in (d\<lparr>hash_ctx := h\<rparr>, ok))"

definition fini_hash :: "sha256_lib \<Rightarrow> S3ChunkDetail \<Rightarrow> S3ChunkDetail \<times> bool" where
  "fini_hash L d =
     (let (h, ok) = S3sha256_Finalize L (hash_ctx d) in
      if ok then (d\<lparr>hash_ctx := h, payload_hash := get_hex_hash h, ready := True\<rparr>, True)
      else (d\<lparr>hash_ctx := h\<rparr>, False))"

section \<open>Parser state\<close>

datatype ChunkParserState =
    c_start | c_chunk_size | c_chunk_signature_key | c_chunk_signature_value | c_cr
  | c_chunk_data | c_chunk_data_end_cr | c_chunk_data_end_lf | c_error

definition S3_AWS_CHUNK_KEY :: string where
  "S3_AWS_CHUNK_KEY = ''chunk-signature''"

record parser_core =
  chunk_details :: "S3ChunkDetail list"
  parser_state :: ChunkParserState
  current_chunk_size :: string
  chunk_data_size_to_read :: size_t
  content_length :: size_t
  current_chunk_signature :: string
  current_chunk_detail :: S3ChunkDetail
  chunk_sig_key_char_state :: "char list"

record S3ChunkPayloadParser = parser_core +
  spare_buffers :: "bytes list"
  ready_buffers :: "bytes list"

definition S3ChunkPayloadParser_init :: "sha256_lib \<Rightarrow> S3ChunkPayloadParser" where
  "S3ChunkPayloadParser_init L =
     \<lparr>chunk_details = [], parser_state = c_start, current_chunk_size = [],
      chunk_data_size_to_read = 0, content_length = 0, current_chunk_signature = [],
      current_chunk_detail = S3ChunkDetail_init L,
      chunk_sig_key_char_state = S3_AWS_CHUNK_KEY,
      spare_buffers = [[]], ready_buffers = []\<rparr>"

definition setup_content_length :: "size_t \<Rightarrow> 'a parser_core_scheme \<Rightarrow> 'a parser_core_scheme" where
  "setup_content_length len p = p\<lparr>content_length := len\<rparr>"

definition reset_parser_state :: "sha256_lib \<Rightarrow> 'a parser_core_scheme \<Rightarrow> 'a parser_core_scheme" where
  "reset_parser_state L p =
     p\<lparr>chunk_data_size_to_read := 0, current_chunk_size := [], current_chunk_signature := [],
       chunk_sig_key_char_state := S3_AWS_CHUNK_KEY,
       current_chunk_detail :=
         incr_chunk_number (S3ChunkDetail_reset L (current_chunk_detail p))\<rparr>"

section \<open>Spare buffers\<close>

text \<open>
  \<open>buf_size\<close> is \<open>get_libevent_pool_buffer_size()\<close>.  The free space is computed in
  \<open>size_t\<close>.  \<open>None\<close>: the queue of spares is empty where the source takes its front,
  or the assertion before the second \<open>front()\<close> fails.
\<close>

definition add_to_spare :: "size_t \<Rightarrow> bytes \<Rightarrow> S3ChunkPayloadParser \<Rightarrow> S3ChunkPayloadParser option" where
  "add_to_spare buf_size data p =
     (case spare_buffers p of
        [] \<Rightarrow> None
      | spare # rest \<Rightarrow>
          (let free_in_current_spare = buf_size - of_nat (length spare) in
           if of_nat (length data) \<le> free_in_current_spare
           then Some (p\<lparr>spare_buffers := (spare @ data) # rest\<rparr>)
           else
             (case rest of
                [] \<Rightarrow> None
              | spare' # rest' \<Rightarrow>
                  Some (p\<lparr>ready_buffers := ready_buffers p
                                            @ [spare @ take (unat free_in_current_spare) data],
                         spare_buffers :=
                           (spare' @ drop (unat free_in_current_spare) data) # rest'\<rparr>))))"

section \<open>The cases of the state switch\<close>

definition on_chunk_size :: "char \<Rightarrow> 'a parser_core_scheme \<Rightarrow> 'a parser_core_scheme" where
  "on_chunk_size ch p =
     (if ch = CHR '';'' then
        (let n = of_int (strtol16 (current_chunk_size p)) in
         p\<lparr>parser_state := c_chunk_signature_key,
           chunk_sig_key_char_state := S3_AWS_CHUNK_KEY,
           chunk_data_size_to_read := n,
           current_chunk_detail := add_size n (current_chunk_detail p)\<rparr>)
      else p\<lparr>current_chunk_size := current_chunk_size p @ [ch]\<rparr>)"

definition on_chunk_signature_key :: "char \<Rightarrow> 'a parser_core_scheme \<Rightarrow> 'a parser_core_scheme" where
  "on_chunk_signature_key ch p =
     (case chunk_sig_key_char_state p of
        [] \<Rightarrow>
          (if ch = CHR ''='' then p\<lparr>parser_state := c_chunk_signature_value\<rparr>
           else p\<lparr>parser_state := c_error\<rparr>)
      | k # ks \<Rightarrow>
          (if ch = k then p\<lparr>chunk_sig_key_char_state := ks\<rparr>
           else p\<lparr>parser_state := c_error\<rparr>))"

definition on_chunk_signature_value :: "char \<Rightarrow> 'a parser_core_scheme \<Rightarrow> 'a parser_core_scheme" where
  "on_chunk_signature_value ch p =
     (if ch = CR then p\<lparr>parser_state := c_cr\<rparr>
      else p\<lparr>current_chunk_signature := current_chunk_signature p @ [ch]\<rparr>)"

text \<open>
  After a carriage return that is not followed by a line feed the source keeps the
  state \<open>c_cr\<close>, also when the character is neither: it appends the CR and the
  character to the signature.
\<close>

definition on_cr :: "char \<Rightarrow> 'a parser_core_scheme \<Rightarrow> 'a parser_core_scheme" where
  "on_cr ch p =
     (if ch = LF then
        p\<lparr>parser_state := c_chunk_data,
          current_chunk_detail :=
            add_signature (current_chunk_signature p) (current_chunk_detail p)\<rparr>
      else
        (let p' = p\<lparr>current_chunk_signature := current_chunk_signature p @ [CR]\<rparr> in
         if ch = CR then p'\<lparr>parser_state := c_cr\<rparr>
         else p'\<lparr>current_chunk_signature := current_chunk_signature p' @ [ch]\<rparr>))"

definition consume_data :: "sha256_lib \<Rightarrow> bytes \<Rightarrow> 'a parser_core_scheme \<Rightarrow> 'a parser_core_scheme" where
  "consume_data L data p =
     (let n = chunk_data_size_to_read p - of_nat (length data) in
      p\<lparr>current_chunk_detail := fst (update_hash L (Some data) (current_chunk_detail p)),
        chunk_data_size_to_read := n,
        content_length := content_length p - of_nat (length data),
        parser_state := (if n = 0 then c_chunk_data_end_cr else parser_state p)\<rparr>)"

definition on_chunk_data ::
    "sha256_lib \<Rightarrow> size_t \<Rightarrow> bytes \<Rightarrow> S3ChunkPayloadParser \<Rightarrow> S3ChunkPayloadParser option" where
  "on_chunk_data L buf_size data p =
     map_option (consume_data L data) (add_to_spare buf_size data p)"

definition on_last_chunk :: "sha256_lib \<Rightarrow> 'a parser_core_scheme \<Rightarrow> 'a parser_core_scheme" where
  "on_last_chunk L p =
     p\<lparr>parser_state := c_chunk_data_end_cr,
       current_chunk_detail := fst (update_hash L None (current_chunk_detail p))\<rparr>"

definition on_chunk_data_end_cr :: "char \<Rightarrow> 'a parser_core_scheme \<Rightarrow> 'a parser_core_scheme" where
  "on_chunk_data_end_cr ch p =
     (if ch = CR then p\<lparr>parser_state := c_chunk_data_end_lf\<rparr>
      else p\<lparr>parser_state := c_error\<rparr>)"

definition on_chunk_data_end_lf :: "sha256_lib \<Rightarrow> char \<Rightarrow> 'a parser_core_scheme \<Rightarrow> 'a parser_core_scheme" where
  "on_chunk_data_end_lf L ch p =
     (if ch = LF then
        (let d = fst (fini_hash L (current_chunk_detail p)) in
         p\<lparr>parser_state := c_start, current_chunk_detail := d,
           chunk_details := chunk_details p @ [d]\<rparr>)
      else p\<lparr>parser_state := c_error\<rparr>)"

text \<open>What the loop does before the switch: a new chunk starts.\<close>

definition begin_chunk :: "sha256_lib \<Rightarrow> 'a parser_core_scheme \<Rightarrow> 'a parser_core_scheme" where
  "begin_chunk L p =
     (if parser_state p = c_start
      then (reset_parser_state L p)\<lparr>parser_state := c_chunk_size\<rparr> else p)"

text \<open>
  One step of the parser on a character in every state but \<open>c_chunk_data\<close> (where the
  source takes as many bytes as the extent has).
\<close>

definition switch_char :: "sha256_lib \<Rightarrow> char \<Rightarrow> 'a parser_core_scheme \<Rightarrow> 'a parser_core_scheme" where
  "switch_char L ch p =
     (case parser_state p of
        c_start \<Rightarrow> on_chunk_size ch p
      | c_chunk_size \<Rightarrow> on_chunk_size ch p
      | c_chunk_signature_key \<Rightarrow> on_chunk_signature_key ch p
      | c_chunk_signature_value \<Rightarrow> on_chunk_signature_value ch p
      | c_cr \<Rightarrow> on_cr ch p
      | c_chunk_data \<Rightarrow> p
      | c_chunk_data_end_cr \<Rightarrow> on_chunk_data_end_cr ch p
      | c_chunk_data_end_lf \<Rightarrow> on_chunk_data_end_lf L ch p
      | c_error \<Rightarrow> p)"

section \<open>The loops of run\<close>

datatype 'p outcome = Continue 'p | Return 'p | Abort

function run_vec ::
    "sha256_lib \<Rightarrow> size_t \<Rightarrow> S3ChunkPayloadParser \<Rightarrow> bytes \<Rightarrow> S3ChunkPayloadParser outcome" where
  "run_vec L buf_size p0 [] = Continue p0"
| "run_vec L buf_size p0 (ch # rest) =
     (let p = begin_chunk L p0 in
      if parser_state p = c_error then Return p
      else if parser_state p = c_chunk_data then
        (if chunk_data_size_to_read p > 0 then
           (let data_len = min (unat (chunk_data_size_to_read p)) (length (ch # rest)) in
            case on_chunk_data L buf_size (take data_len (ch # rest)) p of
              None \<Rightarrow> Abort
            | Some p' \<Rightarrow> run_vec L buf_size p' (drop data_len (ch # rest)))
         else run_vec L buf_size (on_last_chunk L p) (ch # rest))
      else
        (let p' = switch_char L ch p in
         if parser_state p' = c_error then Return p' else run_vec L buf_size p' rest))"
  by pat_completeness auto
termination
proof (relation "measure (\<lambda>(L, b, p, bs).
         2 * length bs + (if parser_state p = c_chunk_data then 1 else 0))", goal_cases)
  case (2 L b p0 ch rest x y)
  then have "0 < unat (chunk_data_size_to_read x)" by (simp add: word_less_nat_alt)
  with 2 show ?case by (auto simp: min_def)
next
  case (3 L b p0 ch rest x)
  then show ?case by (auto simp: begin_chunk_def on_last_chunk_def split: if_splits)
qed auto

declare run_vec.simps [simp del]

fun run_vecs ::
    "sha256_lib \<Rightarrow> size_t \<Rightarrow> S3ChunkPayloadParser \<Rightarrow> bytes list \<Rightarrow> S3ChunkPayloadParser outcome" where
  "run_vecs L buf_size p [] = Continue p"
| "run_vecs L buf_size p (vec # vecs) =
     (case run_vec L buf_size p vec of
        Continue p' \<Rightarrow> run_vecs L buf_size p' vecs
      | Return p' \<Rightarrow> Return p'
      | Abort \<Rightarrow> Abort)"

text \<open>
  The end of \<open>run\<close>: when all the content has been seen the partially filled spares are
  handed out as well; then the drained input buffer becomes a spare.
\<close>

definition flush_spares :: "S3ChunkPayloadParser \<Rightarrow> S3ChunkPayloadParser" where
  "flush_spares p =
     (if content_length p = 0
      then p\<lparr>ready_buffers := ready_buffers p @ filter (\<lambda>b. b \<noteq> []) (spare_buffers p),
             spare_buffers := []\<rparr>
      else p)"

definition run :: "sha256_lib \<Rightarrow> size_t \<Rightarrow> bytes list \<Rightarrow> S3ChunkPayloadParser \<Rightarrow>
    (S3ChunkPayloadParser \<times> bytes list) option" where
  "run L buf_size vec_in p0 =
     (case run_vecs L buf_size (p0\<lparr>ready_buffers := []\<rparr>) vec_in of
        Abort \<Rightarrow> None
      | Return p \<Rightarrow> Some (p, ready_buffers p)
      | Continue p \<Rightarrow>
          (let p' = flush_spares p;
               p'' = p'\<lparr>spare_buffers := spare_buffers p' @ [[]]\<rparr>
           in Some (p'', ready_buffers p'')))"

definition is_chunk_detail_ready :: "S3ChunkPayloadParser \<Rightarrow> bool" where
  "is_chunk_detail_ready p =
     (case chunk_details p of [] \<Rightarrow> False | d # _ \<Rightarrow> ready d)"

definition pop_chunk_detail ::
    "sha256_lib \<Rightarrow> S3ChunkPayloadParser \<Rightarrow> (S3ChunkDetail \<times> S3ChunkPayloadParser) option" where
  "pop_chunk_detail L p =
     (case chunk_details p of
        [] \<Rightarrow> None
      | d # ds \<Rightarrow>
          Some (if ready d then (d, p\<lparr>chunk_details := ds\<rparr>) else (S3ChunkDetail_init L, p)))"

section \<open>Byte-level specification\<close>

text \<open>
  The specification reads one byte at a time and has no buffers: \<open>astep\<close> returns the
  new core and the payload bytes it emits.
\<close>

definition astep :: "sha256_lib \<Rightarrow> parser_core \<Rightarrow> char \<Rightarrow> parser_core \<times> bytes" where
  "astep L a0 ch =
     (let a = begin_chunk L a0 in
      if parser_state a = c_chunk_data then
        (if chunk_data_size_to_read a > 0 then (consume_data L [ch] a, [ch])
         else (on_chunk_data_end_cr ch (on_last_chunk L a), []))
      else (switch_char L ch a, []))"

fun afold :: "sha256_lib \<Rightarrow> parser_core \<Rightarrow> bytes \<Rightarrow> parser_core \<times> bytes" where
  "afold L a [] = (a, [])"
| "afold L a (ch # bs) =
     (let (a', o1) = astep L a ch; (a'', o2) = afold L a' bs in (a'', o1 @ o2))"

abbreviation core :: "S3ChunkPayloadParser \<Rightarrow> parser_core" where
  "core p \<equiv> parser_core.truncate p"

definition held :: "S3ChunkPayloadParser \<Rightarrow> bytes" where
  "held p = concat (ready_buffers p) @ concat (spare_buffers p)"

lemmas handler_defs =
  on_chunk_size_def on_chunk_signature_key_def on_chunk_signature_value_def on_cr_def
  on_chunk_data_end_cr_def on_chunk_data_end_lf_def on_last_chunk_def consume_data_def
  begin_chunk_def reset_parser_state_def setup_content_length_def

lemma afold_append:
  "afold L a (xs @ ys) =
     (let (a', o1) = afold L a xs; (a'', o2) = afold L a' ys in (a'', o1 @ o2))"
  by (induction xs arbitrary: a) (auto simp: Let_def split: prod.splits)

lemma afold_seq:
  "afold L a xs = (b, o1) \<Longrightarrow> afold L b ys = (c, o2) \<Longrightarrow> afold L a (xs @ ys) = (c, o1 @ o2)"
  by (simp add: afold_append)

lemma begin_chunk_idem [simp]: "begin_chunk L (begin_chunk L p) = begin_chunk L p"
  by (simp add: begin_chunk_def)

lemma begin_chunk_other [simp]: "parser_state p \<noteq> c_start \<Longrightarrow> begin_chunk L p = p"
  by (simp add: begin_chunk_def)

lemma begin_chunk_not_start [simp]: "parser_state (begin_chunk L p) \<noteq> c_start"
  by (simp add: begin_chunk_def)

lemma astep_begin_chunk [simp]: "astep L (begin_chunk L a) ch = astep L a ch"
  by (simp add: astep_def)

lemma astep_error: "parser_state a = c_error \<Longrightarrow> astep L a ch = (a, [])"
  by (simp add: astep_def switch_char_def)

lemma afold_error: "parser_state a = c_error \<Longrightarrow> afold L a bs = (a, [])"
  by (induction bs) (simp_all add: astep_error)

text \<open>Every handler works on the core alone.\<close>

lemma parser_state_core [simp]: "parser_state (core p) = parser_state p"
  and chunk_data_size_core [simp]: "chunk_data_size_to_read (core p) = chunk_data_size_to_read p"
  and content_length_core [simp]: "content_length (core p) = content_length p"
  and chunk_details_core [simp]: "chunk_details (core p) = chunk_details p"
  by (simp_all add: parser_core.truncate_def)

lemma core_begin_chunk: "core (begin_chunk L p) = begin_chunk L (core p)"
  by (cases p) (simp add: begin_chunk_def reset_parser_state_def parser_core.defs)

lemma core_switch_char: "core (switch_char L ch p) = switch_char L ch (core p)"
  by (cases p)
    (auto simp: switch_char_def handler_defs parser_core.defs Let_def
          split: ChunkParserState.splits list.splits)

lemma core_on_last_chunk: "core (on_last_chunk L p) = on_last_chunk L (core p)"
  by (cases p) (simp add: on_last_chunk_def parser_core.defs)

lemma core_consume_data: "core (consume_data L data p) = consume_data L data (core p)"
  by (cases p) (simp add: consume_data_def parser_core.defs Let_def)

lemmas core_simps = core_begin_chunk core_switch_char core_on_last_chunk core_consume_data

lemma held_handlers [simp]:
  "held (begin_chunk L p) = held p"
  "held (switch_char L ch p) = held p"
  "held (on_last_chunk L p) = held p"
  "held (consume_data L data p) = held p"
  by (auto simp: held_def handler_defs switch_char_def Let_def
      split: ChunkParserState.splits list.splits)

lemma add_to_spare_core: "add_to_spare b data p = Some p' \<Longrightarrow> core p' = core p"
  by (cases p) (auto simp: add_to_spare_def parser_core.defs Let_def split: list.splits if_splits)

definition tail_empty :: "S3ChunkPayloadParser \<Rightarrow> bool" where
  "tail_empty p \<longleftrightarrow> list_all (\<lambda>b. b = []) (tl (spare_buffers p))"

lemma concat_all_empty: "list_all (\<lambda>b. b = []) bs \<Longrightarrow> concat bs = []"
  by (induction bs) auto

lemma add_to_spare_held:
  assumes "add_to_spare b data p = Some p'" "tail_empty p"
  shows "held p' = held p @ data \<and> tail_empty p'"
  using assms
  by (auto simp: add_to_spare_def held_def tail_empty_def concat_all_empty Let_def
      split: list.splits if_splits)

lemma tail_empty_handlers [simp]:
  "tail_empty (begin_chunk L p) = tail_empty p"
  "tail_empty (switch_char L ch p) = tail_empty p"
  "tail_empty (on_last_chunk L p) = tail_empty p"
  "tail_empty (consume_data L data p) = tail_empty p"
  by (auto simp: tail_empty_def handler_defs switch_char_def Let_def
      split: ChunkParserState.splits list.splits)

lemma on_chunk_data_spec:
  assumes "on_chunk_data L b data p = Some p'" "tail_empty p"
  shows "core p' = consume_data L data (core p) \<and> held p' = held p @ data \<and> tail_empty p'"
  using assms add_to_spare_held [of b data p] add_to_spare_core [of b data p]
  by (auto simp: on_chunk_data_def core_simps)

section \<open>Batches of payload bytes\<close>

lemma update_hash_append:
  assumes "sha256_lib_ok L"
  shows "fst (update_hash L (Some ys) (fst (update_hash L (Some xs) d))) =
         fst (update_hash L (Some (xs @ ys)) d)"
  using assms
  by (auto simp: update_hash_def S3sha256_Update_def sha256_lib_ok_def Let_def split: prod.splits)

lemma consume_data_afold:
  assumes "sha256_lib_ok L" "parser_state a = c_chunk_data"
    and "data \<noteq> []" "length data \<le> unat (chunk_data_size_to_read a)"
  shows "afold L a data = (consume_data L data a, data)"
  using assms(2-)
proof (induction data arbitrary: a)
  case (Cons x xs)
  let ?a = "consume_data L [x] a"
  have pos: "0 < chunk_data_size_to_read a"
    using Cons.prems by (auto simp: word_less_nat_alt)
  have step: "astep L a x = (?a, [x])"
    using Cons.prems pos by (simp add: astep_def)
  have dec: "unat (chunk_data_size_to_read a - 1) = unat (chunk_data_size_to_read a) - 1"
    using pos by (simp add: unat_minus_one word_greater_zero_iff)
  show ?case
  proof (cases "xs = []")
    case True
    with step show ?thesis by simp
  next
    case False
    with Cons.prems dec have "0 < unat (chunk_data_size_to_read a - 1)" by (cases xs) auto
    then have nz: "chunk_data_size_to_read a - 1 \<noteq> 0" by (metis unat_0 less_irrefl)
    have st: "parser_state ?a = c_chunk_data" and len: "length xs \<le> unat (chunk_data_size_to_read ?a)"
      using Cons.prems nz dec by (auto simp: consume_data_def Let_def)
    have "consume_data L xs ?a = consume_data L (x # xs) a"
      using nz update_hash_append [OF assms(1), where xs = "[x]" and ys = xs]
      by (auto simp: consume_data_def Let_def algebra_simps)
    with Cons.IH [OF st False len] step show ?thesis by simp
  qed
qed simp


section \<open>The loops refine the specification\<close>

definition refines :: "sha256_lib \<Rightarrow> S3ChunkPayloadParser \<Rightarrow> bytes \<Rightarrow> S3ChunkPayloadParser \<Rightarrow> bool" where
  "refines L p bs p' \<longleftrightarrow>
     core p' = fst (afold L (core p) bs) \<and> held p' = held p @ snd (afold L (core p) bs)
     \<and> tail_empty p'"

fun outcome_ok :: "sha256_lib \<Rightarrow> S3ChunkPayloadParser \<Rightarrow> bytes \<Rightarrow> S3ChunkPayloadParser outcome \<Rightarrow> bool" where
  "outcome_ok L p bs (Continue p') = refines L p bs p'"
| "outcome_ok L p bs (Return p') = (refines L p bs p' \<and> parser_state p' = c_error)"
| "outcome_ok L p bs Abort = True"

lemma outcome_ok_trans:
  assumes "refines L p xs q" "outcome_ok L q ys r"
  shows "outcome_ok L p (xs @ ys) r"
  using assms by (cases r) (auto simp: refines_def afold_append Let_def split: prod.splits)

lemma refines_error:
  assumes "refines L p xs q" "parser_state q = c_error"
  shows "refines L p (xs @ ys) q"
  using assms by (auto simp: refines_def afold_append afold_error Let_def split: prod.splits)

lemma afold_begin_chunk: "bs \<noteq> [] \<Longrightarrow> afold L (begin_chunk L a) bs = afold L a bs"
  by (cases bs) simp_all

lemma outcome_ok_begin_chunk:
  "bs \<noteq> [] \<Longrightarrow> outcome_ok L (begin_chunk L p) bs r = outcome_ok L p bs r"
  by (cases r) (simp_all add: refines_def core_simps afold_begin_chunk)

lemma outcome_ok_last_chunk:
  assumes "parser_state p = c_chunk_data" "chunk_data_size_to_read p = 0"
    and "outcome_ok L (on_last_chunk L p) (ch # rest) r"
  shows "outcome_ok L p (ch # rest) r"
proof -
  have "astep L (core (on_last_chunk L p)) ch = astep L (core p) ch"
    using assms(1,2)
    by (simp add: astep_def core_simps) (simp add: on_last_chunk_def switch_char_def)
  then have "afold L (core (on_last_chunk L p)) (ch # rest) = afold L (core p) (ch # rest)"
    by simp
  with assms(3) show ?thesis by (cases r) (simp_all add: refines_def)
qed

lemma switch_char_refines:
  assumes "parser_state p \<noteq> c_chunk_data" "parser_state p \<noteq> c_start" "tail_empty p"
  shows "refines L p [ch] (switch_char L ch p)"
  using assms by (simp add: refines_def astep_def core_simps)

lemma run_vec_refines:
  assumes "sha256_lib_ok L" "tail_empty p"
  shows "outcome_ok L p bs (run_vec L b p bs)"
  using assms
proof (induction L b p bs rule: run_vec.induct)
  case (1 L b p)
  then show ?case by (simp add: run_vec.simps refines_def)
next
  case (2 L b p0 ch rest)
  define p where "p = begin_chunk L p0"
  let ?bs = "ch # rest"
  have te: "tail_empty p" using 2 by (simp add: p_def)
  have ns: "parser_state p \<noteq> c_start" by (simp add: p_def)
  have "outcome_ok L p ?bs (run_vec L b p0 ?bs)"
  proof (cases "parser_state p = c_error")
    case True
    then show ?thesis
      using te by (simp add: run_vec.simps refines_def p_def [symmetric] astep_error afold_error)
  next
    case ne: False
    show ?thesis
    proof (cases "parser_state p = c_chunk_data")
      case False
      have step: "refines L p [ch] (switch_char L ch p)"
        using switch_char_refines [OF False ns te] .
      show ?thesis
      proof (cases "parser_state (switch_char L ch p) = c_error")
        case True
        with step False ne show ?thesis
          using refines_error [of L p "[ch]" "switch_char L ch p" rest]
          by (simp add: run_vec.simps p_def [symmetric])
      next
        case cont: False
        have "outcome_ok L (switch_char L ch p) rest (run_vec L b (switch_char L ch p) rest)"
          using "2.IH"(3) [OF p_def ne False refl cont] te "2.prems" by simp
        with step False ne cont show ?thesis
          using outcome_ok_trans [of L p "[ch]"] by (simp add: run_vec.simps p_def [symmetric])
      qed
    next
      case data: True
      show ?thesis
      proof (cases "chunk_data_size_to_read p > 0")
        case False
        then have "outcome_ok L (on_last_chunk L p) ?bs (run_vec L b (on_last_chunk L p) ?bs)"
          using "2.IH"(2) [OF p_def ne data] te "2.prems" by simp
        with False data ne show ?thesis
          using outcome_ok_last_chunk [OF data]
          by (simp add: run_vec.simps(2) [of L b p0] p_def [symmetric] word_greater_zero_iff)
      next
        case pos: True
        define n where "n = min (unat (chunk_data_size_to_read p)) (length ?bs)"
        have n: "take n ?bs \<noteq> []" "length (take n ?bs) \<le> unat (chunk_data_size_to_read p)"
          using pos by (auto simp: n_def word_less_nat_alt min_def)
        show ?thesis
        proof (cases "on_chunk_data L b (take n ?bs) p")
          case None
          with pos data ne show ?thesis
            by (simp add: run_vec.simps(2) [of L b p0] p_def [symmetric] n_def Let_def)
        next
          case (Some p')
          have "refines L p (take n ?bs) p'"
            using on_chunk_data_spec [OF Some te]
              consume_data_afold [OF "2.prems"(1), of "core p" "take n ?bs"] data n
            by (simp add: refines_def)
          moreover have "outcome_ok L p' (drop n ?bs) (run_vec L b p' (drop n ?bs))"
            using "2.IH"(1) [OF p_def ne data pos n_def Some] on_chunk_data_spec [OF Some te] "2.prems"
            by simp
          ultimately have "outcome_ok L p (take n ?bs @ drop n ?bs) (run_vec L b p' (drop n ?bs))"
            by (rule outcome_ok_trans)
          with pos data ne Some show ?thesis
            by (simp add: run_vec.simps(2) [of L b p0] p_def [symmetric] n_def Let_def)
        qed
      qed
    qed
  qed
  then show ?case by (simp add: p_def outcome_ok_begin_chunk)
qed

lemma run_vecs_refines:
  assumes "sha256_lib_ok L" "tail_empty p"
  shows "outcome_ok L p (concat vecs) (run_vecs L b p vecs)"
  using assms(2)
proof (induction vecs arbitrary: p)
  case Nil
  then show ?case by (simp add: refines_def)
next
  case (Cons v vecs)
  have ok: "outcome_ok L p v (run_vec L b p v)"
    using run_vec_refines assms(1) Cons.prems by blast
  show ?case
  proof (cases "run_vec L b p v")
    case (Continue q)
    with ok have "refines L p v q" by simp
    with Cons.IH [of q] Continue show ?thesis
      using outcome_ok_trans by (simp add: refines_def)
  next
    case (Return q)
    with ok show ?thesis using refines_error by simp
  qed simp
qed


lemma flush_spares_core [simp]: "core (flush_spares p) = core p"
  by (cases p) (simp add: flush_spares_def parser_core.defs)

lemma flush_spares_held [simp]: "held (flush_spares p) = held p"
  by (simp add: flush_spares_def held_def)

lemma flush_spares_tail_empty: "tail_empty p \<Longrightarrow> tail_empty (flush_spares p)"
  by (simp add: flush_spares_def tail_empty_def)

lemma core_buffers [simp]:
  "core (p\<lparr>ready_buffers := r\<rparr>) = core p" "core (p\<lparr>spare_buffers := s\<rparr>) = core p"
  by (cases p, simp add: parser_core.defs)+

lemma run_refines:
  assumes "sha256_lib_ok L" "tail_empty p" "run L b vec p = Some (p', out)"
  shows "core p' = fst (afold L (core p) (concat vec))
    \<and> concat out @ concat (spare_buffers p') = concat (spare_buffers p) @ snd (afold L (core p) (concat vec))
    \<and> tail_empty p'"
proof -
  let ?p = "p\<lparr>ready_buffers := []\<rparr>"
  have te: "tail_empty ?p" using assms(2) by (simp add: tail_empty_def)
  note ok = run_vecs_refines [OF assms(1) te, of vec b]
  show ?thesis
  proof (cases "run_vecs L b ?p vec")
    case (Continue q)
    have "tail_empty (q\<lparr>spare_buffers := spare_buffers q @ [[]]\<rparr>)" if "tail_empty q" for q
      using that by (cases "spare_buffers q") (simp_all add: tail_empty_def)
    with ok Continue assms(3) flush_spares_held [of q] flush_spares_core [of q]
      flush_spares_tail_empty [of q]
    show ?thesis by (auto simp: run_def refines_def Let_def held_def)
  next
    case (Return q)
    with ok assms(3) show ?thesis by (auto simp: run_def refines_def held_def)
  next
    case Abort
    with assms(3) show ?thesis by (simp add: run_def)
  qed
qed

section \<open>Spare buffers never run out\<close>

text \<open>
  Between two calls of \<open>run\<close>: only the first spare holds data, at most \<open>buf_size\<close>
  bytes of it, and if it holds any then there is a second spare.
\<close>

definition spares_ok :: "size_t \<Rightarrow> S3ChunkPayloadParser \<Rightarrow> bool" where
  "spares_ok b p \<longleftrightarrow> spare_buffers p \<noteq> [] \<and> tail_empty p
     \<and> length (hd (spare_buffers p)) \<le> unat b
     \<and> (hd (spare_buffers p) = [] \<or> 2 \<le> length (spare_buffers p))"

text \<open>
  Inside \<open>run\<close>, with \<open>n\<close> bytes of the input buffer still to come: they fit in the
  free space of the spares.  Everything handed out so far is full.
\<close>

definition room :: "size_t \<Rightarrow> nat \<Rightarrow> S3ChunkPayloadParser \<Rightarrow> bool" where
  "room b n p \<longleftrightarrow> spare_buffers p \<noteq> [] \<and> tail_empty p
     \<and> length (hd (spare_buffers p)) \<le> unat b \<and> n \<le> unat b
     \<and> length (hd (spare_buffers p)) + n \<le> unat b * length (spare_buffers p)
     \<and> list_all (\<lambda>r. length r = unat b) (ready_buffers p)"

lemma room_handlers [simp]:
  "room b n (begin_chunk L p) = room b n p"
  "room b n (switch_char L ch p) = room b n p"
  "room b n (on_last_chunk L p) = room b n p"
  "room b n (consume_data L data p) = room b n p"
  by (auto simp: room_def tail_empty_def handler_defs switch_char_def Let_def
      split: ChunkParserState.splits list.splits)

lemma room_le: "room b n p \<Longrightarrow> m \<le> n \<Longrightarrow> room b m p"
  by (auto simp: room_def)

lemma add_to_spare_room:
  assumes "room b n p" "length data \<le> n"
  shows "\<exists>p'. add_to_spare b data p = Some p' \<and> room b (n - length data) p'"
proof -
  obtain s rest where s: "spare_buffers p = s # rest" using assms(1) by (cases "spare_buffers p") (auto simp: room_def)
  let ?free = "b - of_nat (length s)"
  have ls: "length s \<le> unat b" and n: "n \<le> unat b" "length s + n \<le> unat b * Suc (length rest)"
    using assms(1) s by (auto simp: room_def)
  have ub: "unat b < 2 ^ 64" using unsigned_less [of b] by simp
  have lb: "unat (of_nat (length s) :: size_t) = length s" "unat (of_nat (length data) :: size_t) = length data"
    using ls n assms(2) ub by (auto simp: unat_of_nat)
  have free: "unat ?free = unat b - length s"
    using ls lb by (subst unat_sub) (simp_all add: word_le_nat_alt)
  have le: "(of_nat (length data) \<le> ?free) = (length s + length data \<le> unat b)"
    using free lb ls by (auto simp: word_le_nat_alt)
  show ?thesis
  proof (cases "length s + length data \<le> unat b")
    case True
    with assms s le n show ?thesis
      by (auto simp: add_to_spare_def room_def tail_empty_def)
  next
    case False
    then have "rest \<noteq> []" using n assms(2) by auto
    then obtain s' rest' where r: "rest = s' # rest'" by (cases rest) auto
    have "s' = []" "list_all (\<lambda>b. b = []) rest'"
      using assms(1) s r by (auto simp: room_def tail_empty_def)
    with False assms s le n r ls show ?thesis
      by (auto simp: add_to_spare_def room_def tail_empty_def free Let_def)
  qed
qed

lemma on_chunk_data_room:
  assumes "room b n p" "length data \<le> n"
  shows "\<exists>p'. on_chunk_data L b data p = Some p' \<and> room b (n - length data) p'"
  using add_to_spare_room [OF assms] by (auto simp: on_chunk_data_def)

fun outcome_room :: "size_t \<Rightarrow> nat \<Rightarrow> S3ChunkPayloadParser outcome \<Rightarrow> bool" where
  "outcome_room b n (Continue p) = room b n p"
| "outcome_room b n (Return p) = (room b n p \<and> parser_state p = c_error)"
| "outcome_room b n Abort = False"

lemma run_vec_room:
  "room b (length bs + m) p \<Longrightarrow> outcome_room b m (run_vec L b p bs)"
proof (induction L b p bs rule: run_vec.induct)
  case (1 L b p)
  then show ?case by (simp add: run_vec.simps)
next
  case (2 L b p0 ch rest)
  define p where "p = begin_chunk L p0"
  let ?bs = "ch # rest"
  have rp: "room b (length ?bs + m) p" using "2.prems" by (simp add: p_def)
  have rm: "room b m p" and rr: "room b (length rest + m) p"
    using rp by (auto intro: room_le)
  define n where "n = min (unat (chunk_data_size_to_read p)) (length ?bs)"
  consider (err) "parser_state p = c_error"
    | (dat) "parser_state p = c_chunk_data" "chunk_data_size_to_read p > 0"
    | (last) "parser_state p = c_chunk_data" "\<not> chunk_data_size_to_read p > 0"
    | (chr) "parser_state p \<noteq> c_error" "parser_state p \<noteq> c_chunk_data"
    by blast
  then show ?case
  proof cases
    case err
    with rm show ?thesis by (simp add: run_vec.simps p_def [symmetric])
  next
    case dat
    obtain p' where p': "on_chunk_data L b (take n ?bs) p = Some p'"
        "room b (length ?bs + m - length (take n ?bs)) p'"
      using on_chunk_data_room [OF rp, of "take n ?bs" L] by (auto simp: min_le_iff_disj)
    have ne: "parser_state p \<noteq> c_error" using dat by simp
    have "outcome_room b m (run_vec L b p' (drop n ?bs))"
      using "2.IH"(1) [OF p_def ne dat n_def p'(1)] p'(2) by (auto simp: n_def elim: room_le)
    with dat p' show ?thesis
      by (simp add: run_vec.simps(2) [of L b p0] p_def [symmetric] n_def Let_def)
  next
    case last
    then have "outcome_room b m (run_vec L b (on_last_chunk L p) ?bs)"
      using "2.IH"(2) [OF p_def _ last] rp by simp
    with last show ?thesis
      by (simp add: run_vec.simps(2) [of L b p0] p_def [symmetric] Let_def)
  next
    case chr
    then show ?thesis
      using "2.IH"(3) [OF p_def chr refl] rm rr
      by (simp add: run_vec.simps(2) [of L b p0] p_def [symmetric] Let_def)
  qed
qed

lemma run_vecs_room:
  "room b (length (concat vecs) + m) p \<Longrightarrow> outcome_room b m (run_vecs L b p vecs)"
proof (induction vecs arbitrary: p)
  case (Cons v vecs)
  from Cons.prems have "room b (length v + (length (concat vecs) + m)) p" by (simp add: add.assoc)
  from run_vec_room [OF this, of L] show ?case
    by (cases "run_vec L b p v") (auto intro: Cons.IH room_le)
qed simp

lemma run_total:
  assumes "spares_ok b p" "length (concat vec) \<le> unat b"
  shows "\<exists>p' out. run L b vec p = Some (p', out)
    \<and> (parser_state p' \<noteq> c_error \<longrightarrow> spares_ok b p')
    \<and> (content_length p' \<noteq> 0 \<longrightarrow> list_all (\<lambda>r. length r = unat b) out)"
proof -
  let ?p = "p\<lparr>ready_buffers := []\<rparr>"
  have "length (hd (spare_buffers p)) + length (concat vec) \<le> unat b * length (spare_buffers p)"
  proof (cases "hd (spare_buffers p) = []")
    case True
    have "1 \<le> length (spare_buffers p)" using assms(1) by (simp add: spares_ok_def Suc_le_eq)
    then have "unat b * 1 \<le> unat b * length (spare_buffers p)" by (intro mult_le_mono order_refl)
    with True assms(2) show ?thesis by (simp only: list.size mult_1_right)
  next
    case False
    then have "unat b * 2 \<le> unat b * length (spare_buffers p)"
      using assms(1) by (intro mult_le_mono) (auto simp: spares_ok_def)
    moreover have "length (hd (spare_buffers p)) \<le> unat b" using assms(1) by (simp add: spares_ok_def)
    ultimately show ?thesis using assms(2) by linarith
  qed
  then have "room b (length (concat vec) + 0) ?p"
    using assms by (simp add: room_def spares_ok_def tail_empty_def)
  note ok = run_vecs_room [OF this, of L]
  show ?thesis
  proof (cases "run_vecs L b ?p vec")
    case (Continue q)
    with ok have "room b 0 q" by simp
    then obtain s rest where "spare_buffers q = s # rest" "list_all (\<lambda>b. b = []) rest" "length s \<le> unat b"
      "list_all (\<lambda>r. length r = unat b) (ready_buffers q)"
      by (cases "spare_buffers q") (auto simp: room_def tail_empty_def)
    with Continue show ?thesis
      by (auto simp: run_def flush_spares_def spares_ok_def tail_empty_def Let_def)
  next
    case (Return q)
    with ok show ?thesis by (simp add: run_def room_def)
  next
    case Abort
    with ok show ?thesis by simp
  qed
qed


section \<open>Well-formed bodies\<close>

text \<open>
  The wire format the header documents: the size in hexadecimal, the signature, the
  data, each chunk a pair of signature and data.
\<close>

type_synonym chunk = "string \<times> bytes"

definition encode_chunk :: "chunk \<Rightarrow> bytes" where
  "encode_chunk c =
     to_hex (length (snd c)) @ '';chunk-signature='' @ fst c @ [CR, LF] @ snd c @ [CR, LF]"

definition encode_chunks :: "chunk list \<Rightarrow> bytes" where
  "encode_chunks cs = concat (map encode_chunk cs)"

definition valid_chunk :: "chunk \<Rightarrow> bool" where
  "valid_chunk c \<longleftrightarrow> CR \<notin> set (fst c) \<and> length (snd c) < 2 ^ 63"

definition describes :: "sha256_lib \<Rightarrow> chunk \<Rightarrow> S3ChunkDetail \<Rightarrow> bool" where
  "describes L c d \<longleftrightarrow> chunk_size d = of_nat (length (snd c)) \<and> signature d = fst c
     \<and> Some (payload_hash d) = SHA256_Final_hex L (snd c) \<and> ready d"

lemma afold_size:
  "parser_state a = c_chunk_size \<Longrightarrow> CHR '';'' \<notin> set xs \<Longrightarrow>
   afold L a xs = (a\<lparr>current_chunk_size := current_chunk_size a @ xs\<rparr>, [])"
  by (induction xs arbitrary: a) (auto simp: astep_def switch_char_def on_chunk_size_def)

lemma afold_key:
  "parser_state a = c_chunk_signature_key \<Longrightarrow> chunk_sig_key_char_state a = xs @ ys \<Longrightarrow>
   afold L a xs = (a\<lparr>chunk_sig_key_char_state := ys\<rparr>, [])"
  by (induction xs arbitrary: a) (auto simp: astep_def switch_char_def on_chunk_signature_key_def)

lemma afold_signature:
  "parser_state a = c_chunk_signature_value \<Longrightarrow> CR \<notin> set xs \<Longrightarrow>
   afold L a xs = (a\<lparr>current_chunk_signature := current_chunk_signature a @ xs\<rparr>, [])"
  by (induction xs arbitrary: a) (auto simp: astep_def switch_char_def on_chunk_signature_value_def)

text \<open>The part of a chunk before its data.\<close>

lemma afold_header:
  assumes "parser_state a = c_start" "valid_chunk (sig, data)" "sha256_lib_ok L"
  shows "\<exists>a'. afold L a (to_hex (length data) @ '';chunk-signature='' @ sig @ [CR, LF]) = (a', [])
    \<and> parser_state a' = c_chunk_data \<and> chunk_data_size_to_read a' = of_nat (length data)
    \<and> content_length a' = content_length a \<and> chunk_details a' = chunk_details a
    \<and> chunk_size (current_chunk_detail a') = of_nat (length data)
    \<and> signature (current_chunk_detail a') = sig
    \<and> fed (hash_ctx (current_chunk_detail a')) = [] \<and> status (hash_ctx (current_chunk_detail a'))"
proof -
  let ?n = "length data"
  define a0 where "a0 = begin_chunk L a"
  define a1 where "a1 = a0\<lparr>current_chunk_size := to_hex ?n\<rparr>"
  define a2 where "a2 = on_chunk_size (CHR '';'') a1"
  define a3 where "a3 = a2\<lparr>chunk_sig_key_char_state := []\<rparr>"
  define a4 where "a4 = a3\<lparr>parser_state := c_chunk_signature_value\<rparr>"
  define a5 where "a5 = a4\<lparr>current_chunk_signature := sig\<rparr>"
  define a6 where "a6 = on_cr LF (a5\<lparr>parser_state := c_cr\<rparr>)"
  note a_defs = a0_def a1_def a2_def a3_def a4_def a5_def a6_def handler_defs
  have cr: "CR \<notin> set sig" and n: "?n < 2 ^ 63" using assms(2) by (auto simp: valid_chunk_def)
  have 1: "afold L a (to_hex ?n) = (a1, [])"
    using afold_size [of a0 "to_hex ?n" L] assms(1) afold_begin_chunk [of "to_hex ?n" L a]
    by (simp add: a1_def) (simp add: a0_def begin_chunk_def reset_parser_state_def)
  have st: "parser_state a1 = c_chunk_size" "parser_state a3 = c_chunk_signature_key"
    "chunk_sig_key_char_state a3 = []" "parser_state a4 = c_chunk_signature_value"
    "parser_state a5 = c_chunk_signature_value" "current_chunk_signature a4 = []"
    using assms(1) by (simp_all add: a_defs Let_def)
  have 2: "afold L a1 '';'' = (a2, [])"
    by (simp add: astep_def switch_char_def a2_def st)
  have 3: "afold L a2 ''chunk-signature'' = (a3, [])"
    unfolding a3_def using assms(1)
    by (intro afold_key) (simp_all add: a_defs S3_AWS_CHUNK_KEY_def Let_def)
  have 4: "afold L a3 ''='' = (a4, [])"
    by (simp add: astep_def switch_char_def a4_def st on_chunk_signature_key_def)
  have 5: "afold L a4 sig = (a5, [])"
    using afold_signature [of a4 sig L] cr st by (simp add: a5_def)
  have 6: "afold L a5 [CR, LF] = (a6, [])"
    by (simp add: astep_def switch_char_def a6_def st on_chunk_signature_value_def)
  have "afold L a (to_hex ?n @ '';chunk-signature='' @ sig @ [CR, LF]) = (a6, [])"
    using afold_seq [OF 1 afold_seq [OF 2 afold_seq [OF 3 afold_seq [OF 4 afold_seq [OF 5 6]]]]]
    by simp
  moreover have "strtol16 (to_hex ?n) = int ?n" using n by (rule strtol16_to_hex)
  ultimately show ?thesis
    using assms(1,3)
    by (intro exI [of _ a6])
      (simp add: a_defs Let_def add_size_def add_signature_def incr_chunk_number_def
        S3ChunkDetail_reset_def S3sha256_reset_def sha256_lib_ok_def)
qed

text \<open>The data of a chunk and its terminator, for empty and non-empty data.\<close>

lemma afold_data:
  assumes "parser_state a = c_chunk_data" "chunk_data_size_to_read a = of_nat (length data)"
    and "length data < 2 ^ 63" "sha256_lib_ok L"
    and "fed (hash_ctx (current_chunk_detail a)) = []" "status (hash_ctx (current_chunk_detail a))"
  shows "\<exists>a'. afold L a (data @ [CR]) = (a', data)
    \<and> parser_state a' = c_chunk_data_end_lf
    \<and> content_length a' = content_length a - of_nat (length data)
    \<and> chunk_details a' = chunk_details a
    \<and> chunk_size (current_chunk_detail a') = chunk_size (current_chunk_detail a)
    \<and> signature (current_chunk_detail a') = signature (current_chunk_detail a)
    \<and> fed (hash_ctx (current_chunk_detail a')) = data"
proof (cases "data = []")
  case True
  with assms show ?thesis
    by (simp add: astep_def handler_defs update_hash_def S3sha256_Update_def
        sha256_lib_ok_def)
next
  case False
  have len: "unat (chunk_data_size_to_read a) = length data"
    using assms(2,3) by (simp add: unat_of_nat)
  have "afold L a data = (consume_data L data a, data)"
    using consume_data_afold [OF assms(4,1) False] len by simp
  moreover have "parser_state (consume_data L data a) = c_chunk_data_end_cr"
    using assms(2) by (simp add: consume_data_def)
  ultimately show ?thesis
    using assms
    by (simp add: afold_append astep_def switch_char_def)
      (simp add: handler_defs update_hash_def S3sha256_Update_def sha256_lib_ok_def Let_def)
qed

lemma afold_encode_chunk:
  assumes "parser_state a = c_start" "valid_chunk c" "sha256_lib_ok L"
  shows "\<exists>a' d. afold L a (encode_chunk c) = (a', snd c) \<and> parser_state a' = c_start
    \<and> content_length a' = content_length a - of_nat (length (snd c))
    \<and> chunk_details a' = chunk_details a @ [d] \<and> describes L c d"
proof -
  obtain sig data where c: "c = (sig, data)" by (cases c)
  let ?h = "to_hex (length data) @ '';chunk-signature='' @ sig @ [CR, LF]"
  obtain a1 where a1: "afold L a ?h = (a1, [])" "parser_state a1 = c_chunk_data"
      "chunk_data_size_to_read a1 = of_nat (length data)" "content_length a1 = content_length a"
      "chunk_details a1 = chunk_details a"
      "chunk_size (current_chunk_detail a1) = of_nat (length data)"
      "signature (current_chunk_detail a1) = sig"
      "fed (hash_ctx (current_chunk_detail a1)) = []" "status (hash_ctx (current_chunk_detail a1))"
    using afold_header [OF assms(1) assms(2) [unfolded c] assms(3)] by blast
  have n: "length data < 2 ^ 63" using assms(2) by (simp add: valid_chunk_def c)
  obtain a2 where a2: "afold L a1 (data @ [CR]) = (a2, data)"
      "parser_state a2 = c_chunk_data_end_lf"
      "content_length a2 = content_length a1 - of_nat (length data)"
      "chunk_details a2 = chunk_details a1"
      "chunk_size (current_chunk_detail a2) = of_nat (length data)"
      "signature (current_chunk_detail a2) = sig"
      "fed (hash_ctx (current_chunk_detail a2)) = data"
    using afold_data [OF a1(2,3) n assms(3) a1(8,9)] a1(6,7) by auto
  define d where "d = fst (fini_hash L (current_chunk_detail a2))"
  let ?a3 = "a2\<lparr>parser_state := c_start, current_chunk_detail := d, chunk_details := chunk_details a2 @ [d]\<rparr>"
  have a3: "afold L a2 [LF] = (?a3, [])"
    using a2(2) by (simp add: astep_def switch_char_def on_chunk_data_end_lf_def d_def Let_def)
  have "encode_chunk c = ?h @ ((data @ [CR]) @ [LF])" by (simp add: encode_chunk_def c)
  then have "afold L a (encode_chunk c) = (?a3, data)"
    using afold_seq [OF a1(1) afold_seq [OF a2(1) a3]] by simp
  moreover obtain hex where "SHA256_Final_hex L data = Some hex"
    using assms(3) by (auto simp: sha256_lib_ok_def) blast
  then have "describes L c d"
    using a2 by (simp add: d_def describes_def c fini_hash_def S3sha256_Finalize_def get_hex_hash_def Let_def)
  ultimately show ?thesis using a1 a2 c by auto
qed

lemma afold_encode_chunks:
  assumes "list_all valid_chunk cs" "sha256_lib_ok L" "parser_state a = c_start"
  shows "\<exists>a' ds. afold L a (encode_chunks cs) = (a', concat (map snd cs)) \<and> parser_state a' = c_start
    \<and> content_length a' = content_length a - of_nat (length (concat (map snd cs)))
    \<and> chunk_details a' = chunk_details a @ ds \<and> list_all2 (describes L) cs ds"
  using assms(1,3)
proof (induction cs arbitrary: a)
  case Nil
  then show ?case by (simp add: encode_chunks_def)
next
  case (Cons c cs)
  obtain a1 d where 1: "afold L a (encode_chunk c) = (a1, snd c)" "parser_state a1 = c_start"
      "content_length a1 = content_length a - of_nat (length (snd c))"
      "chunk_details a1 = chunk_details a @ [d]" "describes L c d"
    using afold_encode_chunk [of a c L] Cons.prems assms(2) by auto
  obtain a2 ds where 2: "afold L a1 (encode_chunks cs) = (a2, concat (map snd cs))"
      "parser_state a2 = c_start"
      "content_length a2 = content_length a1 - of_nat (length (concat (map snd cs)))"
      "chunk_details a2 = chunk_details a1 @ ds" "list_all2 (describes L) cs ds"
    using Cons.IH [of a1] Cons.prems 1(2) by auto
  have "afold L a (encode_chunks (c # cs)) = (a2, concat (map snd (c # cs)))"
    using 1(1) 2(1) by (simp add: encode_chunks_def afold_append)
  with 1 2 show ?case by (auto simp: diff_diff_eq intro!: exI [of _ "d # ds"])
qed


text \<open>
  A carriage return inside a signature: after \<open>CR x\<close> the parser stays in \<open>c_cr\<close>, so
  each further character is preceded by a CR that was not sent, and a bare line feed
  ends the signature.
\<close>

lemma stray_cr_corrupts_signature:
  assumes "parser_state a = c_chunk_signature_value" "x \<notin> {CR, LF}" "y \<notin> {CR, LF}"
  shows "current_chunk_signature (fst (afold L a [CR, x, y]))
           = current_chunk_signature a @ [CR, x, CR, y]"
    and "parser_state (fst (afold L a [CR, x, LF])) = c_chunk_data"
  using assms by (simp_all add: astep_def switch_char_def on_chunk_signature_value_def on_cr_def Let_def)

section \<open>A whole request body\<close>

text \<open>
  The request object passes every incoming buffer to \<open>run\<close>; the outputs of the calls
  together are what the consumer gets.
\<close>

fun run_bufs :: "sha256_lib \<Rightarrow> size_t \<Rightarrow> S3ChunkPayloadParser \<Rightarrow> bytes list list \<Rightarrow>
    (S3ChunkPayloadParser \<times> bytes list) option" where
  "run_bufs L b p [] = Some (p, [])"
| "run_bufs L b p (buf # bufs) =
     (case run L b buf p of
        None \<Rightarrow> None
      | Some (p', out) \<Rightarrow>
          (case run_bufs L b p' bufs of
             None \<Rightarrow> None
           | Some (p'', outs) \<Rightarrow> Some (p'', out @ outs)))"

definition run_safe :: "size_t \<Rightarrow> S3ChunkPayloadParser \<Rightarrow> bool" where
  "run_safe b p \<longleftrightarrow> tail_empty p \<and> (parser_state p = c_error \<or> spares_ok b p)"

lemma run_vecs_error:
  "parser_state p = c_error \<Longrightarrow> run_vecs L b p vecs \<in> {Continue p, Return p}"
proof (induction vecs)
  case (Cons v vecs)
  then show ?case by (cases v) (auto simp: run_vec.simps)
qed simp

lemma run_error_total:
  assumes "parser_state p = c_error"
  shows "\<exists>p' out. run L b vec p = Some (p', out) \<and> parser_state p' = c_error"
proof -
  have "parser_state (p\<lparr>ready_buffers := []\<rparr>) = c_error" using assms by simp
  from run_vecs_error [OF this, of L b vec] show ?thesis
    using assms by (auto simp: run_def flush_spares_def Let_def)
qed

lemma run_safe_step:
  assumes "sha256_lib_ok L" "run_safe b p" "length (concat vec) \<le> unat b"
  shows "\<exists>p' out. run L b vec p = Some (p', out) \<and> run_safe b p'
    \<and> core p' = fst (afold L (core p) (concat vec))
    \<and> concat out @ concat (spare_buffers p') = concat (spare_buffers p) @ snd (afold L (core p) (concat vec))"
proof -
  have "\<exists>p' out. run L b vec p = Some (p', out) \<and> (parser_state p' = c_error \<or> spares_ok b p')"
    using assms(2,3) run_total [of b p vec L] run_error_total [of p L b vec]
    by (auto simp: run_safe_def)
  then obtain p' out where *: "run L b vec p = Some (p', out)" "parser_state p' = c_error \<or> spares_ok b p'"
    by blast
  with run_refines [OF assms(1) _ *(1)] assms(2) show ?thesis by (auto simp: run_safe_def)
qed

lemma run_bufs_total:
  assumes "sha256_lib_ok L" "run_safe b p" "list_all (\<lambda>v. length (concat v) \<le> unat b) bufs"
  shows "\<exists>p' out. run_bufs L b p bufs = Some (p', out) \<and> run_safe b p'
    \<and> core p' = fst (afold L (core p) (concat (map concat bufs)))
    \<and> concat out @ concat (spare_buffers p')
        = concat (spare_buffers p) @ snd (afold L (core p) (concat (map concat bufs)))"
  using assms(2,3)
proof (induction bufs arbitrary: p)
  case (Cons v bufs)
  obtain q out where q: "run L b v p = Some (q, out)" "run_safe b q"
      "core q = fst (afold L (core p) (concat v))"
      "concat out @ concat (spare_buffers q) = concat (spare_buffers p) @ snd (afold L (core p) (concat v))"
    using run_safe_step [OF assms(1) Cons.prems(1), of v] Cons.prems(2) by auto
  obtain r outs where r: "run_bufs L b q bufs = Some (r, outs)" "run_safe b r"
      "core r = fst (afold L (core q) (concat (map concat bufs)))"
      "concat outs @ concat (spare_buffers r)
        = concat (spare_buffers q) @ snd (afold L (core q) (concat (map concat bufs)))"
    using Cons.IH [OF q(2)] Cons.prems(2) by auto
  have "concat (out @ outs) @ concat (spare_buffers r) =
      (concat out @ concat (spare_buffers q)) @ snd (afold L (core q) (concat (map concat bufs)))"
    using r(4) by simp
  with q r show ?case by (simp add: afold_append Let_def split: prod.splits)
qed simp

lemma run_complete:
  assumes "run L b vec p = Some (p', out)" "content_length p' = 0" "parser_state p' \<noteq> c_error"
    and "sha256_lib_ok L" "tail_empty p"
  shows "concat (spare_buffers p') = []"
proof -
  have "tail_empty (p\<lparr>ready_buffers := []\<rparr>)" using assms(5) by (simp add: tail_empty_def)
  note ok = run_vecs_refines [OF assms(4) this, of vec b]
  show ?thesis
    using assms ok
    by (cases "run_vecs L b (p\<lparr>ready_buffers := []\<rparr>) vec")
      (auto simp: run_def flush_spares_def Let_def split: if_splits)
qed

lemma run_bufs_complete:
  assumes "run_bufs L b p bufs = Some (p', out)" "content_length p' = 0" "parser_state p' \<noteq> c_error"
    and "sha256_lib_ok L" "tail_empty p" "bufs \<noteq> [] \<or> concat (spare_buffers p) = []"
  shows "concat (spare_buffers p') = []"
  using assms(1,5,6)
proof (induction bufs arbitrary: p out)
  case (Cons v bufs)
  then obtain q o1 o2 where q: "run L b v p = Some (q, o1)" "run_bufs L b q bufs = Some (p', o2)"
    by (auto split: option.splits)
  have te: "tail_empty q" using run_refines [OF assms(4) Cons.prems(2) q(1)] by simp
  have "bufs = [] \<Longrightarrow> concat (spare_buffers q) = []"
    using run_complete [OF q(1)] q(2) assms Cons.prems by simp
  with Cons.IH [OF q(2) te] show ?case by blast
qed (use assms in simp)

section \<open>Properties\<close>

text \<open>C5: A request body that is the encoding of a list of chunks, cut into incoming buffers
  and extents in any way (each buffer no larger than a pool buffer), is parsed without
  error: the buffers handed out hold exactly the concatenated chunk data, and one chunk
  detail per chunk is queued, in order, with that chunk's size, signature and SHA-256.\<close>

theorem chunk_upload_roundtrip:
  assumes "sha256_lib_ok L" "list_all valid_chunk cs"
    and "concat (map concat bufs) = encode_chunks cs"
    and "list_all (\<lambda>buf. length (concat buf) \<le> unat b) bufs"
  shows "\<exists>p out. run_bufs L b
      (setup_content_length (of_nat (length (concat (map snd cs)))) (S3ChunkPayloadParser_init L)) bufs
        = Some (p, out)
    \<and> concat out = concat (map snd cs) \<and> parser_state p = c_start
    \<and> list_all2 (describes L) cs (chunk_details p)"
proof -
  let ?p0 = "setup_content_length (of_nat (length (concat (map snd cs)))) (S3ChunkPayloadParser_init L)"
  have init: "run_safe b ?p0" "concat (spare_buffers ?p0) = []" "parser_state ?p0 = c_start"
      "chunk_details ?p0 = []" "content_length ?p0 = of_nat (length (concat (map snd cs)))"
    by (simp_all add: S3ChunkPayloadParser_init_def setup_content_length_def run_safe_def
        tail_empty_def spares_ok_def)
  obtain a ds where a: "afold L (core ?p0) (encode_chunks cs) = (a, concat (map snd cs))"
      "parser_state a = c_start" "content_length a = 0" "chunk_details a = ds" "list_all2 (describes L) cs ds"
    using afold_encode_chunks [OF assms(2,1), of "core ?p0"] init by auto
  obtain p out where p: "run_bufs L b ?p0 bufs = Some (p, out)" "run_safe b p" "core p = a"
      "concat out @ concat (spare_buffers p) = concat (map snd cs)"
    using run_bufs_total [OF assms(1) init(1) assms(4)] assms(3) a(1) init(2) by auto
  have "parser_state p = c_start" "content_length p = 0" "chunk_details p = ds"
    using a p(3) parser_state_core [of p] content_length_core [of p] chunk_details_core [of p]
    by simp_all
  moreover from this have "concat (spare_buffers p) = []"
    using run_bufs_complete [OF p(1) _ _ assms(1)] init by (simp add: run_safe_def)
  then have "concat out = concat (map snd cs)" using p(4) by (simp only: append_Nil2)
  ultimately show ?thesis using p(1) a(5) by blast
qed

definition sample_lib :: sha256_lib where
  "sample_lib = \<lparr>SHA256_Init_ok = True, SHA256_Update_ok = (\<lambda>_ _. True),
     SHA256_Final_hex = (\<lambda>bs. Some (''sha:'' @ bs))\<rparr>"

theorem chunk_upload_roundtrip_witness:
  "\<exists>p out. run_bufs sample_lib 32
      (setup_content_length 3 (S3ChunkPayloadParser_init sample_lib))
      [[''3;chunk-sig'', ''nature=s1'' @ [CR]], [[LF] @ ''ab''], [''c'' @ [CR, LF] @ ''0;chunk-s''],
       [''ignature=s2'' @ [CR, LF, CR, LF]]]
        = Some (p, out)
    \<and> concat out = ''abc'' \<and> parser_state p = c_start
    \<and> list_all2 (describes sample_lib) [(''s1'', ''abc''), (''s2'', [])] (chunk_details p)"
proof -
  let ?cs = "[(''s1'', ''abc''), (''s2'', [])] :: chunk list"
  let ?bufs = "[[''3;chunk-sig'', ''nature=s1'' @ [CR]], [[LF] @ ''ab''],
       [''c'' @ [CR, LF] @ ''0;chunk-s''], [''ignature=s2'' @ [CR, LF, CR, LF]]]"
  have lib: "sha256_lib_ok sample_lib" by (simp add: sha256_lib_ok_def sample_lib_def)
  have valid: "list_all valid_chunk ?cs" by (simp add: valid_chunk_def CR_def)
  have enc: "concat (map concat ?bufs) = encode_chunks ?cs"
    by code_simp
  have len: "list_all (\<lambda>buf. length (concat buf) \<le> unat (32 :: size_t)) ?bufs"
    by simp
  show ?thesis using chunk_upload_roundtrip [OF lib valid enc len] by simp
qed

text \<open>C1: One call of \<open>run\<close> agrees with the byte-level specification, whatever the extents
  of the buffer are: the parser state is that of reading the bytes one at a time, and the
  bytes handed out followed by the bytes retained in the spares are the bytes retained
  before followed by the payload bytes of this buffer.  Payload data is neither lost,
  duplicated nor reordered.\<close>

theorem run_implements_byte_spec:
  assumes "sha256_lib_ok L" "tail_empty p" "run L b vec p = Some (p', out)"
  shows "core p' = fst (afold L (core p) (concat vec))
    \<and> concat out @ concat (spare_buffers p')
        = concat (spare_buffers p) @ snd (afold L (core p) (concat vec))"
  using run_refines [OF assms] by simp

theorem run_implements_byte_spec_witness:
  "\<exists>p' out. run sample_lib 4 [''2;chunk-signature=s'' @ [CR, LF, CHR ''a'']]
        (S3ChunkPayloadParser_init sample_lib) = Some (p', out)
    \<and> core p' = fst (afold sample_lib (core (S3ChunkPayloadParser_init sample_lib))
        (''2;chunk-signature=s'' @ [CR, LF, CHR ''a'']))
    \<and> concat out @ concat (spare_buffers p')
        = snd (afold sample_lib (core (S3ChunkPayloadParser_init sample_lib))
            (''2;chunk-signature=s'' @ [CR, LF, CHR ''a'']))"
proof -
  let ?p = "S3ChunkPayloadParser_init sample_lib"
  let ?v = "[''2;chunk-signature=s'' @ [CR, LF, CHR ''a'']]"
  have lib: "sha256_lib_ok sample_lib" by (simp add: sha256_lib_ok_def sample_lib_def)
  have te: "tail_empty ?p" by (simp add: tail_empty_def S3ChunkPayloadParser_init_def)
  have sp: "concat (spare_buffers ?p) = []" by (simp add: S3ChunkPayloadParser_init_def)
  have "\<exists>p' out. run sample_lib 4 ?v ?p = Some (p', out)"
    by (simp add: run_def run_vec.simps begin_chunk_def S3ChunkPayloadParser_init_def
        reset_parser_state_def switch_char_def on_chunk_size_def on_chunk_signature_key_def
        on_chunk_signature_value_def on_cr_def S3_AWS_CHUNK_KEY_def CR_def LF_def strtol16_def
        c_isspace_def drop_0x_def hex_val_def LONG_MAX_def on_chunk_data_def add_to_spare_def Let_def)
  then obtain p' out where r: "run sample_lib 4 ?v ?p = Some (p', out)" by blast
  show ?thesis using run_implements_byte_spec [OF lib te r] r sp by simp
qed

text \<open>C16: From the state in which the constructor leaves the parser and in which every
  successful call of \<open>run\<close> leaves it, a call on a buffer no larger than a pool buffer
  never takes the front of an empty spare queue and never fails the assertion of
  \<open>add_to_spare\<close>; no spare is filled beyond a pool buffer; and as long as content is
  still missing every buffer handed out is completely full.\<close>

theorem run_spares_suffice:
  assumes "spares_ok b p" "length (concat vec) \<le> unat b"
  shows "\<exists>p' out. run L b vec p = Some (p', out)
    \<and> (parser_state p' = c_error \<or> spares_ok b p')
    \<and> (content_length p' = 0 \<or> list_all (\<lambda>r. length r = unat b) out)"
  using run_total [OF assms, of L] by blast

theorem run_spares_suffice_witness:
  "\<exists>p' out. run sample_lib 16 [''zz'', ''yy''] (S3ChunkPayloadParser_init sample_lib) = Some (p', out)
    \<and> (parser_state p' = c_error \<or> spares_ok 16 p')
    \<and> (content_length p' = 0 \<or> list_all (\<lambda>r. length r = 16) out)"
proof -
  have ok: "spares_ok 16 (S3ChunkPayloadParser_init sample_lib)"
    by (simp add: spares_ok_def tail_empty_def S3ChunkPayloadParser_init_def)
  have len: "length (concat [''zz'', ''yy'']) \<le> unat (16 :: size_t)" by simp
  show ?thesis using run_spares_suffice [OF ok len, of sample_lib] by simp
qed

end
