(* ===== verification/Byte_Fifo.thy ===== *)
theory Byte_Fifo
  imports S3_Prelude
begin

text \<open>
  The contract of a container that receives bytes from the network side and gives them
  to a consumer in order.  \<open>pending s\<close> is what the container still holds, \<open>accepted op s\<close>
  the bytes an operation brings in, and \<open>step\<close> returns the bytes it gives out (\<open>None\<close>
  for a failed assertion of the code).  Every container of the development that buffers
  request data interprets this locale.  The client lemmas are about whole sequences of
  operations.
\<close>

type_synonym evbuf = "bytes list" \<comment> \<open>an event buffer as the list of its extents\<close>

abbreviation evbuffer_get_length :: "evbuf \<Rightarrow> nat" where
  "evbuffer_get_length buf \<equiv> length (concat buf)"

locale byte_fifo =
  fixes inv :: "'s \<Rightarrow> bool"
    and pending :: "'s \<Rightarrow> bytes"
    and allowed :: "'op \<Rightarrow> 's \<Rightarrow> bool"
    and accepted :: "'op \<Rightarrow> 's \<Rightarrow> bytes"
    and step :: "'op \<Rightarrow> 's \<Rightarrow> ('s \<times> bytes) option"
  assumes step_total: "inv s \<Longrightarrow> allowed op s \<Longrightarrow> \<exists>s' out. step op s = Some (s', out)"
    and step_inv: "inv s \<Longrightarrow> allowed op s \<Longrightarrow> step op s = Some (s', out) \<Longrightarrow> inv s'"
    and step_data: "inv s \<Longrightarrow> allowed op s \<Longrightarrow> step op s = Some (s', out) \<Longrightarrow>
      out @ pending s' = pending s @ accepted op s"
begin

fun exec :: "'op list \<Rightarrow> 's \<Rightarrow> ('s \<times> bytes) option" where
  "exec [] s = Some (s, [])"
| "exec (op # ops) s =
     (case step op s of
        None \<Rightarrow> None
      | Some (s', out) \<Rightarrow> map_option (\<lambda>(s'', outs). (s'', out @ outs)) (exec ops s'))"

fun all_allowed :: "'op list \<Rightarrow> 's \<Rightarrow> bool" where
  "all_allowed [] s = True"
| "all_allowed (op # ops) s =
     (allowed op s \<and> (case step op s of None \<Rightarrow> True | Some (s', out) \<Rightarrow> all_allowed ops s'))"

fun intake :: "'op list \<Rightarrow> 's \<Rightarrow> bytes" where
  "intake [] s = []"
| "intake (op # ops) s =
     accepted op s @ (case step op s of None \<Rightarrow> [] | Some (s', out) \<Rightarrow> intake ops s')"

lemma exec_fifo:
  "inv s \<Longrightarrow> all_allowed ops s \<Longrightarrow>
   \<exists>s' out. exec ops s = Some (s', out) \<and> inv s' \<and> out @ pending s' = pending s @ intake ops s"
proof (induction ops arbitrary: s)
  case (Cons op ops)
  then have ok: "allowed op s" by simp
  obtain t out where t: "step op s = Some (t, out)" using step_total Cons.prems(1) ok by blast
  note data = step_data [OF Cons.prems(1) ok t] and inv = step_inv [OF Cons.prems(1) ok t]
  obtain u outs where u: "exec ops t = Some (u, outs)" "inv u" "outs @ pending u = pending t @ intake ops t"
    using Cons.IH [OF inv] Cons.prems t by auto
  have "(out @ outs) @ pending u = pending s @ intake (op # ops) s"
  proof -
    have "(out @ outs) @ pending u = (out @ pending t) @ intake ops t" using u(3) by simp
    also have "\<dots> = pending s @ intake (op # ops) s" using data t by simp
    finally show ?thesis .
  qed
  with t u show ?case by simp
qed simp

lemma exec_prefix:
  "inv s \<Longrightarrow> pending s = [] \<Longrightarrow> all_allowed ops s \<Longrightarrow>
   \<exists>s' out. exec ops s = Some (s', out) \<and> inv s' \<and> take (length out) (intake ops s) = out
     \<and> length out + length (pending s') = length (intake ops s)"
proof -
  assume "inv s" "pending s = []" "all_allowed ops s"
  then obtain s' out where *: "exec ops s = Some (s', out)" "inv s'" "out @ pending s' = intake ops s"
    using exec_fifo by fastforce
  have "take (length out) (intake ops s) = out" by (simp add: *(3) [symmetric])
  moreover have "length out + length (pending s') = length (intake ops s)"
    by (simp add: *(3) [symmetric])
  ultimately show ?thesis using * by blast
qed

end

section \<open>Lengths of buffers in size_t\<close>

lemma unat_of_nat_size_t [simp]: "n < 2 ^ 64 \<Longrightarrow> unat (of_nat n :: size_t) = n"
  by (simp add: unat_of_nat)

lemma of_nat_le_size_t: "m < 2 ^ 64 \<Longrightarrow> (of_nat m \<le> (w :: size_t)) = (m \<le> unat w)"
  by (simp add: word_le_nat_alt)

lemma le_of_nat_size_t: "m < 2 ^ 64 \<Longrightarrow> ((w :: size_t) \<le> of_nat m) = (unat w \<le> m)"
  by (simp add: word_le_nat_alt)

lemma unat_minus_of_nat: "m \<le> unat (w :: size_t) \<Longrightarrow> unat (w - of_nat m) = unat w - m"
  by (metis le_unat_uoi unat_sub word_le_nat_alt)

end
