(* ===== verification/Async_Buffer.thy ===== *)
theory Async_Buffer
  imports Byte_Fifo
begin

text \<open>
  \<open>server/s3_async_buffer.cc\<close>: the buffer container that hands out references to its
  data and drops it when the consumer reports how much it has used.  \<open>calloc_ok n\<close> is
  whether the allocation of an array of \<open>n\<close> extents succeeds.
\<close>

record S3AsyncBufferContainer =
  buffered_input :: "evbuf list"
  buffered_input_length :: size_t
  is_expecting_more :: bool
  count_bufs_shared_for_read :: size_t

definition S3AsyncBufferContainer_init :: S3AsyncBufferContainer where
  "S3AsyncBufferContainer_init =
     \<lparr>buffered_input = [], buffered_input_length = 0, is_expecting_more = True,
      count_bufs_shared_for_read = 0\<rparr>"

definition freeze :: "S3AsyncBufferContainer \<Rightarrow> S3AsyncBufferContainer" where
  "freeze c = c\<lparr>is_expecting_more := False\<rparr>"

definition is_freezed :: "S3AsyncBufferContainer \<Rightarrow> bool" where
  "is_freezed c = (\<not> is_expecting_more c)"

definition add_content :: "evbuf \<Rightarrow> S3AsyncBufferContainer \<Rightarrow> S3AsyncBufferContainer" where
  "add_content buf c =
     c\<lparr>buffered_input := buffered_input c @ [buf],
       buffered_input_length := buffered_input_length c + of_nat (evbuffer_get_length buf)\<rparr>"

text \<open>The local variables of \<open>get_buffers_ref\<close> that change in its loops.\<close>

record ref_state =
  data_items :: "bytes list"
  expected_content_size :: size_t
  size_we_can_share :: size_t
  shared_count :: size_t

text \<open>The loop over the extents of one buffer; the second result is the early return.\<close>

fun ref_extents :: "bool \<Rightarrow> bool \<Rightarrow> bytes list \<Rightarrow> ref_state \<Rightarrow> ref_state \<times> bool" where
  "ref_extents expecting shared [] st = (st, False)"
| "ref_extents expecting shared (v # vs) st =
     (let want = expected_content_size st; n = of_nat (length v) in
      if want > 0 \<and> (size_we_can_share st \<ge> want \<or> \<not> expecting) then
        (let st1 =
           (if want \<ge> n
            then st\<lparr>data_items := data_items st @ [v],
                    expected_content_size := want - n,
                    size_we_can_share := size_we_can_share st - n\<rparr>
            else st\<lparr>data_items := data_items st @ [take (unat want) v],
                    size_we_can_share := size_we_can_share st - want,
                    expected_content_size := 0\<rparr>)
         in ref_extents expecting True vs
              (if shared then st1 else st1\<lparr>shared_count := shared_count st1 + 1\<rparr>))
      else (st, True))"

fun ref_bufs :: "(nat \<Rightarrow> bool) \<Rightarrow> bool \<Rightarrow> evbuf list \<Rightarrow> ref_state \<Rightarrow> ref_state" where
  "ref_bufs calloc_ok expecting [] st = st"
| "ref_bufs calloc_ok expecting (b # bs) st =
     (if \<not> calloc_ok (length b) then st
      else
        (let (st', stop) = ref_extents expecting False b st in
         if stop then st' else ref_bufs calloc_ok expecting bs st'))"

definition get_buffers_ref ::
    "(nat \<Rightarrow> bool) \<Rightarrow> size_t \<Rightarrow> S3AsyncBufferContainer \<Rightarrow> S3AsyncBufferContainer \<times> bytes list" where
  "get_buffers_ref calloc_ok n c =
     (let st = \<lparr>data_items = [], expected_content_size = n,
                size_we_can_share = buffered_input_length c, shared_count = 0\<rparr>;
          st' = (if size_we_can_share st \<ge> n \<or> \<not> is_expecting_more c
                 then ref_bufs calloc_ok (is_expecting_more c) (buffered_input c) st else st)
      in (c\<lparr>count_bufs_shared_for_read := shared_count st'\<rparr>, data_items st'))"

text \<open>\<open>evbuffer_drain (buf, n)\<close> removes the first \<open>n\<close> bytes of a buffer.\<close>

fun evbuffer_drain :: "nat \<Rightarrow> evbuf \<Rightarrow> evbuf" where
  "evbuffer_drain n [] = []"
| "evbuffer_drain n (v # vs) =
     (if length v \<le> n then evbuffer_drain (n - length v) vs else drop n v # vs)"

fun consume_bufs :: "nat \<Rightarrow> size_t \<Rightarrow> S3AsyncBufferContainer \<Rightarrow> S3AsyncBufferContainer" where
  "consume_bufs 0 size_consumed c = c"
| "consume_bufs (Suc i) size_consumed c =
     (case buffered_input c of
        [] \<Rightarrow> c
      | buf # bufs \<Rightarrow>
          (let len = of_nat (evbuffer_get_length buf) in
           if size_consumed > 0 then
             (if size_consumed \<ge> len
              then consume_bufs i (size_consumed - len)
                     (c\<lparr>buffered_input_length := buffered_input_length c - len, buffered_input := bufs\<rparr>)
              else consume_bufs i 0
                     (c\<lparr>buffered_input := evbuffer_drain (unat size_consumed) buf # bufs,
                        buffered_input_length := buffered_input_length c - size_consumed\<rparr>))
           else consume_bufs i size_consumed c))"

definition mark_size_of_data_consumed :: "size_t \<Rightarrow> S3AsyncBufferContainer \<Rightarrow> S3AsyncBufferContainer" where
  "mark_size_of_data_consumed n c = consume_bufs (unat (count_bufs_shared_for_read c)) n c"

text \<open>
  The loop of \<open>get_content_as_string\<close>: it appends buffer after buffer; when an
  allocation fails the content is dropped and so are the remaining buffers.
\<close>

fun content_loop :: "(nat \<Rightarrow> bool) \<Rightarrow> evbuf list \<Rightarrow> bytes \<Rightarrow> bytes" where
  "content_loop calloc_ok [] content = content"
| "content_loop calloc_ok (b # bs) content =
     (if \<not> calloc_ok (length b) then [] else content_loop calloc_ok bs (content @ concat b))"

definition get_content_as_string ::
    "(nat \<Rightarrow> bool) \<Rightarrow> S3AsyncBufferContainer \<Rightarrow> S3AsyncBufferContainer \<times> bytes" where
  "get_content_as_string calloc_ok c =
     (if is_freezed c
      then (c\<lparr>buffered_input := [], buffered_input_length := 0\<rparr>,
            content_loop calloc_ok (buffered_input c) [])
      else (c\<lparr>buffered_input_length := 0\<rparr>, []))"

section \<open>What the container holds\<close>

definition ab_pending :: "S3AsyncBufferContainer \<Rightarrow> bytes" where
  "ab_pending c = concat (map concat (buffered_input c))"

definition ab_inv :: "S3AsyncBufferContainer \<Rightarrow> bool" where
  "ab_inv c \<longleftrightarrow> length (ab_pending c) < 2 ^ 64
     \<and> buffered_input_length c = of_nat (length (ab_pending c))"

datatype ab_op = Ab_add evbuf | Ab_get size_t | Ab_consume size_t | Ab_freeze | Ab_string

text \<open>The bytes an operation gives out for good: what \<open>mark_size_of_data_consumed\<close> drops
  and what \<open>get_content_as_string\<close> returns.\<close>

fun ab_step :: "ab_op \<Rightarrow> S3AsyncBufferContainer \<Rightarrow> (S3AsyncBufferContainer \<times> bytes) option" where
  "ab_step (Ab_add b) c = Some (add_content b c, [])"
| "ab_step (Ab_get n) c = Some (fst (get_buffers_ref (\<lambda>_. True) n c), [])"
| "ab_step (Ab_consume n) c =
     (let c' = mark_size_of_data_consumed n c in
      Some (c', take (length (ab_pending c) - length (ab_pending c')) (ab_pending c)))"
| "ab_step Ab_freeze c = Some (freeze c, [])"
| "ab_step Ab_string c = Some (get_content_as_string (\<lambda>_. True) c)"

text \<open>Memory bounds what can be added; the string is only asked for when frozen.\<close>

fun ab_allowed :: "ab_op \<Rightarrow> S3AsyncBufferContainer \<Rightarrow> bool" where
  "ab_allowed (Ab_add b) c = (length (ab_pending c) + evbuffer_get_length b < 2 ^ 64)"
| "ab_allowed Ab_string c = is_freezed c"
| "ab_allowed _ c = True"

fun ab_accepted :: "ab_op \<Rightarrow> S3AsyncBufferContainer \<Rightarrow> bytes" where
  "ab_accepted (Ab_add b) c = concat b"
| "ab_accepted _ c = []"

section \<open>Lemmas\<close>

lemma concat_evbuffer_drain: "concat (evbuffer_drain n vs) = drop n (concat vs)"
  by (induction n vs rule: evbuffer_drain.induct) auto

lemma content_loop_ok: "content_loop (\<lambda>_. True) bs content = content @ concat (map concat bs)"
  by (induction bs arbitrary: content) simp_all

lemma get_buffers_ref_pending [simp]:
  "ab_pending (fst (get_buffers_ref ok n c)) = ab_pending c"
  "buffered_input_length (fst (get_buffers_ref ok n c)) = buffered_input_length c"
  by (simp_all add: get_buffers_ref_def ab_pending_def Let_def)

lemma consume_bufs_spec:
  assumes "ab_inv c"
  shows "\<exists>k \<le> unat n. ab_pending (consume_bufs i n c) = drop k (ab_pending c) \<and> ab_inv (consume_bufs i n c)"
  using assms
proof (induction i n c rule: consume_bufs.induct)
  case (1 n c)
  then show ?case by (auto intro: exI [of _ 0])
next
  case (2 i n c)
  show ?case
  proof (cases "buffered_input c")
    case Nil
    with 2 show ?thesis by (auto intro: exI [of _ 0])
  next
    case (Cons buf bufs)
    let ?len = "evbuffer_get_length buf"
    let ?all = "c\<lparr>buffered_input_length := buffered_input_length c - of_nat ?len, buffered_input := bufs\<rparr>"
    let ?part = "c\<lparr>buffered_input := evbuffer_drain (unat n) buf # bufs,
                  buffered_input_length := buffered_input_length c - n\<rparr>"
    define r where "r = concat (map concat bufs)"
    have r: "ab_pending ?all = r" by (simp add: ab_pending_def r_def)
    have p: "ab_pending c = concat buf @ r" using Cons by (simp add: ab_pending_def r_def)
    have len: "?len < 2 ^ 64" "length r < 2 ^ 64"
        "buffered_input_length c = of_nat ?len + of_nat (length r)"
      using "2.prems" p by (simp_all add: ab_inv_def)
    consider "n = 0" | "n > 0" "of_nat ?len \<le> n" | "n > 0" "\<not> of_nat ?len \<le> n"
      by (auto simp: word_greater_zero_iff)
    then show ?thesis
    proof cases
      case 1
      with "2.IH"(3) [OF Cons refl] "2.prems" Cons show ?thesis by simp
    next
      case 2: 2
      have "ab_inv ?all" using len r by (simp add: ab_inv_def)
      then obtain k where k: "k \<le> unat (n - of_nat ?len)"
          "ab_pending (consume_bufs i (n - of_nat ?len) ?all) = drop k (ab_pending ?all)"
          "ab_inv (consume_bufs i (n - of_nat ?len) ?all)"
        using "2.IH"(1) [OF Cons refl 2] by blast
      have "?len \<le> unat n" using 2(2) len(1) by (simp add: word_le_nat_alt)
      then have "?len + k \<le> unat n" using k(1) by (simp add: unat_minus_of_nat)
      with k 2 Cons p r show ?thesis by (intro exI [of _ "?len + k"]) (simp add: Let_def)
    next
      case 3
      then have lt: "unat n < ?len" using len(1) by (simp add: word_le_nat_alt)
      have pp: "ab_pending ?part = drop (unat n) (ab_pending c)"
        using lt p by (simp add: concat_evbuffer_drain r_def) (simp add: ab_pending_def concat_evbuffer_drain)
      have "length (ab_pending ?part) = length (ab_pending c) - unat n" by (simp add: pp)
      moreover have "of_nat (length (ab_pending c) - unat n) = (of_nat (length (ab_pending c)) - n :: size_t)"
        using lt p by (subst of_nat_diff) simp_all
      ultimately have "ab_inv ?part" using "2.prems" by (simp add: ab_inv_def less_imp_diff_less)
      with "2.IH"(2) [OF Cons refl 3] obtain k where "k \<le> unat (0 :: size_t)"
          "ab_pending (consume_bufs i 0 ?part) = drop k (ab_pending ?part)" "ab_inv (consume_bufs i 0 ?part)"
        by blast
      with 3 Cons pp show ?thesis by (intro exI [of _ "unat n"]) (simp add: Let_def)
    qed
  qed
qed

lemma mark_consumed_spec:
  assumes "ab_inv c"
  obtains k where "k \<le> unat n" "ab_pending (mark_size_of_data_consumed n c) = drop k (ab_pending c)"
    "ab_inv (mark_size_of_data_consumed n c)"
  using consume_bufs_spec [OF assms] by (auto simp: mark_size_of_data_consumed_def)

lemma take_dropped: "take (length xs - length (drop k xs)) xs @ drop k xs = xs"
  by (cases "k \<le> length xs") simp_all

interpretation ab: byte_fifo ab_inv ab_pending ab_allowed ab_accepted ab_step
proof (unfold_locales, goal_cases)
  case (1 s op)
  show ?case by (cases op) (auto simp: Let_def intro: prod.exhaust [of "get_content_as_string _ _"])
next
  case (2 s op s' out)
  show ?case
  proof (cases op)
    case (Ab_consume n)
    with 2 mark_consumed_spec [OF 2(1), of n] show ?thesis by (auto simp: Let_def)
  qed (use 2 in \<open>auto simp: ab_inv_def ab_pending_def add_content_def freeze_def
        get_content_as_string_def get_buffers_ref_def Let_def\<close>)
next
  case (3 s op s' out)
  show ?case
  proof (cases op)
    case (Ab_consume n)
    obtain k where "ab_pending (mark_size_of_data_consumed n s) = drop k (ab_pending s)"
      using mark_consumed_spec [OF 3(1)] by blast
    with 3 Ab_consume take_dropped [of "ab_pending s" k] show ?thesis by (auto simp: Let_def)
  qed (use 3 in \<open>auto simp: ab_pending_def add_content_def freeze_def
        get_content_as_string_def content_loop_ok get_buffers_ref_def is_freezed_def Let_def\<close>)
qed


section \<open>References handed out\<close>

lemma ref_extents_spec:
  assumes "expected_content_size st \<le> size_we_can_share st \<or> \<not> expecting"
    and "length (concat vs) < 2 ^ 64" "ref_extents expecting shared vs st = (st', stop)"
  shows "concat (data_items st')
           = concat (data_items st) @ take (unat (expected_content_size st)) (concat vs)
    \<and> unat (expected_content_size st') = unat (expected_content_size st) - length (concat vs)
    \<and> (expected_content_size st' \<le> size_we_can_share st' \<or> \<not> expecting)
    \<and> (stop \<longrightarrow> expected_content_size st' = 0)"
  using assms
proof (induction expecting shared vs st arbitrary: st' stop rule: ref_extents.induct)
  case (2 expecting shared v vs st)
  let ?want = "expected_content_size st" and ?n = "of_nat (length v) :: size_t"
  have n: "unat ?n = length v" using "2.prems"(2) by simp
  show ?case
  proof (cases "?want = 0")
    case True
    with "2.prems" show ?thesis by simp
  next
    case False
    define st1 where "st1 =
       (if ?want \<ge> ?n
        then st\<lparr>data_items := data_items st @ [v], expected_content_size := ?want - ?n,
                size_we_can_share := size_we_can_share st - ?n\<rparr>
        else st\<lparr>data_items := data_items st @ [take (unat ?want) v],
                size_we_can_share := size_we_can_share st - ?want, expected_content_size := 0\<rparr>)"
    define st2 where "st2 = (if shared then st1 else st1\<lparr>shared_count := shared_count st1 + 1\<rparr>)"
    have cond: "?want > 0 \<and> (size_we_can_share st \<ge> ?want \<or> \<not> expecting)"
      using False "2.prems"(1) by (simp add: word_greater_zero_iff)
    have rec: "ref_extents expecting True vs st2 = (st', stop)"
      using "2.prems"(3) cond by (simp add: Let_def st1_def [symmetric] st2_def [symmetric])
    have want2: "unat (expected_content_size st2) = unat ?want - length v"
      using n by (auto simp: st2_def st1_def word_le_nat_alt unat_minus_of_nat)
    have items2: "concat (data_items st2) = concat (data_items st) @ take (unat ?want) v"
      using n by (auto simp: st2_def st1_def word_le_nat_alt)
    have share2: "expected_content_size st2 \<le> size_we_can_share st2 \<or> \<not> expecting"
      using cond by (auto simp: st2_def st1_def word_le_nat_alt unat_sub)
    have len: "length (concat vs) < 2 ^ 64" using "2.prems"(2) by simp
    from "2.IH" [OF refl refl cond st1_def share2 [unfolded st2_def] len rec [unfolded st2_def]]
    show ?thesis using want2 items2 by (auto simp: st2_def [symmetric])
  qed
qed auto

lemma ref_bufs_spec:
  assumes "expected_content_size st \<le> size_we_can_share st \<or> \<not> expecting"
    and "length (concat (map concat bs)) < 2 ^ 64"
  shows "concat (data_items (ref_bufs (\<lambda>_. True) expecting bs st))
    = concat (data_items st) @ take (unat (expected_content_size st)) (concat (map concat bs))"
  using assms
proof (induction bs arbitrary: st)
  case (Cons b bs)
  obtain st' stop where e: "ref_extents expecting False b st = (st', stop)" by fastforce
  have "length (concat b) < 2 ^ 64" "length (concat (map concat bs)) < 2 ^ 64"
    using Cons.prems(2) by simp_all
  with ref_extents_spec [OF Cons.prems(1) _ e] Cons.IH [of st'] e show ?case by auto
qed simp

text \<open>With enough data buffered, or when no more will come, \<open>get_buffers_ref\<close> hands out
  exactly the first \<open>expected_content_size\<close> bytes held (all of them if there are fewer);
  otherwise nothing.  It removes nothing: the container still holds the same bytes.\<close>

theorem get_buffers_ref_prefix:
  assumes "ab_inv c"
  shows "concat (snd (get_buffers_ref (\<lambda>_. True) n c))
      = (if is_expecting_more c \<and> length (ab_pending c) < unat n then []
         else take (unat n) (ab_pending c))
    \<and> ab_pending (fst (get_buffers_ref (\<lambda>_. True) n c)) = ab_pending c"
proof -
  have len: "length (ab_pending c) < 2 ^ 64" "buffered_input_length c = of_nat (length (ab_pending c))"
    using assms by (auto simp: ab_inv_def)
  have le: "(n \<le> buffered_input_length c) = (unat n \<le> length (ab_pending c))"
    using len by (simp add: le_of_nat_size_t)
  let ?st = "\<lparr>data_items = [], expected_content_size = n,
              size_we_can_share = buffered_input_length c, shared_count = 0\<rparr>"
  have "concat (data_items (ref_bufs (\<lambda>_. True) (is_expecting_more c) (buffered_input c) ?st))
      = take (unat n) (ab_pending c)" if "n \<le> buffered_input_length c \<or> \<not> is_expecting_more c"
    using ref_bufs_spec [of ?st "is_expecting_more c" "buffered_input c"] that len(1)
    by (simp add: ab_pending_def)
  then have "concat (snd (get_buffers_ref (\<lambda>_. True) n c))
      = (if is_expecting_more c \<and> length (ab_pending c) < unat n then []
         else take (unat n) (ab_pending c))"
    using le by (auto simp: get_buffers_ref_def Let_def)
  then show ?thesis by simp
qed

theorem get_buffers_ref_prefix_witness:
  "concat (snd (get_buffers_ref (\<lambda>_. True) 4 (add_content [''cd'', ''e''] (add_content [''ab''] S3AsyncBufferContainer_init))))
     = ''abcd''"
proof -
  let ?c = "add_content [''cd'', ''e''] (add_content [''ab''] S3AsyncBufferContainer_init)"
  have p: "ab_pending ?c = ''abcde''"
    by (simp add: ab_pending_def add_content_def S3AsyncBufferContainer_init_def)
  have "ab_inv ?c"
    unfolding ab_inv_def p by (simp add: add_content_def S3AsyncBufferContainer_init_def)
  from get_buffers_ref_prefix [OF this, of 4] p show ?thesis by simp
qed

end
