(* ===== verification/Async_Buffer_Opt.thy ===== *)
theory Async_Buffer_Opt
  imports Byte_Fifo
begin

text \<open>
  \<open>server/s3_async_buffer_opt.cc\<close>: the zero-copy container between the HTTP layer and the
  Motr writer.  \<open>ready_q\<close> holds buffers not yet given out, \<open>processing_q\<close> the ones the
  consumer is reading; sizes are \<open>size_t\<close>.  A failed assertion is \<open>None\<close>.
\<close>

record S3AsyncBufferOptContainer =
  ready_q :: "evbuf list"
  processing_q :: "evbuf list"
  content_length :: size_t
  is_expecting_more :: bool
  count_bufs_shared_for_read :: size_t
  size_of_each_evbuf :: size_t

definition S3AsyncBufferOptContainer_init :: "size_t \<Rightarrow> S3AsyncBufferOptContainer option" where
  "S3AsyncBufferOptContainer_init size_of_each_buf =
     (if unat size_of_each_buf mod 4096 \<noteq> 0 then None
      else Some \<lparr>ready_q = [], processing_q = [], content_length = 0, is_expecting_more = True,
                 count_bufs_shared_for_read = 0, size_of_each_evbuf = size_of_each_buf\<rparr>)"

definition freeze :: "S3AsyncBufferOptContainer \<Rightarrow> S3AsyncBufferOptContainer" where
  "freeze c = c\<lparr>is_expecting_more := False\<rparr>"

definition is_freezed :: "S3AsyncBufferOptContainer \<Rightarrow> bool" where
  "is_freezed c = (\<not> is_expecting_more c)"

definition get_content_length :: "S3AsyncBufferOptContainer \<Rightarrow> size_t" where
  "get_content_length c = content_length c"

text \<open>\<open>None\<close> as the buffer is the null pointer.\<close>

definition add_content ::
    "evbuf option \<Rightarrow> bool \<Rightarrow> bool \<Rightarrow> bool \<Rightarrow> S3AsyncBufferOptContainer \<Rightarrow>
     S3AsyncBufferOptContainer \<times> bool" where
  "add_content buf_ptr is_first_buf is_last_buf is_put_request c =
     (case buf_ptr of
        None \<Rightarrow> (c, False)
      | Some buf \<Rightarrow>
          (let len = of_nat (evbuffer_get_length buf);
               c1 = (if is_last_buf then freeze c else c) in
           if \<not> is_last_buf \<and> size_of_each_evbuf c \<noteq> len
              \<and> (is_put_request \<or> (\<not> is_put_request \<and> \<not> is_first_buf))
           then (c1, False)
           else (c1\<lparr>ready_q := ready_q c1 @ [buf], content_length := content_length c1 + len\<rparr>, True)))"

fun flush_loop :: "evbuf list \<Rightarrow> S3AsyncBufferOptContainer \<Rightarrow> S3AsyncBufferOptContainer" where
  "flush_loop [] c = c"
| "flush_loop (buf # bufs) c =
     flush_loop bufs
       (c\<lparr>processing_q := bufs, count_bufs_shared_for_read := count_bufs_shared_for_read c - 1\<rparr>)"

definition flush_used_buffers :: "S3AsyncBufferOptContainer \<Rightarrow> S3AsyncBufferOptContainer" where
  "flush_used_buffers c = flush_loop (processing_q c) c"

text \<open>
  The loop of \<open>get_buffers\<close> that moves \<open>n\<close> buffers from \<open>ready_q\<close> to \<open>processing_q\<close> and
  collects their extents (each extent is asserted to be non-empty).
\<close>

fun share_loop :: "nat \<Rightarrow> S3AsyncBufferOptContainer \<Rightarrow> bytes list \<Rightarrow>
    (S3AsyncBufferOptContainer \<times> bytes list) option" where
  "share_loop 0 c sq = Some (c, sq)"
| "share_loop (Suc n) c sq =
     (case ready_q c of
        [] \<Rightarrow> None
      | buf # bufs \<Rightarrow>
          (if list_all (\<lambda>v. 0 < length v) buf
           then share_loop n
                  (c\<lparr>processing_q := processing_q c @ [buf], ready_q := bufs,
                     content_length := content_length c - of_nat (evbuffer_get_length buf)\<rparr>)
                  (sq @ buf)
           else None))"

text \<open>Division by a zero buffer size is undefined behaviour: \<open>None\<close> as well.\<close>

definition get_buffers :: "size_t \<Rightarrow> S3AsyncBufferOptContainer \<Rightarrow>
    (S3AsyncBufferOptContainer \<times> bytes list) option" where
  "get_buffers expected_content_size c0 =
     (let c1 = (if processing_q c0 \<noteq> [] then flush_used_buffers c0 else c0);
          c = c1\<lparr>count_bufs_shared_for_read := 0\<rparr> in
      if get_content_length c \<ge> expected_content_size \<or> \<not> is_expecting_more c then
        (if size_of_each_evbuf c = 0 then None
         else
           (let n0 = expected_content_size div size_of_each_evbuf c;
                n = (if \<not> is_expecting_more c
                       \<and> expected_content_size mod size_of_each_evbuf c \<noteq> 0
                     then n0 + 1 else n0) in
            if length (ready_q c) < unat n then None
            else share_loop (unat n) (c\<lparr>count_bufs_shared_for_read := n\<rparr>) []))
      else Some (c, []))"

fun content_loop :: "(nat \<Rightarrow> bool) \<Rightarrow> evbuf list \<Rightarrow> bytes \<Rightarrow> bytes" where
  "content_loop calloc_ok [] content = content"
| "content_loop calloc_ok (b # bs) content =
     (if \<not> calloc_ok (length b) then [] else content_loop calloc_ok bs (content @ concat b))"

definition get_content_as_string ::
    "(nat \<Rightarrow> bool) \<Rightarrow> S3AsyncBufferOptContainer \<Rightarrow> (S3AsyncBufferOptContainer \<times> bytes) option" where
  "get_content_as_string calloc_ok c =
     (if processing_q c \<noteq> [] then None
      else if is_freezed c
      then Some (c\<lparr>ready_q := [], content_length := 0\<rparr>, content_loop calloc_ok (ready_q c) [])
      else Some (c\<lparr>content_length := 0\<rparr>, []))"

section \<open>What the container holds\<close>

definition opt_pending :: "S3AsyncBufferOptContainer \<Rightarrow> bytes" where
  "opt_pending c = concat (map concat (ready_q c))"

text \<open>
  The length field counts the bytes of the ready queue; no buffer is larger than the
  buffer size; libevent's extents are non-empty; as long as more data may come the
  buffers are full (the contract of a PUT request).
\<close>

definition opt_inv :: "S3AsyncBufferOptContainer \<Rightarrow> bool" where
  "opt_inv c \<longleftrightarrow> 0 < size_of_each_evbuf c
     \<and> length (opt_pending c) < 2 ^ 64 \<and> content_length c = of_nat (length (opt_pending c))
     \<and> list_all (\<lambda>b. evbuffer_get_length b \<le> unat (size_of_each_evbuf c)
                     \<and> list_all (\<lambda>v. v \<noteq> []) b) (ready_q c)
     \<and> list_all (\<lambda>b. evbuffer_get_length b = unat (size_of_each_evbuf c))
         (if is_expecting_more c then ready_q c else butlast (ready_q c))"

datatype opt_op = Opt_add evbuf bool | Opt_get size_t | Opt_flush | Opt_string

text \<open>The operations of a PUT request; data is given out by \<open>get_buffers\<close>.\<close>

fun opt_step :: "opt_op \<Rightarrow> S3AsyncBufferOptContainer \<Rightarrow> (S3AsyncBufferOptContainer \<times> bytes) option" where
  "opt_step (Opt_add b last_buf) c = Some (fst (add_content (Some b) False last_buf True c), [])"
| "opt_step (Opt_get n) c = map_option (\<lambda>(c', bs). (c', concat bs)) (get_buffers n c)"
| "opt_step Opt_flush c = Some (flush_used_buffers c, [])"
| "opt_step Opt_string c = get_content_as_string (\<lambda>_. True) c"

text \<open>
  What the callers keep to: nothing is added after the last buffer, buffers are no larger
  than the pool buffers they come from, at most the present content is asked for, and the
  content is only taken as a string when it is complete and not in processing.
\<close>

fun opt_allowed :: "opt_op \<Rightarrow> S3AsyncBufferOptContainer \<Rightarrow> bool" where
  "opt_allowed (Opt_add b last_buf) c \<longleftrightarrow> is_expecting_more c
     \<and> evbuffer_get_length b \<le> unat (size_of_each_evbuf c) \<and> list_all (\<lambda>v. v \<noteq> []) b
     \<and> length (opt_pending c) + evbuffer_get_length b < 2 ^ 64"
| "opt_allowed (Opt_get n) c \<longleftrightarrow> unat n \<le> length (opt_pending c)"
| "opt_allowed Opt_flush c \<longleftrightarrow> True"
| "opt_allowed Opt_string c \<longleftrightarrow> is_freezed c \<and> processing_q c = []"

fun opt_accepted :: "opt_op \<Rightarrow> S3AsyncBufferOptContainer \<Rightarrow> bytes" where
  "opt_accepted (Opt_add b last_buf) c =
     (if snd (add_content (Some b) False last_buf True c) then concat b else [])"
| "opt_accepted _ c = []"

section \<open>Lemmas\<close>

lemma flush_loop_fields [simp]:
  "ready_q (flush_loop bs c) = ready_q c" "content_length (flush_loop bs c) = content_length c"
  "is_expecting_more (flush_loop bs c) = is_expecting_more c"
  "size_of_each_evbuf (flush_loop bs c) = size_of_each_evbuf c"
  by (induction bs arbitrary: c) simp_all

lemma flush_loop_processing: "processing_q (flush_loop (processing_q c) c) = []"
proof -
  have "processing_q (flush_loop bs c) = (if bs = [] then processing_q c else [])" for bs c
    by (induction bs arbitrary: c) auto
  then show ?thesis by auto
qed

lemma flush_loop_count:
  "count_bufs_shared_for_read (flush_loop bs c) = count_bufs_shared_for_read c - of_nat (length bs)"
  by (induction bs arbitrary: c) (simp_all add: algebra_simps)

lemma flush_used_fields [simp]:
  "ready_q (flush_used_buffers c) = ready_q c"
  "content_length (flush_used_buffers c) = content_length c"
  "is_expecting_more (flush_used_buffers c) = is_expecting_more c"
  "size_of_each_evbuf (flush_used_buffers c) = size_of_each_evbuf c"
  "processing_q (flush_used_buffers c) = []"
  by (simp_all add: flush_used_buffers_def flush_loop_processing)

lemma opt_inv_cong:
  "ready_q c' = ready_q c \<Longrightarrow> content_length c' = content_length c \<Longrightarrow>
   is_expecting_more c' = is_expecting_more c \<Longrightarrow> size_of_each_evbuf c' = size_of_each_evbuf c \<Longrightarrow>
   opt_inv c' = opt_inv c"
  by (simp add: opt_inv_def opt_pending_def)

lemma flush_used_inv [simp]: "opt_inv (flush_used_buffers c) = opt_inv c"
  by (rule opt_inv_cong) simp_all

lemma opt_content_loop_ok: "content_loop (\<lambda>_. True) bs content = content @ concat (map concat bs)"
  by (induction bs arbitrary: content) simp_all

lemma list_all_butlast: "list_all P xs \<Longrightarrow> list_all P (butlast xs)"
  by (auto simp: list_all_iff dest: in_set_butlastD)

lemma share_loop_spec:
  assumes "opt_inv c" "n \<le> length (ready_q c)"
  shows "\<exists>c'. share_loop n c sq = Some (c', sq @ concat (take n (ready_q c)))
    \<and> opt_inv c' \<and> ready_q c' = drop n (ready_q c)
    \<and> processing_q c' = processing_q c @ take n (ready_q c)
    \<and> count_bufs_shared_for_read c' = count_bufs_shared_for_read c
    \<and> is_expecting_more c' = is_expecting_more c"
  using assms
proof (induction n arbitrary: c sq)
  case (Suc n)
  then obtain b bs where r: "ready_q c = b # bs" by (cases "ready_q c") auto
  let ?c = "c\<lparr>processing_q := processing_q c @ [b], ready_q := bs,
              content_length := content_length c - of_nat (evbuffer_get_length b)\<rparr>"
  have "list_all (\<lambda>b. evbuffer_get_length b = unat (size_of_each_evbuf c))
      (if is_expecting_more c then bs else butlast bs)"
    using Suc.prems(1) r by (cases bs) (auto simp: opt_inv_def split: if_splits)
  then have inv: "opt_inv ?c"
    using Suc.prems(1) r by (auto simp: opt_inv_def opt_pending_def)
  have ne: "list_all (\<lambda>v. 0 < length v) b"
    using Suc.prems(1) r by (simp add: opt_inv_def list_all_iff)
  have "n \<le> length (ready_q ?c)" using Suc.prems(2) r by simp
  from Suc.IH [OF inv this, of "sq @ b"] r ne show ?case by simp
qed simp

text \<open>Counting buffers counts bytes, up to the last buffer.\<close>

lemma bytes_upper:
  "list_all (\<lambda>b. length (concat b) \<le> m) bs \<Longrightarrow> length (concat (map concat (take k bs))) \<le> k * m"
proof (induction bs arbitrary: k)
  case (Cons b bs)
  then show ?case by (cases k) (auto intro: add_mono)
qed simp

lemma bytes_lower:
  "list_all (\<lambda>b. length (concat b) = m) (butlast bs) \<Longrightarrow> k < length bs \<Longrightarrow>
   length (concat (map concat (take k bs))) = k * m"
proof (induction bs arbitrary: k)
  case (Cons b bs)
  then show ?case by (cases k) (auto split: if_splits)
qed simp

lemma opt_pending_upper: "opt_inv c \<Longrightarrow> length (opt_pending c) \<le> length (ready_q c) * unat (size_of_each_evbuf c)"
  using bytes_upper [of "unat (size_of_each_evbuf c)" "ready_q c" "length (ready_q c)"]
  by (auto simp: opt_inv_def opt_pending_def list_all_iff)

text \<open>How many buffers \<open>get_buffers\<close> gives out.\<close>

definition bufs_to_share :: "size_t \<Rightarrow> S3AsyncBufferOptContainer \<Rightarrow> nat" where
  "bufs_to_share n c =
     unat n div unat (size_of_each_evbuf c)
       + (if \<not> is_expecting_more c \<and> unat n mod unat (size_of_each_evbuf c) \<noteq> 0 then 1 else 0)"

lemma bufs_to_share_le:
  assumes "opt_inv c" "unat n \<le> length (opt_pending c)"
  shows "bufs_to_share n c \<le> length (ready_q c)"
proof (rule ccontr)
  let ?s = "unat (size_of_each_evbuf c)" and ?len = "length (ready_q c)"
  assume "\<not> bufs_to_share n c \<le> ?len"
  then have lt: "?len < bufs_to_share n c" by simp
  have s: "0 < ?s" using assms(1) by (simp add: opt_inv_def word_less_nat_alt)
  have "unat n \<le> ?len * ?s" using assms opt_pending_upper [OF assms(1)] by linarith
  then have le: "unat n div ?s \<le> ?len" using s by (metis div_le_mono nonzero_mult_div_cancel_right less_not_refl)
  with lt have eq: "?len = unat n div ?s" "unat n mod ?s \<noteq> 0"
    by (auto simp: bufs_to_share_def split: if_splits)
  then have "?len * ?s < unat n" by (metis div_mult_mod_eq less_add_same_cancel1 neq0_conv)
  with \<open>unat n \<le> ?len * ?s\<close> show False by simp
qed

lemma unat_bufs_to_share:
  assumes "0 < size_of_each_evbuf c"
  shows "unat (if \<not> is_expecting_more c \<and> n mod size_of_each_evbuf c \<noteq> 0
               then n div size_of_each_evbuf c + 1 else n div size_of_each_evbuf c)
    = bufs_to_share n c"
proof -
  let ?s = "size_of_each_evbuf c"
  have s: "0 < unat ?s" using assms by (simp add: word_less_nat_alt)
  have mod0: "(n mod ?s = 0) = (unat n mod unat ?s = 0)"
    by (metis unat_0 unat_eq_zero unat_mod_distrib)
  have inc: "unat (n div ?s + 1) = unat n div unat ?s + 1" if "unat n mod unat ?s \<noteq> 0"
  proof -
    have "unat ?s \<noteq> 1" using that by auto
    with s have "2 \<le> unat ?s" by linarith
    then have "unat n div unat ?s \<le> unat n div 2" by (simp add: div_le_mono2)
    also have "\<dots> < 2 ^ 63"
    proof -
      have "unat n < 2 ^ 64" using unsigned_less [of n] by simp
      then show ?thesis by simp
    qed
    finally have "unat (n div ?s) + 1 < 2 ^ 64" by (simp add: unat_div_distrib)
    then show ?thesis by (simp add: unat_div_distrib unat_plus_simple [THEN iffD1] word_le_nat_alt unat_word_ariths)
  qed
  show ?thesis using mod0 inc by (auto simp: bufs_to_share_def unat_div_distrib)
qed

lemma get_buffers_spec:
  assumes "opt_inv c" "unat n \<le> length (opt_pending c)"
  shows "\<exists>c'. get_buffers n c = Some (c', concat (take (bufs_to_share n c) (ready_q c)))
    \<and> opt_inv c' \<and> ready_q c' = drop (bufs_to_share n c) (ready_q c)
    \<and> processing_q c' = take (bufs_to_share n c) (ready_q c)
    \<and> unat (count_bufs_shared_for_read c') = length (processing_q c')
    \<and> is_expecting_more c' = is_expecting_more c"
proof -
  define c1 where "c1 = (if processing_q c \<noteq> [] then flush_used_buffers c else c)"
  let ?k = "if \<not> is_expecting_more c \<and> n mod size_of_each_evbuf c \<noteq> 0
            then n div size_of_each_evbuf c + 1 else n div size_of_each_evbuf c"
  let ?c2 = "c1\<lparr>count_bufs_shared_for_read := ?k\<rparr>"
  have c1: "ready_q c1 = ready_q c" "processing_q c1 = []" "content_length c1 = content_length c"
      "is_expecting_more c1 = is_expecting_more c" "size_of_each_evbuf c1 = size_of_each_evbuf c"
    by (auto simp: c1_def)
  have inv: "opt_inv ?c2" using assms(1) c1 by (simp cong: opt_inv_cong)
  have pos: "0 < size_of_each_evbuf c" using assms(1) by (simp add: opt_inv_def)
  note k = unat_bufs_to_share [OF pos, of n] and le = bufs_to_share_le [OF assms]
  have enough: "n \<le> content_length c"
    using assms by (auto simp: opt_inv_def le_of_nat_size_t)
  obtain c' where c': "share_loop (bufs_to_share n c) ?c2 []
        = Some (c', concat (take (bufs_to_share n c) (ready_q c)))"
      "opt_inv c'" "ready_q c' = drop (bufs_to_share n c) (ready_q c)"
      "processing_q c' = take (bufs_to_share n c) (ready_q c)"
      "count_bufs_shared_for_read c' = ?k" "is_expecting_more c' = is_expecting_more c"
    using share_loop_spec [OF inv, of "bufs_to_share n c" "[]"] le c1 by auto
  have "get_buffers n c = share_loop (bufs_to_share n c) ?c2 []"
    using enough pos k le c1
    by (simp add: get_buffers_def c1_def [symmetric] get_content_length_def Let_def word_greater_zero_iff
        del: share_loop.simps)
  with c' k le show ?thesis by simp
qed


lemma get_buffers_data:
  assumes "opt_inv c" "unat n \<le> length (opt_pending c)" "get_buffers n c = Some (c', bs)"
  shows "concat bs @ opt_pending c' = opt_pending c" "opt_inv c'"
proof -
  have *: "bs = concat (take (bufs_to_share n c) (ready_q c))"
      "ready_q c' = drop (bufs_to_share n c) (ready_q c)" "opt_inv c'"
    using get_buffers_spec [OF assms(1,2)] assms(3) by auto
  have "concat (concat bufs) = concat (map concat bufs)" for bufs :: "evbuf list"
    by (induction bufs) simp_all
  then show "concat bs @ opt_pending c' = opt_pending c" "opt_inv c'"
    using * by (simp_all add: opt_pending_def flip: concat_append map_append)
qed

lemma add_content_put:
  assumes "opt_inv c" "opt_allowed (Opt_add b last_buf) c"
    and "add_content (Some b) False last_buf True c = (c', ok)"
  shows "opt_inv c'" "opt_pending c' = opt_pending c @ (if ok then concat b else [])"
    and "processing_q c' = processing_q c"
proof -
  have len: "evbuffer_get_length b < 2 ^ 64" using assms(2) by simp
  have full: "evbuffer_get_length b = unat (size_of_each_evbuf c)"
    if "size_of_each_evbuf c = of_nat (evbuffer_get_length b)"
    using that len by simp
  show "opt_pending c' = opt_pending c @ (if ok then concat b else [])" "processing_q c' = processing_q c"
    using assms(3) by (auto simp: add_content_def freeze_def opt_pending_def Let_def split: if_splits)
  show "opt_inv c'"
    using assms full
    by (auto simp: add_content_def freeze_def opt_inv_def opt_pending_def Let_def split: if_splits)
qed

interpretation opt: byte_fifo opt_inv opt_pending opt_allowed opt_accepted opt_step
proof (unfold_locales, goal_cases)
  case (1 s op)
  show ?case
  proof (cases op)
    case (Opt_get n)
    with 1 get_buffers_spec [OF 1(1), of n] show ?thesis by fastforce
  qed (use 1 in \<open>auto simp: get_content_as_string_def\<close>)
next
  case (2 s op s' out)
  show ?case
  proof (cases op)
    case (Opt_add b l)
    then show ?thesis
      using 2 add_content_put(1) [OF 2(1), of b l] by (cases "add_content (Some b) False l True s") auto
  next
    case (Opt_get n)
    then show ?thesis using 2 get_buffers_data(2) [OF 2(1), of n] by auto
  next
    case Opt_string
    then show ?thesis
      using 2 by (auto simp: get_content_as_string_def opt_inv_def opt_pending_def split: if_splits)
  qed (use 2 in auto)
next
  case (3 s op s' out)
  show ?case
  proof (cases op)
    case (Opt_add b l)
    then show ?thesis
      using 3 add_content_put(2) [OF 3(1), of b l] by (cases "add_content (Some b) False l True s") auto
  next
    case (Opt_get n)
    then show ?thesis using 3 get_buffers_data(1) [OF 3(1), of n] by auto
  next
    case Opt_string
    then show ?thesis
      using 3 by (auto simp: get_content_as_string_def opt_content_loop_ok opt_pending_def split: if_splits)
  qed (use 3 in \<open>auto simp: opt_pending_def\<close>)
qed

section \<open>Properties\<close>

text \<open>Asked for no more than it holds, \<open>get_buffers\<close> never fails its assertions and
  removes from the front exactly what it returns.  Once the container is frozen it returns
  at least the expected size; before that it returns whole buffers only, exactly the
  expected size when that is a multiple of the buffer size.  The shared count is the
  number of buffers in processing.\<close>

theorem get_buffers_amount:
  assumes "opt_inv c" "unat n \<le> length (opt_pending c)"
  shows "\<exists>c' bs. get_buffers n c = Some (c', bs) \<and> opt_inv c'
    \<and> concat bs @ opt_pending c' = opt_pending c
    \<and> length (concat bs) \<ge> (if is_freezed c then unat n
                            else unat n div unat (size_of_each_evbuf c) * unat (size_of_each_evbuf c))
    \<and> (is_freezed c \<or> length (concat bs) = unat n div unat (size_of_each_evbuf c) * unat (size_of_each_evbuf c))
    \<and> unat (count_bufs_shared_for_read c') = length (processing_q c')"
proof -
  let ?s = "unat (size_of_each_evbuf c)" and ?k = "bufs_to_share n c"
  obtain c' bs where g: "get_buffers n c = Some (c', bs)" "ready_q c' = drop ?k (ready_q c)"
      "unat (count_bufs_shared_for_read c') = length (processing_q c')"
    using get_buffers_spec [OF assms] by blast
  note data = get_buffers_data [OF assms g(1)] and le = bufs_to_share_le [OF assms]
  have s: "0 < ?s" using assms(1) by (simp add: opt_inv_def word_less_nat_alt)
  have "length (concat bs) + length (opt_pending c') = length (opt_pending c)"
    using arg_cong [OF data(1), of length] by simp
  moreover have "length (opt_pending c)
      = length (concat (map concat (take ?k (ready_q c)))) + length (opt_pending c')"
    using g(2) by (metis append_take_drop_id concat_append length_append map_append opt_pending_def)
  ultimately have bytes: "length (concat bs) = length (concat (map concat (take ?k (ready_q c))))"
    by linarith
  have full: "list_all (\<lambda>b. evbuffer_get_length b = ?s) (butlast (ready_q c))"
    using assms(1) list_all_butlast by (auto simp: opt_inv_def split: if_splits)
  have frozen: "unat n \<le> length (concat bs)" if "is_freezed c"
  proof (cases "?k < length (ready_q c)")
    case True
    have "unat n \<le> ?k * ?s"
    proof (cases "unat n mod ?s = 0")
      case True
      with that show ?thesis by (auto simp: bufs_to_share_def is_freezed_def)
    next
      case False
      have "unat n mod ?s < ?s" using s by simp
      then have "unat n \<le> (unat n div ?s) * ?s + ?s" using div_mult_mod_eq [of "unat n" ?s] by linarith
      with that False show ?thesis by (simp add: bufs_to_share_def is_freezed_def)
    qed
    with bytes_lower [OF full True] bytes show ?thesis by simp
  next
    case False
    with bytes assms(2) show ?thesis by (simp add: opt_pending_def)
  qed
  have open_len: "length (concat bs) = unat n div ?s * ?s" if "\<not> is_freezed c"
  proof -
    have all: "list_all (\<lambda>b. evbuffer_get_length b = ?s) (ready_q c)"
      using that assms(1) by (auto simp: is_freezed_def opt_inv_def)
    then have "length (concat (map concat (take k (ready_q c)))) = k * ?s" if "k \<le> length (ready_q c)" for k
      using bytes_lower [of ?s "ready_q c @ [[]]" k] that by simp
    with le bytes that show ?thesis by (simp add: bufs_to_share_def is_freezed_def)
  qed
  show ?thesis using g data frozen open_len by auto
qed

theorem get_buffers_amount_witness:
  "\<exists>c' bs. get_buffers 6 (\<lparr>ready_q = [[''ab'', ''cd''], [''efgh''], [''ij'']], processing_q = [],
        content_length = 10, is_expecting_more = False, count_bufs_shared_for_read = 0,
        size_of_each_evbuf = 4\<rparr>) = Some (c', bs)
     \<and> length (concat bs) \<ge> 6 \<and> concat bs @ opt_pending c' = ''abcdefghij''"
proof -
  let ?c = "\<lparr>ready_q = [[''ab'', ''cd''], [''efgh''], [''ij'']], processing_q = [],
        content_length = 10, is_expecting_more = False, count_bufs_shared_for_read = 0,
        size_of_each_evbuf = 4\<rparr> :: S3AsyncBufferOptContainer"
  have p: "opt_pending ?c = ''abcdefghij''" by (simp add: opt_pending_def)
  have inv: "opt_inv ?c" unfolding opt_inv_def p by simp
  have le: "unat (6 :: size_t) \<le> length (opt_pending ?c)" by (simp add: p)
  show ?thesis using get_buffers_amount [OF inv le] p by (auto simp: is_freezed_def)
qed

text \<open>C10: For a PUT request, over any sequence of deliveries from the network, reads,
  flushes and the final read as a string that keeps to the callers' contract, no assertion
  of the container fails, and the bytes given out so far followed by the bytes still held
  are exactly the accepted bytes, in order.\<close>

theorem put_request_data_fifo:
  assumes "S3AsyncBufferOptContainer_init sz = Some c" "0 < sz" "opt.all_allowed ops c"
  shows "\<exists>c' out. opt.exec ops c = Some (c', out) \<and> opt_inv c'
    \<and> out @ opt_pending c' = opt.intake ops c"
proof -
  have "opt_inv c" "opt_pending c = []"
    using assms(1,2)
    by (auto simp: S3AsyncBufferOptContainer_init_def opt_inv_def opt_pending_def split: if_splits)
  with opt.exec_fifo [OF _ assms(3)] show ?thesis by auto
qed

theorem put_request_data_fifo_witness:
  "\<exists>c c' out. S3AsyncBufferOptContainer_init 4096 = Some c
     \<and> opt.exec [Opt_add [''abc''] True, Opt_get 2, Opt_flush] c = Some (c', out) \<and> opt_inv c'
     \<and> out @ opt_pending c' = ''abc''"
proof -
  define c where "c = \<lparr>ready_q = [], processing_q = [], content_length = 0, is_expecting_more = True,
                 count_bufs_shared_for_read = 0, size_of_each_evbuf = 4096\<rparr>"
  let ?ops = "[Opt_add [''abc''] True, Opt_get 2, Opt_flush]"
  have i: "S3AsyncBufferOptContainer_init 4096 = Some c"
    by (simp add: S3AsyncBufferOptContainer_init_def c_def)
  have ok: "opt.all_allowed ?ops c" and data: "opt.intake ?ops c = ''abc''"
    by (simp_all add: c_def add_content_def freeze_def opt_pending_def get_buffers_def
        get_content_length_def split: option.splits)
  show ?thesis using put_request_data_fifo [OF i _ ok] data i by auto
qed

end
