(* ===== verification/Common_Utilities.thy ===== *)
theory Common_Utilities
  imports S3_Prelude "HOL-Library.Char_ord" "HOL-Library.List_Lexorder"
begin

text \<open>
  \<open>server/s3_common_utilities.cc\<close>: the string helpers shared by the server.  libxml2's
  \<open>xmlEncodeSpecialChars\<close> is a parameter (\<open>None\<close> when it returns the null pointer); it
  is handed a C string, which ends at the first zero byte.
  Strings are compared as \<open>std::string\<close> and Motr compare them, byte by byte.
\<close>

unbundle bit_operations_syntax

section \<open>XOR obfuscation\<close>

definition obfuscate :: "string \<Rightarrow> string" where
  "obfuscate input =
     (if input = [] then []
      else
        (let xorbyte = (of_nat (length input + 255) :: 8 word) in
         map (\<lambda>c. char_of (unat (of_nat (of_char c) XOR xorbyte))) input))"

definition obfuscator_encode :: "string \<Rightarrow> string" where "obfuscator_encode = obfuscate"
definition obfuscator_decode :: "string \<Rightarrow> string" where "obfuscator_decode = obfuscate"

section \<open>Character classes and trimming\<close>

definition string_has_only_digits :: "string \<Rightarrow> bool" where
  "string_has_only_digits str \<longleftrightarrow> list_all (\<lambda>c. c \<in> set ''0123456789'') str"

definition ltrim :: "string \<Rightarrow> string" where "ltrim str = dropWhile c_isspace str"
definition rtrim :: "string \<Rightarrow> string" where "rtrim str = rev (dropWhile c_isspace (rev str))"
definition trim :: "string \<Rightarrow> string" where "trim str = ltrim (rtrim str)"

section \<open>XML strings\<close>

definition s3xmlEncodeSpecialChars :: "(string \<Rightarrow> string option) \<Rightarrow> string \<Rightarrow> string" where
  "s3xmlEncodeSpecialChars xmlEncode input =
     (case xmlEncode (takeWhile (\<lambda>c. c \<noteq> CHR 0x00) input) of None \<Rightarrow> [] | Some s \<Rightarrow> s)"

definition format_xml_string :: "(string \<Rightarrow> string option) \<Rightarrow> string \<Rightarrow> string \<Rightarrow> bool \<Rightarrow> string" where
  "format_xml_string xmlEncode tag val append_quotes =
     (let s = s3xmlEncodeSpecialChars xmlEncode val in
      if s = [] then ''<'' @ tag @ ''/>''
      else
        (let q = (if append_quotes then [CHR 0x22] @ s @ [CHR 0x22] else s) in
         ''<'' @ tag @ ''>'' @ q @ ''</'' @ tag @ ''>''))"

section \<open>Numbers\<close>

fun dec_digits_value :: "nat \<Rightarrow> string \<Rightarrow> nat" where
  "dec_digits_value acc [] = acc"
| "dec_digits_value acc (c # cs) =
     (if c \<in> set ''0123456789'' then dec_digits_value (10 * acc + (of_char c - 48)) cs else acc)"

text \<open>
  What \<open>std::stoul\<close> and \<open>std::stoi\<close> read: white space, a sign and at least one digit
  (otherwise \<open>invalid_argument\<close>); the result is the sign and the magnitude.
\<close>

definition scan_number :: "string \<Rightarrow> (bool \<times> nat) option" where
  "scan_number s =
     (let s1 = dropWhile c_isspace s;
          neg = (case s1 of c # _ \<Rightarrow> c = CHR ''-'' | [] \<Rightarrow> False);
          s2 = (case s1 of c # r \<Rightarrow> if c = CHR ''-'' \<or> c = CHR ''+'' then r else s1 | [] \<Rightarrow> [])
      in case s2 of
           c # _ \<Rightarrow> if c \<in> set ''0123456789'' then Some (neg, dec_digits_value 0 s2) else None
         | [] \<Rightarrow> None)"

text \<open>\<open>std::stoul\<close> accepts a minus sign and negates modulo \<open>2\<^sup>6\<^sup>4\<close>.\<close>

definition S3CommonUtilities_stoul :: "string \<Rightarrow> 64 word option" where
  "S3CommonUtilities_stoul str =
     (case scan_number str of
        None \<Rightarrow> None
      | Some (neg, n) \<Rightarrow>
          (if n \<ge> 2 ^ 64 then None else Some (if neg then - of_nat n else of_nat n)))"

definition S3CommonUtilities_stoi :: "string \<Rightarrow> int option" where
  "S3CommonUtilities_stoi str =
     (case scan_number str of
        None \<Rightarrow> None
      | Some (neg, n) \<Rightarrow>
          (let v = (if neg then - int n else int n) in
           if - (2 ^ 31) \<le> v \<and> v < 2 ^ 31 then Some v else None))"

section \<open>Size buckets of deletion records\<close>

definition size_marker :: "nat \<Rightarrow> char" where
  "size_marker obj_size =
     (if obj_size = 0 then CHR ''J''
      else if obj_size \<le> 1024 then CHR ''I''
      else if obj_size \<le> 10240 then CHR ''H''
      else if obj_size \<le> 52428800 then CHR ''G''
      else if obj_size \<le> 1073741824 then CHR ''F''
      else if obj_size \<le> 107374182400 then CHR ''E''
      else CHR ''D'')"

definition size_based_bucketing_of_objects :: "string \<Rightarrow> nat \<Rightarrow> string" where
  "size_based_bucketing_of_objects oid_str obj_size = size_marker obj_size # oid_str"

section \<open>Search and replace\<close>

fun is_prefix :: "string \<Rightarrow> string \<Rightarrow> bool" where
  "is_prefix [] s = True"
| "is_prefix (x # xs) [] = False"
| "is_prefix (x # xs) (y # ys) = (x = y \<and> is_prefix xs ys)"

text \<open>\<open>std::string::find\<close>: the index of the first occurrence.\<close>

fun str_find :: "string \<Rightarrow> string \<Rightarrow> nat option" where
  "str_find t [] = (if t = [] then Some 0 else None)"
| "str_find t (c # cs) = (if is_prefix t (c # cs) then Some 0 else map_option Suc (str_find t cs))"

lemma is_prefix_iff: "is_prefix t s \<longleftrightarrow> (\<exists>r. s = t @ r)"
  by (induction t s rule: is_prefix.induct) auto

lemma str_find_Some: "str_find t s = Some i \<Longrightarrow> s = take i s @ t @ drop (i + length t) s"
proof (induction s arbitrary: i)
  case (Cons c cs)
  show ?case
  proof (cases "is_prefix t (c # cs)")
    case True
    with Cons.prems show ?thesis by (auto simp: is_prefix_iff)
  next
    case False
    with Cons show ?thesis by auto
  qed
qed (auto split: if_splits)

lemma str_find_None: "str_find t s = None \<Longrightarrow> \<nexists>a b. s = a @ t @ b"
proof (induction s)
  case (Cons c cs)
  then have np: "\<not> is_prefix t (c # cs)" and none: "str_find t cs = None"
    by (auto split: if_splits)
  show ?case
  proof
    assume "\<exists>a b. c # cs = a @ t @ b"
    then obtain a b where ab: "c # cs = a @ t @ b" by blast
    with np Cons.IH [OF none] show False by (cases a) (auto simp: is_prefix_iff)
  qed
qed (auto split: if_splits)

text \<open>
  The loop of \<open>find_and_replaceall\<close>: \<open>done\<close> is the part of the string before the search
  position, where replacements have been made; the search continues behind the
  replacement.
\<close>

function replace_loop :: "string \<Rightarrow> string \<Rightarrow> string \<Rightarrow> string \<Rightarrow> string" where
  "replace_loop t r before rest =
     (case str_find t rest of
        None \<Rightarrow> before @ rest
      | Some i \<Rightarrow>
          (if t = [] then before @ rest
           else replace_loop t r (before @ take i rest @ r) (drop (i + length t) rest)))"
  by pat_completeness auto
termination
proof (relation "measure (\<lambda>(t, r, before, rest). length rest)", goal_cases)
  case (2 t r before rest i)
  from str_find_Some [OF 2(1)] have "length rest = length (take i rest) + length t + length (drop (i + length t) rest)"
    by (metis length_append add.assoc)
  moreover have "0 < length t" using 2(2) by simp
  ultimately have "length (drop (i + length t) rest) < length rest" by linarith
  then show ?case by simp
qed simp

declare replace_loop.simps [simp del]

definition find_and_replaceall :: "string \<Rightarrow> string \<Rightarrow> string \<Rightarrow> string" where
  "find_and_replaceall data to_search replace_str =
     (if to_search = [] then data
      else if data = [] then data
      else replace_loop to_search replace_str [] data)"

definition is_yaml_value_null :: "string \<Rightarrow> bool" where
  "is_yaml_value_null val \<longleftrightarrow> val = ''null'' \<or> val = ''Null'' \<or> val = ''NULL'' \<or> val = ''~''"

text \<open>The libevent flag bits of \<open>evhtp_error_flags_description\<close>.\<close>

record bev_flags =
  BEV_EVENT_READING :: "8 word"
  BEV_EVENT_WRITING :: "8 word"
  BEV_EVENT_EOF :: "8 word"
  BEV_EVENT_ERROR :: "8 word"
  BEV_EVENT_TIMEOUT :: "8 word"
  BEV_EVENT_CONNECTED :: "8 word"

definition evhtp_error_flags_description :: "bev_flags \<Rightarrow> 8 word \<Rightarrow> string" where
  "evhtp_error_flags_description f errtype =
     (let s = (if errtype AND BEV_EVENT_READING f \<noteq> 0 then ''Reading '' else [])
            @ (if errtype AND BEV_EVENT_WRITING f \<noteq> 0 then ''Writing '' else [])
            @ (if errtype AND BEV_EVENT_EOF f \<noteq> 0 then ''EOF '' else [])
            @ (if errtype AND BEV_EVENT_ERROR f \<noteq> 0 then ''Error '' else [])
            @ (if errtype AND BEV_EVENT_TIMEOUT f \<noteq> 0 then ''Timeout '' else [])
            @ (if errtype AND BEV_EVENT_CONNECTED f \<noteq> 0 then ''Connected '' else [])
      in if s \<noteq> [] then take (length s - 1) s else s)"

section \<open>Lemmas\<close>

lemma obfuscate_length [simp]: "length (obfuscate s) = length s"
  by (simp add: obfuscate_def Let_def)

lemma char_word_roundtrip: "char_of (unat (of_nat (of_char c) :: 8 word)) = c"
proof -
  have "(of_char c :: nat) < 256" by (metis mod_less_divisor of_char_mod_256 zero_less_numeral)
  then show ?thesis by (simp add: unat_of_nat)
qed

lemma of_nat_of_char_of: "of_nat (of_char (char_of (unat w) :: char)) = (w :: 8 word)"
proof -
  have "unat w < 256" using unsigned_less [of w] by simp
  then show ?thesis by simp
qed

lemma obfuscate_involution: "obfuscate (obfuscate s) = s"
proof (cases "s = []")
  case False
  then have ne: "obfuscate s \<noteq> []" by (metis length_0_conv obfuscate_length)
  let ?x = "of_nat (length s + 255) :: 8 word"
  have "obfuscate (obfuscate s) = map (\<lambda>c. char_of (unat (of_nat (of_char c) XOR ?x))) (obfuscate s)"
    using ne by (simp add: obfuscate_def [of "obfuscate s"] Let_def)
  also have "\<dots> = map (\<lambda>c. char_of (unat ((of_nat (of_char c) XOR ?x) XOR ?x))) s"
    using False by (simp only: obfuscate_def [of s] Let_def if_False map_map o_def of_nat_of_char_of)
  also have "\<dots> = map (\<lambda>c. c) s"
    by (simp only: xor.assoc bit.xor_self xor.right_neutral char_word_roundtrip)
  also have "\<dots> = s" by simp
  finally show ?thesis .
qed (simp add: obfuscate_def)

fun join :: "string \<Rightarrow> string list \<Rightarrow> string" where
  "join sep [] = []"
| "join sep [x] = x"
| "join sep (x # y # xs) = x @ sep @ join sep (y # xs)"

lemma join_Cons: "xs \<noteq> [] \<Longrightarrow> join sep (x # xs) = x @ sep @ join sep xs"
  by (cases xs) simp_all

lemma replace_loop_parts:
  assumes "t \<noteq> []"
  shows "\<exists>parts. parts \<noteq> [] \<and> rest = join t parts
    \<and> replace_loop t r before rest = before @ join r parts
    \<and> (\<nexists>a b. last parts = a @ t @ b)"
  using assms
proof (induction t r before rest rule: replace_loop.induct)
  case (1 t r before rest)
  show ?case
  proof (cases "str_find t rest")
    case None
    then show ?thesis
      using str_find_None by (intro exI [of _ "[rest]"]) (simp add: replace_loop.simps [of t r before rest])
  next
    case (Some i)
    let ?rest = "drop (i + length t) rest"
    obtain parts where p: "parts \<noteq> []" "?rest = join t parts"
        "replace_loop t r (before @ take i rest @ r) ?rest = (before @ take i rest @ r) @ join r parts"
        "\<nexists>a b. last parts = a @ t @ b"
      using "1.IH" [OF Some "1.prems" "1.prems"] by auto
    have "rest = take i rest @ t @ ?rest" using str_find_Some [OF Some] .
    with p Some "1.prems" show ?thesis
      by (intro exI [of _ "take i rest # parts"])
        (simp add: join_Cons replace_loop.simps [of t r before rest])
  qed
qed

section \<open>Properties\<close>

lemma size_marker_antimono: "m \<le> n \<Longrightarrow> size_marker n \<le> size_marker m"
  by (auto simp: size_marker_def less_eq_char_def)

lemma size_marker_cases: "size_marker n \<in> set ''DEFGHIJ''"
  by (simp add: size_marker_def)

text \<open>The prefix put in front of an object id makes the lexicographic order of the
  keys follow the size: the key of an object of a larger size class comes before the key of
  every smaller one, whatever the object ids are (which is what the comment in
  \<open>size_based_bucketing_of_objects\<close> relies on), and the id itself is kept behind
  the one-character prefix.\<close>

theorem bigger_objects_list_first:
  assumes "small \<le> big" and "size_marker small \<noteq> size_marker big"
  shows "size_based_bucketing_of_objects oid_big big < size_based_bucketing_of_objects oid_small small
    \<and> tl (size_based_bucketing_of_objects oid_big big) = oid_big"
  using size_marker_antimono [OF assms(1)] assms(2)
  by (simp add: size_based_bucketing_of_objects_def)

theorem bigger_objects_list_first_witness:
  "size_based_bucketing_of_objects ''zz'' 2000 < size_based_bucketing_of_objects ''aa'' 1000"
  using bigger_objects_list_first [of 1000 2000 "''zz''" "''aa''"] by (simp add: size_marker_def)

text \<open>\<open>S3XORObfuscator\<close>: decoding what was encoded gives the input back, for every
  byte string.\<close>

theorem obfuscator_roundtrip: "obfuscator_decode (obfuscator_encode s) = s"
  by (simp add: obfuscator_decode_def obfuscator_encode_def obfuscate_involution)

text \<open>\<open>find_and_replaceall\<close> replaces a left-to-right selection of occurrences of the
  search string that cannot be extended at the end: input and output are the same
  parts, joined once by the search string and once by the replacement, and the last part
  holds no occurrence.  The replacement may itself contain the search string.\<close>

theorem find_and_replaceall_parts:
  assumes "to_search \<noteq> []"
  shows "\<exists>parts. parts \<noteq> [] \<and> data = join to_search parts
    \<and> find_and_replaceall data to_search replace_str = join replace_str parts
    \<and> (\<nexists>a b. last parts = a @ to_search @ b)"
proof (cases "data = []")
  case True
  with assms show ?thesis by (intro exI [of _ "[[]]"]) (simp add: find_and_replaceall_def)
next
  case False
  with assms replace_loop_parts [OF assms, of data replace_str "[]"] show ?thesis
    by (simp add: find_and_replaceall_def)
qed

theorem find_and_replaceall_parts_witness:
  "\<exists>parts. parts \<noteq> [] \<and> ''a&b'' = join ''&'' parts
    \<and> find_and_replaceall ''a&b'' ''&'' ''&amp;'' = join ''&amp;'' parts
    \<and> (\<nexists>x y. last parts = x @ ''&'' @ y)"
  using find_and_replaceall_parts [of "''&''" "''a&b''" "''&amp;''"] by simp

end
