(* ===== verification/Std_Map.thy ===== *)
theory Std_Map
  imports S3_Prelude "HOL-Library.Char_ord" "HOL-Library.List_Lexorder"
begin

text \<open>
  \<open>std::map\<close> as the list of its entries in iteration order: the keys strictly increase
  (\<open>map_wf\<close>).  The operations are those the server uses: assignment through
  \<open>operator[]\<close>, lookup, \<open>operator[]\<close> as a getter (it inserts a default value), erase and
  iteration, which is the list itself.  The locale \<open>dictionary\<close> states what the clients of
  a map rely on; it is interpreted on these operations.  Byte strings are compared as
  \<open>std::string\<close> compares them.
\<close>

type_synonym ('k, 'v) std_map = "('k \<times> 'v) list"

fun map_put :: "'k :: linorder \<Rightarrow> 'v \<Rightarrow> ('k, 'v) std_map \<Rightarrow> ('k, 'v) std_map" where
  "map_put k v [] = [(k, v)]"
| "map_put k v ((k', v') # m) =
     (if k < k' then (k, v) # (k', v') # m
      else if k = k' then (k, v) # m
      else (k', v') # map_put k v m)"

definition map_get :: "('k, 'v) std_map \<Rightarrow> 'k \<Rightarrow> 'v option" where
  "map_get m k = map_of m k"

definition map_erase :: "'k \<Rightarrow> ('k, 'v) std_map \<Rightarrow> ('k, 'v) std_map" where
  "map_erase k m = filter (\<lambda>e. fst e \<noteq> k) m"

text \<open>\<open>operator[]\<close> used as a getter: a missing key is inserted with a default value.\<close>

definition map_index :: "'v \<Rightarrow> ('k :: linorder, 'v) std_map \<Rightarrow> 'k \<Rightarrow> ('k, 'v) std_map \<times> 'v" where
  "map_index dflt m k =
     (case map_get m k of None \<Rightarrow> (map_put k dflt m, dflt) | Some v \<Rightarrow> (m, v))"

definition map_wf :: "('k :: linorder, 'v) std_map \<Rightarrow> bool" where
  "map_wf m \<longleftrightarrow> sorted_wrt (<) (map fst m)"

text \<open>What a client relies on: lookups after updates, and that the invariant is kept.\<close>

locale dictionary =
  fixes empt :: "'m" and get :: "'m \<Rightarrow> 'k \<Rightarrow> 'v option" and put :: "'k \<Rightarrow> 'v \<Rightarrow> 'm \<Rightarrow> 'm"
    and del :: "'k \<Rightarrow> 'm \<Rightarrow> 'm" and wf :: "'m \<Rightarrow> bool"
  assumes wf_empt: "wf empt"
    and wf_put: "wf m \<Longrightarrow> wf (put k v m)"
    and wf_del: "wf m \<Longrightarrow> wf (del k m)"
    and get_empt: "get empt k = None"
    and get_put: "wf m \<Longrightarrow> get (put k v m) = (get m)(k \<mapsto> v)"
    and get_del: "wf m \<Longrightarrow> get (del k m) = (get m)(k := None)"
    and get_inject: "wf m \<Longrightarrow> wf m' \<Longrightarrow> get m = get m' \<Longrightarrow> m = m'"
begin

lemma wf_fold_put: "wf m \<Longrightarrow> wf (fold (\<lambda>(k, v). put k v) es m)"
  by (induction es arbitrary: m) (auto intro: wf_put)

lemma get_fold_put:
  "wf m \<Longrightarrow> get (fold (\<lambda>(k, v). put k v) es m) = get m ++ map_of (rev es)"
proof (induction es arbitrary: m)
  case (Cons e es)
  obtain k v where e: "e = (k, v)" by force
  show ?case
    using Cons by (auto simp: e get_put wf_put map_add_def fun_eq_iff split: option.split)
qed simp

lemma put_same: "wf m \<Longrightarrow> get m k = Some v \<Longrightarrow> put k v m = m"
  by (rule get_inject) (auto simp: wf_put get_put fun_eq_iff)

lemma del_missing: "wf m \<Longrightarrow> get m k = None \<Longrightarrow> del k m = m"
  by (rule get_inject) (auto simp: wf_del get_del fun_eq_iff)

lemma put_put: "wf m \<Longrightarrow> put k v (put k v' m) = put k v m"
  by (rule get_inject) (auto simp: wf_put get_put fun_eq_iff)

lemma put_commute:
  "wf m \<Longrightarrow> k \<noteq> k' \<Longrightarrow> put k v (put k' v' m) = put k' v' (put k v m)"
  by (rule get_inject) (auto simp: wf_put get_put fun_eq_iff)

end

section \<open>The sorted list implements a dictionary\<close>

lemma fst_set_map_put [simp]: "fst ` set (map_put k v m) = insert k (fst ` set m)"
  by (induction k v m rule: map_put.induct) auto

lemma map_wf_Nil [simp, intro]: "map_wf []"
  by (simp add: map_wf_def)

lemma map_wf_Cons: "map_wf (e # m) \<longleftrightarrow> (\<forall>k \<in> fst ` set m. fst e < k) \<and> map_wf m"
  by (auto simp: map_wf_def)

lemma map_wf_put [simp, intro]: "map_wf m \<Longrightarrow> map_wf (map_put k v m)"
  by (induction k v m rule: map_put.induct) (auto simp: map_wf_Cons)

lemma map_wf_erase [simp, intro]: "map_wf m \<Longrightarrow> map_wf (map_erase k m)"
  by (auto simp: map_wf_def map_erase_def sorted_wrt_map sorted_wrt_filter)

lemma map_get_put [simp]: "map_wf m \<Longrightarrow> map_get (map_put k v m) = (map_get m)(k \<mapsto> v)"
proof (induction k v m rule: map_put.induct)
  case (2 k v k' v' m)
  then show ?case by (auto simp: map_get_def map_wf_Cons fun_eq_iff)
qed (auto simp: map_get_def)

lemma map_get_erase [simp]: "map_get (map_erase k m) = (map_get m)(k := None)"
  by (induction m) (auto simp: map_get_def map_erase_def fun_eq_iff)

lemma map_get_Nil [simp]: "map_get [] = Map.empty"
  by (simp add: map_get_def fun_eq_iff)

lemma map_wf_distinct: "map_wf m \<Longrightarrow> distinct (map fst m)"
  by (auto simp: map_wf_def intro: strict_sorted_imp_sorted strict_sorted_iff [THEN iffD1, THEN conjunct2])

lemma map_of_rev_distinct: "distinct (map fst m) \<Longrightarrow> map_of (rev m) = map_of m"
proof (induction m)
  case (Cons e m)
  then have "map_of m (fst e) = None" by (simp add: map_of_eq_None_iff)
  with Cons show ?case by (auto simp: map_add_def split: option.split)
qed simp

lemma map_get_inject:
  assumes wf: "map_wf m" "map_wf m'" and eq: "map_get m = map_get m'"
  shows "m = m'"
proof -
  have d: "distinct (map fst m)" "distinct (map fst m')" using wf by (auto intro: map_wf_distinct)
  have s: "set m = set m'"
    using d eq by (metis map_get_def map_of_eq_Some_iff surj_pair subsetI subset_antisym ext)
  then have "map fst m = map fst m'"
    using wf by (intro strict_sorted_equal) (auto simp: map_wf_def)
  with d s show ?thesis
    by (metis distinct_map inj_on_map_eq_map Un_absorb)
qed

interpretation std: dictionary "[]" map_get map_put map_erase map_wf
  by unfold_locales (auto intro: map_get_inject)

lemma map_of_rev_wf: "map_wf m \<Longrightarrow> map_of (rev m) = map_get m"
  using map_wf_distinct [of m] by (auto simp: map_get_def map_of_rev_distinct)

text \<open>Copying a map entry by entry, as the JSON code does, rebuilds it.\<close>

lemma map_rebuild:
  assumes "map_wf m"
  shows "fold (\<lambda>(k, v). map_put k v) m [] = m"
proof (rule map_get_inject)
  show "map_wf (fold (\<lambda>(k, v). map_put k v) m [])" by (rule std.wf_fold_put) simp
  show "map_get (fold (\<lambda>(k, v). map_put k v) m []) = map_get m"
    using assms by (simp add: std.get_fold_put map_of_rev_wf)
qed (rule assms)

lemma map_index_snd: "snd (map_index d m k) = (case map_get m k of None \<Rightarrow> d | Some v \<Rightarrow> v)"
  by (simp add: map_index_def split: option.split)

lemma map_index_wf [simp]: "map_wf m \<Longrightarrow> map_wf (fst (map_index d m k))"
  by (simp add: map_index_def split: option.split)

lemma map_index_present [simp]: "map_get m k = Some v \<Longrightarrow> map_index d m k = (m, v)"
  by (simp add: map_index_def)

lemma map_get_map_of: "map_get m = map_of m"
  by (rule ext) (simp add: map_get_def)

lemma dom_map_get: "dom (map_get m) = fst ` set m"
  by (simp add: map_get_map_of dom_map_of_conv_image_fst)

lemma finite_dom_map_get [simp]: "finite (dom (map_get m))"
  by (simp add: dom_map_get)

lemma length_card_dom: "map_wf m \<Longrightarrow> length m = card (dom (map_get m))"
  by (metis dom_map_get distinct_card length_map map_wf_distinct set_map)

lemma length_map_put:
  "map_wf m \<Longrightarrow> length (map_put k v m) = (if map_get m k = None then Suc (length m) else length m)"
  by (auto simp: length_card_dom card_insert_if)

lemma length_map_erase:
  assumes "map_wf m" "map_get m k \<noteq> None"
  shows "length m = Suc (length (map_erase k m))"
proof -
  have "k \<in> dom (map_get m)" using assms(2) by auto
  then have "card (dom (map_get m)) = Suc (card (dom (map_get m) - {k}))"
    by (rule card.remove [OF finite_dom_map_get])
  moreover have "dom (map_get (map_erase k m)) = dom (map_get m) - {k}" by simp
  ultimately show ?thesis using assms(1) by (simp only: length_card_dom map_wf_erase)
qed

end
