(* ===== verification/Json_Doc.thy ===== *)
theory Json_Doc
  imports Std_Map
begin

text \<open>
  JSON documents as the metadata classes use them through JsonCpp.  A document is a value
  of the type \<open>json\<close>; objects keep their members in the order of their names, as JsonCpp
  does.  The library itself is a parameter, the record \<open>jsoncpp\<close>: the writer and the reader
  of the text form and \<open>asString\<close>, which may throw (\<open>None\<close>).  What the server relies on is
  stated by \<open>jsoncpp_reads_back\<close> for a document: the text the writer gives is a C string
  that the reader turns into the same document, a null value reads as the empty string and
  a string as itself.
\<close>

datatype json =
    JNull
  | JBool bool
  | JInt int
  | JReal string
  | JStr string
  | JArr "json list"
  | JObj "(string \<times> json) list"

record jsoncpp =
  writer_write :: "json \<Rightarrow> string"
  reader_parse :: "string \<Rightarrow> json option"
  asString :: "json \<Rightarrow> string option"
  asInt :: "json \<Rightarrow> int option"
  asUInt :: "json \<Rightarrow> int option"
  asUInt64 :: "json \<Rightarrow> int option"

text \<open>The C string of a \<open>std::string\<close> ends at the first zero byte.\<close>

definition c_str :: "string \<Rightarrow> string" where
  "c_str s = takeWhile (\<lambda>c. c \<noteq> CHR 0x00) s"

definition no_nul :: "string \<Rightarrow> bool" where
  "no_nul s \<longleftrightarrow> CHR 0x00 \<notin> set s"

lemma c_str_no_nul [simp]: "no_nul s \<Longrightarrow> c_str s = s"
  by (auto simp: c_str_def no_nul_def takeWhile_eq_all_conv)

definition jsoncpp_reads_back :: "jsoncpp \<Rightarrow> json \<Rightarrow> bool" where
  "jsoncpp_reads_back lib doc \<longleftrightarrow>
     no_nul (writer_write lib doc) \<and> reader_parse lib (writer_write lib doc) = Some doc
     \<and> asString lib JNull = Some [] \<and> (\<forall>s. asString lib (JStr s) = Some s)"

text \<open>Numbers in the range of the requested type are returned as they are; null reads as zero.\<close>

definition jsoncpp_reads_numbers :: "jsoncpp \<Rightarrow> bool" where
  "jsoncpp_reads_numbers lib \<longleftrightarrow>
     (\<forall>n. - (2 ^ 31) \<le> n \<and> n < 2 ^ 31 \<longrightarrow> asInt lib (JInt n) = Some n)
     \<and> (\<forall>n. 0 \<le> n \<and> n < 2 ^ 32 \<longrightarrow> asUInt lib (JInt n) = Some n)
     \<and> (\<forall>n. 0 \<le> n \<and> n < 2 ^ 64 \<longrightarrow> asUInt64 lib (JInt n) = Some n)
     \<and> asInt lib JNull = Some 0 \<and> asUInt lib JNull = Some 0 \<and> asUInt64 lib JNull = Some 0"

text \<open>
  \<open>root[key] = value\<close> and \<open>root[key]\<close> as a getter.  A null value becomes an object on the
  first assignment; reading a missing member gives null.  On any other value JsonCpp throws.
\<close>

definition json_set :: "string \<Rightarrow> json \<Rightarrow> json \<Rightarrow> json option" where
  "json_set k v root =
     (case root of
        JNull \<Rightarrow> Some (JObj [(k, v)])
      | JObj ms \<Rightarrow> Some (JObj (map_put k v ms))
      | _ \<Rightarrow> None)"

definition json_at :: "json \<Rightarrow> string \<Rightarrow> json option" where
  "json_at root k =
     (case root of
        JNull \<Rightarrow> Some JNull
      | JObj ms \<Rightarrow> Some (case map_get ms k of None \<Rightarrow> JNull | Some v \<Rightarrow> v)
      | _ \<Rightarrow> None)"

definition json_isNull :: "json \<Rightarrow> bool" where "json_isNull j \<longleftrightarrow> j = JNull"

definition json_isMember :: "json \<Rightarrow> string \<Rightarrow> bool option" where
  "json_isMember root k =
     (case root of JNull \<Rightarrow> Some False | JObj ms \<Rightarrow> Some (map_get ms k \<noteq> None) | _ \<Rightarrow> None)"

definition getMemberNames :: "json \<Rightarrow> string list option" where
  "getMemberNames root =
     (case root of JNull \<Rightarrow> Some [] | JObj ms \<Rightarrow> Some (map fst ms) | _ \<Rightarrow> None)"

text \<open>
  The loop that writes a string map below a member, \<open>root[name][key] = value\<close>: the member
  is not created at all when the map is empty.
\<close>

definition json_set_all :: "string \<Rightarrow> (string, string) std_map \<Rightarrow> (string, json) std_map \<Rightarrow> (string, json) std_map" where
  "json_set_all name entries root =
     (if entries = [] then root
      else map_put name (JObj (fold (\<lambda>(k, v). map_put k (JStr v)) entries [])) root)"

text \<open>
  The loop that reads it back: the members of \<open>root[name]\<close>, each as a string, into a map;
  \<open>key\<close> is what the source does with the member name (\<open>c_str\<close> or nothing).
\<close>

fun json_read_members ::
  "jsoncpp \<Rightarrow> (string \<Rightarrow> string) \<Rightarrow> json \<Rightarrow> string list \<Rightarrow> (string, string) std_map
   \<Rightarrow> (string, string) std_map option" where
  "json_read_members lib key obj [] acc = Some acc"
| "json_read_members lib key obj (n # ns) acc =
     (case json_at obj n of
        None \<Rightarrow> None
      | Some v \<Rightarrow>
          (case asString lib v of
             None \<Rightarrow> None
           | Some s \<Rightarrow> json_read_members lib key obj ns (map_put (key n) s acc)))"

definition json_read_map ::
  "jsoncpp \<Rightarrow> (string \<Rightarrow> string) \<Rightarrow> json \<Rightarrow> string \<Rightarrow> (string, string) std_map option" where
  "json_read_map lib key root name =
     (case json_at root name of
        None \<Rightarrow> None
      | Some obj \<Rightarrow>
          (case getMemberNames obj of
             None \<Rightarrow> None
           | Some ns \<Rightarrow> json_read_members lib key obj ns []))"

text \<open>
  The same loop into a map that may already have entries, each value through \<open>vf\<close>: members
  of the document replace entries of the map, the others stay.
\<close>

fun json_merge_members ::
  "jsoncpp \<Rightarrow> (string \<Rightarrow> string) \<Rightarrow> (string \<Rightarrow> string) \<Rightarrow> json \<Rightarrow> string list
   \<Rightarrow> (string, string) std_map \<Rightarrow> (string, string) std_map option" where
  "json_merge_members lib kf vf obj [] acc = Some acc"
| "json_merge_members lib kf vf obj (n # ns) acc =
     (case json_at obj n of
        None \<Rightarrow> None
      | Some v \<Rightarrow>
          (case asString lib v of
             None \<Rightarrow> None
           | Some s \<Rightarrow> json_merge_members lib kf vf obj ns (map_put (kf n) (vf s) acc)))"

definition json_merge_map ::
  "jsoncpp \<Rightarrow> (string \<Rightarrow> string) \<Rightarrow> (string \<Rightarrow> string) \<Rightarrow> json \<Rightarrow> string
   \<Rightarrow> (string, string) std_map \<Rightarrow> (string, string) std_map option" where
  "json_merge_map lib kf vf root name acc =
     (case json_at root name of
        None \<Rightarrow> None
      | Some obj \<Rightarrow>
          (case getMemberNames obj of
             None \<Rightarrow> None
           | Some ns \<Rightarrow> json_merge_members lib kf vf obj ns acc))"

definition json_int :: "(json \<Rightarrow> int option) \<Rightarrow> json \<Rightarrow> string \<Rightarrow> int option" where
  "json_int as root name = (case json_at root name of None \<Rightarrow> None | Some v \<Rightarrow> as v)"

definition json_string :: "jsoncpp \<Rightarrow> json \<Rightarrow> string \<Rightarrow> string option" where
  "json_string lib root name =
     (case json_at root name of None \<Rightarrow> None | Some v \<Rightarrow> asString lib v)"

definition keys_no_nul :: "(string, 'v) std_map \<Rightarrow> bool" where
  "keys_no_nul m \<longleftrightarrow> (\<forall>k \<in> fst ` set m. no_nul k)"

section \<open>Lemmas\<close>

lemma wf_map_values: "map_wf m \<Longrightarrow> map_wf (map (\<lambda>(k, v). (k, f v)) m)"
  by (simp add: map_wf_def case_prod_beta comp_def)

lemma get_map_values: "map_get (map (\<lambda>(k, v). (k, f v)) m) k = map_option f (map_get m k)"
  by (induction m) (auto simp: map_get_def)

lemma set_all_object:
  assumes "map_wf m"
  shows "fold (\<lambda>(k, v). map_put k (f v)) m [] = map (\<lambda>(k, v). (k, f v)) m"
proof -
  have "fold (\<lambda>(k, v). map_put k (f v)) m acc
      = fold (\<lambda>(k, v). map_put k v) (map (\<lambda>(k, v). (k, f v)) m) acc" for acc
    by (induction m arbitrary: acc) auto
  with map_rebuild [OF wf_map_values [OF assms, of f]] show ?thesis by simp
qed

lemma json_set_all_wf [simp]: "map_wf root \<Longrightarrow> map_wf (json_set_all name es root)"
  by (simp add: json_set_all_def)

lemma json_set_all_get:
  assumes "map_wf es" "map_wf root"
  shows "map_get (json_set_all name es root) =
     (if es = [] then map_get root
      else (map_get root)(name \<mapsto> JObj (map (\<lambda>(k, v). (k, JStr v)) es)))"
  using assms by (simp add: json_set_all_def set_all_object)

lemma json_read_members_fold:
  assumes lib: "\<And>s. asString lib (JStr s) = Some s"
    and entries: "\<And>k v. (k, v) \<in> set es \<Longrightarrow> map_get ms k = Some (JStr v)"
  shows "json_read_members lib key (JObj ms) (map fst es) acc
    = Some (fold (\<lambda>(k, v). map_put (key k) v) es acc)"
  using entries
proof (induction es arbitrary: acc)
  case (Cons e es)
  obtain k v where e: "e = (k, v)" by force
  have "map_get ms k = Some (JStr v)" using Cons.prems [of k v] e by simp
  then have "json_read_members lib key (JObj ms) (map fst (e # es)) acc
      = json_read_members lib key (JObj ms) (map fst es) (map_put (key k) v acc)"
    by (simp add: e json_at_def lib)
  also have "\<dots> = Some (fold (\<lambda>(k, v). map_put (key k) v) es (map_put (key k) v acc))"
    by (rule Cons.IH) (simp add: Cons.prems)
  finally show ?case by (simp add: e)
qed simp

lemma fold_key_id:
  assumes "\<forall>k \<in> fst ` set es. key k = k"
  shows "fold (\<lambda>(k, v). map_put (key k) v) es acc = fold (\<lambda>(k, v). map_put k v) es acc"
  using assms by (induction es arbitrary: acc) auto

text \<open>Reading back the member that \<open>json_set_all\<close> wrote.\<close>

lemma json_read_map_set_all:
  assumes lib: "\<And>s. asString lib (JStr s) = Some s" and wf: "map_wf es"
    and root: "map_get root name = (if es = [] then None else Some (JObj (map (\<lambda>(k, v). (k, JStr v)) es)))"
    and key: "\<forall>k \<in> fst ` set es. key k = k"
  shows "json_read_map lib key (JObj root) name = Some es"
proof (cases "es = []")
  case True
  with root show ?thesis by (simp add: json_read_map_def json_at_def getMemberNames_def)
next
  case False
  let ?ms = "map (\<lambda>(k, v). (k, JStr v)) es"
  have "map_get ?ms k = Some (JStr v)" if "(k, v) \<in> set es" for k v
    using that map_wf_distinct [OF wf] by (simp add: get_map_values) (simp add: map_get_def)
  from json_read_members_fold [where es = es and ms = ?ms, OF lib this]
  have "json_read_members lib key (JObj ?ms) (map fst es) [] = Some es"
    by (simp only: fold_key_id [OF key] map_rebuild [OF wf])
  moreover have "map fst ?ms = map fst es" by auto
  moreover have "json_at (JObj root) name = Some (JObj ?ms)" using False root by (simp add: json_at_def)
  ultimately show ?thesis
    by (simp only: json_read_map_def getMemberNames_def option.case json.case)
qed

lemma json_merge_members_fold:
  assumes lib: "\<And>s. asString lib (JStr s) = Some s"
    and entries: "\<And>k v. (k, v) \<in> set es \<Longrightarrow> map_get ms k = Some (JStr v) \<and> kf k = k \<and> vf v = v"
  shows "json_merge_members lib kf vf (JObj ms) (map fst es) acc = Some (fold (\<lambda>(k, v). map_put k v) es acc)"
  using entries
proof (induction es arbitrary: acc)
  case (Cons e es)
  obtain k v where e: "e = (k, v)" by force
  have "map_get ms k = Some (JStr v) \<and> kf k = k \<and> vf v = v" using Cons.prems [of k v] e by simp
  then have "json_merge_members lib kf vf (JObj ms) (map fst (e # es)) acc
      = json_merge_members lib kf vf (JObj ms) (map fst es) (map_put k v acc)"
    by (simp add: e json_at_def lib)
  also have "\<dots> = Some (fold (\<lambda>(k, v). map_put k v) es (map_put k v acc))"
    by (rule Cons.IH, rule Cons.prems) simp
  finally show ?case by (simp add: e)
qed simp

text \<open>Merging the member that \<open>json_set_all\<close> wrote.\<close>

lemma json_merge_map_set_all:
  assumes lib: "\<And>s. asString lib (JStr s) = Some s" and wf: "map_wf es"
    and root: "map_get root name = (if es = [] then None else Some (JObj (map (\<lambda>(k, v). (k, JStr v)) es)))"
    and id: "\<forall>(k, v) \<in> set es. kf k = k \<and> vf v = v"
  shows "json_merge_map lib kf vf (JObj root) name acc = Some (fold (\<lambda>(k, v). map_put k v) es acc)"
proof (cases "es = []")
  case True
  with root show ?thesis by (simp add: json_merge_map_def json_at_def getMemberNames_def)
next
  case False
  let ?ms = "map (\<lambda>(k, v). (k, JStr v)) es"
  have "map_get ?ms k = Some (JStr v) \<and> kf k = k \<and> vf v = v" if "(k, v) \<in> set es" for k v
    using that map_wf_distinct [OF wf] bspec [OF id that] by (simp add: get_map_values) (simp add: map_get_def)
  from json_merge_members_fold [where es = es and ms = ?ms, OF lib this]
  have "json_merge_members lib kf vf (JObj ?ms) (map fst es) acc = Some (fold (\<lambda>(k, v). map_put k v) es acc)" .
  moreover have "map fst ?ms = map fst es" by auto
  moreover have "json_at (JObj root) name = Some (JObj ?ms)" using False root by (simp add: json_at_def)
  ultimately show ?thesis
    by (simp only: json_merge_map_def getMemberNames_def option.case json.case)
qed

lemma json_merge_members_wf:
  "json_merge_members lib kf vf obj ns acc = Some m \<Longrightarrow> map_wf acc \<Longrightarrow> map_wf m"
  by (induction ns arbitrary: acc) (auto split: option.splits)

lemma json_merge_map_wf: "json_merge_map lib kf vf root name acc = Some m \<Longrightarrow> map_wf acc \<Longrightarrow> map_wf m"
  by (auto simp: json_merge_map_def json_merge_members_wf split: option.splits)

lemma json_int_get: "map_get root name = Some v \<Longrightarrow> json_int as (JObj root) name = as v"
  by (simp add: json_int_def json_at_def)

lemma json_int_missing: "map_get root name = None \<Longrightarrow> json_int as (JObj root) name = as JNull"
  by (simp add: json_int_def json_at_def)

lemma json_string_missing: "map_get root name = None \<Longrightarrow> json_string lib (JObj root) name = asString lib JNull"
  by (simp add: json_string_def json_at_def)

lemma json_string_get:
  "map_get root name = Some v \<Longrightarrow> json_string lib (JObj root) name = asString lib v"
  by (simp add: json_string_def json_at_def)

lemma keys_no_nul_c_str: "keys_no_nul m \<Longrightarrow> \<forall>k \<in> fst ` set m. c_str k = k"
  by (simp add: keys_no_nul_def)

text \<open>
  A library that satisfies the assumption for one document: it stores the document under a
  fixed text.
\<close>

definition json_number :: "json \<Rightarrow> int option" where
  "json_number j = (case j of JNull \<Rightarrow> Some 0 | JInt n \<Rightarrow> Some n | _ \<Rightarrow> None)"

definition one_document_lib :: "json \<Rightarrow> jsoncpp" where
  "one_document_lib doc =
     \<lparr>writer_write = (\<lambda>_. ''{}''), reader_parse = (\<lambda>_. Some doc),
      asString = (\<lambda>j. case j of JNull \<Rightarrow> Some [] | JStr s \<Rightarrow> Some s | _ \<Rightarrow> None),
      asInt = json_number, asUInt = json_number, asUInt64 = json_number\<rparr>"

lemma one_document_lib_reads_back: "jsoncpp_reads_back (one_document_lib doc) doc"
  by (simp add: jsoncpp_reads_back_def one_document_lib_def no_nul_def)

lemma one_document_lib_reads_numbers: "jsoncpp_reads_numbers (one_document_lib doc)"
  by (simp add: jsoncpp_reads_numbers_def one_document_lib_def json_number_def)

end
