(* ===== verification/Base64.thy ===== *)
theory Base64
  imports S3_Prelude
begin

text \<open>
  \<open>server/base64.cc\<close>: the base-64 codec that every binary value (index layouts, object
  ids, policies) goes through on its way into the JSON metadata.  The loops keep the
  source's state: the position in the group and the bits carried to the next character.
\<close>

unbundle bit_operations_syntax

definition base64_chars :: string where
  "base64_chars = ''ABCDEFGHIJKLMNOPQRSTUVWXYZabcdefghijklmnopqrstuvwxyz0123456789+/''"

fun encode_loop :: "nat \<Rightarrow> nat \<Rightarrow> string \<Rightarrow> bytes \<Rightarrow> string" where
  "encode_loop modulo_3 for_next ret [] =
     (if modulo_3 \<noteq> 0
      then ret @ [base64_chars ! for_next] @ ''='' @ (if modulo_3 = 1 then ''='' else [])
      else ret)"
| "encode_loop modulo_3 for_next ret (ch # bs) =
     (let cur_ch = (of_char ch :: nat);
          (ret', for_next') =
            (if modulo_3 = 0 then
               (ret @ [base64_chars ! (drop_bit 2 cur_ch AND 0x3F)], push_bit 4 (cur_ch AND 3))
             else if modulo_3 = 1 then
               (ret @ [base64_chars ! (for_next OR (drop_bit 4 cur_ch AND 0xF))],
                push_bit 2 (cur_ch AND 0x0F))
             else
               (ret @ [base64_chars ! (for_next OR (drop_bit 6 cur_ch AND 3))]
                    @ [base64_chars ! (cur_ch AND 0x3F)], for_next))
      in encode_loop (if modulo_3 + 1 > 2 then 0 else modulo_3 + 1) for_next' ret' bs)"

definition base64_encode :: "bytes \<Rightarrow> string" where
  "base64_encode bs = encode_loop 0 0 [] bs"

text \<open>The value of a base-64 character; \<open>None\<close> for an illegal one.\<close>

definition decoded_value :: "char \<Rightarrow> nat option" where
  "decoded_value ch =
     (let n = (of_char ch :: nat) in
      if 65 \<le> n \<and> n \<le> 90 then Some (n - 65)
      else if 97 \<le> n \<and> n \<le> 122 then Some (n - (97 - 26))
      else if 48 \<le> n \<and> n \<le> 57 then Some (n + (52 - 48))
      else if ch = CHR ''+'' then Some 62
      else if ch = CHR ''/'' then Some 63
      else None)"

text \<open>\<open>static_cast<char>\<close> keeps the low eight bits, as \<open>char_of\<close> does.\<close>

fun decode_loop :: "nat \<Rightarrow> nat \<Rightarrow> bytes \<Rightarrow> string \<Rightarrow> bytes" where
  "decode_loop modulo_4 current_byte ret [] = ret"
| "decode_loop modulo_4 current_byte ret (ch # cs) =
     (if c_isspace ch then
        (if modulo_4 \<noteq> 0 then ret else decode_loop modulo_4 current_byte ret cs)
      else
        (case decoded_value ch of
           None \<Rightarrow> ret
         | Some decoded \<Rightarrow>
             (let (ret', current_byte') =
                (if modulo_4 = 0 then (ret, push_bit 2 decoded)
                 else if modulo_4 = 1 then
                   (ret @ [char_of (current_byte OR (drop_bit 4 decoded AND 3))], push_bit 4 decoded)
                 else if modulo_4 = 2 then
                   (ret @ [char_of (current_byte OR (drop_bit 2 decoded AND 0x0F))], push_bit 6 decoded)
                 else (ret @ [char_of (current_byte OR (decoded AND 0x3F))], current_byte))
              in decode_loop (if modulo_4 + 1 > 3 then 0 else modulo_4 + 1) current_byte' ret' cs)))"

definition base64_decode :: "string \<Rightarrow> bytes" where
  "base64_decode s = decode_loop 0 0 [] s"

section \<open>Arithmetic of the bit operations\<close>

lemma and_masks [simp]:
  "(n :: nat) AND 0x3F = n mod 64" "n AND 3 = n mod 4" "n AND 0xF = n mod 16"
  using take_bit_eq_mask [of 6 n] take_bit_eq_mask [of 2 n] take_bit_eq_mask [of 4 n]
  by (simp_all add: take_bit_eq_mod mask_eq_exp_minus_1)

lemma shift_or:
  assumes "b < 2 ^ k"
  shows "push_bit k a OR b = a * 2 ^ k + (b :: nat)"
proof -
  have "push_bit k a AND b = 0"
    using assms by (intro bit_eqI) (auto simp: bit_simps, metis bit_take_bit_iff not_le take_bit_nat_eq_self)
  then show ?thesis by (simp add: disjunctive_add_eq_or [symmetric] push_bit_eq_mult)
qed

lemma or_group [simp]:
  "b < 16 \<Longrightarrow> push_bit 4 a OR b = a * 16 + (b :: nat)"
  "b < 4 \<Longrightarrow> push_bit 2 a OR b = a * 4 + b"
  "b < 64 \<Longrightarrow> push_bit 6 a OR b = a * 64 + b"
  using shift_or [of b 4 a] shift_or [of b 2 a] shift_or [of b 6 a] by simp_all

lemma drop_bits [simp]:
  "drop_bit 2 (n :: nat) = n div 4" "drop_bit 4 n = n div 16" "drop_bit 6 n = n div 64"
  by (simp_all add: drop_bit_eq_div)

lemma decoded_table:
  "map decoded_value base64_chars = map Some [0..<64]"
  "list_all (\<lambda>c. \<not> c_isspace c) base64_chars"
  by (simp_all add: base64_chars_def decoded_value_def c_isspace_def upt_conv_Cons)

lemma decoded_chars:
  assumes "n < 64"
  shows "decoded_value (base64_chars ! n) = Some n" "\<not> c_isspace (base64_chars ! n)"
proof -
  have len: "n < length base64_chars" using assms by (simp add: base64_chars_def)
  then have "decoded_value (base64_chars ! n) = map decoded_value base64_chars ! n" by simp
  also have "\<dots> = Some n" using assms by (simp only: decoded_table) simp
  finally show "decoded_value (base64_chars ! n) = Some n" .
  show "\<not> c_isspace (base64_chars ! n)"
    using decoded_table(2) len by (simp add: list_all_length)
qed

lemma decode_loop_char:
  assumes "n < 64"
  shows "decode_loop modulo_4 cur ret (base64_chars ! n # cs) =
    (let (ret', cur') =
       (if modulo_4 = 0 then (ret, push_bit 2 n)
        else if modulo_4 = 1 then (ret @ [char_of (cur OR (drop_bit 4 n AND 3))], push_bit 4 n)
        else if modulo_4 = 2 then (ret @ [char_of (cur OR (drop_bit 2 n AND 0x0F))], push_bit 6 n)
        else (ret @ [char_of (cur OR (n AND 0x3F))], cur))
     in decode_loop (if modulo_4 + 1 > 3 then 0 else modulo_4 + 1) cur' ret' cs)"
  by (simp only: decode_loop.simps decoded_chars [OF assms] if_False option.case)

section \<open>Encoding and decoding by groups\<close>

text \<open>The four six-bit values of a group of three bytes.\<close>

lemma of_char_less [simp]: "(of_char c :: nat) < 256"
  using of_char_eq_iff [of c] by (metis of_char_mod_256 mod_less_divisor zero_less_numeral)

lemma char_of_wrap: "char_of (k * 256 + n) = char_of (n :: nat)"
  using char_of_mod_256 [of "k * 256 + n"] char_of_mod_256 [of n] by (metis mod_mult_self3)

lemma encode_loop_ret: "encode_loop m f ret bs = ret @ encode_loop m f [] bs"
proof (induction bs arbitrary: m f ret)
  case (Cons b bs)
  show ?case
    by (simp add: Let_def, subst (1 2 3 4 5 6) Cons.IH, simp)
qed simp

lemma encode_loop_for_next: "encode_loop 0 f ret bs = encode_loop 0 f' ret bs"
  by (cases bs) simp_all


lemma encode_group:
  assumes a: "a = (of_char ca :: nat)" and b: "b = (of_char cb :: nat)" and c: "c = (of_char cc :: nat)"
  shows "encode_loop 0 f [] (ca # cb # cc # bs) =
    [base64_chars ! (a div 4), base64_chars ! ((a mod 4) * 16 + b div 16),
     base64_chars ! ((b mod 16) * 4 + c div 64), base64_chars ! (c mod 64)] @ encode_loop 0 0 [] bs"
proof -
  have lt: "a < 256" "b < 256" "c < 256" by (simp_all add: assms)
  have "encode_loop 0 f [] (ca # cb # cc # bs) = encode_loop 0 (push_bit 2 (b mod 16))
      [base64_chars ! (a div 4), base64_chars ! ((a mod 4) * 16 + b div 16),
       base64_chars ! ((b mod 16) * 4 + c div 64), base64_chars ! (c mod 64)] bs"
    using lt by (simp add: a [symmetric] b [symmetric] c [symmetric] less_mult_imp_div_less)
  then show ?thesis using encode_loop_ret encode_loop_for_next by metis
qed

lemma decode_group:
  assumes a: "a = (of_char ca :: nat)" and b: "b = (of_char cb :: nat)" and c: "c = (of_char cc :: nat)"
  shows "\<exists>cur'. decode_loop 0 cur ret
    ([base64_chars ! (a div 4), base64_chars ! ((a mod 4) * 16 + b div 16),
      base64_chars ! ((b mod 16) * 4 + c div 64), base64_chars ! (c mod 64)] @ cs)
    = decode_loop 0 cur' (ret @ [ca, cb, cc]) cs"
proof -
  have lt: "a < 256" "b < 256" "c < 256" by (simp_all add: assms)
  have v: "a div 4 < 64" "(a mod 4) * 16 + b div 16 < 64" "(b mod 16) * 4 + c div 64 < 64" "c mod 64 < 64"
    using lt by simp_all
  note step = decode_loop_char
  have "decode_loop 0 cur ret
      ([base64_chars ! (a div 4), base64_chars ! ((a mod 4) * 16 + b div 16),
        base64_chars ! ((b mod 16) * 4 + c div 64), base64_chars ! (c mod 64)] @ cs)
      = decode_loop 0 (push_bit 6 ((b mod 16) * 4 + c div 64))
          (ret @ [char_of (a div 4 * 4 + a mod 4),
                  char_of (((a mod 4) * 16 + b div 16) * 16 + b mod 16),
                  char_of (((b mod 16) * 4 + c div 64) * 64 + c mod 64)]) cs"
    using lt by (simp add: step v del: decode_loop.simps)
  also have "char_of (a div 4 * 4 + a mod 4) = ca" by (simp add: a)
  also have "char_of (((a mod 4) * 16 + b div 16) * 16 + b mod 16) = cb"
  proof -
    have "((a mod 4) * 16 + b div 16) * 16 + b mod 16 = (a mod 4) * 256 + b" by simp
    then show ?thesis by (simp only: char_of_wrap b char_of_char)
  qed
  also have "char_of (((b mod 16) * 4 + c div 64) * 64 + c mod 64) = cc"
  proof -
    have "((b mod 16) * 4 + c div 64) * 64 + c mod 64 = (b mod 16) * 256 + c" by simp
    then show ?thesis by (simp only: char_of_wrap c char_of_char)
  qed
  finally show ?thesis by blast
qed


fun by_three :: "'a list \<Rightarrow> 'a list list" where
  "by_three (a # b # c # xs) = [a, b, c] # by_three xs"
| "by_three [] = [[]]"
| "by_three [a] = [[a]]"
| "by_three [a, b] = [[a, b]]"

lemma decode_loop_padding: "decode_loop m cur ret (CHR ''='' # cs) = ret"
  by (simp add: decoded_value_def c_isspace_def)

lemma decode_encode_loop: "decode_loop 0 cur ret (encode_loop 0 0 [] bs) = ret @ bs"
proof (induction bs arbitrary: cur ret rule: by_three.induct)
  case (1 ca cb cc bs)
  obtain cur' where "decode_loop 0 cur ret (encode_loop 0 0 [] (ca # cb # cc # bs))
      = decode_loop 0 cur' (ret @ [ca, cb, cc]) (encode_loop 0 0 [] bs)"
    using decode_group [OF refl refl refl, of cur ret ca cb cc "encode_loop 0 0 [] bs"]
      encode_group [OF refl refl refl, of 0 ca cb cc bs] by auto
  with 1 show ?case by simp
next
  case 2
  show ?case by simp
next
  case (3 ca)
  define a where "a = (of_char ca :: nat)"
  have "a < 256" by (simp add: a_def)
  then have lt: "a < 256" "a div 4 < 64" "(a mod 4) * 16 < 64" by simp_all
  have eq: "encode_loop 0 0 [] [ca] = [base64_chars ! (a div 4), base64_chars ! ((a mod 4) * 16)] @ ''==''"
    using lt by (simp add: a_def [symmetric] push_bit_eq_mult)
  have "decode_loop 0 cur ret (encode_loop 0 0 [] [ca]) = ret @ [char_of (a div 4 * 4 + a mod 4)]"
    unfolding eq using lt
    by (simp add: decode_loop_char decode_loop_padding Let_def del: decode_loop.simps(2))
  then show ?case by (simp add: a_def)
next
  case (4 ca cb)
  define a b where "a = (of_char ca :: nat)" and "b = (of_char cb :: nat)"
  have "a < 256" "b < 256" by (simp_all add: a_def b_def)
  then have lt: "a < 256" "b < 256" "a div 4 < 64" "(a mod 4) * 16 + b div 16 < 64" "(b mod 16) * 4 < 64"
    by simp_all
  have eq: "encode_loop 0 0 [] [ca, cb] = [base64_chars ! (a div 4),
      base64_chars ! ((a mod 4) * 16 + b div 16), base64_chars ! ((b mod 16) * 4)] @ ''=''"
    using lt by (simp add: a_def [symmetric] b_def [symmetric]) (simp add: push_bit_eq_mult)
  have "decode_loop 0 cur ret (encode_loop 0 0 [] [ca, cb])
      = ret @ [char_of (a div 4 * 4 + a mod 4), char_of (((a mod 4) * 16 + b div 16) * 16 + b mod 16)]"
    unfolding eq using lt
    by (simp add: decode_loop_char decode_loop_padding Let_def del: decode_loop.simps(2))
  moreover have "((a mod 4) * 16 + b div 16) * 16 + b mod 16 = (a mod 4) * 256 + b" by simp
  then have "char_of (((a mod 4) * 16 + b div 16) * 16 + b mod 16) = cb"
    by (simp only: char_of_wrap b_def char_of_char)
  moreover have "char_of (a div 4 * 4 + a mod 4) = ca" by (simp add: a_def)
  ultimately show ?case by (simp only: append.simps)
qed

lemma base64_decode_encode [simp]: "base64_decode (base64_encode bs) = bs"
  by (simp add: base64_decode_def base64_encode_def decode_encode_loop)

text \<open>The encoding uses the 64 characters and padding only, so it never contains the
  separator of two-part ids.\<close>

lemma encode_loop_chars:
  assumes "m = 0 \<or> m = 1 \<and> (\<exists>k<4. f = push_bit 4 k) \<or> m = 2 \<and> (\<exists>k<16. f = push_bit 2 k)"
  shows "set (encode_loop m f ret bs) \<subseteq> set ret \<union> set base64_chars \<union> {CHR ''=''}"
  using assms
proof (induction bs arbitrary: m f ret)
  case Nil
  have len: "length base64_chars = 64" by (simp add: base64_chars_def)
  have "f < 64" if "m \<noteq> 0" using Nil that by (auto simp: push_bit_eq_mult)
  with len show ?case by auto
next
  case (Cons ch bs)
  define n where "n = (of_char ch :: nat)"
  have n: "n < 256" by (simp add: n_def)
  have tab: "base64_chars ! i \<in> set base64_chars" if "i < 64" for i
    using that by (intro nth_mem) (simp add: base64_chars_def)
  let ?goal = "set ret \<union> set base64_chars \<union> {CHR ''=''}"
  consider "m = 0" | k where "m = 1" "k < 4" "f = push_bit 4 k" | k where "m = 2" "k < 16" "f = push_bit 2 k"
    using Cons.prems by auto
  then show ?case
  proof cases
    case 1
    let ?c = "base64_chars ! (n div 4 mod 64)"
    have "encode_loop m f ret (ch # bs) = encode_loop 1 (push_bit 4 (n mod 4)) (ret @ [?c]) bs"
      using 1 by (simp add: n_def Let_def)
    moreover have "set (ret @ [?c]) \<subseteq> ?goal" using tab [of "n div 4 mod 64"] by auto
    moreover have "\<exists>k<4. push_bit 4 (n mod 4) = push_bit 4 k" by (intro exI [of _ "n mod 4"]) simp
    ultimately show ?thesis using Cons.IH [of 1 "push_bit 4 (n mod 4)" "ret @ [?c]"] by auto
  next
    case 2
    have lt: "k * 16 + n div 16 < 64" using 2 n by simp
    let ?c = "base64_chars ! (k * 16 + n div 16)"
    have "encode_loop m f ret (ch # bs) = encode_loop 2 (push_bit 2 (n mod 16)) (ret @ [?c]) bs"
      using 2 n by (simp add: n_def [symmetric] numeral_2_eq_2)
    moreover have "set (ret @ [?c]) \<subseteq> ?goal" using tab [OF lt] by auto
    moreover have "\<exists>k<16. push_bit 2 (n mod 16) = push_bit 2 k" by (intro exI [of _ "n mod 16"]) simp
    ultimately show ?thesis using Cons.IH [of 2 "push_bit 2 (n mod 16)" "ret @ [?c]"] by auto
  next
    case 3
    have lt: "k * 4 + n div 64 < 64" using 3 n by simp
    let ?cs = "[base64_chars ! (k * 4 + n div 64), base64_chars ! (n mod 64)]"
    have "encode_loop m f ret (ch # bs) = encode_loop 0 f (ret @ ?cs) bs"
      using 3 n by (simp add: n_def [symmetric])
    moreover have "set (ret @ ?cs) \<subseteq> ?goal" using tab [OF lt] tab [of "n mod 64"] by auto
    ultimately show ?thesis using Cons.IH [of 0 f "ret @ ?cs"] by auto
  qed
qed

lemma base64_encode_no_dash: "CHR ''-'' \<notin> set (base64_encode bs)"
  using encode_loop_chars [of 0 0 "[]" bs] by (auto simp: base64_encode_def base64_chars_def)


section \<open>Properties\<close>

text \<open>Decoding an encoded byte string gives the byte string back, for every length and
  all byte values: the codec loses nothing.\<close>

theorem base64_roundtrip: "base64_decode (base64_encode bs) = bs"
  by (rule base64_decode_encode)

end
