(* ===== verification/Motr_Ids.thy ===== *)
theory Motr_Ids
  imports Base64
begin

text \<open>
  \<open>server/s3_m0_uint128_helper.cc\<close>: the textual forms of Motr's 128-bit identifiers, of
  file identifiers and of index layouts, as they are stored in the JSON metadata and in
  URLs.  An in-memory structure is its bytes on a little-endian machine; the four bytes of
  padding at the end of \<open>s3_motr_idx_layout\<close> are an argument, because the compiler leaves
  them unspecified.
\<close>

section \<open>Little-endian representation\<close>

fun nat_to_le :: "nat \<Rightarrow> nat \<Rightarrow> bytes" where
  "nat_to_le 0 n = []"
| "nat_to_le (Suc k) n = char_of (n mod 256) # nat_to_le k (n div 256)"

fun le_to_nat :: "bytes \<Rightarrow> nat" where
  "le_to_nat [] = 0"
| "le_to_nat (b # bs) = of_char b + 256 * le_to_nat bs"

lemma length_nat_to_le [simp]: "length (nat_to_le k n) = k"
  by (induction k arbitrary: n) simp_all

lemma le_to_nat_to_le: "le_to_nat (nat_to_le k n) = n mod 256 ^ k"
proof (induction k arbitrary: n)
  case (Suc k)
  have "n mod 256 ^ Suc k = n mod 256 + 256 * (n div 256 mod 256 ^ k)"
    by (simp add: mod_mult2_eq)
  with Suc show ?case by simp
qed simp

definition le64 :: "64 word \<Rightarrow> bytes" where "le64 w = nat_to_le 8 (unat w)"
definition of_le64 :: "bytes \<Rightarrow> 64 word" where "of_le64 bs = of_nat (le_to_nat bs)"
definition le32 :: "32 word \<Rightarrow> bytes" where "le32 w = nat_to_le 4 (unat w)"
definition of_le32 :: "bytes \<Rightarrow> 32 word" where "of_le32 bs = of_nat (le_to_nat bs)"

lemma le64_inverse [simp]: "of_le64 (le64 w) = w" "length (le64 w) = 8"
proof -
  have "unat w < 2 ^ 64" using unsigned_less [of w] by simp
  then have "unat w mod 256 ^ 8 = unat w" by simp
  then show "of_le64 (le64 w) = w" by (simp only: of_le64_def le64_def le_to_nat_to_le) simp
qed (simp add: le64_def)

lemma le32_inverse [simp]: "of_le32 (le32 w) = w" "length (le32 w) = 4"
proof -
  have "unat w < 2 ^ 32" using unsigned_less [of w] by simp
  then have "unat w mod 256 ^ 4 = unat w" by simp
  then show "of_le32 (le32 w) = w" by (simp only: of_le32_def le32_def le_to_nat_to_le) simp
qed (simp add: le32_def)

section \<open>Identifiers\<close>

record m0_uint128 =
  u_hi :: "64 word"
  u_lo :: "64 word"

record m0_fid =
  f_container :: "64 word"
  f_key :: "64 word"

record s3_motr_idx_layout =
  oid :: m0_uint128
  pver :: m0_fid
  layout_type :: "32 word"

definition to_string_pair :: "m0_uint128 \<Rightarrow> string \<times> string" where
  "to_string_pair ident = (base64_encode (le64 (u_hi ident)), base64_encode (le64 (u_lo ident)))"

definition uint128_to_string :: "m0_uint128 \<Rightarrow> string" where
  "uint128_to_string ident = base64_encode (le64 (u_hi ident)) @ ''-'' @ base64_encode (le64 (u_lo ident))"

text \<open>The argument order of the source: the low part first.\<close>

definition to_m0_uint128_parts :: "string \<Rightarrow> string \<Rightarrow> m0_uint128" where
  "to_m0_uint128_parts id_u_lo id_u_hi =
     (let dec_hi = base64_decode id_u_hi; dec_lo = base64_decode id_u_lo in
      if length dec_hi = 8 \<and> length dec_lo = 8
      then \<lparr>u_hi = of_le64 dec_hi, u_lo = of_le64 dec_lo\<rparr>
      else \<lparr>u_hi = 0, u_lo = 0\<rparr>)"

definition to_m0_uint128 :: "string \<Rightarrow> m0_uint128" where
  "to_m0_uint128 id_str =
     (if CHR ''-'' \<in> set id_str then
        (let dec_hi = base64_decode (takeWhile (\<lambda>c. c \<noteq> CHR ''-'') id_str);
             dec_lo = base64_decode (tl (dropWhile (\<lambda>c. c \<noteq> CHR ''-'') id_str)) in
         if length dec_hi = 8 \<and> length dec_lo = 8
         then \<lparr>u_hi = of_le64 dec_hi, u_lo = of_le64 dec_lo\<rparr>
         else \<lparr>u_hi = 0, u_lo = 0\<rparr>)
      else \<lparr>u_hi = 0, u_lo = 0\<rparr>)"

definition fid_bytes :: "m0_fid \<Rightarrow> bytes" where
  "fid_bytes fid = le64 (f_container fid) @ le64 (f_key fid)"

definition fid_to_string :: "m0_fid \<Rightarrow> string" where
  "fid_to_string fid = base64_encode (fid_bytes fid)"

definition to_m0_fid :: "string \<Rightarrow> m0_fid \<times> bool" where
  "to_m0_fid encoded =
     (let d = base64_decode encoded in
      if length d = 16
      then (\<lparr>f_container = of_le64 (take 8 d), f_key = of_le64 (drop 8 d)\<rparr>, True)
      else (\<lparr>f_container = 0, f_key = 0\<rparr>, False))"

text \<open>\<open>sizeof (struct s3_motr_idx_layout)\<close> with its padding.\<close>

definition sizeof_idx_layout :: nat where "sizeof_idx_layout = 40"

definition idx_layout_bytes :: "bytes \<Rightarrow> s3_motr_idx_layout \<Rightarrow> bytes" where
  "idx_layout_bytes padding lo =
     le64 (u_hi (oid lo)) @ le64 (u_lo (oid lo)) @ fid_bytes (pver lo)
       @ le32 (layout_type lo) @ padding"

definition idx_layout_to_string :: "bytes \<Rightarrow> s3_motr_idx_layout \<Rightarrow> string" where
  "idx_layout_to_string padding lo = base64_encode (idx_layout_bytes padding lo)"

definition idx_layout_of_bytes :: "bytes \<Rightarrow> s3_motr_idx_layout" where
  "idx_layout_of_bytes b =
     \<lparr>oid = \<lparr>u_hi = of_le64 (take 8 b), u_lo = of_le64 (take 8 (drop 8 b))\<rparr>,
      pver = \<lparr>f_container = of_le64 (take 8 (drop 16 b)), f_key = of_le64 (take 8 (drop 24 b))\<rparr>,
      layout_type = of_le32 (take 4 (drop 32 b))\<rparr>"

text \<open>
  The decoded bytes are copied over a zeroed structure without a length check; more bytes
  than the structure has are written past it (\<open>None\<close>).
\<close>

definition to_idx_layout :: "string \<Rightarrow> s3_motr_idx_layout option" where
  "to_idx_layout encoded =
     (let d = base64_decode encoded in
      if length d > sizeof_idx_layout then None
      else Some (idx_layout_of_bytes (d @ replicate (sizeof_idx_layout - length d) (char_of (0 :: nat)))))"

text \<open>\<open>non_zero\<close> folds the two halves of \<open>u_hi | u_lo\<close> into 32 bits.\<close>

definition non_zero :: "m0_uint128 \<Rightarrow> bool" where
  "non_zero ident =
     (let whole = u_hi ident OR u_lo ident in
      (ucast whole OR ucast (drop_bit 32 whole) :: 32 word) \<noteq> 0)"

section \<open>Round trips\<close>

lemma takeWhile_dash:
  "CHR ''-'' \<notin> set xs \<Longrightarrow> takeWhile (\<lambda>c. c \<noteq> CHR ''-'') (xs @ CHR ''-'' # ys) = xs"
  "CHR ''-'' \<notin> set xs \<Longrightarrow> dropWhile (\<lambda>c. c \<noteq> CHR ''-'') (xs @ CHR ''-'' # ys) = CHR ''-'' # ys"
  by (induction xs) auto

lemma uint128_to_string_inverse [simp]: "to_m0_uint128 (uint128_to_string ident) = ident"
  by (simp add: to_m0_uint128_def uint128_to_string_def takeWhile_dash base64_encode_no_dash Let_def)

lemma to_string_pair_inverse [simp]:
  "to_m0_uint128_parts (snd (to_string_pair ident)) (fst (to_string_pair ident)) = ident"
  by (simp add: to_m0_uint128_parts_def to_string_pair_def Let_def)

lemma fid_to_string_inverse [simp]: "to_m0_fid (fid_to_string fid) = (fid, True)"
  by (simp add: to_m0_fid_def fid_to_string_def fid_bytes_def Let_def)

lemma idx_layout_to_string_inverse [simp]:
  "length padding = 4 \<Longrightarrow> to_idx_layout (idx_layout_to_string padding lo) = Some lo"
  by (simp add: to_idx_layout_def idx_layout_to_string_def idx_layout_bytes_def idx_layout_of_bytes_def
      fid_bytes_def sizeof_idx_layout_def Let_def)

lemma non_zero_iff: "non_zero ident \<longleftrightarrow> u_hi ident \<noteq> 0 \<or> u_lo ident \<noteq> 0"
proof -
  have "w = 0" if "(ucast w OR ucast (drop_bit 32 w) :: 32 word) = 0" for w :: "64 word"
  proof (rule bit_word_eqI)
    fix n assume n: "n < LENGTH(64)"
    have z: "\<not> bit (ucast w OR ucast (drop_bit 32 w) :: 32 word) m" for m by (simp add: that)
    show "bit w n = bit 0 n"
      using n z [of n] z [of "n - 32"]
      by (cases "n < 32") (auto simp: bit_simps)
  qed
  then have "non_zero ident \<longleftrightarrow> u_hi ident OR u_lo ident \<noteq> 0"
    unfolding non_zero_def Let_def
    by (metis drop_bit_of_0 or.left_neutral unsigned_0)
  then show ?thesis by (simp add: or_eq_0_iff)
qed

section \<open>Properties\<close>

text \<open>C17: The textual forms of Motr identifiers are invertible: parsing what was printed
  gives back the 128-bit id (both forms), the file id, and the index layout whatever the
  padding bytes of the structure were.\<close>

theorem motr_id_roundtrips:
  assumes "length padding = 4"
  shows "to_m0_uint128 (uint128_to_string ident) = ident
    \<and> to_m0_uint128_parts (snd (to_string_pair ident)) (fst (to_string_pair ident)) = ident
    \<and> to_m0_fid (fid_to_string fid) = (fid, True)
    \<and> to_idx_layout (idx_layout_to_string padding lo) = Some lo"
  using assms by simp

theorem motr_id_roundtrips_witness:
  "to_m0_uint128 (uint128_to_string \<lparr>u_hi = 0x7ffffff, u_lo = 12\<rparr>) = \<lparr>u_hi = 0x7ffffff, u_lo = 12\<rparr>
    \<and> to_idx_layout (idx_layout_to_string (replicate 4 (CHR ''x''))
        \<lparr>oid = \<lparr>u_hi = 1, u_lo = 2\<rparr>, pver = \<lparr>f_container = 3, f_key = 4\<rparr>, layout_type = 5\<rparr>)
      = Some \<lparr>oid = \<lparr>u_hi = 1, u_lo = 2\<rparr>, pver = \<lparr>f_container = 3, f_key = 4\<rparr>, layout_type = 5\<rparr>"
proof -
  have len: "length (replicate 4 (CHR ''x'')) = 4" by simp
  show ?thesis
    using motr_id_roundtrips [OF len, of "\<lparr>u_hi = 0x7ffffff, u_lo = 12\<rparr>" _
        "\<lparr>oid = \<lparr>u_hi = 1, u_lo = 2\<rparr>, pver = \<lparr>f_container = 3, f_key = 4\<rparr>, layout_type = 5\<rparr>"]
    by blast
qed

end
