(* ===== verification/Bucket_Metadata.thy ===== *)
theory Bucket_Metadata
  imports Json_Doc Motr_Ids Common_Utilities "HOL-Library.Monad_Syntax"
begin

text \<open>
  \<open>server/s3_bucket_metadata.cc\<close>: the metadata of a bucket and its JSON form, which is the
  value stored in the bucket metadata index.  Everything the class keeps is a field of the
  record; the current time, the padding bytes of the index layouts and the fault injection
  switch \<open>bucket_metadata_corrupted\<close> are arguments.  An operation that may throw gives \<open>None\<close>.
\<close>

datatype S3BucketMetadataState = Bempty | Bpresent | Bmissing | Bfailed | Bfailed_to_launch

text \<open>What the bucket metadata classes read from their request object.\<close>

record bucket_request =
  rq_request_id :: string
  rq_stripped_request_id :: string
  rq_bucket_name :: string
  rq_default_acl :: string
  rq_account_name :: string
  rq_account_id :: string
  rq_user_name :: string
  rq_user_id :: string
  rq_canonical_id :: string

record S3BucketMetadata =
  account_name :: string
  account_id :: string
  user_name :: string
  owner_canonical_id :: string
  user_id :: string
  encoded_acl :: string
  bucket_name :: string
  bucket_policy :: string
  bucket_tags :: "(string, string) std_map"
  system_defined_attribute :: "(string, string) std_map"
  user_defined_attribute :: "(string, string) std_map"
  multipart_index_layout :: s3_motr_idx_layout
  object_list_index_layout :: s3_motr_idx_layout
  objects_version_list_index_layout :: s3_motr_idx_layout
  extended_metadata_index_layout :: s3_motr_idx_layout
  bm_request :: bucket_request
  bm_state :: S3BucketMetadataState
  request_id :: string
  stripped_request_id :: string

definition zero_layout :: s3_motr_idx_layout where
  "zero_layout = \<lparr>oid = \<lparr>u_hi = 0, u_lo = 0\<rparr>, pver = \<lparr>f_container = 0, f_key = 0\<rparr>, layout_type = 0\<rparr>"

definition S3BucketMetadata_init :: "bucket_request \<Rightarrow> string \<Rightarrow> S3BucketMetadata" where
  "S3BucketMetadata_init req str_bucket_name =
     \<lparr>account_name = [], account_id = [], user_name = [], owner_canonical_id = [], user_id = [],
      encoded_acl = [],
      bucket_name = (if str_bucket_name = [] then rq_bucket_name req else str_bucket_name),
      bucket_policy = [], bucket_tags = [], system_defined_attribute = [], user_defined_attribute = [],
      multipart_index_layout = zero_layout, object_list_index_layout = zero_layout,
      objects_version_list_index_layout = zero_layout, extended_metadata_index_layout = zero_layout,
      bm_request = req, bm_state = Bempty,
      request_id = rq_request_id req, stripped_request_id = rq_stripped_request_id req\<rparr>"

section \<open>Getters and setters\<close>

text \<open>Reading an attribute through \<open>operator[]\<close> creates it when it is missing.\<close>

definition system_attribute_at :: "string \<Rightarrow> S3BucketMetadata \<Rightarrow> S3BucketMetadata \<times> string" where
  "system_attribute_at key self =
     (let (m, v) = map_index [] (system_defined_attribute self) key
      in (self\<lparr>system_defined_attribute := m\<rparr>, v))"

definition get_creation_time :: "S3BucketMetadata \<Rightarrow> S3BucketMetadata \<times> string" where
  "get_creation_time = system_attribute_at ''Date''"

definition get_location_constraint :: "S3BucketMetadata \<Rightarrow> S3BucketMetadata \<times> string" where
  "get_location_constraint = system_attribute_at ''LocationConstraint''"

definition get_owner_id :: "S3BucketMetadata \<Rightarrow> S3BucketMetadata \<times> string" where
  "get_owner_id = system_attribute_at ''Owner-User-id''"

definition get_owner_name :: "S3BucketMetadata \<Rightarrow> S3BucketMetadata \<times> string" where
  "get_owner_name = system_attribute_at ''Owner-User''"

definition get_bucket_owner_account_id :: "S3BucketMetadata \<Rightarrow> S3BucketMetadata \<times> string" where
  "get_bucket_owner_account_id = system_attribute_at ''Owner-Account-id''"

definition get_owner_canonical_id :: "S3BucketMetadata \<Rightarrow> S3BucketMetadata \<times> string" where
  "get_owner_canonical_id = system_attribute_at ''Owner-Canonical-id''"

definition set_multipart_index_layout :: "s3_motr_idx_layout \<Rightarrow> S3BucketMetadata \<Rightarrow> S3BucketMetadata" where
  "set_multipart_index_layout lo self = self\<lparr>multipart_index_layout := lo\<rparr>"

definition set_object_list_index_layout :: "s3_motr_idx_layout \<Rightarrow> S3BucketMetadata \<Rightarrow> S3BucketMetadata" where
  "set_object_list_index_layout lo self = self\<lparr>object_list_index_layout := lo\<rparr>"

definition set_objects_version_list_index_layout ::
  "s3_motr_idx_layout \<Rightarrow> S3BucketMetadata \<Rightarrow> S3BucketMetadata" where
  "set_objects_version_list_index_layout lo self = self\<lparr>objects_version_list_index_layout := lo\<rparr>"

definition add_system_attribute :: "string \<Rightarrow> string \<Rightarrow> S3BucketMetadata \<Rightarrow> S3BucketMetadata" where
  "add_system_attribute key val self =
     self\<lparr>system_defined_attribute := map_put key val (system_defined_attribute self)\<rparr>"

definition add_user_defined_attribute :: "string \<Rightarrow> string \<Rightarrow> S3BucketMetadata \<Rightarrow> S3BucketMetadata" where
  "add_user_defined_attribute key val self =
     self\<lparr>user_defined_attribute := map_put key val (user_defined_attribute self)\<rparr>"

definition set_location_constraint :: "string \<Rightarrow> S3BucketMetadata \<Rightarrow> S3BucketMetadata" where
  "set_location_constraint location self =
     self\<lparr>system_defined_attribute := map_put ''LocationConstraint'' location (system_defined_attribute self)\<rparr>"

definition setpolicy :: "string \<Rightarrow> S3BucketMetadata \<Rightarrow> S3BucketMetadata" where
  "setpolicy policy_str self = self\<lparr>bucket_policy := policy_str\<rparr>"

definition deletepolicy :: "S3BucketMetadata \<Rightarrow> S3BucketMetadata" where
  "deletepolicy self = self\<lparr>bucket_policy := []\<rparr>"

definition set_tags :: "(string, string) std_map \<Rightarrow> S3BucketMetadata \<Rightarrow> S3BucketMetadata" where
  "set_tags tags_as_map self = self\<lparr>bucket_tags := tags_as_map\<rparr>"

definition delete_bucket_tags :: "S3BucketMetadata \<Rightarrow> S3BucketMetadata" where
  "delete_bucket_tags self = self\<lparr>bucket_tags := []\<rparr>"

definition check_bucket_tags_exists :: "S3BucketMetadata \<Rightarrow> bool" where
  "check_bucket_tags_exists self \<longleftrightarrow> bucket_tags self \<noteq> []"

definition setacl :: "string \<Rightarrow> S3BucketMetadata \<Rightarrow> S3BucketMetadata" where
  "setacl acl_str self = self\<lparr>encoded_acl := acl_str\<rparr>"

definition acl_from_json :: "string \<Rightarrow> S3BucketMetadata \<Rightarrow> S3BucketMetadata" where
  "acl_from_json acl_json_str self = self\<lparr>encoded_acl := acl_json_str\<rparr>"

definition get_acl_as_xml :: "S3BucketMetadata \<Rightarrow> string" where
  "get_acl_as_xml self = base64_decode (encoded_acl self)"

section \<open>Tags as XML\<close>

definition tag_xml :: "(string \<Rightarrow> string option) \<Rightarrow> string \<times> string \<Rightarrow> string" where
  "tag_xml xmlEncode tag =
     ''<Tag>'' @ format_xml_string xmlEncode ''Key'' (fst tag) False
       @ format_xml_string xmlEncode ''Value'' (snd tag) False @ ''</Tag>''"

definition xml_prolog :: string where
  "xml_prolog = ''<?xml version='' @ [CHR 0x22] @ ''1.0'' @ [CHR 0x22] @ '' encoding='' @ [CHR 0x22]
     @ ''UTF-8'' @ [CHR 0x22] @ ''?>''"

definition tagging_open :: string where
  "tagging_open = ''<Tagging xmlns='' @ [CHR 0x22] @ ''http://s3.amazonaws.com/doc/2006-03-01/''
     @ [CHR 0x22] @ ''>''"

definition get_tags_as_xml :: "(string \<Rightarrow> string option) \<Rightarrow> S3BucketMetadata \<Rightarrow> string" where
  "get_tags_as_xml xmlEncode self =
     (if bucket_tags self = [] then []
      else xml_prolog @ tagging_open @ ''<TagSet>'' @ concat (map (tag_xml xmlEncode) (bucket_tags self))
             @ ''</TagSet>'' @ ''</Tagging>'')"

section \<open>JSON\<close>

text \<open>
  \<open>to_json\<close>.  The default ACL of the request is stored in the object when it has none.
\<close>

definition bucket_doc :: "(string \<Rightarrow> bytes) \<Rightarrow> string \<Rightarrow> S3BucketMetadata \<Rightarrow> (string, json) std_map" where
  "bucket_doc pad now self =
     (let r0 = map_put ''Bucket-Name'' (JStr (bucket_name self)) [];
          r1 = json_set_all ''System-Defined'' (system_defined_attribute self) r0;
          r2 = json_set_all ''User-Defined'' (user_defined_attribute self) r1;
          r3 = map_put ''ACL'' (JStr (encoded_acl self)) r2;
          r4 = map_put ''Policy'' (JStr (base64_encode (bucket_policy self))) r3;
          r5 = json_set_all ''User-Defined-Tags'' (bucket_tags self) r4;
          r6 = map_put ''motr_object_list_index_layout''
                 (JStr (idx_layout_to_string (pad ''motr_object_list_index_layout'') (object_list_index_layout self))) r5;
          r7 = map_put ''motr_multipart_index_layout''
                 (JStr (idx_layout_to_string (pad ''motr_multipart_index_layout'') (multipart_index_layout self))) r6;
          r8 = map_put ''extended_metadata_index_layout''
                 (JStr (idx_layout_to_string (pad ''extended_metadata_index_layout'') (extended_metadata_index_layout self))) r7;
          r9 = map_put ''motr_objects_version_list_index_layout''
                 (JStr (idx_layout_to_string (pad ''motr_objects_version_list_index_layout'')
                    (objects_version_list_index_layout self))) r8
      in map_put ''create_timestamp'' (JStr now) r9)"

definition to_json ::
  "jsoncpp \<Rightarrow> (string \<Rightarrow> bytes) \<Rightarrow> string \<Rightarrow> S3BucketMetadata \<Rightarrow> S3BucketMetadata \<times> string" where
  "to_json lib pad now self =
     (let self' = (if encoded_acl self = [] then self\<lparr>encoded_acl := rq_default_acl (bm_request self)\<rparr> else self)
      in (self', writer_write lib (JObj (bucket_doc pad now self'))))"

definition owner_keys :: "string list" where
  "owner_keys = [''Owner-User'', ''Owner-User-id'', ''Owner-Account'', ''Owner-Account-id'', ''Owner-Canonical-id'']"

text \<open>The five owner fields are read with \<open>operator[]\<close> from the attributes just loaded.\<close>

definition load_owner :: "S3BucketMetadata \<Rightarrow> S3BucketMetadata" where
  "load_owner self =
     (let (m1, un) = map_index [] (system_defined_attribute self) ''Owner-User'';
          (m2, ui) = map_index [] m1 ''Owner-User-id'';
          (m3, an) = map_index [] m2 ''Owner-Account'';
          (m4, ai) = map_index [] m3 ''Owner-Account-id'';
          (m5, oc) = map_index [] m4 ''Owner-Canonical-id''
      in self\<lparr>system_defined_attribute := m5, user_name := un, user_id := ui, account_name := an,
              account_id := ai, owner_canonical_id := oc\<rparr>)"

definition bucket_from_root :: "jsoncpp \<Rightarrow> S3BucketMetadata \<Rightarrow> json \<Rightarrow> S3BucketMetadata option" where
  "bucket_from_root lib self newroot = do {
     name \<leftarrow> json_string lib newroot ''Bucket-Name'';
     sysm \<leftarrow> json_read_map lib c_str newroot ''System-Defined'';
     usrm \<leftarrow> json_read_map lib c_str newroot ''User-Defined'';
     let self1 = load_owner (self\<lparr>bucket_name := name, system_defined_attribute := sysm,
                                  user_defined_attribute := usrm\<rparr>);
     ol \<leftarrow> json_string lib newroot ''motr_object_list_index_layout'' \<bind> to_idx_layout;
     mp \<leftarrow> json_string lib newroot ''motr_multipart_index_layout'' \<bind> to_idx_layout;
     ext \<leftarrow> json_string lib newroot ''extended_metadata_index_layout'' \<bind> to_idx_layout;
     ov \<leftarrow> json_string lib newroot ''motr_objects_version_list_index_layout'' \<bind> to_idx_layout;
     acl \<leftarrow> json_string lib newroot ''ACL'';
     policy \<leftarrow> json_string lib newroot ''Policy'';
     tags \<leftarrow> json_read_map lib id newroot ''User-Defined-Tags'';
     Some (acl_from_json acl
       (self1\<lparr>object_list_index_layout := ol, multipart_index_layout := mp,
              extended_metadata_index_layout := ext, objects_version_list_index_layout := ov,
              bucket_policy := base64_decode policy, bucket_tags := tags\<rparr>))
   }"

definition from_json ::
  "jsoncpp \<Rightarrow> bool \<Rightarrow> string \<Rightarrow> S3BucketMetadata \<Rightarrow> (S3BucketMetadata \<times> int) option" where
  "from_json lib bucket_metadata_corrupted content self =
     (case reader_parse lib (c_str content) of
        None \<Rightarrow> Some (self, -1)
      | Some newroot \<Rightarrow>
          (if bucket_metadata_corrupted then Some (self, -1)
           else map_option (\<lambda>s. (s, 0)) (bucket_from_root lib self newroot)))"

section \<open>Invariant\<close>

definition bucket_wf :: "S3BucketMetadata \<Rightarrow> bool" where
  "bucket_wf self \<longleftrightarrow> map_wf (bucket_tags self) \<and> map_wf (system_defined_attribute self)
     \<and> map_wf (user_defined_attribute self)"

lemmas bucket_ops = system_attribute_at_def get_creation_time_def get_location_constraint_def
  get_owner_id_def get_owner_name_def get_bucket_owner_account_id_def get_owner_canonical_id_def
  set_multipart_index_layout_def set_object_list_index_layout_def
  set_objects_version_list_index_layout_def add_system_attribute_def add_user_defined_attribute_def
  set_location_constraint_def setpolicy_def deletepolicy_def set_tags_def delete_bucket_tags_def
  setacl_def acl_from_json_def

lemma load_owner_wf [simp]: "bucket_wf self \<Longrightarrow> bucket_wf (load_owner self)"
  by (simp add: bucket_wf_def load_owner_def Let_def case_prod_beta)

lemma json_read_members_wf:
  "json_read_members lib key obj ns acc = Some m \<Longrightarrow> map_wf acc \<Longrightarrow> map_wf m"
  by (induction ns arbitrary: acc) (auto split: option.splits)

lemma json_read_map_wf: "json_read_map lib key root name = Some m \<Longrightarrow> map_wf m"
  by (auto simp: json_read_map_def json_read_members_wf split: option.splits)

lemma load_owner_other [simp]:
  "bucket_name (load_owner b) = bucket_name b" "encoded_acl (load_owner b) = encoded_acl b"
  "user_defined_attribute (load_owner b) = user_defined_attribute b"
  "bm_request (load_owner b) = bm_request b" "bm_state (load_owner b) = bm_state b"
  by (simp_all add: load_owner_def Let_def case_prod_beta)

section \<open>The JSON round trip\<close>

lemma bucket_doc_get:
  assumes "bucket_wf self"
  shows "map_get (bucket_doc pad now self) ''Bucket-Name'' = Some (JStr (bucket_name self))"
    "map_get (bucket_doc pad now self) ''System-Defined'' =
       (if system_defined_attribute self = [] then None
        else Some (JObj (map (\<lambda>(k, v). (k, JStr v)) (system_defined_attribute self))))"
    "map_get (bucket_doc pad now self) ''User-Defined'' =
       (if user_defined_attribute self = [] then None
        else Some (JObj (map (\<lambda>(k, v). (k, JStr v)) (user_defined_attribute self))))"
    "map_get (bucket_doc pad now self) ''User-Defined-Tags'' =
       (if bucket_tags self = [] then None
        else Some (JObj (map (\<lambda>(k, v). (k, JStr v)) (bucket_tags self))))"
    "map_get (bucket_doc pad now self) ''ACL'' = Some (JStr (encoded_acl self))"
    "map_get (bucket_doc pad now self) ''Policy'' = Some (JStr (base64_encode (bucket_policy self)))"
    "map_get (bucket_doc pad now self) ''motr_object_list_index_layout'' =
       Some (JStr (idx_layout_to_string (pad ''motr_object_list_index_layout'') (object_list_index_layout self)))"
    "map_get (bucket_doc pad now self) ''motr_multipart_index_layout'' =
       Some (JStr (idx_layout_to_string (pad ''motr_multipart_index_layout'') (multipart_index_layout self)))"
    "map_get (bucket_doc pad now self) ''extended_metadata_index_layout'' =
       Some (JStr (idx_layout_to_string (pad ''extended_metadata_index_layout'') (extended_metadata_index_layout self)))"
    "map_get (bucket_doc pad now self) ''motr_objects_version_list_index_layout'' =
       Some (JStr (idx_layout_to_string (pad ''motr_objects_version_list_index_layout'')
         (objects_version_list_index_layout self)))"
  using assms by (simp_all add: bucket_doc_def bucket_wf_def json_set_all_get Let_def del: map_put.simps)

text \<open>What \<open>from_json\<close> makes of an object \<open>b\<close> when it reads the text of \<open>self\<close>.\<close>

definition bucket_copy :: "S3BucketMetadata \<Rightarrow> S3BucketMetadata \<Rightarrow> S3BucketMetadata" where
  "bucket_copy self b =
     (load_owner (b\<lparr>bucket_name := bucket_name self,
                   system_defined_attribute := system_defined_attribute self,
                   user_defined_attribute := user_defined_attribute self\<rparr>))
       \<lparr>object_list_index_layout := object_list_index_layout self,
        multipart_index_layout := multipart_index_layout self,
        extended_metadata_index_layout := extended_metadata_index_layout self,
        objects_version_list_index_layout := objects_version_list_index_layout self,
        encoded_acl := encoded_acl self, bucket_policy := bucket_policy self,
        bucket_tags := bucket_tags self\<rparr>"

lemma bucket_from_doc:
  assumes wf: "bucket_wf self" and pads: "\<And>n. length (pad n) = 4"
    and lib: "\<And>s. asString lib (JStr s) = Some s"
    and nul: "keys_no_nul (system_defined_attribute self)" "keys_no_nul (user_defined_attribute self)"
  shows "bucket_from_root lib b (JObj (bucket_doc pad now self)) = Some (bucket_copy self b)"
proof -
  have maps: "json_read_map lib c_str (JObj (bucket_doc pad now self)) ''System-Defined''
        = Some (system_defined_attribute self)"
      "json_read_map lib c_str (JObj (bucket_doc pad now self)) ''User-Defined''
        = Some (user_defined_attribute self)"
      "json_read_map lib id (JObj (bucket_doc pad now self)) ''User-Defined-Tags'' = Some (bucket_tags self)"
    using wf nul lib
    by (auto intro!: json_read_map_set_all simp: bucket_doc_get bucket_wf_def keys_no_nul_def)
  show ?thesis
    by (simp add: bucket_from_root_def maps json_string_get [OF bucket_doc_get(1) [OF wf]]
        json_string_get [OF bucket_doc_get(5) [OF wf]] json_string_get [OF bucket_doc_get(6) [OF wf]]
        json_string_get [OF bucket_doc_get(7) [OF wf]] json_string_get [OF bucket_doc_get(8) [OF wf]]
        json_string_get [OF bucket_doc_get(9) [OF wf]] json_string_get [OF bucket_doc_get(10) [OF wf]]
        lib pads bucket_copy_def acl_from_json_def)
qed

lemma from_json_to_json:
  assumes wf: "bucket_wf self" and pads: "\<And>n. length (pad n) = 4"
    and lib: "jsoncpp_reads_back lib (JObj (bucket_doc pad now (fst (to_json lib pad now self))))"
    and nul: "keys_no_nul (system_defined_attribute self)" "keys_no_nul (user_defined_attribute self)"
  shows "from_json lib False (snd (to_json lib pad now self)) b
    = Some (bucket_copy (fst (to_json lib pad now self)) b, 0)"
proof -
  let ?self = "fst (to_json lib pad now self)"
  have self: "bucket_wf ?self" "keys_no_nul (system_defined_attribute ?self)"
      "keys_no_nul (user_defined_attribute ?self)"
    using wf nul by (simp_all add: to_json_def Let_def bucket_wf_def)
  have txt_eq: "snd (to_json lib pad now self) = writer_write lib (JObj (bucket_doc pad now ?self))"
    by (simp add: to_json_def Let_def)
  from lib have "asString lib (JStr s) = Some s" for s by (simp add: jsoncpp_reads_back_def)
  from bucket_from_doc [OF self(1) pads this self(2,3)] lib show ?thesis
    by (simp add: from_json_def txt_eq jsoncpp_reads_back_def)
qed

definition attr_or_empty :: "(string, string) std_map \<Rightarrow> string \<Rightarrow> string" where
  "attr_or_empty m k = (case map_get m k of None \<Rightarrow> [] | Some v \<Rightarrow> v)"

lemma map_index_get:
  "map_wf m \<Longrightarrow> map_get (fst (map_index d m k)) =
     (map_get m)(k \<mapsto> (case map_get m k of None \<Rightarrow> d | Some v \<Rightarrow> v))"
  by (auto simp: map_index_def fun_eq_iff split: option.split)

lemma load_owner_fields:
  assumes "map_wf (system_defined_attribute b)"
  shows "user_name (load_owner b) = attr_or_empty (system_defined_attribute b) ''Owner-User''"
    "user_id (load_owner b) = attr_or_empty (system_defined_attribute b) ''Owner-User-id''"
    "account_name (load_owner b) = attr_or_empty (system_defined_attribute b) ''Owner-Account''"
    "account_id (load_owner b) = attr_or_empty (system_defined_attribute b) ''Owner-Account-id''"
    "owner_canonical_id (load_owner b) = attr_or_empty (system_defined_attribute b) ''Owner-Canonical-id''"
    "map_get (system_defined_attribute (load_owner b)) k =
       (if k \<in> set owner_keys then Some (attr_or_empty (system_defined_attribute b) k)
        else map_get (system_defined_attribute b) k)"
  using assms
  by (simp_all add: load_owner_def Let_def case_prod_beta map_index_snd map_index_get attr_or_empty_def
      owner_keys_def)

section \<open>Properties\<close>

text \<open>C18: A bucket's metadata survives its JSON form: whatever object reads the text that
  \<open>to_json\<close> wrote ends, with return code 0, with the writer's bucket name, attributes, tags,
  policy, the four index layouts and the ACL (the request's default one when the bucket had
  none).  The five owner fields (user name and id, account name and id, canonical
  id) are each read from their own stored attribute; an owner attribute that was missing is
  created empty.  Assumed: JsonCpp reads the document it wrote, the attribute
  names contain no zero byte, and the padding of an index layout is four bytes.\<close>

theorem bucket_json_roundtrip:
  assumes "bucket_wf self" and "\<And>n. length (pad n) = 4"
    and "keys_no_nul (system_defined_attribute self)" "keys_no_nul (user_defined_attribute self)"
    and "jsoncpp_reads_back lib (JObj (bucket_doc pad now (fst (to_json lib pad now self))))"
  shows "\<exists>b'. from_json lib False (snd (to_json lib pad now self)) b = Some (b', 0)
    \<and> bucket_name b' = bucket_name self \<and> bucket_policy b' = bucket_policy self
    \<and> bucket_tags b' = bucket_tags self \<and> user_defined_attribute b' = user_defined_attribute self
    \<and> encoded_acl b' = (if encoded_acl self = [] then rq_default_acl (bm_request self) else encoded_acl self)
    \<and> object_list_index_layout b' = object_list_index_layout self
    \<and> multipart_index_layout b' = multipart_index_layout self
    \<and> extended_metadata_index_layout b' = extended_metadata_index_layout self
    \<and> objects_version_list_index_layout b' = objects_version_list_index_layout self
    \<and> (\<forall>k. map_get (system_defined_attribute b') k =
         (if k \<in> set owner_keys then Some (attr_or_empty (system_defined_attribute self) k)
          else map_get (system_defined_attribute self) k))
    \<and> user_name b' = attr_or_empty (system_defined_attribute self) ''Owner-User''
    \<and> user_id b' = attr_or_empty (system_defined_attribute self) ''Owner-User-id''
    \<and> account_name b' = attr_or_empty (system_defined_attribute self) ''Owner-Account''
    \<and> account_id b' = attr_or_empty (system_defined_attribute self) ''Owner-Account-id''
    \<and> owner_canonical_id b' = attr_or_empty (system_defined_attribute self) ''Owner-Canonical-id''"
proof -
  let ?self = "fst (to_json lib pad now self)"
  have sys: "map_wf (system_defined_attribute self)" using assms(1) by (simp add: bucket_wf_def)
  have same: "bucket_name ?self = bucket_name self" "bucket_policy ?self = bucket_policy self"
      "bucket_tags ?self = bucket_tags self" "user_defined_attribute ?self = user_defined_attribute self"
      "system_defined_attribute ?self = system_defined_attribute self"
      "encoded_acl ?self = (if encoded_acl self = [] then rq_default_acl (bm_request self) else encoded_acl self)"
      "object_list_index_layout ?self = object_list_index_layout self"
      "multipart_index_layout ?self = multipart_index_layout self"
      "extended_metadata_index_layout ?self = extended_metadata_index_layout self"
      "objects_version_list_index_layout ?self = objects_version_list_index_layout self"
    by (simp_all add: to_json_def Let_def)
  show ?thesis
    using from_json_to_json [OF assms(1,2,5,3,4)] sys
    by (intro exI [of _ "bucket_copy ?self b"]) (simp add: bucket_copy_def same load_owner_fields)
qed

definition sample_bucket :: S3BucketMetadata where
  "sample_bucket =
     set_tags [(''k'', ''v'')] (setpolicy ''{policy}''
       (add_system_attribute ''Owner-User'' ''root''
         (S3BucketMetadata_init \<lparr>rq_request_id = ''r'', rq_stripped_request_id = ''r'',
            rq_bucket_name = ''seagate'', rq_default_acl = ''QUNM'', rq_account_name = ''acc'',
            rq_account_id = ''12'', rq_user_name = ''root'', rq_user_id = ''34'', rq_canonical_id = ''56''\<rparr> [])))"

theorem bucket_json_roundtrip_witness:
  "\<exists>lib b'. from_json lib False (snd (to_json lib (\<lambda>_. ''pad!'') ''now'' sample_bucket)) sample_bucket = Some (b', 0)
    \<and> bucket_policy b' = ''{policy}'' \<and> bucket_tags b' = [(''k'', ''v'')] \<and> encoded_acl b' = ''QUNM''
    \<and> user_name b' = ''root''"
proof -
  let ?pad = "\<lambda>_ :: string. ''pad!''"
  let ?doc = "JObj (bucket_doc ?pad ''now'' (sample_bucket\<lparr>encoded_acl := ''QUNM''\<rparr>))"
  have fields: "system_defined_attribute sample_bucket = [(''Owner-User'', ''root'')]"
      "user_defined_attribute sample_bucket = []" "bucket_tags sample_bucket = [(''k'', ''v'')]"
      "encoded_acl sample_bucket = []" "rq_default_acl (bm_request sample_bucket) = ''QUNM''"
      "bucket_policy sample_bucket = ''{policy}''"
    by (simp_all add: sample_bucket_def S3BucketMetadata_init_def bucket_ops)
  have self: "fst (to_json lib ?pad ''now'' sample_bucket) = sample_bucket\<lparr>encoded_acl := ''QUNM''\<rparr>" for lib
    by (simp add: to_json_def fields Let_def)
  from bucket_json_roundtrip [of sample_bucket ?pad "one_document_lib ?doc" "''now''" sample_bucket]
  show ?thesis
    by (simp add: bucket_wf_def fields self keys_no_nul_def no_nul_def one_document_lib_reads_back
        map_wf_def attr_or_empty_def map_get_def) blast
qed

end
