(* ===== verification/Bucket_Cache.thy ===== *)
theory Bucket_Cache
  imports Bucket_Metadata "HOL-Library.Signed_Division" "HOL-Library.Multiset"
begin

text \<open>
  \<open>server/s3_bucket_metadata_cache.cc\<close>: the cache through which every bucket metadata
  operation goes.  An item is identified by the bucket name it is filed under; the two
  recency lists hold names instead of pointers.  The Motr operation an item has in flight is
  its engine (\<open>S3BucketMetadataV1\<close>); an engine that has finished reports its state and its
  contents, which are arguments of \<open>on_load\<close> and \<open>on_done\<close>.  An engine may also finish inside
  the call that starts it (a launch failure): the argument \<open>sync\<close> of the operations.
  The calls of client handlers are recorded, in order, in \<open>calls\<close>; a handler is a number, and
  its own calls into the cache come after the operation that invoked it.  A failed assertion
  and a fatal log message end the process: they are the values of \<open>cache_fault\<close>.  Times are
  nanoseconds of the steady clock.
\<close>

datatype CurrentOp = NoOp | Fetching | Saving | Deleting

datatype cache_fault = Assertion | Fatal_log | Dangling_pointer

record Item =
  p_value :: S3BucketMetadata
  update_time :: int
  access_time :: int
  current_op :: CurrentOp
  on_changed :: "nat option"
  fetch_waiters :: "nat list"
  p_engine_modify :: bool
  p_engine_load :: bool

datatype call =
    Fetched nat S3BucketMetadataState S3BucketMetadata
  | Changed nat S3BucketMetadataState

record S3BucketMetadataCache =
  max_cache_size :: nat
  expire_interval_sec :: nat
  refresh_interval_sec :: nat
  disabled :: bool
  items :: "(string, Item) std_map"
  sorted_by_access :: "string list"
  sorted_by_update :: "string list"
  calls :: "call list"

type_synonym engine_result = "S3BucketMetadataState \<times> S3BucketMetadata"

definition S3BucketMetadataCache_init :: "nat \<Rightarrow> nat \<Rightarrow> nat \<Rightarrow> S3BucketMetadataCache" where
  "S3BucketMetadataCache_init mx expire refresh =
     \<lparr>max_cache_size = mx, expire_interval_sec = expire, refresh_interval_sec = refresh,
      disabled = False, items = [], sorted_by_access = [], sorted_by_update = [], calls = []\<rparr>"

definition cache_disable :: "S3BucketMetadataCache \<Rightarrow> S3BucketMetadataCache" where
  "cache_disable c = c\<lparr>disabled := True\<rparr>"

definition cache_enable :: "S3BucketMetadataCache \<Rightarrow> S3BucketMetadataCache" where
  "cache_enable c = c\<lparr>disabled := False\<rparr>"

definition Item_init :: "S3BucketMetadata \<Rightarrow> Item" where
  "Item_init src =
     \<lparr>p_value = src, update_time = 0, access_time = 0, current_op = NoOp, on_changed = None,
      fetch_waiters = [], p_engine_modify = False, p_engine_load = False\<rparr>"

definition can_remove :: "Item \<Rightarrow> bool" where
  "can_remove it \<longleftrightarrow> \<not> p_engine_load it \<and> \<not> p_engine_modify it"

text \<open>\<open>duration_cast<seconds>\<close> truncates towards zero.\<close>

definition seconds_between :: "int \<Rightarrow> int \<Rightarrow> int" where
  "seconds_between later earlier = (later - earlier) sdiv 1000000000"

definition add_calls :: "call list \<Rightarrow> S3BucketMetadataCache \<Rightarrow> S3BucketMetadataCache" where
  "add_calls cs c = c\<lparr>calls := calls c @ cs\<rparr>"

definition set_item :: "string \<Rightarrow> Item \<Rightarrow> S3BucketMetadataCache \<Rightarrow> S3BucketMetadataCache" where
  "set_item key it c = c\<lparr>items := map_put key it (items c)\<rparr>"

text \<open>The item a pointer refers to.\<close>

definition item_at :: "S3BucketMetadataCache \<Rightarrow> string \<Rightarrow> cache_fault + Item" where
  "item_at c key = (case map_get (items c) key of None \<Rightarrow> Inl Dangling_pointer | Some it \<Rightarrow> Inr it)"

section \<open>Removal\<close>

text \<open>Erasing the map entry runs the item's destructor.\<close>

definition remove_item :: "string \<Rightarrow> S3BucketMetadataCache \<Rightarrow> cache_fault + S3BucketMetadataCache" where
  "remove_item name c =
     (if length (sorted_by_access c) \<noteq> length (sorted_by_update c) then Inl Assertion
      else if length (sorted_by_access c) \<noteq> length (items c) then Inl Assertion
      else
        (case map_get (items c) name of
           None \<Rightarrow> Inl Assertion
         | Some it \<Rightarrow>
             (if can_remove it
              then Inr (c\<lparr>sorted_by_access := remove1 name (sorted_by_access c),
                          sorted_by_update := remove1 name (sorted_by_update c),
                          items := map_erase name (items c)\<rparr>)
              else Inl Fatal_log)))"

text \<open>The two loops of \<open>shrink\<close>: the name to remove, if one is found.\<close>

fun shrink_expired :: "int \<Rightarrow> S3BucketMetadataCache \<Rightarrow> string list \<Rightarrow> cache_fault + string option" where
  "shrink_expired now c [] = Inr None"
| "shrink_expired now c (n # ns) =
     ebind (item_at c n) (\<lambda>it.
       if seconds_between now (update_time it) < int (expire_interval_sec c) then Inr None
       else if can_remove it then Inr (Some (bucket_name (p_value it)))
       else shrink_expired now c ns)"

fun shrink_accessed :: "S3BucketMetadataCache \<Rightarrow> string list \<Rightarrow> cache_fault + string option" where
  "shrink_accessed c [] = Inr None"
| "shrink_accessed c (n # ns) =
     ebind (item_at c n) (\<lambda>it.
       if can_remove it then Inr (Some (bucket_name (p_value it))) else shrink_accessed c ns)"

definition shrink :: "int \<Rightarrow> S3BucketMetadataCache \<Rightarrow> cache_fault + (S3BucketMetadataCache \<times> bool)" where
  "shrink now c =
     ebind (shrink_expired now c (rev (sorted_by_update c))) (\<lambda>sel.
       case sel of
         Some name \<Rightarrow> ebind (remove_item name c) (\<lambda>c'. Inr (c', True))
       | None \<Rightarrow>
           ebind (shrink_accessed c (rev (sorted_by_access c))) (\<lambda>sel'.
             case sel' of
               Some name \<Rightarrow> ebind (remove_item name c) (\<lambda>c'. Inr (c', True))
             | None \<Rightarrow> Inr (c, False)))"

section \<open>Lookup\<close>

text \<open>A new item goes to the end of the update list and to the front of the access list.\<close>

definition insert_item :: "int \<Rightarrow> S3BucketMetadata \<Rightarrow> S3BucketMetadataCache \<Rightarrow> S3BucketMetadataCache" where
  "insert_item now src c =
     c\<lparr>items := map_put (bucket_name src) ((Item_init src)\<lparr>access_time := now\<rparr>) (items c),
       sorted_by_update := sorted_by_update c @ [bucket_name src],
       sorted_by_access := bucket_name src # sorted_by_access c\<rparr>"

definition touch_item :: "int \<Rightarrow> string \<Rightarrow> Item \<Rightarrow> S3BucketMetadataCache \<Rightarrow> S3BucketMetadataCache" where
  "touch_item now name it c =
     c\<lparr>items := map_put name (it\<lparr>access_time := now\<rparr>) (items c),
       sorted_by_access := name # remove1 name (sorted_by_access c)\<rparr>"

text \<open>The flag is False for the null pointer.\<close>

definition get_item :: "int \<Rightarrow> S3BucketMetadata \<Rightarrow> S3BucketMetadataCache \<Rightarrow> cache_fault + (S3BucketMetadataCache \<times> bool)" where
  "get_item now src c =
     (let name = bucket_name src;
          f_new = (map_get (items c) name = None)
      in ebind (if length (items c) + (if f_new then 1 else 0) > max_cache_size c then shrink now c else Inr (c, True))
           (\<lambda>(c1, ok).
              if \<not> ok then Inr (c1, False)
              else if f_new then Inr (insert_item now src c1, True)
              else ebind (item_at c1 name) (\<lambda>it. Inr (touch_item now name it c1, True))))"

definition updated :: "string \<Rightarrow> S3BucketMetadataCache \<Rightarrow> S3BucketMetadataCache" where
  "updated name c = c\<lparr>sorted_by_update := name # remove1 name (sorted_by_update c)\<rparr>"

section \<open>Completion\<close>

definition on_done :: "int \<Rightarrow> string \<Rightarrow> engine_result \<Rightarrow> S3BucketMetadataCache \<Rightarrow> cache_fault + S3BucketMetadataCache" where
  "on_done now key res c =
     ebind (item_at c key) (\<lambda>it.
       if current_op it = NoOp then Inl Assertion
       else if \<not> p_engine_modify it then Inl Assertion
       else
         (let (state, val) = res;
              op = current_op it;
              it1 = it\<lparr>current_op := NoOp, p_value := val, p_engine_modify := False, update_time := now,
                       fetch_waiters := []\<rparr>;
              changes = (op = Saving \<or> op = Deleting);
              it2 = (if changes then it1\<lparr>on_changed := None\<rparr> else it1);
              c1 = add_calls (map (\<lambda>h. Fetched h state val) (fetch_waiters it))
                     (updated key (set_item key it2 c))
          in if changes \<and> on_changed it = None then Inl Assertion
             else
               (let c2 = (if changes then add_calls [Changed (the (on_changed it)) state] c1 else c1)
                in if state = Bfailed \<or> state = Bfailed_to_launch \<or> op = Deleting
                   then remove_item (bucket_name val) c2
                   else Inr c2)))"

definition on_load :: "int \<Rightarrow> string \<Rightarrow> engine_result \<Rightarrow> S3BucketMetadataCache \<Rightarrow> cache_fault + S3BucketMetadataCache" where
  "on_load now key res c =
     ebind (item_at c key) (\<lambda>it.
       if \<not> p_engine_load it then Inl Assertion
       else if p_engine_modify it then Inr (set_item key (it\<lparr>p_engine_load := False\<rparr>) c)
       else on_done now key res (set_item key (it\<lparr>p_engine_modify := True, p_engine_load := False\<rparr>) c))"

section \<open>Operations of an item\<close>

definition Item_fetch ::
  "string \<Rightarrow> nat \<Rightarrow> engine_result option \<Rightarrow> int \<Rightarrow> S3BucketMetadataCache \<Rightarrow> cache_fault + S3BucketMetadataCache" where
  "Item_fetch key h sync now c =
     ebind (item_at c key) (\<lambda>it.
       (let waiters = fetch_waiters it @ [h];
            seconds_lasted = seconds_between (access_time it) (update_time it);
            is_expired = (seconds_lasted \<ge> int (expire_interval_sec c))
        in if \<not> is_expired \<and> \<not> disabled c \<and> bm_state (p_value it) = Bpresent
              \<and> (seconds_lasted < int (refresh_interval_sec c) \<or> length waiters > 1)
           then Inr (add_calls [Fetched (hd waiters) Bpresent (p_value it)]
                       (set_item key (it\<lparr>fetch_waiters := tl waiters\<rparr>) c))
           else if p_engine_modify it \<or> p_engine_load it
           then Inr (set_item key (it\<lparr>fetch_waiters := waiters\<rparr>) c)
           else
             (let c1 = set_item key (it\<lparr>fetch_waiters := waiters, p_engine_load := True\<rparr>) c
              in ebind (case sync of None \<Rightarrow> Inr c1 | Some res \<Rightarrow> on_load now key res c1)
                   (\<lambda>c2. ebind (item_at c2 key) (\<lambda>it2. Inr (set_item key (it2\<lparr>current_op := Fetching\<rparr>) c2))))))"

text \<open>
  \<open>Item::save\<close>, \<open>Item::update\<close> and \<open>Item::remove\<close> have the same body around different engine
  calls; \<open>op\<close> is \<open>Saving\<close> for the first two and \<open>Deleting\<close> for the third.
\<close>

definition Item_modify ::
  "CurrentOp \<Rightarrow> string \<Rightarrow> nat \<Rightarrow> engine_result option \<Rightarrow> int \<Rightarrow> S3BucketMetadataCache
   \<Rightarrow> cache_fault + S3BucketMetadataCache" where
  "Item_modify op key h sync now c =
     ebind (item_at c key) (\<lambda>it.
       if p_engine_modify it then Inr (add_calls [Changed h Bfailed_to_launch] c)
       else
         (let c1 = set_item key (it\<lparr>current_op := op, on_changed := Some h, p_engine_modify := True\<rparr>) c
          in case sync of None \<Rightarrow> Inr c1 | Some res \<Rightarrow> on_done now key res c1))"

definition Item_save where "Item_save = Item_modify Saving"
definition Item_update where "Item_update = Item_modify Saving"
definition Item_remove where "Item_remove = Item_modify Deleting"

section \<open>Operations of the cache\<close>

definition cache_fetch ::
  "S3BucketMetadata \<Rightarrow> nat \<Rightarrow> engine_result option \<Rightarrow> int \<Rightarrow> S3BucketMetadataCache
   \<Rightarrow> cache_fault + S3BucketMetadataCache" where
  "cache_fetch src h sync now c =
     ebind (get_item now src c) (\<lambda>(c1, found).
       if found then Item_fetch (bucket_name src) h sync now c1
       else Inr (add_calls [Fetched h Bfailed_to_launch src] c1))"

definition cache_save ::
  "S3BucketMetadata \<Rightarrow> nat \<Rightarrow> engine_result option \<Rightarrow> int \<Rightarrow> S3BucketMetadataCache
   \<Rightarrow> cache_fault + S3BucketMetadataCache" where
  "cache_save src h sync now c =
     ebind (get_item now src c) (\<lambda>(c1, found).
       if found then Item_save (bucket_name src) h sync now c1
       else Inr (add_calls [Changed h Bfailed_to_launch] c1))"

definition cache_update ::
  "S3BucketMetadata \<Rightarrow> nat \<Rightarrow> engine_result option \<Rightarrow> int \<Rightarrow> S3BucketMetadataCache
   \<Rightarrow> cache_fault + S3BucketMetadataCache" where
  "cache_update src h sync now c =
     ebind (get_item now src c) (\<lambda>(c1, found).
       if found then Item_update (bucket_name src) h sync now c1
       else Inr (add_calls [Changed h Bfailed_to_launch] c1))"

definition cache_remove ::
  "S3BucketMetadata \<Rightarrow> nat \<Rightarrow> engine_result option \<Rightarrow> int \<Rightarrow> S3BucketMetadataCache
   \<Rightarrow> cache_fault + S3BucketMetadataCache" where
  "cache_remove src h sync now c =
     ebind (get_item now src c) (\<lambda>(c1, found).
       if found then Item_remove (bucket_name src) h sync now c1
       else Inr (add_calls [Changed h Bfailed_to_launch] c1))"

text \<open>
  What happens to the cache, in sequence: client calls, the completion of an engine, and the
  two switches.
\<close>

datatype cache_event =
    Fetch S3BucketMetadata nat "engine_result option"
  | Save S3BucketMetadata nat "engine_result option"
  | Update S3BucketMetadata nat "engine_result option"
  | Remove S3BucketMetadata nat "engine_result option"
  | Load_done string engine_result
  | Modify_done string engine_result
  | Disable
  | Enable

fun cache_step :: "int \<Rightarrow> cache_event \<Rightarrow> S3BucketMetadataCache \<Rightarrow> cache_fault + S3BucketMetadataCache" where
  "cache_step now (Fetch src h sync) c = cache_fetch src h sync now c"
| "cache_step now (Save src h sync) c = cache_save src h sync now c"
| "cache_step now (Update src h sync) c = cache_update src h sync now c"
| "cache_step now (Remove src h sync) c = cache_remove src h sync now c"
| "cache_step now (Load_done key res) c = on_load now key res c"
| "cache_step now (Modify_done key res) c = on_done now key res c"
| "cache_step now Disable c = Inr (cache_disable c)"
| "cache_step now Enable c = Inr (cache_enable c)"

section \<open>Invariant\<close>

definition item_ok :: "string \<Rightarrow> Item \<Rightarrow> bool" where
  "item_ok key it \<longleftrightarrow> bucket_name (p_value it) = key
     \<and> (if p_engine_modify it then current_op it \<in> {Saving, Deleting} \<and> on_changed it \<noteq> None
        else current_op it \<in> {NoOp, Fetching} \<and> on_changed it = None)
     \<and> (can_remove it \<longrightarrow> fetch_waiters it = [] \<and> current_op it = NoOp)"

definition cache_struct :: "S3BucketMetadataCache \<Rightarrow> bool" where
  "cache_struct c \<longleftrightarrow> map_wf (items c) \<and> length (items c) \<le> max_cache_size c
     \<and> distinct (sorted_by_access c) \<and> set (sorted_by_access c) = dom (map_get (items c))
     \<and> distinct (sorted_by_update c) \<and> set (sorted_by_update c) = dom (map_get (items c))"

definition cache_ok :: "S3BucketMetadataCache \<Rightarrow> bool" where
  "cache_ok c \<longleftrightarrow> cache_struct c \<and> (\<forall>key it. map_get (items c) key = Some it \<longrightarrow> item_ok key it)"

lemma struct_lengths:
  "cache_struct c \<Longrightarrow> length (sorted_by_access c) = length (items c)
     \<and> length (sorted_by_update c) = length (items c)"
  by (metis cache_struct_def distinct_card length_card_dom)

lemma set_item_struct [simp]:
  "cache_struct c \<Longrightarrow> map_get (items c) key \<noteq> None \<Longrightarrow> cache_struct (set_item key it c)"
  by (auto simp: cache_struct_def set_item_def length_map_put)

lemma set_item_get [simp]:
  "cache_struct c \<Longrightarrow> map_get (items (set_item key it c)) = (map_get (items c))(key \<mapsto> it)"
  by (simp add: set_item_def cache_struct_def)

lemma set_item_ok:
  "cache_ok c \<Longrightarrow> map_get (items c) key \<noteq> None \<Longrightarrow> item_ok key it \<Longrightarrow> cache_ok (set_item key it c)"
  by (auto simp: cache_ok_def)

lemma add_calls_simps [simp]:
  "items (add_calls cs c) = items c" "cache_struct (add_calls cs c) = cache_struct c"
  "cache_ok (add_calls cs c) = cache_ok c"
  by (simp_all add: add_calls_def cache_struct_def cache_ok_def)

lemma updated_simps [simp]:
  "items (updated n c) = items c"
  "cache_struct c \<Longrightarrow> map_get (items c) n \<noteq> None \<Longrightarrow> cache_struct (updated n c)"
  by (auto simp: updated_def cache_struct_def)

lemma item_at_Inr [simp]: "item_at c key = Inr it \<longleftrightarrow> map_get (items c) key = Some it"
  by (simp add: item_at_def split: option.split)

lemma item_at_Inl: "item_at c key = Inl e \<longleftrightarrow> map_get (items c) key = None \<and> e = Dangling_pointer"
  by (auto simp: item_at_def split: option.split)

lemma remove_item_struct:
  assumes "cache_struct c" "remove_item name c = Inr c'"
  shows "cache_struct c' \<and> map_get (items c') = (map_get (items c))(name := None)
    \<and> (\<exists>it. map_get (items c) name = Some it \<and> can_remove it)
    \<and> Suc (length (items c')) = length (items c) \<and> max_cache_size c' = max_cache_size c
    \<and> calls c' = calls c"
  using assms length_map_erase [of "items c" name]
  by (auto simp: remove_item_def cache_struct_def split: if_splits option.splits)

lemma remove_item_defined:
  "cache_struct c \<Longrightarrow> map_get (items c) name = Some it \<Longrightarrow> can_remove it \<Longrightarrow> \<exists>c'. remove_item name c = Inr c'"
  using struct_lengths [of c] by (simp add: remove_item_def)

lemma remove_item_ok: "cache_ok c \<Longrightarrow> remove_item name c = Inr c' \<Longrightarrow> cache_ok c'"
  using remove_item_struct [of c name c'] by (auto simp: cache_ok_def split: if_splits)

section \<open>Eviction\<close>

lemma shrink_expired_selects:
  assumes "\<And>k it. map_get (items c) k = Some it \<Longrightarrow> bucket_name (p_value it) = k"
    and "shrink_expired now c ns = Inr (Some name)"
  shows "name \<in> set ns \<and> (\<exists>it. map_get (items c) name = Some it \<and> can_remove it
     \<and> seconds_between now (update_time it) \<ge> int (expire_interval_sec c))"
  using assms(2)
proof (induction ns)
  case (Cons n ns)
  from Cons.prems obtain it where it: "map_get (items c) n = Some it"
    by (auto simp: ebind_Inr_iff)
  with assms(1) have "bucket_name (p_value it) = n" by blast
  with Cons it show ?case by (auto simp: ebind_Inr_iff split: if_splits)
qed simp

lemma shrink_accessed_selects:
  assumes "\<And>k it. map_get (items c) k = Some it \<Longrightarrow> bucket_name (p_value it) = k"
    and "shrink_accessed c ns = Inr (Some name)"
  shows "name \<in> set ns \<and> (\<exists>it. map_get (items c) name = Some it \<and> can_remove it)"
  using assms(2)
proof (induction ns)
  case (Cons n ns)
  from Cons.prems obtain it where it: "map_get (items c) n = Some it"
    by (auto simp: ebind_Inr_iff)
  with assms(1) have "bucket_name (p_value it) = n" by blast
  with Cons it show ?case by (auto simp: ebind_Inr_iff split: if_splits)
qed simp

lemma shrink_accessed_none:
  "shrink_accessed c ns = Inr None \<Longrightarrow> n \<in> set ns \<Longrightarrow> \<exists>it. map_get (items c) n = Some it \<and> \<not> can_remove it"
  by (induction ns) (auto simp: ebind_Inr_iff split: if_splits)

lemma shrink_loops_defined:
  assumes "set ns \<subseteq> dom (map_get (items c))"
  shows "\<exists>r. shrink_expired now c ns = Inr r" "\<exists>r. shrink_accessed c ns = Inr r"
  using assms by (induction ns) (auto simp: ebind_def item_at_def split: option.splits sum.splits)

lemma cache_ok_names:
  "cache_ok c \<Longrightarrow> map_get (items c) k = Some it \<Longrightarrow> bucket_name (p_value it) = k"
  by (auto simp: cache_ok_def item_ok_def)

text \<open>\<open>shrink\<close> either removes exactly one removable item or finds every item busy.\<close>

lemma shrink_cases:
  assumes ok: "cache_ok c"
  obtains (removed) name it c' where "shrink now c = Inr (c', True)" "remove_item name c = Inr c'"
      "map_get (items c) name = Some it" "can_remove it"
    | (full) "shrink now c = Inr (c, False)" "\<forall>k it. map_get (items c) k = Some it \<longrightarrow> \<not> can_remove it"
proof -
  have st: "cache_struct c" using ok by (simp add: cache_ok_def)
  then have sets: "set (rev (sorted_by_update c)) \<subseteq> dom (map_get (items c))"
      "set (rev (sorted_by_access c)) \<subseteq> dom (map_get (items c))"
    by (simp_all add: cache_struct_def)
  obtain r1 r2 where r: "shrink_expired now c (rev (sorted_by_update c)) = Inr r1"
      "shrink_accessed c (rev (sorted_by_access c)) = Inr r2"
    using shrink_loops_defined [OF sets(1)] shrink_loops_defined [OF sets(2)] by blast
  have sel1: "\<exists>it. map_get (items c) name = Some it \<and> can_remove it" if "r1 = Some name" for name
    using shrink_expired_selects [of c now "rev (sorted_by_update c)" name] cache_ok_names [OF ok] r(1) that
    by blast
  have sel2: "\<exists>it. map_get (items c) name = Some it \<and> can_remove it" if "r2 = Some name" for name
    using shrink_accessed_selects [of c "rev (sorted_by_access c)" name] cache_ok_names [OF ok] r(2) that
    by blast
  have sel: "\<exists>it c'. map_get (items c) name = Some it \<and> can_remove it \<and> remove_item name c = Inr c'"
    if "r1 = Some name \<or> r2 = Some name" for name
    using that sel1 [of name] sel2 [of name] remove_item_defined [OF st, of name] by blast
  show thesis
  proof (cases r1)
    case (Some name)
    with sel [of name] r show thesis by (auto simp: shrink_def intro!: removed)
  next
    case N1: None
    show thesis
    proof (cases r2)
      case (Some name)
      with sel [of name] N1 r show thesis by (auto simp: shrink_def intro!: removed)
    next
      case None
      with r(2) st have "\<forall>k it. map_get (items c) k = Some it \<longrightarrow> \<not> can_remove it"
        by (fastforce dest: shrink_accessed_none simp: cache_struct_def)
      with N1 None r show thesis by (intro full) (simp_all add: shrink_def)
    qed
  qed
qed

lemma get_item_cases:
  assumes ok: "cache_ok c"
  obtains (hit) it where "map_get (items c) (bucket_name src) = Some it"
      "get_item now src c = Inr (touch_item now (bucket_name src) it c, True)"
    | (room) "map_get (items c) (bucket_name src) = None" "length (items c) < max_cache_size c"
      "get_item now src c = Inr (insert_item now src c, True)"
    | (evicted) name it c1 where "map_get (items c) (bucket_name src) = None" "remove_item name c = Inr c1"
      "map_get (items c) name = Some it" "can_remove it"
      "get_item now src c = Inr (insert_item now src c1, True)"
    | (refused) "map_get (items c) (bucket_name src) = None"
      "\<forall>k it. map_get (items c) k = Some it \<longrightarrow> \<not> can_remove it" "get_item now src c = Inr (c, False)"
proof (cases "map_get (items c) (bucket_name src)")
  case (Some it)
  have "length (items c) \<le> max_cache_size c" using ok by (simp add: cache_ok_def cache_struct_def)
  with Some show thesis by (intro hit [of it]) (simp_all add: get_item_def Let_def item_at_def)
next
  case None
  show thesis
  proof (cases "length (items c) < max_cache_size c")
    case True
    with None show thesis by (intro room) (simp_all add: get_item_def Let_def)
  next
    case False
    from ok show thesis
    proof (cases rule: shrink_cases [of c now])
      case (removed name it c')
      with None False show thesis by (intro evicted [of name c' it]) (simp_all add: get_item_def Let_def)
    next
      case full
      with None False show thesis by (intro refused) (simp_all add: get_item_def Let_def)
    qed
  qed
qed

lemma insert_item_struct:
  assumes "cache_struct c" "map_get (items c) (bucket_name src) = None" "length (items c) < max_cache_size c"
  shows "cache_struct (insert_item now src c)"
    "map_get (items (insert_item now src c)) =
       (map_get (items c))(bucket_name src \<mapsto> (Item_init src)\<lparr>access_time := now\<rparr>)"
  using assms by (auto simp: cache_struct_def insert_item_def length_map_put)

lemma touch_item_struct:
  assumes "cache_struct c" "map_get (items c) name = Some it"
  shows "cache_struct (touch_item now name it c)"
    "map_get (items (touch_item now name it c)) = (map_get (items c))(name \<mapsto> it\<lparr>access_time := now\<rparr>)"
  using assms by (auto simp: cache_struct_def touch_item_def length_map_put)

lemma item_ok_init: "item_ok (bucket_name src) (Item_init src)"
  by (simp add: item_ok_def Item_init_def)

lemma item_ok_access [simp]: "item_ok k (it\<lparr>access_time := now\<rparr>) = item_ok k it"
  by (simp add: item_ok_def can_remove_def)

lemma insert_item_ok:
  "cache_ok c \<Longrightarrow> map_get (items c) (bucket_name src) = None \<Longrightarrow> length (items c) < max_cache_size c
   \<Longrightarrow> cache_ok (insert_item now src c)"
  by (auto simp: cache_ok_def insert_item_struct item_ok_init)

lemma touch_item_ok:
  "cache_ok c \<Longrightarrow> map_get (items c) name = Some it \<Longrightarrow> cache_ok (touch_item now name it c)"
  by (auto simp: cache_ok_def touch_item_struct)

text \<open>A lookup never faults, keeps the invariant and yields the item unless it is refused.\<close>

lemma get_item_ok:
  assumes ok: "cache_ok c"
  obtains c' found where "get_item now src c = Inr (c', found)" "cache_ok c'"
    "found \<Longrightarrow> \<exists>it. map_get (items c') (bucket_name src) = Some it"
proof -
  have st: "cache_struct c" using ok by (simp add: cache_ok_def)
  from ok show thesis
  proof (cases rule: get_item_cases [where src = src and now = now])
    case (hit it)
    with st touch_item_struct [OF st hit(1), of now] show thesis
      by (intro that [of "touch_item now (bucket_name src) it c" True]) (auto intro: touch_item_ok [OF ok])
  next
    case room
    with st insert_item_struct [OF st room(1,2), of now] show thesis
      by (intro that [of "insert_item now src c" True]) (auto intro: insert_item_ok [OF ok])
  next
    case (evicted name it c1)
    have c1: "cache_ok c1" "cache_struct c1" "map_get (items c1) (bucket_name src) = None"
        "length (items c1) < max_cache_size c1"
      using remove_item_ok [OF ok evicted(2)] remove_item_struct [OF st evicted(2)] evicted(1) st
      by (auto simp: cache_struct_def)
    with evicted insert_item_struct [OF c1(2-4), of now] show thesis
      by (intro that [of "insert_item now src c1" True]) (auto intro: insert_item_ok)
  next
    case refused
    with ok show thesis by (intro that [of c False]) auto
  qed
qed

section \<open>Completion of an engine\<close>

text \<open>The item and the cache after a successful \<open>on_done\<close>, before a possible removal.\<close>

definition done_item :: "int \<Rightarrow> S3BucketMetadata \<Rightarrow> Item \<Rightarrow> Item" where
  "done_item now val it =
     it\<lparr>current_op := NoOp, p_value := val, p_engine_modify := False, update_time := now,
        fetch_waiters := [], on_changed := None\<rparr>"

definition done_calls :: "engine_result \<Rightarrow> Item \<Rightarrow> call list" where
  "done_calls res it =
     map (\<lambda>h. Fetched h (fst res) (snd res)) (fetch_waiters it)
       @ (case on_changed it of None \<Rightarrow> [] | Some h \<Rightarrow> [Changed h (fst res)])"

definition done_cache :: "int \<Rightarrow> string \<Rightarrow> engine_result \<Rightarrow> Item \<Rightarrow> S3BucketMetadataCache \<Rightarrow> S3BucketMetadataCache" where
  "done_cache now key res it c =
     add_calls (done_calls res it) (updated key (set_item key (done_item now (snd res) it) c))"

definition drops_item :: "S3BucketMetadataState \<Rightarrow> CurrentOp \<Rightarrow> bool" where
  "drops_item state op \<longleftrightarrow> state = Bfailed \<or> state = Bfailed_to_launch \<or> op = Deleting"

text \<open>
  What \<open>on_done\<close> expects of the item: an operation and its engine, and a change handler
  exactly for a modification.
\<close>

definition completable :: "Item \<Rightarrow> bool" where
  "completable it \<longleftrightarrow> current_op it \<noteq> NoOp \<and> p_engine_modify it
     \<and> (on_changed it = None \<longleftrightarrow> current_op it = Fetching)"

lemma on_changed_same: "on_changed it = None \<Longrightarrow> it\<lparr>on_changed := None\<rparr> = it"
  by (cases it) simp

lemma on_done_eq:
  assumes "map_get (items c) key = Some it" "completable it"
  shows "on_done now key res c =
    (if drops_item (fst res) (current_op it)
     then remove_item (bucket_name (snd res)) (done_cache now key res it c)
     else Inr (done_cache now key res it c))"
proof -
  obtain state val where res: "res = (state, val)" by force
  have item: "item_at c key = Inr it" using assms(1) by simp
  have same: "it\<lparr>current_op := NoOp, p_value := val, p_engine_modify := False, update_time := now,
      fetch_waiters := [], on_changed := None\<rparr>
    = it\<lparr>current_op := NoOp, p_value := val, p_engine_modify := False, update_time := now,
      fetch_waiters := []\<rparr>" if "on_changed it = None"
    by (rule on_changed_same) (simp add: that)
  show ?thesis
    using assms(2)
    by (cases "current_op it"; cases "on_changed it")
      (auto simp: on_done_def item res completable_def done_cache_def done_calls_def done_item_def
        drops_item_def Let_def add_calls_def same)
qed

lemma on_done_Inr_completable:
  assumes "on_done now key res c = Inr c'" "map_get (items c) key = Some it"
    "p_engine_modify it" "current_op it = Fetching \<longrightarrow> on_changed it = None"
  shows "completable it"
  using assms
  by (cases "current_op it") (auto simp: on_done_def item_at_def completable_def Let_def split: prod.splits if_splits)

lemma done_cache_struct:
  assumes "cache_struct c" "map_get (items c) key = Some it"
  shows "cache_struct (done_cache now key res it c)"
    "map_get (items (done_cache now key res it c)) =
       (map_get (items c))(key \<mapsto> done_item now (snd res) it)"
  using assms by (simp_all add: done_cache_def)

lemma done_item_ok:
  "bucket_name val = key \<Longrightarrow> item_ok key (done_item now val it)"
  by (simp add: done_item_def item_ok_def can_remove_def)

lemma done_cache_ok:
  assumes "cache_struct c" "map_get (items c) key = Some it" "bucket_name (snd res) = key"
    "\<And>k i. map_get (items c) k = Some i \<Longrightarrow> k \<noteq> key \<Longrightarrow> item_ok k i"
  shows "cache_ok (done_cache now key res it c)"
  using assms by (auto simp: cache_ok_def done_cache_struct done_item_ok)

lemma on_done_ok:
  assumes st: "cache_struct c" and it: "map_get (items c) key = Some it" and c: "completable it"
    and name: "bucket_name (snd res) = key"
    and others: "\<And>k i. map_get (items c) k = Some i \<Longrightarrow> k \<noteq> key \<Longrightarrow> item_ok k i"
    and res: "on_done now key res c = Inr c'"
  shows "cache_ok c'"
proof -
  have "cache_ok (done_cache now key res it c)" using done_cache_ok [OF st it name others] .
  with res name remove_item_ok show ?thesis
    by (auto simp: on_done_eq [OF it c] split: if_splits)
qed

text \<open>A completion does not fault when no load is in flight beside it.\<close>

lemma on_done_defined:
  assumes st: "cache_struct c" and it: "map_get (items c) key = Some it" and c: "completable it"
    and name: "bucket_name (snd res) = key" and alone: "\<not> p_engine_load it"
  shows "\<exists>c'. on_done now key res c = Inr c'"
proof -
  have "can_remove (done_item now (snd res) it)" using alone by (simp add: can_remove_def done_item_def)
  with remove_item_defined [of "done_cache now key res it c" key] show ?thesis
    by (simp add: on_done_eq [OF it c] name done_cache_struct [OF st it])
qed

lemma item_ok_completable: "item_ok key it \<Longrightarrow> p_engine_modify it \<Longrightarrow> completable it"
  by (auto simp: item_ok_def completable_def)

section \<open>The operations keep the invariant\<close>

text \<open>A load engine that becomes the item's engine: the state in which \<open>on_load\<close> calls \<open>on_done\<close>.\<close>

abbreviation load_as_modify :: "Item \<Rightarrow> Item" where
  "load_as_modify it \<equiv> it\<lparr>p_engine_modify := True, p_engine_load := False\<rparr>"

lemma on_load_eq:
  assumes "map_get (items c) key = Some it" "p_engine_load it"
  shows "on_load now key res c =
    (if p_engine_modify it then Inr (set_item key (it\<lparr>p_engine_load := False\<rparr>) c)
     else on_done now key res (set_item key (load_as_modify it) c))"
  using assms by (simp add: on_load_def item_at_def)

lemma on_load_Inr_cases:
  assumes ok: "cache_ok c" and res: "on_load now key res c = Inr c'"
  obtains (waits) it where "map_get (items c) key = Some it" "p_engine_load it" "p_engine_modify it"
      "c' = set_item key (it\<lparr>p_engine_load := False\<rparr>) c"
    | (finishes) it where "map_get (items c) key = Some it" "p_engine_load it" "\<not> p_engine_modify it"
      "completable (load_as_modify it)" "current_op it = Fetching"
      "on_done now key res (set_item key (load_as_modify it) c) = Inr c'"
proof -
  from res obtain it where it: "map_get (items c) key = Some it" "p_engine_load it"
    by (auto simp: on_load_def ebind_Inr_iff split: if_splits)
  have st: "cache_struct c" and iok: "item_ok key it" using ok it by (auto simp: cache_ok_def)
  show thesis
  proof (cases "p_engine_modify it")
    case True
    moreover have "c' = set_item key (it\<lparr>p_engine_load := False\<rparr>) c"
      using res True by (simp add: on_load_eq [OF it])
    ultimately show thesis using it by (intro waits)
  next
    case False
    have d: "on_done now key res (set_item key (load_as_modify it) c) = Inr c'"
      using res False by (simp add: on_load_eq [OF it])
    have "completable (load_as_modify it)"
      using on_done_Inr_completable [OF d, of "load_as_modify it"] st iok False
      by (auto simp: item_ok_def)
    moreover from this have "current_op it = Fetching" using iok False by (auto simp: item_ok_def completable_def)
    ultimately show thesis using it False d by (intro finishes)
  qed
qed

lemma on_load_ok:
  assumes ok: "cache_ok c" and name: "bucket_name (snd res) = key" and res: "on_load now key res c = Inr c'"
  shows "cache_ok c'"
  using ok res
proof (cases rule: on_load_Inr_cases)
  case (waits it)
  have "item_ok key it" using ok waits by (auto simp: cache_ok_def)
  then have "item_ok key (it\<lparr>p_engine_load := False\<rparr>)"
    using waits by (simp add: item_ok_def can_remove_def)
  with ok waits show ?thesis by (simp add: set_item_ok)
next
  case (finishes it)
  have st: "cache_struct c" using ok by (simp add: cache_ok_def)
  show ?thesis
    by (rule on_done_ok [OF _ _ finishes(4) name _ finishes(6)])
      (use ok st finishes in \<open>auto simp: cache_ok_def split: if_splits\<close>)
qed

lemma on_done_step_ok:
  assumes ok: "cache_ok c" and it: "map_get (items c) key = Some it" "p_engine_modify it"
    and name: "bucket_name (snd res) = key" and res: "on_done now key res c = Inr c'"
  shows "cache_ok c'"
  by (rule on_done_ok [OF _ it(1) item_ok_completable [OF _ it(2)] name _ res])
    (use ok it in \<open>auto simp: cache_ok_def\<close>)

lemma Item_modify_ok:
  assumes ok: "cache_ok c" and op: "op \<in> {Saving, Deleting}"
    and name: "\<And>r. sync = Some r \<Longrightarrow> bucket_name (snd r) = key"
    and res: "Item_modify op key h sync now c = Inr c'"
  shows "cache_ok c'"
proof -
  from res obtain it where it: "map_get (items c) key = Some it" by (auto simp: Item_modify_def ebind_Inr_iff)
  have st: "cache_struct c" and iok: "item_ok key it" using ok it by (auto simp: cache_ok_def)
  let ?it = "it\<lparr>current_op := op, on_changed := Some h, p_engine_modify := True\<rparr>"
  have ok1: "cache_ok (set_item key ?it c)"
    using ok it iok op by (intro set_item_ok) (auto simp: item_ok_def can_remove_def)
  show ?thesis
  proof (cases "p_engine_modify it \<or> sync = None")
    case True
    with res it ok ok1 show ?thesis by (auto simp: Item_modify_def item_at_def split: if_splits)
  next
    case False
    then obtain r where r: "sync = Some r" by blast
    have "on_done now key r (set_item key ?it c) = Inr c'"
      using res it False r by (simp add: Item_modify_def item_at_def)
    with on_done_step_ok [OF ok1, of key ?it] st name [OF r] show ?thesis by simp
  qed
qed

lemma set_item_twice:
  "cache_struct c \<Longrightarrow> set_item key it (set_item key it' c) = set_item key it c"
  by (simp add: set_item_def cache_struct_def std.put_put)

text \<open>The conditions under which \<open>Item::fetch\<close> answers from the cache.\<close>

definition answers_from_cache :: "S3BucketMetadataCache \<Rightarrow> Item \<Rightarrow> bool" where
  "answers_from_cache c it \<longleftrightarrow>
     (let age = seconds_between (access_time it) (update_time it) in
      age < int (expire_interval_sec c) \<and> \<not> disabled c \<and> bm_state (p_value it) = Bpresent
      \<and> (age < int (refresh_interval_sec c) \<or> fetch_waiters it \<noteq> []))"

text \<open>A load that fails inside the call finds no current operation: the assertion of
  \<open>on_done\<close> fails.\<close>

lemma sync_load_faults:
  assumes "cache_struct c" "map_get (items c) key = Some it" "current_op it = NoOp" "\<not> p_engine_modify it"
    "p_engine_load it"
  shows "on_load now key res c = Inl Assertion"
  using assms by (simp add: on_load_eq on_done_def item_at_def)

lemma Item_fetch_cases:
  assumes ok: "cache_ok c" and it: "map_get (items c) key = Some it"
  obtains (cached) "answers_from_cache c it"
      "Item_fetch key h sync now c =
         Inr (add_calls [Fetched (hd (fetch_waiters it @ [h])) Bpresent (p_value it)]
           (set_item key (it\<lparr>fetch_waiters := tl (fetch_waiters it @ [h])\<rparr>) c))"
    | (waits) "\<not> answers_from_cache c it" "\<not> can_remove it"
      "Item_fetch key h sync now c = Inr (set_item key (it\<lparr>fetch_waiters := fetch_waiters it @ [h]\<rparr>) c)"
    | (starts) "\<not> answers_from_cache c it" "can_remove it" "fetch_waiters it = []" "sync = None"
      "Item_fetch key h sync now c =
         Inr (set_item key (it\<lparr>fetch_waiters := [h], p_engine_load := True, current_op := Fetching\<rparr>) c)"
    | (faults) "can_remove it" "sync \<noteq> None" "Item_fetch key h sync now c = Inl Assertion"
proof -
  have st: "cache_struct c" and iok: "item_ok key it" using ok it by (auto simp: cache_ok_def)
  have item: "item_at c key = Inr it" using it by simp
  consider "answers_from_cache c it" | "\<not> answers_from_cache c it" "\<not> can_remove it"
    | "\<not> answers_from_cache c it" "can_remove it" by blast
  then show thesis
  proof cases
    case 1
    then show thesis by (intro cached) (auto simp: Item_fetch_def item answers_from_cache_def Let_def)
  next
    case 2
    then show thesis
      by (intro waits) (auto simp: Item_fetch_def item answers_from_cache_def can_remove_def Let_def)
  next
    case 3
    let ?c1 = "set_item key (it\<lparr>fetch_waiters := [h], p_engine_load := True\<rparr>) c"
    have idle: "fetch_waiters it = []" "current_op it = NoOp" using 3 iok by (auto simp: item_ok_def)
    have eq: "Item_fetch key h sync now c =
      ebind (case sync of None \<Rightarrow> Inr ?c1 | Some res \<Rightarrow> on_load now key res ?c1)
        (\<lambda>c2. ebind (item_at c2 key) (\<lambda>it2. Inr (set_item key (it2\<lparr>current_op := Fetching\<rparr>) c2)))"
      using 3 by (auto simp: Item_fetch_def item answers_from_cache_def can_remove_def Let_def idle)
    show thesis
    proof (cases sync)
      case None
      have "Item_fetch key h sync now c =
          Inr (set_item key (it\<lparr>fetch_waiters := [h], p_engine_load := True, current_op := Fetching\<rparr>) c)"
        unfolding eq using st it by (simp add: None item_at_def set_item_twice)
      with None 3 idle show thesis by (intro starts)
    next
      case (Some res)
      have "on_load now key res ?c1 = Inl Assertion"
        by (rule sync_load_faults [where it = "it\<lparr>fetch_waiters := [h], p_engine_load := True\<rparr>"])
          (use st it idle 3 in \<open>auto simp: can_remove_def\<close>)
      then have "Item_fetch key h sync now c = Inl Assertion" unfolding eq by (simp add: Some)
      with Some 3 show thesis by (intro faults) simp_all
    qed
  qed
qed

lemma Item_fetch_ok:
  assumes ok: "cache_ok c" and res: "Item_fetch key h sync now c = Inr c'"
  shows "cache_ok c'"
proof -
  from res obtain it where it: "map_get (items c) key = Some it" by (auto simp: Item_fetch_def ebind_Inr_iff)
  have st: "cache_struct c" and iok: "item_ok key it" using ok it by (auto simp: cache_ok_def)
  from ok it show ?thesis
  proof (cases rule: Item_fetch_cases [where h = h and sync = sync and now = now])
    case cached
    have "item_ok key (it\<lparr>fetch_waiters := tl (fetch_waiters it @ [h])\<rparr>)"
      using iok by (auto simp: item_ok_def can_remove_def)
    with cached res ok it show ?thesis by (auto intro: set_item_ok)
  next
    case waits
    have "item_ok key (it\<lparr>fetch_waiters := fetch_waiters it @ [h]\<rparr>)"
      using iok waits by (auto simp: item_ok_def can_remove_def)
    with waits res ok it show ?thesis by (auto intro: set_item_ok)
  next
    case starts
    have "item_ok key (it\<lparr>fetch_waiters := [h], p_engine_load := True, current_op := Fetching\<rparr>)"
      using iok starts by (auto simp: item_ok_def can_remove_def)
    with starts res ok it show ?thesis by (auto intro: set_item_ok)
  next
    case faults
    with res show ?thesis by simp
  qed
qed

section \<open>Accounting for the handlers\<close>

fun call_handler :: "call \<Rightarrow> nat" where
  "call_handler (Fetched h st v) = h"
| "call_handler (Changed h st) = h"

definition item_pending :: "Item \<Rightarrow> nat multiset" where
  "item_pending it = mset (fetch_waiters it) + (case on_changed it of None \<Rightarrow> {#} | Some h \<Rightarrow> {#h#})"

definition pending :: "S3BucketMetadataCache \<Rightarrow> nat multiset" where
  "pending c = sum_list (map (\<lambda>e. item_pending (snd e)) (items c))"

definition answered :: "S3BucketMetadataCache \<Rightarrow> nat multiset" where
  "answered c = mset (map call_handler (calls c))"

text \<open>All handlers the cache has been given: answered, or kept by an item.\<close>

definition account :: "S3BucketMetadataCache \<Rightarrow> nat multiset" where
  "account c = answered c + pending c"

lemma sum_map_put:
  fixes f :: "'v \<Rightarrow> nat multiset"
  assumes "map_wf m"
  shows "sum_list (map (\<lambda>e. f (snd e)) (map_put k v m)) + (case map_get m k of None \<Rightarrow> {#} | Some w \<Rightarrow> f w)
    = sum_list (map (\<lambda>e. f (snd e)) m) + f v"
  using assms
proof (induction k v m rule: map_put.induct)
  case (2 k v k' v' m)
  have "map_get m k = None" if "k < k'"
    using 2(2) that by (force simp: map_wf_Cons dom_map_get [symmetric] dom_def)
  with 2 show ?case by (auto simp: map_get_def map_wf_Cons ac_simps split: option.splits)
qed simp

lemma sum_map_erase:
  fixes f :: "'v \<Rightarrow> nat multiset"
  assumes "map_wf m" "map_get m k = Some w"
  shows "sum_list (map (\<lambda>e. f (snd e)) m) = sum_list (map (\<lambda>e. f (snd e)) (map_erase k m)) + f w"
  using sum_map_put [OF map_wf_erase [OF assms(1), of k], where f = f and k = k and v = w]
    assms std.get_inject [of "map_put k w (map_erase k m)" m]
  by (simp add: fun_upd_idem)

lemma account_set_item:
  assumes "cache_struct c" "map_get (items c) key = Some it"
  shows "account (set_item key it' c) + item_pending it = account c + item_pending it'"
proof -
  have "pending (set_item key it' c) + item_pending it = pending c + item_pending it'"
    using sum_map_put [of "items c" item_pending key it'] assms
    by (simp add: pending_def set_item_def cache_struct_def)
  then show ?thesis by (simp add: account_def answered_def set_item_def)
qed

lemma account_add_calls: "account (add_calls cs c) = account c + mset (map call_handler cs)"
  by (simp add: account_def answered_def pending_def add_calls_def)

lemma account_updated [simp]: "account (updated n c) = account c"
  by (simp add: account_def answered_def pending_def updated_def)

lemma account_insert_item:
  assumes "cache_struct c" "map_get (items c) (bucket_name src) = None"
  shows "account (insert_item now src c) = account c"
  using sum_map_put [of "items c" item_pending "bucket_name src" "(Item_init src)\<lparr>access_time := now\<rparr>"] assms
  by (simp add: account_def answered_def pending_def insert_item_def cache_struct_def item_pending_def Item_init_def)

lemma account_touch_item:
  assumes "cache_struct c" "map_get (items c) name = Some it"
  shows "account (touch_item now name it c) = account c"
  using sum_map_put [of "items c" item_pending name "it\<lparr>access_time := now\<rparr>"] assms
  by (simp add: account_def answered_def pending_def touch_item_def cache_struct_def item_pending_def)

lemma account_remove_item:
  assumes ok: "cache_ok c" and res: "remove_item name c = Inr c'"
  shows "account c' = account c"
proof -
  from res obtain it where it: "map_get (items c) name = Some it" "can_remove it"
      "items c' = map_erase name (items c)" "calls c' = calls c"
    by (auto simp: remove_item_def split: if_splits option.splits)
  then have "item_pending it = {#}"
    using ok by (auto simp: cache_ok_def item_ok_def item_pending_def can_remove_def)
  with it sum_map_erase [of "items c" name it item_pending] ok show ?thesis
    by (simp add: account_def answered_def pending_def cache_ok_def cache_struct_def)
qed

lemma account_get_item:
  assumes ok: "cache_ok c" and res: "get_item now src c = Inr (c', found)"
  shows "account c' = account c"
proof -
  have st: "cache_struct c" using ok by (simp add: cache_ok_def)
  from ok show ?thesis
  proof (cases rule: get_item_cases [where src = src and now = now])
    case (evicted name it c1)
    have "cache_struct c1" "map_get (items c1) (bucket_name src) = None"
      using remove_item_struct [OF st evicted(2)] evicted(1) by auto
    with evicted res account_remove_item [OF ok evicted(2)] show ?thesis
      by (auto simp: account_insert_item)
  qed (use res st in \<open>auto simp: account_touch_item account_insert_item\<close>)
qed

lemma account_done_cache:
  assumes "cache_struct c" "map_get (items c) key = Some it"
  shows "account (done_cache now key res it c) = account c"
proof -
  have "account (set_item key (done_item now (snd res) it) c) + item_pending it = account c"
    using account_set_item [OF assms, of "done_item now (snd res) it"]
    by (simp add: item_pending_def done_item_def)
  moreover have "mset (map call_handler (done_calls res it)) = item_pending it"
    by (auto simp: done_calls_def item_pending_def comp_def split: option.splits)
  ultimately show ?thesis by (simp add: done_cache_def account_add_calls)
qed

lemma account_on_done:
  assumes st: "cache_struct c" and it: "map_get (items c) key = Some it" and c: "completable it"
    and name: "bucket_name (snd res) = key"
    and others: "\<And>k i. map_get (items c) k = Some i \<Longrightarrow> k \<noteq> key \<Longrightarrow> item_ok k i"
    and res: "on_done now key res c = Inr c'"
  shows "account c' = account c"
  using res account_remove_item [OF done_cache_ok [OF st it name others]]
    account_done_cache [OF st it, of now res]
  by (auto simp: on_done_eq [OF it c] split: if_splits)

lemma account_on_load:
  assumes ok: "cache_ok c" and name: "bucket_name (snd res) = key" and res: "on_load now key res c = Inr c'"
  shows "account c' = account c"
proof -
  have st: "cache_struct c" using ok by (simp add: cache_ok_def)
  from ok res show ?thesis
  proof (cases rule: on_load_Inr_cases)
    case (waits it)
    with account_set_item [OF st waits(1), of "it\<lparr>p_engine_load := False\<rparr>"] show ?thesis
      by (simp add: item_pending_def)
  next
    case (finishes it)
    have "account c' = account (set_item key (load_as_modify it) c)"
      by (rule account_on_done [OF _ _ finishes(4) name _ finishes(6)])
        (use ok st finishes in \<open>auto simp: cache_ok_def split: if_splits\<close>)
    with account_set_item [OF st finishes(1), of "load_as_modify it"] show ?thesis
      by (simp add: item_pending_def)
  qed
qed

lemma account_Item_modify:
  assumes ok: "cache_ok c" and op: "op \<in> {Saving, Deleting}"
    and name: "\<And>r. sync = Some r \<Longrightarrow> bucket_name (snd r) = key"
    and res: "Item_modify op key h sync now c = Inr c'"
  shows "account c' = add_mset h (account c)"
proof -
  from res obtain it where it: "map_get (items c) key = Some it" by (auto simp: Item_modify_def ebind_Inr_iff)
  have st: "cache_struct c" and iok: "item_ok key it" using ok it by (auto simp: cache_ok_def)
  let ?it = "it\<lparr>current_op := op, on_changed := Some h, p_engine_modify := True\<rparr>"
  show ?thesis
  proof (cases "p_engine_modify it")
    case True
    with res it show ?thesis by (auto simp: Item_modify_def item_at_def account_add_calls)
  next
    case False
    have acc: "account (set_item key ?it c) = add_mset h (account c)"
      using account_set_item [OF st it, of ?it] iok False by (simp add: item_pending_def item_ok_def)
    have "account c' = account (set_item key ?it c)"
    proof (cases sync)
      case None
      with res it False show ?thesis by (auto simp: Item_modify_def item_at_def)
    next
      case (Some r)
      have d: "on_done now key r (set_item key ?it c) = Inr c'"
        using res it False Some by (simp add: Item_modify_def item_at_def)
      show ?thesis
        by (rule account_on_done [OF _ _ _ name [OF Some] _ d, where it = ?it])
          (use ok st it op in \<open>auto simp: cache_ok_def completable_def split: if_splits\<close>)
    qed
    with acc show ?thesis by simp
  qed
qed

lemma account_Item_fetch:
  assumes ok: "cache_ok c" and res: "Item_fetch key h sync now c = Inr c'"
  shows "account c' = add_mset h (account c)"
proof -
  from res obtain it where it: "map_get (items c) key = Some it" by (auto simp: Item_fetch_def ebind_Inr_iff)
  have st: "cache_struct c" using ok by (simp add: cache_ok_def)
  note upd = account_set_item [OF st it]
  from ok it show ?thesis
  proof (cases rule: Item_fetch_cases [where h = h and sync = sync and now = now])
    case cached
    with res upd [of "it\<lparr>fetch_waiters := tl (fetch_waiters it @ [h])\<rparr>"] show ?thesis
      by (cases "fetch_waiters it") (auto simp: account_add_calls item_pending_def)
  next
    case waits
    with res upd [of "it\<lparr>fetch_waiters := fetch_waiters it @ [h]\<rparr>"] show ?thesis
      by (auto simp: item_pending_def)
  next
    case starts
    with res upd [of "it\<lparr>fetch_waiters := [h], p_engine_load := True, current_op := Fetching\<rparr>"] show ?thesis
      by (auto simp: item_pending_def)
  next
    case faults
    with res show ?thesis by simp
  qed
qed

section \<open>Runs of the cache\<close>

text \<open>
  An engine only reports for an item that has it in flight, and with the name of its bucket.
\<close>

fun event_ok :: "S3BucketMetadataCache \<Rightarrow> cache_event \<Rightarrow> bool" where
  "event_ok c (Fetch src h sync) = (case sync of None \<Rightarrow> True | Some r \<Rightarrow> bucket_name (snd r) = bucket_name src)"
| "event_ok c (Save src h sync) = (case sync of None \<Rightarrow> True | Some r \<Rightarrow> bucket_name (snd r) = bucket_name src)"
| "event_ok c (Update src h sync) = (case sync of None \<Rightarrow> True | Some r \<Rightarrow> bucket_name (snd r) = bucket_name src)"
| "event_ok c (Remove src h sync) = (case sync of None \<Rightarrow> True | Some r \<Rightarrow> bucket_name (snd r) = bucket_name src)"
| "event_ok c (Load_done key r) =
     (bucket_name (snd r) = key \<and> (case map_get (items c) key of None \<Rightarrow> False | Some it \<Rightarrow> p_engine_load it))"
| "event_ok c (Modify_done key r) =
     (bucket_name (snd r) = key \<and> (case map_get (items c) key of None \<Rightarrow> False | Some it \<Rightarrow> p_engine_modify it))"
| "event_ok c Disable = True"
| "event_ok c Enable = True"

fun event_handlers :: "cache_event \<Rightarrow> nat multiset" where
  "event_handlers (Fetch src h sync) = {#h#}"
| "event_handlers (Save src h sync) = {#h#}"
| "event_handlers (Update src h sync) = {#h#}"
| "event_handlers (Remove src h sync) = {#h#}"
| "event_handlers _ = {#}"

text \<open>The three modifications have one shape.\<close>

abbreviation modify_via :: "CurrentOp \<Rightarrow> S3BucketMetadata \<Rightarrow> nat \<Rightarrow> engine_result option \<Rightarrow> int
    \<Rightarrow> S3BucketMetadataCache \<Rightarrow> cache_fault + S3BucketMetadataCache" where
  "modify_via op src h sync now c \<equiv>
     ebind (get_item now src c) (\<lambda>(c1, found).
       if found then Item_modify op (bucket_name src) h sync now c1
       else Inr (add_calls [Changed h Bfailed_to_launch] c1))"

lemma modifications:
  "cache_save src h sync now c = modify_via Saving src h sync now c"
  "cache_update src h sync now c = modify_via Saving src h sync now c"
  "cache_remove src h sync now c = modify_via Deleting src h sync now c"
  unfolding cache_save_def Item_save_def cache_update_def Item_update_def cache_remove_def Item_remove_def
  by (rule refl)+

lemma cache_modify_step:
  assumes ok: "cache_ok c" and op: "op \<in> {Saving, Deleting}"
    and sync: "case sync of None \<Rightarrow> True | Some r \<Rightarrow> bucket_name (snd r) = bucket_name src"
    and res: "modify_via op src h sync now c = Inr c'"
  shows "cache_ok c' \<and> account c' = add_mset h (account c)"
proof -
  obtain c1 found where g: "get_item now src c = Inr (c1, found)" "cache_ok c1"
    using get_item_ok [OF ok] by metis
  note acc = account_get_item [OF ok g(1)]
  have name: "bucket_name (snd r) = bucket_name src" if "sync = Some r" for r using sync that by simp
  show ?thesis
  proof (cases found)
    case True
    with res g have "Item_modify op (bucket_name src) h sync now c1 = Inr c'" by simp
    with Item_modify_ok [OF g(2) op name] account_Item_modify [OF g(2) op name] acc show ?thesis by metis
  next
    case False
    with res g acc show ?thesis by (auto simp: account_add_calls)
  qed
qed

lemma cache_step_ok:
  assumes ok: "cache_ok c" and ev: "event_ok c ev" and res: "cache_step now ev c = Inr c'"
  shows "cache_ok c' \<and> account c' = account c + event_handlers ev"
proof (cases ev)
  case (Fetch src h sync)
  obtain c1 found where g: "get_item now src c = Inr (c1, found)" "cache_ok c1"
    using get_item_ok [OF ok] by metis
  note acc = account_get_item [OF ok g(1)]
  show ?thesis
  proof (cases found)
    case True
    with res g Fetch have "Item_fetch (bucket_name src) h sync now c1 = Inr c'" by (simp add: cache_fetch_def)
    with Item_fetch_ok [OF g(2)] account_Item_fetch [OF g(2)] acc Fetch show ?thesis by simp
  next
    case False
    with res g acc Fetch show ?thesis by (auto simp: cache_fetch_def account_add_calls)
  qed
next
  case (Save src h sync)
  with cache_modify_step [OF ok, of Saving src sync now h c'] res ev show ?thesis
    by (simp add: modifications)
next
  case (Update src h sync)
  with cache_modify_step [OF ok, of Saving src sync now h c'] res ev show ?thesis
    by (simp add: modifications)
next
  case (Remove src h sync)
  with cache_modify_step [OF ok, of Deleting src sync now h c'] res ev show ?thesis
    by (simp add: modifications)
next
  case (Load_done key r)
  with on_load_ok [OF ok, of r key now c'] account_on_load [OF ok, of r key now c'] ev res
  show ?thesis by simp
next
  case (Modify_done key r)
  with ev obtain it where it: "map_get (items c) key = Some it" "p_engine_modify it" "bucket_name (snd r) = key"
    by (auto split: option.splits)
  have "account c' = account c"
    by (rule account_on_done [OF _ it(1) _ it(3)])
      (use ok it res Modify_done item_ok_completable [of key it] in \<open>auto simp: cache_ok_def\<close>)
  with on_done_step_ok [OF ok it] res Modify_done show ?thesis by simp
next
  case Disable
  with res ok show ?thesis
    by (auto simp: cache_disable_def cache_ok_def cache_struct_def account_def answered_def pending_def)
next
  case Enable
  with res ok show ?thesis
    by (auto simp: cache_enable_def cache_ok_def cache_struct_def account_def answered_def pending_def)
qed

section \<open>Absence of faults\<close>

text \<open>
  The cache does not handle a modification that finishes before a load that was in flight
  when it began, nor a load that fails inside the call that starts it.  Without these two
  no event makes it fault; \<open>no_overtake\<close> says that an event is not one of them.
\<close>

definition loads_named :: "S3BucketMetadataCache \<Rightarrow> bool" where
  "loads_named c \<longleftrightarrow> (\<forall>key it. map_get (items c) key = Some it \<longrightarrow>
     p_engine_load it \<longrightarrow> \<not> p_engine_modify it \<longrightarrow> current_op it = Fetching)"

definition no_load_in_flight :: "S3BucketMetadataCache \<Rightarrow> string \<Rightarrow> bool" where
  "no_load_in_flight c key = (case map_get (items c) key of None \<Rightarrow> True | Some it \<Rightarrow> \<not> p_engine_load it)"

fun no_overtake :: "S3BucketMetadataCache \<Rightarrow> cache_event \<Rightarrow> bool" where
  "no_overtake c (Fetch src h sync) = (sync = None)"
| "no_overtake c (Save src h sync) = (sync = None \<or> no_load_in_flight c (bucket_name src))"
| "no_overtake c (Update src h sync) = (sync = None \<or> no_load_in_flight c (bucket_name src))"
| "no_overtake c (Remove src h sync) = (sync = None \<or> no_load_in_flight c (bucket_name src))"
| "no_overtake c (Load_done key r) = True"
| "no_overtake c (Modify_done key r) = no_load_in_flight c key"
| "no_overtake c Disable = True"
| "no_overtake c Enable = True"

lemma loads_named_set_item:
  "cache_struct c \<Longrightarrow> loads_named c \<Longrightarrow>
   (p_engine_load it \<Longrightarrow> \<not> p_engine_modify it \<Longrightarrow> current_op it = Fetching) \<Longrightarrow> loads_named (set_item key it c)"
  by (auto simp: loads_named_def)

lemma loads_named_simps [simp]:
  "loads_named (add_calls cs c) = loads_named c" "loads_named (updated n c) = loads_named c"
  by (simp_all add: loads_named_def)

lemma loads_named_remove_item:
  "cache_struct c \<Longrightarrow> loads_named c \<Longrightarrow> remove_item name c = Inr c' \<Longrightarrow> loads_named c'"
  using remove_item_struct [of c name c'] by (auto simp: loads_named_def split: if_splits)

lemma loads_named_get_item:
  assumes ok: "cache_ok c" and ln: "loads_named c" and res: "get_item now src c = Inr (c', found)"
  shows "loads_named c' \<and> (no_load_in_flight c (bucket_name src) \<longrightarrow> no_load_in_flight c' (bucket_name src))"
proof -
  have st: "cache_struct c" using ok by (simp add: cache_ok_def)
  from ok show ?thesis
  proof (cases rule: get_item_cases [where src = src and now = now])
    case (hit it)
    with res ln touch_item_struct [OF st hit(1), of now] show ?thesis
      by (auto simp: loads_named_def no_load_in_flight_def)
  next
    case room
    with res ln insert_item_struct [OF st room(1,2), of now] show ?thesis
      by (auto simp: loads_named_def no_load_in_flight_def Item_init_def)
  next
    case (evicted name it c1)
    have c1: "cache_struct c1" "map_get (items c1) (bucket_name src) = None"
        "length (items c1) < max_cache_size c1" "loads_named c1"
      using remove_item_struct [OF st evicted(2)] evicted(1) st loads_named_remove_item [OF st ln evicted(2)]
      by (auto simp: cache_struct_def)
    with evicted res insert_item_struct [OF c1(1-3), of now] show ?thesis
      by (auto simp: loads_named_def no_load_in_flight_def Item_init_def)
  next
    case refused
    with res ln show ?thesis by simp
  qed
qed

lemma on_done_no_fault:
  assumes st: "cache_struct c" and it: "map_get (items c) key = Some it" and c: "completable it"
    and name: "bucket_name (snd res) = key" and alone: "\<not> p_engine_load it"
    and ln: "\<And>k i. map_get (items c) k = Some i \<Longrightarrow> k \<noteq> key \<Longrightarrow>
      p_engine_load i \<Longrightarrow> \<not> p_engine_modify i \<Longrightarrow> current_op i = Fetching"
  shows "\<exists>c'. on_done now key res c = Inr c' \<and> loads_named c'"
proof -
  have d: "loads_named (done_cache now key res it c)"
    using ln alone by (auto simp: loads_named_def done_cache_struct [OF st it] done_item_def)
  obtain c' where "on_done now key res c = Inr c'" using on_done_defined [OF st it c name alone] by blast
  with d loads_named_remove_item [OF done_cache_struct(1) [OF st it] d] show ?thesis
    by (auto simp: on_done_eq [OF it c] split: if_splits)
qed

lemma on_load_no_fault:
  assumes ok: "cache_ok c" and ln: "loads_named c" and it: "map_get (items c) key = Some it" "p_engine_load it"
    and name: "bucket_name (snd res) = key"
  shows "\<exists>c'. on_load now key res c = Inr c' \<and> loads_named c'"
proof (cases "p_engine_modify it")
  case True
  with ok ln show ?thesis by (auto simp: on_load_eq [OF it] cache_ok_def intro!: loads_named_set_item)
next
  case False
  have st: "cache_struct c" and iok: "item_ok key it" using ok it by (auto simp: cache_ok_def)
  have "current_op it = Fetching" using ln it False by (auto simp: loads_named_def)
  then have "completable (load_as_modify it)" using iok False by (simp add: completable_def item_ok_def)
  with on_done_no_fault [of "set_item key (load_as_modify it) c" key "load_as_modify it" res now]
    st it ln name False show ?thesis
    by (auto simp: on_load_eq [OF it] loads_named_def split: if_splits)
qed

lemma Item_modify_no_fault:
  assumes ok: "cache_ok c" and ln: "loads_named c" and op: "op \<in> {Saving, Deleting}"
    and it: "map_get (items c) key = Some it"
    and sync: "\<And>r. sync = Some r \<Longrightarrow> bucket_name (snd r) = key \<and> no_load_in_flight c key"
  shows "\<exists>c'. Item_modify op key h sync now c = Inr c' \<and> loads_named c'"
proof -
  have st: "cache_struct c" and iok: "item_ok key it" using ok it by (auto simp: cache_ok_def)
  let ?it = "it\<lparr>current_op := op, on_changed := Some h, p_engine_modify := True\<rparr>"
  have ln1: "loads_named (set_item key ?it c)" by (rule loads_named_set_item [OF st ln]) simp
  show ?thesis
  proof (cases "p_engine_modify it \<or> sync = None")
    case True
    with ln ln1 it show ?thesis by (auto simp: Item_modify_def item_at_def)
  next
    case False
    then obtain r where r: "sync = Some r" by blast
    have "\<exists>c'. on_done now key r (set_item key ?it c) = Inr c' \<and> loads_named c'"
      by (rule on_done_no_fault [where it = ?it])
        (use st it op sync [OF r] ln in \<open>auto simp: completable_def no_load_in_flight_def loads_named_def\<close>)
    with False r it show ?thesis by (simp add: Item_modify_def item_at_def)
  qed
qed

lemma Item_fetch_no_fault:
  assumes ok: "cache_ok c" and ln: "loads_named c" and it: "map_get (items c) key = Some it"
  shows "\<exists>c'. Item_fetch key h None now c = Inr c' \<and> loads_named c'"
proof -
  have st: "cache_struct c" using ok by (simp add: cache_ok_def)
  have fetching: "p_engine_load it \<Longrightarrow> \<not> p_engine_modify it \<Longrightarrow> current_op it = Fetching"
    using ln it by (simp add: loads_named_def)
  from ok it show ?thesis
    by (cases rule: Item_fetch_cases [where h = h and sync = None and now = now])
      (use fetching in \<open>auto intro!: loads_named_set_item [OF st ln]\<close>)
qed

lemma modify_via_no_fault:
  assumes ok: "cache_ok c" and ln: "loads_named c" and op: "op \<in> {Saving, Deleting}"
    and sync: "case sync of None \<Rightarrow> True | Some r \<Rightarrow> bucket_name (snd r) = bucket_name src"
    and ovt: "sync = None \<or> no_load_in_flight c (bucket_name src)"
  shows "\<exists>c'. modify_via op src h sync now c = Inr c' \<and> loads_named c'"
proof -
  obtain c1 found where g: "get_item now src c = Inr (c1, found)" "cache_ok c1"
      "found \<Longrightarrow> \<exists>it. map_get (items c1) (bucket_name src) = Some it"
    using get_item_ok [OF ok] by metis
  note ln1 = loads_named_get_item [OF ok ln g(1)]
  show ?thesis
  proof (cases found)
    case True
    with g(3) obtain it where it: "map_get (items c1) (bucket_name src) = Some it" by blast
    have "\<exists>c'. Item_modify op (bucket_name src) h sync now c1 = Inr c' \<and> loads_named c'"
      by (rule Item_modify_no_fault [OF g(2) _ op it]) (use ln1 sync ovt in auto)
    with g True show ?thesis by simp
  next
    case False
    with g ln1 show ?thesis by simp
  qed
qed

lemma cache_step_no_fault:
  assumes ok: "cache_ok c" and ln: "loads_named c" and ev: "event_ok c ev" and ovt: "no_overtake c ev"
  shows "\<exists>c'. cache_step now ev c = Inr c' \<and> loads_named c'"
proof (cases ev)
  case (Fetch src h sync)
  obtain c1 found where g: "get_item now src c = Inr (c1, found)" "cache_ok c1"
      "found \<Longrightarrow> \<exists>it. map_get (items c1) (bucket_name src) = Some it"
    using get_item_ok [OF ok] by metis
  note ln1 = loads_named_get_item [OF ok ln g(1)]
  from g ln1 ovt Fetch show ?thesis
    by (cases found) (auto simp: cache_fetch_def intro: Item_fetch_no_fault [OF g(2)])
next
  case (Save src h sync)
  with modify_via_no_fault [OF ok ln, of Saving src sync now h] ev ovt show ?thesis by (simp add: modifications)
next
  case (Update src h sync)
  with modify_via_no_fault [OF ok ln, of Saving src sync now h] ev ovt show ?thesis by (simp add: modifications)
next
  case (Remove src h sync)
  with modify_via_no_fault [OF ok ln, of Deleting src sync now h] ev ovt show ?thesis by (simp add: modifications)
next
  case (Load_done key r)
  with on_load_no_fault [OF ok ln, of key _ r now] ev show ?thesis by (auto split: option.splits)
next
  case (Modify_done key r)
  with ev ovt obtain it where it: "map_get (items c) key = Some it" "p_engine_modify it"
      "bucket_name (snd r) = key" "\<not> p_engine_load it"
    by (auto simp: no_load_in_flight_def split: option.splits)
  have "\<exists>c'. on_done now key r c = Inr c' \<and> loads_named c'"
    by (rule on_done_no_fault [OF _ it(1) _ it(3,4)])
      (use ok ln it item_ok_completable [of key it] in \<open>auto simp: cache_ok_def loads_named_def\<close>)
  with Modify_done show ?thesis by simp
next
  case Disable
  with ln show ?thesis by (simp add: cache_disable_def loads_named_def)
next
  case Enable
  with ln show ?thesis by (simp add: cache_enable_def loads_named_def)
qed

section \<open>Configuration and order of the lists\<close>

definition conf :: "S3BucketMetadataCache \<Rightarrow> nat \<times> nat \<times> nat" where
  "conf c = (max_cache_size c, expire_interval_sec c, refresh_interval_sec c)"

lemma conf_simps [simp]:
  "conf (set_item k it c) = conf c" "conf (add_calls cs c) = conf c" "conf (updated n c) = conf c"
  "conf (insert_item now src c) = conf c" "conf (touch_item now n it c) = conf c"
  "conf (cache_disable c) = conf c" "conf (cache_enable c) = conf c" "conf (done_cache now k r it c) = conf c"
  by (simp_all add: conf_def set_item_def add_calls_def updated_def insert_item_def touch_item_def
      cache_disable_def cache_enable_def done_cache_def)

lemma conf_remove_item: "remove_item n c = Inr c' \<Longrightarrow> conf c' = conf c"
  by (auto simp: remove_item_def conf_def split: if_splits option.splits)

text \<open>
  Both lists are ordered: the access list by falling access time, the update list by falling
  update time, with the items never updated at its end.
\<close>

definition item_time :: "(Item \<Rightarrow> int) \<Rightarrow> S3BucketMetadataCache \<Rightarrow> string \<Rightarrow> int" where
  "item_time f c k = (case map_get (items c) k of None \<Rightarrow> 0 | Some it \<Rightarrow> f it)"

definition times_ok :: "int \<Rightarrow> S3BucketMetadataCache \<Rightarrow> bool" where
  "times_ok t c \<longleftrightarrow>
     sorted_wrt (\<lambda>a b. item_time access_time c a \<ge> item_time access_time c b) (sorted_by_access c)
     \<and> sorted_wrt (\<lambda>a b. item_time update_time c a \<ge> item_time update_time c b) (sorted_by_update c)
     \<and> (\<forall>key it. map_get (items c) key = Some it \<longrightarrow>
          access_time it \<le> t \<and> 0 \<le> update_time it \<and> update_time it \<le> t)"

lemma sorted_remove1:
  assumes "distinct xs" "sorted_wrt R xs" "\<And>a b. a \<noteq> k \<Longrightarrow> b \<noteq> k \<Longrightarrow> R a b \<Longrightarrow> R' a b"
  shows "sorted_wrt R' (remove1 k xs)"
proof -
  have "sorted_wrt R (remove1 k xs)"
    using assms by (simp add: distinct_remove1_removeAll removeAll_filter_not_eq sorted_wrt_filter)
  then show ?thesis by (rule sorted_wrt_mono_rel [rotated]) (use assms in auto)
qed

lemma item_time_upd:
  "cache_struct c \<Longrightarrow> item_time f (set_item k it c) = (item_time f c)(k := f it)"
  by (auto simp: item_time_def fun_eq_iff)

lemma item_time_same [simp]:
  "item_time f (add_calls cs c) = item_time f c" "item_time f (updated n c) = item_time f c"
  by (simp_all add: item_time_def fun_eq_iff)

lemma times_set_item:
  assumes "cache_struct c" "times_ok t c" "map_get (items c) key = Some it"
    "access_time it' = access_time it" "update_time it' = update_time it"
  shows "times_ok t (set_item key it' c)"
proof -
  have "item_time f (set_item key it' c) = item_time f c" if "f it' = f it" for f
    using assms that by (auto simp: item_time_upd) (auto simp: item_time_def)
  with assms show ?thesis by (auto simp: times_ok_def set_item_def cache_struct_def)
qed

lemma times_later: "times_ok t c \<Longrightarrow> t \<le> t' \<Longrightarrow> times_ok t' c"
  unfolding times_ok_def by (meson order_trans)

lemma times_add_calls [simp]: "times_ok t (add_calls cs c) = times_ok t c"
  by (simp add: times_ok_def) (simp add: add_calls_def)

lemma times_done_cache:
  assumes st: "cache_struct c" and t: "times_ok now c" "0 \<le> now" and it: "map_get (items c) key = Some it"
  shows "times_ok now (done_cache now key res it c)"
proof -
  let ?c = "done_cache now key res it c"
  have time: "item_time f ?c = (item_time f c)(key := f (done_item now (snd res) it))" for f
    using st by (simp add: done_cache_def item_time_upd)
  have acc: "item_time access_time ?c = item_time access_time c"
    unfolding time using it by (auto simp: item_time_def done_item_def)
  have lists: "sorted_by_access ?c = sorted_by_access c"
      "sorted_by_update ?c = key # remove1 key (sorted_by_update c)"
    by (simp_all add: done_cache_def add_calls_def updated_def set_item_def)
  have bound: "item_time update_time c k \<le> now" for k
    using t by (auto simp: times_ok_def item_time_def split: option.split)
  have "sorted_wrt (\<lambda>a b. item_time update_time ?c a \<ge> item_time update_time ?c b) (remove1 key (sorted_by_update c))"
    by (rule sorted_remove1 [where R = "\<lambda>a b. item_time update_time c a \<ge> item_time update_time c b"])
      (use st t in \<open>auto simp: cache_struct_def times_ok_def time\<close>)
  then show ?thesis
    unfolding times_ok_def lists acc
    using t bound st by (auto simp: time done_cache_struct [OF st it] done_item_def times_ok_def)
      (use it in \<open>auto simp: times_ok_def\<close>)
qed

lemma times_remove_item:
  assumes st: "cache_struct c" and t: "times_ok t c" and res: "remove_item name c = Inr c'"
  shows "times_ok t c'"
proof -
  have c': "map_get (items c') = (map_get (items c))(name := None)"
      "sorted_by_access c' = remove1 name (sorted_by_access c)"
      "sorted_by_update c' = remove1 name (sorted_by_update c)"
    using res st by (auto simp: remove_item_def cache_struct_def split: if_splits option.splits)
  have time: "item_time f c' k = item_time f c k" if "k \<noteq> name" for f k
    using that by (simp add: item_time_def c')
  show ?thesis
    using t st unfolding times_ok_def c'
    by (auto simp: time cache_struct_def intro: sorted_remove1)
qed

lemma times_touch_item:
  assumes st: "cache_struct c" and t: "times_ok now c" and it: "map_get (items c) name = Some it"
  shows "times_ok now (touch_item now name it c)"
proof -
  let ?c = "touch_item now name it c"
  have time: "item_time f ?c = (item_time f c)(name := f (it\<lparr>access_time := now\<rparr>))" for f
    by (auto simp: item_time_def touch_item_struct [OF st it] fun_eq_iff)
  have upd: "item_time update_time ?c = item_time update_time c"
    unfolding time using it by (auto simp: item_time_def)
  have bound: "item_time access_time c k \<le> now" if "k \<in> set (sorted_by_access c)" for k
    using t st that by (auto simp: times_ok_def item_time_def cache_struct_def split: option.split)
  have "sorted_wrt (\<lambda>a b. item_time access_time ?c a \<ge> item_time access_time ?c b) (remove1 name (sorted_by_access c))"
    by (rule sorted_remove1 [where R = "\<lambda>a b. item_time access_time c a \<ge> item_time access_time c b"])
      (use st t in \<open>auto simp: cache_struct_def times_ok_def time\<close>)
  moreover have "item_time access_time ?c k \<le> item_time access_time ?c name"
    if "k \<in> set (remove1 name (sorted_by_access c))" for k
    using bound [of k] that by (auto simp: time dest: notin_set_remove1)
  ultimately have "sorted_wrt (\<lambda>a b. item_time access_time ?c a \<ge> item_time access_time ?c b) (sorted_by_access ?c)"
    by (simp add: touch_item_def)
  moreover have "sorted_by_update ?c = sorted_by_update c" by (simp add: touch_item_def)
  ultimately show ?thesis
    unfolding times_ok_def upd using t st it
    by (auto simp: touch_item_struct [OF st it] times_ok_def)
qed

lemma times_insert_item:
  assumes st: "cache_struct c" and t: "times_ok now c" "0 \<le> now"
    and new: "map_get (items c) (bucket_name src) = None" "length (items c) < max_cache_size c"
  shows "times_ok now (insert_item now src c)"
proof -
  let ?c = "insert_item now src c" and ?n = "bucket_name src"
  have fresh: "?n \<notin> set (sorted_by_access c)" "?n \<notin> set (sorted_by_update c)"
    using st new by (auto simp: cache_struct_def)
  have time: "item_time f ?c k = (if k = ?n then f ((Item_init src)\<lparr>access_time := now\<rparr>) else item_time f c k)" for f k
    by (auto simp: item_time_def insert_item_struct [OF st new])
  have keep: "sorted_wrt (\<lambda>a b. item_time f ?c a \<ge> item_time f ?c b) xs"
    if "sorted_wrt (\<lambda>a b. item_time f c a \<ge> item_time f c b) xs" "?n \<notin> set xs" for f xs
    using that by (intro sorted_wrt_mono_rel [OF _ that(1)]) (auto simp: time)
  have b: "item_time access_time c k \<le> now" "0 \<le> item_time update_time c k" for k
    using t by (auto simp: times_ok_def item_time_def split: option.split)
  have "sorted_wrt (\<lambda>a b. item_time access_time ?c a \<ge> item_time access_time ?c b) (?n # sorted_by_access c)"
    using keep [of access_time "sorted_by_access c"] t fresh b by (auto simp: times_ok_def time)
  moreover have "sorted_wrt (\<lambda>a b. item_time update_time ?c a \<ge> item_time update_time ?c b) (sorted_by_update c @ [?n])"
    using keep [of update_time "sorted_by_update c"] t fresh b
    by (auto simp: times_ok_def sorted_wrt_append time Item_init_def)
  moreover have "sorted_by_access ?c = ?n # sorted_by_access c" "sorted_by_update ?c = sorted_by_update c @ [?n]"
    by (simp_all add: insert_item_def)
  ultimately show ?thesis
    unfolding times_ok_def using t
    by (auto simp: insert_item_struct [OF st new] times_ok_def Item_init_def)
qed

lemma times_get_item:
  assumes ok: "cache_ok c" and t: "times_ok now c" "0 \<le> now" and res: "get_item now src c = Inr (c', found)"
  shows "times_ok now c' \<and> conf c' = conf c"
proof -
  have st: "cache_struct c" using ok by (simp add: cache_ok_def)
  from ok show ?thesis
  proof (cases rule: get_item_cases [where src = src and now = now])
    case (evicted name it c1)
    have c1: "cache_struct c1" "map_get (items c1) (bucket_name src) = None"
        "length (items c1) < max_cache_size c1" "times_ok now c1"
      using remove_item_struct [OF st evicted(2)] evicted(1) st times_remove_item [OF st t(1) evicted(2)]
      by (auto simp: cache_struct_def)
    with evicted res t times_insert_item [OF c1(1,4) t(2) c1(2,3)] conf_remove_item [OF evicted(2)]
    show ?thesis by auto
  qed (use res st t in \<open>auto simp: times_touch_item times_insert_item\<close>)
qed

lemma times_on_done:
  assumes st: "cache_struct c" and t: "times_ok now c" "0 \<le> now" and it: "map_get (items c) key = Some it"
    and c: "completable it" and res: "on_done now key r c = Inr c'"
  shows "times_ok now c' \<and> conf c' = conf c"
  using res times_done_cache [OF st t it, of r]
    times_remove_item [OF done_cache_struct(1) [OF st it] times_done_cache [OF st t it]]
    conf_remove_item [of _ "done_cache now key r it c"]
  by (auto simp: on_done_eq [OF it c] split: if_splits)

lemma times_on_load:
  assumes ok: "cache_ok c" and t: "times_ok now c" "0 \<le> now" and res: "on_load now key r c = Inr c'"
  shows "times_ok now c' \<and> conf c' = conf c"
proof -
  have st: "cache_struct c" using ok by (simp add: cache_ok_def)
  from ok res show ?thesis
  proof (cases rule: on_load_Inr_cases)
    case (waits it)
    with times_set_item [OF st t(1) waits(1), of "it\<lparr>p_engine_load := False\<rparr>"] show ?thesis by simp
  next
    case (finishes it)
    have "times_ok now (set_item key (load_as_modify it) c)"
      by (rule times_set_item [OF st t(1) finishes(1)]) simp_all
    with times_on_done [OF _ _ t(2) _ finishes(4,6)] st finishes(1) show ?thesis by simp
  qed
qed

lemma times_Item_modify:
  assumes ok: "cache_ok c" and op: "op \<in> {Saving, Deleting}" and t: "times_ok now c" "0 \<le> now"
    and res: "Item_modify op key h sync now c = Inr c'"
  shows "times_ok now c' \<and> conf c' = conf c"
proof -
  from res obtain it where it: "map_get (items c) key = Some it" by (auto simp: Item_modify_def ebind_Inr_iff)
  have st: "cache_struct c" using ok by (simp add: cache_ok_def)
  let ?it = "it\<lparr>current_op := op, on_changed := Some h, p_engine_modify := True\<rparr>"
  have t1: "times_ok now (set_item key ?it c)" by (rule times_set_item [OF st t(1) it]) simp_all
  show ?thesis
  proof (cases "p_engine_modify it \<or> sync = None")
    case True
    with res it t t1 show ?thesis by (auto simp: Item_modify_def item_at_def split: if_splits)
  next
    case False
    then obtain r where r: "sync = Some r" by blast
    have d: "on_done now key r (set_item key ?it c) = Inr c'"
      using res it False r by (simp add: Item_modify_def item_at_def)
    have "completable ?it" using op by (auto simp: completable_def)
    with times_on_done [OF _ t1 t(2) _ _ d] st it show ?thesis by simp
  qed
qed

lemma times_Item_fetch:
  assumes ok: "cache_ok c" and t: "times_ok now c" and res: "Item_fetch key h sync now c = Inr c'"
  shows "times_ok now c' \<and> conf c' = conf c"
proof -
  from res obtain it where it: "map_get (items c) key = Some it" by (auto simp: Item_fetch_def ebind_Inr_iff)
  have st: "cache_struct c" using ok by (simp add: cache_ok_def)
  from ok it show ?thesis
    by (cases rule: Item_fetch_cases [where h = h and sync = sync and now = now])
      (use res times_set_item [OF st t it] in auto)
qed

lemma times_modify_via:
  assumes ok: "cache_ok c" and op: "op \<in> {Saving, Deleting}" and t: "times_ok now c" "0 \<le> now"
    and res: "modify_via op src h sync now c = Inr c'"
  shows "times_ok now c' \<and> conf c' = conf c"
proof -
  obtain c1 found where g: "get_item now src c = Inr (c1, found)" "cache_ok c1"
    using get_item_ok [OF ok] by metis
  note t1 = times_get_item [OF ok t g(1)]
  show ?thesis
  proof (cases found)
    case True
    with res g have "Item_modify op (bucket_name src) h sync now c1 = Inr c'" by simp
    with times_Item_modify [OF g(2) op _ t(2)] t1 show ?thesis by metis
  next
    case False
    with res g t1 show ?thesis by auto
  qed
qed

lemma times_step:
  assumes ok: "cache_ok c" and ev: "event_ok c ev" and t: "times_ok now c" "0 \<le> now"
    and res: "cache_step now ev c = Inr c'"
  shows "times_ok now c' \<and> conf c' = conf c"
proof (cases ev)
  case (Fetch src h sync)
  obtain c1 found where g: "get_item now src c = Inr (c1, found)" "cache_ok c1"
    using get_item_ok [OF ok] by metis
  note t1 = times_get_item [OF ok t g(1)]
  show ?thesis
  proof (cases found)
    case True
    with res g Fetch have "Item_fetch (bucket_name src) h sync now c1 = Inr c'" by (simp add: cache_fetch_def)
    with times_Item_fetch [OF g(2)] t1 show ?thesis by metis
  next
    case False
    with res g t1 Fetch show ?thesis by (auto simp: cache_fetch_def)
  qed
next
  case (Modify_done key r)
  with ev obtain it where it: "map_get (items c) key = Some it" "p_engine_modify it" by (auto split: option.splits)
  have "completable it" "cache_struct c" using ok it item_ok_completable [of key it] by (auto simp: cache_ok_def)
  with times_on_done [OF _ t it(1)] res Modify_done show ?thesis by simp
next
  case (Load_done key r)
  with times_on_load [OF ok t, of key r c'] res show ?thesis by simp
next
  case Disable
  with res t show ?thesis by (auto simp: times_ok_def item_time_def) (auto simp: cache_disable_def)
next
  case Enable
  with res t show ?thesis by (auto simp: times_ok_def item_time_def) (auto simp: cache_enable_def)
next
  case (Save src h sync)
  with times_modify_via [OF ok _ t, of Saving src h sync c'] res show ?thesis by (simp add: modifications)
next
  case (Update src h sync)
  with times_modify_via [OF ok _ t, of Saving src h sync c'] res show ?thesis by (simp add: modifications)
next
  case (Remove src h sync)
  with times_modify_via [OF ok _ t, of Deleting src h sync c'] res show ?thesis by (simp add: modifications)
qed

section \<open>Reachable states\<close>

text \<open>
  The states a run reaches without a fault, with the events so far and the time of the last
  one; the clock does not run backwards.
\<close>

inductive cache_reach :: "nat \<Rightarrow> nat \<Rightarrow> nat \<Rightarrow> int \<Rightarrow> cache_event list \<Rightarrow> S3BucketMetadataCache \<Rightarrow> bool"
  for mx expire refresh where
  start: "cache_reach mx expire refresh 0 [] (S3BucketMetadataCache_init mx expire refresh)"
| step: "cache_reach mx expire refresh t evs c \<Longrightarrow> t \<le> now \<Longrightarrow> event_ok c ev \<Longrightarrow>
    cache_step now ev c = Inr c' \<Longrightarrow> cache_reach mx expire refresh now (evs @ [ev]) c'"

lemma init_ok: "cache_ok (S3BucketMetadataCache_init mx e r)" "times_ok 0 (S3BucketMetadataCache_init mx e r)"
  by (simp_all add: S3BucketMetadataCache_init_def cache_ok_def cache_struct_def times_ok_def)

lemma reach_invariants:
  assumes "cache_reach mx e r t evs c"
  shows "cache_ok c \<and> times_ok t c \<and> 0 \<le> t \<and> conf c = (mx, e, r)
    \<and> account c = sum_list (map event_handlers evs)"
  using assms
proof (induction rule: cache_reach.induct)
  case start
  show ?case
    using init_ok by (simp add: S3BucketMetadataCache_init_def conf_def account_def answered_def pending_def)
next
  case (step t evs c now ev c')
  then have inv: "cache_ok c" "times_ok now c" "0 \<le> now" by (auto intro: times_later)
  from cache_step_ok [OF inv(1) step(3,4)] times_step [OF inv(1) step(3) inv(2,3) step(4)] step inv
  show ?case by simp
qed

section \<open>Which item is evicted\<close>

definition removable :: "S3BucketMetadataCache \<Rightarrow> string \<Rightarrow> bool" where
  "removable c k = (case map_get (items c) k of None \<Rightarrow> False | Some it \<Rightarrow> can_remove it)"

definition expired :: "int \<Rightarrow> S3BucketMetadataCache \<Rightarrow> string \<Rightarrow> bool" where
  "expired now c k \<longleftrightarrow> seconds_between now (item_time update_time c k) \<ge> int (expire_interval_sec c)"

lemma sdiv_by_sign:
  "(x :: int) \<ge> 0 \<Longrightarrow> x sdiv 1000000000 = x div 1000000000"
  "x < 0 \<Longrightarrow> x sdiv 1000000000 = - ((- x) div 1000000000)"
  by (auto simp: signed_divide_int_def sgn_if)

lemma seconds_between_mono: "a \<le> b \<Longrightarrow> seconds_between now b \<le> seconds_between now a"
proof -
  assume ab: "a \<le> b"
  have nonneg: "0 \<le> x div 1000000000" if "0 \<le> x" for x :: int
    using that by (simp add: pos_imp_zdiv_nonneg_iff)
  have mono: "x div 1000000000 \<le> y div 1000000000" if "x \<le> y" for x y :: int
    using that by (simp add: zdiv_mono1)
  show ?thesis
    using mono [of "now - b" "now - a"] mono [of "a - now" "b - now"] nonneg [of "b - now"] nonneg [of "now - a"] ab
    by (cases "now - b \<ge> 0"; cases "now - a \<ge> 0")
      (simp_all add: seconds_between_def sdiv_by_sign)
qed

lemma shrink_expired_oldest:
  assumes names: "\<And>k it. map_get (items c) k = Some it \<Longrightarrow> bucket_name (p_value it) = k"
    and sorted: "sorted_wrt (\<lambda>a b. item_time update_time c a \<le> item_time update_time c b) ns"
    and res: "shrink_expired now c ns = Inr r"
  shows "case r of
      None \<Rightarrow> (\<forall>k \<in> set ns. removable c k \<longrightarrow> \<not> expired now c k)
    | Some name \<Rightarrow> removable c name \<and> expired now c name
        \<and> (\<forall>k \<in> set ns. removable c k \<longrightarrow> item_time update_time c name \<le> item_time update_time c k)"
  using sorted res
proof (induction ns)
  case (Cons n ns)
  from Cons.prems(2) obtain it where it: "map_get (items c) n = Some it" by (auto simp: ebind_Inr_iff)
  have item: "item_at c n = Inr it" and name: "bucket_name (p_value it) = n" using it names by auto
  have time: "item_time update_time c n = update_time it" by (simp add: item_time_def it)
  have later: "item_time update_time c n \<le> item_time update_time c k" if "k \<in> set ns" for k
    using Cons.prems(1) that by simp
  consider (young) "seconds_between now (update_time it) < int (expire_interval_sec c)"
    | (chosen) "seconds_between now (update_time it) \<ge> int (expire_interval_sec c)" "can_remove it"
    | (busy) "seconds_between now (update_time it) \<ge> int (expire_interval_sec c)" "\<not> can_remove it"
    by linarith
  then show ?case
  proof cases
    case young
    have "\<not> expired now c k" if "k \<in> set (n # ns)" for k
      using young seconds_between_mono [of "item_time update_time c n" "item_time update_time c k" now]
        later [of k] that time by (auto simp: expired_def)
    with young Cons.prems(2) show ?thesis by (auto simp: item)
  next
    case chosen
    with Cons.prems(2) later it time name show ?thesis by (auto simp: item removable_def expired_def)
  next
    case busy
    with Cons it show ?thesis by (auto simp: item removable_def split: option.splits)
  qed
qed simp

lemma shrink_accessed_oldest:
  assumes names: "\<And>k it. map_get (items c) k = Some it \<Longrightarrow> bucket_name (p_value it) = k"
    and sorted: "sorted_wrt (\<lambda>a b. item_time access_time c a \<le> item_time access_time c b) ns"
    and res: "shrink_accessed c ns = Inr (Some name)"
  shows "removable c name
    \<and> (\<forall>k \<in> set ns. removable c k \<longrightarrow> item_time access_time c name \<le> item_time access_time c k)"
  using sorted res
proof (induction ns)
  case (Cons n ns)
  from Cons.prems(2) obtain it where it: "map_get (items c) n = Some it" by (auto simp: ebind_Inr_iff)
  have item: "item_at c n = Inr it" and name: "bucket_name (p_value it) = n" using it names by auto
  show ?case
    using Cons it name by (cases "can_remove it") (auto simp: item removable_def)
qed simp

lemma shrink_policy:
  assumes ok: "cache_ok c" and t: "times_ok t c"
    and res: "shrink now c = Inr (c', True)"
  shows "\<exists>name. remove_item name c = Inr c' \<and> removable c name
    \<and> (if \<exists>k. removable c k \<and> expired now c k
       then expired now c name \<and> (\<forall>k. removable c k \<longrightarrow> item_time update_time c name \<le> item_time update_time c k)
       else \<forall>k. removable c k \<longrightarrow> item_time access_time c name \<le> item_time access_time c k)"
proof -
  have st: "cache_struct c" using ok by (simp add: cache_ok_def)
  have all: "k \<in> set (rev (sorted_by_update c))" "k \<in> set (rev (sorted_by_access c))" if "removable c k" for k
    using that st by (auto simp: removable_def cache_struct_def split: option.splits)
  have srt: "sorted_wrt (\<lambda>a b. item_time update_time c a \<le> item_time update_time c b) (rev (sorted_by_update c))"
      "sorted_wrt (\<lambda>a b. item_time access_time c a \<le> item_time access_time c b) (rev (sorted_by_access c))"
    using t by (simp_all add: times_ok_def sorted_wrt_rev)
  from res obtain sel where sel: "shrink_expired now c (rev (sorted_by_update c)) = Inr sel"
    by (auto simp: shrink_def ebind_Inr_iff)
  note old = shrink_expired_oldest [OF cache_ok_names [OF ok] srt(1) sel]
  show ?thesis
  proof (cases sel)
    case (Some name)
    with res sel have "remove_item name c = Inr c'" by (auto simp: shrink_def ebind_Inr_iff)
    with old Some all show ?thesis by (intro exI [of _ name]) auto
  next
    case None
    with res sel obtain name where n: "shrink_accessed c (rev (sorted_by_access c)) = Inr (Some name)"
        "remove_item name c = Inr c'"
      by (auto simp: shrink_def ebind_Inr_iff split: option.splits)
    with old None all shrink_accessed_oldest [OF cache_ok_names [OF ok] srt(2) n(1)] show ?thesis
      by (intro exI [of _ name]) auto
  qed
qed

section \<open>Runs without overtaking\<close>

inductive calm_reach :: "nat \<Rightarrow> nat \<Rightarrow> nat \<Rightarrow> int \<Rightarrow> cache_event list \<Rightarrow> S3BucketMetadataCache \<Rightarrow> bool"
  for mx expire refresh where
  calm_start: "calm_reach mx expire refresh 0 [] (S3BucketMetadataCache_init mx expire refresh)"
| calm_step: "calm_reach mx expire refresh t evs c \<Longrightarrow> t \<le> now \<Longrightarrow> event_ok c ev \<Longrightarrow> no_overtake c ev \<Longrightarrow>
    cache_step now ev c = Inr c' \<Longrightarrow> calm_reach mx expire refresh now (evs @ [ev]) c'"

lemma calm_reach_reach: "calm_reach mx e r t evs c \<Longrightarrow> cache_reach mx e r t evs c"
  by (induction rule: calm_reach.induct) (auto intro: cache_reach.intros)

lemma calm_loads_named: "calm_reach mx e r t evs c \<Longrightarrow> loads_named c"
proof (induction rule: calm_reach.induct)
  case calm_start
  show ?case by (simp add: loads_named_def S3BucketMetadataCache_init_def)
next
  case (calm_step t evs c now ev c')
  have "cache_ok c" using reach_invariants [OF calm_reach_reach [OF calm_step(1)]] by simp
  from cache_step_no_fault [OF this, of ev now] calm_step show ?case by auto
qed

section \<open>After an overtaken load\<close>

text \<open>A load is in flight, but the item has no current operation any more.\<close>

definition overtaken :: "S3BucketMetadataCache \<Rightarrow> string \<Rightarrow> bool" where
  "overtaken c key \<longleftrightarrow>
     (\<exists>it. map_get (items c) key = Some it \<and> p_engine_load it \<and> \<not> p_engine_modify it \<and> current_op it = NoOp)"

fun modifies :: "string \<Rightarrow> cache_event \<Rightarrow> bool" where
  "modifies key (Save src h sync) = (bucket_name src = key)"
| "modifies key (Update src h sync) = (bucket_name src = key)"
| "modifies key (Remove src h sync) = (bucket_name src = key)"
| "modifies key _ = False"

text \<open>Events in sequence, each with its time; an event that cannot occur in the state it meets is excluded.\<close>

fun cache_run :: "(int \<times> cache_event) list \<Rightarrow> S3BucketMetadataCache \<Rightarrow> cache_fault + S3BucketMetadataCache" where
  "cache_run [] c = Inr c"
| "cache_run ((now, ev) # evs) c = ebind (cache_step now ev c) (cache_run evs)"

fun events_ok :: "(int \<times> cache_event) list \<Rightarrow> S3BucketMetadataCache \<Rightarrow> bool" where
  "events_ok [] c = True"
| "events_ok ((now, ev) # evs) c =
     (event_ok c ev \<and> (case cache_step now ev c of Inl f \<Rightarrow> True | Inr c' \<Rightarrow> events_ok evs c'))"

lemma overtaken_simps [simp]:
  "overtaken (add_calls cs c) = overtaken c" "overtaken (updated n c) = overtaken c"
  "overtaken (cache_disable c) = overtaken c" "overtaken (cache_enable c) = overtaken c"
  by (simp_all add: overtaken_def fun_eq_iff cache_disable_def cache_enable_def)

lemma overtaken_set_item: "cache_struct c \<Longrightarrow> k \<noteq> key \<Longrightarrow> overtaken (set_item k it c) key = overtaken c key"
  by (simp add: overtaken_def)

lemma overtaken_remove_item:
  assumes "cache_struct c" "overtaken c key" "remove_item name c = Inr c'"
  shows "overtaken c' key"
  using assms(2) remove_item_struct [OF assms(1,3)] by (auto simp: overtaken_def can_remove_def)

lemma overtaken_get_item:
  assumes ok: "cache_ok c" and o: "overtaken c key" and res: "get_item now src c = Inr (c', found)"
  shows "overtaken c' key"
proof -
  have st: "cache_struct c" using ok by (simp add: cache_ok_def)
  from ok show ?thesis
  proof (cases rule: get_item_cases [where src = src and now = now])
    case (hit it)
    with res o touch_item_struct [OF st hit(1), of now] show ?thesis by (auto simp: overtaken_def)
  next
    case room
    with res o insert_item_struct [OF st room(1,2), of now] show ?thesis by (auto simp: overtaken_def)
  next
    case (evicted name it c1)
    have c1: "cache_struct c1" "map_get (items c1) (bucket_name src) = None" "length (items c1) < max_cache_size c1"
      using remove_item_struct [OF st evicted(2)] evicted(1) st by (auto simp: cache_struct_def)
    with evicted res overtaken_remove_item [OF st o evicted(2)] insert_item_struct [OF c1, of now] show ?thesis
      by (auto simp: overtaken_def)
  next
    case refused
    with res o show ?thesis by simp
  qed
qed

lemma overtaken_on_done:
  assumes st: "cache_struct c" and o: "overtaken c key" "k \<noteq> key" and it: "map_get (items c) k = Some it" "completable it"
    and res: "on_done now k r c = Inr c'"
  shows "overtaken c' key"
proof -
  have "overtaken (done_cache now k r it c) key" using o overtaken_set_item [OF st] by (simp add: done_cache_def)
  with overtaken_remove_item [OF done_cache_struct(1) [OF st it(1)] this] res show ?thesis
    by (auto simp: on_done_eq [OF it] split: if_splits)
qed

lemma overtaken_on_load:
  assumes ok: "cache_ok c" and o: "overtaken c key" "k \<noteq> key" and res: "on_load now k r c = Inr c'"
  shows "overtaken c' key"
  using ok res
proof (cases rule: on_load_Inr_cases)
  case (waits it)
  then show ?thesis using ok o by (simp add: overtaken_set_item cache_ok_def)
next
  case (finishes it)
  have st: "cache_struct c" using ok by (simp add: cache_ok_def)
  show ?thesis
    by (rule overtaken_on_done [OF _ _ o(2) _ finishes(4,6)]) (use st o finishes(1) in \<open>simp_all add: overtaken_set_item\<close>)
qed

lemma overtaken_Item_modify:
  assumes ok: "cache_ok c" and o: "overtaken c key" "k \<noteq> key" and op: "op \<in> {Saving, Deleting}"
    and res: "Item_modify op k h sync now c = Inr c'"
  shows "overtaken c' key"
proof -
  from res obtain it where it: "map_get (items c) k = Some it" by (auto simp: Item_modify_def ebind_Inr_iff)
  have st: "cache_struct c" using ok by (simp add: cache_ok_def)
  let ?it = "it\<lparr>current_op := op, on_changed := Some h, p_engine_modify := True\<rparr>"
  have o1: "overtaken (set_item k ?it c) key" using st o by (simp add: overtaken_set_item)
  have "completable ?it" using op by (auto simp: completable_def)
  with overtaken_on_done [OF _ o1 o(2), of ?it] it st o(1) o1 res show ?thesis
    by (auto simp: Item_modify_def item_at_def Let_def split: if_splits option.splits)
qed

lemma overtaken_Item_fetch:
  assumes ok: "cache_ok c" and o: "overtaken c key" and res: "Item_fetch k h sync now c = Inr c'"
  shows "overtaken c' key"
proof -
  from res obtain it where it: "map_get (items c) k = Some it" by (auto simp: Item_fetch_def ebind_Inr_iff)
  have st: "cache_struct c" using ok by (simp add: cache_ok_def)
  from ok it show ?thesis
    by (cases rule: Item_fetch_cases [where h = h and sync = sync and now = now])
      (use st it o res in \<open>auto simp: overtaken_def can_remove_def\<close>)
qed

text \<open>Nothing but a further modification of the same bucket ends this.\<close>

lemma overtaken_step:
  assumes ok: "cache_ok c" and o: "overtaken c key" and ev: "event_ok c ev" "\<not> modifies key ev" "\<forall>r. ev \<noteq> Load_done key r"
    and res: "cache_step now ev c = Inr c'"
  shows "overtaken c' key"
proof -
  have modify: "overtaken c' key" if "modify_via op src h sync now c = Inr c'" "bucket_name src \<noteq> key" "op \<in> {Saving, Deleting}" for op src h sync
  proof -
    obtain c1 found where g: "get_item now src c = Inr (c1, found)" "cache_ok c1" using get_item_ok [OF ok] by metis
    with that overtaken_get_item [OF ok o g(1)] overtaken_Item_modify [OF g(2) _ that(2,3), of h sync now c'] show ?thesis
      by (auto split: if_splits)
  qed
  show ?thesis
  proof (cases ev)
    case (Fetch src h sync)
    obtain c1 found where g: "get_item now src c = Inr (c1, found)" "cache_ok c1" using get_item_ok [OF ok] by metis
    with Fetch res overtaken_get_item [OF ok o g(1)] overtaken_Item_fetch [OF g(2), of key] show ?thesis
      by (auto simp: cache_fetch_def split: if_splits)
  next
    case (Save src h sync)
    with modify [where op = Saving and src = src and h = h and sync = sync] res ev show ?thesis by (simp add: modifications)
  next
    case (Update src h sync)
    with modify [where op = Saving and src = src and h = h and sync = sync] res ev show ?thesis by (simp add: modifications)
  next
    case (Remove src h sync)
    with modify [where op = Deleting and src = src and h = h and sync = sync] res ev show ?thesis by (simp add: modifications)
  next
    case (Load_done k r)
    with overtaken_on_load [OF ok o, of k now r c'] ev res show ?thesis by auto
  next
    case (Modify_done k r)
    with ev obtain it where it: "map_get (items c) k = Some it" "p_engine_modify it" by (auto split: option.splits)
    have "k \<noteq> key" using it o by (auto simp: overtaken_def)
    with overtaken_on_done [OF _ o _ it(1)] it ok item_ok_completable [of k it] res Modify_done show ?thesis by (auto simp: cache_ok_def)
  qed (use res o in auto)
qed

lemma overtaken_run:
  assumes "cache_ok c" "overtaken c key" "events_ok evs c" "\<forall>(now, ev) \<in> set evs. \<not> modifies key ev \<and> (\<forall>r. ev \<noteq> Load_done key r)"
    "cache_run evs c = Inr c'"
  shows "cache_ok c' \<and> overtaken c' key"
  using assms
proof (induction evs arbitrary: c)
  case (Cons e evs)
  obtain now ev where e: "e = (now, ev)" by force
  from Cons.prems(5) e obtain c1 where c1: "cache_step now ev c = Inr c1" "cache_run evs c1 = Inr c'" by (auto simp: ebind_Inr_iff)
  have ev: "event_ok c ev" "\<not> modifies key ev" "\<forall>r. ev \<noteq> Load_done key r" "events_ok evs c1" using Cons.prems(3,4) e c1(1) by auto
  show ?case
    by (rule Cons.IH [OF _ _ ev(4) _ c1(2)])
      (use cache_step_ok [OF Cons.prems(1) ev(1) c1(1)] overtaken_step [OF Cons.prems(1,2) ev(1-3) c1(1)] Cons.prems(4) in auto)
qed simp

lemma overtaken_load:
  assumes ok: "cache_ok c" and it: "map_get (items c) key = Some it" "p_engine_modify it" "p_engine_load it"
    and name: "bucket_name (snd res) = key"
  shows "if drops_item (fst res) (current_op it)
    then cache_step now (Modify_done key res) c = Inl Fatal_log
    else \<exists>c'. cache_step now (Modify_done key res) c = Inr c' \<and> cache_ok c' \<and> overtaken c' key"
proof -
  have st: "cache_struct c" and c: "completable it" using ok it item_ok_completable by (auto simp: cache_ok_def)
  let ?d = "done_cache now key res it c"
  have st': "cache_struct ?d" and get: "map_get (items ?d) key = Some (done_item now (snd res) it)"
    using done_cache_struct [OF st it(1), of now res] by simp_all
  have busy: "\<not> can_remove (done_item now (snd res) it)" using it by (simp add: can_remove_def done_item_def)
  have "remove_item key ?d = Inl Fatal_log"
    using struct_lengths [OF st'] get busy by (simp add: remove_item_def)
  moreover have "cache_ok ?d" by (rule done_cache_ok [OF st it(1) name]) (use ok in \<open>auto simp: cache_ok_def\<close>)
  moreover have "overtaken ?d key" using get it by (auto simp: overtaken_def done_item_def)
  ultimately show ?thesis using name by (simp add: on_done_eq [OF it(1) c])
qed

section \<open>Properties\<close>

text \<open>C8: In every state the cache reaches, whatever the order of client calls and engine
  completions, it holds at most \<open>max_cache_size\<close> items, both recency lists hold exactly the
  cached buckets once each, every item is filed under the name of its metadata, and an item
  with no operation in flight keeps no handler waiting.\<close>

theorem cache_bounded_and_consistent:
  assumes "cache_reach mx expire refresh t evs c"
  shows "length (items c) \<le> mx
    \<and> distinct (sorted_by_access c) \<and> set (sorted_by_access c) = fst ` set (items c)
    \<and> distinct (sorted_by_update c) \<and> set (sorted_by_update c) = fst ` set (items c)
    \<and> (\<forall>key it. map_get (items c) key = Some it \<longrightarrow> bucket_name (p_value it) = key
         \<and> (can_remove it \<longrightarrow> fetch_waiters it = [] \<and> on_changed it = None))"
  using reach_invariants [OF assms]
  by (auto simp: cache_ok_def cache_struct_def item_ok_def conf_def can_remove_def dom_map_get)



text \<open>C20: A modification that finishes while a load of the same bucket is in flight brings the
  server down: at once, with the destructor's fatal message, when it deletes the item (it
  failed, or it was a removal); otherwise when the load finishes, because \<open>on_done\<close> then
  finds no current operation and its assertion fails.  In between any calls and completions may
  occur, also fetches of the same bucket; only a further save, update or removal of that bucket is
  excluded, which gives the item a current operation again.\<close>

theorem overtaken_load_faults:
  assumes "cache_reach mx expire refresh t evs c" and "map_get (items c) key = Some it"
    and "p_engine_modify it" and "p_engine_load it" and "bucket_name (snd res) = key"
  shows "if fst res = Bfailed \<or> fst res = Bfailed_to_launch \<or> current_op it = Deleting
    then cache_step now (Modify_done key res) c = Inl Fatal_log
    else \<exists>c1. cache_step now (Modify_done key res) c = Inr c1
           \<and> (\<forall>evs' c2. events_ok evs' c1 \<and> (\<forall>(n, ev) \<in> set evs'. \<not> modifies key ev \<and> (\<forall>r. ev \<noteq> Load_done key r))
                \<and> cache_run evs' c1 = Inr c2 \<longrightarrow> cache_step now' (Load_done key res') c2 = Inl Assertion)"
proof -
  have faults: "cache_step now' (Load_done key res') c2 = Inl Assertion" if "cache_ok c2 \<and> overtaken c2 key" for c2
    using that sync_load_faults [of c2 key _ now' res'] by (auto simp: overtaken_def cache_ok_def)
  have ok: "cache_ok c" using reach_invariants [OF assms(1)] by simp
  note cases = overtaken_load [OF ok assms(2-5), of now]
  show ?thesis
  proof (cases "drops_item (fst res) (current_op it)")
    case True
    with cases show ?thesis by (simp add: drops_item_def)
  next
    case False
    with cases obtain c1 where c1: "cache_step now (Modify_done key res) c = Inr c1" "cache_ok c1" "overtaken c1 key"
      by (auto simp del: cache_step.simps)
    have "\<not> (fst res = Bfailed \<or> fst res = Bfailed_to_launch \<or> current_op it = Deleting)"
      using False by (simp add: drops_item_def)
    then show ?thesis
      using c1(1) faults overtaken_run [OF c1(2,3)] unfolding if_not_P [OF \<open>\<not> (_ \<or> _)\<close>] by blast
  qed
qed

text \<open>The eviction policy: \<open>shrink\<close> removes one item with no operation in flight; when some
  such item is expired, an expired one that was updated least recently, otherwise one that
  was accessed least recently.  It gives up only when every item is busy.\<close>

theorem shrink_evicts_oldest:
  assumes "cache_reach mx expire refresh t evs c"
  shows "(shrink now c = Inr (c, False) \<and> (\<forall>k. \<not> removable c k))
    \<or> (\<exists>c' name. shrink now c = Inr (c', True) \<and> removable c name
         \<and> map_get (items c') = (map_get (items c))(name := None)
         \<and> (if \<exists>k. removable c k \<and> expired now c k
            then expired now c name
              \<and> (\<forall>k. removable c k \<longrightarrow> item_time update_time c name \<le> item_time update_time c k)
            else \<forall>k. removable c k \<longrightarrow> item_time access_time c name \<le> item_time access_time c k))"
proof -
  have inv: "cache_ok c" "times_ok t c" "cache_struct c"
    using reach_invariants [OF assms] by (simp_all add: cache_ok_def)
  from inv(1) show ?thesis
  proof (cases rule: shrink_cases [where now = now])
    case (removed name it c')
    from shrink_policy [OF inv(1,2) removed(1)] remove_item_struct [OF inv(3)] removed(1)
    show ?thesis by blast
  next
    case full
    then show ?thesis by (auto simp: removable_def split: option.splits)
  qed
qed

lemma calls_simps [simp]: "calls (set_item k it c) = calls c" "calls (add_calls cs c) = calls c @ cs"
  by (simp_all add: set_item_def add_calls_def)

lemma Item_fetch_result:
  assumes ok: "cache_ok c" and it: "map_get (items c) key = Some it"
  shows "\<exists>c' it'. Item_fetch key h None now c = Inr c' \<and> map_get (items c') key = Some it'
    \<and> (if answers_from_cache c it
       then calls c' = calls c @ [Fetched (hd (fetch_waiters it @ [h])) Bpresent (p_value it)]
         \<and> fetch_waiters it' = tl (fetch_waiters it @ [h])
       else calls c' = calls c \<and> fetch_waiters it' = fetch_waiters it @ [h] \<and> \<not> can_remove it')"
proof -
  have st: "cache_struct c" using ok by (simp add: cache_ok_def)
  from ok it show ?thesis
  proof (cases rule: Item_fetch_cases [where h = h and sync = None and now = now])
    case cached
    with st show ?thesis by simp
  next
    case waits
    with st show ?thesis by (auto simp: can_remove_def)
  next
    case starts
    with st show ?thesis by (auto simp: can_remove_def)
  next
    case faults
    then show ?thesis by simp
  qed
qed

lemma fetch_cached_result:
  assumes "cache_reach mx expire refresh t evs c" and "map_get (items c) (bucket_name src) = Some it"
  shows "\<exists>c' it'. cache_step now (Fetch src h None) c = Inr c' \<and> map_get (items c') (bucket_name src) = Some it'
    \<and> (if \<not> disabled c \<and> bm_state (p_value it) = Bpresent
          \<and> seconds_between now (update_time it) < int expire
          \<and> (seconds_between now (update_time it) < int refresh \<or> fetch_waiters it \<noteq> [])
       then calls c' = calls c @ [Fetched (hd (fetch_waiters it @ [h])) Bpresent (p_value it)]
         \<and> fetch_waiters it' = tl (fetch_waiters it @ [h])
       else calls c' = calls c \<and> fetch_waiters it' = fetch_waiters it @ [h] \<and> \<not> can_remove it')"
proof -
  let ?n = "bucket_name src" and ?it = "it\<lparr>access_time := now\<rparr>"
  have ok: "cache_ok c" and st: "cache_struct c" and cf: "conf c = (mx, expire, refresh)"
    using reach_invariants [OF assms(1)] by (simp_all add: cache_ok_def)
  let ?c = "touch_item now ?n it c"
  have g: "get_item now src c = Inr (?c, True)"
    using ok assms(2) by (cases rule: get_item_cases [where src = src and now = now]) auto
  have ok1: "cache_ok ?c" using touch_item_ok [OF ok assms(2)] .
  then have st1: "cache_struct ?c" by (simp add: cache_ok_def)
  have get1: "map_get (items ?c) ?n = Some ?it" using touch_item_struct [OF st assms(2)] by simp
  have ans: "answers_from_cache ?c ?it \<longleftrightarrow> \<not> disabled c \<and> bm_state (p_value it) = Bpresent
      \<and> seconds_between now (update_time it) < int expire
      \<and> (seconds_between now (update_time it) < int refresh \<or> fetch_waiters it \<noteq> [])"
    using cf by (auto simp: answers_from_cache_def touch_item_def conf_def Let_def)
  have calls: "calls ?c = calls c" by (simp add: touch_item_def)
  have step: "cache_step now (Fetch src h None) c = Item_fetch ?n h None now ?c"
    by (simp add: cache_fetch_def g)
  show ?thesis
    using Item_fetch_result [OF ok1 get1, of h now] calls unfolding step ans [symmetric] by (simp split del: if_split cong: if_cong)
qed

text \<open>What a fetch of a cached bucket does.  The cache answers by itself, with the value it
  holds, exactly when it is enabled, the value is present and younger than the expiry
  interval, and it is younger than the refresh interval or another request already waits
  for the refresh; the handler answered is then the longest waiting one.  In every other
  case the handler waits for an operation in flight.\<close>

theorem fetch_of_cached_bucket:
  assumes "cache_reach mx expire refresh t evs c" and "map_get (items c) (bucket_name src) = Some it"
  shows "\<exists>c' it'. cache_step now (Fetch src h None) c = Inr c' \<and> map_get (items c') (bucket_name src) = Some it'
    \<and> (if \<not> disabled c \<and> bm_state (p_value it) = Bpresent
          \<and> seconds_between now (update_time it) < int expire
          \<and> (seconds_between now (update_time it) < int refresh \<or> fetch_waiters it \<noteq> [])
       then calls c' = calls c @ [Fetched (hd (fetch_waiters it @ [h])) Bpresent (p_value it)]
         \<and> fetch_waiters it' = tl (fetch_waiters it @ [h])
       else calls c' = calls c \<and> fetch_waiters it' = fetch_waiters it @ [h] \<and> \<not> can_remove it')"
  using assms by (rule fetch_cached_result)

section \<open>A concrete run\<close>

text \<open>A bucket is fetched, and saved while the load is still in flight.\<close>

definition sample_request :: bucket_request where
  "sample_request = \<lparr>rq_request_id = ''r'', rq_stripped_request_id = ''r'', rq_bucket_name = ''b'',
     rq_default_acl = ''QUNM'', rq_account_name = ''acc'', rq_account_id = ''12'', rq_user_name = ''root'',
     rq_user_id = ''34'', rq_canonical_id = ''56''\<rparr>"

definition sample_src :: S3BucketMetadata where "sample_src = S3BucketMetadata_init sample_request []"

definition fetched_item :: Item where
  "fetched_item = \<lparr>p_value = sample_src, update_time = 0, access_time = 5, current_op = Fetching,
     on_changed = None, fetch_waiters = [0], p_engine_modify = False, p_engine_load = True\<rparr>"

definition fetched_cache :: S3BucketMetadataCache where
  "fetched_cache = \<lparr>max_cache_size = 1, expire_interval_sec = 300, refresh_interval_sec = 100, disabled = False,
     items = [(''b'', fetched_item)], sorted_by_access = [''b''], sorted_by_update = [''b''], calls = []\<rparr>"

definition saving_item :: Item where
  "saving_item = fetched_item\<lparr>access_time := 7, current_op := Saving, on_changed := Some 1, p_engine_modify := True\<rparr>"

definition saving_cache :: S3BucketMetadataCache where
  "saving_cache = fetched_cache\<lparr>items := [(''b'', saving_item)]\<rparr>"

lemmas cache_eval = cache_fetch_def cache_save_def Item_save_def get_item_def insert_item_def touch_item_def
  Item_fetch_def Item_modify_def item_at_def map_get_def set_item_def Item_init_def Let_def
  seconds_between_def signed_divide_int_def add_calls_def

lemma sample_name [simp]: "bucket_name sample_src = ''b''" "bm_state sample_src = Bempty"
  by (simp_all add: sample_src_def S3BucketMetadata_init_def sample_request_def)

lemma sample_fetch:
  "cache_step 5 (Fetch sample_src 0 None) (S3BucketMetadataCache_init 1 300 100) = Inr fetched_cache"
  by (simp add: cache_eval S3BucketMetadataCache_init_def fetched_cache_def fetched_item_def)

lemma sample_save: "cache_step 7 (Save sample_src 1 None) fetched_cache = Inr saving_cache"
  by (simp add: cache_eval fetched_cache_def fetched_item_def saving_cache_def saving_item_def)

lemma sample_reach:
  "calm_reach 1 300 100 5 [Fetch sample_src 0 None] fetched_cache"
  "calm_reach 1 300 100 7 [Fetch sample_src 0 None, Save sample_src 1 None] saving_cache"
proof -
  show f: "calm_reach 1 300 100 5 [Fetch sample_src 0 None] fetched_cache"
    using calm_step [OF calm_start _ _ _ sample_fetch] by simp
  show "calm_reach 1 300 100 7 [Fetch sample_src 0 None, Save sample_src 1 None] saving_cache"
    using calm_step [OF f _ _ _ sample_save] by simp
qed

lemma sample_get:
  "map_get (items fetched_cache) ''b'' = Some fetched_item" "map_get (items saving_cache) ''b'' = Some saving_item"
  by (simp_all add: map_get_def fetched_cache_def saving_cache_def)

theorem cache_bounded_and_consistent_witness:
  "length (items saving_cache) \<le> 1 \<and> set (sorted_by_access saving_cache) = {''b''}"
  using cache_bounded_and_consistent [OF calm_reach_reach [OF sample_reach(2)]]
  by (simp add: saving_cache_def fetched_cache_def)



theorem overtaken_load_faults_witness:
  "(\<exists>c1. cache_step 8 (Modify_done ''b'' (Bpresent, sample_src)) saving_cache = Inr c1
      \<and> cache_step 9 (Load_done ''b'' (Bpresent, sample_src)) (cache_disable c1) = Inl Assertion)
    \<and> cache_step 8 (Modify_done ''b'' (Bfailed, sample_src)) saving_cache = Inl Fatal_log"
proof -
  have e: "p_engine_modify saving_item" "p_engine_load saving_item" "current_op saving_item = Saving"
    by (simp_all add: saving_item_def fetched_item_def)
  note at = overtaken_load_faults [OF calm_reach_reach [OF sample_reach(2)] sample_get(2) e(1,2)]
  from at [of "(Bpresent, sample_src)" 8 9 "(Bpresent, sample_src)"] e(3) obtain c1 where
    c1: "cache_step 8 (Modify_done ''b'' (Bpresent, sample_src)) saving_cache = Inr c1"
    and run: "\<And>evs' c2. events_ok evs' c1 \<and> (\<forall>(n, ev) \<in> set evs'. \<not> modifies ''b'' ev \<and> (\<forall>r. ev \<noteq> Load_done ''b'' r))
      \<and> cache_run evs' c1 = Inr c2 \<Longrightarrow> cache_step 9 (Load_done ''b'' (Bpresent, sample_src)) c2 = Inl Assertion"
    by (auto simp del: cache_step.simps)
  have "cache_step 9 (Load_done ''b'' (Bpresent, sample_src)) (cache_disable c1) = Inl Assertion"
    by (rule run [of "[(9, Disable)]"]) simp
  with c1 at [of "(Bfailed, sample_src)" 8] show ?thesis by simp
qed

theorem shrink_evicts_oldest_witness: "shrink 8 saving_cache = Inr (saving_cache, False)"
proof -
  have "removable saving_cache k \<Longrightarrow> False" for k
    by (simp add: removable_def map_get_def saving_cache_def fetched_cache_def saving_item_def fetched_item_def
        can_remove_def split: if_splits)
  with shrink_evicts_oldest [OF calm_reach_reach [OF sample_reach(2)], of 8] show ?thesis by blast
qed

theorem fetch_of_cached_bucket_witness:
  "\<exists>c' it'. cache_step 8 (Fetch sample_src 3 None) fetched_cache = Inr c' \<and> map_get (items c') ''b'' = Some it'
    \<and> fetch_waiters it' = [0, 3]"
  using fetch_of_cached_bucket [OF calm_reach_reach [OF sample_reach(1)], of sample_src fetched_item 8 3]
  by (simp add: sample_get) (auto simp: fetched_item_def)

end
