(* ===== verification/Bucket_Proxy.thy ===== *)
theory Bucket_Proxy
  imports Bucket_Cache
begin

text \<open>
  \<open>server/s3_bucket_metadata_proxy.cc\<close>: the object an action holds; it forwards its four
  operations to the cache and turns the state the cache reports into a call of the success
  or the failure handler (\<open>Reported True\<close>, \<open>Reported False\<close>).  A pending operation is
  identified by the handler number it gave to the cache.
\<close>

datatype report = Reported bool

definition proxy_on_load ::
  "S3BucketMetadataState \<Rightarrow> S3BucketMetadata \<Rightarrow> S3BucketMetadata \<Rightarrow> S3BucketMetadata \<times> report" where
  "proxy_on_load state src self =
     (if state = Bpresent
      then (src\<lparr>bm_request := bm_request self, request_id := rq_request_id (bm_request self),
                stripped_request_id := rq_stripped_request_id (bm_request self)\<rparr>, Reported True)
      else (self\<lparr>bm_state := state\<rparr>, Reported False))"

definition proxy_initialize :: "string \<Rightarrow> S3BucketMetadata \<Rightarrow> S3BucketMetadata" where
  "proxy_initialize now self =
     (let req = bm_request self;
          m1 = map_put ''Owner-Canonical-id'' (rq_canonical_id req) (system_defined_attribute self);
          m2 = map_put ''Date'' now m1;
          (m3, location) = map_index [] m2 ''LocationConstraint'';
          m4 = (if location = [] then map_put ''LocationConstraint'' ''us-west-2'' m3 else m3)
      in self\<lparr>account_name := rq_account_name req, account_id := rq_account_id req,
              user_name := rq_user_name req, user_id := rq_user_id req,
              owner_canonical_id := rq_canonical_id req, system_defined_attribute := m4\<rparr>)"

definition proxy_on_save :: "S3BucketMetadataState \<Rightarrow> S3BucketMetadata \<Rightarrow> S3BucketMetadata \<times> report" where
  "proxy_on_save state self = (self\<lparr>bm_state := state\<rparr>, Reported (state = Bpresent))"

definition proxy_on_update :: "S3BucketMetadataState \<Rightarrow> S3BucketMetadata \<Rightarrow> S3BucketMetadata \<times> report" where
  "proxy_on_update state self = (self\<lparr>bm_state := state\<rparr>, Reported (state = Bpresent))"

definition proxy_on_remove :: "S3BucketMetadataState \<Rightarrow> S3BucketMetadata \<Rightarrow> S3BucketMetadata \<times> report" where
  "proxy_on_remove state self = (self\<lparr>bm_state := state\<rparr>, Reported (state = Bmissing))"

text \<open>The operations as events of the cache; a save fills in the owner, date and location first.\<close>

definition proxy_load :: "nat \<Rightarrow> S3BucketMetadata \<Rightarrow> S3BucketMetadata \<times> cache_event" where
  "proxy_load h self = (self, Fetch self h None)"

definition proxy_save :: "string \<Rightarrow> nat \<Rightarrow> S3BucketMetadata \<Rightarrow> S3BucketMetadata \<times> cache_event" where
  "proxy_save now h self = (let self' = proxy_initialize now self in (self', Save self' h None))"

definition proxy_update :: "nat \<Rightarrow> S3BucketMetadata \<Rightarrow> S3BucketMetadata \<times> cache_event" where
  "proxy_update h self = (self, Update self h None)"

definition proxy_remove :: "nat \<Rightarrow> S3BucketMetadata \<Rightarrow> S3BucketMetadata \<times> cache_event" where
  "proxy_remove h self = (self, Remove self h None)"

text \<open>The handler a call of the cache ends in.\<close>

datatype proxy_op = Loading | SavingOp | UpdatingOp | RemovingOp

definition proxy_called :: "proxy_op \<Rightarrow> call \<Rightarrow> S3BucketMetadata \<Rightarrow> S3BucketMetadata \<times> report" where
  "proxy_called op cl self =
     (case cl of
        Fetched h state v \<Rightarrow> proxy_on_load state v self
      | Changed h state \<Rightarrow>
          (case op of RemovingOp \<Rightarrow> proxy_on_remove state self
                    | UpdatingOp \<Rightarrow> proxy_on_update state self
                    | _ \<Rightarrow> proxy_on_save state self))"

section \<open>Properties\<close>

lemma proxy_initialize_wf: "bucket_wf self \<Longrightarrow> bucket_wf (proxy_initialize now self)"
  by (simp add: proxy_initialize_def bucket_wf_def Let_def case_prod_beta)

lemma proxy_on_load_keeps_request:
  "bm_request (fst (proxy_on_load state src self)) = bm_request self"
  by (simp add: proxy_on_load_def)

text \<open>Loading through the proxy while the cache can answer by itself: the very call of the
  cache succeeds, the action's object becomes a copy of the cached metadata, except that it
  keeps its own request, and its success handler is called.\<close>

theorem proxy_load_from_cache:
  assumes "cache_reach mx expire refresh t evs c" and "map_get (items c) (bucket_name self) = Some it"
    and "\<not> disabled c" and "bm_state (p_value it) = Bpresent" and "fetch_waiters it = []"
    and "seconds_between now (update_time it) < int expire" and "seconds_between now (update_time it) < int refresh"
  shows "\<exists>c' cl. cache_step now (snd (proxy_load h self)) c = Inr c' \<and> calls c' = calls c @ [cl]
    \<and> call_handler cl = h
    \<and> proxy_called Loading cl (fst (proxy_load h self)) =
        ((p_value it)\<lparr>bm_request := bm_request self, request_id := rq_request_id (bm_request self),
           stripped_request_id := rq_stripped_request_id (bm_request self)\<rparr>, Reported True)"
proof -
  have "\<exists>c'. cache_step now (Fetch self h None) c = Inr c' \<and> calls c' = calls c @ [Fetched h Bpresent (p_value it)]"
    using fetch_cached_result [OF assms(1,2), of now h] assms(3-7) by auto
  then show ?thesis
    by (auto simp: proxy_load_def proxy_called_def proxy_on_load_def assms(4))
qed

definition cached_item :: Item where
  "cached_item = \<lparr>p_value = sample_src\<lparr>bm_state := Bpresent\<rparr>, update_time = 6, access_time = 5, current_op = NoOp,
     on_changed = None, fetch_waiters = [], p_engine_modify = False, p_engine_load = False\<rparr>"

definition cached_cache :: S3BucketMetadataCache where
  "cached_cache = fetched_cache\<lparr>items := [(''b'', cached_item)],
     calls := [Fetched 0 Bpresent (sample_src\<lparr>bm_state := Bpresent\<rparr>)]\<rparr>"

lemma sample_loaded:
  "cache_reach 1 300 100 6
     [Fetch sample_src 0 None, Load_done ''b'' (Bpresent, sample_src\<lparr>bm_state := Bpresent\<rparr>)] cached_cache"
proof -
  have "cache_step 6 (Load_done ''b'' (Bpresent, sample_src\<lparr>bm_state := Bpresent\<rparr>)) fetched_cache = Inr cached_cache"
    by (simp add: on_load_def on_done_def item_at_def map_get_def fetched_cache_def fetched_item_def
        cached_cache_def cached_item_def set_item_def updated_def add_calls_def Let_def)
  from step [OF calm_reach_reach [OF sample_reach(1)] _ _ this] show ?thesis
    by (simp add: sample_get) (simp add: fetched_item_def)
qed

theorem proxy_load_from_cache_witness:
  "\<exists>c' cl. cache_step 8 (snd (proxy_load 4 sample_src)) cached_cache = Inr c'
    \<and> snd (proxy_called Loading cl (fst (proxy_load 4 sample_src))) = Reported True \<and> call_handler cl = 4"
proof -
  have get: "map_get (items cached_cache) (bucket_name sample_src) = Some cached_item"
    by (simp add: map_get_def cached_cache_def)
  have "\<not> disabled cached_cache" "bm_state (p_value cached_item) = Bpresent" "fetch_waiters cached_item = []"
      "seconds_between 8 (update_time cached_item) < int 300" "seconds_between 8 (update_time cached_item) < int 100"
    by (simp_all add: cached_cache_def fetched_cache_def cached_item_def seconds_between_def signed_divide_int_def)
  from proxy_load_from_cache [OF sample_loaded get this, of 4] show ?thesis by (metis snd_conv)
qed

end
