(* ===== verification/Kvs.thy ===== *)
theory Kvs
  imports Motr_Ids Std_Map
begin

text \<open>
  The requests that the metadata classes send through \<open>S3MotrKVSReader\<close> and
  \<open>S3MotrKVSWriter\<close>, the states these report, and a store that answers them.  The store maps
  the id of an index to its entries in key order.  A request either succeeds and takes effect
  as a whole, or fails and leaves the store as it was.
\<close>

datatype S3MotrKVSReaderOpState =
  R_empty | R_start | R_failed_to_launch | R_failed | R_failed_e2big | R_present | R_missing

datatype S3MotrKVSWriterOpState =
  W_start | W_failed_to_launch | W_failed | W_created | W_deleted | W_exists | W_missing | W_deleting

datatype kvs_op =
    Get_keyval s3_motr_idx_layout string
  | Next_keyval s3_motr_idx_layout string nat
  | Put_keyval s3_motr_idx_layout "(string, string) std_map"
  | Delete_keyval s3_motr_idx_layout "string list"

datatype kvs_result =
    Got_value string
  | Got_pairs "(string, string) std_map"
  | Read_failed S3MotrKVSReaderOpState
  | Write_done
  | Write_error S3MotrKVSWriterOpState

type_synonym kvs_indices = "m0_uint128 \<Rightarrow> (string, string) std_map"

definition put_all :: "(string, string) std_map \<Rightarrow> (string, string) std_map \<Rightarrow> (string, string) std_map" where
  "put_all kvs m = fold (\<lambda>(k, v). map_put k v) kvs m"

definition delete_all :: "string list \<Rightarrow> (string, string) std_map \<Rightarrow> (string, string) std_map" where
  "delete_all ks m = fold map_erase ks m"

text \<open>
  What a request does when it succeeds; \<open>next_keyval\<close> lists the keys behind the given one
  (its default flag excludes the start key).
\<close>

fun kvs_effect :: "kvs_op \<Rightarrow> kvs_indices \<Rightarrow> kvs_indices" where
  "kvs_effect (Put_keyval lo kvs) st = st(oid lo := put_all kvs (st (oid lo)))"
| "kvs_effect (Delete_keyval lo ks) st = st(oid lo := delete_all ks (st (oid lo)))"
| "kvs_effect (Get_keyval lo k) st = st"
| "kvs_effect (Next_keyval lo k n) st = st"

fun kvs_answer :: "kvs_op \<Rightarrow> kvs_indices \<Rightarrow> kvs_result" where
  "kvs_answer (Get_keyval lo k) st =
     (case map_get (st (oid lo)) k of None \<Rightarrow> Read_failed R_missing | Some v \<Rightarrow> Got_value v)"
| "kvs_answer (Next_keyval lo k n) st =
     (let kvs = take n (filter (\<lambda>e. k < fst e) (st (oid lo)))
      in if kvs = [] then Read_failed R_missing else Got_pairs kvs)"
| "kvs_answer (Put_keyval lo kvs) st = Write_done"
| "kvs_answer (Delete_keyval lo ks) st = Write_done"

text \<open>Whether the store is well formed, and the failures a store may answer with.\<close>

definition kvs_wf :: "kvs_indices \<Rightarrow> bool" where
  "kvs_wf st \<longleftrightarrow> (\<forall>i. map_wf (st i))"

fun kvs_failure :: "kvs_op \<Rightarrow> kvs_result \<Rightarrow> bool" where
  "kvs_failure (Put_keyval lo kvs) (Write_error w) = (w = W_failed \<or> w = W_failed_to_launch)"
| "kvs_failure (Delete_keyval lo ks) (Write_error w) = (w = W_failed \<or> w = W_failed_to_launch \<or> w = W_missing)"
| "kvs_failure (Get_keyval lo k) (Read_failed r) = (r \<noteq> R_present \<and> r \<noteq> R_start \<and> r \<noteq> R_empty)"
| "kvs_failure (Next_keyval lo k n) (Read_failed r) = (r \<noteq> R_present \<and> r \<noteq> R_start \<and> r \<noteq> R_empty)"
| "kvs_failure _ _ = False"

lemma put_all_wf [simp]: "map_wf m \<Longrightarrow> map_wf (put_all kvs m)"
  unfolding put_all_def by (rule std.wf_fold_put)

lemma put_all_get: "map_wf m \<Longrightarrow> map_wf kvs \<Longrightarrow> map_get (put_all kvs m) = map_get m ++ map_get kvs"
  by (simp add: put_all_def std.get_fold_put map_of_rev_wf)

lemma delete_all_wf [simp]: "map_wf m \<Longrightarrow> map_wf (delete_all ks m)"
  unfolding delete_all_def by (induction ks arbitrary: m) auto

lemma delete_all_get: "map_get (delete_all ks m) k = (if k \<in> set ks then None else map_get m k)"
  unfolding delete_all_def by (induction ks arbitrary: m) auto

lemma kvs_effect_wf: "kvs_wf st \<Longrightarrow> kvs_wf (kvs_effect op st)"
  by (cases op) (auto simp: kvs_wf_def)

end
