(* ===== verification/Bucket_Engine.thy ===== *)
theory Bucket_Engine
  imports Bucket_Metadata Kvs
begin

text \<open>
  \<open>server/s3_bucket_metadata_v1.cc\<close> and \<open>server/s3_global_bucket_index_metadata.cc\<close>: the
  operations that keep a bucket in the Motr key-value store.  Each is a chain of
  asynchronous requests; the engine has at most one request in flight (\<open>in_flight\<close>, with the
  member function pair that waits for it) and reports the final state through its callback
  (\<open>reported\<close>).  A reply of the store is delivered by \<open>deliver\<close>, which runs the waiting
  function.  A failed assertion gives \<open>None\<close>.  The identifier that \<open>S3UriToMotrOID\<close> derives
  from an index name, the JSON library, the current time, the padding bytes of index layouts
  and the fault injection switches are collected in \<open>engine_env\<close>.
\<close>

section \<open>Requests and replies\<close>

datatype kvs_request =
    Get_global string
  | Put_global string string
  | Del_global string
  | Get_info string
  | Put_info string string
  | Del_info string
  | Create_index m0_uint128

datatype kvs_reply =
    Got string
  | Get_failed S3MotrKVSReaderOpState
  | Written
  | Created s3_motr_idx_layout
  | Write_failed S3MotrKVSWriterOpState

datatype waiting =
    Fetch_global | Load_info | Save_global | Object_index | Multipart_index | Version_index
  | Extended_index | Save_info | Remove_info | Remove_global | Cleanup_global

record engine_env =
  ee_lib :: jsoncpp
  ee_pad :: "string \<Rightarrow> bytes"
  ee_now :: string
  ee_uri_oid :: "string \<Rightarrow> m0_uint128"
  ee_bucket_metadata_corrupted :: bool
  ee_root_bucket_list_index_metadata_corrupted :: bool
  ee_kv_delete_failed_from_global_index :: bool

section \<open>The entry of the global bucket list\<close>

datatype S3GlobalBucketIndexMetadataState =
  G_empty | G_created | G_exists | G_present | G_missing | G_saved | G_deleted | G_failed | G_failed_to_launch

record S3GlobalBucketIndexMetadata =
  g_account_name :: string
  g_account_id :: string
  g_bucket_name :: string
  g_location_constraint :: string
  g_state :: S3GlobalBucketIndexMetadataState
  g_json_parsing_error :: bool

definition S3GlobalBucketIndexMetadata_init ::
  "bucket_request \<Rightarrow> string \<Rightarrow> string \<Rightarrow> string \<Rightarrow> S3GlobalBucketIndexMetadata" where
  "S3GlobalBucketIndexMetadata_init req str_bucket_name str_account_id str_account_name =
     \<lparr>g_account_name = (if str_account_name = [] then rq_account_name req else str_account_name),
      g_account_id = (if str_account_id = [] then rq_account_id req else str_account_id),
      g_bucket_name = (if str_bucket_name = [] then rq_bucket_name req else str_bucket_name),
      g_location_constraint = ''us-west-2'',
      g_state = (if str_account_id = [] then G_empty else G_present),
      g_json_parsing_error = False\<rparr>"

definition global_doc :: "S3GlobalBucketIndexMetadata \<Rightarrow> json" where
  "global_doc g =
     JObj (map_put ''location_constraint'' (JStr (g_location_constraint g))
       (map_put ''account_id'' (JStr (g_account_id g))
         (map_put ''account_name'' (JStr (g_account_name g)) [])))"

definition global_to_json :: "engine_env \<Rightarrow> S3GlobalBucketIndexMetadata \<Rightarrow> string" where
  "global_to_json env g = writer_write (ee_lib env) (global_doc g)"

definition global_from_json ::
  "engine_env \<Rightarrow> string \<Rightarrow> S3GlobalBucketIndexMetadata \<Rightarrow> (S3GlobalBucketIndexMetadata \<times> int) option" where
  "global_from_json env content g =
     (case reader_parse (ee_lib env) (c_str content) of
        None \<Rightarrow> Some (g, -1)
      | Some root \<Rightarrow>
          (if ee_root_bucket_list_index_metadata_corrupted env then Some (g, -1)
           else do {
             an \<leftarrow> json_string (ee_lib env) root ''account_name'';
             ai \<leftarrow> json_string (ee_lib env) root ''account_id'';
             lc \<leftarrow> json_string (ee_lib env) root ''location_constraint'';
             Some (g\<lparr>g_account_name := an, g_account_id := ai, g_location_constraint := lc\<rparr>, 0)
           }))"

text \<open>The flag tells which of the two handlers is called.\<close>

definition global_load_failed ::
  "S3MotrKVSReaderOpState \<Rightarrow> S3GlobalBucketIndexMetadata \<Rightarrow> S3GlobalBucketIndexMetadata \<times> bool" where
  "global_load_failed rs g =
     (g\<lparr>g_state :=
          (if g_json_parsing_error g then G_failed
           else if rs = R_missing then G_missing
           else if rs = R_failed_to_launch then G_failed_to_launch
           else G_failed)\<rparr>, False)"

definition global_load_successful ::
  "engine_env \<Rightarrow> string \<Rightarrow> S3GlobalBucketIndexMetadata \<Rightarrow> (S3GlobalBucketIndexMetadata \<times> bool) option" where
  "global_load_successful env content g = do {
     (g', rc) \<leftarrow> global_from_json env content g;
     Some (if rc \<noteq> 0 then global_load_failed R_present (g'\<lparr>g_json_parsing_error := True\<rparr>)
           else (g'\<lparr>g_state := G_present\<rparr>, True))
   }"

definition global_write_failed ::
  "S3MotrKVSWriterOpState \<Rightarrow> S3GlobalBucketIndexMetadata \<Rightarrow> S3GlobalBucketIndexMetadata" where
  "global_write_failed ws g =
     g\<lparr>g_state := (if ws = W_failed_to_launch then G_failed_to_launch else G_failed)\<rparr>"

text \<open>The three operations: the object and the request it sends.\<close>

definition global_load :: "S3GlobalBucketIndexMetadata \<Rightarrow> S3GlobalBucketIndexMetadata \<times> kvs_request" where
  "global_load g = (g\<lparr>g_state := G_missing\<rparr>, Get_global (g_bucket_name g))"

definition global_save :: "engine_env \<Rightarrow> S3GlobalBucketIndexMetadata \<Rightarrow> S3GlobalBucketIndexMetadata \<times> kvs_request" where
  "global_save env g =
     (let g' = g\<lparr>g_state := G_missing\<rparr> in (g', Put_global (g_bucket_name g') (global_to_json env g')))"

definition global_remove :: "S3GlobalBucketIndexMetadata \<Rightarrow> kvs_request" where
  "global_remove g = Del_global (g_bucket_name g)"

definition global_save_successful :: "S3GlobalBucketIndexMetadata \<Rightarrow> S3GlobalBucketIndexMetadata" where
  "global_save_successful g = g\<lparr>g_state := G_saved\<rparr>"

definition global_remove_successful :: "S3GlobalBucketIndexMetadata \<Rightarrow> S3GlobalBucketIndexMetadata" where
  "global_remove_successful g = g\<lparr>g_state := G_deleted\<rparr>"

declare global_load_def [simp] global_save_def [simp] global_remove_def [simp]
  global_save_successful_def [simp] global_remove_successful_def [simp]

section \<open>The engine\<close>

record S3BucketMetadataV1 =
  meta :: S3BucketMetadata
  global_bucket_index_metadata :: "S3GlobalBucketIndexMetadata option"
  salted_object_list_index_name :: string
  salted_multipart_list_index_name :: string
  salted_objects_version_list_index_name :: string
  extended_metadata_index_name :: string
  collision_attempt_count :: nat
  json_parsing_error :: bool
  should_cleanup_global_idx :: bool
  on_cleanup_state :: S3BucketMetadataState
  in_flight :: "(waiting \<times> kvs_request) option"
  reported :: "S3BucketMetadataState list"

definition MAX_COLLISION_RETRY_COUNT :: nat where "MAX_COLLISION_RETRY_COUNT = 20"

definition get_object_list_index_name :: "S3BucketMetadata \<Rightarrow> string" where
  "get_object_list_index_name b = ''BUCKET/'' @ bucket_name b"

definition get_multipart_index_name :: "S3BucketMetadata \<Rightarrow> string" where
  "get_multipart_index_name b = ''BUCKET/'' @ bucket_name b @ ''/'' @ ''Multipart''"

definition get_version_list_index_name :: "S3BucketMetadata \<Rightarrow> string" where
  "get_version_list_index_name b = ''BUCKET/'' @ bucket_name b @ ''/objects/versions''"

definition get_extended_metadata_index_name :: "S3BucketMetadata \<Rightarrow> string" where
  "get_extended_metadata_index_name b = ''BUCKET/'' @ bucket_name b @ ''/'' @ ''ExtendedMetadata''"

definition get_bucket_metadata_index_key_name :: "S3BucketMetadata \<Rightarrow> string option" where
  "get_bucket_metadata_index_key_name b =
     (if account_id b = [] then None else Some (account_id b @ ''/'' @ bucket_name b))"

definition S3BucketMetadataV1_init :: "S3BucketMetadata \<Rightarrow> S3BucketMetadataV1" where
  "S3BucketMetadataV1_init tmplt =
     \<lparr>meta = tmplt, global_bucket_index_metadata = None,
      salted_object_list_index_name = get_object_list_index_name tmplt,
      salted_multipart_list_index_name = get_multipart_index_name tmplt,
      salted_objects_version_list_index_name = get_version_list_index_name tmplt,
      extended_metadata_index_name = get_extended_metadata_index_name tmplt,
      collision_attempt_count = 0, json_parsing_error = False, should_cleanup_global_idx = False,
      on_cleanup_state = Bempty, in_flight = None, reported = []\<rparr>"

definition collision_salt :: string where "collision_salt = ''index_salt_''"

definition request_kvs :: "waiting \<Rightarrow> kvs_request \<Rightarrow> S3BucketMetadataV1 \<Rightarrow> S3BucketMetadataV1" where
  "request_kvs w r e = e\<lparr>in_flight := Some (w, r)\<rparr>"

text \<open>Setting the state and calling back.\<close>

definition report_state :: "S3BucketMetadataState \<Rightarrow> S3BucketMetadataV1 \<Rightarrow> S3BucketMetadataV1" where
  "report_state st e =
     e\<lparr>meta := (meta e)\<lparr>bm_state := st\<rparr>, in_flight := None, reported := reported e @ [st]\<rparr>"

definition get_global_bucket_index_metadata ::
  "S3BucketMetadataV1 \<Rightarrow> S3BucketMetadataV1 \<times> S3GlobalBucketIndexMetadata" where
  "get_global_bucket_index_metadata e =
     (case global_bucket_index_metadata e of
        Some g \<Rightarrow> (e, g)
      | None \<Rightarrow>
          (let g = S3GlobalBucketIndexMetadata_init (bm_request (meta e)) (bucket_name (meta e))
                     (account_id (meta e)) (account_name (meta e))
           in (e\<lparr>global_bucket_index_metadata := Some g\<rparr>, g)))"

definition set_global :: "S3GlobalBucketIndexMetadata \<Rightarrow> S3BucketMetadataV1 \<Rightarrow> S3BucketMetadataV1" where
  "set_global g e = e\<lparr>global_bucket_index_metadata := Some g\<rparr>"

subsection \<open>Load\<close>

definition V1_load :: "S3BucketMetadata \<Rightarrow> S3BucketMetadataV1 \<Rightarrow> S3BucketMetadataV1" where
  "V1_load src e0 =
     (let (e, g) = get_global_bucket_index_metadata (e0\<lparr>meta := src\<rparr>);
          (g', req) = global_load g
      in request_kvs Fetch_global req (set_global g' e))"

definition load_bucket_info :: "S3BucketMetadataV1 \<Rightarrow> S3BucketMetadataV1 option" where
  "load_bucket_info e = do {
     key \<leftarrow> get_bucket_metadata_index_key_name (meta e);
     Some (request_kvs Load_info (Get_info key) e)
   }"

definition fetch_global_bucket_account_id_info_success ::
  "S3GlobalBucketIndexMetadata \<Rightarrow> S3BucketMetadataV1 \<Rightarrow> S3BucketMetadataV1 option" where
  "fetch_global_bucket_account_id_info_success g e =
     load_bucket_info (e\<lparr>meta := (meta e)\<lparr>account_id := g_account_id g, account_name := g_account_name g\<rparr>\<rparr>)"

definition fetch_global_bucket_account_id_info_failed ::
  "S3GlobalBucketIndexMetadata \<Rightarrow> S3BucketMetadataV1 \<Rightarrow> S3BucketMetadataV1" where
  "fetch_global_bucket_account_id_info_failed g e =
     report_state
       (if g_state g = G_missing then Bmissing
        else if g_state g = G_failed_to_launch then Bfailed_to_launch else Bfailed) e"

definition load_bucket_info_failed :: "S3MotrKVSReaderOpState \<Rightarrow> S3BucketMetadataV1 \<Rightarrow> S3BucketMetadataV1" where
  "load_bucket_info_failed rs e =
     report_state
       (if json_parsing_error e then Bfailed
        else if rs = R_missing then Bmissing
        else if rs = R_failed_to_launch then Bfailed_to_launch else Bfailed) e"

definition load_bucket_info_successful ::
  "engine_env \<Rightarrow> string \<Rightarrow> S3BucketMetadataV1 \<Rightarrow> S3BucketMetadataV1 option" where
  "load_bucket_info_successful env val e = do {
     (b, rc) \<leftarrow> from_json (ee_lib env) (ee_bucket_metadata_corrupted env) val (meta e);
     Some (if rc \<noteq> 0 then load_bucket_info_failed R_present (e\<lparr>meta := b, json_parsing_error := True\<rparr>)
           else report_state Bpresent (e\<lparr>meta := b\<rparr>))
   }"

subsection \<open>Save\<close>

definition create_object_list_index :: "engine_env \<Rightarrow> S3BucketMetadataV1 \<Rightarrow> S3BucketMetadataV1" where
  "create_object_list_index env e =
     (let ufid = ee_uri_oid env (salted_object_list_index_name e);
          b = meta e
      in request_kvs Object_index (Create_index ufid)
           (e\<lparr>meta := b\<lparr>object_list_index_layout := (object_list_index_layout b)\<lparr>oid := ufid\<rparr>\<rparr>\<rparr>))"

definition create_multipart_list_index :: "engine_env \<Rightarrow> S3BucketMetadataV1 \<Rightarrow> S3BucketMetadataV1" where
  "create_multipart_list_index env e =
     (let ufid = ee_uri_oid env (salted_multipart_list_index_name e);
          b = meta e
      in request_kvs Multipart_index (Create_index ufid)
           (e\<lparr>meta := b\<lparr>multipart_index_layout := (multipart_index_layout b)\<lparr>oid := ufid\<rparr>\<rparr>\<rparr>))"

definition create_objects_version_list_index :: "engine_env \<Rightarrow> S3BucketMetadataV1 \<Rightarrow> S3BucketMetadataV1" where
  "create_objects_version_list_index env e =
     (let ufid = ee_uri_oid env (salted_objects_version_list_index_name e);
          b = meta e
      in request_kvs Version_index (Create_index ufid)
           (e\<lparr>meta := b\<lparr>objects_version_list_index_layout := (objects_version_list_index_layout b)\<lparr>oid := ufid\<rparr>\<rparr>\<rparr>))"

definition create_extended_metadata_index :: "engine_env \<Rightarrow> S3BucketMetadataV1 \<Rightarrow> S3BucketMetadataV1" where
  "create_extended_metadata_index env e =
     (let ufid = ee_uri_oid env (extended_metadata_index_name e);
          b = meta e
      in request_kvs Extended_index (Create_index ufid)
           (e\<lparr>meta := b\<lparr>extended_metadata_index_layout := (extended_metadata_index_layout b)\<lparr>oid := ufid\<rparr>\<rparr>\<rparr>))"

definition save_bucket_info :: "engine_env \<Rightarrow> bool \<Rightarrow> S3BucketMetadataV1 \<Rightarrow> S3BucketMetadataV1 option" where
  "save_bucket_info env clean_glob_on_err e =
     (let b = meta e in
      if account_id b = [] \<or> user_name b = [] \<or> user_id b = [] \<or> account_name b = [] then None
      else do {
        let m = map_put ''Owner-Account-id'' (account_id b)
                  (map_put ''Owner-Account'' (account_name b)
                    (map_put ''Owner-User-id'' (user_id b)
                      (map_put ''Owner-User'' (user_name b) (system_defined_attribute b))));
        let b1 = b\<lparr>system_defined_attribute := m\<rparr>;
        key \<leftarrow> get_bucket_metadata_index_key_name b1;
        let (b2, txt) = to_json (ee_lib env) (ee_pad env) (ee_now env) b1;
        Some (request_kvs Save_info (Put_info key txt)
          (e\<lparr>meta := b2, should_cleanup_global_idx := clean_glob_on_err\<rparr>))
      })"

definition V1_save :: "engine_env \<Rightarrow> S3BucketMetadata \<Rightarrow> S3BucketMetadataV1 \<Rightarrow> S3BucketMetadataV1 option" where
  "V1_save env src e0 =
     (let e1 = e0\<lparr>meta := src\<rparr> in
      if bm_state (meta e1) \<noteq> Bmissing then None
      else
        (let (e, g) = get_global_bucket_index_metadata e1 in
         if g_account_id g = [] \<or> g_account_name g = [] then None
         else
           (let (m, location) = map_index [] (system_defined_attribute (meta e)) ''LocationConstraint'';
                (g', req) = global_save env (g\<lparr>g_location_constraint := location\<rparr>)
            in Some (request_kvs Save_global req
                 (set_global g' (e\<lparr>meta := (meta e)\<lparr>system_defined_attribute := m\<rparr>\<rparr>))))))"

definition save_global_bucket_account_id_info_successful :: "engine_env \<Rightarrow> S3BucketMetadataV1 \<Rightarrow> S3BucketMetadataV1" where
  "save_global_bucket_account_id_info_successful env e =
     create_object_list_index env (e\<lparr>collision_attempt_count := 0\<rparr>)"

definition save_global_bucket_account_id_info_failed ::
  "S3GlobalBucketIndexMetadata \<Rightarrow> S3BucketMetadataV1 \<Rightarrow> S3BucketMetadataV1" where
  "save_global_bucket_account_id_info_failed g e =
     report_state (if g_state g = G_failed_to_launch then Bfailed_to_launch else Bfailed) e"

text \<open>Undo the global entry, then report the state that led here.\<close>

definition cleanup_on_create_err_global_bucket_account_id_info ::
  "S3MotrKVSWriterOpState \<Rightarrow> S3BucketMetadataV1 \<Rightarrow> S3BucketMetadataV1" where
  "cleanup_on_create_err_global_bucket_account_id_info op_state e0 =
     (let e1 = e0\<lparr>on_cleanup_state := (if op_state = W_failed_to_launch then Bfailed_to_launch else Bfailed)\<rparr>;
          (e, g) = get_global_bucket_index_metadata e1
      in request_kvs Cleanup_global (global_remove g) e)"

definition cleanup_fini_cb :: "S3BucketMetadataV1 \<Rightarrow> S3BucketMetadataV1" where
  "cleanup_fini_cb e = report_state (on_cleanup_state e) e"

text \<open>
  \<open>set_name\<close> stores the new salted name and \<open>cb\<close> issues the request again.  When the
  retries are used up the failure is reported directly.
\<close>

definition handle_collision ::
  "string \<Rightarrow> (string \<Rightarrow> S3BucketMetadataV1 \<Rightarrow> S3BucketMetadataV1)
   \<Rightarrow> (S3BucketMetadataV1 \<Rightarrow> S3BucketMetadataV1) \<Rightarrow> S3BucketMetadataV1 \<Rightarrow> S3BucketMetadataV1" where
  "handle_collision base_index_name set_name cb e =
     (if collision_attempt_count e < MAX_COLLISION_RETRY_COUNT
      then cb ((set_name (base_index_name @ collision_salt @ to_dec (collision_attempt_count e)) e)
                 \<lparr>collision_attempt_count := collision_attempt_count e + 1\<rparr>)
      else report_state Bfailed e)"

definition create_object_list_index_successful ::
  "engine_env \<Rightarrow> s3_motr_idx_layout \<Rightarrow> S3BucketMetadataV1 \<Rightarrow> S3BucketMetadataV1" where
  "create_object_list_index_successful env lo e =
     create_multipart_list_index env
       (e\<lparr>collision_attempt_count := 0, meta := (meta e)\<lparr>object_list_index_layout := lo\<rparr>\<rparr>)"

definition create_object_list_index_failed ::
  "engine_env \<Rightarrow> S3MotrKVSWriterOpState \<Rightarrow> S3BucketMetadataV1 \<Rightarrow> S3BucketMetadataV1" where
  "create_object_list_index_failed env ws e =
     (if ws = W_exists
      then handle_collision (get_object_list_index_name (meta e))
             (\<lambda>n e. e\<lparr>salted_object_list_index_name := n\<rparr>) (create_object_list_index env) e
      else cleanup_on_create_err_global_bucket_account_id_info ws e)"

definition create_multipart_list_index_successful ::
  "engine_env \<Rightarrow> s3_motr_idx_layout \<Rightarrow> S3BucketMetadataV1 \<Rightarrow> S3BucketMetadataV1" where
  "create_multipart_list_index_successful env lo e =
     create_objects_version_list_index env (e\<lparr>meta := (meta e)\<lparr>multipart_index_layout := lo\<rparr>\<rparr>)"

definition create_multipart_list_index_failed ::
  "engine_env \<Rightarrow> S3MotrKVSWriterOpState \<Rightarrow> S3BucketMetadataV1 \<Rightarrow> S3BucketMetadataV1" where
  "create_multipart_list_index_failed env ws e =
     (if ws = W_exists
      then handle_collision (get_multipart_index_name (meta e))
             (\<lambda>n e. e\<lparr>salted_multipart_list_index_name := n\<rparr>) (create_multipart_list_index env) e
      else cleanup_on_create_err_global_bucket_account_id_info ws e)"

definition create_objects_version_list_index_successful ::
  "engine_env \<Rightarrow> s3_motr_idx_layout \<Rightarrow> S3BucketMetadataV1 \<Rightarrow> S3BucketMetadataV1" where
  "create_objects_version_list_index_successful env lo e =
     create_extended_metadata_index env (e\<lparr>meta := (meta e)\<lparr>objects_version_list_index_layout := lo\<rparr>\<rparr>)"

definition create_objects_version_list_index_failed ::
  "engine_env \<Rightarrow> S3MotrKVSWriterOpState \<Rightarrow> S3BucketMetadataV1 \<Rightarrow> S3BucketMetadataV1" where
  "create_objects_version_list_index_failed env ws e =
     (if ws = W_exists
      then handle_collision (get_version_list_index_name (meta e))
             (\<lambda>n e. e\<lparr>salted_objects_version_list_index_name := n\<rparr>) (create_objects_version_list_index env) e
      else cleanup_on_create_err_global_bucket_account_id_info ws e)"

definition create_extended_metadata_index_successful ::
  "engine_env \<Rightarrow> s3_motr_idx_layout \<Rightarrow> S3BucketMetadataV1 \<Rightarrow> S3BucketMetadataV1 option" where
  "create_extended_metadata_index_successful env lo e =
     save_bucket_info env True (e\<lparr>meta := (meta e)\<lparr>extended_metadata_index_layout := lo\<rparr>\<rparr>)"

definition create_extended_metadata_index_failed :: "S3MotrKVSWriterOpState \<Rightarrow> S3BucketMetadataV1 \<Rightarrow> S3BucketMetadataV1" where
  "create_extended_metadata_index_failed ws e = cleanup_on_create_err_global_bucket_account_id_info ws e"

definition save_bucket_info_failed :: "S3MotrKVSWriterOpState \<Rightarrow> S3BucketMetadataV1 \<Rightarrow> S3BucketMetadataV1" where
  "save_bucket_info_failed ws e =
     (if \<not> should_cleanup_global_idx e
      then report_state (if ws = W_failed_to_launch then Bfailed_to_launch else Bfailed) e
      else cleanup_on_create_err_global_bucket_account_id_info ws e)"

subsection \<open>Update and remove\<close>

definition V1_update :: "engine_env \<Rightarrow> S3BucketMetadata \<Rightarrow> S3BucketMetadataV1 \<Rightarrow> S3BucketMetadataV1 option" where
  "V1_update env src e =
     (if bm_state src \<noteq> Bpresent then None else save_bucket_info env False (e\<lparr>meta := src\<rparr>))"

definition V1_remove :: "S3BucketMetadataV1 \<Rightarrow> S3BucketMetadataV1 option" where
  "V1_remove e =
     (if bm_state (meta e) \<noteq> Bpresent then None
      else do {
        key \<leftarrow> get_bucket_metadata_index_key_name (meta e);
        Some (request_kvs Remove_info (Del_info key) e)
      })"

definition remove_bucket_info_failed :: "S3MotrKVSWriterOpState \<Rightarrow> S3BucketMetadataV1 \<Rightarrow> S3BucketMetadataV1" where
  "remove_bucket_info_failed ws e =
     report_state (if ws = W_failed_to_launch then Bfailed_to_launch else Bfailed) e"

definition remove_bucket_info_successful :: "engine_env \<Rightarrow> S3BucketMetadataV1 \<Rightarrow> S3BucketMetadataV1" where
  "remove_bucket_info_successful env e =
     (if ee_kv_delete_failed_from_global_index env then remove_bucket_info_failed W_deleted e
      else
        (let (e', g) = get_global_bucket_index_metadata e
         in request_kvs Remove_global (global_remove g) e'))"

definition remove_global_bucket_account_id_info_failed ::
  "S3GlobalBucketIndexMetadata \<Rightarrow> S3BucketMetadataV1 \<Rightarrow> S3BucketMetadataV1" where
  "remove_global_bucket_account_id_info_failed g e =
     report_state (if g_state g = G_failed_to_launch then Bfailed_to_launch else Bfailed) e"

section \<open>Delivery of a reply\<close>

definition with_global ::
  "S3BucketMetadataV1 \<Rightarrow> (S3GlobalBucketIndexMetadata \<Rightarrow> S3BucketMetadataV1 option) \<Rightarrow> S3BucketMetadataV1 option" where
  "with_global e f = (case global_bucket_index_metadata e of None \<Rightarrow> None | Some g \<Rightarrow> f g)"

definition deliver_read :: "engine_env \<Rightarrow> waiting \<Rightarrow> kvs_reply \<Rightarrow> S3BucketMetadataV1 \<Rightarrow> S3BucketMetadataV1 option" where
  "deliver_read env w r e =
     (case (w, r) of
        (Fetch_global, Got val) \<Rightarrow>
          with_global e (\<lambda>g. do {
            (g', good) \<leftarrow> global_load_successful env val g;
            (if good then fetch_global_bucket_account_id_info_success g' (set_global g' e)
             else Some (fetch_global_bucket_account_id_info_failed g' (set_global g' e)))
          })
      | (Fetch_global, Get_failed rs) \<Rightarrow>
          with_global e (\<lambda>g. let g' = fst (global_load_failed rs g)
            in Some (fetch_global_bucket_account_id_info_failed g' (set_global g' e)))
      | (Load_info, Got val) \<Rightarrow> load_bucket_info_successful env val e
      | (Load_info, Get_failed rs) \<Rightarrow> Some (load_bucket_info_failed rs e)
      | _ \<Rightarrow> None)"

definition deliver_write :: "engine_env \<Rightarrow> waiting \<Rightarrow> kvs_reply \<Rightarrow> S3BucketMetadataV1 \<Rightarrow> S3BucketMetadataV1 option" where
  "deliver_write env w r e =
     (case (w, r) of
        (Save_global, Written) \<Rightarrow>
          with_global e (\<lambda>g. Some (save_global_bucket_account_id_info_successful env (set_global (global_save_successful g) e)))
      | (Save_global, Write_failed ws) \<Rightarrow>
          with_global e (\<lambda>g. let g' = global_write_failed ws g
            in Some (save_global_bucket_account_id_info_failed g' (set_global g' e)))
      | (Object_index, Created lo) \<Rightarrow> Some (create_object_list_index_successful env lo e)
      | (Object_index, Write_failed ws) \<Rightarrow> Some (create_object_list_index_failed env ws e)
      | (Multipart_index, Created lo) \<Rightarrow> Some (create_multipart_list_index_successful env lo e)
      | (Multipart_index, Write_failed ws) \<Rightarrow> Some (create_multipart_list_index_failed env ws e)
      | (Version_index, Created lo) \<Rightarrow> Some (create_objects_version_list_index_successful env lo e)
      | (Version_index, Write_failed ws) \<Rightarrow> Some (create_objects_version_list_index_failed env ws e)
      | (Extended_index, Created lo) \<Rightarrow> create_extended_metadata_index_successful env lo e
      | (Extended_index, Write_failed ws) \<Rightarrow> Some (create_extended_metadata_index_failed ws e)
      | (Save_info, Written) \<Rightarrow> Some (report_state Bpresent e)
      | (Save_info, Write_failed ws) \<Rightarrow> Some (save_bucket_info_failed ws e)
      | (Remove_info, Written) \<Rightarrow> Some (remove_bucket_info_successful env e)
      | (Remove_info, Write_failed ws) \<Rightarrow> Some (remove_bucket_info_failed ws e)
      | (Remove_global, Written) \<Rightarrow> with_global e (\<lambda>g. Some (report_state Bmissing (set_global (global_remove_successful g) e)))
      | (Remove_global, Write_failed ws) \<Rightarrow>
          with_global e (\<lambda>g. let g' = global_write_failed ws g
            in Some (remove_global_bucket_account_id_info_failed g' (set_global g' e)))
      | (Cleanup_global, Written) \<Rightarrow> with_global e (\<lambda>g. Some (cleanup_fini_cb (set_global (global_remove_successful g) e)))
      | (Cleanup_global, Write_failed ws) \<Rightarrow>
          with_global e (\<lambda>g. Some (cleanup_fini_cb (set_global (global_write_failed ws g) e)))
      | _ \<Rightarrow> None)"

definition deliver :: "engine_env \<Rightarrow> kvs_reply \<Rightarrow> S3BucketMetadataV1 \<Rightarrow> S3BucketMetadataV1 option" where
  "deliver env r e =
     (case in_flight e of
        None \<Rightarrow> None
      | Some (w, req) \<Rightarrow>
          (if w = Fetch_global \<or> w = Load_info then deliver_read env w r e else deliver_write env w r e))"

section \<open>Running against a store\<close>

text \<open>
  The store as the engine sees it: two indices of key-value pairs and the identifiers of the
  indices that exist.  Motr performs a request, or reports a failure and leaves the store as
  it was; \<open>lay\<close> is the layout it gives to a new index.
\<close>

record kvs_store =
  global_index :: "(string, string) std_map"
  info_index :: "(string, string) std_map"
  indices :: "m0_uint128 list"

datatype outcome = Performs | Fails | Fails_to_launch

definition read_reply :: "outcome \<Rightarrow> string option \<Rightarrow> kvs_reply" where
  "read_reply out v =
     (case out of
        Performs \<Rightarrow> (case v of None \<Rightarrow> Get_failed R_missing | Some x \<Rightarrow> Got x)
      | Fails \<Rightarrow> Get_failed R_failed
      | Fails_to_launch \<Rightarrow> Get_failed R_failed_to_launch)"

definition write_failure :: "outcome \<Rightarrow> kvs_reply" where
  "write_failure out = Write_failed (if out = Fails_to_launch then W_failed_to_launch else W_failed)"

fun kvs_apply :: "(m0_uint128 \<Rightarrow> s3_motr_idx_layout) \<Rightarrow> kvs_request \<Rightarrow> outcome \<Rightarrow> kvs_store \<Rightarrow> kvs_reply \<times> kvs_store" where
  "kvs_apply lay (Get_global k) out st = (read_reply out (map_get (global_index st) k), st)"
| "kvs_apply lay (Get_info k) out st = (read_reply out (map_get (info_index st) k), st)"
| "kvs_apply lay (Put_global k v) out st =
     (if out = Performs then (Written, st\<lparr>global_index := map_put k v (global_index st)\<rparr>) else (write_failure out, st))"
| "kvs_apply lay (Put_info k v) out st =
     (if out = Performs then (Written, st\<lparr>info_index := map_put k v (info_index st)\<rparr>) else (write_failure out, st))"
| "kvs_apply lay (Del_global k) out st =
     (if out \<noteq> Performs then (write_failure out, st)
      else if map_get (global_index st) k = None then (Write_failed W_missing, st)
      else (Written, st\<lparr>global_index := map_erase k (global_index st)\<rparr>))"
| "kvs_apply lay (Del_info k) out st =
     (if out \<noteq> Performs then (write_failure out, st)
      else if map_get (info_index st) k = None then (Write_failed W_missing, st)
      else (Written, st\<lparr>info_index := map_erase k (info_index st)\<rparr>))"
| "kvs_apply lay (Create_index i) out st =
     (if out \<noteq> Performs then (write_failure out, st)
      else if i \<in> set (indices st) then (Write_failed W_exists, st)
      else (Created (lay i), st\<lparr>indices := i # indices st\<rparr>))"

fun engine_run ::
  "engine_env \<Rightarrow> (m0_uint128 \<Rightarrow> s3_motr_idx_layout) \<Rightarrow> outcome list \<Rightarrow> S3BucketMetadataV1 \<times> kvs_store
   \<Rightarrow> (S3BucketMetadataV1 \<times> kvs_store) option" where
  "engine_run env lay [] w = Some w"
| "engine_run env lay (out # outs) (e, st) =
     (case in_flight e of
        None \<Rightarrow> Some (e, st)
      | Some (w, req) \<Rightarrow>
          (let (r, st') = kvs_apply lay req out st in
           case deliver env r e of None \<Rightarrow> None | Some e' \<Rightarrow> engine_run env lay outs (e', st')))"

section \<open>Every operation ends and reports once\<close>

fun waiting_rank :: "waiting \<Rightarrow> nat" where
  "waiting_rank Fetch_global = 2"
| "waiting_rank Load_info = 1"
| "waiting_rank Save_global = 7"
| "waiting_rank Object_index = 6"
| "waiting_rank Multipart_index = 5"
| "waiting_rank Version_index = 4"
| "waiting_rank Extended_index = 3"
| "waiting_rank Save_info = 2"
| "waiting_rank Remove_info = 2"
| "waiting_rank Remove_global = 1"
| "waiting_rank Cleanup_global = 1"

text \<open>An upper bound on the replies an engine still waits for.\<close>

definition replies_left :: "S3BucketMetadataV1 \<Rightarrow> nat" where
  "replies_left e =
     (case in_flight e of
        None \<Rightarrow> 0
      | Some (w, req) \<Rightarrow> 21 * waiting_rank w + (MAX_COLLISION_RETRY_COUNT - collision_attempt_count e))"

definition engine_busy :: "S3BucketMetadataV1 \<Rightarrow> bool" where
  "engine_busy e \<longleftrightarrow> in_flight e \<noteq> None \<and> reported e = []
     \<and> collision_attempt_count e \<le> MAX_COLLISION_RETRY_COUNT"

definition engine_done :: "S3BucketMetadataV1 \<Rightarrow> bool" where
  "engine_done e \<longleftrightarrow> in_flight e = None \<and> length (reported e) = 1"

lemmas engine_defs = request_kvs_def report_state_def set_global_def with_global_def
  create_object_list_index_def create_multipart_list_index_def create_objects_version_list_index_def
  create_extended_metadata_index_def save_global_bucket_account_id_info_successful_def
  save_global_bucket_account_id_info_failed_def cleanup_on_create_err_global_bucket_account_id_info_def
  cleanup_fini_cb_def handle_collision_def create_object_list_index_successful_def
  create_object_list_index_failed_def create_multipart_list_index_successful_def
  create_multipart_list_index_failed_def create_objects_version_list_index_successful_def
  create_objects_version_list_index_failed_def create_extended_metadata_index_failed_def
  save_bucket_info_failed_def remove_bucket_info_failed_def remove_bucket_info_successful_def
  remove_global_bucket_account_id_info_failed_def load_bucket_info_failed_def
  fetch_global_bucket_account_id_info_failed_def get_global_bucket_index_metadata_def

lemma save_bucket_info_request:
  "save_bucket_info env cl e = Some e' \<Longrightarrow>
   (\<exists>req. in_flight e' = Some (Save_info, req)) \<and> reported e' = reported e
     \<and> collision_attempt_count e' = collision_attempt_count e"
  by (auto simp: save_bucket_info_def engine_defs Let_def case_prod_beta bind_eq_Some_conv split: if_splits)

lemma load_bucket_info_request:
  "load_bucket_info e = Some e' \<Longrightarrow>
   (\<exists>req. in_flight e' = Some (Load_info, req)) \<and> reported e' = reported e
     \<and> collision_attempt_count e' = collision_attempt_count e"
  by (auto simp: load_bucket_info_def engine_defs bind_eq_Some_conv)

lemma waiting_rank_pos [simp]: "0 < waiting_rank w"
  by (cases w) simp_all

definition progress :: "S3BucketMetadataV1 \<Rightarrow> S3BucketMetadataV1 \<Rightarrow> bool" where
  "progress e e' \<longleftrightarrow> engine_done e' \<or> (engine_busy e' \<and> replies_left e' < replies_left e)"

lemmas progress_defs = progress_def engine_done_def engine_busy_def replies_left_def MAX_COLLISION_RETRY_COUNT_def

lemma report_progress: "engine_busy e \<Longrightarrow> progress e (report_state st e)"
  by (simp add: progress_defs report_state_def)

lemma set_global_basic [simp]:
  "in_flight (set_global g e) = in_flight e" "reported (set_global g e) = reported e"
  "collision_attempt_count (set_global g e) = collision_attempt_count e" "meta (set_global g e) = meta e"
  "global_bucket_index_metadata (set_global g e) = Some g"
  "should_cleanup_global_idx (set_global g e) = should_cleanup_global_idx e"
  "on_cleanup_state (set_global g e) = on_cleanup_state e"
  by (simp_all add: set_global_def)

lemma progress_cong:
  "in_flight e = in_flight e1 \<Longrightarrow> collision_attempt_count e = collision_attempt_count e1 \<Longrightarrow>
   progress e e' = progress e1 e'"
  by (auto simp: progress_def replies_left_def split: option.splits)

lemma engine_busy_set_global [simp]: "engine_busy (set_global g e) = engine_busy e"
  by (simp add: engine_busy_def)

text \<open>A new request of a lower rank is progress, and so is a repeated one with a higher count.\<close>

lemma request_progress:
  assumes "engine_busy e" "in_flight e = Some (w, req)" "in_flight e' = Some (w', req')" "reported e' = reported e"
    "waiting_rank w' < waiting_rank w" "collision_attempt_count e' \<le> MAX_COLLISION_RETRY_COUNT"
  shows "progress e e'"
  using assms by (auto simp: progress_defs)

lemma cleanup_basic [simp]:
  "in_flight (cleanup_on_create_err_global_bucket_account_id_info ws e) =
     Some (Cleanup_global, Del_global (g_bucket_name (snd (get_global_bucket_index_metadata e))))"
  "reported (cleanup_on_create_err_global_bucket_account_id_info ws e) = reported e"
  "collision_attempt_count (cleanup_on_create_err_global_bucket_account_id_info ws e) = collision_attempt_count e"
  by (auto simp: cleanup_on_create_err_global_bucket_account_id_info_def request_kvs_def
      get_global_bucket_index_metadata_def Let_def split: option.splits)

lemma cleanup_progress:
  "engine_busy e \<Longrightarrow> in_flight e = Some (w, req) \<Longrightarrow> 1 < waiting_rank w \<Longrightarrow>
   progress e (cleanup_on_create_err_global_bucket_account_id_info ws e)"
  by (rule request_progress [where w = w and w' = Cleanup_global]) (auto simp: engine_busy_def)

lemma create_basic [simp]:
  "in_flight (create_object_list_index env e) = Some (Object_index, Create_index (ee_uri_oid env (salted_object_list_index_name e)))"
  "in_flight (create_multipart_list_index env e) = Some (Multipart_index, Create_index (ee_uri_oid env (salted_multipart_list_index_name e)))"
  "in_flight (create_objects_version_list_index env e) =
     Some (Version_index, Create_index (ee_uri_oid env (salted_objects_version_list_index_name e)))"
  "in_flight (create_extended_metadata_index env e) = Some (Extended_index, Create_index (ee_uri_oid env (extended_metadata_index_name e)))"
  "reported (create_object_list_index env e) = reported e" "reported (create_multipart_list_index env e) = reported e"
  "reported (create_objects_version_list_index env e) = reported e" "reported (create_extended_metadata_index env e) = reported e"
  "collision_attempt_count (create_object_list_index env e) = collision_attempt_count e"
  "collision_attempt_count (create_multipart_list_index env e) = collision_attempt_count e"
  "collision_attempt_count (create_objects_version_list_index env e) = collision_attempt_count e"
  "collision_attempt_count (create_extended_metadata_index env e) = collision_attempt_count e"
  by (simp_all add: create_object_list_index_def create_multipart_list_index_def
      create_objects_version_list_index_def create_extended_metadata_index_def request_kvs_def Let_def)

lemma collision_progress:
  assumes "engine_busy e" "in_flight e = Some (w, req)"
    and cb: "\<And>e. \<exists>r. in_flight (cb e) = Some (w, r)" "\<And>e. reported (cb e) = reported e"
      "\<And>e. collision_attempt_count (cb e) = collision_attempt_count e"
    and nm: "\<And>n e. reported (set_name n e) = reported e"
  shows "progress e (handle_collision base set_name cb e)"
proof (cases "collision_attempt_count e < MAX_COLLISION_RETRY_COUNT")
  case True
  let ?e = "(set_name (base @ collision_salt @ to_dec (collision_attempt_count e)) e)
    \<lparr>collision_attempt_count := collision_attempt_count e + 1\<rparr>"
  obtain r where "in_flight (cb ?e) = Some (w, r)" using cb(1) by blast
  with True assms show ?thesis by (simp add: handle_collision_def progress_defs)
next
  case False
  with report_progress [OF assms(1), of Bfailed] show ?thesis by (simp add: handle_collision_def)
qed

lemma index_failed_progress:
  assumes "engine_busy e"
  shows "in_flight e = Some (Object_index, req) \<Longrightarrow> progress e (create_object_list_index_failed env ws e)"
    "in_flight e = Some (Multipart_index, req) \<Longrightarrow> progress e (create_multipart_list_index_failed env ws e)"
    "in_flight e = Some (Version_index, req) \<Longrightarrow> progress e (create_objects_version_list_index_failed env ws e)"
  using assms
  by (auto simp: create_object_list_index_failed_def create_multipart_list_index_failed_def
      create_objects_version_list_index_failed_def intro!: collision_progress intro: cleanup_progress)

lemma save_info_failed_progress:
  "engine_busy e \<Longrightarrow> in_flight e = Some (Save_info, req) \<Longrightarrow> progress e (save_bucket_info_failed ws e)"
  by (auto simp: save_bucket_info_failed_def intro: report_progress cleanup_progress)

lemma remove_info_progress:
  assumes "engine_busy e" "in_flight e = Some (Remove_info, req)"
  shows "progress e (remove_bucket_info_successful env e)"
proof (cases "ee_kv_delete_failed_from_global_index env")
  case True
  with assms show ?thesis by (simp add: remove_bucket_info_successful_def remove_bucket_info_failed_def report_progress)
next
  case False
  have "progress e (request_kvs Remove_global q (fst (get_global_bucket_index_metadata e)))" for q
    using assms
    by (auto simp: get_global_bucket_index_metadata_def request_kvs_def progress_defs Let_def split: option.split)
  with False show ?thesis by (simp add: remove_bucket_info_successful_def case_prod_beta)
qed

lemma deliver_write_progress:
  assumes busy: "engine_busy e" and w: "in_flight e = Some (w, req)" and res: "deliver_write env w r e = Some e'"
  shows "progress e e'"
proof -
  have glob: "progress e (report_state st (set_global g e))" for st g
    using report_progress [of "set_global g e" st] busy progress_cong [of e "set_global g e"] by simp
  have nxt: "progress e e1" if "in_flight e1 = Some (w', q)" "reported e1 = []" "waiting_rank w' < waiting_rank w"
      "collision_attempt_count e1 \<le> MAX_COLLISION_RETRY_COUNT" for e1 w' q
    using request_progress [OF busy w that(1) _ that(3,4)] that(2) busy by (simp add: engine_busy_def)
  have counts: "reported e = []" "collision_attempt_count e \<le> MAX_COLLISION_RETRY_COUNT"
    using busy by (simp_all add: engine_busy_def)
  show ?thesis
  proof (cases w)
    case Extended_index
    with res counts show ?thesis
      by (cases r) (auto simp: deliver_write_def create_extended_metadata_index_successful_def
          create_extended_metadata_index_failed_def intro: nxt cleanup_progress [OF busy w]
          dest!: save_bucket_info_request)
  next
    case Object_index
    with res counts w show ?thesis
      by (cases r) (auto simp: deliver_write_def create_object_list_index_successful_def
          intro: nxt index_failed_progress [OF busy])
  next
    case Multipart_index
    with res counts w show ?thesis
      by (cases r) (auto simp: deliver_write_def create_multipart_list_index_successful_def
          intro: nxt index_failed_progress [OF busy])
  next
    case Version_index
    with res counts w show ?thesis
      by (cases r) (auto simp: deliver_write_def create_objects_version_list_index_successful_def
          intro: nxt index_failed_progress [OF busy])
  next
    case Save_global
    with res counts show ?thesis
      by (cases r) (auto simp: deliver_write_def with_global_def save_global_bucket_account_id_info_successful_def
          save_global_bucket_account_id_info_failed_def Let_def intro: nxt glob split: option.splits)
  next
    case Save_info
    with res w show ?thesis
      by (cases r) (auto simp: deliver_write_def intro: report_progress [OF busy] save_info_failed_progress [OF busy])
  next
    case Remove_info
    with res w show ?thesis
      by (cases r) (auto simp: deliver_write_def remove_bucket_info_failed_def
          intro: report_progress [OF busy] remove_info_progress [OF busy])
  qed (use res in \<open>cases r; auto simp: deliver_write_def with_global_def cleanup_fini_cb_def
      remove_global_bucket_account_id_info_failed_def Let_def split: option.splits intro: glob\<close>)+
qed

lemma deliver_read_progress:
  assumes busy: "engine_busy e" and w: "in_flight e = Some (w, req)" and res: "deliver_read env w r e = Some e'"
  shows "progress e e'"
proof -
  have glob: "progress e (report_state st (set_global g e))" for st g
    using report_progress [of "set_global g e" st] busy progress_cong [of e "set_global g e"] by simp
  have rep: "progress e (report_state st (e\<lparr>meta := b, json_parsing_error := j\<rparr>))"
      "progress e (report_state st (e\<lparr>meta := b\<rparr>))" for st b j
    using busy by (auto simp: progress_defs report_state_def)
  have info: "progress e e1" if "load_bucket_info e0 = Some e1" "reported e0 = []" "waiting_rank w = 2"
      "collision_attempt_count e0 \<le> MAX_COLLISION_RETRY_COUNT" for e0 e1
    using load_bucket_info_request [OF that(1)] that w by (auto simp: progress_defs)
  have counts: "reported e = []" "collision_attempt_count e \<le> MAX_COLLISION_RETRY_COUNT"
    using busy by (simp_all add: engine_busy_def)
  show ?thesis
  proof (cases w)
    case Fetch_global
    with res counts show ?thesis
      by (cases r) (auto simp: deliver_read_def with_global_def bind_eq_Some_conv
          fetch_global_bucket_account_id_info_success_def fetch_global_bucket_account_id_info_failed_def Let_def
          intro: glob info split: option.splits if_splits)
  next
    case Load_info
    with res show ?thesis
      by (cases r) (auto simp: deliver_read_def bind_eq_Some_conv load_bucket_info_successful_def
          load_bucket_info_failed_def intro: rep report_progress [OF busy] split: if_splits)
  qed (use res in \<open>cases r; simp add: deliver_read_def\<close>)+
qed

lemma deliver_progress:
  "engine_busy e \<Longrightarrow> deliver env r e = Some e' \<Longrightarrow> progress e e'"
  by (auto simp: deliver_def deliver_write_progress deliver_read_progress split: option.splits if_splits)

text \<open>A run that delivers enough replies has finished, with exactly one report.\<close>

lemma engine_run_finishes:
  assumes "engine_run env lay outs (e, st) = Some (e', st')" "engine_busy e \<or> engine_done e"
    "replies_left e \<le> length outs"
  shows "engine_done e'"
  using assms
proof (induction outs arbitrary: e st)
  case Nil
  have "0 < replies_left e" if "engine_busy e"
  proof -
    from that obtain w req where "in_flight e = Some (w, req)" by (auto simp: engine_busy_def)
    then have "21 * waiting_rank w \<le> replies_left e" by (simp add: replies_left_def)
    with waiting_rank_pos [of w] show ?thesis by linarith
  qed
  with Nil show ?case by auto
next
  case (Cons out outs)
  show ?case
  proof (cases "in_flight e")
    case None
    with Cons.prems show ?thesis by (auto simp: engine_busy_def)
  next
    case (Some p)
    obtain w req where p: "p = (w, req)" by force
    obtain r st1 where k: "kvs_apply lay req out st = (r, st1)" by force
    with Some Cons.prems p obtain e1 where e1: "deliver env r e = Some e1"
        "engine_run env lay outs (e1, st1) = Some (e', st')"
      by (auto split: option.splits)
    have busy: "engine_busy e" using Cons.prems(2) Some by (auto simp: engine_done_def)
    from deliver_progress [OF busy e1(1)] Cons.prems(3) have "engine_busy e1 \<or> engine_done e1" "replies_left e1 \<le> length outs"
      by (auto simp: progress_def) (auto simp: engine_done_def replies_left_def)
    with Cons.IH [OF e1(2)] show ?thesis by blast
  qed
qed

section \<open>Saving a bucket\<close>

text \<open>
  What holds along the requests of a save of \<open>src\<close> that started in the store \<open>st0\<close>; \<open>gj\<close> is
  the text of its global entry.
\<close>

definition saved_system :: "S3BucketMetadata \<Rightarrow> string \<Rightarrow> string option" where
  "saved_system src k =
     (if k = ''Owner-User'' then Some (user_name src)
      else if k = ''Owner-User-id'' then Some (user_id src)
      else if k = ''Owner-Account'' then Some (account_name src)
      else if k = ''Owner-Account-id'' then Some (account_id src)
      else if k = ''LocationConstraint'' then Some (attr_or_empty (system_defined_attribute src) k)
      else map_get (system_defined_attribute src) k)"

definition info_written :: "S3BucketMetadata \<Rightarrow> S3BucketMetadata \<Rightarrow> bool" where
  "info_written src b \<longleftrightarrow> (\<forall>k. map_get (system_defined_attribute b) k = saved_system src k)
     \<and> encoded_acl b = (if encoded_acl src = [] then rq_default_acl (bm_request src) else encoded_acl src)"

definition save_same :: "S3BucketMetadata \<Rightarrow> S3BucketMetadata \<Rightarrow> bool" where
  "save_same src b \<longleftrightarrow> bucket_name b = bucket_name src \<and> account_id b = account_id src
     \<and> account_name b = account_name src \<and> user_name b = user_name src \<and> user_id b = user_id src
     \<and> bucket_policy b = bucket_policy src \<and> bucket_tags b = bucket_tags src
     \<and> user_defined_attribute b = user_defined_attribute src \<and> map_wf (system_defined_attribute b)
     \<and> bm_request b = bm_request src
     \<and> (\<forall>k. k \<notin> {''Owner-User'', ''Owner-User-id'', ''Owner-Account'', ''Owner-Account-id''} \<longrightarrow>
           map_get (system_defined_attribute b) k = saved_system src k)
     \<and> (encoded_acl b = encoded_acl src \<or> encoded_acl src = [] \<and> encoded_acl b = rq_default_acl (bm_request src))"

definition save_base :: "S3BucketMetadata \<Rightarrow> S3BucketMetadataV1 \<Rightarrow> bool" where
  "save_base src e \<longleftrightarrow> save_same src (meta e) \<and> reported e = []
     \<and> collision_attempt_count e \<le> MAX_COLLISION_RETRY_COUNT
     \<and> (case global_bucket_index_metadata e of None \<Rightarrow> False | Some g \<Rightarrow> g_bucket_name g = bucket_name src)"

definition with_entry :: "string \<Rightarrow> string \<Rightarrow> kvs_store \<Rightarrow> kvs_store \<Rightarrow> bool" where
  "with_entry name gj st0 st \<longleftrightarrow> global_index st = map_put name gj (global_index st0) \<and> info_index st = info_index st0"

definition info_key :: "S3BucketMetadata \<Rightarrow> string" where
  "info_key src = account_id src @ ''/'' @ bucket_name src"

definition made :: "nat \<Rightarrow> S3BucketMetadata \<Rightarrow> kvs_store \<Rightarrow> bool" where
  "made n b st \<longleftrightarrow> (n > 0 \<longrightarrow> oid (object_list_index_layout b) \<in> set (indices st))
     \<and> (n > 1 \<longrightarrow> oid (multipart_index_layout b) \<in> set (indices st))
     \<and> (n > 2 \<longrightarrow> oid (objects_version_list_index_layout b) \<in> set (indices st))
     \<and> (n > 3 \<longrightarrow> oid (extended_metadata_index_layout b) \<in> set (indices st))"

definition bucket_text :: "engine_env \<Rightarrow> S3BucketMetadata \<Rightarrow> string" where
  "bucket_text env b = writer_write (ee_lib env) (JObj (bucket_doc (ee_pad env) (ee_now env) b))"

definition save_failed :: "S3BucketMetadataState \<Rightarrow> bool" where
  "save_failed st \<longleftrightarrow> st = Bfailed \<or> st = Bfailed_to_launch"

text \<open>How a save can end.\<close>

definition save_end :: "engine_env \<Rightarrow> S3BucketMetadata \<Rightarrow> string \<Rightarrow> kvs_store \<Rightarrow> S3BucketMetadataV1 \<Rightarrow> kvs_store \<Rightarrow> bool" where
  "save_end env src gj st0 e st \<longleftrightarrow>
     (\<exists>s. reported e = [s] \<and>
        (s = Bpresent \<and> bm_state (meta e) = Bpresent \<and> save_same src (meta e) \<and> info_written src (meta e)
           \<and> global_index st = map_put (bucket_name src) gj (global_index st0)
           \<and> info_index st = map_put (info_key src) (bucket_text env (meta e)) (info_index st0)
           \<and> made 4 (meta e) st
         \<or> save_failed s \<and> info_index st = info_index st0
           \<and> (global_index st = global_index st0
              \<or> global_index st = map_erase (bucket_name src) (global_index st0)
              \<or> global_index st = map_put (bucket_name src) gj (global_index st0)
                \<and> (collision_attempt_count e = MAX_COLLISION_RETRY_COUNT
                   \<or> (\<exists>g. global_bucket_index_metadata e = Some g \<and> g_state g \<in> {G_failed, G_failed_to_launch})))))"

fun save_request ::
  "engine_env \<Rightarrow> S3BucketMetadata \<Rightarrow> string \<Rightarrow> kvs_store \<Rightarrow> S3BucketMetadataV1 \<Rightarrow> kvs_store \<Rightarrow> waiting \<Rightarrow> kvs_request \<Rightarrow> bool" where
  "save_request env src gj st0 e st Save_global req = (req = Put_global (bucket_name src) gj \<and> st = st0)"
| "save_request env src gj st0 e st Object_index req = ((\<exists>i. req = Create_index i) \<and> with_entry (bucket_name src) gj st0 st)"
| "save_request env src gj st0 e st Multipart_index req =
     ((\<exists>i. req = Create_index i) \<and> with_entry (bucket_name src) gj st0 st \<and> made 1 (meta e) st)"
| "save_request env src gj st0 e st Version_index req =
     ((\<exists>i. req = Create_index i) \<and> with_entry (bucket_name src) gj st0 st \<and> made 2 (meta e) st)"
| "save_request env src gj st0 e st Extended_index req =
     ((\<exists>i. req = Create_index i) \<and> with_entry (bucket_name src) gj st0 st \<and> made 3 (meta e) st)"
| "save_request env src gj st0 e st Save_info req =
     (req = Put_info (info_key src) (bucket_text env (meta e)) \<and> with_entry (bucket_name src) gj st0 st
      \<and> made 4 (meta e) st \<and> should_cleanup_global_idx e \<and> info_written src (meta e))"
| "save_request env src gj st0 e st Cleanup_global req =
     (req = Del_global (bucket_name src) \<and> with_entry (bucket_name src) gj st0 st \<and> save_failed (on_cleanup_state e))"
| "save_request env src gj st0 e st _ req = False"

definition save_inv :: "engine_env \<Rightarrow> S3BucketMetadata \<Rightarrow> string \<Rightarrow> kvs_store \<Rightarrow> S3BucketMetadataV1 \<times> kvs_store \<Rightarrow> bool" where
  "save_inv env src gj st0 = (\<lambda>(e, st).
     case in_flight e of
       None \<Rightarrow> save_end env src gj st0 e st
     | Some (w, req) \<Rightarrow> save_base src e \<and> save_request env src gj st0 e st w req)"

lemma save_same_layouts [simp]:
  "save_same src (b\<lparr>object_list_index_layout := lo\<rparr>) = save_same src b"
  "save_same src (b\<lparr>multipart_index_layout := lo\<rparr>) = save_same src b"
  "save_same src (b\<lparr>objects_version_list_index_layout := lo\<rparr>) = save_same src b"
  "save_same src (b\<lparr>extended_metadata_index_layout := lo\<rparr>) = save_same src b"
  "save_same src (b\<lparr>bm_state := bs\<rparr>) = save_same src b"
  "info_written src (b\<lparr>bm_state := bs\<rparr>) = info_written src b"
  by (simp_all add: save_same_def info_written_def)

lemma save_same_fields:
  assumes "save_same src b"
  shows "bucket_name b = bucket_name src" "account_id b = account_id src" "account_name b = account_name src"
    "user_name b = user_name src" "user_id b = user_id src" "bucket_policy b = bucket_policy src"
    "bucket_tags b = bucket_tags src" "user_defined_attribute b = user_defined_attribute src"
    "map_wf (system_defined_attribute b)" "bm_request b = bm_request src"
    "\<And>k. k \<notin> {''Owner-User'', ''Owner-User-id'', ''Owner-Account'', ''Owner-Account-id''} \<Longrightarrow>
       map_get (system_defined_attribute b) k = saved_system src k"
    "encoded_acl b = encoded_acl src \<or> encoded_acl src = [] \<and> encoded_acl b = rq_default_acl (bm_request src)"
  using assms unfolding save_same_def by blast+

lemma owners_put:
  assumes "map_wf m" and "\<And>k. k \<notin> {''Owner-User'', ''Owner-User-id'', ''Owner-Account'', ''Owner-Account-id''} \<Longrightarrow>
       map_get m k = saved_system src k"
  shows "map_get (map_put ''Owner-Account-id'' (account_id src) (map_put ''Owner-Account'' (account_name src)
     (map_put ''Owner-User-id'' (user_id src) (map_put ''Owner-User'' (user_name src) m)))) k = saved_system src k"
proof (cases "k \<in> {''Owner-User'', ''Owner-User-id'', ''Owner-Account'', ''Owner-Account-id''}")
  case True
  then consider "k = ''Owner-User''" | "k = ''Owner-User-id''" | "k = ''Owner-Account''" | "k = ''Owner-Account-id''" by blast
  then show ?thesis using assms(1) by cases (simp_all add: saved_system_def)
next
  case False
  with assms show ?thesis by simp
qed

lemma bucket_text_state [simp]: "bucket_text env (b\<lparr>bm_state := bs\<rparr>) = bucket_text env b"
  by (simp add: bucket_text_def bucket_doc_def)

lemma made_simps [simp]:
  "made n (b\<lparr>bm_state := bs\<rparr>) st = made n b st"
  "made (Suc 0) (b\<lparr>multipart_index_layout := lo\<rparr>) st = made (Suc 0) b st"
  "made 2 (b\<lparr>objects_version_list_index_layout := lo\<rparr>) st = made 2 b st"
  "made 3 (b\<lparr>extended_metadata_index_layout := lo\<rparr>) st = made 3 b st"
  "made n b (st\<lparr>info_index := x\<rparr>) = made n b st"
  by (simp_all add: made_def)

lemma made_grow: "made n b st \<Longrightarrow> made n b (st\<lparr>indices := i # indices st\<rparr>)"
  by (simp add: made_def)

text \<open>The requests a save issues, each establishing its part of the invariant.\<close>

lemma create_save_inv:
  assumes "save_base src e" "with_entry (bucket_name src) gj st0 st"
  shows "save_inv env src gj st0 (create_object_list_index env e, st)"
    "made 1 (meta e) st \<Longrightarrow> save_inv env src gj st0 (create_multipart_list_index env e, st)"
    "made 2 (meta e) st \<Longrightarrow> save_inv env src gj st0 (create_objects_version_list_index env e, st)"
    "made 3 (meta e) st \<Longrightarrow> save_inv env src gj st0 (create_extended_metadata_index env e, st)"
  using assms
  by (auto simp: save_inv_def save_base_def create_object_list_index_def create_multipart_list_index_def
      create_objects_version_list_index_def create_extended_metadata_index_def request_kvs_def Let_def)

lemma cleanup_save_inv:
  assumes "save_base src e" "with_entry (bucket_name src) gj st0 st"
  shows "save_inv env src gj st0 (cleanup_on_create_err_global_bucket_account_id_info ws e, st)"
  using assms
  by (auto simp: save_inv_def save_base_def cleanup_on_create_err_global_bucket_account_id_info_def request_kvs_def
      get_global_bucket_index_metadata_def save_failed_def Let_def split: option.splits)

lemma collision_save_inv:
  assumes base: "save_base src e" and entry: "with_entry (bucket_name src) gj st0 st"
    and cb: "\<And>e'. save_base src e' \<Longrightarrow> meta e' = meta e \<Longrightarrow> save_inv env src gj st0 (cb e', st)"
    and nm: "\<And>n. save_base src (set_name n e) \<and> meta (set_name n e) = meta e"
  shows "save_inv env src gj st0 (handle_collision bn set_name cb e, st)"
proof (cases "collision_attempt_count e < MAX_COLLISION_RETRY_COUNT")
  case True
  let ?e = "(set_name (bn @ collision_salt @ to_dec (collision_attempt_count e)) e)
    \<lparr>collision_attempt_count := collision_attempt_count e + 1\<rparr>"
  have "save_base src ?e" "meta ?e = meta e"
    using nm [of "bn @ collision_salt @ to_dec (collision_attempt_count e)"] True base by (simp_all add: save_base_def)
  with cb [of ?e] True show ?thesis by (simp add: handle_collision_def)
next
  case False
  with base entry show ?thesis
    by (auto simp: handle_collision_def save_inv_def save_base_def report_state_def save_end_def save_failed_def
        with_entry_def)
qed

lemma index_failed_save_inv:
  assumes base: "save_base src e" and entry: "with_entry (bucket_name src) gj st0 st"
  shows "save_inv env src gj st0 (create_object_list_index_failed env ws e, st)"
    "made 1 (meta e) st \<Longrightarrow> save_inv env src gj st0 (create_multipart_list_index_failed env ws e, st)"
    "made 2 (meta e) st \<Longrightarrow> save_inv env src gj st0 (create_objects_version_list_index_failed env ws e, st)"
  unfolding create_object_list_index_failed_def create_multipart_list_index_failed_def
    create_objects_version_list_index_failed_def
  using cleanup_save_inv [OF base entry]
  by (auto intro!: collision_save_inv [OF base entry] create_save_inv entry) (use base in \<open>auto simp: save_base_def\<close>)

lemma save_info_save_inv:
  assumes base: "save_base src e" and entry: "with_entry (bucket_name src) gj st0 st" and m: "made 4 (meta e) st"
    and ids: "account_id src \<noteq> []" "account_name src \<noteq> []" "user_name src \<noteq> []" "user_id src \<noteq> []"
  shows "\<exists>e'. save_bucket_info env True e = Some e' \<and> save_inv env src gj st0 (e', st)"
proof -
  let ?m = "map_put ''Owner-Account-id'' (account_id (meta e)) (map_put ''Owner-Account'' (account_name (meta e))
     (map_put ''Owner-User-id'' (user_id (meta e)) (map_put ''Owner-User'' (user_name (meta e))
       (system_defined_attribute (meta e)))))"
  let ?b1 = "(meta e)\<lparr>system_defined_attribute := ?m\<rparr>"
  let ?b2 = "fst (to_json (ee_lib env) (ee_pad env) (ee_now env) ?b1)"
  have same: "save_same src (meta e)" using base by (simp add: save_base_def)
  have wrote: "snd (to_json (ee_lib env) (ee_pad env) (ee_now env) ?b1) = bucket_text env ?b2"
    by (simp add: to_json_def bucket_text_def Let_def)
  note f = save_same_fields [OF same]
  have sys: "map_wf ?m" "map_get ?m k = saved_system src k" for k
    using f(9) owners_put [OF f(9) f(11)] by (simp_all add: f(2-5))
  have b2: "?b2 = (meta e)\<lparr>system_defined_attribute := ?m,
      encoded_acl := if encoded_acl src = [] then rq_default_acl (bm_request src) else encoded_acl src\<rparr>"
    using f(12) by (auto simp: to_json_def Let_def f(10))
  have same2: "save_same src ?b2" "made 4 ?b2 st" "info_written src ?b2"
    using m f sys unfolding b2 by (simp_all add: save_same_def made_def info_written_def)
  have eq: "save_bucket_info env True e = Some (request_kvs Save_info (Put_info (info_key src) (bucket_text env ?b2))
      (e\<lparr>meta := ?b2, should_cleanup_global_idx := True\<rparr>))"
    using save_same_fields [OF same] ids wrote
    by (simp add: save_bucket_info_def get_bucket_metadata_index_key_name_def info_key_def
        Let_def case_prod_beta)
  show ?thesis
    using base entry same2 by (simp add: eq save_inv_def save_base_def request_kvs_def)
qed

lemma report_failed_save_inv:
  assumes "reported e = []" "save_failed bs" "info_index st = info_index st0"
    "global_index st = global_index st0 \<or> global_index st = map_erase (bucket_name src) (global_index st0)
     \<or> global_index st = map_put (bucket_name src) gj (global_index st0)
       \<and> (\<exists>g. global_bucket_index_metadata e = Some g \<and> g_state g \<in> {G_failed, G_failed_to_launch})"
  shows "save_inv env src gj st0 (report_state bs e, st)"
  using assms by (auto simp: save_inv_def save_end_def report_state_def)

lemma global_write_failed_state: "g_state (global_write_failed ws g) \<in> {G_failed, G_failed_to_launch}"
  by (simp add: global_write_failed_def)

lemma write_failure_cases: obtains ws where "write_failure out = Write_failed ws"
  by (auto simp: write_failure_def)

lemma erase_put: "map_wf m \<Longrightarrow> map_erase k (map_put k v m) = map_erase k m"
  by (rule map_get_inject) (auto simp: fun_eq_iff)

text \<open>Every reply keeps the invariant, and none makes the engine fail an assertion.\<close>

lemma save_step_index:
  assumes base: "save_base src e" and entry: "with_entry (bucket_name src) gj st0 st"
    and lay: "\<And>i. oid (lay i) = i"
    and ids: "account_id src \<noteq> []" "account_name src \<noteq> []" "user_name src \<noteq> []" "user_id src \<noteq> []"
    and ka: "kvs_apply lay (Create_index i) out st = (r, st')"
  shows "\<exists>e'. deliver_write env Object_index r e = Some e' \<and> save_inv env src gj st0 (e', st')"
    "made 1 (meta e) st \<Longrightarrow>
     \<exists>e'. deliver_write env Multipart_index r e = Some e' \<and> save_inv env src gj st0 (e', st')"
    "made 2 (meta e) st \<Longrightarrow>
     \<exists>e'. deliver_write env Version_index r e = Some e' \<and> save_inv env src gj st0 (e', st')"
    "made 3 (meta e) st \<Longrightarrow>
     \<exists>e'. deliver_write env Extended_index r e = Some e' \<and> save_inv env src gj st0 (e', st')"
proof -
  consider (failed) ws where "r = Write_failed ws" "st' = st"
    | (created) "r = Created (lay i)" "st' = st\<lparr>indices := i # indices st\<rparr>"
    using ka by (auto simp: write_failure_def split: if_splits)
  then have "(\<exists>e'. deliver_write env Object_index r e = Some e' \<and> save_inv env src gj st0 (e', st'))
    \<and> (made 1 (meta e) st \<longrightarrow> (\<exists>e'. deliver_write env Multipart_index r e = Some e' \<and> save_inv env src gj st0 (e', st')))
    \<and> (made 2 (meta e) st \<longrightarrow> (\<exists>e'. deliver_write env Version_index r e = Some e' \<and> save_inv env src gj st0 (e', st')))
    \<and> (made 3 (meta e) st \<longrightarrow> (\<exists>e'. deliver_write env Extended_index r e = Some e' \<and> save_inv env src gj st0 (e', st')))"
  proof cases
    case failed
    with base entry show ?thesis
      by (simp add: deliver_write_def index_failed_save_inv create_extended_metadata_index_failed_def cleanup_save_inv)
  next
    case created
    have entry': "with_entry (bucket_name src) gj st0 st'" using entry created by (simp add: with_entry_def)
    let ?obj = "e\<lparr>collision_attempt_count := 0, meta := (meta e)\<lparr>object_list_index_layout := lay i\<rparr>\<rparr>"
    let ?mp = "e\<lparr>meta := (meta e)\<lparr>multipart_index_layout := lay i\<rparr>\<rparr>"
    let ?ver = "e\<lparr>meta := (meta e)\<lparr>objects_version_list_index_layout := lay i\<rparr>\<rparr>"
    let ?ext = "e\<lparr>meta := (meta e)\<lparr>extended_metadata_index_layout := lay i\<rparr>\<rparr>"
    have b: "save_base src ?obj" "save_base src ?mp" "save_base src ?ver" "save_base src ?ext"
      using base by (simp_all add: save_base_def)
    have m: "made 1 (meta ?obj) st'" "made 1 (meta e) st \<Longrightarrow> made 2 (meta ?mp) st'"
        "made 2 (meta e) st \<Longrightarrow> made 3 (meta ?ver) st'" "made 3 (meta e) st \<Longrightarrow> made 4 (meta ?ext) st'"
      using created lay by (auto simp: made_def)
    show ?thesis
      using created b m create_save_inv(2) [OF b(1) entry'] create_save_inv(3) [OF b(2) entry']
        create_save_inv(4) [OF b(3) entry'] save_info_save_inv [OF b(4) entry' _ ids]
      by (simp add: deliver_write_def create_object_list_index_successful_def
          create_multipart_list_index_successful_def create_objects_version_list_index_successful_def
          create_extended_metadata_index_successful_def)
  qed
  then show "\<exists>e'. deliver_write env Object_index r e = Some e' \<and> save_inv env src gj st0 (e', st')"
    "made 1 (meta e) st \<Longrightarrow>
     \<exists>e'. deliver_write env Multipart_index r e = Some e' \<and> save_inv env src gj st0 (e', st')"
    "made 2 (meta e) st \<Longrightarrow>
     \<exists>e'. deliver_write env Version_index r e = Some e' \<and> save_inv env src gj st0 (e', st')"
    "made 3 (meta e) st \<Longrightarrow>
     \<exists>e'. deliver_write env Extended_index r e = Some e' \<and> save_inv env src gj st0 (e', st')"
    by blast+
qed

lemma save_step:
  assumes inv: "save_inv env src gj st0 (e, st)" and fl: "in_flight e = Some (w, req)"
    and lay: "\<And>i. oid (lay i) = i" and wf: "map_wf (global_index st0)"
    and ids: "account_id src \<noteq> []" "account_name src \<noteq> []" "user_name src \<noteq> []" "user_id src \<noteq> []"
    and ka: "kvs_apply lay req out st = (r, st')"
  shows "\<exists>e'. deliver env r e = Some e' \<and> save_inv env src gj st0 (e', st')"
proof -
  have base: "save_base src e" and rq: "save_request env src gj st0 e st w req"
    using inv fl by (simp_all add: save_inv_def)
  obtain g where g: "global_bucket_index_metadata e = Some g" "g_bucket_name g = bucket_name src"
    using base by (auto simp: save_base_def split: option.splits)
  have rep: "reported e = []" using base by (simp add: save_base_def)
  have dw: "deliver env r e = deliver_write env w r e" using rq fl by (cases w) (simp_all add: deliver_def)
  show ?thesis
  proof (cases w)
    case Save_global
    with rq ka consider "r = Written" "with_entry (bucket_name src) gj st0 st'"
      | ws where "r = Write_failed ws" "st' = st0"
      by (auto simp: with_entry_def write_failure_def split: if_splits)
    then show ?thesis
    proof cases
      case 1
      have "save_base src ((set_global (g\<lparr>g_state := G_saved\<rparr>) e)\<lparr>collision_attempt_count := 0\<rparr>)"
        using base g by (simp add: save_base_def set_global_def)
      from create_save_inv(1) [OF this 1(2)] show ?thesis
        unfolding dw using 1 Save_global g
        by (simp add: deliver_write_def with_global_def save_global_bucket_account_id_info_successful_def)
    next
      case 2
      then show ?thesis
        unfolding dw using Save_global g rep
        by (simp add: deliver_write_def with_global_def save_global_bucket_account_id_info_failed_def Let_def)
          (auto intro!: report_failed_save_inv simp: save_failed_def)
    qed
  next
    case Save_info
    with rq have cl: "should_cleanup_global_idx e" and entry: "with_entry (bucket_name src) gj st0 st"
      and m: "made 4 (meta e) st" "info_written src (meta e)" and q: "req = Put_info (info_key src) (bucket_text env (meta e))" by simp_all
    show ?thesis
    proof (cases "out = Performs")
      case True
      with ka q have "r = Written" "st' = st\<lparr>info_index := map_put (info_key src) (bucket_text env (meta e)) (info_index st)\<rparr>"
        by auto
      with entry m base Save_info show ?thesis
        unfolding dw by (simp add: deliver_write_def save_inv_def report_state_def save_end_def with_entry_def save_base_def)
    next
      case False
      with ka q obtain ws where "r = Write_failed ws" "st' = st" by (auto simp: write_failure_def)
      with Save_info cl cleanup_save_inv [OF base entry] show ?thesis
        unfolding dw by (simp add: deliver_write_def save_bucket_info_failed_def)
    qed
  next
    case Cleanup_global
    with rq have entry: "with_entry (bucket_name src) gj st0 st" and q: "req = Del_global (bucket_name src)"
      and oc: "save_failed (on_cleanup_state e)" by simp_all
    have present: "map_get (global_index st) (bucket_name src) \<noteq> None" using entry wf by (simp add: with_entry_def)
    show ?thesis
    proof (cases "out = Performs")
      case True
      with ka q present have "r = Written" "st' = st\<lparr>global_index := map_erase (bucket_name src) (global_index st)\<rparr>"
        by auto
      with entry wf Cleanup_global g rep oc show ?thesis
        unfolding dw by (simp add: deliver_write_def with_global_def cleanup_fini_cb_def)
          (rule report_failed_save_inv; simp add: with_entry_def erase_put)
    next
      case False
      with ka q obtain ws where "r = Write_failed ws" "st' = st" by (auto simp: write_failure_def)
      with entry Cleanup_global g rep oc global_write_failed_state [of ws g] show ?thesis
        unfolding dw by (simp add: deliver_write_def with_global_def cleanup_fini_cb_def)
          (rule report_failed_save_inv; simp add: with_entry_def)
    qed
  qed (use rq ka save_step_index [OF base _ lay ids] in \<open>auto simp: dw\<close>)
qed

lemma save_run:
  assumes "save_inv env src gj st0 w" "\<And>i. oid (lay i) = i" "map_wf (global_index st0)"
    and ids: "account_id src \<noteq> []" "account_name src \<noteq> []" "user_name src \<noteq> []" "user_id src \<noteq> []"
  shows "\<exists>w'. engine_run env lay outs w = Some w' \<and> save_inv env src gj st0 w'"
  using assms(1)
proof (induction outs arbitrary: w)
  case (Cons out outs)
  obtain e st where w: "w = (e, st)" by force
  show ?case
  proof (cases "in_flight e")
    case None
    with Cons w show ?thesis by simp
  next
    case (Some p)
    obtain wt req where p: "p = (wt, req)" by force
    obtain r st1 where k: "kvs_apply lay req out st = (r, st1)" by force
    obtain e1 where e1: "deliver env r e = Some e1" "save_inv env src gj st0 (e1, st1)"
      using save_step [OF Cons.prems [unfolded w] Some [unfolded p] assms(2,3) ids k] by blast
    with Cons.IH [OF e1(2)] Some p k show ?thesis by (simp add: w)
  qed
qed simp

text \<open>The start of a save.\<close>

definition save_source_ok :: "S3BucketMetadata \<Rightarrow> bool" where
  "save_source_ok src \<longleftrightarrow> bm_state src = Bmissing \<and> bucket_name src \<noteq> [] \<and> account_id src \<noteq> []
     \<and> account_name src \<noteq> [] \<and> user_name src \<noteq> [] \<and> user_id src \<noteq> [] \<and> bucket_wf src"

definition global_of :: "S3BucketMetadata \<Rightarrow> S3GlobalBucketIndexMetadata" where
  "global_of src =
     \<lparr>g_account_name = account_name src, g_account_id = account_id src, g_bucket_name = bucket_name src,
      g_location_constraint = snd (map_index [] (system_defined_attribute src) ''LocationConstraint''),
      g_state = G_missing, g_json_parsing_error = False\<rparr>"

lemma save_starts:
  assumes "save_source_ok src"
  shows "\<exists>e. V1_save env src (S3BucketMetadataV1_init src) = Some e \<and> engine_busy e
    \<and> replies_left e = 167
    \<and> save_inv env src (global_to_json env (global_of src)) st0 (e, st0)"
  using assms
  by (simp add: V1_save_def save_source_ok_def get_global_bucket_index_metadata_def S3BucketMetadataV1_init_def
      S3GlobalBucketIndexMetadata_init_def Let_def case_prod_beta global_of_def request_kvs_def set_global_def
      engine_busy_def replies_left_def MAX_COLLISION_RETRY_COUNT_def save_inv_def save_base_def save_same_def
      bucket_wf_def map_index_get saved_system_def attr_or_empty_def)

lemma save_complete:
  assumes src: "save_source_ok src" and lay: "\<And>i. oid (lay i) = i" and wf: "map_wf (global_index st0)"
    and len: "167 \<le> length outs"
  obtains e0 e st where "V1_save env src (S3BucketMetadataV1_init src) = Some e0"
    "engine_run env lay outs (e0, st0) = Some (e, st)" "engine_done e"
    "save_end env src (global_to_json env (global_of src)) st0 e st"
proof -
  let ?gj = "global_to_json env (global_of src)"
  obtain e0 where e0: "V1_save env src (S3BucketMetadataV1_init src) = Some e0" "engine_busy e0"
      "replies_left e0 = 167" "save_inv env src ?gj st0 (e0, st0)"
    using save_starts [OF src] by blast
  have ids: "account_id src \<noteq> []" "account_name src \<noteq> []" "user_name src \<noteq> []" "user_id src \<noteq> []"
    using src by (simp_all add: save_source_ok_def)
  obtain e st where r: "engine_run env lay outs (e0, st0) = Some (e, st)" "save_inv env src ?gj st0 (e, st)"
    using save_run [OF e0(4) lay wf ids] by fastforce
  have d: "engine_done e" using engine_run_finishes [OF r(1)] e0 len by simp
  with r have "save_end env src ?gj st0 e st" by (simp add: save_inv_def engine_done_def)
  with that e0(1) r(1) d show thesis by blast
qed

section \<open>Exhausted collision retries\<close>

lemma collisions_exhaust:
  assumes "in_flight e = Some (Object_index, Create_index i)" "i \<in> set (indices st)"
    "\<And>n. ee_uri_oid env n \<in> set (indices st)" "reported e = []"
    "collision_attempt_count e \<le> MAX_COLLISION_RETRY_COUNT"
    "MAX_COLLISION_RETRY_COUNT - collision_attempt_count e < k"
  shows "\<exists>e'. engine_run env lay (replicate k Performs) (e, st) = Some (e', st) \<and> reported e' = [Bfailed]
    \<and> in_flight e' = None"
  using assms
proof (induction k arbitrary: e i)
  case (Suc k)
  have d: "deliver env (Write_failed W_exists) e = Some (create_object_list_index_failed env W_exists e)"
    using Suc.prems(1) by (simp add: deliver_def deliver_write_def)
  have run: "engine_run env lay (replicate (Suc k) Performs) (e, st)
      = engine_run env lay (replicate k Performs) (create_object_list_index_failed env W_exists e, st)"
    using Suc.prems(1,2) d by simp
  show ?case
  proof (cases "collision_attempt_count e < MAX_COLLISION_RETRY_COUNT")
    case True
    let ?e = "create_object_list_index_failed env W_exists e"
    have "in_flight ?e = Some (Object_index, Create_index (ee_uri_oid env
          (get_object_list_index_name (meta e) @ collision_salt @ to_dec (collision_attempt_count e))))"
        "reported ?e = []" "collision_attempt_count ?e = Suc (collision_attempt_count e)"
      using True Suc.prems(4) by (simp_all add: create_object_list_index_failed_def handle_collision_def)
    with Suc.IH [OF this(1) Suc.prems(3) Suc.prems(3) this(2)] True Suc.prems(6) show ?thesis
      unfolding run by simp
  next
    case False
    have done_at_once: "engine_run env lay outs (e', st) = Some (e', st)" if "in_flight e' = None" for e' outs
      using that by (cases outs) simp_all
    show ?thesis
      unfolding run using False Suc.prems(4) done_at_once
      by (simp add: create_object_list_index_failed_def handle_collision_def report_state_def)
  qed
qed simp

lemma save_collisions:
  assumes src: "save_source_ok src" and oids: "\<And>n. ee_uri_oid env n \<in> set (indices st0)"
  shows "\<exists>e0 e st. V1_save env src (S3BucketMetadataV1_init src) = Some e0
    \<and> engine_run env lay (replicate 22 Performs) (e0, st0) = Some (e, st) \<and> reported e = [Bfailed]
    \<and> in_flight e = None
    \<and> global_index st = map_put (bucket_name src) (global_to_json env (global_of src)) (global_index st0)
    \<and> info_index st = info_index st0"
proof -
  let ?gj = "global_to_json env (global_of src)"
  obtain e0 where e0: "V1_save env src (S3BucketMetadataV1_init src) = Some e0" "engine_busy e0"
      "save_inv env src ?gj st0 (e0, st0)" "in_flight e0 = Some (Save_global, Put_global (bucket_name src) ?gj)"
    using src
    by (simp add: V1_save_def save_source_ok_def get_global_bucket_index_metadata_def S3BucketMetadataV1_init_def
        S3GlobalBucketIndexMetadata_init_def Let_def case_prod_beta global_of_def request_kvs_def set_global_def
        engine_busy_def MAX_COLLISION_RETRY_COUNT_def save_inv_def save_base_def save_same_def bucket_wf_def
        map_index_get saved_system_def attr_or_empty_def)
  let ?st = "st0\<lparr>global_index := map_put (bucket_name src) ?gj (global_index st0)\<rparr>"
  obtain g where g: "global_bucket_index_metadata e0 = Some g"
    using e0 by (auto simp: save_inv_def save_base_def split: option.splits)
  let ?e1 = "save_global_bucket_account_id_info_successful env (set_global (g\<lparr>g_state := G_saved\<rparr>) e0)"
  have "deliver env Written e0 = Some ?e1" using e0(4) g by (simp add: deliver_def deliver_write_def with_global_def)
  then have run: "engine_run env lay (replicate 22 Performs) (e0, st0)
      = engine_run env lay (replicate 21 Performs) (?e1, ?st)"
    using e0(4) by (simp add: numeral_eq_Suc)
  have fl: "in_flight ?e1 = Some (Object_index, Create_index (ee_uri_oid env (salted_object_list_index_name e0)))"
      "reported ?e1 = []" "collision_attempt_count ?e1 = 0"
    using e0(2) by (simp_all add: save_global_bucket_account_id_info_successful_def engine_busy_def set_global_def)
  have "\<exists>e'. engine_run env lay (replicate 21 Performs) (?e1, ?st) = Some (e', ?st) \<and> reported e' = [Bfailed]
      \<and> in_flight e' = None"
    by (rule collisions_exhaust [OF fl(1) _ _ fl(2)]) (use oids fl(3) in \<open>simp_all add: MAX_COLLISION_RETRY_COUNT_def\<close>)
  then show ?thesis using e0(1) run by auto
qed

section \<open>Loading what was saved\<close>

lemma global_doc_read:
  assumes "jsoncpp_reads_back (ee_lib env) (global_doc g0)" "\<not> ee_root_bucket_list_index_metadata_corrupted env"
  shows "global_load_successful env (global_to_json env g0) g =
    Some (g\<lparr>g_account_name := g_account_name g0, g_account_id := g_account_id g0,
            g_location_constraint := g_location_constraint g0, g_state := G_present\<rparr>, True)"
proof -
  let ?ms = "map_put ''location_constraint'' (JStr (g_location_constraint g0))
      (map_put ''account_id'' (JStr (g_account_id g0)) (map_put ''account_name'' (JStr (g_account_name g0)) []))"
  have lib: "asString (ee_lib env) (JStr x) = Some x" for x using assms(1) by (simp add: jsoncpp_reads_back_def)
  have "map_get ?ms ''account_name'' = Some (JStr (g_account_name g0))"
      "map_get ?ms ''account_id'' = Some (JStr (g_account_id g0))"
      "map_get ?ms ''location_constraint'' = Some (JStr (g_location_constraint g0))"
    by (simp_all del: map_put.simps)
  note s = this [THEN json_string_get]
  have "global_from_json env (global_to_json env g0) g = Some (g\<lparr>g_account_name := g_account_name g0,
      g_account_id := g_account_id g0, g_location_constraint := g_location_constraint g0\<rparr>, 0)"
    using assms unfolding global_from_json_def global_to_json_def jsoncpp_reads_back_def
    by (simp add: global_doc_def s lib del: map_put.simps)
  then show ?thesis by (simp add: global_load_successful_def)
qed

lemma load_run:
  assumes g: "map_get (global_index st) (bucket_name src') = Some (global_to_json env g0)" "g_account_id g0 \<noteq> []"
    and i: "map_get (info_index st) (g_account_id g0 @ ''/'' @ bucket_name src') = Some txt_val"
    and name: "bucket_name src' \<noteq> []"
    and libg: "jsoncpp_reads_back (ee_lib env) (global_doc g0)" "\<not> ee_root_bucket_list_index_metadata_corrupted env"
    and rd: "\<And>b. from_json (ee_lib env) (ee_bucket_metadata_corrupted env) txt_val b = Some (f b, 0)"
  shows "\<exists>e'. engine_run env lay [Performs, Performs] (V1_load src' (S3BucketMetadataV1_init src'), st) = Some (e', st)
    \<and> reported e' = [Bpresent] \<and> in_flight e' = None
    \<and> meta e' = (f (src'\<lparr>account_id := g_account_id g0, account_name := g_account_name g0\<rparr>))\<lparr>bm_state := Bpresent\<rparr>"
  using assms(1-4)
  by (simp add: V1_load_def get_global_bucket_index_metadata_def S3BucketMetadataV1_init_def Let_def case_prod_beta
      request_kvs_def set_global_def S3GlobalBucketIndexMetadata_init_def read_reply_def deliver_def deliver_read_def
      with_global_def global_doc_read [OF libg] fetch_global_bucket_account_id_info_success_def load_bucket_info_def
      get_bucket_metadata_index_key_name_def load_bucket_info_successful_def rd report_state_def)

lemma written_copy:
  fixes src b x :: S3BucketMetadata
  assumes same: "save_same src b" and info: "info_written src b"
  defines "b' \<equiv> bucket_copy b x"
  shows "user_name b' = user_name src" "user_id b' = user_id src" "account_name b' = account_name src"
    "account_id b' = account_id src"
    "owner_canonical_id b' = attr_or_empty (system_defined_attribute src) ''Owner-Canonical-id''"
    "map_get (system_defined_attribute b') k =
       (if k = ''Owner-Canonical-id'' then Some (attr_or_empty (system_defined_attribute src) k) else saved_system src k)"
    "encoded_acl b' = (if encoded_acl src = [] then rq_default_acl (bm_request src) else encoded_acl src)"
proof -
  let ?m = "system_defined_attribute b"
  have wf: "map_wf ?m" by (rule save_same_fields [OF same])
  have get: "map_get ?m k = saved_system src k" for k using info by (simp add: info_written_def)
  have owner: "attr_or_empty ?m ''Owner-User'' = user_name src" "attr_or_empty ?m ''Owner-User-id'' = user_id src"
      "attr_or_empty ?m ''Owner-Account'' = account_name src" "attr_or_empty ?m ''Owner-Account-id'' = account_id src"
      "attr_or_empty ?m ''Owner-Canonical-id'' = attr_or_empty (system_defined_attribute src) ''Owner-Canonical-id''"
    by (simp_all add: attr_or_empty_def get saved_system_def)
  show "user_name b' = user_name src" "user_id b' = user_id src" "account_name b' = account_name src"
      "account_id b' = account_id src"
      "owner_canonical_id b' = attr_or_empty (system_defined_attribute src) ''Owner-Canonical-id''"
      "encoded_acl b' = (if encoded_acl src = [] then rq_default_acl (bm_request src) else encoded_acl src)"
    using info by (simp_all add: b'_def bucket_copy_def load_owner_fields wf owner info_written_def)
  have "map_get (system_defined_attribute b') k = (if k \<in> set owner_keys then Some (attr_or_empty ?m k) else saved_system src k)"
    by (simp add: b'_def bucket_copy_def load_owner_fields wf get)
  also have "\<dots> = (if k = ''Owner-Canonical-id'' then Some (attr_or_empty (system_defined_attribute src) k)
      else saved_system src k)"
    using owner by (auto simp: owner_keys_def saved_system_def)
  finally show "map_get (system_defined_attribute b') k =
       (if k = ''Owner-Canonical-id'' then Some (attr_or_empty (system_defined_attribute src) k) else saved_system src k)" .
qed

definition op_started :: "engine_env \<Rightarrow> S3BucketMetadata \<Rightarrow> S3BucketMetadataV1 \<Rightarrow> bool" where
  "op_started env src e \<longleftrightarrow>
     (let e0 = S3BucketMetadataV1_init src in
      e = V1_load src e0 \<or> V1_save env src e0 = Some e \<or> V1_update env src e0 = Some e \<or> V1_remove e0 = Some e)"

lemma op_started_busy: "op_started env src e \<Longrightarrow> engine_busy e \<and> replies_left e \<le> 167"
proof -
  assume op: "op_started env src e"
  let ?e0 = "S3BucketMetadataV1_init src"
  consider (load) "e = V1_load src ?e0" | (save) "V1_save env src ?e0 = Some e"
    | (update) "V1_update env src ?e0 = Some e" | (remove) "V1_remove ?e0 = Some e"
    using op by (auto simp: op_started_def Let_def)
  then show ?thesis
  proof cases
    case load
    then show ?thesis
      by (simp add: V1_load_def get_global_bucket_index_metadata_def S3BucketMetadataV1_init_def request_kvs_def
          set_global_def engine_busy_def replies_left_def MAX_COLLISION_RETRY_COUNT_def Let_def)
  next
    case save
    then show ?thesis
      by (auto simp: V1_save_def get_global_bucket_index_metadata_def S3BucketMetadataV1_init_def request_kvs_def
          set_global_def engine_busy_def replies_left_def MAX_COLLISION_RETRY_COUNT_def Let_def case_prod_beta
          split: if_splits)
  next
    case update
    then have "save_bucket_info env False (?e0\<lparr>meta := src\<rparr>) = Some e" by (simp add: V1_update_def split: if_splits)
    from save_bucket_info_request [OF this] show ?thesis
      by (auto simp: S3BucketMetadataV1_init_def engine_busy_def replies_left_def MAX_COLLISION_RETRY_COUNT_def)
  next
    case remove
    then show ?thesis
      by (auto simp: V1_remove_def S3BucketMetadataV1_init_def request_kvs_def bind_eq_Some_conv
          engine_busy_def replies_left_def MAX_COLLISION_RETRY_COUNT_def split: if_splits)
  qed
qed

section \<open>Properties\<close>

text \<open>C21: Whatever the store answers, a load, save, update or removal of a bucket waits for at
  most 167 replies (collision retries included) and then has called its callback exactly
  once, unless an assertion failed on the way.\<close>

theorem engine_reports_exactly_once:
  assumes "op_started env src e" and "167 \<le> length outs"
    and "engine_run env lay outs (e, st) = Some (e', st')"
  shows "in_flight e' = None \<and> (\<exists>s. reported e' = [s])"
  using engine_run_finishes [OF assms(3)] op_started_busy [OF assms(1)] assms(2)
  by (auto simp: engine_done_def length_Suc_conv)

text \<open>C7: Creating a bucket runs to its end without failing an assertion, and ends in one of
  these ways.  Success (state present): the global entry and the metadata entry are both
  stored, the stored text is the JSON of the bucket, and its four indices exist.  Failure:
  the metadata index is untouched, and the global list is untouched, or cleared of the
  bucket, or still holds the new entry, the last only when the deletion failed or the
  collision retries were used up.\<close>

theorem save_ends_consistently:
  assumes "save_source_ok src" and "\<And>i. oid (lay i) = i" and "map_wf (global_index st0)"
    and "167 \<le> length outs"
  shows "\<exists>e0 e st s. V1_save env src (S3BucketMetadataV1_init src) = Some e0
    \<and> engine_run env lay outs (e0, st0) = Some (e, st) \<and> in_flight e = None \<and> reported e = [s]
    \<and> (s = Bpresent
         \<and> global_index st = map_put (bucket_name src) (global_to_json env (global_of src)) (global_index st0)
         \<and> info_index st = map_put (account_id src @ ''/'' @ bucket_name src)
             (writer_write (ee_lib env) (JObj (bucket_doc (ee_pad env) (ee_now env) (meta e)))) (info_index st0)
         \<and> bucket_name (meta e) = bucket_name src \<and> bucket_policy (meta e) = bucket_policy src
         \<and> bucket_tags (meta e) = bucket_tags src
         \<and> {oid (object_list_index_layout (meta e)), oid (multipart_index_layout (meta e)),
             oid (objects_version_list_index_layout (meta e)), oid (extended_metadata_index_layout (meta e))}
           \<subseteq> set (indices st)
       \<or> (s = Bfailed \<or> s = Bfailed_to_launch) \<and> info_index st = info_index st0
         \<and> (global_index st = global_index st0
            \<or> global_index st = map_erase (bucket_name src) (global_index st0)
            \<or> global_index st = map_put (bucket_name src) (global_to_json env (global_of src)) (global_index st0)
              \<and> (collision_attempt_count e = MAX_COLLISION_RETRY_COUNT
                 \<or> (\<exists>g. global_bucket_index_metadata e = Some g \<and> g_state g \<in> {G_failed, G_failed_to_launch}))))"
proof -
  obtain e0 e st where r: "V1_save env src (S3BucketMetadataV1_init src) = Some e0"
      "engine_run env lay outs (e0, st0) = Some (e, st)" "engine_done e"
      "save_end env src (global_to_json env (global_of src)) st0 e st"
    using save_complete [OF assms] by metis
  obtain s where s: "reported e = [s]" using r(4) by (auto simp: save_end_def)
  note ends = r(4) [unfolded save_end_def s]
  have fl: "in_flight e = None" using r(3) by (simp add: engine_done_def)
  show ?thesis
  proof (cases "s = Bpresent")
    case True
    then have "save_same src (meta e)" "made 4 (meta e) st"
        "global_index st = map_put (bucket_name src) (global_to_json env (global_of src)) (global_index st0)"
        "info_index st = map_put (info_key src) (bucket_text env (meta e)) (info_index st0)"
      using ends by (simp_all add: save_failed_def)
    then show ?thesis
      by (intro exI [of _ e0] exI [of _ e] exI [of _ st] exI [of _ s] conjI disjI1 r fl s True)
        (simp_all add: save_same_def made_def info_key_def bucket_text_def)
  next
    case False
    with ends show ?thesis
      by (rule_tac x = e0 in exI, rule_tac x = e in exI, rule_tac x = st in exI, rule_tac x = s in exI)
        (simp add: r fl s save_failed_def)
  qed
qed

text \<open>C22: When every candidate identifier of the object list index is taken, creating the bucket
  gives up after its 20 retries and reports the failure, but leaves the bucket in the
  global bucket list although it has no metadata: the clean-up of the other failures is not
  run.\<close>

theorem exhausted_collisions_leave_global_entry:
  assumes "save_source_ok src" and "\<And>n. ee_uri_oid env n \<in> set (indices st0)"
  shows "\<exists>e0 e st. V1_save env src (S3BucketMetadataV1_init src) = Some e0
    \<and> engine_run env lay (replicate 22 Performs) (e0, st0) = Some (e, st) \<and> reported e = [Bfailed]
    \<and> in_flight e = None
    \<and> global_index st = map_put (bucket_name src) (global_to_json env (global_of src)) (global_index st0)
    \<and> info_index st = info_index st0"
  by (rule save_collisions [OF assms])

text \<open>C23: A bucket that was saved can be loaded: after a save that reported success, a load of
  the same name by any request finds it, reports it present and gives back name, policy,
  tags, user attributes, the four index layouts, the owning account and user (names and
  ids) and the ACL (the default one of the saving request when the bucket had none).  Of
  the system attributes, the four owner ones are those of the saved bucket, the location
  constraint and the canonical owner id exist, empty if they did not before, and every
  other one is as it was.  Assumed of the JSON library: it reads back the two documents
  that were written; and the attribute names hold no zero byte.\<close>

theorem saved_bucket_loads_back:
  assumes "save_source_ok src" and "\<And>i. oid (lay i) = i"
    and "map_wf (global_index st0)" and "map_wf (info_index st0)" and "167 \<le> length outs"
    and "V1_save env src (S3BucketMetadataV1_init src) = Some e0"
    and "engine_run env lay outs (e0, st0) = Some (e, st)" and "reported e = [Bpresent]"
    and "jsoncpp_reads_back (ee_lib env) (global_doc (global_of src))"
    and "jsoncpp_reads_back (ee_lib env) (JObj (bucket_doc (ee_pad env) (ee_now env) (meta e)))"
    and "\<not> ee_root_bucket_list_index_metadata_corrupted env" and "\<not> ee_bucket_metadata_corrupted env"
    and "\<And>n. length (ee_pad env n) = 4"
    and "keys_no_nul (system_defined_attribute (meta e))" and "keys_no_nul (user_defined_attribute src)"
    and "bucket_name src' = bucket_name src"
  shows "\<exists>e'. engine_run env lay [Performs, Performs] (V1_load src' (S3BucketMetadataV1_init src'), st) = Some (e', st)
    \<and> in_flight e' = None \<and> reported e' = [Bpresent]
    \<and> bucket_name (meta e') = bucket_name src \<and> bucket_policy (meta e') = bucket_policy src
    \<and> bucket_tags (meta e') = bucket_tags src \<and> user_defined_attribute (meta e') = user_defined_attribute src
    \<and> user_name (meta e') = user_name src \<and> user_id (meta e') = user_id src
    \<and> account_name (meta e') = account_name src \<and> account_id (meta e') = account_id src
    \<and> owner_canonical_id (meta e') = attr_or_empty (system_defined_attribute src) ''Owner-Canonical-id''
    \<and> (\<forall>k. map_get (system_defined_attribute (meta e')) k =
         (if k = ''Owner-User'' then Some (user_name src)
          else if k = ''Owner-User-id'' then Some (user_id src)
          else if k = ''Owner-Account'' then Some (account_name src)
          else if k = ''Owner-Account-id'' then Some (account_id src)
          else if k = ''Owner-Canonical-id'' \<or> k = ''LocationConstraint''
            then Some (attr_or_empty (system_defined_attribute src) k)
          else map_get (system_defined_attribute src) k))
    \<and> encoded_acl (meta e') = (if encoded_acl src = [] then rq_default_acl (bm_request src) else encoded_acl src)
    \<and> object_list_index_layout (meta e') = object_list_index_layout (meta e)
    \<and> multipart_index_layout (meta e') = multipart_index_layout (meta e)
    \<and> objects_version_list_index_layout (meta e') = objects_version_list_index_layout (meta e)
    \<and> extended_metadata_index_layout (meta e') = extended_metadata_index_layout (meta e)"
proof -
  obtain e1 where "V1_save env src (S3BucketMetadataV1_init src) = Some e1"
      "\<exists>e2 st2. engine_run env lay outs (e1, st0) = Some (e2, st2)
        \<and> save_end env src (global_to_json env (global_of src)) st0 e2 st2"
    using save_complete [OF assms(1-3,5)] by metis
  then have ends: "save_end env src (global_to_json env (global_of src)) st0 e st" using assms(6,7) by auto
  then have fin: "save_same src (meta e)" "info_written src (meta e)"
      "global_index st = map_put (bucket_name src) (global_to_json env (global_of src)) (global_index st0)"
      "info_index st = map_put (info_key src) (bucket_text env (meta e)) (info_index st0)"
    using assms(8) by (auto simp: save_end_def save_failed_def)
  have wf: "bucket_wf (meta e)" using save_same_fields [OF fin(1)] assms(1) by (simp add: bucket_wf_def save_source_ok_def)
  have nul: "keys_no_nul (user_defined_attribute (meta e))" using save_same_fields [OF fin(1)] assms(15) by simp
  have lib: "asString (ee_lib env) (JStr x) = Some x" for x using assms(9) by (simp add: jsoncpp_reads_back_def)
  have rd: "from_json (ee_lib env) (ee_bucket_metadata_corrupted env) (bucket_text env (meta e)) b
      = Some (bucket_copy (meta e) b, 0)" for b
    using bucket_from_doc [OF wf assms(13) lib assms(14) nul] assms(10,12)
    by (simp add: from_json_def bucket_text_def jsoncpp_reads_back_def)
  have load: "\<exists>e'. engine_run env lay [Performs, Performs] (V1_load src' (S3BucketMetadataV1_init src'), st) = Some (e', st)
      \<and> reported e' = [Bpresent] \<and> in_flight e' = None
      \<and> meta e' = (bucket_copy (meta e) (src'\<lparr>account_id := g_account_id (global_of src),
          account_name := g_account_name (global_of src)\<rparr>))\<lparr>bm_state := Bpresent\<rparr>"
    by (rule load_run [OF _ _ _ _ assms(9,11) rd])
      (use fin(3,4) assms in \<open>simp_all add: global_of_def info_key_def save_source_ok_def\<close>)
  show ?thesis
    using load
    by (elim ex_forward conjE, intro conjI allI)
      (simp_all add: written_copy [OF fin(1,2)] save_same_fields [OF fin(1)],
       simp_all add: bucket_copy_def save_same_fields [OF fin(1)] saved_system_def)
qed

section \<open>A concrete bucket\<close>

definition new_bucket :: S3BucketMetadata where
  "new_bucket =
     (S3BucketMetadata_init \<lparr>rq_request_id = ''r'', rq_stripped_request_id = ''r'', rq_bucket_name = ''b'',
        rq_default_acl = ''QUNM'', rq_account_name = ''acc'', rq_account_id = ''12'', rq_user_name = ''root'',
        rq_user_id = ''34'', rq_canonical_id = ''56''\<rparr> [])
     \<lparr>bm_state := Bmissing, account_id := ''12'', account_name := ''acc'', user_name := ''root'', user_id := ''34'',
      bucket_policy := ''{p}''\<rparr>"

definition sample_oid :: "string \<Rightarrow> m0_uint128" where
  "sample_oid n = \<lparr>u_hi = of_nat (length n), u_lo = of_nat (of_char (last n))\<rparr>"

definition sample_lay :: "m0_uint128 \<Rightarrow> s3_motr_idx_layout" where
  "sample_lay i = \<lparr>oid = i, pver = \<lparr>f_container = 0, f_key = 0\<rparr>, layout_type = 1\<rparr>"

definition sample_env :: "jsoncpp \<Rightarrow> engine_env" where
  "sample_env lib = \<lparr>ee_lib = lib, ee_pad = (\<lambda>_. ''pad!''), ee_now = ''now'', ee_uri_oid = sample_oid,
     ee_bucket_metadata_corrupted = False, ee_root_bucket_list_index_metadata_corrupted = False,
     ee_kv_delete_failed_from_global_index = False\<rparr>"

definition empty_store :: kvs_store where
  "empty_store = \<lparr>global_index = [], info_index = [], indices = []\<rparr>"

definition saved_bucket :: S3BucketMetadata where
  "saved_bucket = new_bucket\<lparr>bm_state := Bpresent, encoded_acl := ''QUNM'',
     system_defined_attribute := [(''LocationConstraint'', []), (''Owner-Account'', ''acc''), (''Owner-Account-id'', ''12''),
       (''Owner-User'', ''root''), (''Owner-User-id'', ''34'')],
     object_list_index_layout := sample_lay (sample_oid ''BUCKET/b''),
     multipart_index_layout := sample_lay (sample_oid ''BUCKET/b/Multipart''),
     objects_version_list_index_layout := sample_lay (sample_oid ''BUCKET/b/objects/versions''),
     extended_metadata_index_layout := sample_lay (sample_oid ''BUCKET/b/ExtendedMetadata'')\<rparr>"

definition all_perform :: "outcome list" where
  "all_perform = Performs # Performs # Performs # Performs # Performs # Performs # replicate 161 Performs"

lemma new_bucket_ok: "save_source_ok new_bucket"
  by (simp add: save_source_ok_def new_bucket_def S3BucketMetadata_init_def bucket_wf_def)

lemma all_perform_length: "167 \<le> length all_perform"
  by (simp add: all_perform_def)

lemma engine_run_done: "in_flight e = None \<Longrightarrow> engine_run env lay outs (e, st) = Some (e, st)"
  by (cases outs) simp_all

lemma sample_save_run:
  "\<exists>e0 e st. V1_save (sample_env lib) new_bucket (S3BucketMetadataV1_init new_bucket) = Some e0
    \<and> engine_run (sample_env lib) sample_lay all_perform (e0, empty_store) = Some (e, st)
    \<and> reported e = [Bpresent] \<and> meta e = saved_bucket"
  by (simp add: V1_save_def new_bucket_def S3BucketMetadata_init_def S3BucketMetadataV1_init_def
      get_global_bucket_index_metadata_def S3GlobalBucketIndexMetadata_init_def Let_def case_prod_beta
      map_index_def map_get_def request_kvs_def set_global_def all_perform_def empty_store_def deliver_def
      deliver_write_def with_global_def save_global_bucket_account_id_info_successful_def
      create_object_list_index_def sample_env_def sample_oid_def sample_lay_def get_object_list_index_name_def
      get_multipart_index_name_def get_version_list_index_name_def get_extended_metadata_index_name_def
      create_object_list_index_successful_def create_multipart_list_index_def create_multipart_list_index_successful_def
      create_objects_version_list_index_def create_objects_version_list_index_successful_def
      create_extended_metadata_index_def create_extended_metadata_index_successful_def save_bucket_info_def
      get_bucket_metadata_index_key_name_def to_json_def report_state_def saved_bucket_def
      engine_run_done)

text \<open>A library for the two documents of the sample.\<close>

definition sample_lib :: jsoncpp where
  "sample_lib =
     (let d1 = global_doc (global_of new_bucket); d2 = JObj (bucket_doc (\<lambda>_. ''pad!'') ''now'' saved_bucket) in
      \<lparr>writer_write = (\<lambda>d. if d = d1 then ''1'' else ''2''), reader_parse = (\<lambda>s. Some (if s = ''1'' then d1 else d2)),
       asString = (\<lambda>j. case j of JNull \<Rightarrow> Some [] | JStr s \<Rightarrow> Some s | _ \<Rightarrow> None),
       asInt = json_number, asUInt = json_number, asUInt64 = json_number\<rparr>)"

lemma sample_docs_differ: "global_doc (global_of new_bucket) \<noteq> JObj (bucket_doc (\<lambda>_. ''pad!'') ''now'' saved_bucket)"
proof
  assume eq: "global_doc (global_of new_bucket) = JObj (bucket_doc (\<lambda>_. ''pad!'') ''now'' saved_bucket)"
  have "bucket_wf saved_bucket"
    by (simp add: saved_bucket_def new_bucket_def S3BucketMetadata_init_def bucket_wf_def map_wf_def)
  note doc = bucket_doc_get(1) [OF this, of "\<lambda>_. ''pad!''" "''now''"]
  from eq have "bucket_doc (\<lambda>_. ''pad!'') ''now'' saved_bucket =
      (case global_doc (global_of new_bucket) of JObj ms \<Rightarrow> ms | _ \<Rightarrow> [])" by simp
  with doc show False by (simp add: global_doc_def map_get_def)
qed

lemma sample_lib_reads_back:
  "jsoncpp_reads_back sample_lib (global_doc (global_of new_bucket))"
  "jsoncpp_reads_back sample_lib (JObj (bucket_doc (\<lambda>_. ''pad!'') ''now'' saved_bucket))"
  using sample_docs_differ by (auto simp: jsoncpp_reads_back_def sample_lib_def Let_def no_nul_def)

theorem engine_reports_exactly_once_witness:
  "\<exists>e0 e st. op_started (sample_env sample_lib) new_bucket e0
    \<and> engine_run (sample_env sample_lib) sample_lay all_perform (e0, empty_store) = Some (e, st)
    \<and> in_flight e = None \<and> (\<exists>s. reported e = [s])"
proof -
  obtain e0 e st where r: "V1_save (sample_env sample_lib) new_bucket (S3BucketMetadataV1_init new_bucket) = Some e0"
      "engine_run (sample_env sample_lib) sample_lay all_perform (e0, empty_store) = Some (e, st)"
    using sample_save_run by blast
  have "op_started (sample_env sample_lib) new_bucket e0" using r(1) by (simp add: op_started_def)
  with engine_reports_exactly_once [OF this all_perform_length r(2)] r show ?thesis by blast
qed

theorem save_ends_consistently_witness:
  "\<exists>e0 e st s. V1_save (sample_env sample_lib) new_bucket (S3BucketMetadataV1_init new_bucket) = Some e0
    \<and> engine_run (sample_env sample_lib) sample_lay all_perform (e0, empty_store) = Some (e, st)
    \<and> in_flight e = None \<and> reported e = [s]"
proof -
  have lay: "\<And>i. oid (sample_lay i) = i" by (simp add: sample_lay_def)
  have wf: "map_wf (global_index empty_store)" by (simp add: empty_store_def)
  from save_ends_consistently [OF new_bucket_ok lay wf all_perform_length, of "sample_env sample_lib"]
  show ?thesis by blast
qed

theorem exhausted_collisions_leave_global_entry_witness:
  "\<exists>e0 e st. engine_run ((sample_env sample_lib)\<lparr>ee_uri_oid := \<lambda>_. sample_oid ''x''\<rparr>) sample_lay (replicate 22 Performs)
      (e0, empty_store\<lparr>indices := [sample_oid ''x'']\<rparr>) = Some (e, st)
    \<and> reported e = [Bfailed] \<and> map_get (global_index st) ''b'' \<noteq> None"
proof -
  let ?env = "(sample_env sample_lib)\<lparr>ee_uri_oid := \<lambda>_. sample_oid ''x''\<rparr>"
  let ?st = "empty_store\<lparr>indices := [sample_oid ''x'']\<rparr>"
  have "ee_uri_oid ?env n \<in> set (indices ?st)" for n by simp
  from exhausted_collisions_leave_global_entry [where lay = sample_lay, OF new_bucket_ok this]
  obtain e0 e st where r: "engine_run ?env sample_lay (replicate 22 Performs) (e0, ?st) = Some (e, st)"
      "reported e = [Bfailed]"
      "global_index st = map_put (bucket_name new_bucket) (global_to_json ?env (global_of new_bucket)) (global_index ?st)"
    by blast
  then show ?thesis
    by (intro exI [of _ e0] exI [of _ e] exI [of _ st])
      (simp add: empty_store_def new_bucket_def S3BucketMetadata_init_def map_get_def)
qed

theorem saved_bucket_loads_back_witness:
  "\<exists>e' st. engine_run (sample_env sample_lib) sample_lay [Performs, Performs]
      (V1_load new_bucket (S3BucketMetadataV1_init new_bucket), st) = Some (e', st)
    \<and> reported e' = [Bpresent] \<and> bucket_policy (meta e') = ''{p}''
    \<and> account_name (meta e') = ''acc'' \<and> user_id (meta e') = ''34''"
proof -
  let ?env = "sample_env sample_lib"
  obtain e0 e st where r: "V1_save ?env new_bucket (S3BucketMetadataV1_init new_bucket) = Some e0"
      "engine_run ?env sample_lay all_perform (e0, empty_store) = Some (e, st)" "reported e = [Bpresent]"
      "meta e = saved_bucket"
    using sample_save_run by blast
  have lay: "\<And>i. oid (sample_lay i) = i" by (simp add: sample_lay_def)
  have wf: "map_wf (global_index empty_store)" "map_wf (info_index empty_store)" by (simp_all add: empty_store_def)
  have lib: "jsoncpp_reads_back (ee_lib ?env) (global_doc (global_of new_bucket))"
      "jsoncpp_reads_back (ee_lib ?env) (JObj (bucket_doc (ee_pad ?env) (ee_now ?env) (meta e)))"
    using sample_lib_reads_back by (simp_all add: sample_env_def r(4))
  have flags: "\<not> ee_root_bucket_list_index_metadata_corrupted ?env" "\<not> ee_bucket_metadata_corrupted ?env"
      "\<And>n. length (ee_pad ?env n) = 4"
    by (simp_all add: sample_env_def)
  have nul: "keys_no_nul (system_defined_attribute (meta e))" "keys_no_nul (user_defined_attribute new_bucket)"
    by (simp_all add: r(4) saved_bucket_def new_bucket_def S3BucketMetadata_init_def keys_no_nul_def no_nul_def)
  from saved_bucket_loads_back [OF new_bucket_ok lay wf all_perform_length r(1-3) lib flags nul refl]
  show ?thesis by (auto simp: new_bucket_def)
qed

end
