(* ===== verification/Action_Base.thy ===== *)
theory Action_Base
  imports S3_Prelude
begin

text \<open>
  \<open>server/action_base.cc\<close>, \<open>server/s3_action_base.cc\<close> and \<open>server/motr_action_base.cc\<close>: the
  engine every API request runs on.  An action is a list of tasks, each of which starts an
  asynchronous operation and has a callback that calls \<open>next\<close>, \<open>rollback_start\<close>, \<open>done\<close>
  and so on, and a deque of undo tasks.  The engine is a state machine: a call changes the
  record \<open>action\<close> and gives the list of things the engine called.  Every call of a task, of
  \<open>send_response_to_s3_client\<close> and of \<open>startcleanup\<close> is the last thing its caller does, so
  it is the last event of the list, and what the task does next is a further call.

  What the engine reads from the request object, from the options and from the
  authentication client is the record \<open>action_env\<close>, given with every call.  Logging,
  statistics timings and ADDB records are left out.
\<close>

datatype ActionState =
    ACTS_START | ACTS_RUNNING | ACTS_COMPLETE | ACTS_PAUSED | ACTS_STOPPED | ACTS_ERROR

record action_env =
  is_s3_shutting_down :: bool
  client_connected :: bool
  s3_client_read_error :: string
  is_chunk_auth_op_aborted :: bool
  auth_error_code :: string
  auth_error_message :: string

definition is_s3_client_read_error :: "action_env \<Rightarrow> bool" where
  "is_s3_client_read_error e \<longleftrightarrow> s3_client_read_error e \<noteq> []"

record 't action =
  task_list :: "'t list"
  task_iteration_index :: nat
  rollback_list :: "'t list"
  rollback_index :: nat
  self_ref :: bool
  s3_error_code :: string
  s3_error_message :: string
  act_state :: ActionState
  rollback_state :: ActionState
  check_shutdown_signal :: bool
  is_response_scheduled :: bool
  is_fi_hit :: bool
  invalid_request :: bool
  skip_auth :: bool
  is_authorizationheader_present :: bool
  skip_authorization :: bool
  action_uses_cleanup :: bool
  cleanup_started :: bool

datatype 't event =
    Ran 't
  | RolledBack 't
  | SendResponse
  | StartCleanup
  | StopIncomingData
  | PauseRequest
  | StatsInc string
  | OutHeader string string
  | RespondError string string
  | RespondRetryAfter nat
  | Finished

section \<open>Task lists\<close>

definition add_task :: "'t \<Rightarrow> 't action \<Rightarrow> 't action" where
  "add_task t a = a\<lparr>task_list := task_list a @ [t]\<rparr>"

definition clear_tasks :: "'t action \<Rightarrow> 't action" where
  "clear_tasks a = a\<lparr>task_list := [], task_iteration_index := 0\<rparr>"

definition add_task_rollback :: "'t \<Rightarrow> 't action \<Rightarrow> 't action" where
  "add_task_rollback t a = a\<lparr>rollback_list := t # rollback_list a\<rparr>"

definition clear_tasks_rollback :: "'t action \<Rightarrow> 't action" where
  "clear_tasks_rollback a = a\<lparr>rollback_list := []\<rparr>"

definition number_of_tasks :: "'t action \<Rightarrow> nat" where
  "number_of_tasks a = length (task_list a)"

definition number_of_rollback_tasks :: "'t action \<Rightarrow> nat" where
  "number_of_rollback_tasks a = length (rollback_list a)"

definition check_shutdown_signal_for_next_task :: "bool \<Rightarrow> 't action \<Rightarrow> 't action" where
  "check_shutdown_signal_for_next_task check_signal a = a\<lparr>check_shutdown_signal := check_signal\<rparr>"

definition reject_if_shutting_down :: "'t action \<Rightarrow> bool" where
  "reject_if_shutting_down a \<longleftrightarrow> is_response_scheduled a"

definition set_s3_error :: "string \<Rightarrow> 't action \<Rightarrow> 't action" where
  "set_s3_error code a = a\<lparr>act_state := ACTS_ERROR, s3_error_code := code\<rparr>"

definition set_s3_error_message :: "string \<Rightarrow> 't action \<Rightarrow> 't action" where
  "set_s3_error_message msg a = a\<lparr>s3_error_message := msg\<rparr>"

definition is_error_state :: "'t action \<Rightarrow> bool" where
  "is_error_state a \<longleftrightarrow> act_state a = ACTS_ERROR"

section \<open>Construction\<close>

text \<open>
  \<open>check_authorization_header\<close>: the header's name is compared as a C string.  The request
  headers are given by their names.
\<close>

definition check_authorization_header :: "string list \<Rightarrow> 't action \<Rightarrow> 't action" where
  "check_authorization_header in_headers a =
     a\<lparr>is_authorizationheader_present := list_ex (\<lambda>h. takeWhile (\<lambda>c. c \<noteq> CHR 0x00) h = ''Authorization'') in_headers\<rparr>"

text \<open>\<open>check_authentication\<close> is the task the derived class knows under this name.\<close>

definition action_setup_steps :: "'t \<Rightarrow> bool \<Rightarrow> string list \<Rightarrow> 't action \<Rightarrow> 't action" where
  "action_setup_steps check_authentication is_auth_disabled in_headers a =
     (let a1 = check_authorization_header in_headers a
      in if \<not> is_auth_disabled \<and> \<not> skip_auth a1 \<and> is_authorizationheader_present a1 \<and> skip_authorization a1
         then add_task check_authentication a1 else a1)"

definition Action_init :: "'t \<Rightarrow> bool \<Rightarrow> string list \<Rightarrow> bool \<Rightarrow> bool \<Rightarrow> bool \<Rightarrow> 't action" where
  "Action_init check_authentication is_auth_disabled in_headers check_shutdown skip_auth' skip_authorization' =
     action_setup_steps check_authentication is_auth_disabled in_headers
       \<lparr>task_list = [], task_iteration_index = 0, rollback_list = [], rollback_index = 0,
        self_ref = False, s3_error_code = [], s3_error_message = [],
        act_state = ACTS_START, rollback_state = ACTS_START,
        check_shutdown_signal = check_shutdown, is_response_scheduled = False, is_fi_hit = False,
        invalid_request = False, skip_auth = skip_auth', is_authorizationheader_present = False,
        skip_authorization = skip_authorization', action_uses_cleanup = False,
        cleanup_started = False\<rparr>"

definition manage_self :: "'t action \<Rightarrow> 't action" where
  "manage_self a = a\<lparr>self_ref := True\<rparr>"

text \<open>The tasks an S3 action starts with; a derived class adds its own after them.\<close>

datatype s3_base_task =
    check_authentication | load_metadata | set_authorization_meta | check_authorization

definition S3Action_setup_steps :: "bool \<Rightarrow> (s3_base_task \<Rightarrow> 't) \<Rightarrow> 't action \<Rightarrow> 't action" where
  "S3Action_setup_steps is_auth_disabled task a =
     (let a1 = add_task (task load_metadata) a
      in if \<not> is_auth_disabled \<and> \<not> skip_auth a1 \<and> \<not> skip_authorization a1
         then add_task (task check_authorization) (add_task (task set_authorization_meta) a1)
         else a1)"

definition S3Action_init ::
  "bool \<Rightarrow> string list \<Rightarrow> bool \<Rightarrow> bool \<Rightarrow> bool \<Rightarrow> (s3_base_task \<Rightarrow> 't) \<Rightarrow> 't action" where
  "S3Action_init is_auth_disabled in_headers check_shutdown skip_auth' skip_authorize task =
     S3Action_setup_steps is_auth_disabled task
       (Action_init (task check_authentication) is_auth_disabled in_headers check_shutdown skip_auth' skip_authorize)"

text \<open>The Motr actions: the default of \<open>skip_authorization\<close> is true.\<close>

definition MotrAction_setup_steps :: "bool \<Rightarrow> (s3_base_task \<Rightarrow> 't) \<Rightarrow> 't action \<Rightarrow> 't action" where
  "MotrAction_setup_steps is_auth_disabled task a =
     (if \<not> is_auth_disabled \<and> \<not> skip_auth a then add_task (task check_authorization) a else a)"

definition MotrAction_init ::
  "bool \<Rightarrow> string list \<Rightarrow> bool \<Rightarrow> bool \<Rightarrow> (s3_base_task \<Rightarrow> 't) \<Rightarrow> 't action" where
  "MotrAction_init is_auth_disabled in_headers check_shutdown skip_auth' task =
     MotrAction_setup_steps is_auth_disabled task
       (Action_init (task check_authentication) is_auth_disabled in_headers check_shutdown skip_auth' True)"

section \<open>The engine\<close>

definition action_done :: "'t action \<Rightarrow> 't action \<times> 't event list" where
  "action_done a = (a\<lparr>task_iteration_index := 0, act_state := ACTS_COMPLETE, self_ref := False\<rparr>, [Finished])"

definition action_pause :: "'t action \<Rightarrow> 't action" where
  "action_pause a = a\<lparr>act_state := ACTS_PAUSED\<rparr>"

definition action_resume :: "'t action \<Rightarrow> 't action" where
  "action_resume a = a\<lparr>act_state := ACTS_RUNNING\<rparr>"

definition action_abort :: "'t action \<Rightarrow> 't action" where
  "action_abort a = a\<lparr>task_iteration_index := 0, act_state := ACTS_STOPPED\<rparr>"

definition rollback_exit :: "'t action \<Rightarrow> 't action \<times> 't event list" where
  "rollback_exit a = action_done a"

definition rollback_done :: "'t action \<Rightarrow> 't action \<times> 't event list" where
  "rollback_done a = rollback_exit (a\<lparr>rollback_index := 0, rollback_state := ACTS_COMPLETE\<rparr>)"

definition rollback_start :: "'t action \<Rightarrow> 't action \<times> 't event list" where
  "rollback_start a =
     (if rollback_state a \<noteq> ACTS_START then (a, [StopIncomingData])
      else let a1 = a\<lparr>rollback_index := 0, rollback_state := ACTS_RUNNING\<rparr>
           in case rollback_list a1 of
                [] \<Rightarrow> (let (a2, ev) = rollback_done a1 in (a2, StopIncomingData # ev))
              | t # _ \<Rightarrow> (a1\<lparr>rollback_index := 1\<rparr>, [StopIncomingData, RolledBack t]))"

definition rollback_next :: "'t action \<Rightarrow> 't action \<times> 't event list" where
  "rollback_next a =
     (if rollback_index a < length (rollback_list a)
      then (a\<lparr>rollback_index := Suc (rollback_index a)\<rparr>, [RolledBack (rollback_list a ! rollback_index a)])
      else rollback_done a)"

definition cleanup_or_rollback :: "'t action \<Rightarrow> 't action \<times> 't event list" where
  "cleanup_or_rollback a = (if action_uses_cleanup a then (a, [StartCleanup]) else rollback_start a)"

definition client_read_error :: "action_env \<Rightarrow> 't action \<Rightarrow> 't action \<times> 't event list" where
  "client_read_error e a =
     (let a1 = set_s3_error (s3_client_read_error e) a
      in if s3_client_read_error e = ''RequestTimeout'' then (a1, [SendResponse])
         else cleanup_or_rollback a1)"

text \<open>The third component is the value returned: whether the server is shutting down.\<close>

definition check_shutdown_and_rollback ::
  "action_env \<Rightarrow> bool \<Rightarrow> 't action \<Rightarrow> 't action \<times> 't event list \<times> bool" where
  "check_shutdown_and_rollback e check_auth_op_aborted a =
     (let shut = is_s3_shutting_down e;
          stop = (if shut then [StopIncomingData] else [])
      in if shut \<and> check_auth_op_aborted \<and> is_chunk_auth_op_aborted e
         then (a, stop @ [SendResponse], shut)
         else if \<not> is_response_scheduled a \<and> shut
         then let a1 = a\<lparr>is_response_scheduled := True\<rparr>;
                  a2 = (if s3_error_code a1 = [] then set_s3_error ''ServiceUnavailable'' a1 else a1)
              in (a2, stop @ [PauseRequest, SendResponse], shut)
         else (a, stop, shut))"

definition checked ::
  "action_env \<Rightarrow> 't action \<Rightarrow> ('t action \<Rightarrow> 't action \<times> 't event list) \<Rightarrow> 't action \<times> 't event list" where
  "checked e a body =
     (if check_shutdown_signal a
      then let (a1, ev, shut) = check_shutdown_and_rollback e False a
           in if shut then (a1, ev) else (let (a2, ev') = body a1 in (a2, ev @ ev'))
      else body a)"

definition action_start :: "action_env \<Rightarrow> 't action \<Rightarrow> 't action \<times> 't event list" where
  "action_start e a =
     checked e a (\<lambda>a.
       let a1 = a\<lparr>task_iteration_index := 0\<rparr>
       in case task_list a1 of
            [] \<Rightarrow> (a1, [])
          | t # _ \<Rightarrow> (a1\<lparr>task_iteration_index := 1\<rparr>, [Ran t]))"

definition action_next :: "action_env \<Rightarrow> 't action \<Rightarrow> 't action \<times> 't event list" where
  "action_next e a =
     checked e a (\<lambda>a.
       if is_s3_client_read_error e \<and> \<not> cleanup_started a then client_read_error e a
       else if task_iteration_index a < length (task_list a) then
         (if cleanup_started a \<or> client_connected e
          then (a\<lparr>task_iteration_index := Suc (task_iteration_index a)\<rparr>,
                [Ran (task_list a ! task_iteration_index a)])
          else cleanup_or_rollback a)
       else action_done a)"

definition check_authentication_successful :: "action_env \<Rightarrow> 't action \<Rightarrow> 't action \<times> 't event list" where
  "check_authentication_successful e a = action_next e a"

definition auth_failure_events :: "string \<Rightarrow> action_env \<Rightarrow> 't event list" where
  "auth_failure_events kind e =
     (let code = auth_error_code e
      in (if code = ''InvalidAccessKeyId'' then [StatsInc (kind @ ''_failed_invalid_accesskey_count'')]
          else if code = ''SignatureDoesNotMatch'' then [StatsInc (kind @ ''_failed_signature_mismatch_count'')]
          else if code = ''ServiceUnavailable'' then [OutHeader ''Retry-After'' ''2'']
          else []) @ [RespondError code (auth_error_message e)])"

definition check_authentication_failed :: "action_env \<Rightarrow> 't action \<Rightarrow> 't action \<times> 't event list" where
  "check_authentication_failed e a =
     (let ev = (if client_connected e then auth_failure_events ''authentication'' e else []);
          (a1, ev') = action_done a
      in (a1, ev @ ev'))"

definition check_authorization_successful :: "action_env \<Rightarrow> 't action \<Rightarrow> 't action \<times> 't event list" where
  "check_authorization_successful e a = action_next e a"

definition check_authorization_failed :: "action_env \<Rightarrow> 't action \<Rightarrow> 't action \<times> 't event list" where
  "check_authorization_failed e a =
     (let a1 = (if client_connected e \<and> auth_error_code e \<notin>
                     {''InvalidAccessKeyId'', ''SignatureDoesNotMatch'', ''ServiceUnavailable''}
                then set_s3_error (auth_error_code e) a else a);
          ev = (if client_connected e then auth_failure_events ''authorization'' e else []);
          (a2, ev') = action_done a1
      in (a2, ev @ ev'))"

text \<open>\<open>MotrAction::check_authorization\<close>: only the background delete account passes.\<close>

definition BACKGROUND_STALE_OBJECT_DELETE_ACCOUNT :: string where
  "BACKGROUND_STALE_OBJECT_DELETE_ACCOUNT = ''s3-background-delete-svc''"

definition motr_check_authorization ::
  "string \<Rightarrow> action_env \<Rightarrow> 't action \<Rightarrow> 't action \<times> 't event list" where
  "motr_check_authorization account_name e a =
     (if account_name = BACKGROUND_STALE_OBJECT_DELETE_ACCOUNT then action_next e a
      else let ev = (if client_connected e
                     then [StatsInc ''authorization_failed_invalid_accesskey_count'', RespondError ''InvalidAccessKeyId'' []]
                     else []);
               (a1, ev') = action_done a
           in (a1, ev @ ev'))"

text \<open>\<open>send_retry_error_to_s3_client\<close> does not use its argument.\<close>

definition send_retry_error_to_s3_client :: "nat \<Rightarrow> 't action \<Rightarrow> 't action \<times> 't event list" where
  "send_retry_error_to_s3_client retry_after_in_secs a =
     (let (a1, ev) = action_done a in (a1, RespondRetryAfter 1 # ev))"

section \<open>Histories of calls\<close>

datatype 't call =
    Call_start | Call_next | Call_done | Call_pause | Call_resume | Call_abort
  | Call_rollback_start | Call_rollback_next | Call_rollback_done
  | Call_client_read_error | Call_check_shutdown bool
  | Call_authentication_failed | Call_authorization_failed | Call_retry_error nat
  | Call_set_error string | Call_set_message string
  | Call_add_task 't | Call_clear_tasks | Call_add_rollback 't | Call_clear_rollback
  | Call_check_signal bool | Call_set_cleanup_started bool

fun engine_call :: "action_env \<Rightarrow> 't call \<Rightarrow> 't action \<Rightarrow> 't action \<times> 't event list" where
  "engine_call e Call_start a = action_start e a"
| "engine_call e Call_next a = action_next e a"
| "engine_call e Call_done a = action_done a"
| "engine_call e Call_pause a = (action_pause a, [])"
| "engine_call e Call_resume a = (action_resume a, [])"
| "engine_call e Call_abort a = (action_abort a, [])"
| "engine_call e Call_rollback_start a = rollback_start a"
| "engine_call e Call_rollback_next a = rollback_next a"
| "engine_call e Call_rollback_done a = rollback_done a"
| "engine_call e Call_client_read_error a = client_read_error e a"
| "engine_call e (Call_check_shutdown b) a = (case check_shutdown_and_rollback e b a of (a1, ev, _) \<Rightarrow> (a1, ev))"
| "engine_call e Call_authentication_failed a = check_authentication_failed e a"
| "engine_call e Call_authorization_failed a = check_authorization_failed e a"
| "engine_call e (Call_retry_error n) a = send_retry_error_to_s3_client n a"
| "engine_call e (Call_set_error c) a = (set_s3_error c a, [])"
| "engine_call e (Call_set_message m) a = (set_s3_error_message m a, [])"
| "engine_call e (Call_add_task t) a = (add_task t a, [])"
| "engine_call e Call_clear_tasks a = (clear_tasks a, [])"
| "engine_call e (Call_add_rollback t) a = (add_task_rollback t a, [])"
| "engine_call e Call_clear_rollback a = (clear_tasks_rollback a, [])"
| "engine_call e (Call_check_signal b) a = (check_shutdown_signal_for_next_task b a, [])"
| "engine_call e (Call_set_cleanup_started b) a = (a\<lparr>cleanup_started := b\<rparr>, [])"

fun engine_run :: "(action_env \<times> 't call) list \<Rightarrow> 't action \<Rightarrow> 't action \<times> 't event list" where
  "engine_run [] a = (a, [])"
| "engine_run ((e, c) # cs) a =
     (let (a1, ev) = engine_call e c a; (a2, ev') = engine_run cs a1 in (a2, ev @ ev'))"

text \<open>The tasks and the undo tasks that were started, up to the end of the action.\<close>

fun tasks_run :: "'t event list \<Rightarrow> 't list" where
  "tasks_run [] = []"
| "tasks_run (Ran t # ev) = t # tasks_run ev"
| "tasks_run (Finished # ev) = []"
| "tasks_run (_ # ev) = tasks_run ev"

fun rollbacks_run :: "'t event list \<Rightarrow> 't list" where
  "rollbacks_run [] = []"
| "rollbacks_run (RolledBack t # ev) = t # rollbacks_run ev"
| "rollbacks_run (Finished # ev) = []"
| "rollbacks_run (_ # ev) = rollbacks_run ev"

section \<open>Lemmas\<close>

lemmas engine_defs = action_done_def rollback_exit_def rollback_done_def rollback_start_def rollback_next_def
  cleanup_or_rollback_def client_read_error_def check_shutdown_and_rollback_def checked_def
  action_start_def action_next_def check_authentication_failed_def check_authorization_failed_def
  send_retry_error_to_s3_client_def auth_failure_events_def set_s3_error_def set_s3_error_message_def
  add_task_def clear_tasks_def add_task_rollback_def clear_tasks_rollback_def
  check_shutdown_signal_for_next_task_def action_pause_def action_resume_def action_abort_def

lemma engine_run_append:
  "engine_run (cs @ cs') a =
     (let (a1, ev) = engine_run cs a; (a2, ev') = engine_run cs' a1 in (a2, ev @ ev'))"
proof (induction cs arbitrary: a)
  case (Cons ec cs)
  obtain e c where "ec = (e, c)" by force
  with Cons show ?case by (auto simp: Let_def split: prod.split)
qed simp

lemma tasks_run_append:
  "tasks_run (ev @ ev') = (if Finished \<in> set ev then tasks_run ev else tasks_run ev @ tasks_run ev')"
  by (induction ev rule: tasks_run.induct) auto

lemma rollbacks_run_append:
  "rollbacks_run (ev @ ev') =
     (if Finished \<in> set ev then rollbacks_run ev else rollbacks_run ev @ rollbacks_run ev')"
  by (induction ev rule: rollbacks_run.induct) auto

text \<open>
  One call: what it runs is the next task, and only when the action goes on does the index
  count what was run.
\<close>

definition keeps_tasks :: "'t call \<Rightarrow> bool" where
  "keeps_tasks c \<longleftrightarrow> c \<noteq> Call_start \<and> c \<noteq> Call_abort \<and> c \<noteq> Call_clear_tasks"

definition tasks_inv :: "'t list \<Rightarrow> 't action \<Rightarrow> bool" where
  "tasks_inv done_tasks a \<longleftrightarrow> done_tasks = take (task_iteration_index a) (task_list a)
     \<and> task_iteration_index a \<le> length (task_list a)"

lemma call_runs_next_task:
  assumes "tasks_inv ts a" "keeps_tasks c" "engine_call e c a = (a', ev)"
  shows "(Finished \<notin> set ev \<longrightarrow> tasks_inv (ts @ tasks_run ev) a')
    \<and> (Finished \<in> set ev \<longrightarrow> tasks_run ev = [])
    \<and> (\<exists>ys. task_list a' = task_list a @ ys)"
  using assms
  by (cases c) (auto simp: keeps_tasks_def tasks_inv_def engine_defs Let_def take_Suc_conv_app_nth
      split: if_splits list.splits)

lemma run_runs_tasks_in_order:
  assumes "tasks_inv ts a" "\<forall>ec \<in> set cs. keeps_tasks (snd ec)" "engine_run cs a = (a', ev)"
  shows "(Finished \<notin> set ev \<longrightarrow> tasks_inv (ts @ tasks_run ev) a')
    \<and> (\<exists>n \<le> length (task_list a'). ts @ tasks_run ev = take n (task_list a'))
    \<and> (\<exists>ys. task_list a' = task_list a @ ys)"
  using assms
proof (induction cs arbitrary: ts a ev)
  case Nil
  then show ?case by (auto simp: tasks_inv_def)
next
  case (Cons ec cs)
  obtain e c a1 ev1 ev2 where step: "ec = (e, c)" "engine_call e c a = (a1, ev1)"
      "engine_run cs a1 = (a', ev2)" "ev = ev1 @ ev2"
    using Cons.prems(3) by (cases ec) (auto simp: Let_def split: prod.splits)
  note one = call_runs_next_task [OF Cons.prems(1) _ step(2)]
  have c: "keeps_tasks c" "\<forall>ec \<in> set cs. keeps_tasks (snd ec)" using Cons.prems(2) step(1) by auto
  show ?case
  proof (cases "Finished \<in> set ev1")
    case False
    from Cons.IH [OF _ c(2) step(3)] one c(1) False
    have "(Finished \<notin> set ev2 \<longrightarrow> tasks_inv ((ts @ tasks_run ev1) @ tasks_run ev2) a')
        \<and> (\<exists>n \<le> length (task_list a'). (ts @ tasks_run ev1) @ tasks_run ev2 = take n (task_list a'))
        \<and> (\<exists>ys. task_list a' = task_list a1 @ ys)" by blast
    with one c(1) False show ?thesis by (auto simp: step(4) tasks_run_append)
  next
    case True
    from one c(1) True obtain ys where ys: "task_list a1 = task_list a @ ys" and none: "tasks_run ev1 = []"
      by blast
    have "tasks_inv (take (task_iteration_index a1) (task_list a1)) a1 \<or> length (task_list a1) < task_iteration_index a1"
      by (auto simp: tasks_inv_def)
    moreover have "task_iteration_index a1 \<le> length (task_list a1)"
      using Cons.prems(1) c(1) step(2) True
      by (cases c) (auto simp: keeps_tasks_def tasks_inv_def engine_defs Let_def split: if_splits list.splits)
    ultimately obtain zs where "task_list a' = task_list a1 @ zs"
      using Cons.IH [OF _ c(2) step(3)] by (meson not_less)
    with ys Cons.prems(1) have "task_list a' = task_list a @ ys @ zs" "task_iteration_index a \<le> length (task_list a')"
      "ts = take (task_iteration_index a) (task_list a')" by (auto simp: tasks_inv_def)
    with True none show ?thesis by (auto simp: step(4) tasks_run_append)
  qed
qed

definition undisturbed :: "action_env \<Rightarrow> bool" where
  "undisturbed e \<longleftrightarrow> \<not> is_s3_shutting_down e \<and> client_connected e \<and> s3_client_read_error e = []"

lemma next_undisturbed:
  "undisturbed e \<Longrightarrow> action_next e a =
     (if task_iteration_index a < length (task_list a)
      then (a\<lparr>task_iteration_index := Suc (task_iteration_index a)\<rparr>, [Ran (task_list a ! task_iteration_index a)])
      else action_done a)"
  by (auto simp: undisturbed_def engine_defs is_s3_client_read_error_def)

lemma nexts_undisturbed:
  assumes "\<forall>e \<in> set es. undisturbed e" "task_iteration_index a + length es = Suc (length (task_list a))"
    "task_iteration_index a \<le> length (task_list a)"
  shows "engine_run (map (\<lambda>e. (e, Call_next)) es) a =
    (a\<lparr>task_iteration_index := 0, act_state := ACTS_COMPLETE, self_ref := False\<rparr>,
     map Ran (drop (task_iteration_index a) (task_list a)) @ [Finished])"
  using assms
proof (induction es arbitrary: a)
  case (Cons e es)
  show ?case
  proof (cases "task_iteration_index a < length (task_list a)")
    case True
    with Cons show ?thesis by (simp add: next_undisturbed Cons_nth_drop_Suc [symmetric])
  next
    case False
    with Cons.prems have "length es = 0" unfolding list.size by linarith
    with False Cons.prems show ?thesis by (simp add: next_undisturbed action_done_def)
  qed
qed simp

text \<open>Undo tasks.\<close>

definition keeps_rollbacks :: "'t call \<Rightarrow> bool" where
  "keeps_rollbacks c \<longleftrightarrow> c \<noteq> Call_clear_rollback \<and> (\<forall>t. c \<noteq> Call_add_rollback t)"

definition rollbacks_inv :: "'t list \<Rightarrow> 't action \<Rightarrow> bool" where
  "rollbacks_inv undone a \<longleftrightarrow> undone = take (rollback_index a) (rollback_list a)
     \<and> rollback_index a \<le> length (rollback_list a)
     \<and> (rollback_state a = ACTS_START \<longrightarrow> rollback_index a = 0)"

definition rollbacks_step :: "'t list \<Rightarrow> 't action \<Rightarrow> 't action \<times> 't event list \<Rightarrow> bool" where
  "rollbacks_step us a r \<longleftrightarrow>
     (Finished \<notin> set (snd r) \<longrightarrow> rollbacks_inv (us @ rollbacks_run (snd r)) (fst r))
     \<and> (Finished \<in> set (snd r) \<longrightarrow> rollbacks_run (snd r) = []) \<and> rollback_list (fst r) = rollback_list a
     \<and> (rollback_state a \<noteq> ACTS_START \<longrightarrow> rollback_state (fst r) \<noteq> ACTS_START)"

definition same_rollbacks :: "'t action \<Rightarrow> 't action \<Rightarrow> bool" where
  "same_rollbacks a a' \<longleftrightarrow> rollback_list a' = rollback_list a \<and> rollback_index a' = rollback_index a
     \<and> rollback_state a' = rollback_state a"

lemma rollbacks_step_same:
  assumes "rollbacks_inv us a" "same_rollbacks a a'" "rollbacks_run ev = []"
  shows "rollbacks_step us a (a', ev)"
  using assms by (simp add: rollbacks_step_def rollbacks_inv_def same_rollbacks_def)

lemma rollbacks_step_prefix:
  assumes "same_rollbacks a a1" "rollbacks_step us a1 r" "rollbacks_run ev = []" "Finished \<notin> set ev"
  shows "rollbacks_step us a (fst r, ev @ snd r)"
  using assms by (simp add: rollbacks_step_def same_rollbacks_def rollbacks_run_append)

lemma rollback_start_step:
  assumes "rollbacks_inv us a"
  shows "rollbacks_step us a (rollback_start a)"
  using assms
  by (cases "rollback_list a") (simp_all add: rollbacks_step_def rollbacks_inv_def rollback_start_def
      rollback_done_def rollback_exit_def action_done_def Let_def)

lemma rollback_next_step:
  assumes "rollbacks_inv us a" "rollback_state a \<noteq> ACTS_START"
  shows "rollbacks_step us a (rollback_next a)"
  using assms by (simp add: rollbacks_step_def rollbacks_inv_def rollback_next_def
      rollback_done_def rollback_exit_def action_done_def take_Suc_conv_app_nth)

lemma rollback_done_step: "rollbacks_step us a (rollback_done a)"
  by (simp add: rollbacks_step_def rollback_done_def rollback_exit_def action_done_def)

lemma cleanup_or_rollback_step: "rollbacks_inv us a \<Longrightarrow> rollbacks_step us a (cleanup_or_rollback a)"
  by (simp add: cleanup_or_rollback_def rollback_start_step rollbacks_step_same same_rollbacks_def)

lemma client_read_error_step:
  assumes "rollbacks_inv us a"
  shows "rollbacks_step us a (client_read_error e a)"
proof -
  let ?a = "set_s3_error (s3_client_read_error e) a"
  have "same_rollbacks a ?a" "rollbacks_inv us ?a"
    using assms by (simp_all add: same_rollbacks_def set_s3_error_def rollbacks_inv_def)
  then show ?thesis
    using rollbacks_step_same [OF assms, of ?a "[SendResponse]"]
      rollbacks_step_prefix [of a ?a us "cleanup_or_rollback ?a" "[]"] cleanup_or_rollback_step [of us ?a]
    by (auto simp: client_read_error_def Let_def)
qed

lemma check_shutdown_same:
  assumes "check_shutdown_and_rollback e b a = (a', ev, r)"
  shows "same_rollbacks a a'" "rollbacks_run ev = []" "Finished \<notin> set ev"
  using assms by (auto simp: check_shutdown_and_rollback_def Let_def same_rollbacks_def set_s3_error_def split: if_splits)

lemma checked_step:
  assumes "rollbacks_inv us a" "\<And>a. rollbacks_inv us a \<Longrightarrow> rollbacks_step us a (body a)"
  shows "rollbacks_step us a (checked e a body)"
proof -
  obtain a1 ev shut where shut: "check_shutdown_and_rollback e False a = (a1, ev, shut)" by (metis prod_cases3)
  note same = check_shutdown_same [OF shut]
  have "rollbacks_inv us a1" using assms(1) same(1) by (simp add: rollbacks_inv_def same_rollbacks_def)
  from rollbacks_step_prefix [OF same(1) assms(2) [OF this] same(2,3)] rollbacks_step_same [OF assms(1) same(1,2)] assms
  show ?thesis by (simp add: checked_def shut Let_def case_prod_beta)
qed

lemma action_done_step: "rollbacks_step us a (action_done a)"
  by (simp add: rollbacks_step_def action_done_def)

lemma action_start_step: "rollbacks_inv us a \<Longrightarrow> rollbacks_step us a (action_start e a)"
  unfolding action_start_def
  by (rule checked_step, assumption)
    (auto simp: Let_def intro!: rollbacks_step_same simp: same_rollbacks_def split: list.split)

lemma action_next_step: "rollbacks_inv us a \<Longrightarrow> rollbacks_step us a (action_next e a)"
  unfolding action_next_def
  by (rule checked_step, assumption)
    (simp add: client_read_error_step cleanup_or_rollback_step action_done_step rollbacks_step_same same_rollbacks_def)

lemma call_runs_next_rollback:
  assumes "rollbacks_inv us a" "keeps_rollbacks c" "c = Call_rollback_next \<longrightarrow> rollback_state a \<noteq> ACTS_START"
  shows "rollbacks_step us a (engine_call e c a)"
  using assms
  by (cases c) (simp_all add: action_start_step action_next_step action_done_step rollback_start_step
      rollback_next_step rollback_done_step client_read_error_step keeps_rollbacks_def,
    auto intro!: rollbacks_step_same simp: same_rollbacks_def engine_defs rollbacks_step_def rollbacks_inv_def Let_def
      split: prod.split if_splits)

lemma adds_rollbacks:
  "engine_run (map (\<lambda>(e, t). (e, Call_add_rollback t)) regs) a =
     (a\<lparr>rollback_list := rev (map snd regs) @ rollback_list a\<rparr>, [])"
proof (induction regs arbitrary: a)
  case (Cons r regs)
  obtain e t where "r = (e, t)" by force
  with Cons show ?case by (simp add: add_task_rollback_def)
qed simp

lemma rollback_nexts:
  assumes "rollback_index a + length es = Suc (length (rollback_list a))" "rollback_index a \<le> length (rollback_list a)"
  shows "snd (engine_run (map (\<lambda>e. (e, Call_rollback_next)) es) a) =
      map RolledBack (drop (rollback_index a) (rollback_list a)) @ [Finished]"
  using assms
proof (induction es arbitrary: a)
  case (Cons e es)
  show ?case
  proof (cases "rollback_index a < length (rollback_list a)")
    case True
    let ?a = "a\<lparr>rollback_index := Suc (rollback_index a)\<rparr>"
    from Cons.IH [of ?a] Cons.prems True
    have "snd (engine_run (map (\<lambda>e. (e, Call_rollback_next)) es) ?a) =
        map RolledBack (drop (Suc (rollback_index a)) (rollback_list a)) @ [Finished]" by simp
    with True show ?thesis
      by (simp add: rollback_next_def Let_def case_prod_beta Cons_nth_drop_Suc [symmetric])
  next
    case False
    with Cons.prems have "length es = 0" unfolding list.size by linarith
    with False Cons.prems show ?thesis
      by (simp add: rollback_next_def rollback_done_def rollback_exit_def action_done_def)
  qed
qed simp

text \<open>Calls in which undo tasks are only stepped after they were started.\<close>

fun rollback_disciplined :: "(action_env \<times> 't call) list \<Rightarrow> 't action \<Rightarrow> bool" where
  "rollback_disciplined [] a \<longleftrightarrow> True"
| "rollback_disciplined ((e, c) # cs) a \<longleftrightarrow>
     keeps_rollbacks c \<and> (c = Call_rollback_next \<longrightarrow> rollback_state a \<noteq> ACTS_START)
     \<and> rollback_disciplined cs (fst (engine_call e c a))"

lemma run_rolls_back_once:
  assumes "rollbacks_inv us a" "rollback_disciplined cs a"
  shows "\<exists>n. us @ rollbacks_run (snd (engine_run cs a)) = take n (rollback_list a)"
  using assms
proof (induction cs arbitrary: us a)
  case Nil
  then show ?case by (auto simp: rollbacks_inv_def)
next
  case (Cons ec cs)
  obtain e c where ec: "ec = (e, c)" by force
  obtain a1 ev where call: "engine_call e c a = (a1, ev)" by force
  from call_runs_next_rollback [OF Cons.prems(1)] Cons.prems(2) ec call
  have step: "rollbacks_step us a (a1, ev)" by (metis rollback_disciplined.simps(2))
  have disc: "rollback_disciplined cs a1" using Cons.prems(2) ec call by simp
  have run: "snd (engine_run (ec # cs) a) = ev @ snd (engine_run cs a1)"
    by (simp add: ec call Let_def case_prod_beta)
  show ?case
  proof (cases "Finished \<in> set ev")
    case True
    with step Cons.prems(1) show ?thesis
      by (auto simp: run rollbacks_run_append rollbacks_step_def rollbacks_inv_def)
  next
    case False
    with step have "rollbacks_inv (us @ rollbacks_run ev) a1" "rollback_list a1 = rollback_list a"
      by (simp_all add: rollbacks_step_def)
    with Cons.IH [OF _ disc] False show ?thesis by (fastforce simp: run rollbacks_run_append)
  qed
qed

text \<open>Shutdown.\<close>

definition quiet_call :: "action_env \<times> 't call \<Rightarrow> bool" where
  "quiet_call ec \<longleftrightarrow> s3_client_read_error (fst ec) \<noteq> ''RequestTimeout'' \<and> snd ec \<noteq> Call_check_shutdown True"

definition responses :: "'t event list \<Rightarrow> nat" where
  "responses ev = length (filter (\<lambda>x. x = SendResponse) ev)"

definition credit :: "'t action \<Rightarrow> nat" where
  "credit a = (if is_response_scheduled a then 0 else 1)"

lemma responses_simps [simp]:
  "responses [] = 0" "responses (x # ev) = (if x = SendResponse then Suc (responses ev) else responses ev)"
  "responses (ev @ ev') = responses ev + responses ev'"
  by (simp_all add: responses_def)

lemma rollback_start_credit [simp]:
  "responses (snd (rollback_start a)) = 0" "credit (fst (rollback_start a)) = credit a"
  by (auto simp: credit_def rollback_start_def rollback_done_def rollback_exit_def action_done_def Let_def
      split: list.split)

lemma cleanup_or_rollback_credit [simp]:
  "responses (snd (cleanup_or_rollback a)) = 0" "credit (fst (cleanup_or_rollback a)) = credit a"
  by (simp_all add: cleanup_or_rollback_def)

lemma client_read_error_credit:
  assumes "s3_client_read_error e \<noteq> ''RequestTimeout''"
  shows "responses (snd (client_read_error e a)) = 0" "credit (fst (client_read_error e a)) = credit a"
  using assms by (simp_all add: client_read_error_def Let_def, simp add: credit_def set_s3_error_def)

lemma action_done_credit [simp]: "responses (snd (action_done a)) = 0" "credit (fst (action_done a)) = credit a"
  by (simp_all add: action_done_def credit_def)

lemma check_shutdown_credit:
  assumes "check_shutdown_and_rollback e False a = (a', ev, r)"
  shows "responses ev + credit a' = credit a" "r = is_s3_shutting_down e"
  using assms
  by (auto simp: check_shutdown_and_rollback_def Let_def credit_def set_s3_error_def split: if_splits)

lemma checked_credit:
  assumes "\<And>a. responses (snd (body a)) + credit (fst (body a)) = credit a"
  shows "responses (snd (checked e a body)) + credit (fst (checked e a body)) = credit a"
proof -
  obtain a1 ev shut where shut: "check_shutdown_and_rollback e False a = (a1, ev, shut)" by (metis prod_cases3)
  from check_shutdown_credit(1) [OF shut] assms [of a1] assms [of a] show ?thesis
    by (simp add: checked_def shut Let_def case_prod_beta)
qed

lemma action_start_credit: "responses (snd (action_start e a)) + credit (fst (action_start e a)) = credit a"
  unfolding action_start_def by (rule checked_credit) (auto simp: Let_def credit_def split: list.split)

lemma action_next_credit:
  assumes "s3_client_read_error e \<noteq> ''RequestTimeout''"
  shows "responses (snd (action_next e a)) + credit (fst (action_next e a)) = credit a"
  unfolding action_next_def
  by (rule checked_credit) (simp add: client_read_error_credit [OF assms], simp add: credit_def)

lemma quiet_call_credit:
  assumes "quiet_call (e, c)"
  shows "responses (snd (engine_call e c a)) + credit (fst (engine_call e c a)) = credit a"
  using assms
proof (cases c)
  case (Call_check_shutdown b)
  with assms have "b = False" by (simp add: quiet_call_def)
  obtain a1 ev shut where shut: "check_shutdown_and_rollback e False a = (a1, ev, shut)" by (metis prod_cases3)
  from check_shutdown_credit(1) [OF shut] show ?thesis by (simp add: Call_check_shutdown \<open>b = False\<close> shut)
qed (auto simp: quiet_call_def action_start_credit action_next_credit client_read_error_credit,
  auto simp: engine_defs credit_def Let_def)

text \<open>A call that is not quiet adds at most one response.\<close>

lemma checked_credit_le:
  assumes "\<And>a. responses (snd (body a)) + credit (fst (body a)) \<le> Suc (credit a)"
  shows "responses (snd (checked e a body)) + credit (fst (checked e a body)) \<le> Suc (credit a)"
proof -
  obtain a1 ev shut where shut: "check_shutdown_and_rollback e False a = (a1, ev, shut)" by (metis prod_cases3)
  from check_shutdown_credit(1) [OF shut] assms [of a1] assms [of a] show ?thesis
    by (simp add: checked_def shut Let_def case_prod_beta)
qed

lemma client_read_error_credit_le: "responses (snd (client_read_error e a)) + credit (fst (client_read_error e a)) \<le> Suc (credit a)"
proof (cases "s3_client_read_error e = ''RequestTimeout''")
  case True
  then show ?thesis by (simp add: client_read_error_def Let_def credit_def set_s3_error_def)
next
  case False
  then show ?thesis by (simp add: client_read_error_credit)
qed

lemma action_next_credit_le: "responses (snd (action_next e a)) + credit (fst (action_next e a)) \<le> Suc (credit a)"
  unfolding action_next_def
  by (rule checked_credit_le) (simp add: client_read_error_credit_le, simp add: credit_def)

lemma call_credit_le:
  "responses (snd (engine_call e c a)) + credit (fst (engine_call e c a)) \<le> credit a + (if quiet_call (e, c) then 0 else 1)"
proof (cases "quiet_call (e, c)")
  case True
  then show ?thesis using quiet_call_credit [OF True, of a] by simp
next
  case False
  then consider "c = Call_check_shutdown True" | "s3_client_read_error e = ''RequestTimeout''" "c \<noteq> Call_check_shutdown True"
    by (auto simp: quiet_call_def)
  then show ?thesis
  proof cases
    case 1
    then show ?thesis using False
      by (auto simp: check_shutdown_and_rollback_def Let_def credit_def set_s3_error_def)
  next
    case 2
    have calm: "quiet_call (e\<lparr>s3_client_read_error := []\<rparr>, c)" using 2 by (simp add: quiet_call_def)
    show ?thesis
    proof (cases "c = Call_next \<or> c = Call_client_read_error")
      case True
      then show ?thesis using False action_next_credit_le [of e a] client_read_error_credit_le [of e a] by auto
    next
      case other: False
      have "engine_call e c a = engine_call (e\<lparr>s3_client_read_error := []\<rparr>) c a"
        using other by (cases c) (auto simp: action_start_def checked_def check_shutdown_and_rollback_def
            check_authentication_failed_def check_authorization_failed_def auth_failure_events_def)
      then show ?thesis using quiet_call_credit [OF calm, of a] by simp
    qed
  qed
qed

lemma run_credit:
  "responses (snd (engine_run cs a)) + credit (fst (engine_run cs a)) \<le> credit a + length (filter (\<lambda>ec. \<not> quiet_call ec) cs)"
proof (induction cs arbitrary: a)
  case (Cons ec cs)
  obtain e c where ec: "ec = (e, c)" by force
  from call_credit_le [of e c a] Cons.IH [of "fst (engine_call e c a)"] show ?case
    by (simp add: ec Let_def case_prod_beta split: if_splits)
qed simp

lemma shutdown_runs_no_task:
  assumes "is_s3_shutting_down e" "check_shutdown_signal a" "\<forall>b. c \<noteq> Call_check_signal b"
  shows "(\<forall>t. Ran t \<notin> set (snd (engine_call e c a))) \<and> check_shutdown_signal (fst (engine_call e c a))"
  using assms
  by (cases c) (auto simp: engine_defs Let_def split: list.splits)

lemma run_shutdown_no_task:
  assumes "check_shutdown_signal a" "\<forall>(e, c) \<in> set cs. is_s3_shutting_down e \<and> (\<forall>b. c \<noteq> Call_check_signal b)"
  shows "\<forall>t. Ran t \<notin> set (snd (engine_run cs a))"
  using assms
proof (induction cs arbitrary: a)
  case (Cons ec cs)
  obtain e c where ec: "ec = (e, c)" by force
  with Cons.prems have "(\<forall>t. Ran t \<notin> set (snd (engine_call e c a))) \<and> check_shutdown_signal (fst (engine_call e c a))"
    by (intro shutdown_runs_no_task) auto
  with Cons.IH [of "fst (engine_call e c a)"] Cons.prems show ?case
    by (auto simp: ec Let_def case_prod_beta)
qed simp

section \<open>Properties\<close>

text \<open>C9: Tasks run in the order they were added and none is skipped or repeated: after one
  \<open>start\<close> and any sequence of engine calls with any outcomes of their environment (tasks may
  be added meanwhile, but not cleared, and the action is neither restarted nor aborted), the
  tasks started before the action finishes are an initial segment of its task list; while it
  has not finished, they are exactly those before \<open>task_iteration_index\<close>.\<close>

theorem tasks_run_in_order:
  assumes "task_iteration_index a = 0" "\<forall>ec \<in> set cs. keeps_tasks (snd ec)"
    and "engine_run ((e, Call_start) # cs) a = (a', ev)"
  shows "(\<exists>n \<le> number_of_tasks a'. tasks_run ev = take n (task_list a'))
    \<and> (Finished \<notin> set ev \<longrightarrow> tasks_run ev = take (task_iteration_index a') (task_list a'))"
proof -
  obtain a1 ev1 ev2 where run: "action_start e a = (a1, ev1)" "engine_run cs a1 = (a', ev2)" "ev = ev1 @ ev2"
    using assms(3) by (auto simp: Let_def split: prod.splits)
  have "tasks_inv (tasks_run ev1) a1" "Finished \<notin> set ev1"
    using assms(1) run(1) by (auto simp: tasks_inv_def engine_defs Let_def split: if_splits list.splits)
  with run_runs_tasks_in_order [OF _ assms(2) run(2)] show ?thesis
    by (auto simp: run(3) tasks_run_append tasks_inv_def number_of_tasks_def)
qed

text \<open>C24: An action that is not disturbed completes: when the client stays connected, no read
  error occurs and the server is not shutting down, \<open>start\<close> followed by as many calls of
  \<open>next\<close> as there are tasks runs every task, in order, and then finishes the action.\<close>

theorem undisturbed_action_completes:
  assumes "undisturbed e" "\<forall>e \<in> set es. undisturbed e" "task_list a \<noteq> []" "length es = number_of_tasks a"
  shows "snd (engine_run ((e, Call_start) # map (\<lambda>e. (e, Call_next)) es) a) = map Ran (task_list a) @ [Finished]
    \<and> act_state (fst (engine_run ((e, Call_start) # map (\<lambda>e. (e, Call_next)) es) a)) = ACTS_COMPLETE"
proof -
  obtain t ts where ts: "task_list a = t # ts" using assms(3) by (cases "task_list a") auto
  have start: "action_start e a = (a\<lparr>task_iteration_index := 1\<rparr>, [Ran t])"
    using assms(1) by (auto simp: engine_defs undisturbed_def ts)
  have len: "1 + length es = Suc (length (t # ts))" using assms(4) by (simp add: number_of_tasks_def ts)
  have "engine_run (map (\<lambda>e. (e, Call_next)) es) (a\<lparr>task_iteration_index := 1\<rparr>) =
      (a\<lparr>task_iteration_index := 0, act_state := ACTS_COMPLETE, self_ref := False\<rparr>, map Ran ts @ [Finished])"
    using nexts_undisturbed [OF assms(2), of "a\<lparr>task_iteration_index := 1\<rparr>"] len by (simp add: ts)
  then show ?thesis by (simp add: start ts)
qed

text \<open>Rollback undoes the registered steps in reverse order: with the undo tasks
  registered one after the other, \<open>rollback_start\<close> and one \<open>rollback_next\<close> per task run
  them from the last registered to the first and then finish the action; with none
  registered the action finishes at once.\<close>

theorem rollback_in_reverse:
  assumes "rollback_list a = []" "rollback_state a = ACTS_START" "length es = length regs"
  shows "snd (engine_run (map (\<lambda>(e, t). (e, Call_add_rollback t)) regs
        @ (e, Call_rollback_start) # map (\<lambda>e. (e, Call_rollback_next)) es) a)
    = StopIncomingData # map RolledBack (rev (map snd regs)) @ [Finished]"
proof (cases "rev (map snd regs)")
  case Nil
  with assms have "es = []" by simp
  with Nil assms show ?thesis
    by (simp add: rollback_start_def rollback_done_def rollback_exit_def action_done_def Let_def)
next
  case (Cons t ts)
  let ?a = "a\<lparr>rollback_list := t # ts, rollback_index := 1, rollback_state := ACTS_RUNNING\<rparr>"
  have "length regs = Suc (length ts)" using arg_cong [OF Cons, of length] by simp
  then have "snd (engine_run (map (\<lambda>e. (e, Call_rollback_next)) es) ?a) = map RolledBack ts @ [Finished]"
    using assms(3) rollback_nexts [of ?a es] by simp
  moreover have "rollback_start (a\<lparr>rollback_list := t # ts\<rparr>) = (?a, [StopIncomingData, RolledBack t])"
    using assms by (simp add: rollback_start_def Let_def)
  ultimately show ?thesis
    using assms(1) Cons by (simp add: engine_run_append adds_rollbacks Let_def case_prod_beta)
qed

text \<open>No step is undone twice: in any sequence of engine calls that registers no further
  undo task and steps the rollback only after it was started, however often
  \<open>rollback_start\<close> is called (by the action, by a read error or by a lost client), the undo
  tasks that run before the action finishes are an initial segment of the rollback list.\<close>

theorem rollback_at_most_once:
  assumes "rollback_index a = 0" "rollback_disciplined cs a"
  shows "\<exists>n. rollbacks_run (snd (engine_run cs a)) = take n (rollback_list a)"
  using run_rolls_back_once [of "[]" a cs] assms by (simp add: rollbacks_inv_def)


text \<open>Which requests are authenticated: with authentication enabled and not skipped, an
  S3 action begins with the authorization step unless it skips authorization; an action that
  skips authorization authenticates only a request that has an \<open>Authorization\<close> header, and
  runs with no check at all otherwise.\<close>

theorem s3_action_auth_steps:
  "task_list (S3Action_init is_auth_disabled in_headers check_shutdown skip_auth' skip_authorize task) =
     (if is_auth_disabled \<or> skip_auth' then [task load_metadata]
      else if \<not> skip_authorize then [task load_metadata, task set_authorization_meta, task check_authorization]
      else if \<exists>h \<in> set in_headers. takeWhile (\<lambda>c. c \<noteq> CHR 0x00) h = ''Authorization''
      then [task check_authentication, task load_metadata]
      else [task load_metadata])"
  by (auto simp: S3Action_init_def S3Action_setup_steps_def Action_init_def action_setup_steps_def
      check_authorization_header_def add_task_def Let_def list_ex_iff)

section \<open>Witnesses\<close>

definition calm :: action_env where
  "calm = \<lparr>is_s3_shutting_down = False, client_connected = True, s3_client_read_error = [],
           is_chunk_auth_op_aborted = False, auth_error_code = [], auth_error_message = []\<rparr>"

definition sample_action :: "nat action" where
  "sample_action = add_task 2 (add_task 1 (Action_init 0 False [''Authorization''] True False True))"

theorem tasks_run_in_order_witness:
  "tasks_run (snd (engine_run [(calm, Call_start), (calm, Call_next), (calm, Call_add_task 7)] sample_action)) = [0, 1]"
  using tasks_run_in_order [of sample_action "[(calm, Call_next), (calm, Call_add_task 7)]" calm
      "fst (engine_run [(calm, Call_start), (calm, Call_next), (calm, Call_add_task 7)] sample_action)"
      "snd (engine_run [(calm, Call_start), (calm, Call_next), (calm, Call_add_task 7)] sample_action)"]
  by (simp add: sample_action_def engine_defs calm_def Action_init_def action_setup_steps_def
      check_authorization_header_def keeps_tasks_def is_s3_client_read_error_def)

theorem undisturbed_action_completes_witness:
  "snd (engine_run [(calm, Call_start), (calm, Call_next), (calm, Call_next), (calm, Call_next)] sample_action)
    = [Ran 0, Ran 1, Ran 2, Finished]"
  using undisturbed_action_completes [of calm "[calm, calm, calm]" sample_action]
  by (simp add: sample_action_def undisturbed_def calm_def Action_init_def action_setup_steps_def
      check_authorization_header_def add_task_def number_of_tasks_def del: engine_run.simps)

theorem rollback_in_reverse_witness:
  "snd (engine_run [(calm, Call_add_rollback 8), (calm, Call_add_rollback 9), (calm, Call_rollback_start),
      (calm, Call_rollback_next), (calm, Call_rollback_next)] sample_action)
    = [StopIncomingData, RolledBack 9, RolledBack 8, Finished]"
  using rollback_in_reverse [of sample_action "[calm, calm]" "[(calm, 8), (calm, 9)]" calm]
  by (simp add: sample_action_def Action_init_def action_setup_steps_def check_authorization_header_def
      add_task_def del: engine_run.simps)

theorem rollback_at_most_once_witness:
  "\<exists>n. rollbacks_run (snd (engine_run [(calm, Call_rollback_start), (calm, Call_rollback_start),
       (calm, Call_rollback_next)] (add_task_rollback 8 (add_task_rollback 9 sample_action)))) = take n [8, 9]"
  using rollback_at_most_once [of "add_task_rollback 8 (add_task_rollback 9 sample_action)"
      "[(calm, Call_rollback_start), (calm, Call_rollback_start), (calm, Call_rollback_next)]"]
  by (simp add: sample_action_def Action_init_def action_setup_steps_def check_authorization_header_def
      add_task_def add_task_rollback_def keeps_rollbacks_def rollback_start_def Let_def del: engine_run.simps)


end
