(* ===== verification/Object_Versioning.thy ===== *)
theory Object_Versioning
  imports Base64 Common_Utilities "HOL-Library.Char_ord" "HOL-Library.List_Lexorder"
begin

text \<open>
  \<open>server/s3_object_versioning_helper.cc\<close>: the key of an object version in the version list
  index is the decimal form of the bitwise complement of the time in milliseconds; the
  version id a client sees is its base-64 form without padding.
\<close>

definition generate_new_epoch_time :: "64 word \<Rightarrow> string" where
  "generate_new_epoch_time milliseconds_since_epoch = to_dec (unat (NOT milliseconds_since_epoch))"

definition get_versionid_from_epoch_time :: "string \<Rightarrow> string" where
  "get_versionid_from_epoch_time ms = find_and_replaceall (base64_encode ms) ''='' []"

text \<open>The padding is computed modulo three; the decoder stops at the first \<open>=\<close>.\<close>

definition generate_keyid_from_versionid :: "string \<Rightarrow> string" where
  "generate_keyid_from_versionid versionid =
     base64_decode (versionid @ replicate ((3 - length versionid mod 3) mod 3) (CHR ''=''))"

section \<open>Version ids without padding\<close>

lemma str_find_char: "str_find [c] s = (if c \<in> set s then Some (length (takeWhile (\<lambda>x. x \<noteq> c) s)) else None)"
  by (induction s) auto

lemma replace_loop_remove_char: "replace_loop [c] [] before rest = before @ filter (\<lambda>x. x \<noteq> c) rest"
proof (induction "[c] :: string" "[] :: string" before rest rule: replace_loop.induct)
  case (1 before rest)
  show ?case
  proof (cases "c \<in> set rest")
    case True
    then obtain us vs where split: "rest = us @ c # vs" "c \<notin> set us" by (metis split_list_first)
    then have "takeWhile (\<lambda>x. x \<noteq> c) rest = us" by (auto simp: takeWhile_append)
    then have find: "str_find [c] rest = Some (length us)" using True by (simp add: str_find_char)
    have "filter (\<lambda>x. x \<noteq> c) us = us" using split(2) by (simp add: filter_id_conv) metis
    moreover have "replace_loop [c] [] before rest = replace_loop [c] [] (before @ us) vs"
      by (subst replace_loop.simps) (simp only: find, simp add: split(1))
    ultimately show ?thesis using "1.hyps" [OF find] split(1) by simp
  next
    case False
    then have "filter (\<lambda>x. x \<noteq> c) rest = rest" by (auto simp: filter_id_conv)
    with False show ?thesis by (subst replace_loop.simps) (simp add: str_find_char)
  qed
qed

lemma find_and_remove_char: "find_and_replaceall s [c] [] = filter (\<lambda>x. x \<noteq> c) s"
  by (simp add: find_and_replaceall_def replace_loop_remove_char)

lemma decode_loop_until_padding:
  "decode_loop m cur ret (xs @ CHR ''='' # ys) = decode_loop m cur ret xs"
proof (induction xs arbitrary: m cur ret)
  case Nil
  show ?case using decode_loop_padding by simp
next
  case (Cons ch cs)
  show ?case
  proof (cases "c_isspace ch")
    case True
    then show ?thesis by (simp add: Cons)
  next
    case False
    show ?thesis
    proof (cases "decoded_value ch")
      case None
      with False show ?thesis by simp
    next
      case (Some d)
      with False show ?thesis
        by (simp only: append_Cons decode_loop.simps if_False option.case Let_def case_prod_beta Cons.IH)
    qed
  qed
qed

lemma base64_char_not_padding: "n < 64 \<Longrightarrow> base64_chars ! n \<noteq> CHR ''=''"
  using decoded_chars(1) [of n] by (auto simp: decoded_value_def)

lemma encode_loop_shape:
  "\<exists>xs k. encode_loop 0 0 [] bs = xs @ replicate k (CHR ''='') \<and> CHR ''='' \<notin> set xs"
proof (induction bs rule: by_three.induct)
  case (1 ca cb cc bs)
  define a b c where "a = (of_char ca :: nat)" and "b = (of_char cb :: nat)" and "c = (of_char cc :: nat)"
  have lt: "a < 256" "b < 256" "c < 256" by (simp_all add: a_def b_def c_def)
  let ?g = "[base64_chars ! (a div 4), base64_chars ! ((a mod 4) * 16 + b div 16),
      base64_chars ! ((b mod 16) * 4 + c div 64), base64_chars ! (c mod 64)]"
  have "\<forall>i \<in> {a div 4, (a mod 4) * 16 + b div 16, (b mod 16) * 4 + c div 64, c mod 64}. i < 64" using lt by auto
  then have "CHR ''='' \<notin> set ?g" using base64_char_not_padding [THEN not_sym] by (simp del: encode_loop.simps)
  moreover obtain xs k where "encode_loop 0 0 [] bs = xs @ replicate k (CHR ''='')" "CHR ''='' \<notin> set xs"
    using 1 by blast
  ultimately show ?case
    using encode_group [OF a_def b_def c_def, of 0 bs]
    by (intro exI [of _ "?g @ xs"] exI [of _ k]) (simp del: encode_loop.simps)
next
  case 2
  show ?case by (intro exI [of _ "[]"] exI [of _ 0]) simp
next
  case (3 ca)
  define a where "a = (of_char ca :: nat)"
  have lt: "a < 256" by (simp add: a_def)
  then have "base64_chars ! (a div 4) \<noteq> CHR ''=''" "base64_chars ! ((a mod 4) * 16) \<noteq> CHR ''=''"
    by (intro base64_char_not_padding, simp)+
  moreover have "encode_loop 0 0 [] [ca] = [base64_chars ! (a div 4), base64_chars ! ((a mod 4) * 16)] @ ''==''"
    using lt by (simp add: a_def [symmetric] push_bit_eq_mult)
  ultimately show ?case
    by (intro exI [of _ "[base64_chars ! (a div 4), base64_chars ! ((a mod 4) * 16)]"] exI [of _ "Suc (Suc 0)"])
      (simp del: encode_loop.simps)
next
  case (4 ca cb)
  define a b where "a = (of_char ca :: nat)" and "b = (of_char cb :: nat)"
  have lt: "a < 256" "b < 256" by (simp_all add: a_def b_def)
  let ?g = "[base64_chars ! (a div 4), base64_chars ! ((a mod 4) * 16 + b div 16), base64_chars ! ((b mod 16) * 4)]"
  have "\<forall>i \<in> {a div 4, (a mod 4) * 16 + b div 16, (b mod 16) * 4}. i < 64" using lt by auto
  then have "CHR ''='' \<notin> set ?g" using base64_char_not_padding [THEN not_sym] by (simp del: encode_loop.simps)
  moreover have "encode_loop 0 0 [] [ca, cb] = ?g @ ''=''"
    using lt by (simp add: a_def [symmetric] b_def [symmetric]) (simp add: push_bit_eq_mult)
  ultimately show ?case by (intro exI [of _ ?g] exI [of _ 1]) simp
qed

lemma decode_encode_without_padding:
  "base64_decode (filter (\<lambda>x. x \<noteq> CHR ''='') (base64_encode bs) @ replicate n (CHR ''='')) = bs"
proof -
  obtain xs k where shape: "base64_encode bs = xs @ replicate k (CHR ''='')" "CHR ''='' \<notin> set xs"
    using encode_loop_shape [of bs] by (auto simp: base64_encode_def)
  have pad: "base64_decode (xs @ replicate j (CHR ''='')) = base64_decode xs" for j
    by (cases j) (simp_all add: base64_decode_def decode_loop_until_padding)
  have "filter (\<lambda>x. x \<noteq> CHR ''='') (base64_encode bs) = xs"
    using shape by (auto simp: filter_id_conv filter_empty_conv)
  moreover have "base64_decode xs = bs" using base64_decode_encode [of bs] shape(1) pad by simp
  ultimately show ?thesis by (simp add: pad)
qed

lemma keyid_of_versionid: "generate_keyid_from_versionid (get_versionid_from_epoch_time ms) = ms"
  by (simp add: generate_keyid_from_versionid_def get_versionid_from_epoch_time_def
      find_and_remove_char decode_encode_without_padding)

section \<open>Order of version keys\<close>

lemma snoc_less_iff:
  fixes a b :: "'a :: linorder"
  assumes "length xs = length ys"
  shows "xs @ [a] < ys @ [b] \<longleftrightarrow> xs < ys \<or> xs = ys \<and> a < b"
  using assms by (induction xs ys rule: list_induct2) auto

lemma digit_less: "m < 10 \<Longrightarrow> n < 10 \<Longrightarrow> (char_of (48 + m :: nat) < (char_of (48 + n) :: char)) = (m < n)"
  by (simp add: less_char_def)

lemma length_to_dec: "n < 10 ^ Suc k \<Longrightarrow> 10 ^ k \<le> n \<or> k = 0 \<Longrightarrow> length (to_dec n) = Suc k"
proof (induction k arbitrary: n)
  case 0
  then show ?case by (simp add: to_dec.simps [of n])
next
  case (Suc k)
  then have "10 * 10 ^ k \<le> n" by simp
  moreover have "(1 :: nat) \<le> 10 ^ k" by simp
  ultimately have "\<not> n < 10" by linarith
  moreover have "length (to_dec (n div 10)) = Suc k" using Suc by (intro Suc.IH) auto
  ultimately show ?case by (simp add: to_dec.simps [of n])
qed

lemma to_dec_less:
  "length (to_dec m) = length (to_dec n) \<Longrightarrow> m < n \<Longrightarrow> to_dec m < to_dec n"
proof (induction m arbitrary: n rule: to_dec.induct)
  case (1 m)
  show ?case
  proof (cases "n < 10")
    case True
    then show ?thesis
      using "1.prems"(2) digit_less [of m n] by (simp add: to_dec.simps [of m] to_dec.simps [of n])
  next
    case False
    have m: "\<not> m < 10"
    proof
      assume "m < 10"
      with "1.prems"(1) False have "to_dec (n div 10) = []" by (simp add: to_dec.simps [of m] to_dec.simps [of n])
      then show False by (simp add: to_dec.simps [of "n div 10"] split: if_splits)
    qed
    have len: "length (to_dec (m div 10)) = length (to_dec (n div 10))"
      using "1.prems"(1) False m by (simp add: to_dec.simps [of m] to_dec.simps [of n])
    consider "m div 10 < n div 10" | "m div 10 = n div 10" "m mod 10 < n mod 10"
      using "1.prems"(2) by (metis div_le_mono div_mult_mod_eq le_neq_implies_less less_imp_le nat_add_left_cancel_less)
    then show ?thesis
      using "1.IH" [OF m len] digit_less [of "m mod 10" "n mod 10"] False m snoc_less_iff [OF len]
      by cases (simp_all add: to_dec.simps [of m] to_dec.simps [of n])
  qed
qed

text \<open>A time for which the complement has twenty digits: any before the year 267 000 000.\<close>

definition plausible_ms :: "64 word \<Rightarrow> bool" where
  "plausible_ms t \<longleftrightarrow> unat t < 2 ^ 64 - 10 ^ 19"

lemma unat_not: "unat (NOT t :: 64 word) = 2 ^ 64 - 1 - unat t"
proof -
  have "NOT t = - 1 - t" by (simp add: not_eq_complement)
  moreover have "unat (- 1 - t :: 64 word) = unat (- 1 :: 64 word) - unat t"
    by (rule unat_sub) simp
  ultimately show ?thesis by (simp add: unsigned_minus_1_eq_mask mask_eq_exp_minus_1)
qed

lemma version_key_length: "plausible_ms t \<Longrightarrow> length (generate_new_epoch_time t) = 20"
  using length_to_dec [of "unat (NOT t)" 19] by (simp add: generate_new_epoch_time_def plausible_ms_def unat_not)

section \<open>Properties\<close>

text \<open>C26: The keys of the version list put the newest version first: of two versions written
  at different times the later one has the smaller key, so a forward listing of the index
  meets it first; and the version id given to clients leads back to exactly that key,
  although its padding was removed.\<close>

theorem newest_version_first:
  assumes "plausible_ms t1" "plausible_ms t2" "t1 < t2"
  shows "generate_new_epoch_time t2 < generate_new_epoch_time t1
    \<and> generate_keyid_from_versionid (get_versionid_from_epoch_time (generate_new_epoch_time t1))
        = generate_new_epoch_time t1"
proof -
  have "unat (NOT t2) < unat (NOT t1)"
    using assms(3) unsigned_less [of t2, where ?'a = nat] by (simp add: unat_not word_less_nat_alt)
  then show ?thesis
    using to_dec_less [of "unat (NOT t2)" "unat (NOT t1)"] version_key_length [OF assms(1)] version_key_length [OF assms(2)]
    by (simp add: keyid_of_versionid, simp add: generate_new_epoch_time_def)
qed

theorem newest_version_first_witness:
  "generate_new_epoch_time 1609459200001 < generate_new_epoch_time 1609459200000"
  using newest_version_first [of 1609459200000 1609459200001] by (simp add: plausible_ms_def)

end
