(* ===== verification/Object_Metadata.thy ===== *)
theory Object_Metadata
  imports Bucket_Metadata Object_Versioning
begin

text \<open>
  \<open>server/s3_object_metadata.cc\<close>: the metadata of an object (class \<open>S3ObjectMetadata\<close>), its
  defaults, its accessors and its JSON form, which is the value stored in the object list
  index of a bucket.  The record has the fields of the class and of its base
  \<open>S3ObjectMetadataCopyable\<close>; the request is reduced to what the class reads from it.  The
  constant \<open>M0_ID_APP\<close> of Motr, the current time, the padding bytes of an index layout and
  the fault injection switches are arguments; an operation that may throw gives \<open>None\<close>.
\<close>

datatype S3ObjectMetadataState =
    Oempty | Opresent | Omissing | Osaved | Odeleted | Ofailed | Ofailed_to_launch | Oinvalid

datatype S3ObjectMetadataType = simple | only_parts | only_frgments | parts_fragments

record object_request = bucket_request +
  rq_object_name :: string
  rq_content_length :: size_t

record S3ObjectMetadata =
  om_layout_id :: "32 word"
  om_request_id :: string
  om_encoded_acl :: string
  om_system :: "(string, string) std_map"
  om_user :: "(string, string) std_map"
  om_tags :: "(string, string) std_map"
  om_request :: object_request
  om_account_name :: string
  om_account_id :: string
  om_user_name :: string
  om_canonical_id :: string
  om_user_id :: string
  om_bucket_name :: string
  om_object_name :: string
  om_requested_bucket_name :: string
  om_requested_object_name :: string
  om_rev_epoch_version_id_key :: string
  om_object_version_id :: string
  om_upload_id :: string
  om_object_key_uri :: string
  om_old_layout_id :: "32 word"
  om_oid :: m0_uint128
  om_old_oid :: m0_uint128
  om_object_list_index_layout :: s3_motr_idx_layout
  om_objects_version_list_index_layout :: s3_motr_idx_layout
  om_part_index_layout :: s3_motr_idx_layout
  om_motr_oid_str :: string
  om_motr_old_oid_str :: string
  om_motr_old_object_version_id :: string
  om_motr_part_layout_str :: string
  om_is_multipart :: bool
  om_state :: S3ObjectMetadataState
  om_obj_type :: S3ObjectMetadataType
  om_obj_parts :: "32 word"
  om_obj_fragments :: "32 word"
  om_pvid_str :: string
  om_primary_obj_size :: size_t
  om_index_name :: string

text \<open>The switches of the data integrity tests.\<close>

record di_switches =
  di_metadata_bcktname_on_write_corrupted :: bool
  di_metadata_objname_on_write_corrupted :: bool
  di_obj_md5_corrupted :: bool
  object_metadata_corrupted :: bool
  di_metadata_bcktname_on_read_corrupted :: bool
  di_metadata_objname_on_read_corrupted :: bool
  di_metadata_bucket_or_object_corrupted :: bool

definition no_faults :: di_switches where
  "no_faults = \<lparr>di_metadata_bcktname_on_write_corrupted = False, di_metadata_objname_on_write_corrupted = False,
     di_obj_md5_corrupted = False, object_metadata_corrupted = False,
     di_metadata_bcktname_on_read_corrupted = False, di_metadata_objname_on_read_corrupted = False,
     di_metadata_bucket_or_object_corrupted = False\<rparr>"

section \<open>Construction\<close>

definition om_object_list_index_name :: "S3ObjectMetadata \<Rightarrow> string" where
  "om_object_list_index_name ob = ''BUCKET/'' @ om_bucket_name ob"

definition om_multipart_index_name :: "S3ObjectMetadata \<Rightarrow> string" where
  "om_multipart_index_name ob = ''BUCKET/'' @ om_bucket_name ob @ ''/'' @ ''Multipart''"

definition om_version_list_index_name :: "S3ObjectMetadata \<Rightarrow> string" where
  "om_version_list_index_name ob = ''BUCKET/'' @ om_bucket_name ob @ ''/objects/versions''"

definition touch :: "string \<Rightarrow> (string, string) std_map \<Rightarrow> (string, string) std_map" where
  "touch k m = fst (map_index [] m k)"

definition str_set_default :: "string \<Rightarrow> string \<Rightarrow> (string, string) std_map \<Rightarrow> (string, string) std_map" where
  "str_set_default k sz m = (let (m', sref) = map_index [] m k in if sref = [] then map_put k sz m' else m')"

definition initialize_attributes ::
  "string \<Rightarrow> string \<Rightarrow> string \<Rightarrow> string \<Rightarrow> string \<Rightarrow> (string, string) std_map \<Rightarrow> (string, string) std_map" where
  "initialize_attributes un cid uid an aid m0 =
     (let m1 = touch ''Content-MD5'' (touch ''Last-Modified'' (touch ''Content-Length'' (touch ''Date'' m0)));
          m2 = map_put ''Owner-Account-id'' aid (map_put ''Owner-Account'' an (map_put ''Owner-User-id'' uid
                 (map_put ''Owner-Canonical-id'' cid (map_put ''Owner-User'' un m1))));
          m3 = touch ''x-amz-version-id'' (str_set_default ''x-amz-server-side-encryption'' ''None'' m2);
          m4 = str_set_default ''x-amz-website-redirect-location'' ''None''
                 (str_set_default ''x-amz-storage-class'' ''STANDARD'' m3)
      in touch ''x-amz-server-side-encryption-customer-key-MD5''
           (touch ''x-amz-server-side-encryption-customer-key''
             (touch ''x-amz-server-side-encryption-customer-algorithm''
               (touch ''x-amz-server-side-encryption-aws-kms-key-id'' m4))))"

definition om_initialize :: "bool \<Rightarrow> string \<Rightarrow> S3ObjectMetadata \<Rightarrow> S3ObjectMetadata" where
  "om_initialize ismultipart uploadid o0 =
     (let r = om_request o0;
          o1 = o0\<lparr>om_is_multipart := ismultipart, om_upload_id := uploadid, om_obj_parts := 0, om_obj_fragments := 0,
                  om_pvid_str := [], om_account_name := rq_account_name r, om_account_id := rq_account_id r,
                  om_user_name := rq_user_name r, om_canonical_id := rq_canonical_id r, om_user_id := rq_user_id r,
                  om_object_key_uri := om_bucket_name o0 @ [CHR 0x5C] @ om_object_name o0\<rparr>;
          m = initialize_attributes (om_user_name o1) (om_canonical_id o1) (om_user_id o1) (om_account_name o1)
                (om_account_id o1) (om_system o1)
      in if ismultipart
         then o1\<lparr>om_index_name := om_multipart_index_name o1, om_system := map_put ''Upload-ID'' uploadid m\<rparr>
         else o1\<lparr>om_index_name := om_object_list_index_name o1, om_system := m\<rparr>)"

definition zero_id :: m0_uint128 where "zero_id = \<lparr>u_hi = 0, u_lo = 0\<rparr>"

definition S3ObjectMetadata_init ::
  "m0_uint128 \<Rightarrow> object_request \<Rightarrow> string \<Rightarrow> string \<Rightarrow> bool \<Rightarrow> string \<Rightarrow> S3ObjectMetadata" where
  "S3ObjectMetadata_init M0_ID_APP req bucketname objectname ismultipart uploadid =
     om_initialize ismultipart uploadid
       \<lparr>om_layout_id = 0, om_request_id = rq_request_id req, om_encoded_acl = [], om_system = [], om_user = [],
        om_tags = [], om_request = req, om_account_name = [], om_account_id = [], om_user_name = [],
        om_canonical_id = [], om_user_id = [],
        om_bucket_name = (if bucketname = [] then rq_bucket_name req else bucketname),
        om_object_name = (if objectname = [] then rq_object_name req else objectname)
          @ (if uploadid \<noteq> [] then ''|'' @ uploadid else []),
        om_requested_bucket_name = [], om_requested_object_name = [], om_rev_epoch_version_id_key = [],
        om_object_version_id = [], om_upload_id = uploadid, om_object_key_uri = [], om_old_layout_id = 0,
        om_oid = M0_ID_APP, om_old_oid = zero_id, om_object_list_index_layout = zero_layout,
        om_objects_version_list_index_layout = zero_layout, om_part_index_layout = zero_layout,
        om_motr_oid_str = [], om_motr_old_oid_str = [], om_motr_old_object_version_id = [],
        om_motr_part_layout_str = [], om_is_multipart = ismultipart, om_state = Oempty, om_obj_type = simple,
        om_obj_parts = 0, om_obj_fragments = 0, om_pvid_str = [], om_primary_obj_size = rq_content_length req,
        om_index_name = []\<rparr>"

text \<open>
  The partial copy constructor.  It does not initialise the object type and the size of the
  primary object: their values are the arguments \<open>ty\<close> and \<open>sz\<close>.
\<close>

definition S3ObjectMetadata_copy ::
  "m0_uint128 \<Rightarrow> S3ObjectMetadataType \<Rightarrow> size_t \<Rightarrow> S3ObjectMetadata \<Rightarrow> S3ObjectMetadata" where
  "S3ObjectMetadata_copy M0_ID_APP ty sz src =
     om_initialize (om_is_multipart src) (om_upload_id src)
       ((S3ObjectMetadata_init M0_ID_APP (om_request src) [] [] False [])
          \<lparr>om_layout_id := om_layout_id src, om_request_id := om_request_id src, om_encoded_acl := om_encoded_acl src,
           om_system := om_system src, om_user := om_user src, om_tags := om_tags src, om_state := Opresent,
           om_obj_type := ty, om_primary_obj_size := sz\<rparr>)"

text \<open>The factory functions.\<close>

definition create_object_metadata_obj ::
  "m0_uint128 \<Rightarrow> object_request \<Rightarrow> string \<Rightarrow> string \<Rightarrow> s3_motr_idx_layout \<Rightarrow> s3_motr_idx_layout \<Rightarrow> S3ObjectMetadata" where
  "create_object_metadata_obj M0_ID_APP req bucketname objectname obj_idx_lo obj_ver_idx_lo =
     (let o0 = S3ObjectMetadata_init M0_ID_APP req bucketname objectname False [];
          o1 = (if non_zero (oid obj_idx_lo) then o0\<lparr>om_object_list_index_layout := obj_idx_lo\<rparr> else o0)
      in if non_zero (oid obj_ver_idx_lo) then o1\<lparr>om_objects_version_list_index_layout := obj_ver_idx_lo\<rparr> else o1)"

definition create_object_mp_metadata_obj ::
  "m0_uint128 \<Rightarrow> object_request \<Rightarrow> s3_motr_idx_layout \<Rightarrow> string \<Rightarrow> S3ObjectMetadata" where
  "create_object_mp_metadata_obj M0_ID_APP req mp_idx_lo upload_id =
     (S3ObjectMetadata_init M0_ID_APP req [] [] True upload_id)\<lparr>om_object_list_index_layout := mp_idx_lo\<rparr>"

section \<open>Accessors\<close>

definition om_attribute_at :: "string \<Rightarrow> S3ObjectMetadata \<Rightarrow> S3ObjectMetadata \<times> string" where
  "om_attribute_at key ob = (let (m, v) = map_index [] (om_system ob) key in (ob\<lparr>om_system := m\<rparr>, v))"

definition om_get_owner_id :: "S3ObjectMetadata \<Rightarrow> S3ObjectMetadata \<times> string" where
  "om_get_owner_id = om_attribute_at ''Owner-User-id''"

definition om_get_owner_name :: "S3ObjectMetadata \<Rightarrow> S3ObjectMetadata \<times> string" where
  "om_get_owner_name = om_attribute_at ''Owner-User''"

definition get_creation_date :: "S3ObjectMetadata \<Rightarrow> S3ObjectMetadata \<times> string" where
  "get_creation_date = om_attribute_at ''Date''"

definition get_last_modified :: "S3ObjectMetadata \<Rightarrow> S3ObjectMetadata \<times> string" where
  "get_last_modified = om_attribute_at ''Last-Modified''"

definition get_last_modified_iso :: "S3ObjectMetadata \<Rightarrow> S3ObjectMetadata \<times> string" where
  "get_last_modified_iso = om_attribute_at ''Last-Modified''"

definition get_storage_class :: "S3ObjectMetadata \<Rightarrow> S3ObjectMetadata \<times> string" where
  "get_storage_class = om_attribute_at ''x-amz-storage-class''"

definition get_content_type :: "S3ObjectMetadata \<Rightarrow> S3ObjectMetadata \<times> string" where
  "get_content_type = om_attribute_at ''Content-Type''"

definition get_content_length_str :: "S3ObjectMetadata \<Rightarrow> S3ObjectMetadata \<times> string" where
  "get_content_length_str = om_attribute_at ''Content-Length''"

definition get_md5 :: "S3ObjectMetadata \<Rightarrow> S3ObjectMetadata \<times> string" where
  "get_md5 = om_attribute_at ''Content-MD5''"

text \<open>\<open>atol\<close> of the attribute; a number beyond the range of \<open>long\<close> saturates, as glibc does.\<close>

definition c_atol :: "string \<Rightarrow> int" where
  "c_atol s =
     (case scan_number (c_str s) of
        None \<Rightarrow> 0
      | Some (neg, n) \<Rightarrow> if neg then max LONG_MIN (- int n) else min LONG_MAX (int n))"

definition get_content_length :: "S3ObjectMetadata \<Rightarrow> S3ObjectMetadata \<times> size_t" where
  "get_content_length ob = (let (ob', v) = om_attribute_at ''Content-Length'' ob in (ob', of_int (c_atol v)))"

definition om_set_attribute :: "string \<Rightarrow> string \<Rightarrow> S3ObjectMetadata \<Rightarrow> S3ObjectMetadata" where
  "om_set_attribute key val ob = ob\<lparr>om_system := map_put key val (om_system ob)\<rparr>"

definition set_content_length :: "string \<Rightarrow> S3ObjectMetadata \<Rightarrow> S3ObjectMetadata" where
  "set_content_length = om_set_attribute ''Content-Length''"

definition set_content_type :: "string \<Rightarrow> S3ObjectMetadata \<Rightarrow> S3ObjectMetadata" where
  "set_content_type = om_set_attribute ''Content-Type''"

definition set_md5 :: "string \<Rightarrow> S3ObjectMetadata \<Rightarrow> S3ObjectMetadata" where
  "set_md5 = om_set_attribute ''Content-MD5''"

definition om_add_system_attribute :: "string \<Rightarrow> string \<Rightarrow> S3ObjectMetadata \<Rightarrow> S3ObjectMetadata" where
  "om_add_system_attribute = om_set_attribute"

definition om_add_user_defined_attribute :: "string \<Rightarrow> string \<Rightarrow> S3ObjectMetadata \<Rightarrow> S3ObjectMetadata" where
  "om_add_user_defined_attribute key val ob = ob\<lparr>om_user := map_put key val (om_user ob)\<rparr>"

definition reset_date_time_to_current :: "string \<Rightarrow> S3ObjectMetadata \<Rightarrow> S3ObjectMetadata" where
  "reset_date_time_to_current time_now ob = om_set_attribute ''Last-Modified'' time_now (om_set_attribute ''Date'' time_now ob)"

definition rename_object_name :: "string \<Rightarrow> S3ObjectMetadata \<Rightarrow> S3ObjectMetadata" where
  "rename_object_name n ob = ob\<lparr>om_object_name := n\<rparr>"

definition regenerate_version_id :: "64 word \<Rightarrow> S3ObjectMetadata \<Rightarrow> S3ObjectMetadata" where
  "regenerate_version_id now_ms ob =
     (let key = generate_new_epoch_time now_ms; vid = get_versionid_from_epoch_time key
      in om_set_attribute ''x-amz-version-id'' vid
           (ob\<lparr>om_rev_epoch_version_id_key := key, om_object_version_id := vid\<rparr>))"

text \<open>Asserts that the name and the version key are set.\<close>

definition get_version_key_in_index :: "S3ObjectMetadata \<Rightarrow> string option" where
  "get_version_key_in_index ob =
     (if om_object_name ob = [] \<or> om_rev_epoch_version_id_key ob = [] then None
      else Some (om_object_name ob @ ''/'' @ om_rev_epoch_version_id_key ob))"

definition set_oid :: "m0_uint128 \<Rightarrow> S3ObjectMetadata \<Rightarrow> S3ObjectMetadata" where
  "set_oid ident ob = ob\<lparr>om_oid := ident, om_motr_oid_str := uint128_to_string ident\<rparr>"

definition set_old_oid :: "m0_uint128 \<Rightarrow> S3ObjectMetadata \<Rightarrow> S3ObjectMetadata" where
  "set_old_oid ident ob = ob\<lparr>om_old_oid := ident, om_motr_old_oid_str := uint128_to_string ident\<rparr>"

definition set_version_id :: "string \<Rightarrow> S3ObjectMetadata \<Rightarrow> S3ObjectMetadata" where
  "set_version_id ver_id ob =
     ob\<lparr>om_object_version_id := ver_id, om_rev_epoch_version_id_key := generate_keyid_from_versionid ver_id\<rparr>"

definition set_old_version_id :: "string \<Rightarrow> S3ObjectMetadata \<Rightarrow> S3ObjectMetadata" where
  "set_old_version_id ver_id ob = ob\<lparr>om_motr_old_object_version_id := ver_id\<rparr>"

definition set_part_index_layout :: "bytes \<Rightarrow> s3_motr_idx_layout \<Rightarrow> S3ObjectMetadata \<Rightarrow> S3ObjectMetadata" where
  "set_part_index_layout padding lo ob =
     ob\<lparr>om_part_index_layout := lo, om_motr_part_layout_str := idx_layout_to_string padding lo\<rparr>"

definition om_setacl :: "string \<Rightarrow> S3ObjectMetadata \<Rightarrow> S3ObjectMetadata" where
  "om_setacl input_acl ob = ob\<lparr>om_encoded_acl := input_acl\<rparr>"

definition om_acl_from_json :: "string \<Rightarrow> S3ObjectMetadata \<Rightarrow> S3ObjectMetadata" where
  "om_acl_from_json acl ob = ob\<lparr>om_encoded_acl := acl\<rparr>"

definition om_get_acl_as_xml :: "S3ObjectMetadata \<Rightarrow> string" where
  "om_get_acl_as_xml ob = base64_decode (om_encoded_acl ob)"

definition om_set_tags :: "(string, string) std_map \<Rightarrow> S3ObjectMetadata \<Rightarrow> S3ObjectMetadata" where
  "om_set_tags tags ob = ob\<lparr>om_tags := tags\<rparr>"

definition delete_object_tags :: "S3ObjectMetadata \<Rightarrow> S3ObjectMetadata" where
  "delete_object_tags ob = ob\<lparr>om_tags := []\<rparr>"

definition check_object_tags_exists :: "S3ObjectMetadata \<Rightarrow> bool" where
  "check_object_tags_exists ob \<longleftrightarrow> om_tags ob \<noteq> []"

definition object_tags_count :: "S3ObjectMetadata \<Rightarrow> nat" where
  "object_tags_count ob = length (om_tags ob)"

text \<open>Unlike for a bucket, an empty tag set still gives a document.\<close>

definition om_get_tags_as_xml :: "(string \<Rightarrow> string option) \<Rightarrow> S3ObjectMetadata \<Rightarrow> string" where
  "om_get_tags_as_xml xmlEncode ob =
     xml_prolog @ tagging_open @ ''<TagSet>'' @ concat (map (tag_xml xmlEncode) (om_tags ob))
       @ ''</TagSet>'' @ ''</Tagging>''"

definition get_pvid :: "S3ObjectMetadata \<Rightarrow> m0_fid" where
  "get_pvid ob = fst (to_m0_fid (om_pvid_str ob))"

definition set_pvid :: "m0_fid option \<Rightarrow> S3ObjectMetadata \<Rightarrow> S3ObjectMetadata" where
  "set_pvid p ob = ob\<lparr>om_pvid_str := (case p of Some pvid \<Rightarrow> fid_to_string pvid | None \<Rightarrow> [])\<rparr>"

definition is_object_extended :: "S3ObjectMetadata \<Rightarrow> bool" where
  "is_object_extended ob \<longleftrightarrow> om_obj_type ob \<noteq> simple"

definition mark_invalid :: "S3ObjectMetadata \<Rightarrow> S3ObjectMetadata" where
  "mark_invalid ob = ob\<lparr>om_state := Oinvalid\<rparr>"

section \<open>JSON\<close>

definition at_signs :: "bool \<Rightarrow> string \<Rightarrow> string" where
  "at_signs corrupted s = (if corrupted then ''@'' @ s @ ''@'' else s)"

definition json_put_nested :: "string \<Rightarrow> string \<Rightarrow> json \<Rightarrow> (string, json) std_map \<Rightarrow> (string, json) std_map" where
  "json_put_nested name key v root =
     map_put name (JObj (map_put key v (case map_get root name of Some (JObj ms) \<Rightarrow> ms | _ \<Rightarrow> []))) root"

definition object_doc :: "di_switches \<Rightarrow> string \<Rightarrow> S3ObjectMetadata \<Rightarrow> (string, json) std_map" where
  "object_doc fi now ob =
     (let r1 = map_put ''Bucket-Name'' (JStr (at_signs (di_metadata_bcktname_on_write_corrupted fi) (om_bucket_name ob))) [];
          r2 = map_put ''Object-Name'' (JStr (at_signs (di_metadata_objname_on_write_corrupted fi) (om_object_name ob))) r1;
          r3 = map_put ''Object-URI'' (JStr (om_object_key_uri ob)) r2;
          r4 = map_put ''layout_id'' (JInt (sint (om_layout_id ob))) r3;
          r5 = (if om_is_multipart ob
                then map_put ''motr_old_object_version_id'' (JStr (om_motr_old_object_version_id ob))
                      (map_put ''old_layout_id'' (JInt (sint (om_old_layout_id ob)))
                        (map_put ''motr_old_oid'' (JStr (om_motr_old_oid_str ob))
                          (map_put ''motr_part_layout'' (JStr (om_motr_part_layout_str ob))
                            (map_put ''Upload-ID'' (JStr (om_upload_id ob)) r4))))
                else r4);
          r6 = map_put ''motr_oid'' (JStr (om_motr_oid_str ob)) r5;
          r7 = map_put ''PVID'' (JStr (om_pvid_str ob)) r6;
          r8 = map_put ''FNo'' (JInt (uint (om_obj_fragments ob))) r7;
          r9 = map_put ''PRTS'' (JInt (uint (om_obj_parts ob))) r8;
          r10 = (case map_get (om_system ob) ''Content-Length'' of
                   Some v \<Rightarrow> if v \<noteq> [] then map_put ''Size'' (JStr v) r9 else r9
                 | None \<Rightarrow> r9);
          r11 = json_set_all ''System-Defined'' (om_system ob) r10;
          r12 = json_set_all ''User-Defined'' (om_user ob) r11;
          r13 = json_set_all ''User-Defined-Tags'' (om_tags ob) r12;
          r14 = map_put ''ACL'' (JStr (if om_encoded_acl ob = [] then rq_default_acl (om_request ob) else om_encoded_acl ob)) r13;
          r15 = map_put ''create_timestamp'' (JStr now) r14
      in if di_obj_md5_corrupted fi
         then json_put_nested ''System-Defined'' ''Content-MD5'' (JStr ''d41d8cd98f00b204e9800998ecf8427e'') r15
         else r15)"

definition om_to_json :: "jsoncpp \<Rightarrow> di_switches \<Rightarrow> string \<Rightarrow> S3ObjectMetadata \<Rightarrow> string" where
  "om_to_json lib fi now ob = writer_write lib (JObj (object_doc fi now ob))"

definition version_doc :: "string \<Rightarrow> S3ObjectMetadata \<Rightarrow> (string, json) std_map" where
  "version_doc now ob =
     map_put ''create_timestamp'' (JStr now) (map_put ''PVID'' (JStr (om_pvid_str ob))
       (map_put ''layout_id'' (JInt (sint (om_layout_id ob))) (map_put ''motr_oid'' (JStr (om_motr_oid_str ob)) [])))"

definition version_entry_to_json :: "jsoncpp \<Rightarrow> string \<Rightarrow> S3ObjectMetadata \<Rightarrow> string" where
  "version_entry_to_json lib now ob = writer_write lib (JObj (version_doc now ob))"

text \<open>The kind of an object from its number of fragments and parts; 0 and 0 keeps the kind it had.\<close>

definition classify :: "32 word \<Rightarrow> 32 word \<Rightarrow> S3ObjectMetadataType \<Rightarrow> S3ObjectMetadataType" where
  "classify fragments parts old =
     (if fragments \<noteq> 0 \<and> parts \<noteq> 0 \<and> fragments = parts then only_parts
      else if fragments \<noteq> 0 \<and> parts = 0 then only_frgments
      else if fragments \<noteq> 0 \<and> parts \<noteq> 0 \<and> fragments > parts then parts_fragments
      else old)"

text \<open>
  The owner and the version are read with \<open>operator[]\<close> from the attributes just loaded:
  each read gives the value, or creates an empty one.
\<close>

definition om_load_owner :: "S3ObjectMetadata \<Rightarrow> S3ObjectMetadata" where
  "om_load_owner ob =
     (let m0 = om_system ob;
          m1 = touch ''Owner-User'' m0;
          m2 = touch ''Owner-Canonical-id'' m1;
          m3 = touch ''Owner-User-id'' m2;
          m4 = touch ''Owner-Account'' m3;
          m5 = touch ''Owner-Account-id'' m4;
          m6 = touch ''x-amz-version-id'' m5
      in ob\<lparr>om_system := m6, om_user_name := attr_or_empty m0 ''Owner-User'',
            om_canonical_id := attr_or_empty m1 ''Owner-Canonical-id'', om_user_id := attr_or_empty m2 ''Owner-User-id'',
            om_account_name := attr_or_empty m3 ''Owner-Account'', om_account_id := attr_or_empty m4 ''Owner-Account-id'',
            om_object_version_id := attr_or_empty m5 ''x-amz-version-id'',
            om_rev_epoch_version_id_key := generate_keyid_from_versionid (attr_or_empty m5 ''x-amz-version-id'')\<rparr>)"

definition fragment_fields :: "jsoncpp \<Rightarrow> json \<Rightarrow> S3ObjectMetadata \<Rightarrow> S3ObjectMetadata option" where
  "fragment_fields lib newroot ob = do {
     fno \<leftarrow> json_isMember newroot ''FNo'';
     if fno then do {
       pv \<leftarrow> json_string lib newroot ''PVID'';
       fr \<leftarrow> json_int (asUInt lib) newroot ''FNo'';
       pa \<leftarrow> json_int (asUInt lib) newroot ''PRTS'';
       Some (ob\<lparr>om_pvid_str := pv, om_obj_fragments := of_int fr, om_obj_parts := of_int pa\<rparr>)
     } else Some ob
   }"

definition multipart_fields :: "jsoncpp \<Rightarrow> json \<Rightarrow> S3ObjectMetadata \<Rightarrow> S3ObjectMetadata option" where
  "multipart_fields lib newroot ob =
     (if om_is_multipart ob then do {
        oo \<leftarrow> json_string lib newroot ''motr_old_oid'';
        ol \<leftarrow> json_int (asInt lib) newroot ''old_layout_id'';
        ov \<leftarrow> json_string lib newroot ''motr_old_object_version_id'';
        Some (ob\<lparr>om_motr_old_oid_str := oo, om_old_oid := to_m0_uint128 oo, om_old_layout_id := of_int ol,
                om_motr_old_object_version_id := ov\<rparr>)
      } else Some ob)"

definition object_from_root :: "jsoncpp \<Rightarrow> di_switches \<Rightarrow> json \<Rightarrow> S3ObjectMetadata \<Rightarrow> S3ObjectMetadata option" where
  "object_from_root lib fi newroot ob = do {
     bn \<leftarrow> json_string lib newroot ''Bucket-Name'';
     nm \<leftarrow> json_string lib newroot ''Object-Name'';
     uri \<leftarrow> json_string lib newroot ''Object-URI'';
     up \<leftarrow> json_string lib newroot ''Upload-ID'';
     pl \<leftarrow> json_string lib newroot ''motr_part_layout'';
     ms \<leftarrow> json_string lib newroot ''motr_oid'';
     ly \<leftarrow> json_int (asInt lib) newroot ''layout_id'';
     o1 \<leftarrow> fragment_fields lib newroot
       (ob\<lparr>om_bucket_name := at_signs (di_metadata_bcktname_on_read_corrupted fi) bn,
          om_object_name := at_signs (di_metadata_objname_on_read_corrupted fi) nm,
          om_object_key_uri := uri, om_upload_id := up, om_motr_part_layout_str := pl, om_motr_oid_str := ms,
          om_layout_id := of_int ly\<rparr>);
     let o2 = o1\<lparr>om_obj_type := classify (om_obj_fragments o1) (om_obj_parts o1) (om_obj_type o1),
                  om_oid := to_m0_uint128 ms\<rparr>;
     o3 \<leftarrow> multipart_fields lib newroot o2;
     lo \<leftarrow> to_idx_layout pl;
     sysm \<leftarrow> json_merge_map lib c_str c_str newroot ''System-Defined'' (om_system o3);
     let o4 = om_load_owner (o3\<lparr>om_part_index_layout := lo, om_system := sysm\<rparr>);
     usrm \<leftarrow> json_merge_map lib c_str c_str newroot ''User-Defined'' (om_user o4);
     tags \<leftarrow> json_merge_map lib id id newroot ''User-Defined-Tags'' (om_tags o4);
     acl \<leftarrow> json_string lib newroot ''ACL'';
     Some (om_acl_from_json acl (o4\<lparr>om_user := usrm, om_tags := tags\<rparr>))
   }"

definition om_from_json ::
  "jsoncpp \<Rightarrow> di_switches \<Rightarrow> string \<Rightarrow> S3ObjectMetadata \<Rightarrow> (S3ObjectMetadata \<times> int) option" where
  "om_from_json lib fi content ob =
     (case reader_parse lib (c_str content) of
        None \<Rightarrow> Some (ob, -1)
      | Some newroot \<Rightarrow>
          (if object_metadata_corrupted fi then Some (ob, -1)
           else map_option (\<lambda>ob'. (ob', 0)) (object_from_root lib fi newroot ob)))"

section \<open>Invariant\<close>

text \<open>
  The three maps are maps, and the textual forms kept beside the identifiers agree with
  them once they are set.
\<close>

definition object_wf :: "S3ObjectMetadata \<Rightarrow> bool" where
  "object_wf ob \<longleftrightarrow> map_wf (om_system ob) \<and> map_wf (om_user ob) \<and> map_wf (om_tags ob)
     \<and> (om_motr_oid_str ob \<noteq> [] \<longrightarrow> to_m0_uint128 (om_motr_oid_str ob) = om_oid ob)
     \<and> to_m0_uint128 (om_motr_old_oid_str ob) = om_old_oid ob
     \<and> to_idx_layout (om_motr_part_layout_str ob) = Some (om_part_index_layout ob)"

lemma le_to_nat_zeros: "le_to_nat (replicate n (char_of (0 :: nat))) = 0"
  by (induction n) simp_all

lemma to_idx_layout_Nil [simp]: "to_idx_layout [] = Some zero_layout"
  by (simp add: to_idx_layout_def base64_decode_def sizeof_idx_layout_def idx_layout_of_bytes_def of_le64_def
      of_le32_def le_to_nat_zeros zero_layout_def)

lemma to_m0_uint128_Nil [simp]: "to_m0_uint128 [] = zero_id"
  by (simp add: to_m0_uint128_def zero_id_def)

lemma touch_wf [simp]: "map_wf m \<Longrightarrow> map_wf (touch k m)"
  by (simp add: touch_def)

lemma touch_get: "map_wf m \<Longrightarrow> map_get (touch k m) = (map_get m)(k \<mapsto> attr_or_empty m k)"
  by (simp add: touch_def map_index_get attr_or_empty_def)

lemma attr_touch [simp]: "map_wf m \<Longrightarrow> attr_or_empty (touch k m) k' = attr_or_empty m k'"
  by (simp add: attr_or_empty_def [of "touch k m"] touch_get) (simp add: attr_or_empty_def)

lemma str_set_default_wf [simp]: "map_wf m \<Longrightarrow> map_wf (str_set_default k v m)"
  by (simp add: str_set_default_def Let_def case_prod_beta)

lemma initialize_attributes_wf [simp]: "map_wf m \<Longrightarrow> map_wf (initialize_attributes un cid uid an aid m)"
  by (simp add: initialize_attributes_def Let_def del: map_put.simps)

lemma om_initialize_wf: "object_wf ob \<Longrightarrow> object_wf (om_initialize mp up ob)"
  by (simp add: om_initialize_def object_wf_def Let_def del: map_put.simps)

lemma S3ObjectMetadata_init_wf [simp]: "object_wf (S3ObjectMetadata_init app req bn on mp up)"
  unfolding S3ObjectMetadata_init_def by (rule om_initialize_wf) (simp add: object_wf_def)

lemma om_load_owner_wf: "map_wf (om_system ob) \<Longrightarrow> map_wf (om_system (om_load_owner ob))"
  by (simp add: om_load_owner_def Let_def)

lemma om_load_owner_other [simp]:
  "om_user (om_load_owner ob) = om_user ob" "om_tags (om_load_owner ob) = om_tags ob"
  "om_motr_oid_str (om_load_owner ob) = om_motr_oid_str ob" "om_oid (om_load_owner ob) = om_oid ob"
  "om_motr_old_oid_str (om_load_owner ob) = om_motr_old_oid_str ob" "om_old_oid (om_load_owner ob) = om_old_oid ob"
  "om_motr_part_layout_str (om_load_owner ob) = om_motr_part_layout_str ob"
  "om_part_index_layout (om_load_owner ob) = om_part_index_layout ob"
  "om_bucket_name (om_load_owner ob) = om_bucket_name ob" "om_object_name (om_load_owner ob) = om_object_name ob"
  "om_object_key_uri (om_load_owner ob) = om_object_key_uri ob" "om_layout_id (om_load_owner ob) = om_layout_id ob"
  "om_upload_id (om_load_owner ob) = om_upload_id ob" "om_pvid_str (om_load_owner ob) = om_pvid_str ob"
  "om_obj_fragments (om_load_owner ob) = om_obj_fragments ob" "om_obj_parts (om_load_owner ob) = om_obj_parts ob"
  "om_obj_type (om_load_owner ob) = om_obj_type ob" "om_old_layout_id (om_load_owner ob) = om_old_layout_id ob"
  "om_motr_old_object_version_id (om_load_owner ob) = om_motr_old_object_version_id ob"
  "om_state (om_load_owner ob) = om_state ob" "om_is_multipart (om_load_owner ob) = om_is_multipart ob"
  "om_requested_bucket_name (om_load_owner ob) = om_requested_bucket_name ob"
  "om_requested_object_name (om_load_owner ob) = om_requested_object_name ob"
  "om_object_list_index_layout (om_load_owner ob) = om_object_list_index_layout ob"
  "om_objects_version_list_index_layout (om_load_owner ob) = om_objects_version_list_index_layout ob"
  "om_request (om_load_owner ob) = om_request ob"
  by (simp_all add: om_load_owner_def Let_def)

lemma om_load_owner_fields:
  assumes "map_wf (om_system ob)"
  shows "om_user_name (om_load_owner ob) = attr_or_empty (om_system ob) ''Owner-User''"
    "om_canonical_id (om_load_owner ob) = attr_or_empty (om_system ob) ''Owner-Canonical-id''"
    "om_user_id (om_load_owner ob) = attr_or_empty (om_system ob) ''Owner-User-id''"
    "om_account_name (om_load_owner ob) = attr_or_empty (om_system ob) ''Owner-Account''"
    "om_account_id (om_load_owner ob) = attr_or_empty (om_system ob) ''Owner-Account-id''"
    "om_object_version_id (om_load_owner ob) = attr_or_empty (om_system ob) ''x-amz-version-id''"
    "om_rev_epoch_version_id_key (om_load_owner ob) =
       generate_keyid_from_versionid (attr_or_empty (om_system ob) ''x-amz-version-id'')"
    "map_get (om_system (om_load_owner ob)) k =
       (if k \<in> set (''x-amz-version-id'' # owner_keys) then Some (attr_or_empty (om_system ob) k)
        else map_get (om_system ob) k)"
  using assms by (simp_all add: om_load_owner_def Let_def touch_get owner_keys_def)

section \<open>The JSON round trip\<close>

definition attributes_c_strings :: "(string, string) std_map \<Rightarrow> bool" where
  "attributes_c_strings m \<longleftrightarrow> (\<forall>(k, v) \<in> set m. no_nul k \<and> no_nul v)"

lemma attributes_c_str: "attributes_c_strings m \<Longrightarrow> \<forall>(k, v) \<in> set m. c_str k = k \<and> c_str v = v"
  by (auto simp: attributes_c_strings_def)

definition attr_doc :: "(string, string) std_map \<Rightarrow> json option" where
  "attr_doc m = (if m = [] then None else Some (JObj (map (\<lambda>(k, v). (k, JStr v)) m)))"

lemma json_set_all_attr:
  assumes "map_wf es" "map_wf root"
  shows "map_get (json_set_all name es root) k =
    (if k = name \<and> es \<noteq> [] then attr_doc es else map_get root k)"
  using json_set_all_get [OF assms] by (auto simp: attr_doc_def)

lemma object_doc_get:
  fixes now :: string
  assumes "map_wf (om_system ob)" "map_wf (om_user ob)" "map_wf (om_tags ob)"
  defines "doc \<equiv> object_doc no_faults now ob"
  shows "map_get doc ''Bucket-Name'' = Some (JStr (om_bucket_name ob))"
    "map_get doc ''Object-Name'' = Some (JStr (om_object_name ob))"
    "map_get doc ''Object-URI'' = Some (JStr (om_object_key_uri ob))"
    "map_get doc ''layout_id'' = Some (JInt (sint (om_layout_id ob)))"
    "map_get doc ''Upload-ID'' = (if om_is_multipart ob then Some (JStr (om_upload_id ob)) else None)"
    "map_get doc ''motr_part_layout'' = (if om_is_multipart ob then Some (JStr (om_motr_part_layout_str ob)) else None)"
    "map_get doc ''motr_old_oid'' = (if om_is_multipart ob then Some (JStr (om_motr_old_oid_str ob)) else None)"
    "map_get doc ''old_layout_id'' = (if om_is_multipart ob then Some (JInt (sint (om_old_layout_id ob))) else None)"
    "map_get doc ''motr_old_object_version_id'' =
       (if om_is_multipart ob then Some (JStr (om_motr_old_object_version_id ob)) else None)"
    "map_get doc ''motr_oid'' = Some (JStr (om_motr_oid_str ob))"
    "map_get doc ''PVID'' = Some (JStr (om_pvid_str ob))"
    "map_get doc ''FNo'' = Some (JInt (uint (om_obj_fragments ob)))"
    "map_get doc ''PRTS'' = Some (JInt (uint (om_obj_parts ob)))"
    "map_get doc ''System-Defined'' = attr_doc (om_system ob)"
    "map_get doc ''User-Defined'' = attr_doc (om_user ob)"
    "map_get doc ''User-Defined-Tags'' = attr_doc (om_tags ob)"
    "map_get doc ''ACL'' =
       Some (JStr (if om_encoded_acl ob = [] then rq_default_acl (om_request ob) else om_encoded_acl ob))"
  using assms(1-3)
  by (simp_all add: doc_def object_doc_def no_faults_def at_signs_def json_set_all_attr Let_def del: map_put.simps
      split: option.split) (simp_all add: attr_doc_def)

text \<open>What \<open>from_json\<close> makes of an object \<open>b\<close> when it reads the text of \<open>ob\<close>.\<close>

definition merged :: "(string, string) std_map \<Rightarrow> (string, string) std_map \<Rightarrow> (string, string) std_map" where
  "merged es m = fold (\<lambda>(k, v). map_put k v) es m"

definition object_copy :: "S3ObjectMetadata \<Rightarrow> S3ObjectMetadata \<Rightarrow> S3ObjectMetadata" where
  "object_copy ob b =
     (let b1 = b\<lparr>om_bucket_name := om_bucket_name ob, om_object_name := om_object_name ob,
                 om_object_key_uri := om_object_key_uri ob,
                 om_upload_id := (if om_is_multipart ob then om_upload_id ob else []),
                 om_motr_part_layout_str := (if om_is_multipart ob then om_motr_part_layout_str ob else []),
                 om_motr_oid_str := om_motr_oid_str ob, om_layout_id := om_layout_id ob,
                 om_pvid_str := om_pvid_str ob, om_obj_fragments := om_obj_fragments ob, om_obj_parts := om_obj_parts ob,
                 om_obj_type := classify (om_obj_fragments ob) (om_obj_parts ob) (om_obj_type b),
                 om_oid := to_m0_uint128 (om_motr_oid_str ob)\<rparr>;
          b2 = (if om_is_multipart b
                then b1\<lparr>om_motr_old_oid_str := om_motr_old_oid_str ob, om_old_oid := to_m0_uint128 (om_motr_old_oid_str ob),
                         om_old_layout_id := om_old_layout_id ob,
                         om_motr_old_object_version_id := om_motr_old_object_version_id ob\<rparr>
                else b1);
          b3 = om_load_owner (b2\<lparr>om_part_index_layout := (if om_is_multipart ob then om_part_index_layout ob else zero_layout),
                                 om_system := merged (om_system ob) (om_system b2)\<rparr>)
      in b3\<lparr>om_user := merged (om_user ob) (om_user b3), om_tags := merged (om_tags ob) (om_tags b3),
            om_encoded_acl := (if om_encoded_acl ob = [] then rq_default_acl (om_request ob) else om_encoded_acl ob)\<rparr>)"

lemma object_from_doc:
  assumes wf: "object_wf ob"
    and lib: "\<And>s. asString lib (JStr s) = Some s" "asString lib JNull = Some []" "jsoncpp_reads_numbers lib"
    and attrs: "attributes_c_strings (om_system ob)" "attributes_c_strings (om_user ob)"
    and mp: "om_is_multipart b \<longrightarrow> om_is_multipart ob"
  shows "object_from_root lib no_faults (JObj (object_doc no_faults now ob)) b = Some (object_copy ob b)"
proof -
  have maps: "map_wf (om_system ob)" "map_wf (om_user ob)" "map_wf (om_tags ob)"
    using wf by (simp_all add: object_wf_def)
  note doc = object_doc_get [OF maps, of now]
  have merge: "json_merge_map lib c_str c_str (JObj (object_doc no_faults now ob)) ''System-Defined'' m = Some (merged (om_system ob) m)"
      "json_merge_map lib c_str c_str (JObj (object_doc no_faults now ob)) ''User-Defined'' m = Some (merged (om_user ob) m)"
      "json_merge_map lib id id (JObj (object_doc no_faults now ob)) ''User-Defined-Tags'' m = Some (merged (om_tags ob) m)" for m
    unfolding merged_def using maps attrs lib(1)
    by (auto intro!: json_merge_map_set_all simp: doc attr_doc_def attributes_c_strings_def)
  have num: "asInt lib (JInt (sint w)) = Some (sint w)" "asUInt lib (JInt (uint w)) = Some (uint w)" for w :: "32 word"
    using lib(3) sint_ge [of w] sint_lt [of w] uint_lt2p [of w] by (simp_all add: jsoncpp_reads_numbers_def)
  have str: "json_string lib (JObj (object_doc no_faults now ob)) ''Bucket-Name'' = Some (om_bucket_name ob)"
      "json_string lib (JObj (object_doc no_faults now ob)) ''Object-Name'' = Some (om_object_name ob)"
      "json_string lib (JObj (object_doc no_faults now ob)) ''Object-URI'' = Some (om_object_key_uri ob)"
      "json_string lib (JObj (object_doc no_faults now ob)) ''motr_oid'' = Some (om_motr_oid_str ob)"
      "json_string lib (JObj (object_doc no_faults now ob)) ''PVID'' = Some (om_pvid_str ob)"
      "json_string lib (JObj (object_doc no_faults now ob)) ''ACL'' =
         Some (if om_encoded_acl ob = [] then rq_default_acl (om_request ob) else om_encoded_acl ob)"
      "json_string lib (JObj (object_doc no_faults now ob)) ''Upload-ID'' = Some (if om_is_multipart ob then om_upload_id ob else [])"
      "json_string lib (JObj (object_doc no_faults now ob)) ''motr_part_layout'' =
         Some (if om_is_multipart ob then om_motr_part_layout_str ob else [])"
    by (simp_all add: json_string_def json_at_def doc lib)
  have mpstr: "json_string lib (JObj (object_doc no_faults now ob)) ''motr_old_oid'' = Some (om_motr_old_oid_str ob)"
      "json_string lib (JObj (object_doc no_faults now ob)) ''motr_old_object_version_id'' = Some (om_motr_old_object_version_id ob)"
      "json_int (asInt lib) (JObj (object_doc no_faults now ob)) ''old_layout_id'' = Some (sint (om_old_layout_id ob))"
    if "om_is_multipart ob" using that by (simp_all add: json_string_def json_int_def json_at_def doc lib num)
  have int: "json_int (asInt lib) (JObj (object_doc no_faults now ob)) ''layout_id'' = Some (sint (om_layout_id ob))"
      "json_int (asUInt lib) (JObj (object_doc no_faults now ob)) ''FNo'' = Some (uint (om_obj_fragments ob))"
      "json_int (asUInt lib) (JObj (object_doc no_faults now ob)) ''PRTS'' = Some (uint (om_obj_parts ob))"
      "json_isMember (JObj (object_doc no_faults now ob)) ''FNo'' = Some True"
    by (simp_all add: json_int_def json_at_def json_isMember_def doc num)
  have lo: "to_idx_layout (if om_is_multipart ob then om_motr_part_layout_str ob else []) =
      Some (if om_is_multipart ob then om_part_index_layout ob else zero_layout)"
    using wf by (simp add: object_wf_def)
  have faults: "di_metadata_bcktname_on_read_corrupted no_faults = False" "di_metadata_objname_on_read_corrupted no_faults = False"
    by (simp_all add: no_faults_def)
  note unfold = object_from_root_def fragment_fields_def multipart_fields_def str int merge lo object_copy_def
    faults at_signs_def om_acl_from_json_def Let_def
  show ?thesis
  proof (cases "om_is_multipart b")
    case True
    with mp have "om_is_multipart ob" by simp
    with True show ?thesis using lo by (simp add: unfold mpstr)
  next
    case False
    show ?thesis
    proof (cases "om_is_multipart ob")
      case True
      with False show ?thesis using lo by (simp add: unfold)
    next
      case f: False
      with False show ?thesis by (simp add: unfold)
    qed
  qed
qed

lemma om_from_json_to_json:
  assumes wf: "object_wf ob"
    and lib: "jsoncpp_reads_back lib (JObj (object_doc no_faults now ob))" "jsoncpp_reads_numbers lib"
    and attrs: "attributes_c_strings (om_system ob)" "attributes_c_strings (om_user ob)"
    and mp: "om_is_multipart b \<longrightarrow> om_is_multipart ob"
  shows "om_from_json lib no_faults (om_to_json lib no_faults now ob) b = Some (object_copy ob b, 0)"
proof -
  have str: "asString lib (JStr s) = Some s" "asString lib JNull = Some []" for s
    using lib(1) by (simp_all add: jsoncpp_reads_back_def)
  have "reader_parse lib (c_str (om_to_json lib no_faults now ob)) = Some (JObj (object_doc no_faults now ob))"
    using lib(1) by (simp add: om_to_json_def jsoncpp_reads_back_def)
  moreover have "\<not> object_metadata_corrupted no_faults" by (simp add: no_faults_def)
  ultimately show ?thesis
    using object_from_doc [OF wf str lib(2) attrs mp] by (simp add: om_from_json_def)
qed

lemma merged_wf [simp]: "map_wf m \<Longrightarrow> map_wf (merged es m)"
  unfolding merged_def by (rule std.wf_fold_put)

lemma merged_get: "map_wf es \<Longrightarrow> map_wf m \<Longrightarrow> map_get (merged es m) = map_get m ++ map_get es"
  by (simp add: merged_def std.get_fold_put map_of_rev_wf)

lemma merged_Nil [simp]: "map_wf es \<Longrightarrow> merged es [] = es"
  by (simp add: merged_def map_rebuild)

lemma object_copy_fields [simp]:
  "om_bucket_name (object_copy ob b) = om_bucket_name ob" "om_object_name (object_copy ob b) = om_object_name ob"
  "om_object_key_uri (object_copy ob b) = om_object_key_uri ob" "om_layout_id (object_copy ob b) = om_layout_id ob"
  "om_oid (object_copy ob b) = to_m0_uint128 (om_motr_oid_str ob)" "om_pvid_str (object_copy ob b) = om_pvid_str ob"
  "om_obj_fragments (object_copy ob b) = om_obj_fragments ob" "om_obj_parts (object_copy ob b) = om_obj_parts ob"
  "om_obj_type (object_copy ob b) = classify (om_obj_fragments ob) (om_obj_parts ob) (om_obj_type b)"
  "om_encoded_acl (object_copy ob b) = (if om_encoded_acl ob = [] then rq_default_acl (om_request ob) else om_encoded_acl ob)"
  "om_user (object_copy ob b) = merged (om_user ob) (om_user b)"
  "om_tags (object_copy ob b) = merged (om_tags ob) (om_tags b)"
  "om_requested_bucket_name (object_copy ob b) = om_requested_bucket_name b"
  "om_requested_object_name (object_copy ob b) = om_requested_object_name b"
  "om_object_list_index_layout (object_copy ob b) = om_object_list_index_layout b"
  "om_objects_version_list_index_layout (object_copy ob b) = om_objects_version_list_index_layout b"
  by (simp_all add: object_copy_def Let_def)

lemma object_copy_multipart:
  assumes "om_is_multipart ob"
  shows "om_upload_id (object_copy ob b) = om_upload_id ob"
    "om_part_index_layout (object_copy ob b) = om_part_index_layout ob"
    "om_is_multipart b \<Longrightarrow> om_old_oid (object_copy ob b) = to_m0_uint128 (om_motr_old_oid_str ob)"
    "om_is_multipart b \<Longrightarrow> om_old_layout_id (object_copy ob b) = om_old_layout_id ob"
    "om_is_multipart b \<Longrightarrow> om_motr_old_object_version_id (object_copy ob b) = om_motr_old_object_version_id ob"
  using assms by (simp_all add: object_copy_def Let_def)

text \<open>What the text of an object does not hold stays the reader's.\<close>

lemma om_load_owner_size [simp]: "om_primary_obj_size (om_load_owner ob) = om_primary_obj_size ob"
  by (simp add: om_load_owner_def Let_def)

lemma object_copy_kept_fields:
  "om_primary_obj_size (object_copy ob b) = om_primary_obj_size b"
  "om_is_multipart (object_copy ob b) = om_is_multipart b" "om_state (object_copy ob b) = om_state b"
  "\<not> om_is_multipart b \<Longrightarrow> om_old_oid (object_copy ob b) = om_old_oid b"
  "\<not> om_is_multipart b \<Longrightarrow> om_old_layout_id (object_copy ob b) = om_old_layout_id b"
  "\<not> om_is_multipart b \<Longrightarrow> om_motr_old_object_version_id (object_copy ob b) = om_motr_old_object_version_id b"
  "\<not> om_is_multipart ob \<Longrightarrow> om_upload_id (object_copy ob b) = []"
  "\<not> om_is_multipart ob \<Longrightarrow> om_part_index_layout (object_copy ob b) = zero_layout"
  by (simp_all add: object_copy_def Let_def)

text \<open>The attributes of a copy are those that \<open>om_load_owner\<close> leaves after the merge.\<close>

lemma object_copy_attributes:
  assumes "map_wf (om_system ob)" "map_wf (om_system b)"
  shows "map_get (om_system (object_copy ob b)) k =
      (if k \<in> set (''x-amz-version-id'' # owner_keys) then Some (attr_or_empty (merged (om_system ob) (om_system b)) k)
       else map_get (merged (om_system ob) (om_system b)) k)"
    "om_user_name (object_copy ob b) = attr_or_empty (merged (om_system ob) (om_system b)) ''Owner-User''"
    "om_account_id (object_copy ob b) = attr_or_empty (merged (om_system ob) (om_system b)) ''Owner-Account-id''"
    "om_user_id (object_copy ob b) = attr_or_empty (merged (om_system ob) (om_system b)) ''Owner-User-id''"
    "om_account_name (object_copy ob b) = attr_or_empty (merged (om_system ob) (om_system b)) ''Owner-Account''"
    "om_canonical_id (object_copy ob b) = attr_or_empty (merged (om_system ob) (om_system b)) ''Owner-Canonical-id''"
    "om_object_version_id (object_copy ob b) = attr_or_empty (merged (om_system ob) (om_system b)) ''x-amz-version-id''"
    "om_rev_epoch_version_id_key (object_copy ob b) =
       generate_keyid_from_versionid (attr_or_empty (merged (om_system ob) (om_system b)) ''x-amz-version-id'')"
  using assms by (simp_all add: object_copy_def Let_def om_load_owner_fields)

lemma object_copy_attr:
  assumes "map_wf (om_system ob)" "map_wf (om_system b)"
  shows "attr_or_empty (om_system (object_copy ob b)) k = attr_or_empty (merged (om_system ob) (om_system b)) k"
  using object_copy_attributes(1) [OF assms, of k] by (simp add: attr_or_empty_def)

lemma om_set_attribute_wf: "object_wf ob \<Longrightarrow> object_wf (om_set_attribute k v ob)"
  by (simp add: om_set_attribute_def object_wf_def)

lemma set_oid_wf: "object_wf ob \<Longrightarrow> object_wf (set_oid ident ob) \<and> object_wf (set_old_oid ident ob)"
  by (simp add: object_wf_def set_oid_def set_old_oid_def)

lemma set_part_index_layout_wf: "object_wf ob \<Longrightarrow> length padding = 4 \<Longrightarrow> object_wf (set_part_index_layout padding lo ob)"
  by (simp add: object_wf_def set_part_index_layout_def)

lemma version_date_wf:
  "object_wf ob \<Longrightarrow> object_wf (regenerate_version_id now_ms ob) \<and> object_wf (reset_date_time_to_current now ob)"
  unfolding regenerate_version_id_def reset_date_time_to_current_def Let_def
  by (intro conjI om_set_attribute_wf) (simp_all add: object_wf_def)

lemma tags_wf: "object_wf ob \<Longrightarrow> map_wf tags \<Longrightarrow> object_wf (om_set_tags tags ob) \<and> object_wf (delete_object_tags ob)"
  by (simp add: object_wf_def om_set_tags_def delete_object_tags_def)

lemma accessors_wf:
  "object_wf ob \<Longrightarrow> object_wf (fst (om_attribute_at k ob)) \<and> object_wf (om_add_user_defined_attribute k v ob)
    \<and> object_wf (set_version_id vid ob) \<and> object_wf (set_pvid p ob) \<and> object_wf (om_setacl acl ob)"
  by (simp add: object_wf_def om_attribute_at_def case_prod_beta set_version_id_def set_pvid_def om_setacl_def
      om_add_user_defined_attribute_def)

lemma init_ids [simp]:
  "om_motr_oid_str (S3ObjectMetadata_init app req bn nm mp up) = []"
  "om_motr_old_oid_str (S3ObjectMetadata_init app req bn nm mp up) = []"
  "om_old_oid (S3ObjectMetadata_init app req bn nm mp up) = zero_id"
  "om_motr_part_layout_str (S3ObjectMetadata_init app req bn nm mp up) = []"
  "om_part_index_layout (S3ObjectMetadata_init app req bn nm mp up) = zero_layout"
  by (simp_all add: S3ObjectMetadata_init_def om_initialize_def Let_def)

lemma S3ObjectMetadata_copy_wf: "object_wf ob \<Longrightarrow> object_wf (S3ObjectMetadata_copy app ty sz ob)"
  unfolding S3ObjectMetadata_copy_def by (rule om_initialize_wf) (simp add: object_wf_def)

lemma fragment_fields_wf: "fragment_fields lib root ob = Some ob' \<Longrightarrow>
    om_system ob' = om_system ob \<and> om_user ob' = om_user ob \<and> om_tags ob' = om_tags ob
    \<and> om_motr_oid_str ob' = om_motr_oid_str ob \<and> om_motr_old_oid_str ob' = om_motr_old_oid_str ob
    \<and> om_old_oid ob' = om_old_oid ob \<and> om_motr_part_layout_str ob' = om_motr_part_layout_str ob"
  by (auto simp: fragment_fields_def split: option.splits bind_splits if_splits)

lemma multipart_fields_wf: "multipart_fields lib root ob = Some ob' \<Longrightarrow>
    om_system ob' = om_system ob \<and> om_user ob' = om_user ob \<and> om_tags ob' = om_tags ob
    \<and> om_motr_oid_str ob' = om_motr_oid_str ob \<and> om_oid ob' = om_oid ob
    \<and> om_motr_part_layout_str ob' = om_motr_part_layout_str ob
    \<and> (to_m0_uint128 (om_motr_old_oid_str ob) = om_old_oid ob \<longrightarrow> to_m0_uint128 (om_motr_old_oid_str ob') = om_old_oid ob')"
  by (auto simp: multipart_fields_def split: option.splits bind_splits if_splits)

lemma object_from_root_wf:
  assumes "object_wf ob" "object_from_root lib fi root ob = Some ob'"
  shows "object_wf ob'"
proof -
  obtain bn nm uri up pl ms ly o1 o3 lo sysm usrm tags acl where
    o1: "fragment_fields lib root
       (ob\<lparr>om_bucket_name := at_signs (di_metadata_bcktname_on_read_corrupted fi) bn,
          om_object_name := at_signs (di_metadata_objname_on_read_corrupted fi) nm,
          om_object_key_uri := uri, om_upload_id := up, om_motr_part_layout_str := pl, om_motr_oid_str := ms,
          om_layout_id := of_int ly\<rparr>) = Some o1"
    and o3: "multipart_fields lib root (o1\<lparr>om_obj_type := classify (om_obj_fragments o1) (om_obj_parts o1) (om_obj_type o1),
                  om_oid := to_m0_uint128 ms\<rparr>) = Some o3"
    and lo: "to_idx_layout pl = Some lo"
    and sysm: "json_merge_map lib c_str c_str root ''System-Defined'' (om_system o3) = Some sysm"
    and usrm: "json_merge_map lib c_str c_str root ''User-Defined'' (om_user o3) = Some usrm"
    and tags: "json_merge_map lib id id root ''User-Defined-Tags'' (om_tags o3) = Some tags"
    and res: "ob' = om_acl_from_json acl ((om_load_owner (o3\<lparr>om_part_index_layout := lo, om_system := sysm\<rparr>))\<lparr>om_user := usrm, om_tags := tags\<rparr>)"
    using assms(2) by (auto simp: object_from_root_def Let_def bind_eq_Some_conv)
  note f = fragment_fields_wf [OF o1] multipart_fields_wf [OF o3]
  have "map_wf sysm" "map_wf usrm" "map_wf tags"
    using assms(1) f json_merge_map_wf [OF sysm] json_merge_map_wf [OF usrm] json_merge_map_wf [OF tags]
    by (simp_all add: object_wf_def)
  with assms(1) f lo show ?thesis
    by (simp add: res om_acl_from_json_def object_wf_def om_load_owner_wf)
qed

text \<open>The names of what was read are those of the document; the names that were asked for stay.\<close>

lemma fragment_fields_names: "fragment_fields lib root ob = Some ob' \<Longrightarrow>
    om_bucket_name ob' = om_bucket_name ob \<and> om_object_name ob' = om_object_name ob
    \<and> om_requested_bucket_name ob' = om_requested_bucket_name ob \<and> om_requested_object_name ob' = om_requested_object_name ob"
  by (auto simp: fragment_fields_def split: option.splits bind_splits if_splits)

lemma multipart_fields_names: "multipart_fields lib root ob = Some ob' \<Longrightarrow>
    om_bucket_name ob' = om_bucket_name ob \<and> om_object_name ob' = om_object_name ob
    \<and> om_requested_bucket_name ob' = om_requested_bucket_name ob \<and> om_requested_object_name ob' = om_requested_object_name ob"
  by (auto simp: multipart_fields_def split: option.splits bind_splits if_splits)

lemma object_from_root_names:
  assumes "object_from_root lib no_faults root ob = Some ob'"
  shows "json_string lib root ''Bucket-Name'' = Some (om_bucket_name ob')"
    "json_string lib root ''Object-Name'' = Some (om_object_name ob')"
    "om_requested_bucket_name ob' = om_requested_bucket_name ob" "om_requested_object_name ob' = om_requested_object_name ob"
  using assms
  by (auto simp: object_from_root_def Let_def bind_eq_Some_conv no_faults_def at_signs_def om_acl_from_json_def
      dest!: fragment_fields_names multipart_fields_names)

lemma om_from_json_wf:
  "object_wf ob \<Longrightarrow> om_from_json lib fi content ob = Some (ob', rc) \<Longrightarrow> object_wf ob'"
  by (auto simp: om_from_json_def object_from_root_wf split: option.splits if_splits)

section \<open>Properties\<close>

text \<open>C27: An object's metadata survives its JSON form.  Whatever well-formed object \<open>b\<close> of the same
  kind reads the text that \<open>to_json\<close> wrote of \<open>ob\<close> ends, with return code 0, with its names, URI,
  layout, object id, fragment and part counts, pool version and ACL (the default one when there was
  none); the kind of the object follows from the two counts.  Of the system attributes, user
  attributes and tags the written ones win and the reader's others stay; the five owner fields and
  the version id are then each read from their own system attribute, which is created empty when it
  exists on neither side.  A multipart upload also gets back its upload id, its part index and the
  object it replaces; for another object the upload id and part index are cleared and the replaced
  object stays the reader's.  The size of the primary object is not part of the text and stays the
  reader's.  Assumed: JsonCpp reads back what it wrote and the attributes contain no zero
  byte.\<close>

theorem object_json_roundtrip:
  assumes "object_wf ob" "object_wf b" "om_is_multipart b \<longleftrightarrow> om_is_multipart ob" "om_motr_oid_str ob \<noteq> []"
    and "attributes_c_strings (om_system ob)" "attributes_c_strings (om_user ob)"
    and "jsoncpp_reads_back lib (JObj (object_doc no_faults now ob))" "jsoncpp_reads_numbers lib"
  shows "\<exists>b'. om_from_json lib no_faults (om_to_json lib no_faults now ob) b = Some (b', 0)
    \<and> om_bucket_name b' = om_bucket_name ob \<and> om_object_name b' = om_object_name ob
    \<and> om_object_key_uri b' = om_object_key_uri ob \<and> om_layout_id b' = om_layout_id ob \<and> om_oid b' = om_oid ob
    \<and> om_pvid_str b' = om_pvid_str ob \<and> om_obj_fragments b' = om_obj_fragments ob \<and> om_obj_parts b' = om_obj_parts ob
    \<and> om_obj_type b' = classify (om_obj_fragments ob) (om_obj_parts ob) (om_obj_type b)
    \<and> om_encoded_acl b' = (if om_encoded_acl ob = [] then rq_default_acl (om_request ob) else om_encoded_acl ob)
    \<and> map_get (om_user b') = map_get (om_user b) ++ map_get (om_user ob)
    \<and> map_get (om_tags b') = map_get (om_tags b) ++ map_get (om_tags ob)
    \<and> (\<forall>k. map_get (om_system b') k =
         (let v = (map_get (om_system b) ++ map_get (om_system ob)) k
          in if k \<in> set (''x-amz-version-id'' # owner_keys) then Some (case v of None \<Rightarrow> [] | Some x \<Rightarrow> x) else v))
    \<and> om_user_name b' = attr_or_empty (om_system b') ''Owner-User''
    \<and> om_user_id b' = attr_or_empty (om_system b') ''Owner-User-id''
    \<and> om_account_name b' = attr_or_empty (om_system b') ''Owner-Account''
    \<and> om_account_id b' = attr_or_empty (om_system b') ''Owner-Account-id''
    \<and> om_canonical_id b' = attr_or_empty (om_system b') ''Owner-Canonical-id''
    \<and> om_object_version_id b' = attr_or_empty (om_system b') ''x-amz-version-id''
    \<and> om_rev_epoch_version_id_key b' = generate_keyid_from_versionid (attr_or_empty (om_system b') ''x-amz-version-id'')
    \<and> om_primary_obj_size b' = om_primary_obj_size b
    \<and> (if om_is_multipart ob
        then om_upload_id b' = om_upload_id ob \<and> om_part_index_layout b' = om_part_index_layout ob
          \<and> om_old_oid b' = om_old_oid ob \<and> om_old_layout_id b' = om_old_layout_id ob
          \<and> om_motr_old_object_version_id b' = om_motr_old_object_version_id ob
        else om_upload_id b' = [] \<and> om_part_index_layout b' = zero_layout
          \<and> om_old_oid b' = om_old_oid b \<and> om_old_layout_id b' = om_old_layout_id b
          \<and> om_motr_old_object_version_id b' = om_motr_old_object_version_id b)"
proof -
  have mp: "om_is_multipart b \<longrightarrow> om_is_multipart ob" using assms(3) by simp
  note read = om_from_json_to_json [OF assms(1,7,8,5,6) mp]
  have maps: "map_wf (om_system ob)" "map_wf (om_user ob)" "map_wf (om_tags ob)"
      "map_wf (om_system b)" "map_wf (om_user b)" "map_wf (om_tags b)" using assms(1,2) by (simp_all add: object_wf_def)
  have ids: "to_m0_uint128 (om_motr_oid_str ob) = om_oid ob" "to_m0_uint128 (om_motr_old_oid_str ob) = om_old_oid ob"
    using assms(1,4) by (simp_all add: object_wf_def)
  have sys: "map_get (om_system (object_copy ob b)) k =
      (let v = (map_get (om_system b) ++ map_get (om_system ob)) k
       in if k \<in> set (''x-amz-version-id'' # owner_keys) then Some (case v of None \<Rightarrow> [] | Some x \<Rightarrow> x) else v)" for k
    unfolding object_copy_attributes(1) [OF maps(1,4)] by (simp add: attr_or_empty_def merged_get maps Let_def)
  show ?thesis
    using read ids assms(3) maps sys
    by (intro exI [of _ "object_copy ob b"])
      (simp add: object_copy_multipart object_copy_kept_fields object_copy_attributes(2-8) object_copy_attr merged_get)
qed

text \<open>C28: The object metadata class keeps its state well formed: its three maps stay maps and
  the identifiers it keeps both as numbers and as text stay equal, from construction through
  every setter and through reading any text at all as JSON, with any fault injected.\<close>

theorem object_metadata_well_formed:
  assumes "object_wf ob" "length padding = 4" "map_wf tags"
  shows "object_wf (S3ObjectMetadata_init app req bn nm mp up) \<and> object_wf (S3ObjectMetadata_copy app ty sz ob)
    \<and> object_wf (set_oid ident ob) \<and> object_wf (set_old_oid ident ob) \<and> object_wf (set_part_index_layout padding lo ob)
    \<and> object_wf (om_set_attribute k v ob) \<and> object_wf (om_add_user_defined_attribute k v ob)
    \<and> object_wf (regenerate_version_id now_ms ob) \<and> object_wf (reset_date_time_to_current now ob)
    \<and> object_wf (om_set_tags tags ob) \<and> object_wf (delete_object_tags ob) \<and> object_wf (fst (om_attribute_at k ob))
    \<and> object_wf (set_version_id vid ob) \<and> object_wf (set_pvid p ob) \<and> object_wf (om_setacl acl ob)
    \<and> (\<forall>ob' rc. om_from_json lib fi content ob = Some (ob', rc) \<longrightarrow> object_wf ob')"
  using S3ObjectMetadata_copy_wf [OF assms(1)] set_oid_wf [OF assms(1)] set_part_index_layout_wf [OF assms(1,2)]
    om_set_attribute_wf [OF assms(1)] version_date_wf [OF assms(1)] tags_wf [OF assms(1,3)] accessors_wf [OF assms(1)]
    om_from_json_wf [OF assms(1)]
  by (metis S3ObjectMetadata_init_wf)

section \<open>Witnesses\<close>

definition sample_object_request :: object_request where
  "sample_object_request =
     \<lparr>rq_request_id = ''r'', rq_stripped_request_id = ''r'', rq_bucket_name = ''seagate'', rq_default_acl = ''QUNM'',
      rq_account_name = ''acc'', rq_account_id = ''12'', rq_user_name = ''root'', rq_user_id = ''34'',
      rq_canonical_id = ''56'', rq_object_name = ''photo'', rq_content_length = 10\<rparr>"

definition sample_object :: S3ObjectMetadata where
  "sample_object =
     set_oid \<lparr>u_hi = 1, u_lo = 2\<rparr>
       ((S3ObjectMetadata_init zero_id sample_object_request [] [] False [])
          \<lparr>om_system := [(''Owner-User'', ''root'')], om_user := [(''x-amz-meta-a'', ''b'')]\<rparr>)"

lemma sample_object_wf: "object_wf sample_object"
  unfolding sample_object_def
  by (rule set_oid_wf [THEN conjunct1]) (simp add: object_wf_def map_wf_def, simp add: S3ObjectMetadata_init_def om_initialize_def Let_def)

lemma sample_object_fields:
  "om_system sample_object = [(''Owner-User'', ''root'')]" "om_user sample_object = [(''x-amz-meta-a'', ''b'')]"
  "om_is_multipart sample_object = False" "om_oid sample_object = \<lparr>u_hi = 1, u_lo = 2\<rparr>"
  "om_motr_oid_str sample_object \<noteq> []" "om_object_name sample_object = ''photo''" "om_bucket_name sample_object = ''seagate''"
  by (simp_all add: sample_object_def set_oid_def S3ObjectMetadata_init_def om_initialize_def Let_def
      sample_object_request_def uint128_to_string_def)

theorem object_json_roundtrip_witness:
  "\<exists>lib b'. om_from_json lib no_faults (om_to_json lib no_faults ''now'' sample_object) sample_object = Some (b', 0)
    \<and> om_object_name b' = ''photo'' \<and> om_oid b' = \<lparr>u_hi = 1, u_lo = 2\<rparr>"
proof -
  let ?lib = "one_document_lib (JObj (object_doc no_faults ''now'' sample_object))"
  have "attributes_c_strings (om_system sample_object)" "attributes_c_strings (om_user sample_object)"
    by (simp_all add: sample_object_fields attributes_c_strings_def no_nul_def)
  with object_json_roundtrip [OF sample_object_wf sample_object_wf refl sample_object_fields(5), of ?lib "''now''"]
  show ?thesis
    using one_document_lib_reads_back one_document_lib_reads_numbers sample_object_fields(4,6) by metis
qed

theorem object_metadata_well_formed_witness:
  "object_wf (set_oid \<lparr>u_hi = 5, u_lo = 6\<rparr> sample_object)"
  using object_metadata_well_formed [of sample_object "''pad!''" "[]" _ _ _ _ _ _ _ _ "\<lparr>u_hi = 5, u_lo = 6\<rparr>"]
    sample_object_wf by simp

end
