(* ===== verification/Motr_Async.thy ===== *)
theory Motr_Async
  imports Main "HOL-Library.Word"
begin

text \<open>
  \<open>server/s3_asyncop_context_base.cc\<close> and \<open>server/s3_motr_rw_common.cc\<close>: how the replies of
  Motr to the operations of one launch become one callback on the main thread, and the
  counter of timeouts that stops the server.  A launch has \<open>ops_count\<close> operations; the Motr
  thread records each reply in the context, and the one that completes the count posts
  \<open>motr_op_done_on_main_thread\<close>.  Error codes are negative numbers as in the source.
\<close>

definition ENOENT :: int where "ENOENT = 2"
definition E2BIG :: int where "E2BIG = 7"
definition EEXIST :: int where "EEXIST = 17"
definition ETIMEDOUT :: int where "ETIMEDOUT = 110"

datatype S3AsyncOpStatus = unknown | inprogress | success | failed | connection_failed

record S3AsyncOpResponse =
  status :: S3AsyncOpStatus
  error_message :: string
  error_code :: int

record S3AsyncOpContextBase =
  ops_response :: "S3AsyncOpResponse list"
  ops_count :: nat
  response_received_count :: nat
  at_least_one_success :: bool

definition S3AsyncOpResponse_init :: S3AsyncOpResponse where
  "S3AsyncOpResponse_init = \<lparr>status = unknown, error_message = [], error_code = 0\<rparr>"

definition S3AsyncOpContextBase_init :: "nat \<Rightarrow> S3AsyncOpContextBase" where
  "S3AsyncOpContextBase_init ops_cnt =
     \<lparr>ops_response = replicate ops_cnt S3AsyncOpResponse_init, ops_count = ops_cnt,
      response_received_count = 0, at_least_one_success = False\<rparr>"

text \<open>An index outside the vector is undefined behaviour: \<open>None\<close>.\<close>

definition set_op_status_for ::
  "nat \<Rightarrow> S3AsyncOpStatus \<Rightarrow> string \<Rightarrow> S3AsyncOpContextBase \<Rightarrow> S3AsyncOpContextBase option" where
  "set_op_status_for op_idx opstatus message ctx =
     (if op_idx < length (ops_response ctx)
      then Some (ctx\<lparr>ops_response := (ops_response ctx)[op_idx :=
             (ops_response ctx ! op_idx)\<lparr>status := opstatus, error_message := message\<rparr>]\<rparr>)
      else None)"

definition set_op_errno_for :: "nat \<Rightarrow> int \<Rightarrow> S3AsyncOpContextBase \<Rightarrow> S3AsyncOpContextBase option" where
  "set_op_errno_for op_idx err ctx =
     (if op_idx < length (ops_response ctx)
      then Some (ctx\<lparr>ops_response := (ops_response ctx)[op_idx := (ops_response ctx ! op_idx)\<lparr>error_code := err\<rparr>],
                     at_least_one_success := at_least_one_success ctx \<or> err = 0\<rparr>)
      else None)"

definition get_errno_for :: "int \<Rightarrow> S3AsyncOpContextBase \<Rightarrow> int" where
  "get_errno_for op_idx ctx =
     (if op_idx < 0 \<or> op_idx \<ge> int (ops_count ctx) then - ENOENT
      else error_code (ops_response ctx ! nat op_idx))"

definition incr_response_count :: "S3AsyncOpContextBase \<Rightarrow> S3AsyncOpContextBase" where
  "incr_response_count ctx = ctx\<lparr>response_received_count := Suc (response_received_count ctx)\<rparr>"

section \<open>Replies of Motr\<close>

text \<open>The flag tells whether the completion is posted to the main thread.\<close>

definition s3_motr_op_common ::
  "nat \<Rightarrow> int \<Rightarrow> S3AsyncOpContextBase \<Rightarrow> (S3AsyncOpContextBase \<times> bool) option" where
  "s3_motr_op_common op_index_in_launch motr_rc ctx =
     (case set_op_errno_for op_index_in_launch motr_rc ctx of
        None \<Rightarrow> None
      | Some ctx1 \<Rightarrow>
          (case set_op_status_for op_index_in_launch
                  (if motr_rc = 0 then success else failed)
                  (if motr_rc = 0 then ''Success.'' else ''Operation Failed.'') ctx1 of
             None \<Rightarrow> None
           | Some ctx2 \<Rightarrow>
               (let ctx3 = incr_response_count ctx2
                in Some (ctx3, response_received_count ctx3 = ops_count ctx3))))"

definition s3_motr_op_failed ::
  "nat \<Rightarrow> int \<Rightarrow> S3AsyncOpContextBase \<Rightarrow> (S3AsyncOpContextBase \<times> bool) option" where
  "s3_motr_op_failed op_index_in_launch motr_rc ctx =
     (case set_op_errno_for op_index_in_launch motr_rc ctx of
        None \<Rightarrow> None
      | Some ctx1 \<Rightarrow>
          (case set_op_status_for op_index_in_launch failed ''Operation Failed.'' ctx1 of
             None \<Rightarrow> None
           | Some ctx2 \<Rightarrow>
               (let ctx3 = incr_response_count ctx2
                in Some (ctx3, response_received_count ctx3 = ops_count ctx3))))"

text \<open>An operation that could not be launched posts at once and does not count.\<close>

definition s3_motr_op_pre_launch_failure ::
  "int \<Rightarrow> S3AsyncOpContextBase \<Rightarrow> (S3AsyncOpContextBase \<times> bool) option" where
  "s3_motr_op_pre_launch_failure rc ctx =
     (case set_op_errno_for 0 rc ctx of
        None \<Rightarrow> None
      | Some ctx1 \<Rightarrow> map_option (\<lambda>c. (c, True)) (set_op_status_for 0 failed ''Operation Failed.'' ctx1))"

section \<open>The main thread\<close>

record timeout_guard =
  gs_timeout_window_start :: int
  gs_timeout_cnt :: "32 word"
  gs_timeout_shutdown_in_progress :: bool

datatype op_outcome = On_success | On_failed

text \<open>
  The last component tells whether the graceful shutdown is started.  \<open>err_thr\<close> and
  \<open>err_wnd\<close> are the options \<open>S3_SERVER_MOTR_ETIMEDOUT_MAX_THRESHOLD\<close> and
  \<open>S3_SERVER_MOTR_ETIMEDOUT_WINDOW_SEC\<close>; \<open>hook\<close> is whether the shutdown function is set.
\<close>

definition count_timeout :: "32 word \<Rightarrow> 32 word \<Rightarrow> bool \<Rightarrow> int \<Rightarrow> timeout_guard \<Rightarrow> timeout_guard \<times> bool" where
  "count_timeout err_thr err_wnd hook curtime g =
     (let c0 = (if curtime - gs_timeout_window_start g \<ge> uint err_wnd then 0 else gs_timeout_cnt g);
          g1 = g\<lparr>gs_timeout_cnt := c0 + 1, gs_timeout_window_start := curtime\<rparr>
      in if gs_timeout_cnt g1 \<ge> err_thr then (g1\<lparr>gs_timeout_shutdown_in_progress := True\<rparr>, hook) else (g1, False))"

definition motr_op_done_on_main_thread ::
  "32 word \<Rightarrow> 32 word \<Rightarrow> bool \<Rightarrow> int \<Rightarrow> S3AsyncOpContextBase \<Rightarrow> timeout_guard \<Rightarrow> op_outcome \<times> timeout_guard \<times> bool" where
  "motr_op_done_on_main_thread err_thr err_wnd hook curtime ctx g =
     (if at_least_one_success ctx then (On_success, g, False)
      else let code = get_errno_for 0 ctx
           in if code = - ETIMEDOUT \<and> \<not> gs_timeout_shutdown_in_progress g
              then (let (g', down) = count_timeout err_thr err_wnd hook curtime g in (On_failed, g', down))
              else (On_failed, g, False))"

section \<open>A launch and its replies\<close>

text \<open>The replies in the order they arrive: index, return code, and which of the two callbacks ran.\<close>

record motr_reply =
  r_index :: nat
  r_rc :: int
  r_failed_cb :: bool

definition take_reply :: "motr_reply \<Rightarrow> S3AsyncOpContextBase \<Rightarrow> (S3AsyncOpContextBase \<times> bool) option" where
  "take_reply r ctx =
     (if r_failed_cb r then s3_motr_op_failed (r_index r) (r_rc r) ctx else s3_motr_op_common (r_index r) (r_rc r) ctx)"

fun take_replies :: "motr_reply list \<Rightarrow> S3AsyncOpContextBase \<Rightarrow> (S3AsyncOpContextBase \<times> bool list) option" where
  "take_replies [] ctx = Some (ctx, [])"
| "take_replies (r # rs) ctx =
     (case take_reply r ctx of
        None \<Rightarrow> None
      | Some (ctx1, posted) \<Rightarrow>
          (case take_replies rs ctx1 of None \<Rightarrow> None | Some (ctx2, ps) \<Rightarrow> Some (ctx2, posted # ps)))"

definition recorded :: "motr_reply \<Rightarrow> S3AsyncOpResponse" where
  "recorded r =
     (let ok = (r_rc r = 0 \<and> \<not> r_failed_cb r)
      in \<lparr>status = (if ok then success else failed),
          error_message = (if ok then ''Success.'' else ''Operation Failed.''), error_code = r_rc r\<rparr>)"

lemma take_reply_Some:
  assumes "r_index r < length (ops_response ctx)"
  shows "take_reply r ctx =
    Some (ctx\<lparr>ops_response := (ops_response ctx)[r_index r := recorded r],
              at_least_one_success := at_least_one_success ctx \<or> r_rc r = 0,
              response_received_count := Suc (response_received_count ctx)\<rparr>,
          Suc (response_received_count ctx) = ops_count ctx)"
proof -
  obtain st m c where "ops_response ctx ! r_index r = \<lparr>status = st, error_message = m, error_code = c\<rparr>"
    by (metis S3AsyncOpResponse.cases)
  with assms show ?thesis
    by (simp add: take_reply_def s3_motr_op_failed_def s3_motr_op_common_def set_op_errno_for_def set_op_status_for_def
        incr_response_count_def recorded_def Let_def)
qed

lemma take_replies_outcome:
  assumes "\<forall>r \<in> set rs. r_index r < length (ops_response ctx)"
  shows "\<exists>ctx' ps. take_replies rs ctx = Some (ctx', ps)
    \<and> ps = map (\<lambda>i. response_received_count ctx + Suc i = ops_count ctx) [0..<length rs]
    \<and> at_least_one_success ctx' = (at_least_one_success ctx \<or> (\<exists>r \<in> set rs. r_rc r = 0))
    \<and> ops_count ctx' = ops_count ctx \<and> length (ops_response ctx') = length (ops_response ctx)"
  using assms
proof (induction rs arbitrary: ctx)
  case (Cons r rs)
  note step = take_reply_Some [of r ctx]
  let ?ctx = "ctx\<lparr>ops_response := (ops_response ctx)[r_index r := recorded r], at_least_one_success := at_least_one_success ctx \<or> r_rc r = 0,
                response_received_count := Suc (response_received_count ctx)\<rparr>"
  obtain ctx' ps where "take_replies rs ?ctx = Some (ctx', ps)"
      "ps = map (\<lambda>i. response_received_count ?ctx + Suc i = ops_count ?ctx) [0..<length rs]"
      "at_least_one_success ctx' = (at_least_one_success ?ctx \<or> (\<exists>r \<in> set rs. r_rc r = 0))"
      "ops_count ctx' = ops_count ?ctx" "length (ops_response ctx') = length (ops_response ?ctx)"
    using Cons.IH [of ?ctx] Cons.prems by auto
  with step Cons.prems show ?case
    by (auto simp: upt_conv_Cons map_Suc_upt [symmetric] simp del: upt_Suc)
qed simp

section \<open>A series of timeouts\<close>

text \<open>A context whose only operation timed out, and the shutdown flags of a series of such failures.\<close>

definition timed_out :: S3AsyncOpContextBase where
  "timed_out =
     \<lparr>ops_response = [\<lparr>status = failed, error_message = ''Operation Failed.'', error_code = - ETIMEDOUT\<rparr>],
      ops_count = 1, response_received_count = 1, at_least_one_success = False\<rparr>"

fun timeout_series :: "32 word \<Rightarrow> 32 word \<Rightarrow> int list \<Rightarrow> timeout_guard \<Rightarrow> timeout_guard \<times> bool list" where
  "timeout_series thr wnd [] g = (g, [])"
| "timeout_series thr wnd (t # ts) g =
     (let (_, g1, down) = motr_op_done_on_main_thread thr wnd True t timed_out g;
          (g2, downs) = timeout_series thr wnd ts g1
      in (g2, down # downs))"

lemma timed_out_step:
  "motr_op_done_on_main_thread thr wnd True t timed_out g =
     (if gs_timeout_shutdown_in_progress g then (On_failed, g, False)
      else (let (g', down) = count_timeout thr wnd True t g in (On_failed, g', down)))"
  by (simp add: motr_op_done_on_main_thread_def timed_out_def get_errno_for_def ETIMEDOUT_def Let_def)

fun gaps_below :: "int \<Rightarrow> int \<Rightarrow> int list \<Rightarrow> bool" where
  "gaps_below w s [] \<longleftrightarrow> True"
| "gaps_below w s (t # ts) \<longleftrightarrow> t - s < w \<and> gaps_below w t ts"

lemma timeout_series_down:
  "gs_timeout_shutdown_in_progress g \<Longrightarrow> snd (timeout_series thr wnd ts g) = replicate (length ts) False"
  by (induction ts arbitrary: g) (auto simp: timed_out_step Let_def case_prod_beta)

lemma timeout_series_counts:
  assumes "gaps_below (uint wnd) (gs_timeout_window_start g) ts" "\<not> gs_timeout_shutdown_in_progress g"
    "unat (gs_timeout_cnt g) < unat thr" "unat (gs_timeout_cnt g) + n = unat thr" "n \<le> length ts"
  shows "snd (timeout_series thr wnd ts g) = replicate (n - 1) False @ True # replicate (length ts - n) False"
  using assms
proof (induction ts arbitrary: g n)
  case (Cons t ts)
  have lt: "unat (gs_timeout_cnt g) + 1 < 2 ^ 32"
    using Cons.prems(3) unsigned_less [of thr, where ?'a = nat] by simp
  then have cnt: "unat (gs_timeout_cnt g + 1) = Suc (unat (gs_timeout_cnt g))"
    by (simp add: unat_word_ariths)
  let ?g = "g\<lparr>gs_timeout_cnt := gs_timeout_cnt g + 1, gs_timeout_window_start := t\<rparr>"
  have count: "count_timeout thr wnd True t g =
      (if n = 1 then (?g\<lparr>gs_timeout_shutdown_in_progress := True\<rparr>, True) else (?g, False))"
    using Cons.prems(1,3,4) cnt by (auto simp: count_timeout_def Let_def word_le_nat_alt)
  show ?case
  proof (cases "n = 1")
    case True
    then show ?thesis
      using Cons.prems(2) by (simp add: timed_out_step count timeout_series_down Let_def case_prod_beta)
  next
    case False
    with Cons.prems cnt obtain m where m: "n = Suc m" "0 < m" by (cases n) auto
    have "snd (timeout_series thr wnd ts ?g) = replicate (m - 1) False @ True # replicate (length ts - m) False"
      using Cons.prems m cnt by (intro Cons.IH) auto
    with False m Cons.prems(2) show ?thesis
      by (cases m) (simp_all add: timed_out_step count Let_def case_prod_beta)
  qed
qed simp

section \<open>Properties\<close>

text \<open>C29: A launch of \<open>n\<close> operations is completed exactly once: the replies to its operations,
  in whatever order and through whichever callback they come, post the completion with the
  last of them and with no other; the success handler then runs exactly when at least one
  operation returned 0, so a launch of several operations of which some failed is reported
  as a success.\<close>

theorem launch_completes_once:
  assumes "0 < n" "length rs = n" "\<forall>r \<in> set rs. r_index r < n"
  shows "\<exists>ctx. take_replies rs (S3AsyncOpContextBase_init n) = Some (ctx, replicate (n - 1) False @ [True])
    \<and> fst (motr_op_done_on_main_thread thr wnd hook now ctx g) = (if \<exists>r \<in> set rs. r_rc r = 0 then On_success else On_failed)"
proof -
  have "\<forall>r \<in> set rs. r_index r < length (ops_response (S3AsyncOpContextBase_init n))"
    using assms(3) by (simp add: S3AsyncOpContextBase_init_def)
  from take_replies_outcome [OF this] obtain ctx ps where
    run: "take_replies rs (S3AsyncOpContextBase_init n) = Some (ctx, ps)"
      "ps = map (\<lambda>i. Suc i = n) [0..<n]" "at_least_one_success ctx = (\<exists>r \<in> set rs. r_rc r = 0)"
    using assms(2) by (auto simp: S3AsyncOpContextBase_init_def)
  have "ps = replicate (n - 1) False @ [True]"
    unfolding run(2) using assms(1) by (intro nth_equalityI) (auto simp: nth_append)
  with run show ?thesis
    by (auto simp: motr_op_done_on_main_thread_def Let_def case_prod_beta)
qed

theorem launch_completes_once_witness:
  "\<exists>ctx. take_replies [\<lparr>r_index = 1, r_rc = - 5, r_failed_cb = True\<rparr>, \<lparr>r_index = 0, r_rc = 0, r_failed_cb = False\<rparr>]
      (S3AsyncOpContextBase_init 2) = Some (ctx, [False, True])
    \<and> fst (motr_op_done_on_main_thread 10 60 True 0 ctx
        \<lparr>gs_timeout_window_start = 0, gs_timeout_cnt = 0, gs_timeout_shutdown_in_progress = False\<rparr>) = On_success"
  using launch_completes_once [of 2 "[\<lparr>r_index = 1, r_rc = - 5, r_failed_cb = True\<rparr>, \<lparr>r_index = 0, r_rc = 0, r_failed_cb = False\<rparr>]"
      10 60 True 0 "\<lparr>gs_timeout_window_start = 0, gs_timeout_cnt = 0, gs_timeout_shutdown_in_progress = False\<rparr>"]
  by simp

text \<open>A run of Motr timeouts stops the server exactly once, with the failure that makes the
  count reach the threshold, if each comes less than the window after the one before it.  The
  window is measured from the previous timeout, so the whole run may last far longer than the
  window.\<close>

theorem timeouts_stop_server_once:
  assumes "gaps_below (uint wnd) (gs_timeout_window_start g) ts" "\<not> gs_timeout_shutdown_in_progress g"
    and "gs_timeout_cnt g = 0" "0 < unat thr" "unat thr \<le> length ts"
  shows "snd (timeout_series thr wnd ts g) = replicate (unat thr - 1) False @ True # replicate (length ts - unat thr) False"
  using timeout_series_counts [of wnd g ts thr "unat thr"] assms by simp

theorem timeouts_stop_server_once_witness:
  "snd (timeout_series 3 60 [50, 100, 150, 151]
      \<lparr>gs_timeout_window_start = 0, gs_timeout_cnt = 0, gs_timeout_shutdown_in_progress = False\<rparr>)
    = [False, False, True, False]"
proof -
  have three: "unat (3 :: 32 word) = 3" "uint (60 :: 32 word) = 60" by simp_all
  have two: "replicate 2 False = [False, False]" by (simp add: numeral_2_eq_2)
  show ?thesis
    using timeouts_stop_server_once [of 60 "\<lparr>gs_timeout_window_start = 0, gs_timeout_cnt = 0, gs_timeout_shutdown_in_progress = False\<rparr>"
        "[50, 100, 150, 151]" 3]
    by (simp add: three two del: timeout_series.simps)
qed

end
