(* ===== verification/Kvs_Client.thy ===== *)
theory Kvs_Client
  imports Kvs Motr_Async Json_Doc
begin

text \<open>
  \<open>server/s3_motr_kvs_reader.cc\<close>, \<open>server/s3_motr_kvs_writer.cc\<close> and
  \<open>server/s3_fake_motr_kvs.cc\<close>: the classes through which the server reads and writes Motr
  indices, and the in-memory store that stands in for Motr in tests.  An operation of a class
  has two halves: the launch, whose return code comes from Motr, and the completion, with the
  error code of the operation and the buffers Motr filled.  A buffer is its memory and its
  length; reading more than the memory holds is undefined behaviour, as is a failed assertion
  (\<open>None\<close>).  The locale \<open>motr_indices\<close> states what the classes rely on; it is interpreted on
  the in-memory store.
\<close>

type_synonym motr_buf = "bytes \<times> nat"

definition string_of_buf :: "motr_buf \<Rightarrow> string option" where
  "string_of_buf b = (if snd b \<le> length (fst b) then Some (take (snd b) (fst b)) else None)"

definition exact_buf :: "string \<Rightarrow> motr_buf" where
  "exact_buf s = (s, length s)"

definition strdup_buf :: "string \<Rightarrow> motr_buf" where
  "strdup_buf s = (c_str s @ [CHR 0x00], length s)"

lemma string_of_exact_buf [simp]: "string_of_buf (exact_buf s) = Some s"
  by (simp add: string_of_buf_def exact_buf_def)

lemma string_of_strdup_buf [simp]: "no_nul s \<Longrightarrow> string_of_buf (strdup_buf s) = Some s"
  by (simp add: string_of_buf_def strdup_buf_def)

record motr_slot =
  s_key :: "motr_buf option"
  s_rc :: int
  s_val :: "motr_buf option"

datatype client_report = Report_success | Report_failed

section \<open>The reader\<close>

record S3MotrKVSReader =
  rd_state :: S3MotrKVSReaderOpState
  rd_last_value :: string
  rd_results :: "(string, int \<times> string) std_map"

definition S3MotrKVSReader_init :: S3MotrKVSReader where
  "S3MotrKVSReader_init = \<lparr>rd_state = R_start, rd_last_value = [], rd_results = []\<rparr>"

text \<open>The launch halves; \<open>rc\<close> is what \<open>motr_idx_op\<close> returned.\<close>

definition get_keyval :: "int \<Rightarrow> S3MotrKVSReader \<Rightarrow> S3MotrKVSReader" where
  "get_keyval rc rd =
     (let rd1 = rd\<lparr>rd_results := [], rd_last_value := []\<rparr>
      in if rc \<noteq> 0 then rd1\<lparr>rd_state := R_failed_to_launch\<rparr> else rd1)"

definition next_keyval :: "int \<Rightarrow> S3MotrKVSReader \<Rightarrow> S3MotrKVSReader" where
  "next_keyval rc rd =
     (let rd1 = rd\<lparr>rd_results := []\<rparr>
      in if rc \<noteq> 0 then rd1\<lparr>rd_state := R_failed_to_launch\<rparr> else rd1)"

definition lookup_index :: "int \<Rightarrow> S3MotrKVSReader \<Rightarrow> S3MotrKVSReader" where
  "lookup_index rc rd = (if rc \<noteq> 0 then rd\<lparr>rd_state := R_failed_to_launch\<rparr> else rd)"

definition lookup_index_successful :: "S3MotrKVSReader \<Rightarrow> S3MotrKVSReader \<times> client_report" where
  "lookup_index_successful rd = (rd\<lparr>rd_state := R_present\<rparr>, Report_success)"

definition lookup_index_failed :: "int \<Rightarrow> S3MotrKVSReader \<Rightarrow> S3MotrKVSReader \<times> client_report" where
  "lookup_index_failed errno rd =
     (if rd_state rd \<noteq> R_failed_to_launch
      then rd\<lparr>rd_state := (if errno = - ENOENT then R_missing else R_failed)\<rparr> else rd, Report_failed)"

definition get_keyval_failed :: "int \<Rightarrow> S3MotrKVSReader \<Rightarrow> S3MotrKVSReader \<times> client_report" where
  "get_keyval_failed errno rd =
     (if rd_state rd \<noteq> R_failed_to_launch
      then rd\<lparr>rd_state := (if errno = - ENOENT then R_missing else if errno = - E2BIG then R_failed_e2big else R_failed)\<rparr>
      else rd, Report_failed)"

definition next_keyval_failed :: "int \<Rightarrow> S3MotrKVSReader \<Rightarrow> S3MotrKVSReader \<times> client_report" where
  "next_keyval_failed = get_keyval_failed"

definition slot_value :: "motr_slot \<Rightarrow> string option" where
  "slot_value s = (case s_val s of None \<Rightarrow> Some [] | Some b \<Rightarrow> string_of_buf b)"

text \<open>The loop of \<open>get_keyval_successful\<close>: results, whether a key was found, the last value.\<close>

fun get_slots ::
  "motr_slot list \<Rightarrow> (string, int \<times> string) std_map \<Rightarrow> bool \<Rightarrow> string
   \<Rightarrow> ((string, int \<times> string) std_map \<times> bool \<times> string) option" where
  "get_slots [] m found val = Some (m, found, val)"
| "get_slots (s # ss) m found val =
     (case s_key s of
        None \<Rightarrow> None
      | Some kb \<Rightarrow>
          (case string_of_buf kb of
             None \<Rightarrow> None
           | Some key \<Rightarrow>
               (if s_rc s = 0
                then (case slot_value s of
                        None \<Rightarrow> None
                      | Some v \<Rightarrow> get_slots ss (map_put key (0, v) m) True v)
                else get_slots ss (map_put key (s_rc s, []) m) found [])))"

definition get_keyval_successful ::
  "motr_slot list \<Rightarrow> S3MotrKVSReader \<Rightarrow> (S3MotrKVSReader \<times> client_report) option" where
  "get_keyval_successful slots rd =
     (case get_slots slots (rd_results rd) False [] of
        None \<Rightarrow> None
      | Some (m, keys_retrieved, val) \<Rightarrow>
          (let rd1 = rd\<lparr>rd_state := R_present, rd_results := m,
                        rd_last_value := (if length slots = 1 then val else rd_last_value rd)\<rparr>
           in Some (if keys_retrieved then (rd1, Report_success) else get_keyval_failed (- ENOENT) rd1)))"

text \<open>The loop of \<open>next_keyval_successful\<close> stops at the first slot without a key.\<close>

fun next_slots ::
  "motr_slot list \<Rightarrow> (string, int \<times> string) std_map \<Rightarrow> (string, int \<times> string) std_map option" where
  "next_slots [] m = Some m"
| "next_slots (s # ss) m =
     (case s_key s of
        None \<Rightarrow> Some m
      | Some kb \<Rightarrow>
          (if s_rc s = 0
           then (case (string_of_buf kb, slot_value s) of
                   (Some key, Some v) \<Rightarrow> next_slots ss (map_put key (0, v) m)
                 | _ \<Rightarrow> None)
           else next_slots ss m))"

definition next_keyval_successful ::
  "int \<Rightarrow> motr_slot list \<Rightarrow> S3MotrKVSReader \<Rightarrow> (S3MotrKVSReader \<times> client_report) option" where
  "next_keyval_successful errno slots rd =
     (let rd1 = rd\<lparr>rd_state := R_present\<rparr>
      in if errno = - E2BIG then Some (next_keyval_failed errno rd1)
         else (case next_slots slots (rd_results rd1) of
                 None \<Rightarrow> None
               | Some m \<Rightarrow>
                   Some (if m = [] then next_keyval_failed (- ENOENT) (rd1\<lparr>rd_results := m\<rparr>)
                         else (rd1\<lparr>rd_results := m\<rparr>, Report_success))))"

text \<open>The completion of a read: \<open>motr_op_done_on_main_thread\<close> calls one of the two halves.\<close>

definition get_keyval_done ::
  "int \<Rightarrow> motr_slot list \<Rightarrow> S3MotrKVSReader \<Rightarrow> (S3MotrKVSReader \<times> client_report) option" where
  "get_keyval_done op_rc slots rd =
     (if op_rc = 0 then get_keyval_successful slots rd else Some (get_keyval_failed op_rc rd))"

definition next_keyval_done ::
  "int \<Rightarrow> motr_slot list \<Rightarrow> S3MotrKVSReader \<Rightarrow> (S3MotrKVSReader \<times> client_report) option" where
  "next_keyval_done op_rc slots rd =
     (if op_rc = 0 then next_keyval_successful op_rc slots rd else Some (next_keyval_failed op_rc rd))"

section \<open>The writer\<close>

record S3MotrKVSWriter =
  wr_state :: S3MotrKVSWriterOpState
  wr_idx_los :: "s3_motr_idx_layout list"
  wr_keys_list :: "string list"
  how_many_being_processed :: nat

definition S3MotrKVSWriter_init :: S3MotrKVSWriter where
  "S3MotrKVSWriter_init = \<lparr>wr_state = W_start, wr_idx_los = [], wr_keys_list = [], how_many_being_processed = 0\<rparr>"

definition launch_rc :: "int \<Rightarrow> S3MotrKVSWriter \<Rightarrow> S3MotrKVSWriter" where
  "launch_rc rc w = (if rc \<noteq> 0 then w\<lparr>wr_state := W_failed_to_launch\<rparr> else w)"

definition layout_of_oid :: "m0_uint128 \<Rightarrow> s3_motr_idx_layout" where
  "layout_of_oid i = \<lparr>oid = i, pver = \<lparr>f_container = 0, f_key = 0\<rparr>, layout_type = 0\<rparr>"

definition create_index_with_oid :: "int \<Rightarrow> m0_uint128 \<Rightarrow> S3MotrKVSWriter \<Rightarrow> S3MotrKVSWriter" where
  "create_index_with_oid rc idx_oid w = launch_rc rc (w\<lparr>wr_idx_los := [layout_of_oid idx_oid]\<rparr>)"

definition create_index :: "(string \<Rightarrow> m0_uint128) \<Rightarrow> int \<Rightarrow> string \<Rightarrow> S3MotrKVSWriter \<Rightarrow> S3MotrKVSWriter" where
  "create_index S3UriToMotrOID rc index_name w = create_index_with_oid rc (S3UriToMotrOID (c_str index_name)) w"

definition create_index_successful ::
  "m0_fid \<Rightarrow> 32 word \<Rightarrow> S3MotrKVSWriter \<Rightarrow> (S3MotrKVSWriter \<times> client_report) option" where
  "create_index_successful idx_pver idx_layout_type w =
     (case wr_idx_los w of
        [] \<Rightarrow> None
      | lo # los \<Rightarrow> Some (w\<lparr>wr_state := W_created,
                           wr_idx_los := lo\<lparr>pver := idx_pver, layout_type := idx_layout_type\<rparr> # los\<rparr>, Report_success))"

definition create_index_failed :: "int \<Rightarrow> S3MotrKVSWriter \<Rightarrow> S3MotrKVSWriter \<times> client_report" where
  "create_index_failed errno w =
     (if wr_state w \<noteq> W_failed_to_launch
      then w\<lparr>wr_state := (if errno = - EEXIST then W_exists else W_failed)\<rparr> else w, Report_failed)"

text \<open>\<open>delete_index\<close> opens the entity first; \<open>delete_indices\<close> stops at the first that fails.\<close>

definition delete_index :: "int \<Rightarrow> int \<Rightarrow> s3_motr_idx_layout \<Rightarrow> S3MotrKVSWriter \<Rightarrow> S3MotrKVSWriter" where
  "delete_index open_rc delete_rc idx_lo w =
     launch_rc (if open_rc \<noteq> 0 then open_rc else delete_rc)
       (w\<lparr>wr_idx_los := [idx_lo], wr_state := W_deleting\<rparr>)"

definition delete_index_successful :: "S3MotrKVSWriter \<Rightarrow> S3MotrKVSWriter \<times> client_report" where
  "delete_index_successful w = (w\<lparr>wr_state := W_deleted\<rparr>, Report_success)"

definition delete_index_failed :: "int \<Rightarrow> S3MotrKVSWriter \<Rightarrow> S3MotrKVSWriter \<times> client_report" where
  "delete_index_failed errno w =
     (if wr_state w \<noteq> W_failed_to_launch
      then w\<lparr>wr_state := (if errno = - ENOENT then W_missing else W_failed)\<rparr> else w, Report_failed)"

fun first_launch_error :: "(int \<times> int) list \<Rightarrow> int" where
  "first_launch_error [] = 0"
| "first_launch_error ((open_rc, delete_rc) # rcs) =
     (if open_rc \<noteq> 0 then open_rc else if delete_rc \<noteq> 0 then delete_rc else first_launch_error rcs)"

definition delete_indices :: "(int \<times> int) list \<Rightarrow> s3_motr_idx_layout list \<Rightarrow> S3MotrKVSWriter \<Rightarrow> S3MotrKVSWriter" where
  "delete_indices rcs los w =
     launch_rc (first_launch_error rcs) (w\<lparr>wr_idx_los := los, wr_state := W_deleting\<rparr>)"

definition delete_indices_successful :: "S3MotrKVSWriter \<Rightarrow> S3MotrKVSWriter \<times> client_report" where
  "delete_indices_successful w = (w\<lparr>wr_state := W_deleted\<rparr>, Report_success)"

definition delete_indices_failed :: "S3MotrKVSWriter \<Rightarrow> S3MotrKVSWriter \<times> client_report" where
  "delete_indices_failed w =
     (if wr_state w \<noteq> W_failed_to_launch then w\<lparr>wr_state := W_failed\<rparr> else w, Report_failed)"

text \<open>The slots that a put sends, in the order of the map; empty keys are asserted away.\<close>

definition put_slots :: "bool \<Rightarrow> nat \<Rightarrow> nat \<Rightarrow> (string, string) std_map \<Rightarrow> (string \<times> string) list" where
  "put_slots partially offset how_many kv_list =
     (let kvs = (if partially then drop offset kv_list else kv_list)
      in if partially \<and> how_many \<noteq> 0 then take how_many kvs else kvs)"

definition put_keyval ::
  "int \<Rightarrow> s3_motr_idx_layout \<Rightarrow> (string, string) std_map \<Rightarrow> S3MotrKVSWriter \<Rightarrow> (S3MotrKVSWriter \<times> (string \<times> string) list) option" where
  "put_keyval rc idx_lo kv_list w =
     (if list_ex (\<lambda>kv. fst kv = []) kv_list then None
      else Some (launch_rc rc (w\<lparr>wr_idx_los := [idx_lo]\<rparr>), put_slots False 0 0 kv_list))"

definition put_keyval_one ::
  "int \<Rightarrow> s3_motr_idx_layout \<Rightarrow> string \<Rightarrow> string \<Rightarrow> S3MotrKVSWriter \<Rightarrow> (S3MotrKVSWriter \<times> (string \<times> string) list) option" where
  "put_keyval_one rc idx_lo key val w =
     (if key = [] then None else Some (launch_rc rc (w\<lparr>wr_idx_los := [idx_lo]\<rparr>), [(key, val)]))"

definition put_partial_keyval ::
  "int \<Rightarrow> s3_motr_idx_layout \<Rightarrow> (string, string) std_map \<Rightarrow> nat \<Rightarrow> nat \<Rightarrow> S3MotrKVSWriter
   \<Rightarrow> (S3MotrKVSWriter \<times> (string \<times> string) list) option" where
  "put_partial_keyval rc idx_lo kv_list offset how_many w =
     (if how_many = 0 \<or> \<not> offset < length kv_list \<or> \<not> how_many \<le> length kv_list
        \<or> list_ex (\<lambda>kv. fst kv = []) (take how_many (drop offset kv_list)) then None
      else Some (launch_rc rc (w\<lparr>how_many_being_processed := how_many, wr_idx_los := [idx_lo]\<rparr>),
                 put_slots True offset how_many kv_list))"

definition put_keyval_successful :: "S3MotrKVSWriter \<Rightarrow> S3MotrKVSWriter \<times> client_report" where
  "put_keyval_successful w = (w\<lparr>wr_state := W_created\<rparr>, Report_success)"

definition put_keyval_failed :: "S3MotrKVSWriter \<Rightarrow> S3MotrKVSWriter \<times> client_report" where
  "put_keyval_failed w =
     (if wr_state w \<noteq> W_failed_to_launch then w\<lparr>wr_state := W_failed\<rparr> else w, Report_failed)"

text \<open>The callbacks of a partial put are given the number of entries that were sent.\<close>

definition put_partial_keyval_successful :: "S3MotrKVSWriter \<Rightarrow> S3MotrKVSWriter \<times> client_report \<times> nat" where
  "put_partial_keyval_successful w = (w\<lparr>wr_state := W_created\<rparr>, Report_success, how_many_being_processed w)"

definition put_partial_keyval_failed :: "S3MotrKVSWriter \<Rightarrow> S3MotrKVSWriter \<times> client_report \<times> nat" where
  "put_partial_keyval_failed w =
     (if wr_state w \<noteq> W_failed_to_launch then w\<lparr>wr_state := W_failed\<rparr> else w, Report_failed, how_many_being_processed w)"

definition delete_keyval ::
  "int \<Rightarrow> s3_motr_idx_layout \<Rightarrow> string list \<Rightarrow> S3MotrKVSWriter \<Rightarrow> S3MotrKVSWriter option" where
  "delete_keyval rc idx_lo keys w =
     (if list_ex (\<lambda>k. k = []) keys then None
      else Some (launch_rc rc (w\<lparr>wr_state := W_deleting, wr_idx_los := [idx_lo], wr_keys_list := keys\<rparr>)))"

definition delete_keyval_successful :: "S3MotrKVSWriter \<Rightarrow> S3MotrKVSWriter \<times> client_report" where
  "delete_keyval_successful w = (w\<lparr>wr_state := W_deleted\<rparr>, Report_success)"

definition delete_keyval_failed :: "int \<Rightarrow> S3MotrKVSWriter \<Rightarrow> S3MotrKVSWriter \<times> client_report" where
  "delete_keyval_failed errno w =
     (if wr_state w \<noteq> W_failed_to_launch
      then w\<lparr>wr_state := (if errno = - ENOENT then W_missing else W_failed)\<rparr> else w, Report_failed)"

section \<open>The in-memory store\<close>

type_synonym fake_kvs = "m0_uint128 \<Rightarrow> (string, string) std_map option"

definition fake_slot :: "(string, string) std_map \<Rightarrow> string \<Rightarrow> motr_slot" where
  "fake_slot m k =
     (case map_get m k of
        None \<Rightarrow> \<lparr>s_key = Some (exact_buf k), s_rc = - ENOENT, s_val = None\<rparr>
      | Some v \<Rightarrow> \<lparr>s_key = Some (exact_buf k), s_rc = 0, s_val = Some (strdup_buf v)\<rparr>)"

definition kv_read :: "m0_uint128 \<Rightarrow> string list \<Rightarrow> fake_kvs \<Rightarrow> int \<times> motr_slot list" where
  "kv_read i keys st =
     (case st i of
        None \<Rightarrow> (- ENOENT, map (\<lambda>k. \<lparr>s_key = Some (exact_buf k), s_rc = 0, s_val = None\<rparr>) keys)
      | Some m \<Rightarrow> (0, map (fake_slot m) keys))"

text \<open>
  Where a listing starts: behind the key when it is there, otherwise at the first entry that
  begins with it; \<open>None\<close> when there is none.
\<close>

definition kv_next_from :: "string \<Rightarrow> (string, string) std_map \<Rightarrow> (string, string) std_map option" where
  "kv_next_from search_key m =
     (if search_key = [] then Some m
      else let rest = (if map_get m search_key \<noteq> None
                       then drop 1 (dropWhile (\<lambda>e. fst e \<noteq> search_key) m)
                       else dropWhile (\<lambda>e. \<not> (take (length search_key) (fst e) = search_key)) m)
           in if rest = [] then None else Some rest)"

fun kv_next_slots :: "nat \<Rightarrow> (string, string) std_map \<Rightarrow> motr_slot list" where
  "kv_next_slots 0 m = []"
| "kv_next_slots (Suc n) [] = \<lparr>s_key = None, s_rc = - ENOENT, s_val = None\<rparr> # kv_next_slots n []"
| "kv_next_slots (Suc n) ((k, v) # m) =
     \<lparr>s_key = Some (strdup_buf k), s_rc = 0, s_val = Some (strdup_buf v)\<rparr> # kv_next_slots n m"

definition kv_next :: "m0_uint128 \<Rightarrow> string \<Rightarrow> nat \<Rightarrow> fake_kvs \<Rightarrow> int \<times> motr_slot list" where
  "kv_next i search_key cnt st =
     (case st i of
        None \<Rightarrow> (- ENOENT, [])
      | Some m \<Rightarrow>
          (case kv_next_from search_key m of None \<Rightarrow> (- ENOENT, []) | Some rest \<Rightarrow> (0, kv_next_slots cnt rest)))"

definition kv_write :: "m0_uint128 \<Rightarrow> (string \<times> string) list \<Rightarrow> fake_kvs \<Rightarrow> fake_kvs" where
  "kv_write i kvs st = st(i \<mapsto> put_all kvs (case st i of None \<Rightarrow> [] | Some m \<Rightarrow> m))"

definition kv_del :: "m0_uint128 \<Rightarrow> string list \<Rightarrow> fake_kvs \<Rightarrow> fake_kvs \<times> int" where
  "kv_del i keys st = (case st i of None \<Rightarrow> (st, - ENOENT) | Some m \<Rightarrow> (st(i \<mapsto> delete_all keys m), 0))"

section \<open>What the clients rely on\<close>

definition key_is :: "string \<Rightarrow> motr_slot \<Rightarrow> bool" where
  "key_is k s \<longleftrightarrow> (case s_key s of None \<Rightarrow> False | Some b \<Rightarrow> string_of_buf b = Some k)"

definition found_slot :: "string \<Rightarrow> string \<Rightarrow> motr_slot \<Rightarrow> bool" where
  "found_slot k v s \<longleftrightarrow> s_rc s = 0 \<and> key_is k s \<and> slot_value s = Some v"

definition missing_slot :: "string \<Rightarrow> motr_slot \<Rightarrow> bool" where
  "missing_slot k s \<longleftrightarrow> s_rc s \<noteq> 0 \<and> key_is k s"

text \<open>A listing may start at the beginning, at a key of the index or at a prefix of one.\<close>

definition listable :: "string \<Rightarrow> (string, string) std_map \<Rightarrow> bool" where
  "listable k m \<longleftrightarrow> k = [] \<or> map_get m k \<noteq> None \<or> (\<exists>e \<in> set m. take (length k) (fst e) = k)"

definition results_of :: "(string, string) std_map \<Rightarrow> (string, int \<times> string) std_map" where
  "results_of m = map (\<lambda>(k, v). (k, (0, v))) m"

locale motr_indices =
  fixes content :: "'s \<Rightarrow> kvs_indices" and good :: "'s \<Rightarrow> bool"
    and rd_op :: "m0_uint128 \<Rightarrow> string list \<Rightarrow> 's \<Rightarrow> int \<times> motr_slot list"
    and nx_op :: "m0_uint128 \<Rightarrow> string \<Rightarrow> nat \<Rightarrow> 's \<Rightarrow> int \<times> motr_slot list"
    and wr_op :: "m0_uint128 \<Rightarrow> (string \<times> string) list \<Rightarrow> 's \<Rightarrow> 's"
    and dl_op :: "m0_uint128 \<Rightarrow> string list \<Rightarrow> 's \<Rightarrow> 's \<times> int"
  assumes good_wf: "good s \<Longrightarrow> kvs_wf (content s)"
    and read_found: "good s \<Longrightarrow> map_get (content s i) k = Some v \<Longrightarrow> \<exists>sl. rd_op i [k] s = (0, [sl]) \<and> found_slot k v sl"
    and read_missing: "good s \<Longrightarrow> map_get (content s i) k = None \<Longrightarrow>
          fst (rd_op i [k] s) = - ENOENT \<or> (\<exists>sl. rd_op i [k] s = (0, [sl]) \<and> missing_slot k sl)"
    and list_found: "good s \<Longrightarrow> listable k (content s i) \<Longrightarrow> 0 < n \<Longrightarrow> filter (\<lambda>e. k < fst e) (content s i) \<noteq> [] \<Longrightarrow>
          fst (nx_op i k n s) = 0 \<and> next_slots (snd (nx_op i k n s)) [] = Some (results_of (take n (filter (\<lambda>e. k < fst e) (content s i))))"
    and list_end: "good s \<Longrightarrow> listable k (content s i) \<Longrightarrow> filter (\<lambda>e. k < fst e) (content s i) = [] \<Longrightarrow>
          fst (nx_op i k n s) = - ENOENT \<or> fst (nx_op i k n s) = 0 \<and> next_slots (snd (nx_op i k n s)) [] = Some []"
    and write_good: "good s \<Longrightarrow> \<forall>(k, v) \<in> set kvs. k \<noteq> [] \<and> no_nul k \<and> no_nul v \<Longrightarrow> good (wr_op i kvs s)"
    and write_content: "good s \<Longrightarrow> content (wr_op i kvs s) = (content s)(i := put_all kvs (content s i))"
    and del_good: "good s \<Longrightarrow> good (fst (dl_op i ks s))"
    and del_content: "good s \<Longrightarrow> content (fst (dl_op i ks s)) = (content s)(i := delete_all ks (content s i))"
begin

text \<open>A reader that was not left in \<open>failed_to_launch\<close> by an earlier operation.\<close>

lemma get_refines:
  assumes "good s" "rd_state rd \<noteq> R_failed_to_launch"
  shows "\<exists>rd' rep. get_keyval_done (fst (rd_op (oid lo) [k] s)) (snd (rd_op (oid lo) [k] s)) (get_keyval 0 rd) = Some (rd', rep)
    \<and> (case kvs_answer (Get_keyval lo k) (content s) of
         Got_value v \<Rightarrow> rep = Report_success \<and> rd_last_value rd' = v \<and> rd_state rd' = R_present
       | Read_failed r \<Rightarrow> rep = Report_failed \<and> rd_state rd' = r
       | _ \<Rightarrow> False)"
proof (cases "map_get (content s (oid lo)) k")
  case None
  with read_missing [OF assms(1) None] assms(2) show ?thesis
    by (auto simp: get_keyval_done_def get_keyval_def get_keyval_failed_def get_keyval_successful_def missing_slot_def
        key_is_def ENOENT_def split: option.splits)
next
  case (Some v)
  from read_found [OF assms(1) Some] show ?thesis
    by (auto simp: Some get_keyval_done_def get_keyval_def get_keyval_successful_def found_slot_def key_is_def
        split: option.splits)
qed

lemma next_refines:
  assumes "good s" "rd_state rd \<noteq> R_failed_to_launch" "listable k (content s (oid lo))" "0 < n"
  shows "\<exists>rd' rep. next_keyval_done (fst (nx_op (oid lo) k n s)) (snd (nx_op (oid lo) k n s)) (next_keyval 0 rd) = Some (rd', rep)
    \<and> (case kvs_answer (Next_keyval lo k n) (content s) of
         Got_pairs kvs \<Rightarrow> rep = Report_success \<and> rd_results rd' = results_of kvs \<and> rd_state rd' = R_present
       | Read_failed r \<Rightarrow> rep = Report_failed \<and> rd_state rd' = r
       | _ \<Rightarrow> False)"
proof (cases "filter (\<lambda>e. k < fst e) (content s (oid lo)) = []")
  case True
  with list_end [OF assms(1,3) True, of n] assms(2) show ?thesis
    by (auto simp: next_keyval_done_def next_keyval_def next_keyval_failed_def get_keyval_failed_def
        next_keyval_successful_def ENOENT_def E2BIG_def)
next
  case False
  then have "results_of (take n (filter (\<lambda>e. k < fst e) (content s (oid lo)))) \<noteq> []"
      "take n (filter (\<lambda>e. k < fst e) (content s (oid lo))) \<noteq> []"
    using assms(4) by (auto simp: results_of_def)
  with list_found [OF assms(1,3,4) False] show ?thesis
    by (simp add: next_keyval_done_def next_keyval_def next_keyval_successful_def E2BIG_def Let_def)
qed

lemma put_then_get:
  fixes lo :: s3_motr_idx_layout
  assumes "good s" "rd_state rd \<noteq> R_failed_to_launch" "k \<noteq> []" "no_nul k" "no_nul v"
  shows "\<exists>rd'. get_keyval_done (fst (rd_op (oid lo) [k] (wr_op (oid lo) [(k, v)] s)))
      (snd (rd_op (oid lo) [k] (wr_op (oid lo) [(k, v)] s))) (get_keyval 0 rd) = Some (rd', Report_success)
    \<and> rd_last_value rd' = v"
proof -
  have g: "good (wr_op (oid lo) [(k, v)] s)" using write_good [OF assms(1)] assms(3-5) by simp
  have "map_get (content (wr_op (oid lo) [(k, v)] s) (oid lo)) k = Some v"
    using write_content [OF assms(1)] good_wf [OF assms(1)] by (simp add: put_all_def kvs_wf_def)
  with get_refines [OF g assms(2), of lo k] show ?thesis by auto
qed

end

section \<open>The in-memory store meets the contract\<close>

definition fake_content :: "fake_kvs \<Rightarrow> kvs_indices" where
  "fake_content st i = (case st i of None \<Rightarrow> [] | Some m \<Rightarrow> m)"

definition fake_good :: "fake_kvs \<Rightarrow> bool" where
  "fake_good st \<longleftrightarrow> (\<forall>i. map_wf (fake_content st i) \<and> (\<forall>(k, v) \<in> set (fake_content st i). no_nul k \<and> no_nul v))"

lemma kv_next_slots_read:
  assumes "\<forall>(k, v) \<in> set m. no_nul k \<and> no_nul v"
  shows "next_slots (kv_next_slots n m) acc = Some (fold (\<lambda>(k, v). map_put k (0, v)) (take n m) acc)"
  using assms
  by (induction n m arbitrary: acc rule: kv_next_slots.induct) (auto simp: slot_value_def)

lemma prefix_between:
  fixes k x :: "'a :: linorder list"
  shows "k \<le> x \<Longrightarrow> x \<le> k @ s \<Longrightarrow> take (length k) x = k"
proof (induction k arbitrary: x)
  case (Cons a k)
  then obtain b y where x: "x = b # y" by (cases x) auto
  with Cons.prems have "a = b" "k \<le> y" "y \<le> k @ s" by auto
  with Cons.IH [of y] x show ?case by simp
qed simp

lemma prefix_le: "take (length k) x = k \<Longrightarrow> k \<le> (x :: 'a :: linorder list)"
proof (induction k arbitrary: x)
  case (Cons a k)
  then show ?case by (cases x) auto
qed simp

lemma sorted_filter_after:
  assumes "map_wf m" "map_get m k \<noteq> None"
  shows "drop 1 (dropWhile (\<lambda>e. fst e \<noteq> k) m) = filter (\<lambda>e. k < fst e) m"
proof -
  obtain v where "(k, v) \<in> set m" using assms(2) by (auto simp: map_get_def dest: map_of_SomeD)
  then obtain a b where split: "m = a @ (k, v) # b" "\<forall>e \<in> set a. fst e \<noteq> k"
    using map_wf_distinct [OF assms(1)] by (fastforce dest!: split_list simp: image_iff)
  have "\<forall>e \<in> set a. fst e < k" "\<forall>e \<in> set b. k < fst e"
    using assms(1) by (auto simp: split(1) map_wf_def sorted_wrt_append)
  then have "filter (\<lambda>e. k < fst e) m = b"
    unfolding split(1) by (auto simp: filter_empty_conv filter_id_conv dest: less_asym)
  moreover have "dropWhile (\<lambda>e. fst e \<noteq> k) m = (k, v) # b" using split by (simp add: dropWhile_append)
  ultimately show ?thesis by simp
qed

lemma sorted_filter_prefix:
  assumes "map_wf m" "map_get m k = None" "e \<in> set m" "take (length k) (fst e) = k"
  shows "dropWhile (\<lambda>e. \<not> take (length k) (fst e) = k) m = filter (\<lambda>e. k < fst e) m"
proof -
  obtain a x b where split: "m = a @ x # b" "take (length k) (fst x) = k" "\<forall>y \<in> set a. take (length k) (fst y) \<noteq> k"
    using split_list_first_prop [of m "\<lambda>e. take (length k) (fst e) = k"] assms(3,4) by blast
  have ord: "\<forall>y \<in> set a. fst y < fst x" "\<forall>y \<in> set b. fst x < fst y"
    using assms(1) by (auto simp: split(1) map_wf_def sorted_wrt_append)
  have "fst x \<noteq> k" using assms(2) by (auto simp: split(1) map_get_def map_of_eq_None_iff)
  with prefix_le [OF split(2)] have kx: "k < fst x" by simp
  have "\<not> k < fst y" if "y \<in> set a" for y
  proof
    assume "k < fst y"
    have "fst x = k @ drop (length k) (fst x)" using split(2) by (metis append_take_drop_id)
    with ord(1) that \<open>k < fst y\<close> have "take (length k) (fst y) = k"
      by (intro prefix_between [where s = "drop (length k) (fst x)"]) auto
    with split(3) that show False by simp
  qed
  moreover have "\<forall>y \<in> set b. k < fst y" using ord(2) kx by (auto intro: less_trans)
  ultimately have "filter (\<lambda>e. k < fst e) m = x # b"
    unfolding split(1) using kx by (auto simp: filter_empty_conv filter_id_conv)
  moreover have "dropWhile (\<lambda>e. \<not> take (length k) (fst e) = k) m = x # b"
    unfolding split(1) using split(2,3) by (simp add: dropWhile_append)
  ultimately show ?thesis by simp
qed

lemma results_of_fold:
  assumes "map_wf m"
  shows "fold (\<lambda>(k, v). map_put k (0, v)) m [] = results_of m"
  using set_all_object [OF assms, of "\<lambda>v. (0, v)"] by (simp add: results_of_def)

lemma map_wf_take: "map_wf m \<Longrightarrow> map_wf (take n m)"
  by (simp add: map_wf_def take_map [symmetric] sorted_wrt_take)

lemma map_wf_filter: "map_wf m \<Longrightarrow> map_wf (filter P m)"
  by (auto simp: map_wf_def sorted_wrt_map sorted_wrt_filter)

lemma kv_next_from_listable:
  assumes "map_wf m" "listable k m" "[] \<notin> fst ` set m"
  shows "kv_next_from k m =
    (if filter (\<lambda>e. k < fst e) m = [] \<and> k \<noteq> [] then None else Some (filter (\<lambda>e. k < fst e) m))"
proof (cases "k = []")
  case True
  have "[] < x" if "x \<noteq> []" for x :: string using that by (cases x) simp_all
  then have "filter (\<lambda>e. [] < fst e) m = m" using assms(3) unfolding filter_id_conv by (metis image_eqI)
  with True show ?thesis by (simp add: kv_next_from_def)
next
  case False
  let ?rest = "if map_get m k \<noteq> None then drop 1 (dropWhile (\<lambda>e. fst e \<noteq> k) m)
      else dropWhile (\<lambda>e. \<not> take (length k) (fst e) = k) m"
  have "?rest = filter (\<lambda>e. k < fst e) m"
  proof (cases "map_get m k = None")
    case True
    with False assms(2) obtain e where "e \<in> set m" "take (length k) (fst e) = k" unfolding listable_def by blast
    with True sorted_filter_prefix [OF assms(1) True this] show ?thesis by simp
  next
    case present: False
    with sorted_filter_after [OF assms(1) present] show ?thesis by simp
  qed
  with False show ?thesis by (simp only: kv_next_from_def Let_def if_False simp_thms)
qed

text \<open>The keys of an index are not empty: the writer asserts it.\<close>

definition fake_store_ok :: "fake_kvs \<Rightarrow> bool" where
  "fake_store_ok st \<longleftrightarrow> fake_good st \<and> (\<forall>i. [] \<notin> fst ` set (fake_content st i))"

lemma kv_next_listable:
  assumes "fake_store_ok st" "listable k (fake_content st i)"
  defines "rest \<equiv> filter (\<lambda>e. k < fst e) (fake_content st i)"
  shows "(rest \<noteq> [] \<longrightarrow> fst (kv_next i k n st) = 0 \<and> next_slots (snd (kv_next i k n st)) [] = Some (results_of (take n rest)))
    \<and> (rest = [] \<longrightarrow> fst (kv_next i k n st) = - ENOENT \<or> fst (kv_next i k n st) = 0 \<and> next_slots (snd (kv_next i k n st)) [] = Some [])"
proof -
  have wf: "map_wf (fake_content st i)" and nul: "\<forall>(k, v) \<in> set (fake_content st i). no_nul k \<and> no_nul v"
      and ne: "[] \<notin> fst ` set (fake_content st i)"
    using assms(1) by (auto simp: fake_store_ok_def fake_good_def)
  note from_k = kv_next_from_listable [OF wf assms(2) ne, folded rest_def]
  have "next_slots (kv_next_slots n rest) [] = Some (results_of (take n rest))"
    using nul map_wf_take [OF map_wf_filter [OF wf], of n "\<lambda>e. k < fst e"]
    by (subst kv_next_slots_read) (auto simp: rest_def results_of_fold)
  with from_k show ?thesis
    by (cases "st i") (auto simp: kv_next_def fake_content_def rest_def results_of_def)
qed

lemma map_put_set: "set (map_put k v m) \<subseteq> insert (k, v) (set m)"
  by (induction k v m rule: map_put.induct) auto

lemma put_all_set: "set (put_all kvs m) \<subseteq> set kvs \<union> set m"
proof (induction kvs arbitrary: m)
  case (Cons e kvs)
  obtain k v where e: "e = (k, v)" by force
  have "set (put_all (e # kvs) m) = set (put_all kvs (map_put k v m))" by (simp add: put_all_def e)
  also have "\<dots> \<subseteq> set kvs \<union> set (map_put k v m)" by (rule Cons.IH)
  finally show ?case using map_put_set [of k v m] e by auto
qed (simp add: put_all_def)

lemma delete_all_set: "set (delete_all ks m) \<subseteq> set m"
proof (induction ks arbitrary: m)
  case (Cons k ks)
  from Cons.IH [of "map_erase k m"] show ?case by (auto simp: delete_all_def map_erase_def)
qed (simp add: delete_all_def)

lemma kv_write_content: "fake_content (kv_write i kvs st) = (fake_content st)(i := put_all kvs (fake_content st i))"
  by (auto simp: fun_eq_iff fake_content_def kv_write_def)

lemma kv_del_content: "fake_content (fst (kv_del i ks st)) = (fake_content st)(i := delete_all ks (fake_content st i))"
proof -
  have "delete_all ks [] = []" unfolding delete_all_def by (induction ks) (auto simp: map_erase_def)
  then show ?thesis by (auto simp: fun_eq_iff fake_content_def kv_del_def split: option.split)
qed

lemma fake_store_ok_set:
  "fake_store_ok st \<longleftrightarrow>
     (\<forall>i. map_wf (fake_content st i) \<and> (\<forall>(k, v) \<in> set (fake_content st i). k \<noteq> [] \<and> no_nul k \<and> no_nul v))"
  by (auto simp: fake_store_ok_def fake_good_def image_iff) force+

lemma kv_write_ok:
  assumes "fake_store_ok st" "\<forall>(k, v) \<in> set kvs. k \<noteq> [] \<and> no_nul k \<and> no_nul v"
  shows "fake_store_ok (kv_write i kvs st)"
proof -
  have "\<forall>e \<in> set (put_all kvs (fake_content st i)). case e of (k, v) \<Rightarrow> k \<noteq> [] \<and> no_nul k \<and> no_nul v"
    using assms put_all_set [of kvs "fake_content st i"] by (simp add: fake_store_ok_set) blast
  with assms(1) show ?thesis by (simp add: fake_store_ok_set kv_write_content)
qed

lemma kv_del_ok:
  assumes "fake_store_ok st"
  shows "fake_store_ok (fst (kv_del i ks st))"
proof -
  have "\<forall>e \<in> set (delete_all ks (fake_content st i)). case e of (k, v) \<Rightarrow> k \<noteq> [] \<and> no_nul k \<and> no_nul v"
    using assms delete_all_set [of ks "fake_content st i"] by (simp add: fake_store_ok_set) blast
  with assms show ?thesis by (simp add: fake_store_ok_set kv_del_content)
qed

lemma kv_read_found:
  assumes "fake_store_ok st" "map_get (fake_content st i) k = Some v"
  shows "\<exists>sl. kv_read i [k] st = (0, [sl]) \<and> found_slot k v sl"
proof -
  obtain m where m: "st i = Some m" using assms(2) by (cases "st i") (auto simp: fake_content_def)
  with assms have "map_get m k = Some v" by (simp add: fake_content_def)
  moreover have "no_nul v" using assms m by (auto simp: fake_store_ok_set map_get_def dest!: map_of_SomeD)
  ultimately show ?thesis using m by (simp add: kv_read_def fake_slot_def found_slot_def key_is_def slot_value_def)
qed

lemma kv_read_missing:
  assumes "map_get (fake_content st i) k = None"
  shows "fst (kv_read i [k] st) = - ENOENT \<or> (\<exists>sl. kv_read i [k] st = (0, [sl]) \<and> missing_slot k sl)"
  using assms by (cases "st i") (auto simp: kv_read_def fake_content_def fake_slot_def missing_slot_def key_is_def ENOENT_def)

text \<open>Behind a start key that is neither an entry nor a prefix of one the in-memory store finds
  nothing, whatever the later keys.\<close>

lemma kv_next_unlistable:
  assumes "\<not> listable k (fake_content st i)"
  shows "kv_next i k n st = (- ENOENT, [])"
  using assms
  by (auto simp: kv_next_def kv_next_from_def fake_content_def listable_def Let_def dropWhile_eq_Nil_conv split: option.splits)

lemma next_unlistable_missing:
  assumes "\<not> listable k (fake_content st i)" "rd_state rd \<noteq> R_failed_to_launch"
  shows "\<exists>rd'. next_keyval_done (fst (kv_next i k n st)) (snd (kv_next i k n st)) (next_keyval 0 rd)
      = Some (rd', Report_failed) \<and> rd_state rd' = R_missing"
  using assms(2)
  by (simp add: kv_next_unlistable [OF assms(1)] next_keyval_done_def next_keyval_def next_keyval_failed_def
      get_keyval_failed_def ENOENT_def)

interpretation fake: motr_indices fake_content fake_store_ok kv_read kv_next kv_write kv_del
proof unfold_locales
  show "kvs_wf (fake_content s)" if "fake_store_ok s" for s
    using that by (simp add: fake_store_ok_set kvs_wf_def)
qed (simp_all add: kv_read_found kv_read_missing kv_next_listable kv_write_ok kv_write_content kv_del_ok kv_del_content)

section \<open>Properties\<close>

text \<open>C30: Reading through \<open>S3MotrKVSReader\<close> from the in-memory store implements the abstract
  store that the metadata classes are verified against: \<open>get_keyval\<close> reports success with the
  stored value, or failure with the state \<open>missing\<close>.  \<open>next_keyval\<close> for at least one entry gives the
  next entries in key order, or \<open>missing\<close> when there are none, provided the start key is an entry, a
  prefix of one or empty; for any other start key it reports \<open>missing\<close>, also when later keys exist,
  which is where the in-memory store differs from the abstract one.  Writing and deleting have
  the abstract effect.  The reader must not be left over from a launch failure.\<close>

theorem reader_refines_store:
  assumes "fake_store_ok st" "rd_state rd \<noteq> R_failed_to_launch" "0 < n"
  shows "(\<exists>rd' rep. get_keyval_done (fst (kv_read (oid lo) [k] st)) (snd (kv_read (oid lo) [k] st)) (get_keyval 0 rd) = Some (rd', rep)
      \<and> (case kvs_answer (Get_keyval lo k) (fake_content st) of
           Got_value v \<Rightarrow> rep = Report_success \<and> rd_last_value rd' = v \<and> rd_state rd' = R_present
         | Read_failed r \<Rightarrow> rep = Report_failed \<and> rd_state rd' = r
         | _ \<Rightarrow> False))
    \<and> (listable k (fake_content st (oid lo)) \<longrightarrow>
        (\<exists>rd' rep. next_keyval_done (fst (kv_next (oid lo) k n st)) (snd (kv_next (oid lo) k n st)) (next_keyval 0 rd) = Some (rd', rep)
          \<and> (case kvs_answer (Next_keyval lo k n) (fake_content st) of
               Got_pairs kvs \<Rightarrow> rep = Report_success \<and> rd_results rd' = results_of kvs \<and> rd_state rd' = R_present
             | Read_failed r \<Rightarrow> rep = Report_failed \<and> rd_state rd' = r
             | _ \<Rightarrow> False)))
    \<and> (\<not> listable k (fake_content st (oid lo)) \<longrightarrow>
        (\<exists>rd'. next_keyval_done (fst (kv_next (oid lo) k n st)) (snd (kv_next (oid lo) k n st)) (next_keyval 0 rd)
            = Some (rd', Report_failed) \<and> rd_state rd' = R_missing))
    \<and> fake_content (kv_write (oid lo) kvs st) = kvs_effect (Put_keyval lo kvs) (fake_content st)
    \<and> fake_content (fst (kv_del (oid lo) ks st)) = kvs_effect (Delete_keyval lo ks) (fake_content st)"
  using fake.get_refines [OF assms(1,2), of lo k] fake.next_refines [OF assms(1,2) _ assms(3), of k lo]
    next_unlistable_missing [OF _ assms(2), of k st "oid lo" n]
  by (simp add: kv_write_content kv_del_content)

text \<open>A launch failure sticks to a reader or writer: once an operation of the object could
  not be launched, every later failure of a read, a put or an index creation on the same object
  is reported as \<open>failed_to_launch\<close>, whatever went wrong; a fresh object reports a missing key as
  missing.\<close>

theorem launch_failure_sticks:
  assumes "op_rc \<noteq> 0" "lrc \<noteq> 0"
  shows "(\<exists>rd'. get_keyval_done op_rc slots (get_keyval 0 (get_keyval lrc rd)) = Some (rd', Report_failed)
      \<and> rd_state rd' = R_failed_to_launch)
    \<and> wr_state (fst (put_keyval_failed (launch_rc 0 (launch_rc lrc w)))) = W_failed_to_launch
    \<and> wr_state (fst (create_index_failed op_rc (create_index_with_oid 0 i (create_index_with_oid lrc i w)))) = W_failed_to_launch
    \<and> (\<exists>rd'. get_keyval_done (- ENOENT) slots (get_keyval 0 S3MotrKVSReader_init) = Some (rd', Report_failed)
         \<and> rd_state rd' = R_missing)"
  using assms
  by (auto simp: get_keyval_done_def get_keyval_failed_def get_keyval_def launch_rc_def put_keyval_failed_def
      create_index_failed_def create_index_with_oid_def S3MotrKVSReader_init_def ENOENT_def)

section \<open>Witnesses\<close>

definition sample_layout :: s3_motr_idx_layout where
  "sample_layout = layout_of_oid \<lparr>u_hi = 1, u_lo = 2\<rparr>"

theorem reader_refines_store_witness:
  "\<exists>rd'. get_keyval_done (fst (kv_read (oid sample_layout) [''k''] (kv_write (oid sample_layout) [(''k'', ''v'')] Map.empty)))
      (snd (kv_read (oid sample_layout) [''k''] (kv_write (oid sample_layout) [(''k'', ''v'')] Map.empty)))
      (get_keyval 0 S3MotrKVSReader_init) = Some (rd', Report_success)
    \<and> rd_last_value rd' = ''v''"
proof -
  let ?st = "kv_write (oid sample_layout) [(''k'', ''v'')] Map.empty"
  have "fake_store_ok ?st"
    by (rule kv_write_ok) (simp_all add: fake_store_ok_set fake_content_def no_nul_def)
  moreover have "map_get (fake_content ?st (oid sample_layout)) ''k'' = Some ''v''"
    by (simp add: kv_write_content fake_content_def put_all_def map_get_def)
  ultimately show ?thesis
    using reader_refines_store [of ?st S3MotrKVSReader_init 1 sample_layout "''k''"]
    by (auto simp: S3MotrKVSReader_init_def)
qed

theorem launch_failure_sticks_witness:
  "wr_state (fst (put_keyval_failed (launch_rc 0 (launch_rc (- 5) S3MotrKVSWriter_init)))) = W_failed_to_launch"
  using launch_failure_sticks [of "- 5" "- 5" "[]" S3MotrKVSReader_init S3MotrKVSWriter_init "\<lparr>u_hi = 1, u_lo = 2\<rparr>"] by simp

end
