(* ===== verification/Ext_Metadata.thy ===== *)
theory Ext_Metadata
  imports Object_Metadata Kvs_Client Common_Utilities
begin

text \<open>
  \<open>server/s3_object_metadata.cc\<close>, class \<open>S3ObjectExtendedMetadata\<close>: the entries that
  describe the parts and fragments of an object, one key of the extended metadata index each.
  An operation gives the new object and what it does next: send a request to the key-value
  store (with the member function that waits for the reply), call one of the two handlers, or
  return without doing either.  A failed assertion, an exception or an access outside a
  container gives \<open>None\<close>.  The JSON library, the fault injection switch, the option
  \<open>motr_idx_fetch_count\<close> and whether the client awaits a response that was started are
  collected in \<open>ext_env\<close>.
\<close>

definition MAX_PUT_MULTIPART_EXTENDED_ENTRIES :: "32 word" where
  "MAX_PUT_MULTIPART_EXTENDED_ENTRIES = 50"

record s3_part_frag_context =
  fr_motr_OID :: m0_uint128
  fr_PVID :: m0_fid
  fr_versionID :: string
  fr_item_size :: size_t
  fr_layout_id :: "32 word"
  fr_part_number :: "32 word"
  fr_is_multipart :: bool

record S3ObjectExtendedMetadata =
  x_bucket_name :: string
  x_object_name :: string
  x_last_object :: string
  x_prefix_of_unique_object :: string
  x_version_id :: string
  x_extended_list_index_layout :: s3_motr_idx_layout
  x_fragments :: "32 word"
  x_fragments_read :: "32 word"
  x_parts :: "32 word"
  x_total_processed_count :: "32 word"
  x_extended_keys :: "string list"
  x_key_values :: "(string, string) std_map"
  x_state :: S3ObjectMetadataState
  x_total_size :: size_t
  x_ext_objects :: "(int, s3_part_frag_context list) std_map"
  x_spaces_sent :: nat

record ext_env =
  xe_lib :: jsoncpp
  xe_object_metadata_corrupted :: bool
  xe_motr_idx_fetch_count :: nat
  xe_client_awaits_body :: bool

datatype ext_waiting = For_entries | For_save | For_partial_save "32 word" | For_remove

datatype ext_out =
    Ext_send ext_waiting kvs_op
  | Ext_success
  | Ext_failed
  | Ext_silent

section \<open>Construction\<close>

text \<open>The prefix is built from the parameter, not from the name taken from the request.\<close>

definition S3ObjectExtendedMetadata_init ::
  "object_request \<Rightarrow> string \<Rightarrow> string \<Rightarrow> string \<Rightarrow> 32 word \<Rightarrow> 32 word \<Rightarrow> S3ObjectExtendedMetadata" where
  "S3ObjectExtendedMetadata_init req bucketname objectname versionid no_of_parts no_of_fragments =
     (let vid = (if versionid = [] then ''NULL'' else versionid);
          prefix = objectname @ ''|'' @ vid
      in \<lparr>x_bucket_name = (if bucketname = [] then rq_bucket_name req else bucketname),
          x_object_name = (if objectname = [] then rq_object_name req else objectname),
          x_last_object = prefix, x_prefix_of_unique_object = prefix, x_version_id = vid,
          x_extended_list_index_layout = zero_layout, x_fragments = no_of_fragments, x_fragments_read = 0,
          x_parts = no_of_parts, x_total_processed_count = 0, x_extended_keys = [], x_key_values = [],
          x_state = Oempty, x_total_size = 0, x_ext_objects = [], x_spaces_sent = 0\<rparr>)"

definition set_extended_list_index_layout ::
  "s3_motr_idx_layout \<Rightarrow> S3ObjectExtendedMetadata \<Rightarrow> S3ObjectExtendedMetadata" where
  "set_extended_list_index_layout lo x = x\<lparr>x_extended_list_index_layout := lo\<rparr>"

definition create_object_ext_metadata_obj ::
  "object_request \<Rightarrow> string \<Rightarrow> string \<Rightarrow> string \<Rightarrow> 32 word \<Rightarrow> 32 word \<Rightarrow> s3_motr_idx_layout \<Rightarrow> S3ObjectExtendedMetadata" where
  "create_object_ext_metadata_obj req bucketname objectname versionid parts fragments obj_idx_lo =
     (let x = S3ObjectExtendedMetadata_init req bucketname objectname versionid parts fragments
      in if non_zero (oid obj_idx_lo) then set_extended_list_index_layout obj_idx_lo x else x)"

definition has_entries :: "S3ObjectExtendedMetadata \<Rightarrow> bool" where
  "has_entries x \<longleftrightarrow> x_ext_objects x \<noteq> []"

definition ext_set_version_id :: "string \<Rightarrow> S3ObjectExtendedMetadata \<Rightarrow> S3ObjectExtendedMetadata" where
  "ext_set_version_id versionid x = x\<lparr>x_version_id := versionid\<rparr>"

section \<open>Adding entries\<close>

definition add_extended_entry ::
  "s3_part_frag_context \<Rightarrow> 32 word \<Rightarrow> 32 word \<Rightarrow> S3ObjectExtendedMetadata \<Rightarrow> S3ObjectExtendedMetadata option" where
  "add_extended_entry part_frag_ctx fragment_no part_no x =
     (let key = sint part_no;
          (objs, frags) = map_index [] (x_ext_objects x) key;
          pos = unat (fragment_no - 1)
      in if length frags < pos then None
         else Some (x\<lparr>x_ext_objects := map_put key (take pos frags @ part_frag_ctx # drop pos frags) objs,
                      x_fragments := x_fragments x + 1,
                      x_parts := (if part_no \<noteq> 0 \<and> x_parts x \<le> part_no then part_no else x_parts x)\<rparr>))"

definition set_size_of_extended_entry ::
  "size_t \<Rightarrow> 32 word \<Rightarrow> 32 word \<Rightarrow> S3ObjectExtendedMetadata \<Rightarrow> S3ObjectExtendedMetadata option" where
  "set_size_of_extended_entry fragment_size fragment_no part_no x =
     (let key = sint part_no;
          (objs, frags) = map_index [] (x_ext_objects x) key;
          pos = unat (fragment_no - 1)
      in if length frags \<le> pos then None
         else Some (x\<lparr>x_ext_objects := map_put key (frags[pos := (frags ! pos)\<lparr>fr_item_size := fragment_size\<rparr>]) objs,
                      x_total_size := x_total_size x + fragment_size\<rparr>))"

section \<open>Keys and values\<close>

definition frag_doc :: "s3_part_frag_context \<Rightarrow> (string, json) std_map" where
  "frag_doc fr =
     map_put ''layout-id'' (JInt (uint (fr_layout_id fr))) (map_put ''size'' (JInt (uint (fr_item_size fr)))
       (map_put ''PVID'' (JStr (fid_to_string (fr_PVID fr))) (map_put ''OID'' (JStr (uint128_to_string (fr_motr_OID fr))) [])))"

definition get_json_str :: "jsoncpp \<Rightarrow> s3_part_frag_context \<Rightarrow> string" where
  "get_json_str lib fr = writer_write lib (JObj (frag_doc fr))"

text \<open>The key of fragment \<open>frag_index\<close> of the part at position \<open>part_index\<close>.\<close>

definition extended_key :: "string \<Rightarrow> string \<Rightarrow> nat \<Rightarrow> nat \<Rightarrow> bool \<Rightarrow> string" where
  "extended_key object_name version_id part_index frag_index is_multipart =
     object_name @ ''|'' @ version_id
       @ (if is_multipart then ''|'' @ ''P'' @ to_dec part_index else []) @ ''|'' @ ''F'' @ to_dec frag_index"

fun frag_entries :: "string \<Rightarrow> string \<Rightarrow> nat \<Rightarrow> nat \<Rightarrow> s3_part_frag_context list \<Rightarrow> (string \<times> s3_part_frag_context) list" where
  "frag_entries nm vid part_index frag_index [] = []"
| "frag_entries nm vid part_index frag_index (fr # frs) =
     (extended_key nm vid part_index frag_index (fr_is_multipart fr), fr) # frag_entries nm vid part_index (Suc frag_index) frs"

fun part_entries ::
  "string \<Rightarrow> string \<Rightarrow> nat \<Rightarrow> (int, s3_part_frag_context list) std_map \<Rightarrow> (string \<times> s3_part_frag_context) list" where
  "part_entries nm vid part_index [] = []"
| "part_entries nm vid part_index ((p, frs) # objs) =
     frag_entries nm vid part_index 1 frs @ part_entries nm vid (Suc part_index) objs"

definition get_kv_list_of_extended_entries ::
  "jsoncpp \<Rightarrow> S3ObjectExtendedMetadata \<Rightarrow> (string, string) std_map" where
  "get_kv_list_of_extended_entries lib x =
     fold (\<lambda>(key, fr). map_put key (get_json_str lib fr))
       (part_entries (x_object_name x) (x_version_id x) 1 (x_ext_objects x)) []"

definition get_extended_entries_key_list :: "S3ObjectExtendedMetadata \<Rightarrow> string list" where
  "get_extended_entries_key_list x = map fst (part_entries (x_object_name x) (x_version_id x) 1 (x_ext_objects x))"

text \<open>\<open>getline\<close> up to the separator, until the stream is empty.\<close>

function getline_tokens :: "string \<Rightarrow> string list" where
  "getline_tokens s =
     (if s = [] then []
      else takeWhile (\<lambda>c. c \<noteq> CHR ''|'') s # getline_tokens (drop 1 (dropWhile (\<lambda>c. c \<noteq> CHR ''|'') s)))"
  by auto
termination
proof (relation "measure length")
  fix s :: string
  assume "s \<noteq> []"
  with length_dropWhile_le [of "\<lambda>c. c \<noteq> CHR ''|''" s]
  show "(drop 1 (dropWhile (\<lambda>c. c \<noteq> CHR ''|'') s), s) \<in> measure length"
    by (cases s) (auto simp: less_Suc_eq_le le_diff_conv intro: le_less_trans)
qed simp

declare getline_tokens.simps [simp del]

definition c_atoi :: "string \<Rightarrow> 32 word" where
  "c_atoi s = of_int (c_atol s)"

definition add_read_entry ::
  "string list \<Rightarrow> s3_part_frag_context \<Rightarrow> S3ObjectExtendedMetadata \<Rightarrow> S3ObjectExtendedMetadata \<times> int" where
  "add_read_entry tokens item x =
     (if fr_is_multipart item then
        (let tok = tokens ! 2 in
         if CHR ''P'' \<in> set tok then
           (case S3CommonUtilities_stoi (drop 1 (dropWhile (\<lambda>c. c \<noteq> CHR ''P'') tok)) of
              Some key \<Rightarrow>
                (let (objs, frags) = map_index [] (x_ext_objects x) key
                 in (x\<lparr>x_ext_objects := map_put key (frags @ [item]) objs, x_parts := of_int key\<rparr>, 0))
            | None \<Rightarrow> (x, -1))
         else (x, -1))
      else (let (objs, frags) = map_index [] (x_ext_objects x) 0
            in (x\<lparr>x_ext_objects := map_put 0 (frags @ [item]) objs\<rparr>, 0)))"

definition ext_from_json ::
  "ext_env \<Rightarrow> string \<Rightarrow> string \<Rightarrow> S3ObjectExtendedMetadata \<Rightarrow> (S3ObjectExtendedMetadata \<times> int) option" where
  "ext_from_json env key content x =
     (case reader_parse (xe_lib env) (c_str content) of
        None \<Rightarrow> Some (x, -1)
      | Some newroot \<Rightarrow>
          (if xe_object_metadata_corrupted env then Some (x, -1)
           else if x_object_name x = [] \<or> length key < length (x_object_name x) + 1 then None
           else do {
             let tokens = x_object_name x # getline_tokens (drop (length (x_object_name x) + 1) key);
             let multi = (length tokens = 4 \<or> (length tokens = 3 \<and> CHR ''P'' \<in> set (tokens ! 2)));
             (if length tokens < 2 \<or> (multi \<and> tokens ! 2 = []) then None else Some ());
             os \<leftarrow> json_string (xe_lib env) newroot ''OID'';
             ps \<leftarrow> json_string (xe_lib env) newroot ''PVID'';
             sz \<leftarrow> json_int (asUInt64 (xe_lib env)) newroot ''size'';
             ly \<leftarrow> json_int (asInt (xe_lib env)) newroot ''layout-id'';
             let item = \<lparr>fr_motr_OID = to_m0_uint128 os, fr_PVID = fst (to_m0_fid ps), fr_versionID = tokens ! 1,
                         fr_item_size = of_int sz, fr_layout_id = of_int ly,
                         fr_part_number = (if multi then c_atoi (drop 1 (tokens ! 2)) else 0), fr_is_multipart = multi\<rparr>;
             Some (add_read_entry tokens item (x\<lparr>x_total_size := x_total_size x + of_int sz\<rparr>))
           }))"

section \<open>Loading\<close>

definition get_obj_ext_entries ::
  "ext_env \<Rightarrow> S3ObjectExtendedMetadata \<Rightarrow> S3ObjectExtendedMetadata \<times> ext_out" where
  "get_obj_ext_entries env x =
     (x, Ext_send For_entries (Next_keyval (x_extended_list_index_layout x) (x_last_object x) (xe_motr_idx_fetch_count env)))"

definition ext_load :: "ext_env \<Rightarrow> S3ObjectExtendedMetadata \<Rightarrow> (S3ObjectExtendedMetadata \<times> ext_out) option" where
  "ext_load env x =
     (if non_zero (oid (x_extended_list_index_layout x)) then Some (get_obj_ext_entries env x) else None)"

text \<open>The loop over a page of the index: whether an entry failed to parse, and whether another key was met.\<close>

fun read_entries ::
  "ext_env \<Rightarrow> (string, string) std_map \<Rightarrow> S3ObjectExtendedMetadata \<Rightarrow> (S3ObjectExtendedMetadata \<times> bool \<times> bool) option" where
  "read_entries env [] x = Some (x, False, False)"
| "read_entries env ((key, val) # kvps) x =
     (let x1 = x\<lparr>x_last_object := key\<rparr> in
      if take (length (x_prefix_of_unique_object x1)) key \<noteq> x_prefix_of_unique_object x1 then Some (x1, False, True)
      else (case ext_from_json env key val x1 of
              None \<Rightarrow> None
            | Some (x2, rc) \<Rightarrow> if rc \<noteq> 0 then Some (x2, True, False) else read_entries env kvps x2))"

definition get_obj_ext_entries_successful ::
  "ext_env \<Rightarrow> (string, string) std_map \<Rightarrow> S3ObjectExtendedMetadata \<Rightarrow> (S3ObjectExtendedMetadata \<times> ext_out) option" where
  "get_obj_ext_entries_successful env kvps x =
     (case read_entries env kvps x of
        None \<Rightarrow> None
      | Some (x1, parse_failed, end_of_enumeration) \<Rightarrow>
          (if parse_failed then Some (x1\<lparr>x_state := Oinvalid\<rparr>, Ext_failed)
           else (let x2 = x1\<lparr>x_fragments_read := x_fragments_read x1 + of_nat (length kvps)\<rparr>
                 in if end_of_enumeration \<or> x_fragments x2 \<le> x_fragments_read x2
                    then Some (x2\<lparr>x_fragments_read := 0, x_state := Opresent\<rparr>, Ext_success)
                    else Some (get_obj_ext_entries env x2))))"

definition get_obj_ext_entries_failed ::
  "S3MotrKVSReaderOpState \<Rightarrow> S3ObjectExtendedMetadata \<Rightarrow> S3ObjectExtendedMetadata \<times> ext_out" where
  "get_obj_ext_entries_failed rs x =
     (x\<lparr>x_state :=
          (case rs of
             R_failed_to_launch \<Rightarrow> Ofailed_to_launch
           | R_missing \<Rightarrow> Omissing
           | R_present \<Rightarrow> if x_state x \<noteq> Oinvalid then Ofailed else x_state x
           | _ \<Rightarrow> Ofailed)\<rparr>, Ext_failed)"

section \<open>Saving\<close>

definition save_partial_extended_metadata ::
  "S3ObjectExtendedMetadata \<Rightarrow> (S3ObjectExtendedMetadata \<times> ext_out) option" where
  "save_partial_extended_metadata x =
     (if x_key_values x = [] then None
      else (let kv_to_be_processed = of_nat (length (x_key_values x)) - x_total_processed_count x;
                how_many_kv_to_write =
                  (if kv_to_be_processed - MAX_PUT_MULTIPART_EXTENDED_ENTRIES > MAX_PUT_MULTIPART_EXTENDED_ENTRIES
                   then MAX_PUT_MULTIPART_EXTENDED_ENTRIES else kv_to_be_processed)
            in map_option (\<lambda>(w, kvs). (x, Ext_send (For_partial_save how_many_kv_to_write)
                                             (Put_keyval (x_extended_list_index_layout x) kvs)))
                 (put_partial_keyval 0 (x_extended_list_index_layout x) (x_key_values x)
                    (unat (x_total_processed_count x)) (unat how_many_kv_to_write) S3MotrKVSWriter_init)))"

text \<open>While the rest is saved, white space keeps the client waiting for the body.\<close>

definition save_partial_extended_metadata_successful ::
  "ext_env \<Rightarrow> 32 word \<Rightarrow> S3ObjectExtendedMetadata \<Rightarrow> (S3ObjectExtendedMetadata \<times> ext_out) option" where
  "save_partial_extended_metadata_successful env processed_count x =
     (let x1 = x\<lparr>x_total_processed_count := x_total_processed_count x + processed_count\<rparr>
      in if unat (x_total_processed_count x1) < length (x_ext_objects x1)
         then save_partial_extended_metadata
                (if xe_client_awaits_body env then x1\<lparr>x_spaces_sent := Suc (x_spaces_sent x1)\<rparr> else x1)
         else Some (x1, Ext_success))"

definition ext_save :: "ext_env \<Rightarrow> S3ObjectExtendedMetadata \<Rightarrow> (S3ObjectExtendedMetadata \<times> ext_out) option" where
  "ext_save env x =
     (if \<not> non_zero (oid (x_extended_list_index_layout x)) then None
      else (let x1 = x\<lparr>x_key_values := get_kv_list_of_extended_entries (xe_lib env) x\<rparr>;
                n = length (x_key_values x1)
            in if 0 < n \<and> n \<le> unat MAX_PUT_MULTIPART_EXTENDED_ENTRIES
               then map_option (\<lambda>(w, kvs). (x1, Ext_send For_save (Put_keyval (x_extended_list_index_layout x1) kvs)))
                      (put_keyval 0 (x_extended_list_index_layout x1) (x_key_values x1) S3MotrKVSWriter_init)
               else if unat MAX_PUT_MULTIPART_EXTENDED_ENTRIES < n then save_partial_extended_metadata x1
               else Some (x1, Ext_silent)))"

section \<open>Removal\<close>

definition ext_remove :: "ext_env \<Rightarrow> S3ObjectExtendedMetadata \<Rightarrow> (S3ObjectExtendedMetadata \<times> ext_out) option" where
  "ext_remove env x =
     (if \<not> non_zero (oid (x_extended_list_index_layout x)) then None
      else (let key_values = get_kv_list_of_extended_entries (xe_lib env) x;
                x1 = x\<lparr>x_extended_keys := x_extended_keys x @ map fst key_values\<rparr>
            in if key_values \<noteq> []
               then Some (x1, Ext_send For_remove (Delete_keyval (x_extended_list_index_layout x1) (x_extended_keys x1)))
               else Some (x1, Ext_success)))"

section \<open>Replies\<close>

fun ext_deliver ::
  "ext_env \<Rightarrow> ext_waiting \<Rightarrow> kvs_result \<Rightarrow> S3ObjectExtendedMetadata \<Rightarrow> (S3ObjectExtendedMetadata \<times> ext_out) option" where
  "ext_deliver env For_entries (Got_pairs kvps) x = get_obj_ext_entries_successful env kvps x"
| "ext_deliver env For_entries (Read_failed rs) x = Some (get_obj_ext_entries_failed rs x)"
| "ext_deliver env (For_partial_save n) Write_done x = save_partial_extended_metadata_successful env n x"
| "ext_deliver env (For_partial_save n) (Write_error ws) x = Some (x, Ext_failed)"
| "ext_deliver env For_save Write_done x = Some (x, Ext_success)"
| "ext_deliver env For_save (Write_error ws) x = Some (x, Ext_failed)"
| "ext_deliver env For_remove Write_done x = Some (x, Ext_success)"
| "ext_deliver env For_remove (Write_error ws) x = Some (x, Ext_failed)"
| "ext_deliver env _ _ x = None"

text \<open>
  The exchange with the store: for each request in flight, \<open>None\<close> when the store performs it
  and a result when it fails.
\<close>

fun ext_run ::
  "ext_env \<Rightarrow> kvs_result option list \<Rightarrow> kvs_indices \<Rightarrow> S3ObjectExtendedMetadata \<Rightarrow> ext_out
   \<Rightarrow> (kvs_indices \<times> S3ObjectExtendedMetadata \<times> ext_out) option" where
  "ext_run env (None # fs) st x (Ext_send w op) =
     (case ext_deliver env w (kvs_answer op st) x of
        None \<Rightarrow> None
      | Some (x', out) \<Rightarrow> ext_run env fs (kvs_effect op st) x' out)"
| "ext_run env (Some r # fs) st x (Ext_send w op) =
     (case ext_deliver env w r x of
        None \<Rightarrow> None
      | Some (x', out) \<Rightarrow> ext_run env fs st x' out)"
| "ext_run env fs st x out = Some (st, x, out)"


section \<open>The batches of a partial save\<close>

lemma MAX_ENTRIES_unat [simp]: "unat MAX_PUT_MULTIPART_EXTENDED_ENTRIES = 50"
  by (simp add: MAX_PUT_MULTIPART_EXTENDED_ENTRIES_def)

text \<open>While more than 50 entries remain, the unsigned differences do not wrap around.\<close>

lemma batch_size:
  fixes r :: "32 word"
  assumes "50 < unat r"
  shows "unat (if r - MAX_PUT_MULTIPART_EXTENDED_ENTRIES > MAX_PUT_MULTIPART_EXTENDED_ENTRIES
               then MAX_PUT_MULTIPART_EXTENDED_ENTRIES else r) = (if unat r > 100 then 50 else unat r)"
proof -
  have le: "(50 :: 32 word) \<le> r" using assms by (simp add: word_le_nat_alt)
  then have "unat (r - 50) = unat r - 50" by (simp add: unat_sub)
  then show ?thesis
    by (auto simp: MAX_PUT_MULTIPART_EXTENDED_ENTRIES_def word_less_nat_alt)
qed

definition next_batch :: "nat \<Rightarrow> nat" where
  "next_batch r = (if r > 100 then 50 else r)"

definition keys_nonempty :: "(string, string) std_map \<Rightarrow> bool" where
  "keys_nonempty kvs \<longleftrightarrow> list_all (\<lambda>kv. fst kv \<noteq> []) kvs"

lemma keys_nonempty_part: "keys_nonempty kvs \<Longrightarrow> \<not> list_ex (\<lambda>kv. fst kv = []) (take a (drop b kvs))"
  by (auto simp: keys_nonempty_def list_all_iff list_ex_iff dest: in_set_takeD in_set_dropD)

lemma partial_save_sends:
  assumes kvs: "length (x_key_values x) < 2 ^ 32" "keys_nonempty (x_key_values x)"
    and left: "unat (x_total_processed_count x) + 50 < length (x_key_values x)"
  obtains hm where "save_partial_extended_metadata x =
      Some (x, Ext_send (For_partial_save hm) (Put_keyval (x_extended_list_index_layout x)
        (take (unat hm) (drop (unat (x_total_processed_count x)) (x_key_values x)))))"
    and "unat hm = next_batch (length (x_key_values x) - unat (x_total_processed_count x))"
proof -
  define r :: "32 word" where "r = of_nat (length (x_key_values x)) - x_total_processed_count x"
  define hm where "hm = (if r - MAX_PUT_MULTIPART_EXTENDED_ENTRIES > MAX_PUT_MULTIPART_EXTENDED_ENTRIES
               then MAX_PUT_MULTIPART_EXTENDED_ENTRIES else r)"
  have n: "unat (of_nat (length (x_key_values x)) :: 32 word) = length (x_key_values x)"
    using kvs(1) by (simp add: unat_of_nat)
  have r: "unat r = length (x_key_values x) - unat (x_total_processed_count x)"
    using left n unfolding r_def by (subst unat_sub) (simp_all add: word_le_nat_alt)
  have hm: "unat hm = next_batch (unat r)"
    using batch_size [of r] left r unfolding hm_def next_batch_def by simp
  have "unat hm \<noteq> 0" "unat hm \<le> length (x_key_values x)"
    using left r hm by (auto simp: next_batch_def)
  moreover have "save_partial_extended_metadata x =
      Some (x, Ext_send (For_partial_save hm) (Put_keyval (x_extended_list_index_layout x)
        (take (unat hm) (drop (unat (x_total_processed_count x)) (x_key_values x)))))"
    using left calculation keys_nonempty_part [OF kvs(2)]
    unfolding save_partial_extended_metadata_def put_partial_keyval_def put_slots_def
    by (auto simp: Let_def simp flip: r_def hm_def)
  ultimately show ?thesis using that hm r by simp
qed

section \<open>Decimal numbers in keys\<close>

lemma digit_char: "(d :: nat) < 10 \<Longrightarrow> char_of (48 + d) \<in> set ''0123456789''"
proof -
  assume "d < 10"
  then have "d \<in> set [0..<10]" by simp
  then have "d = 0 \<or> d = 1 \<or> d = 2 \<or> d = 3 \<or> d = 4 \<or> d = 5 \<or> d = 6 \<or> d = 7 \<or> d = 8 \<or> d = 9"
    unfolding upt_rec_numeral by auto
  then show ?thesis by (elim disjE) (simp_all add: char_of_def bit_Suc_0_iff)
qed

lemma to_dec_digits: "c \<in> set (to_dec n) \<Longrightarrow> c \<in> set ''0123456789''"
proof (induction n rule: to_dec.induct)
  case (1 n)
  show ?case
  proof (cases "n < 10")
    case True
    with "1.prems" digit_char [of n] show ?thesis by (simp add: to_dec.simps [of n])
  next
    case False
    with "1.prems" have "c \<in> set (to_dec (n div 10)) \<or> c = char_of (48 + n mod 10)"
      by (auto simp: to_dec.simps [of n])
    with "1.IH" [OF False] digit_char [of "n mod 10"] show ?thesis by auto
  qed
qed

lemma dec_digits_value_append:
  "\<forall>c \<in> set xs. c \<in> set ''0123456789'' \<Longrightarrow> dec_digits_value acc (xs @ ys) = dec_digits_value (dec_digits_value acc xs) ys"
  by (induction xs arbitrary: acc) auto

lemma dec_digits_value_digit: "d < 10 \<Longrightarrow> dec_digits_value acc [char_of (48 + d)] = 10 * acc + d"
  using digit_char [of d] by simp

lemma dec_digits_value_to_dec [simp]: "dec_digits_value 0 (to_dec n) = n"
proof (induction n rule: to_dec.induct)
  case (1 n)
  show ?case
  proof (cases "n < 10")
    case True
    then show ?thesis using dec_digits_value_digit [of n 0] by (simp add: to_dec.simps [of n] del: dec_digits_value.simps)
  next
    case False
    have "\<forall>c \<in> set (to_dec (n div 10)). c \<in> set ''0123456789''" using to_dec_digits by blast
    with False 1 show ?thesis
      by (simp add: to_dec.simps [of n] dec_digits_value_append dec_digits_value_digit del: dec_digits_value.simps)
  qed
qed

lemma to_dec_inject [simp]: "to_dec m = to_dec n \<longleftrightarrow> m = n"
  by (metis dec_digits_value_to_dec)

lemma to_dec_not_Nil [simp]: "to_dec n \<noteq> []"
  by (simp add: to_dec.simps [of n])

lemma to_dec_no_letter [simp]: "CHR ''|'' \<notin> set (to_dec n)" "CHR ''P'' \<notin> set (to_dec n)"
  using to_dec_digits by fastforce+

lemma scan_number_to_dec: "scan_number (to_dec n) = Some (False, n)"
proof -
  obtain c cs where eq: "to_dec n = c # cs" by (cases "to_dec n") auto
  then have c: "c \<in> set ''0123456789''" using to_dec_digits [of c n] by simp
  then have "\<not> c_isspace c" "c \<noteq> CHR ''-''" "c \<noteq> CHR ''+''" by (auto simp: c_isspace_def)
  then show ?thesis
    using c dec_digits_value_to_dec [of n] by (simp add: scan_number_def eq Let_def del: dec_digits_value.simps)
qed

lemma stoi_to_dec: "n < 2 ^ 31 \<Longrightarrow> S3CommonUtilities_stoi (to_dec n) = Some (int n)"
  by (simp add: S3CommonUtilities_stoi_def scan_number_to_dec)

lemma no_nul_to_dec: "no_nul (to_dec n)"
  using to_dec_digits [of "CHR 0x00" n] by (auto simp: no_nul_def)

lemma c_atoi_to_dec: "n < 2 ^ 31 \<Longrightarrow> c_atoi (to_dec n) = of_nat n"
  by (simp add: c_atoi_def c_atol_def scan_number_to_dec no_nul_to_dec LONG_MAX_def)

section \<open>Keys\<close>

lemma bar_cancel:
  assumes "a @ CHR ''|'' # b = a' @ CHR ''|'' # b'" "CHR ''|'' \<notin> set a" "CHR ''|'' \<notin> set a'"
  shows "a = a' \<and> b = b'"
proof -
  have "takeWhile (\<lambda>c. c \<noteq> CHR ''|'') (a @ CHR ''|'' # b) = a" using assms(2) by (subst takeWhile_append2) auto
  moreover have "takeWhile (\<lambda>c. c \<noteq> CHR ''|'') (a' @ CHR ''|'' # b') = a'" using assms(3) by (subst takeWhile_append2) auto
  ultimately show ?thesis using assms(1) by simp
qed

lemma extended_key_inject:
  "extended_key nm vid p f m = extended_key nm vid p' f' m \<longleftrightarrow> f = f' \<and> (m \<longrightarrow> p = p')"
  using bar_cancel [of "to_dec p" "CHR ''F'' # to_dec f" "to_dec p'" "CHR ''F'' # to_dec f'"]
  by (auto simp: extended_key_def)

lemma getline_tokens_Nil [simp]: "getline_tokens [] = []"
  by (simp add: getline_tokens.simps)

lemma getline_tokens_last: "CHR ''|'' \<notin> set a \<Longrightarrow> a \<noteq> [] \<Longrightarrow> getline_tokens a = [a]"
proof -
  assume a: "CHR ''|'' \<notin> set a" "a \<noteq> []"
  then have "dropWhile (\<lambda>c. c \<noteq> CHR ''|'') a = []" "takeWhile (\<lambda>c. c \<noteq> CHR ''|'') a = a"
    by (auto simp: dropWhile_eq_Nil_conv takeWhile_eq_all_conv)
  with a show ?thesis by (simp add: getline_tokens.simps [of a] del: dropWhile_eq_Nil_conv takeWhile_eq_all_conv)
qed

lemma getline_tokens_bar: "CHR ''|'' \<notin> set a \<Longrightarrow> getline_tokens (a @ CHR ''|'' # b) = a # getline_tokens b"
  by (subst getline_tokens.simps) (auto simp: takeWhile_append dropWhile_append takeWhile_eq_all_conv dropWhile_eq_Nil_conv)

lemma tokens_of_key:
  assumes "CHR ''|'' \<notin> set vid"
  shows "getline_tokens (drop (length nm + 1) (extended_key nm vid p f m)) =
     (if m then [vid, CHR ''P'' # to_dec p, CHR ''F'' # to_dec f] else [vid, CHR ''F'' # to_dec f])"
  using assms getline_tokens_bar [of "CHR ''P'' # to_dec p"] 
  by (simp add: extended_key_def getline_tokens_bar getline_tokens_last)

section \<open>The entries of an object\<close>

definition all_frags :: "(int, s3_part_frag_context list) std_map \<Rightarrow> s3_part_frag_context list" where
  "all_frags objs = concat (map snd objs)"

text \<open>
  The shape the actions build: every part has an entry, and either all entries belong to a
  multipart object or they are the fragments of one simple object.
\<close>

definition ext_shape :: "(int, s3_part_frag_context list) std_map \<Rightarrow> bool" where
  "ext_shape objs \<longleftrightarrow> (\<forall>e \<in> set objs. snd e \<noteq> []) \<and>
     ((\<forall>fr \<in> set (all_frags objs). fr_is_multipart fr)
      \<or> (length objs = 1 \<and> (\<forall>fr \<in> set (all_frags objs). \<not> fr_is_multipart fr)))"

lemma frag_entries_keys:
  "k \<in> fst ` set (frag_entries nm vid p f frs) \<Longrightarrow>
   \<exists>f' \<ge> f. \<exists>fr \<in> set frs. k = extended_key nm vid p f' (fr_is_multipart fr)"
proof (induction frs arbitrary: f)
  case (Cons fr frs)
  then consider "k = extended_key nm vid p f (fr_is_multipart fr)" | "k \<in> fst ` set (frag_entries nm vid p (Suc f) frs)"
    by auto
  then show ?case
  proof cases
    case 2
    from Cons.IH [OF this] obtain f' fr' where "f' \<ge> Suc f" "fr' \<in> set frs"
      "k = extended_key nm vid p f' (fr_is_multipart fr')" by blast
    then show ?thesis by (intro exI [of _ f']) auto
  qed auto
qed simp

lemma part_entries_keys:
  "k \<in> fst ` set (part_entries nm vid p objs) \<Longrightarrow>
   \<exists>p' \<ge> p. \<exists>f. \<exists>fr \<in> set (all_frags objs). k = extended_key nm vid p' f (fr_is_multipart fr)"
proof (induction objs arbitrary: p)
  case (Cons e objs)
  obtain q frs where e: "e = (q, frs)" by (cases e)
  from Cons.prems consider "k \<in> fst ` set (frag_entries nm vid p 1 frs)" | "k \<in> fst ` set (part_entries nm vid (Suc p) objs)"
    by (auto simp: e)
  then show ?case
  proof cases
    case 1
    from frag_entries_keys [OF this] show ?thesis by (auto simp: e all_frags_def)
  next
    case 2
    from Cons.IH [OF this] obtain p' f fr where "p' \<ge> Suc p" "fr \<in> set (all_frags objs)"
      "k = extended_key nm vid p' f (fr_is_multipart fr)" by blast
    then show ?thesis by (intro exI [of _ p'] conjI exI [of _ f] bexI [of _ fr]) (auto simp: e all_frags_def)
  qed
qed simp

lemma frag_entries_distinct:
  "\<forall>fr \<in> set frs. fr_is_multipart fr = m \<Longrightarrow> distinct (map fst (frag_entries nm vid p f frs))"
proof (induction frs arbitrary: f)
  case (Cons fr frs)
  have "extended_key nm vid p f m \<notin> fst ` set (frag_entries nm vid p (Suc f) frs)"
    using frag_entries_keys [of _ nm vid p "Suc f" frs] Cons.prems by (fastforce simp: extended_key_inject)
  with Cons show ?case by simp
qed simp

lemma part_entries_distinct_multipart:
  "\<forall>fr \<in> set (all_frags objs). fr_is_multipart fr \<Longrightarrow> distinct (map fst (part_entries nm vid p objs))"
proof (induction objs arbitrary: p)
  case (Cons e objs)
  obtain q frs where e: "e = (q, frs)" by (cases e)
  have frs: "\<forall>fr \<in> set frs. fr_is_multipart fr = True" and rest: "\<forall>fr \<in> set (all_frags objs). fr_is_multipart fr"
    using Cons.prems by (auto simp: e all_frags_def)
  have "fst ` set (frag_entries nm vid p 1 frs) \<inter> fst ` set (part_entries nm vid (Suc p) objs) = {}"
  proof (rule ccontr)
    assume "\<not> ?thesis"
    then obtain k where k: "k \<in> fst ` set (frag_entries nm vid p 1 frs)" "k \<in> fst ` set (part_entries nm vid (Suc p) objs)"
      by blast
    from frag_entries_keys [OF k(1)] frs obtain f where "k = extended_key nm vid p f True" by force
    moreover from part_entries_keys [OF k(2)] rest
    obtain p' f' where "p' \<ge> Suc p" "k = extended_key nm vid p' f' True" by force
    ultimately show False by (auto simp: extended_key_inject)
  qed
  then show ?case using frag_entries_distinct [OF frs] Cons.IH [OF rest] by (simp add: e)
qed simp

lemma part_entries_distinct:
  assumes "ext_shape objs"
  shows "distinct (map fst (part_entries nm vid p objs))"
proof (cases "\<forall>fr \<in> set (all_frags objs). fr_is_multipart fr")
  case True
  then show ?thesis by (rule part_entries_distinct_multipart)
next
  case False
  with assms obtain e where e: "objs = [e]" and m: "\<forall>fr \<in> set (all_frags objs). \<not> fr_is_multipart fr"
    by (auto simp: ext_shape_def length_Suc_conv)
  then show ?thesis using frag_entries_distinct [of "snd e" False nm vid p 1] by (cases e) (simp add: all_frags_def)
qed

lemma frag_entries_snd: "map snd (frag_entries nm vid p f frs) = frs"
  by (induction frs arbitrary: f) auto

lemma part_entries_snd: "map snd (part_entries nm vid p objs) = all_frags objs"
proof (induction objs arbitrary: p)
  case (Cons e objs)
  then show ?case by (cases e) (simp add: frag_entries_snd all_frags_def)
qed (simp add: all_frags_def)

text \<open>Collecting entries in a map orders them by key.\<close>

definition by_key :: "(string \<times> 'v) list \<Rightarrow> (string, 'v) std_map" where
  "by_key es = fold (\<lambda>(k, v). map_put k v) es []"

lemma map_put_values: "map_put k (f v) (map (\<lambda>(k, v). (k, f v)) m) = map (\<lambda>(k, v). (k, f v)) (map_put k v m)"
  by (induction k v m rule: map_put.induct) auto

lemma fold_put_values:
  "fold (\<lambda>(k, v). map_put k (f v)) es (map (\<lambda>(k, v). (k, f v)) m) = map (\<lambda>(k, v). (k, f v)) (fold (\<lambda>(k, v). map_put k v) es m)"
  by (induction es arbitrary: m) (auto simp: map_put_values)

lemma kv_list_by_key:
  "get_kv_list_of_extended_entries lib x =
     map (\<lambda>(k, fr). (k, get_json_str lib fr)) (by_key (part_entries (x_object_name x) (x_version_id x) 1 (x_ext_objects x)))"
  using fold_put_values [of "get_json_str lib" _ "[]"] by (simp add: get_kv_list_of_extended_entries_def by_key_def)

lemma by_key_wf [simp]: "map_wf (by_key es)"
  unfolding by_key_def by (rule std.wf_fold_put) simp

lemma by_key_get: "distinct (map fst es) \<Longrightarrow> map_get (by_key es) = map_of es"
  by (simp add: by_key_def std.get_fold_put map_of_rev_distinct)

lemma by_key_set: "distinct (map fst es) \<Longrightarrow> set (by_key es) = set es"
  using by_key_get [of es] map_of_eq_Some_iff [of es] map_of_eq_Some_iff [OF map_wf_distinct [OF by_key_wf, of es]]
  by (fastforce simp: map_get_map_of)

lemma by_key_length: "distinct (map fst es) \<Longrightarrow> length (by_key es) = length es"
  by (metis by_key_set by_key_wf distinct_card distinct_map length_map map_wf_distinct)

lemma kv_list_length:
  "ext_shape (x_ext_objects x) \<Longrightarrow> length (get_kv_list_of_extended_entries lib x) = length (all_frags (x_ext_objects x))"
  using part_entries_snd [of "x_object_name x" "x_version_id x" 1 "x_ext_objects x"]
  by (metis by_key_length kv_list_by_key length_map part_entries_distinct)

lemma shape_parts_le_frags: "ext_shape objs \<Longrightarrow> length objs \<le> length (all_frags objs)"
proof -
  assume "ext_shape objs"
  then have "\<forall>e \<in> set objs. snd e \<noteq> []" by (simp add: ext_shape_def)
  then show ?thesis
  proof (induction objs)
    case (Cons e objs)
    then have "1 \<le> length (snd e)" by (simp add: Suc_le_eq)
    with Cons show ?case by (simp add: all_frags_def)
  qed simp
qed

lemma kv_list_nonempty_keys: "x_object_name x \<noteq> [] \<Longrightarrow> keys_nonempty (get_kv_list_of_extended_entries lib x)"
proof -
  have "k \<noteq> []" if "k \<in> fst ` set (fold (\<lambda>(key, fr). map_put key (get_json_str lib fr))
       (part_entries (x_object_name x) (x_version_id x) 1 (x_ext_objects x)) [])" for k
  proof -
    have "fst ` set (fold (\<lambda>(key, fr). map_put key (get_json_str lib fr)) es m) = fst ` set es \<union> fst ` set m"
      for es :: "(string \<times> s3_part_frag_context) list" and m
    proof (induction es arbitrary: m)
      case (Cons e es)
      then show ?case by (cases e) simp
    qed simp
    then have "k \<in> fst ` set (part_entries (x_object_name x) (x_version_id x) 1 (x_ext_objects x))" using that by simp
    from part_entries_keys [OF this] show ?thesis by (auto simp: extended_key_def)
  qed
  then show ?thesis
    by (simp add: keys_nonempty_def list_all_iff get_kv_list_of_extended_entries_def)
qed

section \<open>A partial save, batch by batch\<close>

text \<open>
  What holds at every moment of a partial save: the first \<open>total_processed_count\<close> entries, in
  key order, are in the index and nothing else has changed; a request in flight is a batch of
  50 to 100 of the next entries.
\<close>

definition partial_progress :: "kvs_indices \<Rightarrow> kvs_indices \<Rightarrow> S3ObjectExtendedMetadata \<Rightarrow> ext_out \<Rightarrow> bool" where
  "partial_progress st0 st x out \<longleftrightarrow>
     (let p = unat (x_total_processed_count x); kvs = x_key_values x; lo = x_extended_list_index_layout x in
      p \<le> length kvs \<and> st = st0(oid lo := put_all (take p kvs) (st0 (oid lo)))
      \<and> (case out of
           Ext_send w op \<Rightarrow> p + 50 < length kvs \<and> (\<exists>hm. w = For_partial_save hm
             \<and> unat hm = next_batch (length kvs - p) \<and> op = Put_keyval lo (take (unat hm) (drop p kvs)))
         | Ext_success \<Rightarrow> length (x_ext_objects x) \<le> p
         | Ext_failed \<Rightarrow> True
         | Ext_silent \<Rightarrow> False))"

definition save_ready :: "S3ObjectExtendedMetadata \<Rightarrow> bool" where
  "save_ready x \<longleftrightarrow> length (x_key_values x) < 2 ^ 32 \<and> keys_nonempty (x_key_values x)
     \<and> length (x_ext_objects x) \<le> length (x_key_values x)"

lemma put_all_append: "put_all (xs @ ys) m = put_all ys (put_all xs m)"
  by (simp add: put_all_def)

lemma partial_progress_done:
  assumes inv: "partial_progress st0 st x (Ext_send w op)" and rdy: "save_ready x"
  shows "\<exists>x' out. ext_deliver env w (kvs_answer op st) x = Some (x', out)
     \<and> partial_progress st0 (kvs_effect op st) x' out \<and> save_ready x'
     \<and> x_key_values x' = x_key_values x \<and> x_ext_objects x' = x_ext_objects x
     \<and> x_extended_list_index_layout x' = x_extended_list_index_layout x
     \<and> unat (x_total_processed_count x) + 50 \<le> unat (x_total_processed_count x') \<and> out \<noteq> Ext_failed"
proof -
  define p where "p = unat (x_total_processed_count x)"
  define n where "n = length (x_key_values x)"
  define lo where "lo = x_extended_list_index_layout x"
  from inv obtain hm where w: "w = For_partial_save hm" and left: "p + 50 < n" and hm: "unat hm = next_batch (n - p)"
    and op: "op = Put_keyval lo (take (unat hm) (drop p (x_key_values x)))"
    and st: "st = st0(oid lo := put_all (take p (x_key_values x)) (st0 (oid lo)))"
    by (auto simp: partial_progress_def Let_def p_def n_def lo_def)
  define y where "y = x\<lparr>x_total_processed_count := x_total_processed_count x + hm\<rparr>"
  have hmn: "50 \<le> unat hm" "p + unat hm \<le> n" using hm left by (auto simp: next_batch_def)
  have nb: "n < 2 ^ 32" using rdy by (simp add: save_ready_def n_def)
  have py: "unat (x_total_processed_count y) = p + unat hm"
    using hmn nb unfolding y_def p_def by (simp add: unat_word_ariths)
  have eff: "kvs_effect op st = st0(oid lo := put_all (take (p + unat hm) (x_key_values x)) (st0 (oid lo)))"
    by (simp add: op st take_add put_all_append)
  have del: "ext_deliver env w (kvs_answer op st) x = save_partial_extended_metadata_successful env hm x"
    by (simp add: w op)
  show ?thesis
  proof (cases "p + unat hm < length (x_ext_objects x)")
    case False
    then show ?thesis
      using py hmn eff rdy unfolding del save_partial_extended_metadata_successful_def
      by (intro exI [of _ y] exI [of _ Ext_success])
         (auto simp: Let_def partial_progress_def p_def n_def lo_def y_def save_ready_def)
  next
    case True
    define z where "z = (if xe_client_awaits_body env then y\<lparr>x_spaces_sent := Suc (x_spaces_sent y)\<rparr> else y)"
    have z: "x_key_values z = x_key_values x" "x_ext_objects z = x_ext_objects x" "x_extended_list_index_layout z = lo"
      "unat (x_total_processed_count z) = p + unat hm"
      using py by (auto simp: z_def y_def lo_def)
    from True rdy have "p + unat hm < n" by (simp add: save_ready_def n_def)
    with hm have left': "p + unat hm + 50 < n" by (auto simp: next_batch_def split: if_splits)
    obtain hm' where send: "save_partial_extended_metadata z = Some (z, Ext_send (For_partial_save hm')
        (Put_keyval lo (take (unat hm') (drop (p + unat hm) (x_key_values x)))))"
      and "unat hm' = next_batch (n - (p + unat hm))"
      using partial_save_sends [of z] left' rdy z by (auto simp: save_ready_def n_def)
    moreover have "ext_deliver env w (kvs_answer op st) x = save_partial_extended_metadata z"
      using True py unfolding del save_partial_extended_metadata_successful_def z_def y_def by (simp add: Let_def)
    ultimately show ?thesis
      using z left' eff rdy hmn
      by (intro exI [of _ z] exI) (auto simp: partial_progress_def Let_def p_def n_def lo_def save_ready_def)
  qed
qed

lemma partial_progress_failure:
  assumes "partial_progress st0 st x (Ext_send w op)" "kvs_failure op r"
  shows "ext_deliver env w r x = Some (x, Ext_failed) \<and> partial_progress st0 st x Ext_failed"
  using assms by (cases r) (auto simp: partial_progress_def Let_def)

text \<open>The replies of a run: each failure is one the store may answer with.\<close>

definition possible_faults :: "kvs_result option list \<Rightarrow> bool" where
  "possible_faults fs \<longleftrightarrow> (\<forall>r. Some r \<in> set fs \<longrightarrow> r = Write_error W_failed \<or> r = Write_error W_failed_to_launch)"

lemma ext_run_stops [simp]: "(\<And>w op. out \<noteq> Ext_send w op) \<Longrightarrow> ext_run env fs st x out = Some (st, x, out)"
  by (cases out; cases fs) auto

lemma partial_progress_run:
  assumes "partial_progress st0 st x out" "save_ready x" "possible_faults fs"
  shows "\<exists>st' x' out'. ext_run env fs st x out = Some (st', x', out') \<and> partial_progress st0 st' x' out'
     \<and> x_key_values x' = x_key_values x \<and> x_ext_objects x' = x_ext_objects x
     \<and> x_extended_list_index_layout x' = x_extended_list_index_layout x
     \<and> (length (x_key_values x) \<le> unat (x_total_processed_count x) + 50 * length fs \<longrightarrow> (\<forall>w op. out' \<noteq> Ext_send w op))
     \<and> (out \<noteq> Ext_failed \<and> set fs \<subseteq> {None} \<longrightarrow> out' \<noteq> Ext_failed)"
  using assms
proof (induction fs arbitrary: st x out)
  case Nil
  then show ?case by (cases out) (auto simp: partial_progress_def Let_def)
next
  case (Cons f fs)
  show ?case
  proof (cases out)
    case (Ext_send w op)
    note inv = Cons.prems(1) [unfolded Ext_send]
    show ?thesis
    proof (cases f)
      case None
      obtain x1 o1 where step: "ext_deliver env w (kvs_answer op st) x = Some (x1, o1)"
        and inv1: "partial_progress st0 (kvs_effect op st) x1 o1" "save_ready x1"
        and same: "x_key_values x1 = x_key_values x" "x_ext_objects x1 = x_ext_objects x"
          "x_extended_list_index_layout x1 = x_extended_list_index_layout x"
        and more: "unat (x_total_processed_count x) + 50 \<le> unat (x_total_processed_count x1)" "o1 \<noteq> Ext_failed"
        using partial_progress_done [OF inv Cons.prems(2)] by blast
      have "possible_faults fs" using Cons.prems(3) by (simp add: possible_faults_def)
      from Cons.IH [OF inv1 this] obtain st' x' out' where
        run: "ext_run env fs (kvs_effect op st) x1 o1 = Some (st', x', out')" "partial_progress st0 st' x' out'"
        "x_key_values x' = x_key_values x1" "x_ext_objects x' = x_ext_objects x1"
        "x_extended_list_index_layout x' = x_extended_list_index_layout x1"
        "length (x_key_values x1) \<le> unat (x_total_processed_count x1) + 50 * length fs \<longrightarrow> (\<forall>w op. out' \<noteq> Ext_send w op)"
        "o1 \<noteq> Ext_failed \<and> set fs \<subseteq> {None} \<longrightarrow> out' \<noteq> Ext_failed"
        by blast
      then show ?thesis using step same more by (intro exI [of _ st'] exI [of _ x'] exI [of _ out']) (auto simp: Ext_send None)
    next
      case (Some r)
      have r: "kvs_failure op r"
        using Cons.prems(3) inv by (auto simp: possible_faults_def Some partial_progress_def Let_def)
      from partial_progress_failure [OF inv r] show ?thesis by (auto simp: Ext_send Some)
    qed
  qed (use Cons.prems in auto)
qed

text \<open>An object about to be saved for the first time, with more than 50 entries.\<close>

definition large_save :: "S3ObjectExtendedMetadata \<Rightarrow> bool" where
  "large_save x \<longleftrightarrow> ext_shape (x_ext_objects x) \<and> x_object_name x \<noteq> []
     \<and> 50 < length (all_frags (x_ext_objects x)) \<and> length (all_frags (x_ext_objects x)) < 2 ^ 32
     \<and> x_total_processed_count x = 0 \<and> non_zero (oid (x_extended_list_index_layout x))"

lemma large_save_starts:
  assumes "large_save x"
  obtains x0 hm where "x0 = x\<lparr>x_key_values := get_kv_list_of_extended_entries (xe_lib env) x\<rparr>"
    and "ext_save env x = Some (x0, Ext_send (For_partial_save hm)
           (Put_keyval (x_extended_list_index_layout x) (take (unat hm) (x_key_values x0))))"
    and "unat hm = next_batch (length (all_frags (x_ext_objects x)))"
    and "save_ready x0" "length (x_key_values x0) = length (all_frags (x_ext_objects x))"
    and "partial_progress st st x0 (Ext_send (For_partial_save hm)
           (Put_keyval (x_extended_list_index_layout x) (take (unat hm) (x_key_values x0))))"
proof -
  define x0 where "x0 = x\<lparr>x_key_values := get_kv_list_of_extended_entries (xe_lib env) x\<rparr>"
  have shape: "ext_shape (x_ext_objects x)" using assms by (simp add: large_save_def)
  have len: "length (x_key_values x0) = length (all_frags (x_ext_objects x))"
    using kv_list_length [OF shape] by (simp add: x0_def)
  have rdy: "save_ready x0"
    using assms len shape_parts_le_frags [OF shape] kv_list_nonempty_keys [of x "xe_lib env"]
    by (simp add: save_ready_def x0_def large_save_def)
  have left: "unat (x_total_processed_count x0) + 50 < length (x_key_values x0)"
    and zero: "x_total_processed_count x0 = 0"
    using assms len by (simp_all add: large_save_def x0_def)
  obtain hm where hm: "save_partial_extended_metadata x0 = Some (x0, Ext_send (For_partial_save hm)
       (Put_keyval (x_extended_list_index_layout x) (take (unat hm) (x_key_values x0))))"
    "unat hm = next_batch (length (x_key_values x0))"
    using partial_save_sends [OF _ _ left] rdy zero by (auto simp: save_ready_def x0_def)
  have "ext_save env x = save_partial_extended_metadata x0"
    using assms len by (auto simp: ext_save_def large_save_def x0_def Let_def)
  with hm len rdy left zero show ?thesis
    by (intro that [of x0 hm]) (auto simp: x0_def partial_progress_def Let_def put_all_def)
qed

text \<open>C31: Saving more than 50 entries never fails an assertion and never sends a batch of less
  than 50 or more than 100 entries, although the batch size is computed with unsigned
  subtractions.  Whatever the store answers, the index holds the first
  \<open>total_processed_count\<close> entries in key order and nothing else changed; the save ends after
  at most one reply per 50 entries, and it reports success only when as many entries as there
  are parts have been written: all of them, when no part has more than one fragment.\<close>

theorem partial_save_batches_bounded:
  fixes env :: ext_env and x :: S3ObjectExtendedMetadata and st :: kvs_indices
  assumes "large_save x" "possible_faults fs"
  defines "kvs \<equiv> get_kv_list_of_extended_entries (xe_lib env) x" and "lo \<equiv> x_extended_list_index_layout x"
  shows "\<exists>x0 out0 st' x' out'. ext_save env x = Some (x0, out0) \<and> ext_run env fs st x0 out0 = Some (st', x', out')
    \<and> (\<forall>w op. out' = Ext_send w op \<longrightarrow> (\<exists>batch. op = Put_keyval lo batch \<and> 50 \<le> length batch \<and> length batch \<le> 100))
    \<and> st' = st(oid lo := put_all (take (unat (x_total_processed_count x')) kvs) (st (oid lo)))
    \<and> (length kvs \<le> 50 * length fs \<longrightarrow> (\<forall>w op. out' \<noteq> Ext_send w op))
    \<and> (out' = Ext_success \<longrightarrow> length (x_ext_objects x) \<le> unat (x_total_processed_count x')
         \<and> (length (x_ext_objects x) = length kvs \<longrightarrow> st' = st(oid lo := put_all kvs (st (oid lo)))))"
proof -
  obtain x0 hm where x0: "x0 = x\<lparr>x_key_values := kvs\<rparr>"
    and save: "ext_save env x = Some (x0, Ext_send (For_partial_save hm) (Put_keyval lo (take (unat hm) (x_key_values x0))))"
    and rdy: "save_ready x0"
    and inv: "partial_progress st st x0 (Ext_send (For_partial_save hm) (Put_keyval lo (take (unat hm) (x_key_values x0))))"
    using large_save_starts [OF assms(1), of env st] unfolding kvs_def lo_def by metis
  obtain st' x' out' where run: "ext_run env fs st x0 (Ext_send (For_partial_save hm)
       (Put_keyval lo (take (unat hm) (x_key_values x0)))) = Some (st', x', out')"
    and inv': "partial_progress st st' x' out'"
    and same: "x_key_values x' = kvs" "x_ext_objects x' = x_ext_objects x" "x_extended_list_index_layout x' = lo"
    and stop: "length kvs \<le> 50 * length fs \<longrightarrow> (\<forall>w op. out' \<noteq> Ext_send w op)"
    using partial_progress_run [OF inv rdy assms(2), of env] assms(1) by (auto simp: x0 large_save_def lo_def)
  define p where "p = unat (x_total_processed_count x')"
  have p: "p \<le> length kvs" "st' = st(oid lo := put_all (take p kvs) (st (oid lo)))"
    and success: "out' = Ext_success \<longrightarrow> length (x_ext_objects x) \<le> p"
    using inv' same by (auto simp: partial_progress_def Let_def p_def)
  have batch: "\<forall>w op. out' = Ext_send w op \<longrightarrow> (\<exists>batch. op = Put_keyval lo batch \<and> 50 \<le> length batch \<and> length batch \<le> 100)"
    using inv' same by (auto simp: partial_progress_def Let_def next_batch_def; linarith)
  show ?thesis
    by (rule exI [of _ x0], rule exI, rule exI [of _ st'], rule exI [of _ x'], rule exI [of _ out'])
       (use save run batch p success stop in \<open>auto simp flip: p_def\<close>)
qed

text \<open>C32: An object whose fragments outnumber its parts loses entries: with at most 50 parts and
  more than 100 fragments, the first batch of 50 entries ends the save with success, since
  \<open>total_processed_count\<close> is compared with the number of parts.\<close>

theorem fragmented_save_loses_entries:
  fixes env :: ext_env and x :: S3ObjectExtendedMetadata and st :: kvs_indices
  assumes "large_save x" "length (x_ext_objects x) \<le> 50" "100 < length (all_frags (x_ext_objects x))"
  defines "kvs \<equiv> get_kv_list_of_extended_entries (xe_lib env) x" and "lo \<equiv> x_extended_list_index_layout x"
  shows "\<exists>x0 out0 x'. ext_save env x = Some (x0, out0)
    \<and> ext_run env [None] st x0 out0 = Some (st(oid lo := put_all (take 50 kvs) (st (oid lo))), x', Ext_success)"
proof -
  obtain x0 hm where x0: "x0 = x\<lparr>x_key_values := kvs\<rparr>"
    and save: "ext_save env x = Some (x0, Ext_send (For_partial_save hm) (Put_keyval lo (take (unat hm) (x_key_values x0))))"
    and hm: "unat hm = next_batch (length (all_frags (x_ext_objects x)))"
    using large_save_starts [OF assms(1), of env st] unfolding kvs_def lo_def by metis
  have hm50: "unat hm = 50" using hm assms(3) by (simp add: next_batch_def)
  have zero: "x_total_processed_count x = 0" using assms(1) by (simp add: large_save_def)
  show ?thesis
    using save assms(2) zero
    by (simp add: x0 hm50 save_partial_extended_metadata_successful_def Let_def)
qed

end
