(* ===== verification/Ext_Reload.thy ===== *)
theory Ext_Reload
  imports Ext_Metadata "HOL-Library.Multiset"
begin

text \<open>
  The extended metadata of an object read back page by page: the listing of the index from
  the prefix of the object gives its entries first, in key order, and reading them rebuilds
  the parts and their fragments.
\<close>

section \<open>The order of keys\<close>

lemma append_less_iff [simp]: "(xs @ ys :: string) < xs @ zs \<longleftrightarrow> ys < zs"
  by (induction xs) auto

lemma less_prefix_interval: "(p :: string) < a \<Longrightarrow> a < p @ s \<Longrightarrow> \<exists>t. a = p @ t"
proof (induction p arbitrary: a)
  case (Cons c p)
  then obtain d a' where a: "a = d # a'" by (cases a) auto
  with Cons.prems have "c = d" by (auto dest: less_trans)
  with Cons a show ?case by auto
qed simp

lemma single_digit_less:
  assumes "f < f'" "f' \<le> 9"
  shows "to_dec f < to_dec f'"
  using assms length_to_dec [of f 0] length_to_dec [of f' 0] by (intro to_dec_less) auto

lemma extended_key_less:
  assumes "f < f'" "f' \<le> 9"
  shows "extended_key nm vid p f m < extended_key nm vid p f' m"
  using single_digit_less [OF assms] by (simp add: extended_key_def)

lemma frag_entries_key_bound:
  assumes "\<forall>fr \<in> set frs. fr_is_multipart fr = m" "e \<in> set (frag_entries nm vid p f frs)"
  shows "\<exists>f' \<ge> f. f' < f + length frs \<and> fst e = extended_key nm vid p f' m"
  using assms
proof (induction frs arbitrary: f)
  case (Cons fr frs)
  then consider "e = (extended_key nm vid p f m, fr)" | "e \<in> set (frag_entries nm vid p (Suc f) frs)" by auto
  then show ?case
  proof cases
    case 2
    from Cons.IH [OF _ this] Cons.prems(1) obtain f' where
      "f' \<ge> Suc f" "f' < Suc f + length frs" "fst e = extended_key nm vid p f' m" by auto
    then show ?thesis by (intro exI [of _ f']) auto
  qed auto
qed simp

lemma frag_entries_ordered:
  assumes "\<forall>fr \<in> set frs. fr_is_multipart fr = m" "f + length frs \<le> 10"
  shows "map_wf (frag_entries nm vid p f frs)"
  using assms
proof (induction frs arbitrary: f)
  case (Cons fr frs)
  have "extended_key nm vid p f m < fst e" if e: "e \<in> set (frag_entries nm vid p (Suc f) frs)" for e
  proof -
    have "\<forall>fr \<in> set frs. fr_is_multipart fr = m" using Cons.prems(1) by simp
    from frag_entries_key_bound [OF this e] obtain f' where
      "f < f'" "f' < Suc f + length frs" "fst e = extended_key nm vid p f' m" by (auto simp: Suc_le_eq)
    moreover from this(2) Cons.prems(2) have "f' \<le> 9" by simp
    ultimately show ?thesis using extended_key_less by simp
  qed
  moreover have "map_wf (frag_entries nm vid p (Suc f) frs)" using Cons.prems by (intro Cons.IH) auto
  ultimately show ?case using Cons.prems(1) by (simp add: map_wf_Cons)
qed simp

section \<open>Entries with the position of their part\<close>

fun tag_parts ::
  "string \<Rightarrow> string \<Rightarrow> nat \<Rightarrow> (int, s3_part_frag_context list) std_map \<Rightarrow> (string \<times> nat \<times> s3_part_frag_context) list" where
  "tag_parts nm vid p [] = []"
| "tag_parts nm vid p ((q, frs) # objs) =
     map (\<lambda>(k, fr). (k, p, fr)) (frag_entries nm vid p 1 frs) @ tag_parts nm vid (Suc p) objs"

lemma part_entries_tag: "part_entries nm vid p objs = map (\<lambda>(k, v). (k, snd v)) (tag_parts nm vid p objs)"
proof (induction objs arbitrary: p)
  case (Cons e objs)
  obtain q frs where e: "e = (q, frs)" by (cases e)
  have "map (\<lambda>(k, v). (k, snd v)) (map (\<lambda>(k, fr). (k, p, fr)) es) = es" for es :: "(string \<times> s3_part_frag_context) list"
    by (induction es) auto
  with Cons show ?case by (simp add: e)
qed simp

lemma tag_parts_keys: "map fst (tag_parts nm vid p objs) = map fst (part_entries nm vid p objs)"
  by (simp add: part_entries_tag case_prod_beta comp_def)

lemma by_key_values: "by_key (map (\<lambda>(k, v). (k, f v)) es) = map (\<lambda>(k, v). (k, f v)) (by_key es)"
proof -
  have "fold (\<lambda>(k, v). map_put k v) (map (\<lambda>(k, v). (k, f v)) es) m = fold (\<lambda>(k, v). map_put k (f v)) es m" for m
    by (induction es arbitrary: m) auto
  then show ?thesis using fold_put_values [of f es "[]"] by (simp add: by_key_def)
qed

text \<open>The entries of the part at position \<open>i\<close>.\<close>

lemma tag_parts_of_part:
  "(k, i, fr) \<in> set (tag_parts nm vid p objs) \<longleftrightarrow>
     p \<le> i \<and> i < p + length objs \<and> (k, fr) \<in> set (frag_entries nm vid i 1 (snd (objs ! (i - p))))"
proof (induction objs arbitrary: p)
  case (Cons e objs)
  obtain q frs where e: "e = (q, frs)" by (cases e)
  show ?case
  proof (cases "i = p")
    case True
    then show ?thesis using Cons [of "Suc p"] by (auto simp: e)
  next
    case False
    then have nth: "Suc p \<le> i \<Longrightarrow> (e # objs) ! (i - p) = objs ! (i - Suc p)"
      by (metis Suc_diff_le diff_Suc_Suc nth_Cons_Suc)
    from False show ?thesis using Cons [of "Suc p"] nth by (auto simp: e)
  qed
qed simp

lemma part_in_key_order:
  assumes shape: "ext_shape objs" and m: "\<forall>fr \<in> set (all_frags objs). fr_is_multipart fr = m"
    and few: "\<forall>e \<in> set objs. length (snd e) \<le> 9" and i: "p \<le> i" "i < p + length objs"
  shows "filter (\<lambda>e. fst (snd e) = i) (by_key (tag_parts nm vid p objs)) =
     map (\<lambda>(k, fr). (k, i, fr)) (frag_entries nm vid i 1 (snd (objs ! (i - p))))"
    (is "?l = ?r")
proof -
  let ?frs = "snd (objs ! (i - p))"
  have mem: "objs ! (i - p) \<in> set objs" using i by simp
  then have "set ?frs \<subseteq> set (all_frags objs)" by (force simp: all_frags_def)
  with m few mem have "map_wf (frag_entries nm vid i 1 ?frs)" by (intro frag_entries_ordered [of _ m]) auto
  then have wr: "map_wf ?r" by (simp add: map_wf_def case_prod_beta comp_def)
  have wl: "map_wf ?l"
    using by_key_wf [of "tag_parts nm vid p objs"] by (auto simp: map_wf_def sorted_wrt_map intro: sorted_wrt_filter)
  have dist: "distinct (map fst (tag_parts nm vid p objs))"
    using part_entries_distinct [OF shape] by (simp add: tag_parts_keys)
  have "set ?l = set ?r"
    using tag_parts_of_part [of _ i _ nm vid p objs] i by (auto simp: by_key_set [OF dist])
  then have "map_of ?l = map_of ?r"
    using map_of_inject_set [OF map_wf_distinct [OF wl] map_wf_distinct [OF wr]] by blast
  then show ?thesis using map_get_inject [OF wl wr] unfolding map_get_map_of by blast
qed

section \<open>Reading an entry\<close>

definition part_key :: "bool \<Rightarrow> nat \<Rightarrow> int" where
  "part_key m p = (if m then int p else 0)"

definition read_back :: "string \<Rightarrow> nat \<Rightarrow> s3_part_frag_context \<Rightarrow> s3_part_frag_context" where
  "read_back vid p fr = fr\<lparr>fr_versionID := vid, fr_part_number := (if fr_is_multipart fr then of_nat p else 0)\<rparr>"

definition push_frag ::
  "int \<Rightarrow> s3_part_frag_context \<Rightarrow> (int, s3_part_frag_context list) std_map \<Rightarrow> (int, s3_part_frag_context list) std_map" where
  "push_frag q fr objs = (let (objs', frags) = map_index [] objs q in map_put q (frags @ [fr]) objs')"

fun read_entry :: "string \<Rightarrow> bool \<Rightarrow> string \<times> nat \<times> s3_part_frag_context \<Rightarrow> S3ObjectExtendedMetadata \<Rightarrow> S3ObjectExtendedMetadata" where
  "read_entry vid m (k, p, fr) x =
     x\<lparr>x_last_object := k, x_total_size := x_total_size x + fr_item_size fr,
       x_ext_objects := push_frag (part_key m p) (read_back vid p fr) (x_ext_objects x),
       x_parts := (if m then of_nat p else x_parts x)\<rparr>"

text \<open>The library reads the documents of the entries back.\<close>

definition reads_frags :: "jsoncpp \<Rightarrow> s3_part_frag_context set \<Rightarrow> bool" where
  "reads_frags lib F \<longleftrightarrow> jsoncpp_reads_numbers lib \<and> (\<forall>fr \<in> F. jsoncpp_reads_back lib (JObj (frag_doc fr)))"

lemma frag_doc_wf [simp]: "map_wf (frag_doc fr)"
  by (simp add: frag_doc_def map_wf_Cons)

lemma frag_doc_fields:
  "map_get (frag_doc fr) ''OID'' = Some (JStr (uint128_to_string (fr_motr_OID fr)))"
  "map_get (frag_doc fr) ''PVID'' = Some (JStr (fid_to_string (fr_PVID fr)))"
  "map_get (frag_doc fr) ''size'' = Some (JInt (uint (fr_item_size fr)))"
  "map_get (frag_doc fr) ''layout-id'' = Some (JInt (uint (fr_layout_id fr)))"
  by (simp_all add: frag_doc_def map_get_def)

lemma frag_doc_strings:
  assumes "jsoncpp_reads_back lib (JObj (frag_doc fr))"
  shows "json_string lib (JObj (frag_doc fr)) ''OID'' = Some (uint128_to_string (fr_motr_OID fr))"
    and "json_string lib (JObj (frag_doc fr)) ''PVID'' = Some (fid_to_string (fr_PVID fr))"
  using assms by (simp_all add: json_string_get [OF frag_doc_fields(1)] json_string_get [OF frag_doc_fields(2)] jsoncpp_reads_back_def)

lemma frag_doc_numbers:
  assumes "jsoncpp_reads_numbers lib" "unat (fr_layout_id fr) < 2 ^ 31"
  shows "json_int (asUInt64 lib) (JObj (frag_doc fr)) ''size'' = Some (uint (fr_item_size fr))"
    and "json_int (asInt lib) (JObj (frag_doc fr)) ''layout-id'' = Some (uint (fr_layout_id fr))"
proof -
  have "int (unat (fr_layout_id fr)) < int (2 ^ 31)" using assms(2) by (rule of_nat_less_iff [THEN iffD2])
  then have "uint (fr_layout_id fr) < 2 ^ 31" by simp
  moreover have "- (2 ^ 31) \<le> uint (fr_layout_id fr)" by (rule order_trans [OF _ uint_ge_0]) simp
  ultimately show "json_int (asUInt64 lib) (JObj (frag_doc fr)) ''size'' = Some (uint (fr_item_size fr))"
    and "json_int (asInt lib) (JObj (frag_doc fr)) ''layout-id'' = Some (uint (fr_layout_id fr))"
    using assms(1) uint_lt2p [of "fr_item_size fr"]
    by (simp_all add: json_int_get [OF frag_doc_fields(3)] json_int_get [OF frag_doc_fields(4)] jsoncpp_reads_numbers_def)
qed

lemma ext_from_json_entry:
  assumes lib: "reads_frags (xe_lib env) F" "fr \<in> F" and fi: "\<not> xe_object_metadata_corrupted env"
    and nm: "x_object_name x \<noteq> []" and vid: "CHR ''|'' \<notin> set vid"
    and fr: "fr_is_multipart fr = m" "unat (fr_layout_id fr) < 2 ^ 31" and p: "p < 2 ^ 31"
  shows "ext_from_json env (extended_key (x_object_name x) vid p f m) (get_json_str (xe_lib env) fr) x
     = Some (x\<lparr>x_total_size := x_total_size x + fr_item_size fr,
              x_ext_objects := push_frag (part_key m p) (read_back vid p fr) (x_ext_objects x),
              x_parts := (if m then of_nat p else x_parts x)\<rparr>, 0)"
proof -
  let ?lib = "xe_lib env" and ?root = "JObj (frag_doc fr)"
  have rb: "jsoncpp_reads_back ?lib ?root" and num: "jsoncpp_reads_numbers ?lib"
    using lib by (auto simp: reads_frags_def)
  have parse: "reader_parse ?lib (c_str (get_json_str ?lib fr)) = Some ?root"
    using rb by (simp add: jsoncpp_reads_back_def get_json_str_def)
  have len: "\<not> length (extended_key (x_object_name x) vid p f m) < length (x_object_name x) + 1"
    by (simp add: extended_key_def)
  note toks = tokens_of_key [OF vid, of "x_object_name x" p f m]
  note vals = frag_doc_strings [OF rb] frag_doc_numbers [OF num fr(2)]
  have noP: "CHR ''P'' \<notin> set (CHR ''F'' # to_dec f)" by simp
  show ?thesis
  proof (cases m)
    case True
    have item: "\<lparr>fr_motr_OID = fr_motr_OID fr, fr_PVID = fr_PVID fr, fr_versionID = vid,
         fr_item_size = fr_item_size fr, fr_layout_id = fr_layout_id fr, fr_part_number = of_nat p, fr_is_multipart = True\<rparr>
       = read_back vid p fr"
      using fr(1) True by (simp add: read_back_def)
    show ?thesis
      using True fi nm len toks item stoi_to_dec [OF p] c_atoi_to_dec [OF p]
      by (simp add: ext_from_json_def parse vals add_read_entry_def push_frag_def part_key_def case_prod_beta Let_def)
  next
    case False
    have item: "\<lparr>fr_motr_OID = fr_motr_OID fr, fr_PVID = fr_PVID fr, fr_versionID = vid,
         fr_item_size = fr_item_size fr, fr_layout_id = fr_layout_id fr, fr_part_number = 0, fr_is_multipart = False\<rparr>
       = read_back vid p fr"
      using fr(1) False by (simp add: read_back_def)
    show ?thesis
      using False fi nm len toks item noP
      by (simp add: ext_from_json_def parse vals add_read_entry_def push_frag_def part_key_def case_prod_beta Let_def)
  qed
qed

section \<open>Reading a list of entries\<close>

definition entry_ok ::
  "jsoncpp \<Rightarrow> string \<Rightarrow> string \<Rightarrow> bool \<Rightarrow> string \<times> nat \<times> s3_part_frag_context \<Rightarrow> bool" where
  "entry_ok lib nm vid m e \<longleftrightarrow> (case e of (k, p, fr) \<Rightarrow>
     (\<exists>f. k = extended_key nm vid p f m) \<and> reads_frags lib {fr} \<and> fr_is_multipart fr = m
     \<and> unat (fr_layout_id fr) < 2 ^ 31 \<and> p < 2 ^ 31)"

definition reader_of :: "ext_env \<Rightarrow> string \<Rightarrow> string \<Rightarrow> S3ObjectExtendedMetadata \<Rightarrow> bool" where
  "reader_of env nm vid x \<longleftrightarrow> nm \<noteq> [] \<and> CHR ''|'' \<notin> set vid \<and> \<not> xe_object_metadata_corrupted env
     \<and> x_object_name x = nm \<and> x_prefix_of_unique_object x = nm @ ''|'' @ vid"

definition stored :: "jsoncpp \<Rightarrow> (string \<times> nat \<times> s3_part_frag_context) list \<Rightarrow> (string, string) std_map" where
  "stored lib L = map (\<lambda>(k, v). (k, get_json_str lib (snd v))) L"

lemma stored_append: "stored lib (L @ M) = stored lib L @ stored lib M"
  by (simp add: stored_def)

lemma stored_length [simp]: "length (stored lib L) = length L"
  by (simp add: stored_def)

lemma stored_keys: "map fst (stored lib L) = map fst L"
  by (simp add: stored_def case_prod_beta comp_def)

definition starts_with :: "string \<Rightarrow> string \<Rightarrow> bool" where
  "starts_with pre k \<longleftrightarrow> take (length pre) k = pre"

lemma starts_with_append [simp]: "starts_with pre (pre @ s)"
  by (simp add: starts_with_def)

lemma starts_withE: "starts_with pre k \<Longrightarrow> \<exists>t. k = pre @ t"
  by (metis append_take_drop_id starts_with_def)

lemma extended_key_prefix: "\<exists>t. extended_key nm vid p f m = (nm @ ''|'' @ vid) @ t"
  by (simp add: extended_key_def)

lemma read_entry_frame [simp]:
  "x_object_name (read_entry vid m e x) = x_object_name x"
  "x_prefix_of_unique_object (read_entry vid m e x) = x_prefix_of_unique_object x"
  "x_extended_list_index_layout (read_entry vid m e x) = x_extended_list_index_layout x"
  "x_fragments (read_entry vid m e x) = x_fragments x"
  "x_fragments_read (read_entry vid m e x) = x_fragments_read x"
  "x_last_object (read_entry vid m e x) = fst e"
  by (cases e; simp)+

lemma reader_of_entry [simp]: "reader_of env nm vid (read_entry vid m e x) = reader_of env nm vid x"
  by (simp add: reader_of_def)

lemma read_entries_step:
  assumes "reader_of env nm vid x" "entry_ok (xe_lib env) nm vid m e"
  shows "read_entries env (stored (xe_lib env) (e # L) @ R) x = read_entries env (stored (xe_lib env) L @ R) (read_entry vid m e x)"
proof -
  obtain k p fr where e: "e = (k, p, fr)" by (cases e)
  from assms(2) obtain f where k: "k = extended_key nm vid p f m" and lib: "reads_frags (xe_lib env) {fr}"
    and fr: "fr_is_multipart fr = m" "unat (fr_layout_id fr) < 2 ^ 31" and p: "p < 2 ^ 31"
    by (auto simp: entry_ok_def e)
  let ?x = "x\<lparr>x_last_object := k\<rparr>"
  have x: "x_object_name ?x = nm" "nm \<noteq> []" "CHR ''|'' \<notin> set vid" "\<not> xe_object_metadata_corrupted env"
    "x_prefix_of_unique_object ?x = nm @ ''|'' @ vid"
    using assms(1) by (auto simp: reader_of_def)
  obtain t where "k = (nm @ ''|'' @ vid) @ t" using extended_key_prefix k by blast
  then have "take (length (nm @ ''|'' @ vid)) k = nm @ ''|'' @ vid" by simp
  then have pre: "take (length (x_prefix_of_unique_object ?x)) k = x_prefix_of_unique_object ?x" unfolding x(5) .
  have json: "ext_from_json env k (get_json_str (xe_lib env) fr) ?x = Some (read_entry vid m e x, 0)"
    using ext_from_json_entry [OF lib _ x(4), of fr ?x vid m p f] x k fr p by (simp add: e)
  have "stored (xe_lib env) (e # L) @ R = (k, get_json_str (xe_lib env) fr) # stored (xe_lib env) L @ R"
    by (simp add: stored_def e)
  then show ?thesis using pre json by (simp add: Let_def)
qed

lemma read_entries_all:
  assumes "reader_of env nm vid x" "\<forall>e \<in> set L. entry_ok (xe_lib env) nm vid m e"
  shows "read_entries env (stored (xe_lib env) L @ R) x = read_entries env R (fold (read_entry vid m) L x)"
  using assms
proof (induction L arbitrary: x)
  case Nil
  then show ?case by (simp add: stored_def)
next
  case (Cons e L)
  then show ?case using read_entries_step [of env nm vid x m e L R] by simp
qed

lemma read_entries_foreign:
  assumes "reader_of env nm vid x" "\<forall>e \<in> set R. \<not> starts_with (nm @ ''|'' @ vid) (fst e)"
  shows "read_entries env R x = Some (if R = [] then x else x\<lparr>x_last_object := fst (hd R)\<rparr>, False, R \<noteq> [])"
  using assms by (cases R) (auto simp: reader_of_def starts_with_def)

lemma fold_read_frame [simp]:
  "x_object_name (fold (read_entry vid m) L x) = x_object_name x"
  "x_prefix_of_unique_object (fold (read_entry vid m) L x) = x_prefix_of_unique_object x"
  "x_extended_list_index_layout (fold (read_entry vid m) L x) = x_extended_list_index_layout x"
  "x_fragments (fold (read_entry vid m) L x) = x_fragments x"
  "x_fragments_read (fold (read_entry vid m) L x) = x_fragments_read x"
  by (induction L arbitrary: x; simp)+

lemma fold_read_last: "L \<noteq> [] \<Longrightarrow> x_last_object (fold (read_entry vid m) L x) = fst (last L)"
  by (induction L arbitrary: x) auto

lemma fold_read_size:
  "x_total_size (fold (read_entry vid m) L x) = x_total_size x + sum_list (map (\<lambda>e. fr_item_size (snd (snd e))) L)"
proof (induction L arbitrary: x)
  case (Cons e L)
  then show ?case by (cases e) (simp add: add.assoc)
qed simp

lemma push_frag_wf [simp]: "map_wf objs \<Longrightarrow> map_wf (push_frag q fr objs)"
  using map_index_wf [of objs "[]" q] by (simp add: push_frag_def case_prod_beta Let_def)

lemma push_frag_get:
  "map_wf objs \<Longrightarrow> map_get (push_frag q fr objs) =
     (map_get objs)(q \<mapsto> (case map_get objs q of None \<Rightarrow> [] | Some frs \<Rightarrow> frs) @ [fr])"
  by (auto simp: push_frag_def map_index_def fun_eq_iff split: option.split)

definition frags_at :: "string \<Rightarrow> bool \<Rightarrow> int \<Rightarrow> (string \<times> nat \<times> s3_part_frag_context) list \<Rightarrow> s3_part_frag_context list" where
  "frags_at vid m q L = map (\<lambda>e. read_back vid (fst (snd e)) (snd (snd e))) (filter (\<lambda>e. part_key m (fst (snd e)) = q) L)"

lemma fold_read_objects:
  assumes "map_wf (x_ext_objects x)"
  shows "map_wf (x_ext_objects (fold (read_entry vid m) L x))"
    and "map_get (x_ext_objects (fold (read_entry vid m) L x)) q =
      (case map_get (x_ext_objects x) q of
         None \<Rightarrow> if frags_at vid m q L = [] then None else Some (frags_at vid m q L)
       | Some frs \<Rightarrow> Some (frs @ frags_at vid m q L))"
  using assms
proof (induction L arbitrary: x)
  case Nil
  { case 1 then show ?case by simp
  next
    case 2 then show ?case by (simp add: frags_at_def split: option.split) }
next
  case (Cons e L)
  obtain k p fr where e: "e = (k, p, fr)" by (cases e)
  { case 1
    then show ?case using Cons.IH(1) [of "read_entry vid m e x"] by (simp add: e)
  next
    case 2
    then show ?case using Cons.IH(2) [of "read_entry vid m e x"]
      by (auto simp: e push_frag_get frags_at_def split: option.split) }
qed

section \<open>Listing the index page by page\<close>

lemma map_get_filter_key: "map_get (filter (\<lambda>e. Q (fst e)) m) k = (if Q k then map_get m k else None)"
  by (induction m) (auto simp: map_get_def)

declare map_wf_filter [simp]

lemma filter_split_initial:
  assumes "map_wf m" "\<And>a b. a \<in> set m \<Longrightarrow> b \<in> set m \<Longrightarrow> fst a < fst b \<Longrightarrow> P b \<Longrightarrow> P a"
  shows "m = filter P m @ filter (\<lambda>e. \<not> P e) m"
  using assms
proof (induction m)
  case (Cons e m)
  show ?case
  proof (cases "P e")
    case True
    have "m = filter P m @ filter (\<lambda>e. \<not> P e) m"
      using Cons.prems by (intro Cons.IH) (auto simp: map_wf_Cons)
    with True show ?thesis by simp
  next
    case False
    have "\<not> P b" if b: "b \<in> set m" for b
    proof
      assume "P b"
      moreover from b Cons.prems(1) have "fst e < fst b" by (simp add: map_wf_Cons)
      ultimately have "P e" using b by (intro Cons.prems(2) [of e b]) auto
      with False show False by contradiction
    qed
    with False show ?thesis by (simp add: filter_empty_conv)
  qed
qed simp

lemma filter_behind: "map_wf (xs @ e # ys) \<Longrightarrow> filter (\<lambda>d. fst e < fst d) (xs @ e # ys) = ys"
  by (induction xs) (auto simp: map_wf_Cons filter_id_conv)

lemma listing_after_save:
  assumes idx: "map_wf idx" "\<forall>e \<in> set idx. \<not> starts_with pre (fst e)"
    and kvs: "map_wf kvs" "\<forall>e \<in> set kvs. pre < fst e \<and> starts_with pre (fst e)"
  shows "\<exists>R. filter (\<lambda>e. pre < fst e) (put_all kvs idx) = kvs @ R \<and> (\<forall>e \<in> set R. \<not> starts_with pre (fst e))"
proof -
  let ?m = "filter (\<lambda>e. pre < fst e) (put_all kvs idx)"
  let ?P = "\<lambda>e. starts_with pre (fst e)"
  have wf: "map_wf ?m" using idx by simp
  have "?m = filter ?P ?m @ filter (\<lambda>e. \<not> ?P e) ?m"
  proof (rule filter_split_initial [OF wf])
    fix a b :: "string \<times> string"
    assume "a \<in> set ?m" "fst a < fst b" "?P b"
    then show "?P a" using less_prefix_interval [of pre "fst a"] starts_withE [of pre "fst b"] by fastforce
  qed
  moreover have "filter ?P ?m = kvs"
  proof (rule map_get_inject)
    show "map_wf (filter ?P ?m)" using wf by (rule map_wf_filter)
    show "map_wf kvs" by (rule kvs(1))
    have none: "map_get idx k = None" if "starts_with pre k" for k
      using idx(2) that by (force simp: map_get_map_of map_of_eq_None_iff)
    have inkvs: "map_get kvs k = None" if "\<not> (pre < k \<and> starts_with pre k)" for k
      using kvs(2) that by (force simp: map_get_map_of map_of_eq_None_iff)
    show "map_get (filter ?P ?m) = map_get kvs"
    proof
      fix k
      have "map_get (filter ?P ?m) k = (if starts_with pre k \<and> pre < k then (map_get idx ++ map_get kvs) k else None)"
        unfolding map_get_filter_key [of "starts_with pre"] map_get_filter_key [of "\<lambda>k. pre < k"] put_all_get [OF idx(1) kvs(1)]
        by simp
      then show "map_get (filter ?P ?m) k = map_get kvs k"
        using none [of k] inkvs [of k]
        by (cases "pre < k \<and> starts_with pre k") (simp_all add: map_add_def split: option.split)
    qed
  qed
  then have "filter ?P ?m @ filter (\<lambda>e. \<not> ?P e) ?m = kvs @ filter (\<lambda>e. \<not> ?P e) ?m" by (simp only:)
  ultimately have "?m = kvs @ filter (\<lambda>e. \<not> ?P e) ?m" by (rule trans)
  moreover have "\<forall>e \<in> set (filter (\<lambda>e. \<not> ?P e) ?m). \<not> starts_with pre (fst e)" by auto
  ultimately show ?thesis by (intro exI conjI)
qed

text \<open>The object while it is being loaded: \<open>L\<close> has still to be read, \<open>R\<close> belongs to other objects.\<close>

definition loading ::
  "ext_env \<Rightarrow> string \<Rightarrow> string \<Rightarrow> bool \<Rightarrow> kvs_indices \<Rightarrow> (string \<times> nat \<times> s3_part_frag_context) list \<Rightarrow> S3ObjectExtendedMetadata \<Rightarrow> bool" where
  "loading env nm vid m st L x \<longleftrightarrow>
     reader_of env nm vid x \<and> L \<noteq> [] \<and> (\<forall>e \<in> set L. entry_ok (xe_lib env) nm vid m e)
     \<and> unat (x_fragments_read x) + length L = unat (x_fragments x)
     \<and> map_wf (st (oid (x_extended_list_index_layout x)))
     \<and> (\<exists>R. filter (\<lambda>e. x_last_object x < fst e) (st (oid (x_extended_list_index_layout x))) = stored (xe_lib env) L @ R
          \<and> (\<forall>e \<in> set R. \<not> starts_with (nm @ ''|'' @ vid) (fst e)))"

definition loaded_as :: "S3ObjectExtendedMetadata \<Rightarrow> S3ObjectExtendedMetadata \<Rightarrow> bool" where
  "loaded_as y x \<longleftrightarrow> x_state x = Opresent \<and> x_ext_objects x = x_ext_objects y \<and> x_total_size x = x_total_size y
     \<and> x_fragments x = x_fragments y"

lemma last_page:
  assumes ld: "loading env nm vid m st L x" and c: "length L \<le> xe_motr_idx_fetch_count env"
  obtains x' where "ext_deliver env For_entries (kvs_answer (Next_keyval (x_extended_list_index_layout x) (x_last_object x)
        (xe_motr_idx_fetch_count env)) st) x = Some (x', Ext_success)"
    and "loaded_as (fold (read_entry vid m) L x) x'"
proof -
  let ?c = "xe_motr_idx_fetch_count env"
  from ld obtain R where rd: "reader_of env nm vid x" and L: "L \<noteq> []" "\<forall>e \<in> set L. entry_ok (xe_lib env) nm vid m e"
    and cnt: "unat (x_fragments_read x) + length L = unat (x_fragments x)"
    and lst: "filter (\<lambda>e. x_last_object x < fst e) (st (oid (x_extended_list_index_layout x))) = stored (xe_lib env) L @ R"
    and R: "\<forall>e \<in> set R. \<not> starts_with (nm @ ''|'' @ vid) (fst e)"
    by (auto simp: loading_def)
  define page where "page = stored (xe_lib env) L @ take (?c - length L) R"
  have page: "take ?c (stored (xe_lib env) L @ R) = page" using c by (simp add: page_def)
  define y where "y = fold (read_entry vid m) L x"
  define z where "z = (if take (?c - length L) R = [] then y else y\<lparr>x_last_object := fst (hd (take (?c - length L) R))\<rparr>)"
  have "reader_of env nm vid y" using rd by (simp add: y_def reader_of_def)
  moreover have "\<forall>e \<in> set (take (?c - length L) R). \<not> starts_with (nm @ ''|'' @ vid) (fst e)" using R by (auto dest: in_set_takeD)
  ultimately have rde: "read_entries env page x = Some (z, False, take (?c - length L) R \<noteq> [])"
    unfolding page_def read_entries_all [OF rd L(2)] z_def y_def [symmetric] by (rule read_entries_foreign)
  have zf: "x_fragments_read z = x_fragments_read x" "x_fragments z = x_fragments x"
    by (simp_all add: z_def y_def)
  have fin: "x_fragments x \<le> x_fragments_read x + of_nat (length page)" if "take (?c - length L) R = []"
  proof -
    have "length page = length L" unfolding page_def that by simp
    moreover have "x_fragments x = x_fragments_read x + of_nat (length L)"
      using arg_cong [OF cnt, of "of_nat :: nat \<Rightarrow> 32 word"] by simp
    ultimately show ?thesis by simp
  qed
  have "page \<noteq> []" using L(1) by (simp add: page_def stored_def)
  then have ans: "kvs_answer (Next_keyval (x_extended_list_index_layout x) (x_last_object x) ?c) st = Got_pairs page"
    by (simp only: kvs_answer.simps lst page Let_def if_False)
  define x' where "x' = z\<lparr>x_fragments_read := 0, x_state := Opresent\<rparr>"
  have "get_obj_ext_entries_successful env page x = Some (x', Ext_success)"
    using fin zf by (auto simp: get_obj_ext_entries_successful_def rde Let_def x'_def)
  moreover have "loaded_as y x'" by (simp add: loaded_as_def x'_def z_def)
  ultimately show ?thesis by (intro that [of x']) (simp_all only: ans ext_deliver.simps y_def)
qed

lemma middle_page:
  assumes ld: "loading env nm vid m st L x"
    and c: "0 < xe_motr_idx_fetch_count env" "xe_motr_idx_fetch_count env < length L"
  obtains x' where "ext_deliver env For_entries (kvs_answer (Next_keyval (x_extended_list_index_layout x) (x_last_object x)
        (xe_motr_idx_fetch_count env)) st) x = Some (get_obj_ext_entries env x')"
    and "loading env nm vid m st (drop (xe_motr_idx_fetch_count env) L) x'"
    and "x_extended_list_index_layout x' = x_extended_list_index_layout x"
    and "x' = (fold (read_entry vid m) (take (xe_motr_idx_fetch_count env) L) x)
               \<lparr>x_fragments_read := x_fragments_read x + of_nat (xe_motr_idx_fetch_count env)\<rparr>"
proof -
  let ?c = "xe_motr_idx_fetch_count env" and ?idx = "st (oid (x_extended_list_index_layout x))"
  from ld obtain R where rd: "reader_of env nm vid x" and L: "L \<noteq> []" "\<forall>e \<in> set L. entry_ok (xe_lib env) nm vid m e"
    and cnt: "unat (x_fragments_read x) + length L = unat (x_fragments x)" and wf: "map_wf ?idx"
    and lst: "filter (\<lambda>e. x_last_object x < fst e) ?idx = stored (xe_lib env) L @ R"
    and R: "\<forall>e \<in> set R. \<not> starts_with (nm @ ''|'' @ vid) (fst e)"
    by (auto simp: loading_def)
  define y where "y = fold (read_entry vid m) (take ?c L) x"
  define x' where "x' = y\<lparr>x_fragments_read := x_fragments_read x + of_nat ?c\<rparr>"
  have page: "take ?c (stored (xe_lib env) L @ R) = stored (xe_lib env) (take ?c L)"
    using c by (simp add: stored_def take_map)
  have rde: "read_entries env (stored (xe_lib env) (take ?c L)) x = Some (y, False, False)"
    using read_entries_all [OF rd, of "take ?c L" m "[]"] L(2) by (auto simp: y_def dest: in_set_takeD)
  have fr: "unat (x_fragments_read x') = unat (x_fragments_read x) + ?c"
  proof -
    have "unat (x_fragments x) < 2 ^ 32" using unsigned_less [of "x_fragments x"] by simp
    then have "unat (x_fragments_read x) + ?c < 2 ^ 32" using cnt c(2) by linarith
    then have "unat (x_fragments_read x + of_nat ?c) = unat (x_fragments_read x) + ?c"
      by (simp add: unat_word_ariths unat_of_nat)
    then show ?thesis by (simp add: x'_def)
  qed
  have more: "\<not> x_fragments x' \<le> x_fragments_read x'"
    using fr cnt c(2) by (simp add: word_le_nat_alt x'_def y_def)
  have ans: "kvs_answer (Next_keyval (x_extended_list_index_layout x) (x_last_object x) ?c) st
      = Got_pairs (stored (xe_lib env) (take ?c L))"
  proof -
    have "stored (xe_lib env) (take ?c L) \<noteq> []" using c L(1) by (simp add: stored_def)
    then show ?thesis by (simp only: kvs_answer.simps lst page Let_def if_False)
  qed
  have succ: "get_obj_ext_entries_successful env (stored (xe_lib env) (take ?c L)) x = Some (get_obj_ext_entries env x')"
    using more c(2) by (simp add: get_obj_ext_entries_successful_def rde Let_def x'_def min_absorb2 y_def)
  have ld': "loading env nm vid m st (drop ?c L) x'"
  proof -
    have ne: "take ?c L \<noteq> []" using c L(1) by simp
    define e where "e = last (take ?c L)"
    define E where "E = (fst e, get_json_str (xe_lib env) (snd (snd e)))"
    have split: "stored (xe_lib env) L @ R = stored (xe_lib env) (butlast (take ?c L)) @ E # stored (xe_lib env) (drop ?c L) @ R"
    proof -
      have "L = butlast (take ?c L) @ e # drop ?c L"
        using append_butlast_last_id [OF ne] unfolding e_def by (metis append_Cons append_Nil append_assoc append_take_drop_id)
      then have "stored (xe_lib env) L = stored (xe_lib env) (butlast (take ?c L) @ e # drop ?c L)" by (rule arg_cong)
      then show ?thesis by (simp add: stored_def E_def case_prod_beta)
    qed
    have last: "x_last_object x' = fst E"
      using fold_read_last [OF ne, of vid m x] by (simp add: x'_def y_def e_def E_def)
    have "map_wf (stored (xe_lib env) L @ R)" using map_wf_filter [OF wf, of "\<lambda>e. x_last_object x < fst e"] unfolding lst .
    then have behind: "filter (\<lambda>d. fst E < fst d) (stored (xe_lib env) L @ R) = stored (xe_lib env) (drop ?c L) @ R"
      unfolding split by (rule filter_behind)
    have "E \<in> set (filter (\<lambda>e. x_last_object x < fst e) ?idx)" unfolding lst split by simp
    then have "x_last_object x < fst E" by simp
    then have "filter (\<lambda>d. fst E < fst d) ?idx = filter (\<lambda>d. fst E < fst d) (filter (\<lambda>e. x_last_object x < fst e) ?idx)"
      unfolding filter_filter by (intro filter_cong) (auto dest: less_trans)
    with behind have "filter (\<lambda>d. x_last_object x' < fst d) ?idx = stored (xe_lib env) (drop ?c L) @ R"
      by (simp only: lst last)
    moreover have "reader_of env nm vid x'" using rd by (simp add: x'_def y_def reader_of_def)
    moreover have "\<forall>e \<in> set (drop ?c L). entry_ok (xe_lib env) nm vid m e" using L(2) by (auto dest: in_set_dropD)
    moreover have "unat (x_fragments_read x') + length (drop ?c L) = unat (x_fragments x')"
      using fr cnt c(2) by (simp add: x'_def y_def)
    ultimately show ?thesis using R c(2) wf by (auto simp: loading_def x'_def y_def)
  qed
  show ?thesis
  proof (rule that [OF _ ld'])
    show "ext_deliver env For_entries (kvs_answer (Next_keyval (x_extended_list_index_layout x) (x_last_object x) ?c) st) x
       = Some (get_obj_ext_entries env x')"
      by (simp only: ans ext_deliver.simps succ)
  qed (simp_all add: x'_def y_def)
qed

lemma read_entry_irrelevant:
  "x_ext_objects (fold (read_entry vid m) L (x\<lparr>x_fragments_read := n\<rparr>)) = x_ext_objects (fold (read_entry vid m) L x)"
  "x_total_size (fold (read_entry vid m) L (x\<lparr>x_fragments_read := n\<rparr>)) = x_total_size (fold (read_entry vid m) L x)"
proof -
  have "fold (read_entry vid m) L (x\<lparr>x_fragments_read := n\<rparr>) = (fold (read_entry vid m) L x)\<lparr>x_fragments_read := n\<rparr>"
  proof (induction L arbitrary: x)
    case (Cons e L)
    have "read_entry vid m e (x\<lparr>x_fragments_read := n\<rparr>) = (read_entry vid m e x)\<lparr>x_fragments_read := n\<rparr>"
      by (cases e) simp
    with Cons show ?case by simp
  qed simp
  then show "x_ext_objects (fold (read_entry vid m) L (x\<lparr>x_fragments_read := n\<rparr>)) = x_ext_objects (fold (read_entry vid m) L x)"
    "x_total_size (fold (read_entry vid m) L (x\<lparr>x_fragments_read := n\<rparr>)) = x_total_size (fold (read_entry vid m) L x)"
    by simp_all
qed

lemma load_all_pages:
  assumes "loading env nm vid m st L x" "0 < xe_motr_idx_fetch_count env" "length L \<le> n"
  shows "\<exists>x'. ext_run env (replicate n None) st x (snd (get_obj_ext_entries env x)) = Some (st, x', Ext_success)
     \<and> loaded_as (fold (read_entry vid m) L x) x'"
  using assms
proof (induction n arbitrary: L x)
  case 0
  then show ?case by (simp add: loading_def)
next
  case (Suc n)
  let ?c = "xe_motr_idx_fetch_count env"
  show ?case
  proof (cases "length L \<le> ?c")
    case True
    from last_page [OF Suc.prems(1) this] obtain x' where
      "ext_deliver env For_entries (kvs_answer (Next_keyval (x_extended_list_index_layout x) (x_last_object x) ?c) st) x
         = Some (x', Ext_success)" "loaded_as (fold (read_entry vid m) L x) x'" .
    then show ?thesis by (auto simp: get_obj_ext_entries_def simp del: kvs_answer.simps)
  next
    case False
    then have c: "?c < length L" by simp
    obtain x1 where step: "ext_deliver env For_entries (kvs_answer (Next_keyval (x_extended_list_index_layout x)
          (x_last_object x) ?c) st) x = Some (get_obj_ext_entries env x1)"
      and ld: "loading env nm vid m st (drop ?c L) x1"
      and x1: "x1 = (fold (read_entry vid m) (take ?c L) x)\<lparr>x_fragments_read := x_fragments_read x + of_nat ?c\<rparr>"
      using middle_page [OF Suc.prems(1,2) c] by metis
    have "length (drop ?c L) \<le> n" using Suc.prems(2,3) by simp
    from Suc.IH [OF ld Suc.prems(2) this] obtain x' where
      run: "ext_run env (replicate n None) st x1 (snd (get_obj_ext_entries env x1)) = Some (st, x', Ext_success)"
      and las: "loaded_as (fold (read_entry vid m) (drop ?c L) x1) x'" by blast
    have "fold (read_entry vid m) (drop ?c L) (fold (read_entry vid m) (take ?c L) x) = fold (read_entry vid m) L x"
      by (metis append_take_drop_id comp_apply fold_append)
    then have "loaded_as (fold (read_entry vid m) L x) x'"
      using las by (simp add: loaded_as_def x1 read_entry_irrelevant)
    moreover have "ext_run env (replicate (Suc n) None) st x (snd (get_obj_ext_entries env x)) = Some (st, x', Ext_success)"
      using run step by (simp add: get_obj_ext_entries_def del: kvs_answer.simps)
    ultimately show ?thesis by blast
  qed
qed

section \<open>What was saved\<close>

fun reloaded :: "string \<Rightarrow> nat \<Rightarrow> (int, s3_part_frag_context list) std_map \<Rightarrow> (int, s3_part_frag_context list) std_map" where
  "reloaded vid p [] = []"
| "reloaded vid p ((q, frs) # objs) = (q, map (read_back vid p) frs) # reloaded vid (Suc p) objs"

lemma reloaded_keys: "map fst (reloaded vid p objs) = map fst objs"
  by (induction vid p objs rule: reloaded.induct) auto

lemma reloaded_get:
  "map fst objs = map int [p..<p + length objs] \<Longrightarrow> map_get (reloaded vid p objs) q =
     (if int p \<le> q \<and> q < int (p + length objs) then Some (map (read_back vid (nat q)) (snd (objs ! (nat q - p)))) else None)"
proof (induction vid p objs rule: reloaded.induct)
  case (2 vid p r frs objs)
  have hd: "r = int p" and tl: "map fst objs = map int [Suc p..<Suc p + length objs]"
    using "2.prems" by (simp_all add: upt_conv_Cons del: upt_Suc)
  show ?case
  proof (cases "q = int p")
    case True
    then show ?thesis by (simp add: map_get_def hd)
  next
    case False
    then have "map_get (reloaded vid p ((r, frs) # objs)) q = map_get (reloaded vid (Suc p) objs) q"
      by (simp add: map_get_def hd)
    moreover have "((r, frs) # objs) ! (nat q - p) = objs ! (nat q - Suc p)" if "int p \<le> q"
    proof -
      have "p < nat q" using that False by linarith
      then show ?thesis by (simp flip: Suc_diff_Suc)
    qed
    ultimately show ?thesis using "2.IH" [OF tl] False by auto
  qed
qed (simp add: map_get_def)

text \<open>
  Extended metadata that can be read back as it was: numbered parts 1, 2, ..., or one simple
  object; at most nine fragments for each part, since \<open>F10\<close> sorts before \<open>F2\<close>.
\<close>

definition ext_loadable :: "bool \<Rightarrow> (int, s3_part_frag_context list) std_map \<Rightarrow> bool" where
  "ext_loadable m objs \<longleftrightarrow> objs \<noteq> [] \<and> (\<forall>e \<in> set objs. snd e \<noteq> [] \<and> length (snd e) \<le> 9)
     \<and> (\<forall>fr \<in> set (all_frags objs). fr_is_multipart fr = m \<and> unat (fr_layout_id fr) < 2 ^ 31)
     \<and> map fst objs = (if m then map int [1..<Suc (length objs)] else [0]) \<and> length (all_frags objs) < 2 ^ 31"

lemma loadable_shape: "ext_loadable m objs \<Longrightarrow> ext_shape objs"
  by (cases m) (auto simp: ext_loadable_def ext_shape_def dest: arg_cong [of _ _ length])

lemma frags_at_part:
  assumes ld: "ext_loadable m objs" and i: "1 \<le> i" "i \<le> length objs" and q: "q = part_key m i"
  shows "frags_at vid m q (by_key (tag_parts nm vid 1 objs)) = map (read_back vid i) (snd (objs ! (i - 1)))"
proof -
  let ?L = "by_key (tag_parts nm vid 1 objs)"
  note shape = loadable_shape [OF ld]
  have part: "filter (\<lambda>e. fst (snd e) = i) ?L = map (\<lambda>(k, fr). (k, i, fr)) (frag_entries nm vid i 1 (snd (objs ! (i - 1))))"
    using part_in_key_order [OF shape, of m 1 i nm vid] ld i by (auto simp: ext_loadable_def)
  have "filter (\<lambda>e. part_key m (fst (snd e)) = q) ?L = filter (\<lambda>e. fst (snd e) = i) ?L"
  proof (cases m)
    case True
    then show ?thesis by (simp add: q part_key_def)
  next
    case False
    then have one: "length objs = 1" using ld by (auto simp: ext_loadable_def dest: arg_cong [of _ _ length])
    have "distinct (map fst (tag_parts nm vid 1 objs))" using part_entries_distinct [OF shape] by (simp add: tag_parts_keys)
    from by_key_set [OF this] have "fst (snd e) = 1" if "e \<in> set ?L" for e
      using that tag_parts_of_part [of "fst e" "fst (snd e)" "snd (snd e)" nm vid 1 objs] one by simp
    then show ?thesis using False i one q by (intro filter_cong) (auto simp: part_key_def)
  qed
  then have "frags_at vid m q ?L = map (\<lambda>e. read_back vid (fst (snd e)) (snd (snd e)))
      (map (\<lambda>(k, fr). (k, i, fr)) (frag_entries nm vid i 1 (snd (objs ! (i - 1)))))"
    by (simp only: frags_at_def part)
  also have "\<dots> = map (read_back vid i) (map snd (frag_entries nm vid i 1 (snd (objs ! (i - 1)))))"
    by (simp add: case_prod_beta comp_def)
  finally show ?thesis by (simp only: frag_entries_snd)
qed

lemma frags_at_none:
  assumes ld: "ext_loadable m objs" and q: "\<forall>i. 1 \<le> i \<and> i \<le> length objs \<longrightarrow> q \<noteq> part_key m i"
  shows "frags_at vid m q (by_key (tag_parts nm vid 1 objs)) = []"
proof -
  have "distinct (map fst (tag_parts nm vid 1 objs))"
    using part_entries_distinct [OF loadable_shape [OF ld]] by (simp add: tag_parts_keys)
  from by_key_set [OF this] have "1 \<le> fst (snd e) \<and> fst (snd e) \<le> length objs" if "e \<in> set (by_key (tag_parts nm vid 1 objs))" for e
    using that tag_parts_of_part [of "fst e" "fst (snd e)" "snd (snd e)" nm vid 1 objs] by simp
  with q show ?thesis by (auto simp: frags_at_def filter_empty_conv)
qed

lemma fold_read_reloaded:
  assumes ld: "ext_loadable m objs" and x: "x_ext_objects x = []"
  shows "x_ext_objects (fold (read_entry vid m) (by_key (tag_parts nm vid 1 objs)) x) = reloaded vid 1 objs"
proof (rule map_get_inject)
  let ?L = "by_key (tag_parts nm vid 1 objs)"
  show "map_wf (x_ext_objects (fold (read_entry vid m) ?L x))" using fold_read_objects(1) [of x] x by simp
  show "map_wf (reloaded vid 1 objs)"
    using ld by (auto simp: map_wf_def reloaded_keys ext_loadable_def sorted_wrt_map simp del: upt_Suc)
  show "map_get (x_ext_objects (fold (read_entry vid m) ?L x)) = map_get (reloaded vid 1 objs)"
  proof
    fix q
    have get: "map_get (x_ext_objects (fold (read_entry vid m) ?L x)) q =
       (if frags_at vid m q ?L = [] then None else Some (frags_at vid m q ?L))"
      using fold_read_objects(2) [of x vid m ?L q] x by simp
    have goal: "map_get (reloaded vid 1 objs) q =
      (if \<exists>i. 1 \<le> i \<and> i \<le> length objs \<and> q = part_key m i
       then Some (map (read_back vid (if m then nat q else 1)) (snd (objs ! ((if m then nat q else 1) - 1)))) else None)"
    proof (cases m)
      case True
      have keys: "map fst objs = map int [1..<1 + length objs]" using ld True by (simp add: ext_loadable_def)
      have "(\<exists>i. 1 \<le> i \<and> i \<le> length objs \<and> q = part_key m i) \<longleftrightarrow> int 1 \<le> q \<and> q < int (1 + length objs)"
        using True by (auto simp: part_key_def intro!: exI [of _ "nat q"])
      then show ?thesis using reloaded_get [OF keys, of vid q] True by simp
    next
      case False
      then obtain frs where "objs = [(0, frs)]" using ld by (auto simp: ext_loadable_def map_eq_Cons_conv)
      then show ?thesis using False by (auto simp: part_key_def map_get_def intro!: exI [of _ "1 :: nat"])
    qed
    show "map_get (x_ext_objects (fold (read_entry vid m) ?L x)) q = map_get (reloaded vid 1 objs) q"
    proof (cases "\<exists>i. 1 \<le> i \<and> i \<le> length objs \<and> q = part_key m i")
      case True
      then obtain i where i: "1 \<le> i" "i \<le> length objs" "q = part_key m i" by blast
      have one: "\<not> m \<Longrightarrow> i = 1" using i ld by (auto simp: ext_loadable_def dest: arg_cong [of _ _ length])
      have "objs ! (i - 1) \<in> set objs" using i by simp
      then have "snd (objs ! (i - 1)) \<noteq> []" using ld by (auto simp: ext_loadable_def)
      moreover have "(if m then nat q else 1) = i" using i one by (auto simp: part_key_def)
      ultimately show ?thesis
        using True unfolding get goal frags_at_part [OF ld i, of vid nm] by simp
    next
      case False
      then have "frags_at vid m q ?L = []" using frags_at_none [OF ld, of q vid nm] by blast
      with False show ?thesis unfolding get goal by simp
    qed
  qed
qed

section \<open>Saving and loading\<close>

definition saved_list :: "S3ObjectExtendedMetadata \<Rightarrow> (string \<times> nat \<times> s3_part_frag_context) list" where
  "saved_list x = by_key (tag_parts (x_object_name x) (x_version_id x) 1 (x_ext_objects x))"

lemma kv_list_stored: "get_kv_list_of_extended_entries lib x = stored lib (saved_list x)"
  by (simp add: kv_list_by_key part_entries_tag by_key_values stored_def saved_list_def case_prod_beta comp_def)

lemma saved_list_set:
  assumes "ext_loadable m (x_ext_objects x)"
  shows "set (saved_list x) = set (tag_parts (x_object_name x) (x_version_id x) 1 (x_ext_objects x))"
  using part_entries_distinct [OF loadable_shape [OF assms]] by (simp add: saved_list_def by_key_set tag_parts_keys)

lemma tag_parts_frags: "map (\<lambda>e. snd (snd e)) (tag_parts nm vid p objs) = all_frags objs"
  using part_entries_snd [of nm vid p objs] by (simp add: part_entries_tag case_prod_beta comp_def)

lemma saved_list_frags:
  assumes "ext_loadable m (x_ext_objects x)"
  shows "mset (map (\<lambda>e. snd (snd e)) (saved_list x)) = mset (all_frags (x_ext_objects x))"
proof -
  let ?E = "tag_parts (x_object_name x) (x_version_id x) 1 (x_ext_objects x)"
  have "distinct (map fst ?E)" using part_entries_distinct [OF loadable_shape [OF assms]] by (simp add: tag_parts_keys)
  moreover have "distinct (map fst (saved_list x))" unfolding saved_list_def by (rule map_wf_distinct [OF by_key_wf])
  ultimately have "distinct ?E" "distinct (saved_list x)" unfolding distinct_map by blast+
  then have "mset (saved_list x) = mset ?E"
    using saved_list_set [OF assms] by (simp add: set_eq_iff_mset_eq_distinct)
  then have "image_mset (\<lambda>e. snd (snd e)) (mset (saved_list x)) = image_mset (\<lambda>e. snd (snd e)) (mset ?E)" by simp
  then show ?thesis by (metis mset_map tag_parts_frags)
qed

lemma saved_list_length: "ext_loadable m (x_ext_objects x) \<Longrightarrow> length (saved_list x) = length (all_frags (x_ext_objects x))"
  using mset_eq_length [OF saved_list_frags] by simp

lemma saved_entries_ok:
  assumes ld: "ext_loadable m (x_ext_objects x)" and lib: "reads_frags lib (set (all_frags (x_ext_objects x)))"
    and e: "e \<in> set (saved_list x)"
  shows "entry_ok lib (x_object_name x) (x_version_id x) m e"
proof -
  let ?objs = "x_ext_objects x"
  obtain k i fr where ee: "e = (k, i, fr)" by (cases e)
  have tag: "(k, i, fr) \<in> set (tag_parts (x_object_name x) (x_version_id x) 1 ?objs)"
    using e saved_list_set [OF ld] ee by simp
  from tag tag_parts_of_part [of k i fr "x_object_name x" "x_version_id x" 1 ?objs]
  have i: "1 \<le> i" "i < 1 + length ?objs"
    and fe: "(k, fr) \<in> set (frag_entries (x_object_name x) (x_version_id x) i 1 (snd (?objs ! (i - 1))))" by auto
  have "fr \<in> (\<lambda>e. snd (snd e)) ` set (tag_parts (x_object_name x) (x_version_id x) 1 ?objs)"
    using tag by (rule rev_image_eqI) simp
  then have "fr \<in> set (all_frags ?objs)" unfolding list.set_map [symmetric] tag_parts_frags .
  moreover have sub: "set (snd (?objs ! (i - 1))) \<subseteq> set (all_frags ?objs)"
  proof -
    have "?objs ! (i - 1) \<in> set ?objs" using i by simp
    then show ?thesis by (force simp: all_frags_def)
  qed
  moreover have "\<exists>f. k = extended_key (x_object_name x) (x_version_id x) i f m"
  proof -
    have "\<forall>fr \<in> set (snd (?objs ! (i - 1))). fr_is_multipart fr = m" using sub ld by (auto simp: ext_loadable_def)
    from frag_entries_key_bound [OF this fe] show ?thesis by auto
  qed
  moreover have "i < 2 ^ 31"
    using i ld shape_parts_le_frags [OF loadable_shape [OF ld]] by (simp add: ext_loadable_def)
  ultimately show ?thesis using ld lib by (auto simp: entry_ok_def ee ext_loadable_def reads_frags_def)
qed

definition can_save :: "bool \<Rightarrow> S3ObjectExtendedMetadata \<Rightarrow> bool" where
  "can_save m x \<longleftrightarrow> ext_loadable m (x_ext_objects x) \<and> x_object_name x \<noteq> [] \<and> CHR ''|'' \<notin> set (x_version_id x)
     \<and> non_zero (oid (x_extended_list_index_layout x)) \<and> x_total_processed_count x = 0
     \<and> (length (all_frags (x_ext_objects x)) \<le> 50 \<or> length (x_ext_objects x) = length (all_frags (x_ext_objects x)))"

lemma loadable_frags_pos: "ext_loadable m objs \<Longrightarrow> 0 < length (all_frags objs)"
  using shape_parts_le_frags [OF loadable_shape, of m objs] by (cases objs) (auto simp: ext_loadable_def)

lemma small_save_stores:
  assumes cs: "can_save m x" and n: "length (all_frags (x_ext_objects x)) \<le> 50"
  shows "ext_save env x = Some (x\<lparr>x_key_values := stored (xe_lib env) (saved_list x)\<rparr>,
     Ext_send For_save (Put_keyval (x_extended_list_index_layout x) (stored (xe_lib env) (saved_list x))))"
proof -
  have ld: "ext_loadable m (x_ext_objects x)" using cs by (simp add: can_save_def)
  have "keys_nonempty (stored (xe_lib env) (saved_list x))"
    using kv_list_nonempty_keys [of x "xe_lib env"] cs by (simp add: can_save_def kv_list_stored)
  from keys_nonempty_part [OF this, of "length (saved_list x)" 0]
  have "\<not> list_ex (\<lambda>kv. fst kv = []) (stored (xe_lib env) (saved_list x))" by simp
  moreover have "stored (xe_lib env) (saved_list x) \<noteq> []"
    using saved_list_length [OF ld] loadable_frags_pos [OF ld] by (auto simp: stored_def)
  ultimately show ?thesis
    using cs n saved_list_length [OF ld]
    by (simp add: ext_save_def can_save_def kv_list_stored Let_def put_keyval_def put_slots_def)
qed

lemma save_stores_all:
  fixes env :: ext_env and st :: kvs_indices
  assumes cs: "can_save m x"
  defines "lo \<equiv> x_extended_list_index_layout x"
  shows "\<exists>x0 out0 x'. ext_save env x = Some (x0, out0)
    \<and> ext_run env (replicate (length (all_frags (x_ext_objects x))) None) st x0 out0
        = Some (st(oid lo := put_all (stored (xe_lib env) (saved_list x)) (st (oid lo))), x', Ext_success)"
proof (cases "length (all_frags (x_ext_objects x)) \<le> 50")
  case True
  have "0 < length (all_frags (x_ext_objects x))" using cs loadable_frags_pos by (auto simp: can_save_def)
  then obtain n where "length (all_frags (x_ext_objects x)) = Suc n" by (cases "length (all_frags (x_ext_objects x))") auto
  then show ?thesis by (simp add: small_save_stores [OF cs True] lo_def)
next
  case False
  let ?n = "length (all_frags (x_ext_objects x))"
  have ld: "ext_loadable m (x_ext_objects x)" using cs by (simp add: can_save_def)
  have large: "large_save x"
    using cs False loadable_shape [OF ld] by (auto simp: large_save_def can_save_def ext_loadable_def)
  obtain x0 hm where x0: "x0 = x\<lparr>x_key_values := get_kv_list_of_extended_entries (xe_lib env) x\<rparr>"
    and save: "ext_save env x = Some (x0, Ext_send (For_partial_save hm) (Put_keyval lo (take (unat hm) (x_key_values x0))))"
    and rdy: "save_ready x0" and len: "length (x_key_values x0) = ?n"
    and inv: "partial_progress st st x0 (Ext_send (For_partial_save hm) (Put_keyval lo (take (unat hm) (x_key_values x0))))"
    using large_save_starts [OF large, of env st] unfolding lo_def by metis
  have "possible_faults (replicate ?n None)" by (simp add: possible_faults_def)
  from partial_progress_run [OF inv rdy this, of env] obtain st' x' out' where
    run: "ext_run env (replicate ?n None) st x0 (Ext_send (For_partial_save hm) (Put_keyval lo (take (unat hm) (x_key_values x0))))
        = Some (st', x', out')"
    and inv': "partial_progress st st' x' out'"
    and same: "x_key_values x' = x_key_values x0" "x_ext_objects x' = x_ext_objects x0"
      "x_extended_list_index_layout x' = x_extended_list_index_layout x0"
    and out: "\<forall>w op. out' \<noteq> Ext_send w op" "out' \<noteq> Ext_failed"
    using len by (auto split: if_splits)
  from out inv' have succ: "out' = Ext_success" by (cases out') (auto simp: partial_progress_def Let_def)
  have "unat (x_total_processed_count x') = ?n"
    using inv' succ same len cs False by (simp add: partial_progress_def Let_def x0 can_save_def)
  then have "st' = st(oid lo := put_all (stored (xe_lib env) (saved_list x)) (st (oid lo)))"
    using inv' same len by (simp add: partial_progress_def Let_def x0 lo_def kv_list_stored)
  then show ?thesis using save run succ by blast
qed

text \<open>A fresh object for the entries that \<open>x\<close> saved.\<close>

definition reader_for :: "object_request \<Rightarrow> string \<Rightarrow> 32 word \<Rightarrow> S3ObjectExtendedMetadata \<Rightarrow> S3ObjectExtendedMetadata" where
  "reader_for req bn parts x =
     create_object_ext_metadata_obj req bn (x_object_name x) (x_version_id x) parts
       (of_nat (length (all_frags (x_ext_objects x)))) (x_extended_list_index_layout x)"

lemma reader_for_fields:
  fixes req bn parts
  assumes "can_save m x" "x_version_id x \<noteq> []"
  defines "y \<equiv> reader_for req bn parts x" and "pre \<equiv> x_object_name x @ ''|'' @ x_version_id x"
  shows "x_extended_list_index_layout y = x_extended_list_index_layout x" "x_object_name y = x_object_name x"
    "x_last_object y = pre" "x_prefix_of_unique_object y = pre"
    "x_fragments y = of_nat (length (all_frags (x_ext_objects x)))" "x_fragments_read y = 0" "x_ext_objects y = []" "x_total_size y = 0"
  using assms(1,2) by (auto simp: y_def pre_def reader_for_def create_object_ext_metadata_obj_def
      S3ObjectExtendedMetadata_init_def set_extended_list_index_layout_def can_save_def Let_def)

lemma stored_keys_extend_prefix:
  assumes "\<forall>e \<in> set L. entry_ok lib nm vid m e" "e \<in> set (stored lib L)"
  shows "nm @ ''|'' @ vid < fst e \<and> starts_with (nm @ ''|'' @ vid) (fst e)"
proof -
  let ?pre = "nm @ ''|'' @ vid"
  from assms(2) obtain d where "d \<in> set L" "fst e = fst d" by (auto simp: stored_def)
  with assms(1) obtain i f where "fst e = extended_key nm vid i f m" by (cases d) (auto simp: entry_ok_def)
  then obtain c t where "fst e = ?pre @ c # t" by (cases m) (auto simp: extended_key_def)
  then show ?thesis
    using append_less_iff [of ?pre "[]" "c # t"] starts_with_append [of ?pre "c # t"] by simp
qed

lemma loading_saved:
  fixes env :: ext_env and st :: kvs_indices and req bn parts
  assumes cs: "can_save m x" and lib: "reads_frags (xe_lib env) (set (all_frags (x_ext_objects x)))"
    and env: "\<not> xe_object_metadata_corrupted env" and vid: "x_version_id x \<noteq> []"
    and st: "kvs_wf st" "\<forall>e \<in> set (st (oid (x_extended_list_index_layout x))). \<not> starts_with (x_object_name x @ ''|'' @ x_version_id x) (fst e)"
  defines "lo \<equiv> x_extended_list_index_layout x"
  defines "st1 \<equiv> st(oid lo := put_all (stored (xe_lib env) (saved_list x)) (st (oid lo)))" and "y \<equiv> reader_for req bn parts x"
  shows "loading env (x_object_name x) (x_version_id x) m st1 (saved_list x) y"
proof -
  let ?L = "saved_list x" and ?pre = "x_object_name x @ ''|'' @ x_version_id x"
  have ld: "ext_loadable m (x_ext_objects x)" using cs by (simp add: can_save_def)
  note y = reader_for_fields [OF cs vid, of req bn parts, folded y_def]
  have ok: "\<forall>e \<in> set ?L. entry_ok (xe_lib env) (x_object_name x) (x_version_id x) m e"
    using saved_entries_ok [OF ld lib] by blast
  have wf: "map_wf (stored (xe_lib env) ?L)"
    using by_key_wf unfolding map_wf_def stored_keys by (simp add: saved_list_def)
  obtain R where lst: "filter (\<lambda>e. ?pre < fst e) (st1 (oid lo)) = stored (xe_lib env) ?L @ R"
    and R: "\<forall>e \<in> set R. \<not> starts_with ?pre (fst e)"
    using listing_after_save [OF _ st(2) wf] stored_keys_extend_prefix [OF ok] st(1) by (auto simp: st1_def lo_def kvs_wf_def)
  have len: "length ?L = length (all_frags (x_ext_objects x))" using saved_list_length [OF ld] .
  show ?thesis
    unfolding loading_def
  proof (intro conjI)
    show "reader_of env (x_object_name x) (x_version_id x) y" using cs env y by (simp add: reader_of_def can_save_def)
    show "?L \<noteq> []" using len loadable_frags_pos [OF ld] by auto
    have "unat (of_nat (length (all_frags (x_ext_objects x))) :: 32 word) = length (all_frags (x_ext_objects x))"
      using ld by (simp add: ext_loadable_def unat_of_nat)
    then show "unat (x_fragments_read y) + length ?L = unat (x_fragments y)" using y len by simp
    show "map_wf (st1 (oid (x_extended_list_index_layout y)))" using st(1) y by (simp add: st1_def lo_def kvs_wf_def)
    show "\<exists>R. filter (\<lambda>e. x_last_object y < fst e) (st1 (oid (x_extended_list_index_layout y))) = stored (xe_lib env) ?L @ R
        \<and> (\<forall>e \<in> set R. \<not> starts_with ?pre (fst e))"
      unfolding y(1,3) using lst R unfolding lo_def by blast
  qed (rule ok)
qed

lemma saved_sizes:
  assumes "ext_loadable m (x_ext_objects x)"
  shows "sum_list (map (\<lambda>e. fr_item_size (snd (snd e))) (saved_list x)) = sum_list (map fr_item_size (all_frags (x_ext_objects x)))"
proof -
  have "mset (map fr_item_size (map (\<lambda>e. snd (snd e)) (saved_list x))) = mset (map fr_item_size (all_frags (x_ext_objects x)))"
    using saved_list_frags [OF assms] by (simp only: mset_map)
  then have "sum_list (map fr_item_size (map (\<lambda>e. snd (snd e)) (saved_list x))) = sum_list (map fr_item_size (all_frags (x_ext_objects x)))"
    by (metis sum_mset_sum_list)
  then show ?thesis by (simp add: comp_def)
qed

text \<open>C33: What is saved is read back, within limits.  The extended metadata of a multipart object
  with parts 1, 2, ..., or of a simple object with its single part 0, is written to the
  extended metadata index; then a fresh object with the same name, version and fragment count
  loads it, page by page whatever the page size, with the same parts, their fragments in the same
  order (each with the version id and its part number filled in) and the sum of their sizes.  The
  limits: every part has one to nine fragments; there are at most 50 fragments in all, or
  every part has just one (otherwise entries are lost); fragments have the multipart flag of the
  object and layouts below \<open>2 ^ 31\<close>; object name and version id are not empty, and the latter has no
  bar.  The index may hold other entries, but before the save none whose key begins with
  this name, bar and version id.  JsonCpp is assumed to read back the fragments.\<close>

theorem extended_metadata_loads_back:
  fixes env :: ext_env and st :: kvs_indices and req bn parts
  assumes cs: "can_save m x" and lib: "reads_frags (xe_lib env) (set (all_frags (x_ext_objects x)))"
    and env: "\<not> xe_object_metadata_corrupted env" "0 < xe_motr_idx_fetch_count env" and vid: "x_version_id x \<noteq> []"
    and st: "kvs_wf st" "\<forall>e \<in> set (st (oid (x_extended_list_index_layout x))). \<not> starts_with (x_object_name x @ ''|'' @ x_version_id x) (fst e)"
  defines "n \<equiv> length (all_frags (x_ext_objects x))" and "y \<equiv> reader_for req bn parts x"
  shows "\<exists>x0 o0 x1 st1 y0 p0 y1. ext_save env x = Some (x0, o0)
    \<and> ext_run env (replicate n None) st x0 o0 = Some (st1, x1, Ext_success)
    \<and> ext_load env y = Some (y0, p0) \<and> ext_run env (replicate n None) st1 y0 p0 = Some (st1, y1, Ext_success)
    \<and> x_state y1 = Opresent \<and> x_ext_objects y1 = reloaded (x_version_id x) 1 (x_ext_objects x)
    \<and> x_total_size y1 = sum_list (map fr_item_size (all_frags (x_ext_objects x)))"
proof -
  let ?lo = "x_extended_list_index_layout x" and ?L = "saved_list x"
  define st1 where "st1 = st(oid ?lo := put_all (stored (xe_lib env) ?L) (st (oid ?lo)))"
  have ld: "ext_loadable m (x_ext_objects x)" using cs by (simp add: can_save_def)
  note y = reader_for_fields [OF cs vid, of req bn parts, folded y_def]
  obtain x0 o0 x1 where save: "ext_save env x = Some (x0, o0)" "ext_run env (replicate n None) st x0 o0 = Some (st1, x1, Ext_success)"
    using save_stores_all [OF cs, of env st] unfolding st1_def n_def by blast
  have "length ?L \<le> n" using saved_list_length [OF ld] by (simp add: n_def)
  from load_all_pages [OF loading_saved [OF cs lib env(1) vid st, of req bn parts] env(2) this] obtain y1 where
    run: "ext_run env (replicate n None) st1 y (snd (get_obj_ext_entries env y)) = Some (st1, y1, Ext_success)"
    and las: "loaded_as (fold (read_entry (x_version_id x) m) ?L y) y1" unfolding st1_def y_def by blast
  have "x_ext_objects y1 = reloaded (x_version_id x) 1 (x_ext_objects x)"
    using las fold_read_reloaded [OF ld y(7), of "x_version_id x" "x_object_name x"] by (simp add: loaded_as_def saved_list_def)
  moreover have "x_total_size y1 = sum_list (map fr_item_size (all_frags (x_ext_objects x)))"
    using las saved_sizes [OF ld] by (simp add: loaded_as_def fold_read_size y)
  moreover have "ext_load env y = Some (y, snd (get_obj_ext_entries env y))"
    using cs y by (simp add: ext_load_def can_save_def get_obj_ext_entries_def)
  ultimately show ?thesis using save run las unfolding loaded_as_def by blast
qed

section \<open>Concrete instances\<close>

definition sample_frag :: s3_part_frag_context where
  "sample_frag = \<lparr>fr_motr_OID = \<lparr>u_hi = 3, u_lo = 4\<rparr>, fr_PVID = \<lparr>f_container = 1, f_key = 2\<rparr>, fr_versionID = ''v1'',
     fr_item_size = 5, fr_layout_id = 9, fr_part_number = 0, fr_is_multipart = True\<rparr>"

definition sample_ext :: "(int, s3_part_frag_context list) std_map \<Rightarrow> S3ObjectExtendedMetadata" where
  "sample_ext objs = \<lparr>x_bucket_name = ''b'', x_object_name = ''a|b'', x_last_object = ''a|b|v1'',
     x_prefix_of_unique_object = ''a|b|v1'', x_version_id = ''v1'', x_extended_list_index_layout = zero_layout\<lparr>oid := \<lparr>u_hi = 7, u_lo = 8\<rparr>\<rparr>,
     x_fragments = 0, x_fragments_read = 0, x_parts = 0, x_total_processed_count = 0, x_extended_keys = [], x_key_values = [],
     x_state = Oempty, x_total_size = 0, x_ext_objects = objs, x_spaces_sent = 0\<rparr>"

definition sample_ext_env :: ext_env where
  "sample_ext_env = \<lparr>xe_lib = one_document_lib (JObj (frag_doc sample_frag)), xe_object_metadata_corrupted = False,
     xe_motr_idx_fetch_count = 1, xe_client_awaits_body = False\<rparr>"

lemma sample_large: "large_save (sample_ext [(1, replicate 120 sample_frag)])"
  by (simp add: large_save_def sample_ext_def ext_shape_def all_frags_def sample_frag_def non_zero_def zero_layout_def)

theorem partial_save_batches_bounded_witness:
  "\<exists>x0 out0 st' x' out'. ext_save sample_ext_env (sample_ext [(1, replicate 120 sample_frag)]) = Some (x0, out0)
    \<and> ext_run sample_ext_env [Some (Write_error W_failed)] (\<lambda>_. []) x0 out0 = Some (st', x', out')"
  using partial_save_batches_bounded [OF sample_large, of "[Some (Write_error W_failed)]" sample_ext_env "\<lambda>_. []"]
  by (auto simp: possible_faults_def)

theorem fragmented_save_loses_entries_witness:
  "\<exists>x0 out0 st' x'. ext_save sample_ext_env (sample_ext [(1, replicate 120 sample_frag)]) = Some (x0, out0)
    \<and> ext_run sample_ext_env [None] (\<lambda>_. []) x0 out0 = Some (st', x', Ext_success)"
  using fragmented_save_loses_entries [OF sample_large, of sample_ext_env "\<lambda>_. []"]
  by (auto simp: sample_ext_def all_frags_def)

lemma sample_loadable: "can_save True (sample_ext [(1, [sample_frag]), (2, [sample_frag])])"
  by (simp add: can_save_def sample_ext_def ext_loadable_def all_frags_def sample_frag_def non_zero_def zero_layout_def upt_rec)

theorem extended_metadata_loads_back_witness:
  "\<exists>st1 y0 p0 y1. ext_load sample_ext_env (reader_for sample_object_request [] 2 (sample_ext [(1, [sample_frag]), (2, [sample_frag])])) = Some (y0, p0)
    \<and> ext_run sample_ext_env [None, None] st1 y0 p0 = Some (st1, y1, Ext_success)
    \<and> map fst (x_ext_objects y1) = [1, 2] \<and> x_total_size y1 = 10"
proof -
  let ?x = "sample_ext [(1, [sample_frag]), (2, [sample_frag])]"
  have n: "length (all_frags (x_ext_objects ?x)) = 2" by (simp add: all_frags_def sample_ext_def)
  have "reads_frags (xe_lib sample_ext_env) (set (all_frags (x_ext_objects ?x)))"
    using one_document_lib_reads_back one_document_lib_reads_numbers
    by (auto simp: reads_frags_def sample_ext_env_def sample_ext_def all_frags_def)
  from extended_metadata_loads_back [OF sample_loadable this, of "\<lambda>_. []" sample_object_request "[]" 2]
  obtain st1 y0 p0 y1 where "ext_load sample_ext_env (reader_for sample_object_request [] 2 ?x) = Some (y0, p0)"
    and "ext_run sample_ext_env (replicate (length (all_frags (x_ext_objects ?x))) None) st1 y0 p0 = Some (st1, y1, Ext_success)"
    and objs: "x_ext_objects y1 = reloaded (x_version_id ?x) 1 (x_ext_objects ?x)"
    and size: "x_total_size y1 = sum_list (map fr_item_size (all_frags (x_ext_objects ?x)))"
    by (auto simp: kvs_wf_def sample_ext_env_def sample_ext_def)
  then have "ext_run sample_ext_env [None, None] st1 y0 p0 = Some (st1, y1, Ext_success)"
    unfolding n by (simp add: numeral_2_eq_2)
  moreover have "map fst (x_ext_objects y1) = [1, 2]" "x_total_size y1 = 10"
    unfolding objs size by (simp_all add: sample_ext_def all_frags_def sample_frag_def)
  ultimately show ?thesis using \<open>ext_load _ _ = _\<close> by (intro exI conjI)
qed

end
