(* ===== verification/Object_Engine.thy ===== *)
theory Object_Engine
  imports Ext_Metadata
begin

text \<open>
  \<open>server/s3_object_metadata.cc\<close>: how \<open>S3ObjectMetadata\<close> loads, saves and removes an object.
  An object has an entry in the object list index, an entry for its version in the version
  list index, and entries of extended metadata.  As in \<open>Ext_Metadata\<close>, an operation gives the
  new state and what it does next; \<open>engine_deliver\<close> hands a reply of the store to the member
  function that waits for it.  A failed assertion or an exception gives \<open>None\<close>.
\<close>

record object_engine =
  oe_meta :: S3ObjectMetadata
  oe_ext :: "S3ObjectExtendedMetadata option"
  oe_writer_state :: S3MotrKVSWriterOpState

record object_env =
  ov_lib :: jsoncpp
  ov_fi :: di_switches
  ov_now :: string
  ov_ext :: ext_env

datatype object_waiting =
    Wait_load
  | Wait_save_version
  | Wait_save_extended ext_waiting
  | Wait_save
  | Wait_remove_object
  | Wait_remove_version

datatype object_out =
    Obj_send object_waiting kvs_op
  | Obj_success
  | Obj_failed
  | Obj_silent

definition oe_set_state :: "S3ObjectMetadataState \<Rightarrow> object_engine \<Rightarrow> object_engine" where
  "oe_set_state s e = e\<lparr>oe_meta := (oe_meta e)\<lparr>om_state := s\<rparr>\<rparr>"

section \<open>Loading\<close>

definition om_load :: "object_engine \<Rightarrow> (object_engine \<times> object_out) option" where
  "om_load e =
     (let ob = oe_meta e in
      if \<not> non_zero (oid (om_object_list_index_layout ob)) then None
      else Some (e\<lparr>oe_meta := ob\<lparr>om_state := Oempty, om_requested_bucket_name := om_bucket_name ob,
                                 om_requested_object_name := om_object_name ob\<rparr>\<rparr>,
                 Obj_send Wait_load (Get_keyval (om_object_list_index_layout ob) (om_object_name ob))))"

definition validate_attrs :: "di_switches \<Rightarrow> S3ObjectMetadata \<Rightarrow> bool" where
  "validate_attrs fi ob \<longleftrightarrow> \<not> (di_metadata_bucket_or_object_corrupted fi
     \<or> om_requested_bucket_name ob \<noteq> om_bucket_name ob \<or> om_requested_object_name ob \<noteq> om_object_name ob)"

definition om_load_failed :: "S3MotrKVSReaderOpState \<Rightarrow> object_engine \<Rightarrow> object_engine \<times> object_out" where
  "om_load_failed rs e =
     (oe_set_state
        (case rs of
           R_failed_to_launch \<Rightarrow> Ofailed_to_launch
         | R_missing \<Rightarrow> Omissing
         | R_present \<Rightarrow> if om_state (oe_meta e) \<noteq> Oinvalid then Ofailed else om_state (oe_meta e)
         | _ \<Rightarrow> Ofailed) e, Obj_failed)"

definition om_load_successful :: "object_env \<Rightarrow> string \<Rightarrow> object_engine \<Rightarrow> (object_engine \<times> object_out) option" where
  "om_load_successful env content e =
     (case om_from_json (ov_lib env) (ov_fi env) content (oe_meta e) of
        None \<Rightarrow> None
      | Some (ob, rc) \<Rightarrow>
          (let e1 = e\<lparr>oe_meta := ob\<rparr> in
           if rc \<noteq> 0 then Some (om_load_failed R_present (oe_set_state Oinvalid e1))
           else if \<not> validate_attrs (ov_fi env) ob then Some (om_load_failed R_present (oe_set_state Oinvalid e1))
           else Some (oe_set_state Opresent e1, Obj_success)))"

section \<open>Saving\<close>

text \<open>
  The common shape of the failure functions: the state of \<open>motr_kv_writer\<close> decides.  The
  extended metadata has a writer of its own; its failure is judged by the state that the
  writer of the version entry was left in.
\<close>

definition om_write_failed :: "object_engine \<Rightarrow> object_engine \<times> object_out" where
  "om_write_failed e =
     (oe_set_state (if oe_writer_state e = W_failed_to_launch then Ofailed_to_launch else Ofailed) e, Obj_failed)"

definition save_metadata :: "object_env \<Rightarrow> object_engine \<Rightarrow> (object_engine \<times> object_out) option" where
  "save_metadata env e =
     (let ob = oe_meta e; lo = om_object_list_index_layout ob in
      if \<not> non_zero (oid lo) then None
      else map_option (\<lambda>(w, kvs). (e\<lparr>oe_writer_state := W_start\<rparr>, Obj_send Wait_save (Put_keyval lo kvs)))
             (put_keyval_one 0 lo (om_object_name ob) (om_to_json (ov_lib env) (ov_fi env) (ov_now env) ob) S3MotrKVSWriter_init))"

definition save_version_metadata :: "object_env \<Rightarrow> object_engine \<Rightarrow> (object_engine \<times> object_out) option" where
  "save_version_metadata env e =
     (let ob = oe_meta e; lo = om_objects_version_list_index_layout ob in
      if \<not> non_zero (oid lo) then None
      else (case get_version_key_in_index ob of
              None \<Rightarrow> None
            | Some key \<Rightarrow>
                map_option (\<lambda>(w, kvs). (e\<lparr>oe_writer_state := W_start\<rparr>, Obj_send Wait_save_version (Put_keyval lo kvs)))
                  (put_keyval_one 0 lo key (version_entry_to_json (ov_lib env) (ov_now env) ob) S3MotrKVSWriter_init)))"

definition om_save :: "object_env \<Rightarrow> object_engine \<Rightarrow> (object_engine \<times> object_out) option" where
  "om_save env e = (if om_is_multipart (oe_meta e) then save_metadata env e else save_version_metadata env e)"

text \<open>What the extended metadata did becomes what this object does: its handlers are \<open>save_extended_metadata_successful\<close> and \<open>_failed\<close>.\<close>

definition after_extended :: "object_env \<Rightarrow> object_engine \<Rightarrow> S3ObjectExtendedMetadata \<times> ext_out \<Rightarrow> (object_engine \<times> object_out) option" where
  "after_extended env e r =
     (let e1 = e\<lparr>oe_ext := Some (fst r)\<rparr> in
      case snd r of
        Ext_send w op \<Rightarrow> Some (e1, Obj_send (Wait_save_extended w) op)
      | Ext_success \<Rightarrow> save_metadata env e1
      | Ext_failed \<Rightarrow> Some (om_write_failed e1)
      | Ext_silent \<Rightarrow> Some (e1, Obj_silent))"

definition save_version_metadata_successful :: "object_env \<Rightarrow> object_engine \<Rightarrow> (object_engine \<times> object_out) option" where
  "save_version_metadata_successful env e =
     (case oe_ext e of
        Some x \<Rightarrow>
          (if has_entries x then (case ext_save (ov_ext env) x of None \<Rightarrow> None | Some r \<Rightarrow> after_extended env e r)
           else save_metadata env e)
      | None \<Rightarrow> save_metadata env e)"

definition save_metadata_successful :: "object_engine \<Rightarrow> object_engine \<times> object_out" where
  "save_metadata_successful e = (oe_set_state Osaved e, Obj_success)"

section \<open>Removal\<close>

definition remove_object_metadata :: "object_engine \<Rightarrow> (object_engine \<times> object_out) option" where
  "remove_object_metadata e =
     (let ob = oe_meta e; lo = om_object_list_index_layout ob in
      if \<not> non_zero (oid lo) then None
      else Some (e\<lparr>oe_writer_state := W_start\<rparr>, Obj_send Wait_remove_object (Delete_keyval lo [om_object_name ob])))"

definition om_remove :: "object_engine \<Rightarrow> (object_engine \<times> object_out) option" where
  "om_remove = remove_object_metadata"

definition remove_version_metadata :: "object_engine \<Rightarrow> (object_engine \<times> object_out) option" where
  "remove_version_metadata e =
     (let ob = oe_meta e; lo = om_objects_version_list_index_layout ob in
      if \<not> non_zero (oid lo) then None
      else map_option (\<lambda>key. (e\<lparr>oe_writer_state := W_start\<rparr>, Obj_send Wait_remove_version (Delete_keyval lo [key])))
             (get_version_key_in_index ob))"

definition remove_object_metadata_successful :: "object_engine \<Rightarrow> (object_engine \<times> object_out) option" where
  "remove_object_metadata_successful e =
     (if om_is_multipart (oe_meta e) then Some (oe_set_state Odeleted e, Obj_success) else remove_version_metadata e)"

text \<open>A version entry that could not be deleted is left to background deletion: the removal still succeeds.\<close>

definition remove_version_metadata_done :: "object_engine \<Rightarrow> object_engine \<times> object_out" where
  "remove_version_metadata_done e = (oe_set_state Odeleted e, Obj_success)"

section \<open>Replies\<close>

fun object_deliver :: "object_env \<Rightarrow> object_waiting \<Rightarrow> kvs_result \<Rightarrow> object_engine \<Rightarrow> (object_engine \<times> object_out) option" where
  "object_deliver env Wait_load (Got_value v) e = om_load_successful env v e"
| "object_deliver env Wait_load (Read_failed rs) e = Some (om_load_failed rs e)"
| "object_deliver env Wait_save_version Write_done e = save_version_metadata_successful env (e\<lparr>oe_writer_state := W_created\<rparr>)"
| "object_deliver env Wait_save_version (Write_error ws) e = Some (om_write_failed (e\<lparr>oe_writer_state := ws\<rparr>))"
| "object_deliver env (Wait_save_extended w) r e =
     (case oe_ext e of
        None \<Rightarrow> None
      | Some x \<Rightarrow> (case ext_deliver (ov_ext env) w r x of None \<Rightarrow> None | Some xr \<Rightarrow> after_extended env e xr))"
| "object_deliver env Wait_save Write_done e = Some (save_metadata_successful (e\<lparr>oe_writer_state := W_created\<rparr>))"
| "object_deliver env Wait_save (Write_error ws) e = Some (om_write_failed (e\<lparr>oe_writer_state := ws\<rparr>))"
| "object_deliver env Wait_remove_object Write_done e = remove_object_metadata_successful (e\<lparr>oe_writer_state := W_deleted\<rparr>)"
| "object_deliver env Wait_remove_object (Write_error ws) e = Some (om_write_failed (e\<lparr>oe_writer_state := ws\<rparr>))"
| "object_deliver env Wait_remove_version Write_done e = Some (remove_version_metadata_done (e\<lparr>oe_writer_state := W_deleted\<rparr>))"
| "object_deliver env Wait_remove_version (Write_error ws) e = Some (remove_version_metadata_done (e\<lparr>oe_writer_state := ws\<rparr>))"
| "object_deliver env _ _ e = None"

text \<open>The exchange with the store, as in \<open>ext_run\<close>: \<open>None\<close> for a request the store performs.\<close>

fun object_run ::
  "object_env \<Rightarrow> kvs_result option list \<Rightarrow> kvs_indices \<Rightarrow> object_engine \<Rightarrow> object_out
   \<Rightarrow> (kvs_indices \<times> object_engine \<times> object_out) option" where
  "object_run env (None # fs) st e (Obj_send w op) =
     (case object_deliver env w (kvs_answer op st) e of
        None \<Rightarrow> None
      | Some (e', out) \<Rightarrow> object_run env fs (kvs_effect op st) e' out)"
| "object_run env (Some r # fs) st e (Obj_send w op) =
     (case object_deliver env w r e of
        None \<Rightarrow> None
      | Some (e', out) \<Rightarrow> object_run env fs st e' out)"
| "object_run env fs st e out = Some (st, e, out)"

section \<open>Saving the extended metadata, seen from outside\<close>

definition ext_ready :: "S3ObjectExtendedMetadata \<Rightarrow> bool" where
  "ext_ready x \<longleftrightarrow> ext_shape (x_ext_objects x) \<and> x_object_name x \<noteq> [] \<and> x_total_processed_count x = 0
     \<and> non_zero (oid (x_extended_list_index_layout x)) \<and> length (all_frags (x_ext_objects x)) < 2 ^ 32"

definition ext_saving :: "kvs_indices \<Rightarrow> S3ObjectExtendedMetadata \<Rightarrow> ext_waiting \<Rightarrow> kvs_op \<Rightarrow> bool" where
  "ext_saving st x w op \<longleftrightarrow>
     (w = For_save \<and> op = Put_keyval (x_extended_list_index_layout x) (x_key_values x))
     \<or> ((\<exists>n. w = For_partial_save n) \<and> save_ready x \<and> (\<exists>st0. partial_progress st0 st x (Ext_send w op)))"

text \<open>How many replies are still needed at most.\<close>

fun ext_left :: "S3ObjectExtendedMetadata \<Rightarrow> ext_waiting \<Rightarrow> nat" where
  "ext_left x (For_partial_save n) = Suc (length (x_key_values x) - unat (x_total_processed_count x))"
| "ext_left x _ = 2"

lemma ext_saving_op:
  "ext_saving st x w op \<Longrightarrow> \<exists>kvs. op = Put_keyval (x_extended_list_index_layout x) kvs"
  by (auto simp: ext_saving_def partial_progress_def Let_def)

lemma ext_saving_left: "ext_saving st x w op \<Longrightarrow> 2 \<le> ext_left x w"
  by (cases w) (auto simp: ext_saving_def partial_progress_def Let_def)

lemma ext_save_starts:
  assumes "ext_ready x" "has_entries x"
  shows "\<exists>x' w op. ext_save env x = Some (x', Ext_send w op) \<and> ext_saving st x' w op
     \<and> x_extended_list_index_layout x' = x_extended_list_index_layout x
     \<and> ext_left x' w \<le> Suc (length (all_frags (x_ext_objects x)))"
proof -
  let ?n = "length (all_frags (x_ext_objects x))"
  let ?x = "x\<lparr>x_key_values := get_kv_list_of_extended_entries (xe_lib env) x\<rparr>"
  have shape: "ext_shape (x_ext_objects x)" using assms(1) by (simp add: ext_ready_def)
  have len: "length (get_kv_list_of_extended_entries (xe_lib env) x) = ?n" by (rule kv_list_length [OF shape])
  have pos: "0 < ?n"
    using shape_parts_le_frags [OF shape] assms(2) by (auto simp: has_entries_def)
  show ?thesis
  proof (cases "?n \<le> 50")
    case True
    have "\<not> list_ex (\<lambda>kv. fst kv = []) (get_kv_list_of_extended_entries (xe_lib env) x)"
      using kv_list_nonempty_keys [of x "xe_lib env"] assms(1) by (auto simp: ext_ready_def keys_nonempty_def list_all_iff list_ex_iff)
    with True pos len assms(1)
    have "ext_save env x = Some (?x, Ext_send For_save (Put_keyval (x_extended_list_index_layout x) (x_key_values ?x)))"
      by (auto simp: ext_save_def ext_ready_def Let_def put_keyval_def put_slots_def)
    then show ?thesis using pos by (intro exI [of _ ?x] exI conjI) (auto simp: ext_saving_def Suc_le_eq)
  next
    case False
    then have "large_save x" using assms(1) by (simp add: large_save_def ext_ready_def)
    from large_save_starts [OF this, of env st] obtain x0 hm where x0: "x0 = ?x"
      and save: "ext_save env x = Some (x0, Ext_send (For_partial_save hm)
           (Put_keyval (x_extended_list_index_layout x) (take (unat hm) (x_key_values x0))))"
      and inv: "save_ready x0" "partial_progress st st x0 (Ext_send (For_partial_save hm)
           (Put_keyval (x_extended_list_index_layout x) (take (unat hm) (x_key_values x0))))" by metis
    then show ?thesis using len by (intro exI [of _ x0] exI conjI) (auto simp: ext_saving_def)
  qed
qed

lemma ext_saving_done:
  assumes "ext_saving st x w op"
  shows "\<exists>x' out. ext_deliver env w (kvs_answer op st) x = Some (x', out)
     \<and> x_extended_list_index_layout x' = x_extended_list_index_layout x
     \<and> (out = Ext_success \<or> (\<exists>w' op'. out = Ext_send w' op' \<and> ext_saving (kvs_effect op st) x' w' op' \<and> ext_left x' w' < ext_left x w))"
proof -
  from assms consider "w = For_save" "op = Put_keyval (x_extended_list_index_layout x) (x_key_values x)"
    | n st0 where "w = For_partial_save n" "save_ready x" "partial_progress st0 st x (Ext_send w op)"
    by (auto simp: ext_saving_def)
  then show ?thesis
  proof cases
    case 1
    then show ?thesis by simp
  next
    case (2 n st0)
    then have w: "w = For_partial_save n" and rdy: "save_ready x" and inv: "partial_progress st0 st x (Ext_send w op)" by auto
    obtain x' out where step: "ext_deliver env w (kvs_answer op st) x = Some (x', out)"
      and inv': "partial_progress st0 (kvs_effect op st) x' out" "save_ready x'"
      and same: "x_key_values x' = x_key_values x" "x_extended_list_index_layout x' = x_extended_list_index_layout x"
      and more: "unat (x_total_processed_count x) + 50 \<le> unat (x_total_processed_count x')" "out \<noteq> Ext_failed"
      using partial_progress_done [OF inv rdy, of env] by blast
    have bound: "unat (x_total_processed_count x') \<le> length (x_key_values x)"
      using inv'(1) same by (simp add: partial_progress_def Let_def)
    show ?thesis
    proof (cases out)
      case (Ext_send w' op')
      then obtain n' where w': "w' = For_partial_save n'" using inv'(1) by (auto simp: partial_progress_def Let_def)
      then have "ext_left x' w' < ext_left x w" using more(1) bound same w by simp
      then show ?thesis using step same inv' Ext_send w' by (auto simp: ext_saving_def)
    next
      case Ext_silent
      then show ?thesis using inv'(1) by (simp add: partial_progress_def Let_def)
    qed (use step same more in auto)
  qed
qed

lemma ext_saving_failure:
  assumes "ext_saving st x w op" "ws = W_failed \<or> ws = W_failed_to_launch"
  shows "ext_deliver env w (Write_error ws) x = Some (x, Ext_failed)"
  using assms by (auto simp: ext_saving_def)

section \<open>A save at every moment\<close>

definition version_key :: "S3ObjectMetadata \<Rightarrow> string" where
  "version_key ob = om_object_name ob @ ''/'' @ om_rev_epoch_version_id_key ob"

definition list_entry :: "object_env \<Rightarrow> S3ObjectMetadata \<Rightarrow> string \<times> string" where
  "list_entry env ob = (om_object_name ob, om_to_json (ov_lib env) (ov_fi env) (ov_now env) ob)"

definition version_entry :: "object_env \<Rightarrow> S3ObjectMetadata \<Rightarrow> string \<times> string" where
  "version_entry env ob = (version_key ob, version_entry_to_json (ov_lib env) (ov_now env) ob)"

abbreviation list_oid :: "S3ObjectMetadata \<Rightarrow> m0_uint128" where
  "list_oid ob \<equiv> oid (om_object_list_index_layout ob)"

abbreviation version_oid :: "S3ObjectMetadata \<Rightarrow> m0_uint128" where
  "version_oid ob \<equiv> oid (om_objects_version_list_index_layout ob)"

abbreviation ext_oid :: "S3ObjectExtendedMetadata \<Rightarrow> m0_uint128" where
  "ext_oid x \<equiv> oid (x_extended_list_index_layout x)"

text \<open>A new version of a plain object, with a name, a version and its indices.\<close>

definition object_ready :: "S3ObjectMetadata \<Rightarrow> bool" where
  "object_ready ob \<longleftrightarrow> \<not> om_is_multipart ob \<and> om_object_name ob \<noteq> [] \<and> om_rev_epoch_version_id_key ob \<noteq> []
     \<and> non_zero (list_oid ob) \<and> non_zero (version_oid ob) \<and> list_oid ob \<noteq> version_oid ob"

definition ext_apart :: "S3ObjectMetadata \<Rightarrow> S3ObjectExtendedMetadata \<Rightarrow> bool" where
  "ext_apart ob x \<longleftrightarrow> ext_oid x \<noteq> list_oid ob \<and> ext_oid x \<noteq> version_oid ob"

definition ext_part_ready :: "S3ObjectMetadata \<Rightarrow> S3ObjectExtendedMetadata option \<Rightarrow> bool" where
  "ext_part_ready ob xo = (case xo of None \<Rightarrow> True | Some x \<Rightarrow> ext_apart ob x \<and> (has_entries x \<longrightarrow> ext_ready x))"

definition extended_count :: "S3ObjectExtendedMetadata option \<Rightarrow> nat" where
  "extended_count xo = (case xo of None \<Rightarrow> 0 | Some x \<Rightarrow> length (all_frags (x_ext_objects x)))"

definition version_saved :: "object_env \<Rightarrow> S3ObjectMetadata \<Rightarrow> kvs_indices \<Rightarrow> kvs_indices \<Rightarrow> bool" where
  "version_saved env ob st0 st \<longleftrightarrow>
     st (list_oid ob) = st0 (list_oid ob) \<and> st (version_oid ob) = put_all [version_entry env ob] (st0 (version_oid ob))"

fun object_save_inv :: "object_env \<Rightarrow> S3ObjectMetadata \<Rightarrow> kvs_indices \<Rightarrow> kvs_indices \<Rightarrow> object_engine \<Rightarrow> object_out \<Rightarrow> bool" where
  "object_save_inv env ob st0 st e (Obj_send Wait_save_version op) \<longleftrightarrow>
     oe_meta e = ob \<and> ext_part_ready ob (oe_ext e) \<and> st = st0
     \<and> op = Put_keyval (om_objects_version_list_index_layout ob) [version_entry env ob]"
| "object_save_inv env ob st0 st e (Obj_send (Wait_save_extended w) op) \<longleftrightarrow>
     oe_meta e = ob \<and> version_saved env ob st0 st \<and> (\<exists>x. oe_ext e = Some x \<and> ext_apart ob x \<and> ext_saving st x w op)"
| "object_save_inv env ob st0 st e (Obj_send Wait_save op) \<longleftrightarrow>
     oe_meta e = ob \<and> version_saved env ob st0 st \<and> op = Put_keyval (om_object_list_index_layout ob) [list_entry env ob]"
| "object_save_inv env ob st0 st e Obj_success \<longleftrightarrow>
     om_state (oe_meta e) = Osaved \<and> st (list_oid ob) = put_all [list_entry env ob] (st0 (list_oid ob))
     \<and> st (version_oid ob) = put_all [version_entry env ob] (st0 (version_oid ob))"
| "object_save_inv env ob st0 st e Obj_failed \<longleftrightarrow>
     (om_state (oe_meta e) = Ofailed \<or> om_state (oe_meta e) = Ofailed_to_launch)
     \<and> st (list_oid ob) = st0 (list_oid ob) \<and> (st = st0 \<or> version_saved env ob st0 st)"
| "object_save_inv env ob st0 st e _ = False"

fun object_save_left :: "object_engine \<Rightarrow> object_out \<Rightarrow> nat" where
  "object_save_left e (Obj_send Wait_save_version op) = extended_count (oe_ext e) + 2"
| "object_save_left e (Obj_send (Wait_save_extended w) op) = (case oe_ext e of None \<Rightarrow> 0 | Some x \<Rightarrow> ext_left x w)"
| "object_save_left e (Obj_send Wait_save op) = 1"
| "object_save_left e _ = 0"

lemma save_metadata_sends:
  assumes "object_ready (oe_meta e)"
  shows "save_metadata env e = Some (e\<lparr>oe_writer_state := W_start\<rparr>,
     Obj_send Wait_save (Put_keyval (om_object_list_index_layout (oe_meta e)) [list_entry env (oe_meta e)]))"
  using assms by (simp add: save_metadata_def object_ready_def put_keyval_one_def list_entry_def Let_def)

lemma om_save_sends:
  assumes "object_ready (oe_meta e)"
  shows "om_save env e = Some (e\<lparr>oe_writer_state := W_start\<rparr>,
     Obj_send Wait_save_version (Put_keyval (om_objects_version_list_index_layout (oe_meta e)) [version_entry env (oe_meta e)]))"
  using assms
  by (simp add: om_save_def save_version_metadata_def object_ready_def put_keyval_one_def version_entry_def version_key_def
      get_version_key_in_index_def Let_def)

lemma save_step_version:
  assumes ok: "object_ready ob" and inv: "object_save_inv env ob st0 st e (Obj_send Wait_save_version op)"
  shows "\<exists>e' out. object_deliver env Wait_save_version (kvs_answer op st) e = Some (e', out)
     \<and> object_save_inv env ob st0 (kvs_effect op st) e' out \<and> object_save_left e' out < object_save_left e (Obj_send Wait_save_version op)"
proof -
  let ?e = "e\<lparr>oe_writer_state := W_created\<rparr>"
  have e: "oe_meta e = ob" and ext: "ext_part_ready ob (oe_ext e)" and st: "st = st0"
    and op: "op = Put_keyval (om_objects_version_list_index_layout ob) [version_entry env ob]" using inv by auto
  have vs: "version_saved env ob st0 (kvs_effect op st)"
    using ok by (auto simp: version_saved_def op st object_ready_def)
  have del: "object_deliver env Wait_save_version (kvs_answer op st) e = save_version_metadata_successful env ?e" by (simp add: op)
  show ?thesis
  proof (cases "\<exists>x. oe_ext e = Some x \<and> has_entries x")
    case True
    then obtain x where x: "oe_ext e = Some x" "has_entries x" by blast
    with ext have rdy: "ext_ready x" "ext_apart ob x" by (auto simp: ext_part_ready_def)
    from ext_save_starts [OF rdy(1) x(2), of "ov_ext env" "kvs_effect op st"] obtain x' w op' where
      sv: "ext_save (ov_ext env) x = Some (x', Ext_send w op')" "ext_saving (kvs_effect op st) x' w op'"
        "x_extended_list_index_layout x' = x_extended_list_index_layout x" "ext_left x' w \<le> Suc (length (all_frags (x_ext_objects x)))"
      by blast
    then show ?thesis
      using x rdy vs e unfolding del
      by (simp add: save_version_metadata_successful_def after_extended_def Let_def ext_apart_def extended_count_def)
  next
    case False
    then have "save_version_metadata_successful env ?e = save_metadata env ?e"
      by (auto simp: save_version_metadata_successful_def split: option.split)
    then show ?thesis using save_metadata_sends [of ?e env] ok e vs unfolding del by simp
  qed
qed

lemma save_step_extended:
  assumes ok: "object_ready ob" and inv: "object_save_inv env ob st0 st e (Obj_send (Wait_save_extended w) op)"
  shows "\<exists>e' out. object_deliver env (Wait_save_extended w) (kvs_answer op st) e = Some (e', out)
     \<and> object_save_inv env ob st0 (kvs_effect op st) e' out \<and> object_save_left e' out < object_save_left e (Obj_send (Wait_save_extended w) op)"
proof -
  obtain x where e: "oe_meta e = ob" and vs: "version_saved env ob st0 st" and x: "oe_ext e = Some x" "ext_apart ob x"
    and sv: "ext_saving st x w op" using inv by auto
  obtain kvs where op: "op = Put_keyval (x_extended_list_index_layout x) kvs" using ext_saving_op [OF sv] by blast
  have vs': "version_saved env ob st0 (kvs_effect op st)"
    using vs x(2) by (auto simp: version_saved_def op ext_apart_def)
  obtain x' out where step: "ext_deliver (ov_ext env) w (kvs_answer op st) x = Some (x', out)"
    and lo: "x_extended_list_index_layout x' = x_extended_list_index_layout x"
    and out: "out = Ext_success \<or> (\<exists>w' op'. out = Ext_send w' op' \<and> ext_saving (kvs_effect op st) x' w' op' \<and> ext_left x' w' < ext_left x w)"
    using ext_saving_done [OF sv, of "ov_ext env"] by blast
  let ?e = "e\<lparr>oe_ext := Some x'\<rparr>"
  have del: "object_deliver env (Wait_save_extended w) (kvs_answer op st) e = after_extended env e (x', out)"
    using x step by simp
  from out show ?thesis
  proof (elim disjE exE conjE)
    assume "out = Ext_success"
    then show ?thesis
      using save_metadata_sends [of ?e env] ok e vs' x ext_saving_left [OF sv] unfolding del
      by (simp add: after_extended_def Let_def)
  next
    fix w' op'
    assume "out = Ext_send w' op'" "ext_saving (kvs_effect op st) x' w' op'" "ext_left x' w' < ext_left x w"
    then show ?thesis using e vs' x lo unfolding del by (simp add: after_extended_def Let_def ext_apart_def)
  qed
qed

lemma object_save_step:
  assumes ok: "object_ready ob" and inv: "object_save_inv env ob st0 st e (Obj_send w op)"
  shows "\<exists>e' out. object_deliver env w (kvs_answer op st) e = Some (e', out)
     \<and> object_save_inv env ob st0 (kvs_effect op st) e' out \<and> object_save_left e' out < object_save_left e (Obj_send w op)"
proof (cases w)
  case Wait_save
  then show ?thesis using ok inv
    by (auto simp: save_metadata_successful_def oe_set_state_def version_saved_def object_ready_def)
qed (use save_step_version [OF ok] save_step_extended [OF ok] inv in auto)

lemma save_step_failure:
  assumes inv: "object_save_inv env ob st0 st e (Obj_send w op)" and ws: "ws = W_failed \<or> ws = W_failed_to_launch"
  shows "\<exists>e'. object_deliver env w (Write_error ws) e = Some (e', Obj_failed) \<and> object_save_inv env ob st0 st e' Obj_failed"
proof (cases w)
  case (Wait_save_extended xw)
  with inv obtain x where x: "oe_ext e = Some x" "ext_saving st x xw op" "version_saved env ob st0 st" by auto
  then show ?thesis
    using ext_saving_failure [OF x(2) ws, of "ov_ext env"]
    by (simp add: Wait_save_extended after_extended_def om_write_failed_def oe_set_state_def version_saved_def Let_def)
qed (use inv in \<open>auto simp: om_write_failed_def oe_set_state_def version_saved_def\<close>)

lemma object_run_stops [simp]: "(\<And>w op. out \<noteq> Obj_send w op) \<Longrightarrow> object_run env fs st e out = Some (st, e, out)"
  by (cases out; cases fs) auto

lemma object_save_run:
  assumes "object_ready ob" "object_save_inv env ob st0 st e out" "possible_faults fs"
  shows "\<exists>st' e' out'. object_run env fs st e out = Some (st', e', out') \<and> object_save_inv env ob st0 st' e' out'
     \<and> (object_save_left e out \<le> length fs \<longrightarrow> (\<forall>w op. out' \<noteq> Obj_send w op))"
  using assms
proof (induction fs arbitrary: st e out)
  case Nil
  have "object_save_left e out \<noteq> 0" if "out = Obj_send w op" for w op
    using that Nil.prems(2) by (cases w) (auto dest: ext_saving_left)
  then show ?case using Nil.prems(2) by (cases out) auto
next
  case (Cons f fs)
  have fs: "possible_faults fs" using Cons.prems(3) by (simp add: possible_faults_def)
  show ?case
  proof (cases out)
    case (Obj_send w op)
    show ?thesis
    proof (cases f)
      case None
      obtain e1 o1 where step: "object_deliver env w (kvs_answer op st) e = Some (e1, o1)"
        and inv: "object_save_inv env ob st0 (kvs_effect op st) e1 o1" and less: "object_save_left e1 o1 < object_save_left e out"
        using object_save_step [OF Cons.prems(1)] Cons.prems(2) Obj_send by blast
      from Cons.IH [OF Cons.prems(1) inv fs] less show ?thesis by (fastforce simp: Obj_send None step)
    next
      case (Some r)
      then obtain ws where "r = Write_error ws" "ws = W_failed \<or> ws = W_failed_to_launch"
        using Cons.prems(3) by (auto simp: possible_faults_def)
      with save_step_failure [of env ob st0 st e w op ws] Cons.prems(2) show ?thesis by (auto simp: Obj_send Some)
    qed
  qed (use Cons.prems in auto)
qed

section \<open>Properties\<close>

lemma kept_by_add: "k \<in> fst ` set m \<Longrightarrow> (f ++ map_get m) k = map_get m k"
  using dom_map_get [of m] by (auto simp: map_add_def split: option.split)

text \<open>C6: Saving a new version of an object is all or nothing for its readers.  Whatever requests
  of the save fail, the object list keeps its old entry until the last request, and a failure
  is reported only while it does; success is reported only with the new entry in the object
  list and the version in the version list.  The save never fails an assertion and ends after
  at most two replies plus one for each extended entry.\<close>

theorem object_save_all_or_nothing:
  fixes env :: object_env and e :: object_engine
  assumes "object_ready (oe_meta e)" "ext_part_ready (oe_meta e) (oe_ext e)" "possible_faults fs"
  defines "ob \<equiv> oe_meta e"
  shows "\<exists>e0 o0 st' e' out'. om_save env e = Some (e0, o0) \<and> object_run env fs st e0 o0 = Some (st', e', out')
    \<and> (extended_count (oe_ext e) + 2 \<le> length fs \<longrightarrow> out' = Obj_success \<or> out' = Obj_failed)
    \<and> (out' = Obj_success \<longrightarrow> om_state (oe_meta e') = Osaved
         \<and> st' (list_oid ob) = put_all [list_entry env ob] (st (list_oid ob))
         \<and> st' (version_oid ob) = put_all [version_entry env ob] (st (version_oid ob)))
    \<and> (out' \<noteq> Obj_success \<longrightarrow> st' (list_oid ob) = st (list_oid ob))
    \<and> (out' = Obj_failed \<longrightarrow> om_state (oe_meta e') = Ofailed \<or> om_state (oe_meta e') = Ofailed_to_launch)"
proof -
  define e0 where "e0 = e\<lparr>oe_writer_state := W_start\<rparr>"
  define o0 where "o0 = Obj_send Wait_save_version (Put_keyval (om_objects_version_list_index_layout ob) [version_entry env ob])"
  have save: "om_save env e = Some (e0, o0)" unfolding e0_def o0_def ob_def by (rule om_save_sends [OF assms(1)])
  have "object_save_inv env ob st st e0 o0" using assms(2) by (simp add: e0_def o0_def ob_def)
  from object_save_run [OF assms(1) [folded ob_def] this assms(3)] obtain st' e' out' where
    run: "object_run env fs st e0 o0 = Some (st', e', out')" and inv: "object_save_inv env ob st st' e' out'"
    and left: "object_save_left e0 o0 \<le> length fs \<longrightarrow> (\<forall>w op. out' \<noteq> Obj_send w op)" by blast
  have "object_save_left e0 o0 = extended_count (oe_ext e) + 2" by (simp add: e0_def o0_def)
  moreover have "st' (list_oid ob) = st (list_oid ob)" if "out' \<noteq> Obj_success"
  proof (cases out')
    case (Obj_send w op)
    then show ?thesis using inv by (cases w) (auto simp: version_saved_def)
  qed (use inv that in auto)
  ultimately show ?thesis using save run inv left by (cases out') (auto intro!: exI)
qed

text \<open>C34: What a load reports, without fault injection.  With a store that answers, the verdict
  is determined by the entry under the requested name in the object list: none gives
  \<open>missing\<close>; text that does not parse gives \<open>invalid\<close>; a document whose bucket name and object name
  are both those that were asked for gives \<open>present\<close> and success, with what was read from it; a
  document with any other bucket or object name gives \<open>invalid\<close>, so that the metadata of another
  object is never returned.  A failing read gives \<open>missing\<close>, \<open>failed_to_launch\<close> or \<open>failed\<close>.  The store
  is never changed.  The handler throws only when an entry parses but a member of the document has an
  unexpected type.\<close>

theorem object_load_verdict:
  fixes env :: object_env
  assumes "non_zero (list_oid (oe_meta e))" "ov_fi env = no_faults"
  shows "\<exists>e0 o0. om_load e = Some (e0, o0)
    \<and> (\<forall>r. \<exists>e'. object_run env [Some (Read_failed r)] st e0 o0 = Some (st, e', Obj_failed) \<and> om_state (oe_meta e') =
         (if r = R_missing then Omissing else if r = R_failed_to_launch then Ofailed_to_launch else Ofailed))
    \<and> (case map_get (st (list_oid (oe_meta e))) (om_object_name (oe_meta e)) of
         None \<Rightarrow> \<exists>e'. object_run env [None] st e0 o0 = Some (st, e', Obj_failed) \<and> om_state (oe_meta e') = Omissing
       | Some v \<Rightarrow>
           (case reader_parse (ov_lib env) (c_str v) of
              None \<Rightarrow> \<exists>e'. object_run env [None] st e0 o0 = Some (st, e', Obj_failed) \<and> om_state (oe_meta e') = Oinvalid
            | Some root \<Rightarrow>
                (case object_from_root (ov_lib env) no_faults root (oe_meta e0) of
                   None \<Rightarrow> object_run env [None] st e0 o0 = None
                 | Some ob \<Rightarrow>
                     if json_string (ov_lib env) root ''Bucket-Name'' = Some (om_bucket_name (oe_meta e))
                        \<and> json_string (ov_lib env) root ''Object-Name'' = Some (om_object_name (oe_meta e))
                     then object_run env [None] st e0 o0 = Some (st, e0\<lparr>oe_meta := ob\<lparr>om_state := Opresent\<rparr>\<rparr>, Obj_success)
                     else \<exists>e'. object_run env [None] st e0 o0 = Some (st, e', Obj_failed) \<and> om_state (oe_meta e') = Oinvalid)))"
proof -
  define e0 where "e0 = e\<lparr>oe_meta := (oe_meta e)\<lparr>om_state := Oempty, om_requested_bucket_name := om_bucket_name (oe_meta e),
      om_requested_object_name := om_object_name (oe_meta e)\<rparr>\<rparr>"
  define o0 where "o0 = Obj_send Wait_load (Get_keyval (om_object_list_index_layout (oe_meta e)) (om_object_name (oe_meta e)))"
  have load: "om_load e = Some (e0, o0)" using assms(1) by (simp add: om_load_def e0_def o0_def Let_def)
  have failed: "\<exists>e'. object_run env [Some (Read_failed r)] st e0 o0 = Some (st, e', Obj_failed) \<and> om_state (oe_meta e') =
      (if r = R_missing then Omissing else if r = R_failed_to_launch then Ofailed_to_launch else Ofailed)" for r
    by (cases r) (simp_all add: o0_def e0_def om_load_failed_def oe_set_state_def)
  have matches: "validate_attrs no_faults ob \<longleftrightarrow>
      json_string (ov_lib env) root ''Bucket-Name'' = Some (om_bucket_name (oe_meta e))
      \<and> json_string (ov_lib env) root ''Object-Name'' = Some (om_object_name (oe_meta e))"
    if "object_from_root (ov_lib env) no_faults root (oe_meta e0) = Some ob" for root ob
    using object_from_root_names [OF that] by (auto simp: validate_attrs_def no_faults_def e0_def)
  have fi: "\<not> object_metadata_corrupted no_faults" by (simp add: no_faults_def)
  show ?thesis
    by (rule exI [of _ e0], rule exI [of _ o0], intro conjI allI load failed)
      (simp add: o0_def om_load_successful_def om_from_json_def om_load_failed_def oe_set_state_def assms(2) fi matches Let_def
        split: option.split)
qed

text \<open>Removing an object.  A reported failure leaves every index as it was; success means the
  entry is gone from the object list and no other entry of it has changed, even when the
  version entry could not be deleted.\<close>

theorem object_remove_verdict:
  fixes env :: object_env
  assumes "object_ready (oe_meta e)" "kvs_failure (Delete_keyval lo [k]) r"
  defines "ob \<equiv> oe_meta e"
  shows "\<exists>e0 o0. om_remove e = Some (e0, o0)
    \<and> (\<exists>e'. object_run env [Some r] st e0 o0 = Some (st, e', Obj_failed)
         \<and> om_state (oe_meta e') \<in> {Ofailed, Ofailed_to_launch})
    \<and> (\<forall>f \<in> {None, Some r}. \<exists>st' e'. object_run env [None, f] st e0 o0 = Some (st', e', Obj_success)
         \<and> om_state (oe_meta e') = Odeleted
         \<and> (\<forall>n. map_get (st' (list_oid ob)) n = (if n = om_object_name ob then None else map_get (st (list_oid ob)) n))
         \<and> (f = None \<longrightarrow> map_get (st' (version_oid ob)) (version_key ob) = None))"
  using assms
  by (cases r) (auto simp: om_remove_def remove_object_metadata_def object_ready_def Let_def om_write_failed_def oe_set_state_def
      remove_object_metadata_successful_def remove_version_metadata_def get_version_key_in_index_def version_key_def
      remove_version_metadata_done_def delete_all_get)

text \<open>C35: A saved object is loaded back: after a save that reported success, an object made for
  the same bucket and key loads from the object list, is \<open>present\<close>, and has the layout, object
  id, counts, attributes, tags and ACL that were saved.\<close>

theorem saved_object_loads_back:
  fixes env :: object_env and b :: object_engine
  assumes save: "object_ready (oe_meta e)" "ext_part_ready (oe_meta e) (oe_ext e)" "om_save env e = Some (e0, o0)"
      "object_run env fs st e0 o0 = Some (st', e', Obj_success)" "possible_faults fs" "kvs_wf st"
    and ob: "object_wf (oe_meta e)" "om_motr_oid_str (oe_meta e) \<noteq> []" "attributes_c_strings (om_system (oe_meta e))" "attributes_c_strings (om_user (oe_meta e))"
    and env: "jsoncpp_reads_back (ov_lib env) (JObj (object_doc no_faults (ov_now env) (oe_meta e)))"
      "jsoncpp_reads_numbers (ov_lib env)" "ov_fi env = no_faults"
    and b: "om_bucket_name (oe_meta b) = om_bucket_name (oe_meta e)" "om_object_name (oe_meta b) = om_object_name (oe_meta e)"
      "om_object_list_index_layout (oe_meta b) = om_object_list_index_layout (oe_meta e)" "\<not> om_is_multipart (oe_meta b)" "object_wf (oe_meta b)"
  shows "\<exists>b0 p0. om_load b = Some (b0, p0)
    \<and> object_run env [None] st' b0 p0 = Some (st', b0\<lparr>oe_meta := (object_copy (oe_meta e) (oe_meta b0))\<lparr>om_state := Opresent\<rparr>\<rparr>, Obj_success)
    \<and> (let c = object_copy (oe_meta e) (oe_meta b0); ob = oe_meta e in
         om_layout_id c = om_layout_id ob \<and> om_oid c = om_oid ob \<and> om_pvid_str c = om_pvid_str ob
         \<and> om_obj_fragments c = om_obj_fragments ob \<and> om_obj_parts c = om_obj_parts ob
         \<and> (\<forall>k. k \<in> fst ` set (om_user ob) \<longrightarrow> map_get (om_user c) k = map_get (om_user ob) k)
         \<and> (\<forall>k. k \<in> fst ` set (om_tags ob) \<longrightarrow> map_get (om_tags c) k = map_get (om_tags ob) k))"
proof -
  let ?ob = "oe_meta e"
  have e0: "e0 = e\<lparr>oe_writer_state := W_start\<rparr>"
    and o0: "o0 = Obj_send Wait_save_version (Put_keyval (om_objects_version_list_index_layout ?ob) [version_entry env ?ob])"
    using om_save_sends [OF save(1), of env] save(3) by auto
  have "object_save_inv env ?ob st st e0 o0" using save(2) by (simp add: e0 o0)
  from object_save_run [OF save(1) this save(5)] save(4)
  have "st' (list_oid ?ob) = put_all [list_entry env ?ob] (st (list_oid ?ob))" by auto
  then have found: "map_get (st' (list_oid ?ob)) (om_object_name ?ob) = Some (om_to_json (ov_lib env) no_faults (ov_now env) ?ob)"
    using save(6) by (simp add: put_all_def list_entry_def kvs_wf_def env(3))
  define b0 where "b0 = b\<lparr>oe_meta := (oe_meta b)\<lparr>om_state := Oempty, om_requested_bucket_name := om_bucket_name (oe_meta b),
                                 om_requested_object_name := om_object_name (oe_meta b)\<rparr>\<rparr>"
  have read: "om_from_json (ov_lib env) no_faults (om_to_json (ov_lib env) no_faults (ov_now env) ?ob) (oe_meta b0)
      = Some (object_copy ?ob (oe_meta b0), 0)"
    by (rule om_from_json_to_json [OF ob(1) env(1,2) ob(3,4)]) (simp add: b0_def b(4))
  have "om_load b = Some (b0, Obj_send Wait_load (Get_keyval (om_object_list_index_layout ?ob) (om_object_name ?ob)))"
    using save(1) b by (simp add: om_load_def b0_def object_ready_def Let_def)
  moreover have "validate_attrs no_faults (object_copy ?ob (oe_meta b0))"
    by (simp add: validate_attrs_def no_faults_def b0_def b)
  moreover have "om_oid (object_copy ?ob (oe_meta b0)) = om_oid ?ob" using ob(1,2) by (simp add: object_wf_def)
  moreover have "map_get (om_user (object_copy ?ob (oe_meta b0))) = map_get (om_user (oe_meta b)) ++ map_get (om_user ?ob)"
    "map_get (om_tags (object_copy ?ob (oe_meta b0))) = map_get (om_tags (oe_meta b)) ++ map_get (om_tags ?ob)"
    using ob(1) b(5) by (simp_all add: merged_get object_wf_def b0_def)
  ultimately show ?thesis
    using found read by (simp add: om_load_successful_def env(3) oe_set_state_def Let_def kept_by_add)
qed

section \<open>Witnesses\<close>

definition sample_engine :: object_engine where
  "sample_engine =
     \<lparr>oe_meta = sample_object\<lparr>om_object_list_index_layout := zero_layout\<lparr>oid := \<lparr>u_hi = 1, u_lo = 1\<rparr>\<rparr>,
                 om_objects_version_list_index_layout := zero_layout\<lparr>oid := \<lparr>u_hi = 1, u_lo = 2\<rparr>\<rparr>,
                 om_rev_epoch_version_id_key := ''18446742501''\<rparr>,
      oe_ext = None, oe_writer_state = W_start\<rparr>"

definition sample_object_env :: object_env where
  "sample_object_env =
     \<lparr>ov_lib = one_document_lib (JObj (object_doc no_faults ''now'' (oe_meta sample_engine))), ov_fi = no_faults, ov_now = ''now'',
      ov_ext = \<lparr>xe_lib = one_document_lib JNull, xe_object_metadata_corrupted = False, xe_motr_idx_fetch_count = 1,
                xe_client_awaits_body = False\<rparr>\<rparr>"

lemma sample_engine_ready: "object_ready (oe_meta sample_engine)" "ext_part_ready (oe_meta sample_engine) (oe_ext sample_engine)"
  by (simp_all add: object_ready_def ext_part_ready_def sample_engine_def sample_object_fields non_zero_def zero_layout_def)

lemma sample_engine_oids: "list_oid (oe_meta sample_engine) = \<lparr>u_hi = 1, u_lo = 1\<rparr>" "om_object_name (oe_meta sample_engine) = ''photo''"
  by (simp_all add: sample_engine_def sample_object_fields)

theorem object_save_all_or_nothing_witness:
  "\<exists>e0 o0 st' e' out'. om_save sample_object_env sample_engine = Some (e0, o0)
    \<and> object_run sample_object_env [None, Some (Write_error W_failed)] (\<lambda>_. []) e0 o0 = Some (st', e', out')
    \<and> (out' = Obj_success \<or> out' = Obj_failed)"
  using object_save_all_or_nothing [OF sample_engine_ready, of "[None, Some (Write_error W_failed)]" sample_object_env "\<lambda>_. []"]
  by (auto simp: possible_faults_def sample_engine_def extended_count_def)

theorem object_load_verdict_witness:
  "\<exists>e0 o0 e'. om_load sample_engine = Some (e0, o0) \<and> object_run sample_object_env [None] (\<lambda>_. []) e0 o0 = Some (\<lambda>_. [], e', Obj_failed)
    \<and> om_state (oe_meta e') = Omissing"
proof -
  have "non_zero (list_oid (oe_meta sample_engine))" "ov_fi sample_object_env = no_faults"
    by (simp_all add: sample_engine_oids non_zero_def sample_object_env_def)
  from object_load_verdict [OF this, of "\<lambda>_. []"] show ?thesis by (auto simp: map_get_def)
qed

theorem object_remove_verdict_witness:
  "\<exists>e0 o0 st' e'. om_remove sample_engine = Some (e0, o0)
    \<and> object_run sample_object_env [None, None] (\<lambda>_. [(''photo'', ''x'')]) e0 o0 = Some (st', e', Obj_success)
    \<and> map_get (st' \<lparr>u_hi = 1, u_lo = 1\<rparr>) ''photo'' = None"
  using object_remove_verdict [OF sample_engine_ready(1), of zero_layout "[]" "Write_error W_failed" sample_object_env "\<lambda>_. [(''photo'', ''x'')]"]
  unfolding sample_engine_oids by (auto simp del: object_run.simps)

lemma sample_engine_wf: "object_wf (oe_meta sample_engine)" "om_motr_oid_str (oe_meta sample_engine) \<noteq> []"
  "attributes_c_strings (om_system (oe_meta sample_engine))" "attributes_c_strings (om_user (oe_meta sample_engine))"
  "om_is_multipart (oe_meta sample_engine) = False"
  using sample_object_wf by (simp_all add: sample_engine_def object_wf_def sample_object_fields attributes_c_strings_def no_nul_def)

theorem saved_object_loads_back_witness:
  "\<exists>st' b0 p0 b1. om_load sample_engine = Some (b0, p0) \<and> object_run sample_object_env [None] st' b0 p0 = Some (st', b1, Obj_success)"
proof -
  obtain e0 o0 where save: "om_save sample_object_env sample_engine = Some (e0, o0)"
    using om_save_sends [OF sample_engine_ready(1), of sample_object_env] by blast
  have "object_save_inv sample_object_env (oe_meta sample_engine) (\<lambda>_. []) (\<lambda>_. []) e0 o0" "object_save_left e0 o0 = 2"
    using om_save_sends [OF sample_engine_ready(1), of sample_object_env] save sample_engine_ready(2)
    by (auto simp: sample_engine_def extended_count_def)
  then obtain st' e' where run: "object_run sample_object_env [None, None] (\<lambda>_. []) e0 o0 = Some (st', e', Obj_success)"
    using om_save_sends [OF sample_engine_ready(1), of sample_object_env] save save_metadata_sends
      [of "sample_engine\<lparr>oe_writer_state := W_created\<rparr>" sample_object_env] sample_engine_ready(1)
    by (auto simp: save_version_metadata_successful_def save_metadata_successful_def sample_engine_def)
  show ?thesis
    using saved_object_loads_back [OF sample_engine_ready save run _ _ sample_engine_wf(1-4), of sample_engine]
      one_document_lib_reads_back one_document_lib_reads_numbers sample_engine_wf(1,5)
    by (auto simp: possible_faults_def kvs_wf_def sample_object_env_def)
qed

end
