(* ===== verification/Object_Action.thy ===== *)
theory Object_Action
  imports Action_Base Ext_Metadata Common_Utilities
begin

text \<open>
  \<open>server/s3_object_action_base.cc\<close>: the base class of the object requests.  It loads the
  metadata of the bucket and of the object, and of the parts of an extended object, before the
  tasks of the derived class run.

  The record extends over the action of \<open>Action_Base\<close>; a derived class is a further extension.
  Each handler returns the new state and the list of what it did: the events of the engine, the
  loads it started, the virtual functions it called (always as its last act) and what it sent
  to the client.  A null pointer that is dereferenced is \<open>None\<close>.
\<close>

record 't object_action =
  oa_act :: "'t action"
  oa_request :: object_request
  oa_bucket :: "S3BucketMetadata option"
  oa_object :: "S3ObjectMetadata option"
  oa_ext :: "S3ObjectExtendedMetadata option"
  oa_obj_list_idx_lo :: s3_motr_idx_layout
  oa_obj_version_list_idx_lo :: s3_motr_idx_layout
  oa_additional_bucket_name :: string
  oa_additional_object_name :: string
  oa_additional_bucket :: "S3BucketMetadata option"
  oa_additional_object :: "S3ObjectMetadata option"
  oa_additional_ext :: "S3ObjectExtendedMetadata option"

datatype 't oa_out =
    Engine "'t event"
  | Load_bucket S3BucketMetadata
  | Load_object S3ObjectMetadata
  | Load_ext S3ObjectExtendedMetadata
  | Load_additional_bucket S3BucketMetadata
  | Load_additional_object S3ObjectMetadata
  | Load_additional_ext S3ObjectExtendedMetadata
  | Fetch_bucket_info_failed
  | Fetch_object_info_failed
  | Fetch_additional_bucket_info_failed
  | Fetch_additional_object_info_failed
  | Set_acl_and_policy string string
  | Audit_bucket_owner string
  | Set_object_size size_t
  | Out_header string string
  | Reply_start nat
  | Reply_body bytes
  | Reply_end
  | Respond string
  | Respond_status nat string

definition object_action_init ::
  "object_request \<Rightarrow> bool \<Rightarrow> string list \<Rightarrow> bool \<Rightarrow> bool \<Rightarrow> (s3_base_task \<Rightarrow> 't) \<Rightarrow> 't object_action" where
  "object_action_init req is_auth_disabled in_headers check_shutdown skip_auth' task =
     \<lparr>oa_act = S3Action_init is_auth_disabled in_headers check_shutdown skip_auth' False task, oa_request = req,
      oa_bucket = None, oa_object = None, oa_ext = None,
      oa_obj_list_idx_lo = zero_layout, oa_obj_version_list_idx_lo = zero_layout,
      oa_additional_bucket_name = [], oa_additional_object_name = [], oa_additional_bucket = None,
      oa_additional_object = None, oa_additional_ext = None\<rparr>"

definition oa_next :: "action_env \<Rightarrow> ('t, 'z) object_action_scheme \<Rightarrow> ('t, 'z) object_action_scheme \<times> 't oa_out list" where
  "oa_next e a = (let (act, ev) = action_next e (oa_act a) in (a\<lparr>oa_act := act\<rparr>, map Engine ev))"

definition oa_done :: "('t, 'z) object_action_scheme \<Rightarrow> ('t, 'z) object_action_scheme \<times> 't oa_out list" where
  "oa_done a = (let (act, ev) = action_done (oa_act a) in (a\<lparr>oa_act := act\<rparr>, map Engine ev))"

definition oa_set_error :: "string \<Rightarrow> ('t, 'z) object_action_scheme \<Rightarrow> ('t, 'z) object_action_scheme" where
  "oa_set_error code a = a\<lparr>oa_act := set_s3_error code (oa_act a)\<rparr>"

section \<open>Bucket and object\<close>

definition fetch_bucket_info :: "('t, 'z) object_action_scheme \<Rightarrow> ('t, 'z) object_action_scheme \<times> 't oa_out list" where
  "fetch_bucket_info a =
     (let b = S3BucketMetadata_init (bucket_request.truncate (oa_request a)) []
      in (a\<lparr>oa_bucket := Some b\<rparr>, [Load_bucket b]))"

definition oa_load_metadata :: "('t, 'z) object_action_scheme \<Rightarrow> ('t, 'z) object_action_scheme \<times> 't oa_out list" where
  "oa_load_metadata a = fetch_bucket_info a"

definition create_object_metadata_obj ::
  "m0_uint128 \<Rightarrow> object_request \<Rightarrow> string \<Rightarrow> string \<Rightarrow> s3_motr_idx_layout \<Rightarrow> s3_motr_idx_layout \<Rightarrow> S3ObjectMetadata" where
  "create_object_metadata_obj M0_ID_APP req bname oname obj_idx_lo obj_ver_idx_lo =
     (let ob0 = S3ObjectMetadata_init M0_ID_APP req bname oname False [];
          ob1 = (if non_zero (oid obj_idx_lo) then ob0\<lparr>om_object_list_index_layout := obj_idx_lo\<rparr> else ob0)
      in if non_zero (oid obj_ver_idx_lo) then ob1\<lparr>om_objects_version_list_index_layout := obj_ver_idx_lo\<rparr> else ob1)"

text \<open>\<open>bypass\<close> holds for GET requests of the tagging and ACL sub-resources.\<close>

definition fetch_object_info ::
  "m0_uint128 \<Rightarrow> bool \<Rightarrow> ('t, 'z) object_action_scheme \<Rightarrow> (('t, 'z) object_action_scheme \<times> 't oa_out list) option" where
  "fetch_object_info M0_ID_APP bypass a =
     (case oa_bucket a of
        None \<Rightarrow> None
      | Some b \<Rightarrow>
          (let lo = object_list_index_layout b; vlo = objects_version_list_index_layout b;
               a1 = a\<lparr>oa_obj_list_idx_lo := lo, oa_obj_version_list_idx_lo := vlo,
                      oa_act := (if bypass then check_shutdown_signal_for_next_task False (oa_act a) else oa_act a)\<rparr>
           in if \<not> non_zero (oid lo) \<or> \<not> non_zero (oid vlo) then Some (a1, [Fetch_object_info_failed])
              else (let ob = create_object_metadata_obj M0_ID_APP (oa_request a1) [] [] lo vlo
                    in Some (a1\<lparr>oa_object := Some ob\<rparr>, [Load_object ob]))))"

text \<open>The loaded bucket replaces the one the load was started with.\<close>

definition fetch_bucket_info_success ::
  "m0_uint128 \<Rightarrow> bool \<Rightarrow> S3BucketMetadata \<Rightarrow> ('t, 'z) object_action_scheme \<Rightarrow> (('t, 'z) object_action_scheme \<times> 't oa_out list) option" where
  "fetch_bucket_info_success M0_ID_APP bypass b a =
     map_option (\<lambda>(a1, outs). (a1, Audit_bucket_owner (snd (get_owner_canonical_id b)) # outs))
       (fetch_object_info M0_ID_APP bypass (a\<lparr>oa_bucket := Some b\<rparr>))"

definition fetch_object_info_success ::
  "action_env \<Rightarrow> S3ObjectMetadata \<Rightarrow> ('t, 'z) object_action_scheme \<Rightarrow> (('t, 'z) object_action_scheme \<times> 't oa_out list) option" where
  "fetch_object_info_success e ob a =
     (let a1 = a\<lparr>oa_object := Some ob\<rparr>; sz = Set_object_size (snd (get_content_length ob))
      in if is_object_extended ob
         then (case oa_bucket a1 of
                 None \<Rightarrow> None
               | Some b \<Rightarrow>
                   (let x = create_object_ext_metadata_obj (oa_request a1) (rq_bucket_name (oa_request a1))
                              (rq_object_name (oa_request a1)) (om_rev_epoch_version_id_key ob) (om_obj_parts ob)
                              (om_obj_fragments ob) (extended_metadata_index_layout b)
                    in Some (a1\<lparr>oa_ext := Some x\<rparr>, [sz, Load_ext x])))
         else (let (a2, outs) = oa_next e a1 in Some (a2, sz # outs)))"

text \<open>Success and failure of the extended entries go on alike; what was loaded is kept.\<close>

definition fetch_ext_object_info_success ::
  "action_env \<Rightarrow> S3ObjectExtendedMetadata \<Rightarrow> ('t, 'z) object_action_scheme \<Rightarrow> ('t, 'z) object_action_scheme \<times> 't oa_out list" where
  "fetch_ext_object_info_success e x a = oa_next e (a\<lparr>oa_ext := Some x\<rparr>)"

definition fetch_ext_object_info_failed ::
  "action_env \<Rightarrow> S3ObjectExtendedMetadata \<Rightarrow> ('t, 'z) object_action_scheme \<Rightarrow> ('t, 'z) object_action_scheme \<times> 't oa_out list" where
  "fetch_ext_object_info_failed e x a = oa_next e (a\<lparr>oa_ext := Some x\<rparr>)"

section \<open>The source of a copy\<close>

definition fetch_additional_bucket_info :: "('t, 'z) object_action_scheme \<Rightarrow> ('t, 'z) object_action_scheme \<times> 't oa_out list" where
  "fetch_additional_bucket_info a =
     (let b = S3BucketMetadata_init (bucket_request.truncate (oa_request a)) (oa_additional_bucket_name a)
      in (a\<lparr>oa_additional_bucket := Some b\<rparr>, [Load_additional_bucket b]))"

definition fetch_additional_object_info ::
  "m0_uint128 \<Rightarrow> ('t, 'z) object_action_scheme \<Rightarrow> (('t, 'z) object_action_scheme \<times> 't oa_out list) option" where
  "fetch_additional_object_info M0_ID_APP a =
     (case oa_additional_bucket a of
        None \<Rightarrow> None
      | Some b \<Rightarrow>
          (let lo = object_list_index_layout b; vlo = objects_version_list_index_layout b
           in if \<not> non_zero (oid lo) \<or> \<not> non_zero (oid vlo) then Some (a, [Fetch_additional_object_info_failed])
              else (let ob = create_object_metadata_obj M0_ID_APP (oa_request a) (oa_additional_bucket_name a)
                               (oa_additional_object_name a) lo vlo
                    in Some (a\<lparr>oa_additional_object := Some ob\<rparr>, [Load_additional_object ob]))))"

definition fetch_additional_bucket_info_success ::
  "m0_uint128 \<Rightarrow> S3BucketMetadata \<Rightarrow> ('t, 'z) object_action_scheme \<Rightarrow> (('t, 'z) object_action_scheme \<times> 't oa_out list) option" where
  "fetch_additional_bucket_info_success M0_ID_APP b a =
     fetch_additional_object_info M0_ID_APP (a\<lparr>oa_additional_bucket := Some b\<rparr>)"

definition fetch_additional_bucket_info_failed ::
  "action_env \<Rightarrow> ('t, 'z) object_action_scheme \<Rightarrow> ('t, 'z) object_action_scheme \<times> 't oa_out list" where
  "fetch_additional_bucket_info_failed e a = oa_next e a"

definition fetch_additional_object_info_failed ::
  "action_env \<Rightarrow> ('t, 'z) object_action_scheme \<Rightarrow> ('t, 'z) object_action_scheme \<times> 't oa_out list" where
  "fetch_additional_object_info_failed e a = oa_next e a"

definition fetch_additional_object_info_success ::
  "action_env \<Rightarrow> S3ObjectMetadata \<Rightarrow> ('t, 'z) object_action_scheme \<Rightarrow> (('t, 'z) object_action_scheme \<times> 't oa_out list) option" where
  "fetch_additional_object_info_success e ob a =
     (let a1 = a\<lparr>oa_additional_object := Some ob\<rparr>
      in if is_object_extended ob
         then (case oa_additional_bucket a1 of
                 None \<Rightarrow> None
               | Some b \<Rightarrow>
                   (let x = create_object_ext_metadata_obj (oa_request a1) (om_bucket_name ob) (om_object_name ob)
                              (om_rev_epoch_version_id_key ob) (om_obj_parts ob) (om_obj_fragments ob)
                              (extended_metadata_index_layout b)
                    in Some (a1\<lparr>oa_additional_ext := Some x\<rparr>, [Load_additional_ext x])))
         else Some (oa_next e a1))"

text \<open>The names in the header \<open>x-amz-copy-source\<close>; \<open>uridecode\<close> is libevent's.\<close>

definition get_source_bucket_and_object ::
  "(string \<Rightarrow> string) \<Rightarrow> string \<Rightarrow> ('t, 'z) object_action_scheme \<Rightarrow> ('t, 'z) object_action_scheme" where
  "get_source_bucket_and_object uridecode header a =
     (let body = (case header of c # cs \<Rightarrow> if c = CHR ''/'' then cs else header | [] \<Rightarrow> []);
          (b, ob) = (case str_find ''/'' body of
                       Some pos \<Rightarrow> (take pos body, drop (Suc pos) body)
                     | None \<Rightarrow> (oa_additional_bucket_name a, oa_additional_object_name a))
      in a\<lparr>oa_additional_bucket_name := b, oa_additional_object_name := uridecode ob\<rparr>)"

definition oa_set_authorization_meta ::
  "action_env \<Rightarrow> ('t, 'z) object_action_scheme \<Rightarrow> (('t, 'z) object_action_scheme \<times> 't oa_out list) option" where
  "oa_set_authorization_meta e a =
     (case (oa_object a, oa_bucket a) of
        (Some ob, Some b) \<Rightarrow>
          (let (a1, outs) = oa_next e a in Some (a1, Set_acl_and_policy (om_encoded_acl ob) (bucket_policy b) # outs))
      | _ \<Rightarrow> None)"

end
