(* ===== verification/Motr_Layout.thy ===== *)
theory Motr_Layout
  imports Std_Map
begin

text \<open>
  \<open>server/s3_motr_layout.cc\<close>: the unit sizes of the Motr layouts and the layout chosen for
  an object of a given size.  Reading the YAML file is outside: the loader gets the nodes of
  \<open>S3_OBJ_SIZE_MAPPING\<close>, each as its list of keys and integer values, \<open>None\<close> standing for a
  document without the section and for every exception of the YAML library.  The options
  that multiply a unit size are those of \<open>s3_option.cc\<close>.
\<close>

record S3MotrLayoutMap =
  layout_map :: "(32 word, size_t) std_map"
  obj_layout_map :: "(size_t, 32 word) std_map"
  obj_size_cap :: size_t
  layout_id_cap :: "32 word"
  best_layout_id :: "32 word"

definition S3MotrLayoutMap_init :: S3MotrLayoutMap where
  "S3MotrLayoutMap_init =
     \<lparr>layout_map =
        [(1, 4096 * 1 + 12288), (2, 4096 * 2 + 8192), (3, 4096 * 4), (4, 4096 * 8), (5, 4096 * 16),
         (6, 4096 * 32), (7, 4096 * 64), (8, 4096 * 128), (9, 4096 * 256), (10, 4096 * 512),
         (11, 4096 * 1024), (12, 4096 * 2048), (13, 4096 * 4096), (14, 4096 * 8192)],
      obj_layout_map = [], obj_size_cap = 0, layout_id_cap = -1, best_layout_id = 11\<rparr>"

text \<open>
  \<open>operator[]\<close> adds an unknown layout with unit size 0, which is also what it returns from
  then on.  The result is converted to \<open>int\<close> and, by every caller, back to \<open>size_t\<close>; the
  unit sizes fit.
\<close>

definition get_unit_size_for_layout :: "S3MotrLayoutMap \<Rightarrow> 32 word \<Rightarrow> size_t" where
  "get_unit_size_for_layout lm lid = snd (map_index 0 (layout_map lm) lid)"

definition get_best_layout_for_object_size :: "S3MotrLayoutMap \<Rightarrow> 32 word" where
  "get_best_layout_for_object_size lm = best_layout_id lm"

text \<open>The inner loop over the two keys of one node: object size, layout, and the two flags.\<close>

fun layout_entry ::
  "(string \<times> int) list \<Rightarrow> size_t \<Rightarrow> 32 word \<Rightarrow> bool \<Rightarrow> bool \<Rightarrow> S3MotrLayoutMap
   \<Rightarrow> S3MotrLayoutMap \<times> (size_t \<times> 32 word \<times> bool \<times> bool) option" where
  "layout_entry [] sz lid cap best lm = (lm, Some (sz, lid, cap, best))"
| "layout_entry ((k, v) # es) sz lid cap best lm =
     (if k = ''USE_LAYOUT_ID'' then layout_entry es sz (of_int v) cap best lm
      else if k = ''UP_TO_OBJ_SIZE'' then layout_entry es (of_int v) lid cap best lm
      else if k = ''ABOVE_OBJ_SIZE'' then layout_entry es (of_int v) lid True best lm
      else if k = ''BEST_LAYOUT_ID'' then layout_entry es sz lid cap True (lm\<lparr>best_layout_id := of_int v\<rparr>)
      else (lm, None))"

fun layout_entries :: "(string \<times> int) list list \<Rightarrow> S3MotrLayoutMap \<Rightarrow> S3MotrLayoutMap \<times> bool" where
  "layout_entries [] lm = (lm, \<not> (obj_size_cap lm = 0 \<or> layout_id_cap lm = -1))"
| "layout_entries (node # nodes) lm =
     (if length node \<noteq> 2 then (lm, False)
      else case layout_entry node 0 0 False False lm of
             (lm1, None) \<Rightarrow> (lm1, False)
           | (lm1, Some (sz, lid, cap, best)) \<Rightarrow>
               layout_entries nodes
                 (if cap then lm1\<lparr>obj_size_cap := sz, layout_id_cap := lid\<rparr>
                  else if \<not> best then lm1\<lparr>obj_layout_map := map_put sz lid (obj_layout_map lm1)\<rparr>
                  else lm1))"

definition load_layout_recommendations ::
  "(string \<times> int) list list option \<Rightarrow> S3MotrLayoutMap \<Rightarrow> S3MotrLayoutMap \<times> bool" where
  "load_layout_recommendations doc lm = (case doc of None \<Rightarrow> (lm, False) | Some nodes \<Rightarrow> layout_entries nodes lm)"

text \<open>The loop runs over the map from its largest key; \<open>begin()\<close> of an empty map is not an entry: \<open>None\<close>.\<close>

definition get_layout_for_object_size :: "size_t \<Rightarrow> S3MotrLayoutMap \<Rightarrow> 32 word option" where
  "get_layout_for_object_size obj_size lm =
     (case obj_layout_map lm of
        [] \<Rightarrow> None
      | (k, lid) # _ \<Rightarrow>
          (if obj_size = 0 \<or> obj_size \<le> k then Some lid
           else if obj_size \<ge> obj_size_cap lm then Some (layout_id_cap lm)
           else case find (\<lambda>(k', _). obj_size \<ge> k') (rev (obj_layout_map lm)) of
                  Some (_, lid') \<Rightarrow> Some lid'
                | None \<Rightarrow> Some lid))"

definition get_motr_read_payload_size :: "S3MotrLayoutMap \<Rightarrow> 16 word \<Rightarrow> 32 word \<Rightarrow> 32 word" where
  "get_motr_read_payload_size lm motr_units_per_request lid =
     ucast (get_unit_size_for_layout lm lid) * ucast motr_units_per_request"

definition get_motr_write_payload_size :: "S3MotrLayoutMap \<Rightarrow> 16 word \<Rightarrow> 32 word \<Rightarrow> 32 word" where
  "get_motr_write_payload_size lm motr_units_per_request lid =
     ucast (get_unit_size_for_layout lm lid) * ucast motr_units_per_request"

section \<open>Unit sizes\<close>

definition layout_defined :: "S3MotrLayoutMap \<Rightarrow> 32 word \<Rightarrow> bool" where
  "layout_defined lm lid \<longleftrightarrow> map_get (layout_map lm) lid \<noteq> None"

lemma layout_entry_keeps_units: "layout_map (fst (layout_entry es sz lid cap best lm)) = layout_map lm"
  by (induction es sz lid cap best lm rule: layout_entry.induct) auto

lemma layout_entry_keeps_objs: "obj_layout_map (fst (layout_entry es sz lid cap best lm)) = obj_layout_map lm"
  by (induction es sz lid cap best lm rule: layout_entry.induct) auto

lemma layout_entries_keep_units: "layout_map (fst (layout_entries nodes lm)) = layout_map lm"
proof (induction nodes lm rule: layout_entries.induct)
  case (2 node nodes lm)
  then show ?case
    using layout_entry_keeps_units [of node 0 0 False False lm]
    by (auto split: prod.split option.split)
qed simp

text \<open>Every unit size the server uses is a positive multiple of 16 KiB and at most 32 MiB.\<close>

definition unit_ok :: "size_t \<Rightarrow> bool" where
  "unit_ok u \<longleftrightarrow> 0 < u \<and> u \<le> 33554432 \<and> u mod 16384 = 0"

lemma initial_units_ok: "list_all (\<lambda>(_, u). unit_ok u) (layout_map S3MotrLayoutMap_init)"
  by (simp add: S3MotrLayoutMap_init_def unit_ok_def)

lemma loaded_unit_ok:
  assumes "layout_defined lm lid" "layout_map lm = layout_map S3MotrLayoutMap_init"
  shows "unit_ok (get_unit_size_for_layout lm lid)"
proof -
  from assms obtain u where u: "map_of (layout_map S3MotrLayoutMap_init) lid = Some u"
    by (auto simp: layout_defined_def map_get_def)
  then have "(lid, u) \<in> set (layout_map S3MotrLayoutMap_init)" by (rule map_of_SomeD)
  with initial_units_ok have "unit_ok u" by (auto simp: list_all_iff)
  with u assms(2) show ?thesis by (simp add: get_unit_size_for_layout_def map_index_snd map_get_def)
qed

section \<open>The layout of an object size\<close>

text \<open>
  The reference: the entry with the largest key that is not above the size.
\<close>

lemma find_rev_sorted:
  assumes "map_wf m" "(k, v) \<in> set m" "k \<le> x" "\<And>k' v'. (k', v') \<in> set m \<Longrightarrow> k' \<le> x \<Longrightarrow> k' \<le> k"
  shows "find (\<lambda>(k', _). k' \<le> x) (rev m) = Some (k, v)"
  using assms
proof (induction m rule: rev_induct)
  case (snoc e m)
  obtain k1 v1 where e: "e = (k1, v1)" by force
  have wf: "map_wf m" and above: "\<And>k' v'. (k', v') \<in> set m \<Longrightarrow> k' < k1"
    using snoc.prems(1) by (auto simp: map_wf_def e sorted_wrt_append)
  show ?case
  proof (cases "k1 \<le> x")
    case True
    then have "k1 \<le> k" using snoc.prems(4) [of k1 v1] by (simp add: e)
    with snoc.prems(2) above [of k v] have "(k, v) = (k1, v1)"
      by (auto simp: e)
    with True show ?thesis by (simp add: e)
  next
    case False
    with snoc.prems(2,3) have "(k, v) \<in> set m" by (auto simp: e)
    moreover have "\<And>k' v'. (k', v') \<in> set m \<Longrightarrow> k' \<le> x \<Longrightarrow> k' \<le> k"
      using snoc.prems(4) by (metis UnI1 set_append)
    ultimately have "find (\<lambda>(k', _). k' \<le> x) (rev m) = Some (k, v)"
      using snoc.IH wf snoc.prems(3) by blast
    with False show ?thesis by (simp add: e)
  qed
qed simp

text \<open>The configured table reads "use this layout up to this object size", but between two
  entries the server takes the layout of the lower one: an object larger than \<open>a\<close> and
  smaller than the next key \<open>b\<close> gets the layout configured for objects of up to \<open>a\<close> bytes.\<close>

theorem layout_of_lower_entry:
  assumes wf: "map_wf (obj_layout_map lm)"
    and a: "(a, lid) \<in> set (obj_layout_map lm)"
    and between: "\<And>k l. (k, l) \<in> set (obj_layout_map lm) \<Longrightarrow> k \<le> a \<or> sz < k"
    and sz: "a < sz" "sz < obj_size_cap lm"
  shows "get_layout_for_object_size sz lm = Some lid"
proof -
  from a obtain e es where m: "obj_layout_map lm = e # es" by (cases "obj_layout_map lm") auto
  have first: "fst e \<le> a"
    using wf a by (force simp: m map_wf_Cons)
  have "find (\<lambda>(k', _). k' \<le> sz) (rev (obj_layout_map lm)) = Some (a, lid)"
    using wf a sz(1) between by (intro find_rev_sorted) fastforce+
  with first sz show ?thesis
    by (cases e) (auto simp: get_layout_for_object_size_def m word_less_def word_le_def)
qed

definition sample_layouts :: S3MotrLayoutMap where
  "sample_layouts =
     fst (load_layout_recommendations (Some
       [[(''UP_TO_OBJ_SIZE'', -1), (''BEST_LAYOUT_ID'', 9)],
        [(''UP_TO_OBJ_SIZE'', 16384), (''USE_LAYOUT_ID'', 3)],
        [(''UP_TO_OBJ_SIZE'', 524288), (''USE_LAYOUT_ID'', 8)],
        [(''ABOVE_OBJ_SIZE'', 1048576), (''USE_LAYOUT_ID'', 9)]]) S3MotrLayoutMap_init)"

lemma sample_layouts_fields:
  "obj_layout_map sample_layouts = [(16384, 3), (524288, 8)]" "obj_size_cap sample_layouts = 1048576"
  "layout_id_cap sample_layouts = 9" "best_layout_id sample_layouts = 9"
  "layout_map sample_layouts = layout_map S3MotrLayoutMap_init"
  by (simp_all add: sample_layouts_def load_layout_recommendations_def S3MotrLayoutMap_init_def)

theorem layout_of_lower_entry_witness:
  "get_layout_for_object_size 524287 sample_layouts = Some 3"
  by (rule layout_of_lower_entry [where a = 16384])
    (auto simp: sample_layouts_fields map_wf_def)

end
