(* ===== verification/Motr_Reader.thy ===== *)
theory Motr_Reader
  imports Motr_Layout Motr_Ids Motr_Async "HOL-Library.Monad_Syntax"
begin

text \<open>
  \<open>server/s3_motr_reader.cc\<close> with its operation context (\<open>s3_motr_reader.h\<close>) and the buffer
  wrapper \<open>server/s3_evbuffer_wrapper.cc\<close>: one Motr object is opened and then read in runs of
  whole units into buffers of the libevent pool.

  Motr and libevent are not part of the program.  Each call gets what they answer in a record:
  the return codes, whether memory was available and the lengths of the reserved buffers, and
  as a parameter the checksum function.  A completed read delivers the bytes of the buffers
  and their protection information.  What an operation starts or calls is the list it returns.
  Assertions, a division by zero and a null buffer are \<open>None\<close>.
\<close>

section \<open>The buffer wrapper\<close>

text \<open>\<open>ev_buf\<close> is the content of the libevent buffer, \<open>None\<close> once it was given away.\<close>

record S3Evbuffer =
  ev_nvecs :: nat
  ev_total_size :: size_t
  ev_unit_sz :: size_t
  ev_vec :: "size_t list"
  ev_buf :: "bytes option"

definition S3Evbuffer_new :: "size_t \<Rightarrow> size_t \<Rightarrow> S3Evbuffer option" where
  "S3Evbuffer_new buf_sz buf_unit_sz =
     (if buf_unit_sz = 0 then None
      else Some \<lparr>ev_nvecs = unat ((buf_sz + (buf_unit_sz - 1)) div buf_unit_sz), ev_total_size = buf_sz,
                 ev_unit_sz = buf_unit_sz, ev_vec = [], ev_buf = Some []\<rparr>)"

text \<open>\<open>reserve n u\<close> gives the lengths of the extents libevent reserved, \<open>None\<close> when memory is short.\<close>

definition S3Evbuffer_init :: "(nat \<Rightarrow> size_t \<Rightarrow> size_t list option) \<Rightarrow> S3Evbuffer \<Rightarrow> S3Evbuffer option" where
  "S3Evbuffer_init reserve ev =
     map_option (\<lambda>lens. ev\<lparr>ev_vec := lens, ev_buf := Some (replicate (unat (sum_list lens)) (CHR 0x00))\<rparr>)
       (reserve (ev_nvecs ev) (ev_unit_sz ev))"

text \<open>Index and length of every extent handed to Motr, and the index after the last.\<close>

fun read_extents :: "size_t list \<Rightarrow> size_t \<Rightarrow> (size_t \<times> size_t) list \<times> size_t" where
  "read_extents [] idx = ([], idx)"
| "read_extents (len # lens) idx = (let (es, idx') = read_extents lens (idx + len) in ((idx, len) # es, idx'))"

definition to_motr_read_buffers :: "S3Evbuffer \<Rightarrow> size_t \<Rightarrow> (size_t \<times> size_t) list \<times> size_t" where
  "to_motr_read_buffers ev last_index = (if ev_total_size ev > 0 then read_extents (ev_vec ev) last_index else ([], last_index))"

definition release_ownership :: "S3Evbuffer \<Rightarrow> S3Evbuffer \<times> bytes option" where
  "release_ownership ev = (ev\<lparr>ev_buf := None\<rparr>, ev_buf ev)"

definition drain_data :: "size_t \<Rightarrow> S3Evbuffer \<Rightarrow> S3Evbuffer" where
  "drain_data start_offset ev = ev\<lparr>ev_buf := map_option (drop (unat start_offset)) (ev_buf ev)\<rparr>"

definition get_evbuff_length :: "S3Evbuffer \<Rightarrow> size_t" where
  "get_evbuff_length ev = (case ev_buf ev of None \<Rightarrow> 0 | Some bs \<Rightarrow> of_nat (length bs))"

definition read_drain_data_from_buffer :: "size_t \<Rightarrow> S3Evbuffer \<Rightarrow> S3Evbuffer option" where
  "read_drain_data_from_buffer len ev =
     (case ev_buf ev of None \<Rightarrow> None | Some bs \<Rightarrow> Some (ev\<lparr>ev_buf := Some (take (unat len) bs)\<rparr>))"

section \<open>State\<close>

datatype S3MotrReaderOpState =
    Rdr_start | Rdr_failed_to_launch | Rdr_failed | Rdr_reading | Rdr_success | Rdr_missing | Rdr_ooo

record S3MotrReader =
  mr_oid :: m0_uint128
  mr_pvid :: m0_fid
  mr_layout_id :: "32 word"
  mr_unit_size :: size_t
  mr_state :: S3MotrReaderOpState
  mr_iteration_index :: nat
  mr_num_of_blocks_to_read :: size_t
  mr_last_index :: size_t
  mr_starting_index_for_read :: size_t
  mr_is_object_opened :: bool
  mr_corrupt_fill_zero :: bool
  mr_evbuffer :: "S3Evbuffer option"
  mr_extents :: "(size_t \<times> size_t) list"
  mr_data :: "bytes list"

text \<open>What libevent and Motr answer to the calls of one step, and the options read there.\<close>

record motr_call =
  mc_pool_buffer_size :: size_t
  mc_reserve :: "nat \<Rightarrow> size_t \<Rightarrow> size_t list option"
  mc_rw_op_ctx :: bool
  mc_entity_open :: int
  mc_obj_op :: int

text \<open>
  What an operation does besides changing the reader: a request launched in Motr, a call of a
  handler of the client, or a failure posted to the main thread, which runs \<open>open_object_failed\<close>
  or \<open>read_object_failed\<close> later.
\<close>

datatype reader_out =
    Open_object
  | Read_object "(size_t \<times> size_t) list"
  | Call_on_success
  | Call_on_failed
  | Post_open_failed int
  | Post_read_failed int

definition S3MotrReader_init :: "S3MotrLayoutMap \<Rightarrow> m0_uint128 \<Rightarrow> 32 word \<Rightarrow> m0_fid \<Rightarrow> S3MotrReader" where
  "S3MotrReader_init lm id' layoutid pvid' =
     \<lparr>mr_oid = id', mr_pvid = pvid', mr_layout_id = layoutid, mr_unit_size = get_unit_size_for_layout lm layoutid,
      mr_state = Rdr_start, mr_iteration_index = 0, mr_num_of_blocks_to_read = 0, mr_last_index = 0,
      mr_starting_index_for_read = 0, mr_is_object_opened = False, mr_corrupt_fill_zero = False,
      mr_evbuffer = None, mr_extents = [], mr_data = []\<rparr>"

definition set_last_index :: "size_t \<Rightarrow> S3MotrReader \<Rightarrow> S3MotrReader" where
  "set_last_index idx r = r\<lparr>mr_last_index := idx, mr_starting_index_for_read := idx\<rparr>"

section \<open>Launching\<close>

text \<open>The flag is False when memory is short; the index is advanced as soon as the buffers exist.\<close>

definition init_read_op_ctx :: "motr_call \<Rightarrow> S3MotrReader \<Rightarrow> (S3MotrReader \<times> bool) option" where
  "init_read_op_ctx mc r =
     (if mc_pool_buffer_size mc = 0 then None
      else if \<not> mc_rw_op_ctx mc then Some (r, False)
      else S3Evbuffer_new (mr_num_of_blocks_to_read r * mr_unit_size r) (mc_pool_buffer_size mc) \<bind> (\<lambda>ev0.
           case S3Evbuffer_init (mc_reserve mc) ev0 of
             None \<Rightarrow> Some (r, False)
           | Some ev \<Rightarrow>
               (let (es, idx) = to_motr_read_buffers ev (mr_last_index r)
                in Some (r\<lparr>mr_evbuffer := Some ev, mr_extents := es, mr_last_index := idx\<rparr>, True))))"

definition read_object :: "motr_call \<Rightarrow> S3MotrReader \<Rightarrow> (S3MotrReader \<times> reader_out list \<times> bool) option" where
  "read_object mc r =
     (if \<not> mr_is_object_opened r then None
      else init_read_op_ctx mc r \<bind> (\<lambda>(r1, memory).
        if \<not> memory then Some (r1\<lparr>mr_state := Rdr_ooo\<rparr>, [], False)
        else (let r2 = r1\<lparr>mr_iteration_index := 0\<rparr>
              in if mc_obj_op mc \<noteq> 0
                 then Some (r2\<lparr>mr_state := Rdr_failed_to_launch\<rparr>, [Post_read_failed (mc_obj_op mc)], False)
                 else Some (r2, [Read_object (mr_extents r2)], True))))"

definition open_object :: "motr_call \<Rightarrow> S3MotrReader \<Rightarrow> S3MotrReader \<times> reader_out list \<times> int" where
  "open_object mc r =
     (let r1 = r\<lparr>mr_is_object_opened := False\<rparr>
      in if mc_entity_open mc \<noteq> 0
         then (r1\<lparr>mr_state := Rdr_failed_to_launch\<rparr>, [Post_open_failed (mc_entity_open mc)], mc_entity_open mc)
         else (r1, [Open_object], 0))"

definition reader_read_object_data :: "motr_call \<Rightarrow> size_t \<Rightarrow> S3MotrReader \<Rightarrow> (S3MotrReader \<times> reader_out list \<times> bool) option" where
  "reader_read_object_data mc num_of_blocks r =
     (let r1 = r\<lparr>mr_state := Rdr_reading, mr_num_of_blocks_to_read := num_of_blocks\<rparr>
      in if mr_is_object_opened r1 then read_object mc r1
         else (let (r2, outs, retcode) = open_object mc r1
               in if retcode \<noteq> 0 then Some (r2, outs @ [Call_on_failed], False) else Some (r2, outs, True)))"

definition check_object_exist :: "motr_call \<Rightarrow> S3MotrReader \<Rightarrow> S3MotrReader \<times> reader_out list \<times> bool" where
  "check_object_exist mc r =
     (if mr_is_object_opened r then (r, [Call_on_success], True)
      else (let (r1, outs, retcode) = open_object mc r in (r1, outs, retcode = 0)))"

section \<open>Completions\<close>

definition open_object_successful :: "motr_call \<Rightarrow> S3MotrReader \<Rightarrow> (S3MotrReader \<times> reader_out list) option" where
  "open_object_successful mc r =
     (let r1 = r\<lparr>mr_is_object_opened := True\<rparr>
      in if mr_state r1 = Rdr_reading
         then read_object mc r1 \<bind> (\<lambda>(r2, outs, launched).
                Some (r2, outs @ (if \<not> launched \<and> mr_state r2 \<noteq> Rdr_failed_to_launch then [Call_on_failed] else [])))
         else Some (r1, [Call_on_success]))"

definition open_object_failed :: "int \<Rightarrow> S3MotrReader \<Rightarrow> S3MotrReader \<times> reader_out list" where
  "open_object_failed errno r =
     (if mr_state r \<noteq> Rdr_failed_to_launch
      then r\<lparr>mr_is_object_opened := False, mr_state := (if errno = - ENOENT then Rdr_missing else Rdr_failed)\<rparr>
      else r, [Call_on_failed])"

definition read_object_failed :: "int \<Rightarrow> S3MotrReader \<Rightarrow> S3MotrReader \<times> reader_out list" where
  "read_object_failed errno r =
     (r\<lparr>mr_state := (if errno = - ENOENT then Rdr_missing else Rdr_failed)\<rparr>, [Call_on_failed])"

subsection \<open>Stored checksums\<close>

record m0_generic_pi =
  pi_is_md5_inc_context :: bool
  pi_prev_context :: bytes
  pi_value :: bytes

text \<open>\<open>calculate_pi prev oid offset data\<close> is the digest Motr computes, \<open>None\<close> on an error.\<close>

type_synonym calculate_pi = "bytes \<Rightarrow> m0_uint128 \<Rightarrow> size_t \<Rightarrow> bytes list \<Rightarrow> bytes option"

definition ValidateStoredMD5Chksum :: "calculate_pi \<Rightarrow> m0_uint128 \<Rightarrow> size_t \<Rightarrow> bytes list \<Rightarrow> m0_generic_pi \<Rightarrow> bool" where
  "ValidateStoredMD5Chksum calc id' offset unit_data pi_info =
     (case calc (pi_prev_context pi_info) id' offset unit_data of
        None \<Rightarrow> False
      | Some v \<Rightarrow> v = pi_value pi_info)"

definition CalculateBytesProcessed :: "bytes list \<Rightarrow> size_t" where
  "CalculateBytesProcessed unit_data = sum_list (map (\<lambda>b. of_nat (length b)) unit_data)"

fun validate_units :: "calculate_pi \<Rightarrow> m0_uint128 \<Rightarrow> nat \<Rightarrow> size_t \<Rightarrow> m0_generic_pi list \<Rightarrow> bytes list \<Rightarrow> bool" where
  "validate_units calc id' ratio idx [] data = True"
| "validate_units calc id' ratio idx (pi_info # pis) data =
     (pi_is_md5_inc_context pi_info
      \<and> ValidateStoredMD5Chksum calc id' idx (take ratio data) pi_info
      \<and> validate_units calc id' ratio (idx + CalculateBytesProcessed (take ratio data)) pis (drop ratio data))"

definition ValidateStoredChksum :: "calculate_pi \<Rightarrow> m0_generic_pi list \<Rightarrow> S3MotrReader \<Rightarrow> (S3MotrReader \<times> bool) option" where
  "ValidateStoredChksum calc pis r =
     (if pis = [] \<or> length (mr_data r) mod length pis \<noteq> 0 then None
      else if validate_units calc (mr_oid r) (length (mr_data r) div length pis) (mr_starting_index_for_read r) pis (mr_data r)
           then Some (r\<lparr>mr_starting_index_for_read := mr_last_index r\<rparr>, True)
           else Some (r, False))"

text \<open>The fault injection of the data integrity tests, on the buffers of the first block and after.\<close>

definition corrupt_on_read :: "S3MotrReader \<Rightarrow> S3MotrReader" where
  "corrupt_on_read r =
     (let fst_ch = (case mr_data r of (c # _) # _ \<Rightarrow> Some c | _ \<Rightarrow> None);
          at_0 = (case mr_extents r of (idx, _) # _ \<Rightarrow> idx = 0 | [] \<Rightarrow> False);
          zero = mr_corrupt_fill_zero r \<or> at_0 \<and> fst_ch = Some (CHR ''Z'');
          data1 = (if at_0 \<and> fst_ch = Some (CHR ''F'')
                   then (CHR 0x00 # tl (hd (mr_data r))) # tl (mr_data r) else mr_data r);
          data2 = (if zero then map (\<lambda>b. replicate (length b) (CHR 0x00)) data1 else data1)
      in r\<lparr>mr_corrupt_fill_zero := zero, mr_data := data2\<rparr>)"

definition motr_filled :: "bytes list \<Rightarrow> S3MotrReader \<Rightarrow> S3MotrReader" where
  "motr_filled data r =
     r\<lparr>mr_data := data, mr_evbuffer := map_option (\<lambda>ev. ev\<lparr>ev_buf := Some (concat data)\<rparr>) (mr_evbuffer r)\<rparr>"

definition read_object_successful ::
  "bool \<Rightarrow> bool \<Rightarrow> calculate_pi \<Rightarrow> bytes list \<Rightarrow> m0_generic_pi list \<Rightarrow> S3MotrReader
   \<Rightarrow> (S3MotrReader \<times> reader_out list) option" where
  "read_object_successful di_data_corrupted_on_read read_di_check calc data pis r =
     (let r1 = motr_filled data r;
          r2 = (if di_data_corrupted_on_read then (let rc = corrupt_on_read r1 in motr_filled (mr_data rc) rc) else r1)
      in if read_di_check
         then ValidateStoredChksum calc pis r2 \<bind> (\<lambda>(r3, valid).
                Some (if valid then (r3\<lparr>mr_state := Rdr_success\<rparr>, [Call_on_success])
                      else (r3\<lparr>mr_state := Rdr_failed\<rparr>, [Call_on_failed])))
         else Some (r2\<lparr>mr_state := Rdr_success\<rparr>, [Call_on_success]))"

section \<open>Access to the blocks read\<close>

text \<open>\<open>get_next_block\<close> counts to the number of blocks although the vector has one entry per buffer.\<close>

definition get_next_block :: "S3MotrReader \<Rightarrow> (S3MotrReader \<times> bytes option) option" where
  "get_next_block r =
     (if mr_iteration_index r = unat (mr_num_of_blocks_to_read r) then Some (r, None)
      else if mr_iteration_index r < length (mr_data r)
      then Some (r\<lparr>mr_iteration_index := Suc (mr_iteration_index r)\<rparr>, Some (mr_data r ! mr_iteration_index r))
      else None)"

definition get_first_block :: "S3MotrReader \<Rightarrow> (S3MotrReader \<times> bytes option) option" where
  "get_first_block r = get_next_block (r\<lparr>mr_iteration_index := 0\<rparr>)"

definition extract_blocks_read :: "S3MotrReader \<Rightarrow> (S3MotrReader \<times> bytes list) option" where
  "extract_blocks_read r =
     (if mr_iteration_index r \<noteq> 0 \<or> mr_data r = [] then None
      else Some (r\<lparr>mr_iteration_index := length (mr_data r)\<rparr>, mr_data r))"

end
