(* ===== verification/Get_Object.thy ===== *)
theory Get_Object
  imports Object_Action Motr_Reader
begin

text \<open>
  \<open>server/s3_get_object_action.cc\<close>: GET of an object or of a byte range.  The object is read in
  runs of Motr units; the first run is cut at the front, the last at the end, and each is sent
  to the client before the next is read.  A multipart or fragmented object is a sequence of
  Motr objects that are read one after the other.

  The state extends \<open>object_action\<close>.  The handlers return the new state and what was done; the
  tasks a handler runs by calling \<open>next\<close> are the event \<open>Ran\<close> at the end of the list, and
  \<open>get_perform\<close> runs them.  Undefined behaviour and the exceptions of \<open>at\<close> are \<open>None\<close>: division
  by a unit size of 0 (an unknown layout), an index outside \<open>extended_objects\<close>, a null pointer.
  Reading an attribute through \<open>operator[]\<close> may create it with an empty value; the metadata is
  not written back, so only the value read is kept.  The error bodies are named by their code:
  \<open>Respond code\<close> is the response with that XML body and its \<open>Content-Type\<close> and \<open>Content-Length\<close>.
\<close>

datatype get_task =
    Base s3_base_task | validate_object_info | check_full_or_range_object_read | read_object | send_response_to_s3_client

record S3ExtendedObjectInfo =
  start_offset_in_object :: size_t
  eo_total_blocks :: size_t
  object_size :: size_t
  requested_object_size :: size_t
  total_readable_blocks :: size_t
  object_OID :: m0_uint128
  object_layout :: "32 word"
  object_pvid :: m0_fid

record get_action = "get_task object_action" +
  total_blocks_in_object :: size_t
  blocks_already_read :: size_t
  data_sent_to_client :: size_t
  get_content_len :: size_t
  first_byte_offset_to_read :: size_t
  last_byte_offset_to_read :: size_t
  total_blocks_to_read :: size_t
  blocks_to_read :: size_t
  read_object_reply_started :: bool
  total_objects :: nat
  total_objects_to_read :: nat
  next_fragment_object :: nat
  extended_objects :: "S3ExtendedObjectInfo list"
  total_blocks_to_read_all_objects :: size_t
  data_sent_to_client_for_object :: size_t
  g_reader :: "S3MotrReader option"

record get_env =
  ge_act :: action_env
  ge_layouts :: S3MotrLayoutMap
  ge_units_per_request :: "16 word"
  ge_first_read_size :: "32 word"
  ge_outstanding_length :: size_t
  ge_write_buffer_multiple :: size_t
  ge_pool_above_threshold :: bool
  ge_delay_timer_fails :: bool
  ge_motr :: motr_call
  ge_range_header :: string
  ge_gmt :: "string \<Rightarrow> string"

datatype get_out =
    Base_out "get_task oa_out"
  | Reader reader_out
  | Start_delay_timer
  | Free_delay_timer

type_synonym get_result = "get_action \<times> get_out list"

definition get_action_init ::
  "object_request \<Rightarrow> bool \<Rightarrow> string list \<Rightarrow> get_action" where
  "get_action_init req is_auth_disabled in_headers =
     (let a = object_action_init req is_auth_disabled in_headers True False Base;
          act = add_task send_response_to_s3_client (add_task read_object
                  (add_task check_full_or_range_object_read (add_task validate_object_info (oa_act a))))
      in object_action.extend (a\<lparr>oa_act := act\<rparr>)
           (get_action.fields 0 0 0 0 0 0 0 0 False 0 0 0 [] 0 0 None))"

definition get_next :: "get_env \<Rightarrow> get_action \<Rightarrow> get_result" where
  "get_next e g = (let (g1, outs) = oa_next (ge_act e) g in (g1, map Base_out outs))"

definition get_requested_content_length :: "get_action \<Rightarrow> size_t" where
  "get_requested_content_length g = last_byte_offset_to_read g - first_byte_offset_to_read g + 1"

definition unit_of :: "get_env \<Rightarrow> 32 word \<Rightarrow> size_t" where
  "unit_of e lid = get_unit_size_for_layout (ge_layouts e) lid"

text \<open>The layout of the object that is being read.\<close>

definition current_layout :: "S3ObjectMetadata \<Rightarrow> get_action \<Rightarrow> (32 word) option" where
  "current_layout ob g =
     (if \<not> is_object_extended ob then Some (om_layout_id ob)
      else if next_fragment_object g < length (extended_objects g)
      then Some (object_layout (extended_objects g ! next_fragment_object g)) else None)"

section \<open>The response\<close>

text \<open>The four branches of \<open>send_response_to_s3_client\<close>, then \<open>done\<close>.\<close>

definition get_response :: "get_action \<Rightarrow> get_task oa_out list" where
  "get_response g =
     (let act = oa_act g in
      if reject_if_shutting_down act then
        (if read_object_reply_started g then [Reply_end]
         else [Out_header ''Retry-After'' ''1'', Respond ''ServiceUnavailable''])
      else if is_error_state act \<and> s3_error_code act \<noteq> [] then
        (if s3_error_code act = ''ServiceUnavailable'' then [Out_header ''Retry-After'' ''1''] else [])
          @ [Respond (s3_error_code act)]
      else if (case oa_object g of
                 None \<Rightarrow> False
               | Some ob \<Rightarrow> snd (get_content_length ob) = 0
                   \<or> (case g_reader g of None \<Rightarrow> False | Some r \<Rightarrow> mr_state r = Rdr_success))
      then [Reply_end]
      else if read_object_reply_started g then [Reply_end]
      else [Out_header ''Retry-After'' ''1'', Respond ''InternalError''])"

definition send_response :: "get_action \<Rightarrow> get_result" where
  "send_response g = (let (g1, outs) = oa_done g in (g1, map Base_out (get_response g @ outs)))"

definition get_set_error :: "string \<Rightarrow> get_action \<Rightarrow> get_action" where
  "get_set_error code g = oa_set_error code g"

definition get_fetch_bucket_info_failed :: "get_action \<Rightarrow> get_result option" where
  "get_fetch_bucket_info_failed g =
     map_option (\<lambda>b. send_response (get_set_error
       (if bm_state b = Bmissing then ''NoSuchBucket''
        else if bm_state b = Bfailed_to_launch then ''ServiceUnavailable'' else ''InternalError'') g)) (oa_bucket g)"

text \<open>
  No error is set when the bucket is not present.  The object metadata is not yet created when
  the base class calls this function because an index is missing.
\<close>

definition get_fetch_object_info_failed :: "get_action \<Rightarrow> get_result option" where
  "get_fetch_object_info_failed g =
     (case oa_bucket g of
        None \<Rightarrow> None
      | Some b \<Rightarrow>
          if bm_state b = Bpresent then
            (let g1 = g\<lparr>oa_obj_list_idx_lo := object_list_index_layout b\<rparr> in
             if \<not> non_zero (oid (object_list_index_layout b)) then Some (send_response (get_set_error ''NoSuchKey'' g1))
             else map_option (\<lambda>ob. send_response (get_set_error
                    (if om_state ob = Omissing then ''NoSuchKey''
                     else if om_state ob = Ofailed_to_launch then ''ServiceUnavailable'' else ''InternalError'') g1))
                  (oa_object g1))
          else Some (send_response g))"

section \<open>Checking the object\<close>

definition extended_info :: "get_env \<Rightarrow> size_t \<Rightarrow> m0_uint128 \<Rightarrow> 32 word \<Rightarrow> m0_fid \<Rightarrow> size_t \<Rightarrow> S3ExtendedObjectInfo option" where
  "extended_info e start id' lid pv sz =
     (let u = unit_of e lid in
      if u = 0 then None
      else Some \<lparr>start_offset_in_object = start, eo_total_blocks = (sz + (u - 1)) div u, object_size = sz,
                 requested_object_size = sz, total_readable_blocks = 0, object_OID = id', object_layout = lid,
                 object_pvid = pv\<rparr>)"

definition info_start :: "S3ExtendedObjectInfo list \<Rightarrow> size_t" where
  "info_start infos = (if infos = [] then 0 else start_offset_in_object (last infos) + object_size (last infos))"

text \<open>Both \<open>at\<close> calls throw when the entry is missing.\<close>

definition entry_at :: "(int, s3_part_frag_context list) std_map \<Rightarrow> int \<Rightarrow> nat \<Rightarrow> s3_part_frag_context option" where
  "entry_at entries k i =
     (case map_get entries k of
        None \<Rightarrow> None
      | Some frags \<Rightarrow> if i < length frags then Some (frags ! i) else None)"

definition info_of :: "get_env \<Rightarrow> S3ObjectMetadata \<Rightarrow> (int, s3_part_frag_context list) std_map \<Rightarrow> bool
    \<Rightarrow> S3ExtendedObjectInfo list \<Rightarrow> S3ExtendedObjectInfo option" where
  "info_of e ob entries is_multipart infos =
     (let i = length infos in
      if \<not> is_multipart \<and> i = 0
      then extended_info e 0 (om_oid ob) (om_layout_id ob) (get_pvid ob) (om_primary_obj_size ob)
      else (case (if is_multipart then entry_at entries (int i + 1) 0 else entry_at entries 0 (i - 1)) of
              None \<Rightarrow> None
            | Some fr \<Rightarrow> extended_info e (info_start infos) (fr_motr_OID fr) (fr_layout_id fr) (fr_PVID fr) (fr_item_size fr)))"

fun collect_infos :: "get_env \<Rightarrow> S3ObjectMetadata \<Rightarrow> (int, s3_part_frag_context list) std_map \<Rightarrow> bool \<Rightarrow> nat
    \<Rightarrow> S3ExtendedObjectInfo list \<Rightarrow> S3ExtendedObjectInfo list option" where
  "collect_infos e ob entries is_multipart 0 infos = Some infos"
| "collect_infos e ob entries is_multipart (Suc n) infos =
     (case info_of e ob entries is_multipart infos of
        None \<Rightarrow> None
      | Some info \<Rightarrow> collect_infos e ob entries is_multipart n (infos @ [info]))"

definition empty_object_headers :: "get_env \<Rightarrow> S3ObjectMetadata \<Rightarrow> get_task oa_out list" where
  "empty_object_headers e ob =
     [Out_header ''Last-Modified'' (ge_gmt e (snd (get_last_modified ob))),
      Out_header ''ETag'' (''\"'' @ snd (get_md5 ob) @ ''\"''), Out_header ''Accept-Ranges'' ''bytes'',
      Out_header ''Content-Type'' (snd (get_content_type ob)),
      Out_header ''Content-Length'' (snd (get_content_length_str ob))]
     @ map (\<lambda>(k, v). Out_header k v) (om_user ob)"

definition do_validate_object_info :: "get_env \<Rightarrow> get_action \<Rightarrow> get_result option" where
  "do_validate_object_info e g =
     (case oa_object g of
        None \<Rightarrow> None
      | Some ob \<Rightarrow>
          (let len = snd (get_content_length ob);
               g1 = g\<lparr>get_content_len := len, last_byte_offset_to_read := (if len = 0 then len else len - 1)\<rparr>;
               pre = Base_out (Set_object_size len)
                     # (if check_object_tags_exists ob
                        then [Base_out (Out_header ''x-amz-tagging-count'' (to_dec (object_tags_count ob)))] else [])
           in if len = 0 then
                (let (g2, outs) = send_response g1
                 in Some (g2, pre @ map Base_out (empty_object_headers e ob @ [Reply_start 200]) @ outs))
              else if om_obj_fragments ob = 0 then
                (let u = unit_of e (om_layout_id ob) in
                 if u = 0 then None
                 else (let (g2, outs) = get_next e (g1\<lparr>total_objects := 1, total_blocks_in_object := (len + (u - 1)) div u\<rparr>)
                       in Some (g2, pre @ outs)))
              else
                (let is_multipart = (om_obj_parts ob \<noteq> 0);
                     n = (if is_multipart then unat (om_obj_fragments ob) else unat (om_obj_fragments ob + 1))
                 in case oa_ext g1 of
                      None \<Rightarrow> None
                    | Some x \<Rightarrow>
                        map_option (\<lambda>infos.
                            let (g2, outs) = get_next e (g1\<lparr>total_objects := n, extended_objects := extended_objects g1 @ infos,
                                  total_blocks_in_object := total_blocks_in_object g1 + sum_list (map eo_total_blocks infos)\<rparr>)
                            in (g2, pre @ outs))
                          (collect_infos e ob (x_ext_objects x) is_multipart n []))))"

section \<open>The range\<close>

text \<open>
  The offsets the header selects from a content of length \<open>len\<close>; \<open>cur\<close> are the offsets so far.
  The flag is the value returned; the offsets may have changed in either case.
\<close>

definition parse_range :: "string \<Rightarrow> size_t \<Rightarrow> size_t \<times> size_t \<Rightarrow> (size_t \<times> size_t) \<times> bool" where
  "parse_range range_value len cur =
     (if list_all c_isspace range_value then (cur, True)
      else case str_find ''='' range_value of
        None \<Rightarrow> (cur, False)
      | Some pos \<Rightarrow>
          (let bytes_unit = trim (take pos range_value);
               byte_range_set = drop (Suc pos) range_value
           in if bytes_unit \<noteq> ''bytes'' then (cur, False)
              else if byte_range_set = [] then (cur, False)
              else if str_find '','' byte_range_set \<noteq> None then ((0, len - 1), True)
              else case str_find ''-'' byte_range_set of
                None \<Rightarrow> (cur, False)
              | Some dash \<Rightarrow>
                  (let first_byte = trim (take dash byte_range_set);
                       last_byte = trim (drop (Suc dash) byte_range_set)
                   in if first_byte = [] \<and> last_byte = []
                         \<or> first_byte \<noteq> [] \<and> \<not> string_has_only_digits first_byte
                         \<or> last_byte \<noteq> [] \<and> \<not> string_has_only_digits last_byte
                      then (cur, False)
                      else
                        (let first = (if first_byte = [] then len - of_int (c_atol last_byte) else of_int (c_atol first_byte));
                             last0 = (if first_byte = [] \<or> last_byte = [] then len - 1 else of_int (c_atol last_byte));
                             last = (if last0 > len - 1 then len - 1 else last0)
                         in ((first, last), \<not> (first \<ge> len \<or> first > last))))))"

definition validate_range_header_and_set_read_options :: "string \<Rightarrow> get_action \<Rightarrow> get_action \<times> bool" where
  "validate_range_header_and_set_read_options range_value g =
     (let ((first, last), valid) =
            parse_range range_value (get_content_len g) (first_byte_offset_to_read g, last_byte_offset_to_read g)
      in (g\<lparr>first_byte_offset_to_read := first, last_byte_offset_to_read := last\<rparr>, valid))"

definition do_check_full_or_range :: "get_env \<Rightarrow> get_action \<Rightarrow> get_result" where
  "do_check_full_or_range e g =
     (if ge_range_header e = [] then get_next e g
      else (let (g1, valid) = validate_range_header_and_set_read_options (ge_range_header e) g
            in if valid then get_next e g1 else send_response (get_set_error ''InvalidRange'' g1)))"

section \<open>How much to read\<close>

definition reads_everything :: "get_action \<Rightarrow> bool" where
  "reads_everything g \<longleftrightarrow> first_byte_offset_to_read g = 0 \<and> last_byte_offset_to_read g = get_content_len g - 1"

definition set_total_blocks_to_read_from_object :: "get_env \<Rightarrow> S3ObjectMetadata \<Rightarrow> get_action \<Rightarrow> get_action option" where
  "set_total_blocks_to_read_from_object e ob g =
     (if reads_everything g then Some (g\<lparr>total_blocks_to_read := total_blocks_in_object g\<rparr>)
      else (let u = unit_of e (om_layout_id ob) in
            if u = 0 then None
            else Some (g\<lparr>total_blocks_to_read :=
                   (last_byte_offset_to_read g + u) div u - (first_byte_offset_to_read g + u) div u + 1\<rparr>)))"

text \<open>The first object from index \<open>i\<close> on that ends behind the offset, \<open>dflt\<close> when there is none.\<close>

definition object_with_offset :: "size_t \<Rightarrow> nat \<Rightarrow> nat \<Rightarrow> S3ExtendedObjectInfo list \<Rightarrow> nat" where
  "object_with_offset off i dflt infos =
     (let k = i + length (takeWhile (\<lambda>o1. \<not> off < start_offset_in_object o1 + object_size o1) (drop i infos))
      in if k < length infos then k else dflt)"

definition requested_sizes :: "get_action \<Rightarrow> nat \<Rightarrow> nat \<Rightarrow> S3ExtendedObjectInfo list \<Rightarrow> S3ExtendedObjectInfo list" where
  "requested_sizes g fi la infos =
     (let first = first_byte_offset_to_read g; last = last_byte_offset_to_read g
      in if la = fi then infos[fi := (infos ! fi)\<lparr>requested_object_size := last - first + 1\<rparr>]
         else (let infos1 = infos[fi := (infos ! fi)\<lparr>requested_object_size :=
                              object_size (infos ! fi) - (first - start_offset_in_object (infos ! fi)) + 1\<rparr>]
               in infos1[la := (infos1 ! la)\<lparr>requested_object_size := last - start_offset_in_object (infos1 ! la) + 1\<rparr>]))"

definition readable_blocks :: "nat \<Rightarrow> nat \<Rightarrow> size_t \<Rightarrow> size_t \<Rightarrow> nat \<Rightarrow> S3ExtendedObjectInfo \<Rightarrow> S3ExtendedObjectInfo" where
  "readable_blocks fi la first_block last_block k info =
     (if k < fi \<or> la < k then info
      else info\<lparr>total_readable_blocks :=
             (if k = fi then eo_total_blocks info - first_block + 1
              else if k = la then last_block else eo_total_blocks info)\<rparr>)"

text \<open>
  The indices count from 0; \<open>extended_objects\<close> has \<open>total_objects\<close> entries.  The object list is
  cut to the objects of the range.
\<close>

definition set_total_blocks_to_read_from_fragmented_object :: "get_env \<Rightarrow> get_action \<Rightarrow> get_action option" where
  "set_total_blocks_to_read_from_fragmented_object e g =
     (let infos = extended_objects g in
      if total_objects g \<noteq> length infos \<or> infos = [] then None
      else if reads_everything g then
        Some (g\<lparr>total_blocks_to_read_all_objects := total_blocks_to_read_all_objects g + sum_list (map eo_total_blocks infos),
                extended_objects := map (\<lambda>o1. o1\<lparr>total_readable_blocks := eo_total_blocks o1\<rparr>) infos,
                total_objects_to_read := total_objects g\<rparr>)
      else
        (let fi = object_with_offset (first_byte_offset_to_read g) 0 0 infos;
             la = object_with_offset (last_byte_offset_to_read g) fi (total_objects g - 1) infos;
             infos1 = requested_sizes g fi la infos;
             u1 = unit_of e (object_layout (infos1 ! fi));
             u2 = (if la \<noteq> fi then unit_of e (object_layout (infos1 ! la)) else u1)
         in if u1 = 0 \<or> u2 = 0 then None
            else
              (let first_block = (first_byte_offset_to_read g - start_offset_in_object (infos1 ! fi) + u1) div u1;
                   last_block = (last_byte_offset_to_read g - start_offset_in_object (infos1 ! la) + u2) div u2;
                   infos2 = map (\<lambda>(k, o1). readable_blocks fi la first_block last_block k o1) (zip [0..<length infos1] infos1);
                   infos3 = drop fi (take (Suc la) infos2)
               in Some (g\<lparr>total_blocks_to_read_all_objects :=
                              total_blocks_to_read_all_objects g + sum_list (map total_readable_blocks infos3),
                          extended_objects := infos3, total_objects_to_read := length infos3\<rparr>))))"

section \<open>Reading\<close>

definition check_outbuffer_and_mempool_stats :: "get_env \<Rightarrow> S3ObjectMetadata \<Rightarrow> bool" where
  "check_outbuffer_and_mempool_stats e ob \<longleftrightarrow>
     \<not> (ge_outstanding_length e \<ge> ucast (get_motr_read_payload_size (ge_layouts e) (ge_units_per_request e) (om_layout_id ob))
                                    * ge_write_buffer_multiple e
        \<or> \<not> ge_pool_above_threshold e)"

definition read_object_data_failed :: "get_action \<Rightarrow> get_result" where
  "read_object_data_failed g =
     send_response (if \<not> read_object_reply_started g then get_set_error ''InternalError'' g else g)"

definition set_total_blocks_to_read_from_next_object :: "get_action \<Rightarrow> get_action option" where
  "set_total_blocks_to_read_from_next_object g =
     (if next_fragment_object g < length (extended_objects g)
      then Some (g\<lparr>blocks_already_read := 0, data_sent_to_client_for_object := 0,
                   total_blocks_to_read := total_readable_blocks (extended_objects g ! next_fragment_object g)\<rparr>)
      else None)"

text \<open>\<open>read_fragmented_object\<close> up to its last call, \<open>read_object_data\<close>.\<close>

definition open_fragment :: "get_env \<Rightarrow> get_action \<Rightarrow> get_action option" where
  "open_fragment e g =
     (case set_total_blocks_to_read_from_next_object g of
        None \<Rightarrow> None
      | Some g1 \<Rightarrow>
          (let o1 = extended_objects g1 ! next_fragment_object g1;
               u = unit_of e (object_layout o1);
               r = S3MotrReader_init (ge_layouts e) (object_OID o1) (object_layout o1) (object_pvid o1)
           in if next_fragment_object g1 = 0 \<and> u = 0 then None
              else (let start = (if next_fragment_object g1 = 0
                                 then ((first_byte_offset_to_read g1 - start_offset_in_object o1 + u) div u - 1) * u else 0)
                    in Some (g1\<lparr>g_reader := Some (set_last_index start r)\<rparr>))))"

text \<open>How many blocks the next read takes.\<close>

definition next_blocks_to_read :: "get_env \<Rightarrow> S3ObjectMetadata \<Rightarrow> size_t \<Rightarrow> S3MotrReader \<Rightarrow> get_action \<Rightarrow> size_t" where
  "next_blocks_to_read e ob u r g =
     (let max_blocks = ucast (ge_units_per_request e);
          left = total_blocks_to_read g - blocks_already_read g;
          n = (if blocks_already_read g = 0 \<and> next_fragment_object g = 0
                  \<and> get_requested_content_length g > max_blocks * u
               then (if max_blocks < ucast (ge_first_read_size e) then max_blocks else ucast (ge_first_read_size e))
               else if left > max_blocks then max_blocks else left)
      in if blocks_already_read g = 0 \<and> mr_last_index r \<noteq> 0 \<and> is_object_extended ob
            \<and> next_fragment_object g < length (extended_objects g)
            \<and> n > total_readable_blocks (extended_objects g ! next_fragment_object g)
         then total_readable_blocks (extended_objects g ! next_fragment_object g) else n)"

text \<open>A handler called inside the call of the reader; the other outputs only record what was launched.\<close>

fun reader_outs :: "reader_out list \<Rightarrow> get_action \<Rightarrow> get_result" where
  "reader_outs [] g = (g, [])"
| "reader_outs (Call_on_failed # outs) g =
     (let (g1, o1) = read_object_data_failed g; (g2, o2) = reader_outs outs g1 in (g2, o1 @ o2))"
| "reader_outs (ro # outs) g = (let (g2, o2) = reader_outs outs g in (g2, Reader ro # o2))"

definition launch_read :: "get_env \<Rightarrow> S3ObjectMetadata \<Rightarrow> get_action \<Rightarrow> get_result option" where
  "launch_read e ob g =
     (case (current_layout ob g, g_reader g) of
        (Some lid, Some r) \<Rightarrow>
          (let n = next_blocks_to_read e ob (unit_of e lid) r g;
               g1 = g\<lparr>blocks_to_read := n\<rparr>
           in if n > 0 then
                (case reader_read_object_data (ge_motr e) n r of
                   None \<Rightarrow> None
                 | Some (r1, ros, launched) \<Rightarrow>
                     (let (g2, outs) = reader_outs ros (g1\<lparr>g_reader := Some r1\<rparr>)
                      in if launched then Some (g2, outs)
                         else (let (g3, outs') = send_response (get_set_error
                                     (if mr_state r1 = Rdr_failed_to_launch then ''ServiceUnavailable'' else ''InternalError'') g2)
                               in Some (g3, outs @ outs'))))
              else Some (send_response g1))
      | _ \<Rightarrow> None)"

text \<open>The shutdown check at the head of \<open>read_object_data\<close> and \<open>send_data_to_client\<close>.\<close>

definition get_check_shutdown :: "get_env \<Rightarrow> get_action \<Rightarrow> get_action \<times> get_out list \<times> bool" where
  "get_check_shutdown e g =
     (let (act, ev, shut) = check_shutdown_and_rollback (ge_act e) False (oa_act g)
      in (g\<lparr>oa_act := act\<rparr>, map (Base_out \<circ> Engine) ev, shut))"

lemma get_check_shutdown_keeps:
  "get_check_shutdown e g = (g1, ev, shut) \<Longrightarrow>
     next_fragment_object g1 = next_fragment_object g \<and> total_objects_to_read g1 = total_objects_to_read g"
  by (auto simp: get_check_shutdown_def split: prod.splits)

lemma open_fragment_keeps:
  "open_fragment e g = Some g1 \<Longrightarrow>
     next_fragment_object g1 = next_fragment_object g \<and> total_objects_to_read g1 = total_objects_to_read g"
  by (auto simp: open_fragment_def set_total_blocks_to_read_from_next_object_def Let_def split: if_splits)

text \<open>
  The recursion is the call of \<open>read_fragmented_object\<close> for the next object; it happens when an
  object has no block to read, and ends because the number of the object grows.
\<close>

function read_object_data :: "get_env \<Rightarrow> get_action \<Rightarrow> get_result option" where
  "read_object_data e g =
     (case oa_object g of
        None \<Rightarrow> None
      | Some ob \<Rightarrow>
          (case get_check_shutdown e g of
             (g1, ev, shut) \<Rightarrow>
               if shut then Some (g1, ev)
               else if \<not> check_outbuffer_and_mempool_stats e ob \<and> \<not> ge_delay_timer_fails e
               then Some (g1, ev @ [Start_delay_timer])
               else map_option (\<lambda>(g2, outs). (g2, ev @ outs))
                 (if blocks_already_read g1 \<noteq> total_blocks_to_read g1 then launch_read e ob g1
                  else if om_obj_fragments ob \<noteq> 0 then
                    (if Suc (next_fragment_object g1) < total_objects_to_read g1
                     then (case open_fragment e (g1\<lparr>next_fragment_object := Suc (next_fragment_object g1)\<rparr>) of
                             None \<Rightarrow> None
                           | Some g2 \<Rightarrow> read_object_data e g2)
                     else Some (send_response (g1\<lparr>next_fragment_object := Suc (next_fragment_object g1)\<rparr>)))
                  else Some (send_response g1))))"
  by pat_completeness auto
termination
  by (relation "measure (\<lambda>(e, g). total_objects_to_read g - next_fragment_object g)")
    (auto dest!: open_fragment_keeps get_check_shutdown_keeps [OF sym])

declare read_object_data.simps [simp del]

definition read_fragmented_object :: "get_env \<Rightarrow> get_action \<Rightarrow> get_result option" where
  "read_fragmented_object e g = (case open_fragment e g of None \<Rightarrow> None | Some g1 \<Rightarrow> read_object_data e g1)"

definition do_read_object :: "get_env \<Rightarrow> get_action \<Rightarrow> get_result option" where
  "do_read_object e g =
     (case oa_object g of
        None \<Rightarrow> None
      | Some ob \<Rightarrow>
          if om_obj_fragments ob = 0 then
            (case set_total_blocks_to_read_from_object e ob g of
               None \<Rightarrow> None
             | Some g1 \<Rightarrow>
                 (let u = unit_of e (om_layout_id ob);
                      r = S3MotrReader_init (ge_layouts e) (om_oid ob) (om_layout_id ob) (get_pvid ob);
                      first = first_byte_offset_to_read g1
                  in if u = 0 then None
                     else read_object_data e (g1\<lparr>g_reader := Some (set_last_index (first - first mod u) r)\<rparr>)))
          else
            (case set_total_blocks_to_read_from_fragmented_object e g of
               None \<Rightarrow> None
             | Some g1 \<Rightarrow> read_fragmented_object e g1))"

section \<open>Sending\<close>

definition data_headers :: "get_env \<Rightarrow> S3ObjectMetadata \<Rightarrow> get_action \<Rightarrow> get_task oa_out list" where
  "data_headers e ob g =
     [Out_header ''Last-Modified'' (ge_gmt e (snd (get_last_modified ob))),
      Out_header ''Content-Type'' (snd (get_content_type ob)),
      Out_header ''ETag'' (''\"'' @ snd (get_md5 ob) @ ''\"''), Out_header ''Accept-Ranges'' ''bytes'',
      Out_header ''Content-Length'' (to_dec (unat (get_requested_content_length g)))]
     @ map (\<lambda>(k, v). Out_header k v) (om_user ob)
     @ (if ge_range_header e \<noteq> []
        then [Out_header ''Content-Range'' (''bytes '' @ to_dec (unat (first_byte_offset_to_read g)) @ ''-''
                @ to_dec (unat (last_byte_offset_to_read g)) @ ''/'' @ to_dec (unat (get_content_len g))),
              Reply_start 206]
        else [Reply_start 200])"

text \<open>The first run loses the bytes before the range.  The second component is \<open>length_in_evbuf\<close>.\<close>

definition skip_to_first_byte :: "size_t \<Rightarrow> get_action \<Rightarrow> S3Evbuffer \<Rightarrow> S3Evbuffer \<times> size_t" where
  "skip_to_first_byte u g ev =
     (let len = blocks_to_read g * u;
          off = first_byte_offset_to_read g mod u
      in if data_sent_to_client g = 0 \<and> off \<noteq> 0 then (let ev1 = drain_data off ev in (ev1, get_evbuff_length ev1))
         else (ev, len))"

text \<open>The last run loses the bytes after the range, or after the end of the current object.\<close>

definition cut_to_length :: "S3ObjectMetadata \<Rightarrow> get_action \<Rightarrow> size_t \<Rightarrow> S3Evbuffer \<Rightarrow> S3Evbuffer option" where
  "cut_to_length ob g len ev =
     (let req = get_requested_content_length g;
          size = object_size (extended_objects g ! next_fragment_object g)
      in if data_sent_to_client g + len \<ge> req \<or> get_evbuff_length ev \<ge> req
         then read_drain_data_from_buffer (req - data_sent_to_client g) ev
         else if is_object_extended ob \<and> data_sent_to_client_for_object g + len \<ge> size
         then read_drain_data_from_buffer (size - data_sent_to_client_for_object g) ev
         else Some ev)"

text \<open>What follows once the run was sent.\<close>

definition after_send :: "get_env \<Rightarrow> S3ObjectMetadata \<Rightarrow> get_action \<Rightarrow> get_result option" where
  "after_send e ob g =
     (let req = get_requested_content_length g in
      if \<not> client_connected (ge_act e) then Some (send_response (get_set_error ''InternalError'' g))
      else if \<not> is_object_extended ob then
        (if data_sent_to_client g \<noteq> req then read_object_data e g else Some (send_response g))
      else if data_sent_to_client g = req then Some (send_response g)
      else if data_sent_to_client_for_object g \<noteq> requested_object_size (extended_objects g ! next_fragment_object g)
      then read_object_data e g
      else (let g1 = g\<lparr>next_fragment_object := Suc (next_fragment_object g)\<rparr>
            in if next_fragment_object g1 < total_objects_to_read g1 then read_fragmented_object e g1
               else Some (send_response g1)))"

definition send_run :: "get_env \<Rightarrow> S3ObjectMetadata \<Rightarrow> S3MotrReader \<Rightarrow> S3Evbuffer \<Rightarrow> size_t \<Rightarrow> get_action \<Rightarrow> get_result option" where
  "send_run e ob r ev u g =
     (let g1 = g\<lparr>blocks_already_read := blocks_already_read g + blocks_to_read g\<rparr>;
          (ev1, len) = skip_to_first_byte u g1 ev
      in case cut_to_length ob g1 len ev1 of
           None \<Rightarrow> None
         | Some ev2 \<Rightarrow>
             (let sent = get_evbuff_length ev2;
                  (ev3, body) = release_ownership ev2;
                  g2 = g1\<lparr>data_sent_to_client := data_sent_to_client g1 + sent,
                          data_sent_to_client_for_object := data_sent_to_client_for_object g1 + sent,
                          g_reader := Some (r\<lparr>mr_evbuffer := Some ev3\<rparr>)\<rparr>
              in map_option (\<lambda>(g3, outs). (g3, (case body of None \<Rightarrow> [] | Some bs \<Rightarrow> [Base_out (Reply_body bs)]) @ outs))
                   (after_send e ob g2)))"

definition send_data_to_client :: "get_env \<Rightarrow> get_action \<Rightarrow> get_result option" where
  "send_data_to_client e g =
     (case get_check_shutdown e g of
        (g0, ev0, shut) \<Rightarrow>
          if shut then Some (g0, ev0)
          else case (oa_object g0, g_reader g0) of
                 (Some ob, Some r) \<Rightarrow>
                   (case (mr_evbuffer r, current_layout ob g0) of
                      (Some ev, Some lid) \<Rightarrow>
                        (let u = unit_of e lid;
                             hs = (if read_object_reply_started g0 then [] else map Base_out (data_headers e ob g0))
                         in if u = 0 then None
                            else map_option (\<lambda>(g2, outs). (g2, ev0 @ hs @ outs))
                                   (send_run e ob r ev u (g0\<lparr>read_object_reply_started := True\<rparr>)))
                    | _ \<Rightarrow> None)
               | _ \<Rightarrow> None)"

definition resume_action_step :: "get_env \<Rightarrow> get_action \<Rightarrow> get_result option" where
  "resume_action_step e g = map_option (\<lambda>(g1, outs). (g1, Free_delay_timer # outs)) (read_object_data e g)"

section \<open>The request as a whole\<close>

text \<open>
  The tasks of the request.  Authentication and authorization are calls of the authentication
  client, whose answer is an event.
\<close>

fun get_task_body :: "get_env \<Rightarrow> get_task \<Rightarrow> get_action \<Rightarrow> get_result option" where
  "get_task_body e (Base check_authentication) g = Some (g, [])"
| "get_task_body e (Base load_metadata) g =
     (let (g1, outs) = oa_load_metadata g in Some (g1, map Base_out outs))"
| "get_task_body e (Base set_authorization_meta) g =
     map_option (\<lambda>(g1, outs). (g1, map Base_out outs)) (oa_set_authorization_meta (ge_act e) g)"
| "get_task_body e (Base check_authorization) g = Some (g, [])"
| "get_task_body e validate_object_info g = do_validate_object_info e g"
| "get_task_body e check_full_or_range_object_read g = Some (do_check_full_or_range e g)"
| "get_task_body e read_object g = do_read_object e g"
| "get_task_body e send_response_to_s3_client g = Some (send_response g)"

text \<open>The call that a list of outputs ends with: a task, or a virtual function of this class.\<close>

fun get_call :: "get_env \<Rightarrow> get_out \<Rightarrow> get_action \<Rightarrow> get_result option" where
  "get_call e (Base_out (Engine (Ran t))) g = get_task_body e t g"
| "get_call e (Base_out (Engine SendResponse)) g = Some (send_response g)"
| "get_call e (Base_out Fetch_object_info_failed) g = get_fetch_object_info_failed g"
| "get_call e _ g = Some (g, [])"

text \<open>Runs the calls one after the other; every task is run at most once, so the number of tasks bounds the chain.\<close>

fun get_perform :: "nat \<Rightarrow> get_env \<Rightarrow> get_result \<Rightarrow> get_result option" where
  "get_perform 0 e (g, outs) = Some (g, outs)"
| "get_perform (Suc n) e (g, outs) =
     (if outs = [] then Some (g, outs)
      else case get_call e (last outs) g of
             None \<Rightarrow> None
           | Some (g1, outs1) \<Rightarrow>
               if outs1 = [] then Some (g1, outs)
               else map_option (\<lambda>(g2, outs2). (g2, outs @ outs2)) (get_perform n e (g1, outs1)))"

definition get_settle :: "get_env \<Rightarrow> get_result option \<Rightarrow> get_result option" where
  "get_settle e r =
     (case r of None \<Rightarrow> None | Some (g, outs) \<Rightarrow> get_perform (Suc (Suc (number_of_tasks (oa_act g)))) e (g, outs))"

datatype get_event =
    Request_started
  | Authenticated
  | Authentication_failed
  | Bucket_loaded S3BucketMetadata
  | Bucket_load_failed S3BucketMetadata
  | Object_loaded S3ObjectMetadata
  | Object_load_failed S3ObjectMetadata
  | Ext_loaded S3ObjectExtendedMetadata
  | Ext_load_failed S3ObjectExtendedMetadata
  | Authorized
  | Authorization_failed
  | Object_opened
  | Object_open_failed int
  | Read_done "bytes list" "m0_generic_pi list"
  | Read_failed int
  | Delay_over

text \<open>The handlers of a reader's completion: launches are recorded, the client's handler is called.\<close>

fun reader_completed :: "get_env \<Rightarrow> reader_out list \<Rightarrow> get_action \<Rightarrow> get_result option" where
  "reader_completed e [] g = Some (g, [])"
| "reader_completed e (Call_on_success # outs) g = send_data_to_client e g"
| "reader_completed e (Call_on_failed # outs) g = Some (read_object_data_failed g)"
| "reader_completed e (ro # outs) g =
     map_option (\<lambda>(g1, os). (g1, Reader ro # os)) (reader_completed e outs g)"

definition with_engine :: "(get_task action \<times> get_task event list) \<Rightarrow> get_action \<Rightarrow> get_result" where
  "with_engine r g = (g\<lparr>oa_act := fst r\<rparr>, map (Base_out \<circ> Engine) (snd r))"

definition from_base :: "get_action \<times> get_task oa_out list \<Rightarrow> get_result" where
  "from_base r = (fst r, map Base_out (snd r))"

definition with_reader ::
  "get_env \<Rightarrow> (S3MotrReader \<Rightarrow> (S3MotrReader \<times> reader_out list) option) \<Rightarrow> get_action \<Rightarrow> get_result option" where
  "with_reader e f g =
     (case g_reader g of
        None \<Rightarrow> None
      | Some r \<Rightarrow> (case f r of None \<Rightarrow> None | Some (r1, outs) \<Rightarrow> reader_completed e outs (g\<lparr>g_reader := Some r1\<rparr>)))"

text \<open>
  \<open>di\<close> holds the two switches of \<open>read_object_successful\<close> and the checksum function.
\<close>

type_synonym di_config = "bool \<times> bool \<times> calculate_pi"

fun get_handle :: "m0_uint128 \<Rightarrow> di_config \<Rightarrow> get_env \<Rightarrow> get_event \<Rightarrow> get_action \<Rightarrow> get_result option" where
  "get_handle app di e Request_started g = Some (with_engine (action_start (ge_act e) (oa_act g)) g)"
| "get_handle app di e Authenticated g = Some (with_engine (check_authentication_successful (ge_act e) (oa_act g)) g)"
| "get_handle app di e Authentication_failed g = Some (with_engine (check_authentication_failed (ge_act e) (oa_act g)) g)"
| "get_handle app di e (Bucket_loaded b) g = map_option from_base (fetch_bucket_info_success app False b g)"
| "get_handle app di e (Bucket_load_failed b) g = get_fetch_bucket_info_failed (g\<lparr>oa_bucket := Some b\<rparr>)"
| "get_handle app di e (Object_loaded ob) g = map_option from_base (fetch_object_info_success (ge_act e) ob g)"
| "get_handle app di e (Object_load_failed ob) g = get_fetch_object_info_failed (g\<lparr>oa_object := Some ob\<rparr>)"
| "get_handle app di e (Ext_loaded x) g = Some (from_base (fetch_ext_object_info_success (ge_act e) x g))"
| "get_handle app di e (Ext_load_failed x) g = Some (from_base (fetch_ext_object_info_failed (ge_act e) x g))"
| "get_handle app di e Authorized g = Some (with_engine (check_authorization_successful (ge_act e) (oa_act g)) g)"
| "get_handle app di e Authorization_failed g = Some (with_engine (check_authorization_failed (ge_act e) (oa_act g)) g)"
| "get_handle app di e Object_opened g = with_reader e (open_object_successful (ge_motr e)) g"
| "get_handle app di e (Object_open_failed errno) g = with_reader e (Some \<circ> open_object_failed errno) g"
| "get_handle app di e (Read_done data pis) g =
     with_reader e (read_object_successful (fst di) (fst (snd di)) (snd (snd di)) data pis) g"
| "get_handle app di e (Read_failed errno) g = with_reader e (Some \<circ> read_object_failed errno) g"
| "get_handle app di e Delay_over g = resume_action_step e g"

definition get_step :: "m0_uint128 \<Rightarrow> di_config \<Rightarrow> get_env \<Rightarrow> get_event \<Rightarrow> get_action \<Rightarrow> get_result option" where
  "get_step app di e ev g = get_settle e (get_handle app di e ev g)"

end
