(* ===== verification/Get_Run.thy ===== *)
theory Get_Run
  imports Get_Object
begin

text \<open>
  What a GET sends.  \<open>get_serve\<close> answers every request to Motr with the bytes of a store, a
  function from object and offset to the byte there.
\<close>

definition motr_bytes :: "(m0_uint128 \<Rightarrow> nat \<Rightarrow> char) \<Rightarrow> m0_uint128 \<Rightarrow> size_t \<times> size_t \<Rightarrow> bytes" where
  "motr_bytes store id' ext = map (store id') [unat (fst ext)..<unat (fst ext) + unat (snd ext)]"

fun get_answer :: "(m0_uint128 \<Rightarrow> nat \<Rightarrow> char) \<Rightarrow> get_out \<Rightarrow> get_action \<Rightarrow> get_event option" where
  "get_answer store (Reader Open_object) g = Some Object_opened"
| "get_answer store (Reader (Read_object es)) g =
     (case g_reader g of None \<Rightarrow> None | Some r \<Rightarrow> Some (Read_done (map (motr_bytes store (mr_oid r)) es) []))"
| "get_answer store _ g = None"

text \<open>\<open>None\<close> when the number of steps did not suffice.\<close>

fun get_serve :: "nat \<Rightarrow> m0_uint128 \<Rightarrow> di_config \<Rightarrow> get_env \<Rightarrow> (m0_uint128 \<Rightarrow> nat \<Rightarrow> char) \<Rightarrow> get_result \<Rightarrow> get_result option" where
  "get_serve 0 app di e store (g, outs) = None"
| "get_serve (Suc n) app di e store (g, outs) =
     (if outs = [] then Some (g, outs)
      else case get_answer store (last outs) g of
             None \<Rightarrow> Some (g, outs)
           | Some ev \<Rightarrow>
               (case get_step app di e ev g of
                  None \<Rightarrow> None
                | Some r \<Rightarrow> map_option (\<lambda>(g2, outs2). (g2, outs @ outs2)) (get_serve n app di e store r)))"

fun reply_body :: "get_out list \<Rightarrow> bytes" where
  "reply_body [] = []"
| "reply_body (Base_out (Reply_body bs) # outs) = bs @ reply_body outs"
| "reply_body (_ # outs) = reply_body outs"

lemma reply_body_append [simp]: "reply_body (xs @ ys) = reply_body xs @ reply_body ys"
  by (induction xs rule: reply_body.induct) auto

fun reply_starts :: "get_out list \<Rightarrow> nat list" where
  "reply_starts [] = []"
| "reply_starts (Base_out (Reply_start code) # outs) = code # reply_starts outs"
| "reply_starts (_ # outs) = reply_starts outs"

lemma reply_starts_append [simp]: "reply_starts (xs @ ys) = reply_starts xs @ reply_starts ys"
  by (induction xs rule: reply_starts.induct) auto

definition reply_status :: "get_env \<Rightarrow> nat" where
  "reply_status e = (if ge_range_header e \<noteq> [] then 206 else 200)"

lemma header_outs [simp]:
  "reply_body (map Base_out (map (\<lambda>(k, v). Out_header k v) hs)) = []"
  "reply_starts (map Base_out (map (\<lambda>(k, v). Out_header k v) hs)) = []"
  "reply_body (map (\<lambda>x. Base_out (case x of (k, v) \<Rightarrow> Out_header k v)) hs) = []"
  "reply_starts (map (\<lambda>x. Base_out (case x of (k, v) \<Rightarrow> Out_header k v)) hs) = []"
  by (induction hs) auto

lemma data_headers_outs [simp]:
  "reply_body (map Base_out (data_headers e ob g)) = []"
  "reply_starts (map Base_out (data_headers e ob g)) = [reply_status e]"
  by (simp_all add: data_headers_def reply_status_def comp_def)

section \<open>Reads of whole units\<close>

lemma unat_add: "unat (a :: size_t) + unat b < 2 ^ 64 \<Longrightarrow> unat (a + b) = unat a + unat b"
  by (simp add: unat_add_lem [THEN iffD1])

lemma unat_mult: "unat (a :: size_t) * unat b < 2 ^ 64 \<Longrightarrow> unat (a * b) = unat a * unat b"
  by (simp add: unat_mult_lem [THEN iffD1])

lemma unat16_less: "unat (w :: 16 word) < 2 ^ 16"
  by (rule order.strict_trans2 [OF unsigned_less]) simp

lemma unat32_less: "unat (w :: 32 word) < 2 ^ 32"
  by (rule order.strict_trans2 [OF unsigned_less]) simp

lemma ucast16_nat: "unat (ucast (w :: 16 word) :: size_t) = unat w"
  using unat16_less [of w] by (simp add: unsigned_ucast_eq take_bit_nat_eq_self)

lemma ucast32_nat: "unat (ucast (w :: 32 word) :: size_t) = unat w"
  using unat32_less [of w] by (simp add: unsigned_ucast_eq take_bit_nat_eq_self)

text \<open>The largest run: units per request times unit size.\<close>

lemma units_times_unit:
  assumes "unat (u :: size_t) \<le> 33554432"
  shows "unat (ucast (w :: 16 word) * u) = unat w * unat u" "unat w * unat u < 2 ^ 42"
proof -
  have "unat w * unat u \<le> 65535 * 33554432" using unat16_less [of w] assms by (intro mult_le_mono) auto
  then show less: "unat w * unat u < 2 ^ 42" by simp
  show "unat (ucast w * u) = unat w * unat u"
    by (subst unat_mult) (use less in \<open>simp_all add: ucast16_nat\<close>)
qed

lemma unit_div_self:
  assumes "(u :: size_t) \<noteq> 0" shows "u div u = 1"
proof -
  have "unat u \<noteq> 0" using assms by (metis unat_eq_zero)
  then have "unat (u div u) = unat (1 :: size_t)" by (simp add: unat_div)
  then show ?thesis by (simp only: word_unat_eq_iff)
qed

lemma read_extents_index: "snd (read_extents (replicate k p) idx) = idx + of_nat k * p"
  by (induction k arbitrary: idx) (auto simp: algebra_simps split: prod.split dest: arg_cong [of _ _ snd])

lemma read_extents_bytes:
  "unat idx + k * unat p < 2 ^ 64 \<Longrightarrow>
     concat (map (motr_bytes store id') (fst (read_extents (replicate k p) idx))) =
     map (store id') [unat idx..<unat idx + k * unat p]"
proof (induction k arbitrary: idx)
  case (Suc k)
  then have le: "unat idx + unat p \<le> unat idx + Suc k * unat p" by simp
  then have sum: "unat (idx + p) = unat idx + unat p" using Suc.prems by (intro unat_add) linarith
  have "unat (idx + p) + k * unat p < 2 ^ 64" using Suc.prems by (simp add: sum)
  from Suc.IH [OF this] show ?case
    by (simp add: sum motr_bytes_def case_prod_beta Let_def flip: map_append upt_add_eq_append) (simp add: add.assoc)
qed simp

definition pool_call :: "motr_call \<Rightarrow> bool" where
  "pool_call mc \<longleftrightarrow> mc_pool_buffer_size mc = 16384 \<and> mc_rw_op_ctx mc \<and> mc_entity_open mc = 0 \<and> mc_obj_op mc = 0
     \<and> (\<forall>n. mc_reserve mc n 16384 = Some (replicate n 16384))"

text \<open>The buffers of the pool hold the units exactly.\<close>

lemma whole_buffers:
  fixes n u :: size_t
  assumes "unit_ok u" "unat n * unat u < 2 ^ 62"
  shows "unat ((n * u + (16384 - 1)) div 16384) * 16384 = unat n * unat u"
    and "16384 * of_nat (unat ((n * u + (16384 - 1)) div 16384)) = n * u"
proof -
  have nu: "unat (n * u) = unat n * unat u" using assms(2) by (intro unat_mult) simp
  have "u mod 16384 = 0" using assms(1) by (simp add: unit_ok_def)
  then have "unat (u mod 16384) = 0" by simp
  then have "unat u mod 16384 = 0" by (simp add: unat_mod)
  then obtain k where k: "unat u = 16384 * k" by auto
  have "unat (n * u + (16384 - 1)) = unat n * unat u + 16383"
    using assms(2) nu by (subst unat_add) auto
  then have "unat ((n * u + (16384 - 1)) div 16384) = (unat n * unat u + 16383) div 16384"
    by (simp add: unat_div)
  also have "\<dots> = unat n * k" by (simp add: k)
  finally have d: "unat ((n * u + (16384 - 1)) div 16384) = unat n * k" .
  show a: "unat ((n * u + (16384 - 1)) div 16384) * 16384 = unat n * unat u"
    by (simp only: d k)
  have "16384 * of_nat (unat ((n * u + (16384 - 1)) div 16384)) =
      (of_nat (unat ((n * u + (16384 - 1)) div 16384) * 16384) :: size_t)"
    by (simp only: of_nat_mult of_nat_numeral mult.commute)
  also have "\<dots> = of_nat (unat n * unat u)" by (simp only: a)
  also have "\<dots> = n * u" by simp
  finally show "16384 * of_nat (unat ((n * u + (16384 - 1)) div 16384)) = n * u" .
qed

text \<open>The reader of object \<open>id'\<close> stands at offset \<open>idx\<close>.\<close>

definition reader_at :: "m0_uint128 \<Rightarrow> size_t \<Rightarrow> nat \<Rightarrow> bool \<Rightarrow> S3MotrReader \<Rightarrow> bool" where
  "reader_at id' u idx opened r \<longleftrightarrow> mr_oid r = id' \<and> mr_unit_size r = u \<and> unat (mr_last_index r) = idx
     \<and> mr_is_object_opened r = opened"

text \<open>The reader has launched a read of the bytes from \<open>idx\<close> up to \<open>idx'\<close> and waits for them.\<close>

definition read_launched :: "m0_uint128 \<Rightarrow> nat \<Rightarrow> nat \<Rightarrow> (size_t \<times> size_t) list \<Rightarrow> S3MotrReader \<Rightarrow> bool" where
  "read_launched id' idx idx' es r \<longleftrightarrow> mr_evbuffer r \<noteq> None
     \<and> (\<forall>store. concat (map (motr_bytes store id') es) = map (store id') [idx..<idx'])"

lemma read_object_pool:
  assumes mc: "pool_call mc" and r: "reader_at id' u idx True r" and u: "unit_ok u"
    and n: "0 < mr_num_of_blocks_to_read r"
    and bound: "idx + unat (mr_num_of_blocks_to_read r) * unat u < 2 ^ 62"
  obtains r' es where
    "Motr_Reader.read_object mc r = Some (r', [Read_object es], True)"
    "reader_at id' u (idx + unat (mr_num_of_blocks_to_read r) * unat u) True r'"
    "read_launched id' idx (idx + unat (mr_num_of_blocks_to_read r) * unat u) es r'" "mr_state r' = mr_state r"
proof -
  define n where "n = mr_num_of_blocks_to_read r"
  define k where "k = unat ((n * u + (16384 - 1)) div 16384)"
  have small: "unat n * unat u < 2 ^ 62" using bound by (simp add: n_def)
  have k: "k * 16384 = unat n * unat u" and nu: "16384 * of_nat k = n * u"
    using whole_buffers [OF u small] by (simp_all add: k_def)
  have "unat (n * u) = unat n * unat u" using small by (intro unat_mult) simp
  moreover have "0 < unat n * unat u" using n u by (simp add: n_def unit_ok_def word_less_nat_alt)
  ultimately have pos: "0 < n * u" by (simp add: word_less_nat_alt)
  define es where "es = fst (read_extents (replicate k (16384 :: size_t)) (mr_last_index r))"
  define r' where "r' = r\<lparr>mr_evbuffer := Some \<lparr>ev_nvecs = k, ev_total_size = n * u, ev_unit_sz = 16384,
      ev_vec = replicate k 16384, ev_buf = Some (replicate (unat (sum_list (replicate k (16384 :: size_t)))) (CHR 0x00))\<rparr>,
      mr_extents := es, mr_last_index := mr_last_index r + n * u, mr_iteration_index := 0\<rparr>"
  have kd: "unat ((n * u + 16383) div 16384) = k" by (simp add: k_def)
  have nu': "of_nat k * 16384 = n * u" using nu by (simp only: mult.commute)
  have ext: "read_extents (replicate k 16384) (mr_last_index r) = (es, mr_last_index r + n * u)"
    by (rule prod_eqI) (simp_all add: es_def read_extents_index nu')
  have "Motr_Reader.read_object mc r = Some (r', [Read_object es], True)"
    using mc r pos
    by (simp add: Motr_Reader.read_object_def init_read_op_ctx_def pool_call_def reader_at_def S3Evbuffer_new_def
        S3Evbuffer_init_def to_motr_read_buffers_def r'_def ext kd flip: n_def)
  moreover have "unat (mr_last_index r + n * u) = idx + unat n * unat u"
    using bound r \<open>unat (n * u) = unat n * unat u\<close> by (subst unat_add) (simp_all add: reader_at_def n_def)
  then have "reader_at id' u (idx + unat n * unat u) True r'"
    using r by (simp add: reader_at_def r'_def)
  moreover have "read_launched id' idx (idx + unat n * unat u) es r'"
    using read_extents_bytes [of "mr_last_index r" k 16384] bound r k
    by (simp add: read_launched_def r'_def es_def reader_at_def n_def)
  ultimately show ?thesis using that by (simp add: n_def r'_def)
qed

section \<open>A plain object\<close>

definition calm_env :: "get_env \<Rightarrow> bool" where
  "calm_env e \<longleftrightarrow> \<not> is_s3_shutting_down (ge_act e) \<and> client_connected (ge_act e) \<and> s3_client_read_error (ge_act e) = []
     \<and> pool_call (ge_motr e) \<and> 0 < ge_units_per_request e \<and> 0 < ge_first_read_size e"

definition calm_action :: "get_task action \<Rightarrow> bool" where
  "calm_action act \<longleftrightarrow> act_state act \<noteq> ACTS_ERROR \<and> \<not> is_response_scheduled act"

definition plain_object :: "get_env \<Rightarrow> S3ObjectMetadata \<Rightarrow> bool" where
  "plain_object e ob \<longleftrightarrow> \<not> is_object_extended ob \<and> om_obj_fragments ob = 0 \<and> unit_ok (unit_of e (om_layout_id ob))
     \<and> check_outbuffer_and_mempool_stats e ob"

definition unit_nat :: "get_env \<Rightarrow> S3ObjectMetadata \<Rightarrow> nat" where
  "unit_nat e ob = unat (unit_of e (om_layout_id ob))"

text \<open>Bytes \<open>f\<close> to \<open>l\<close> are wanted, the first \<open>b\<close> of the units that hold them have been read and sent.\<close>

definition plain_core :: "get_env \<Rightarrow> S3ObjectMetadata \<Rightarrow> nat \<Rightarrow> nat \<Rightarrow> nat \<Rightarrow> get_action \<Rightarrow> bool" where
  "plain_core e ob f l b g \<longleftrightarrow>
     oa_object g = Some ob \<and> next_fragment_object g = 0 \<and> calm_action (oa_act g)
     \<and> unat (first_byte_offset_to_read g) = f \<and> unat (last_byte_offset_to_read g) = l \<and> f \<le> l \<and> l < 2 ^ 61
     \<and> unat (total_blocks_to_read g) = l div unit_nat e ob - f div unit_nat e ob + 1
     \<and> unat (blocks_already_read g) = b \<and> b \<le> l div unit_nat e ob - f div unit_nat e ob
     \<and> unat (data_sent_to_client g) = (if b = 0 then 0 else (f div unit_nat e ob + b) * unit_nat e ob - f)"

definition block_start :: "get_env \<Rightarrow> S3ObjectMetadata \<Rightarrow> nat \<Rightarrow> nat \<Rightarrow> nat" where
  "block_start e ob f b = (f div unit_nat e ob + b) * unit_nat e ob"

definition wants_blocks :: "get_env \<Rightarrow> S3ObjectMetadata \<Rightarrow> nat \<Rightarrow> nat \<Rightarrow> nat \<Rightarrow> nat \<Rightarrow> get_action \<Rightarrow> bool" where
  "wants_blocks e ob f l b n g \<longleftrightarrow> plain_core e ob f l b g \<and> unat (blocks_to_read g) = n \<and> 0 < n
     \<and> b + n \<le> l div unit_nat e ob - f div unit_nat e ob + 1 \<and> n \<le> unat (ge_units_per_request e)"

lemma unit_nat_bounds:
  assumes "plain_object e ob" shows "0 < unit_nat e ob" "unit_nat e ob \<le> 33554432"
  using assms by (auto simp: plain_object_def unit_ok_def unit_nat_def word_less_nat_alt word_le_nat_alt)

text \<open>The units from that of the first byte up to that of the last cover the range.\<close>

lemma range_below_last_unit:
  fixes u :: nat assumes "0 < u" "f \<le> l"
  shows "l < (f div u + (l div u - f div u + 1)) * u" "(l div u - f div u + 1) * u \<le> l + u"
proof -
  have "f div u \<le> l div u" using assms(2) by (rule div_le_mono)
  then have eq: "f div u + (l div u - f div u + 1) = l div u + 1" by simp
  show "l < (f div u + (l div u - f div u + 1)) * u"
    unfolding eq using dividend_less_div_times [OF assms(1), of l] by (simp add: algebra_simps)
  have "(l div u - f div u + 1) * u \<le> (l div u + 1) * u" by simp
  also have "\<dots> \<le> l + u" by (simp add: algebra_simps)
  finally show "(l div u - f div u + 1) * u \<le> l + u" .
qed

lemma requested_nat:
  assumes "plain_core e ob f l b g"
  shows "unat (get_requested_content_length g) = l - f + 1"
proof -
  have le: "first_byte_offset_to_read g \<le> last_byte_offset_to_read g"
    using assms by (simp add: plain_core_def word_le_nat_alt)
  then have d: "unat (last_byte_offset_to_read g - first_byte_offset_to_read g) = l - f"
    using assms by (simp add: unat_sub plain_core_def)
  have "l - f < 2 ^ 61" using assms by (simp add: plain_core_def less_imp_diff_less)
  then show ?thesis unfolding get_requested_content_length_def
    using d by (subst unat_add) simp_all
qed

lemma next_blocks_ok:
  fixes r :: S3MotrReader
  assumes "calm_env e" "plain_object e ob" "plain_core e ob f l b g"
  defines "n \<equiv> next_blocks_to_read e ob (unit_of e (om_layout_id ob)) r g"
  shows "0 < unat n" "b + unat n \<le> l div unit_nat e ob - f div unit_nat e ob + 1" "unat n \<le> unat (ge_units_per_request e)"
proof -
  let ?u = "unit_nat e ob" and ?m = "unat (ge_units_per_request e)" and ?k = "l div unit_nat e ob - f div unit_nat e ob + 1"
  have m: "0 < ?m" using assms(1) by (simp add: calm_env_def word_less_nat_alt)
  have fr: "0 < unat (ge_first_read_size e)" using assms(1) by (simp add: calm_env_def word_less_nat_alt)
  have u: "0 < ?u" "?u \<le> 33554432" using unit_nat_bounds [OF assms(2)] by auto
  have mu: "unat (ucast (ge_units_per_request e) * unit_of e (om_layout_id ob) :: size_t) = ?m * ?u"
    using units_times_unit(1) u by (simp add: unit_nat_def)
  have b: "b \<le> l div ?u - f div ?u" and fl: "f \<le> l" using assms(3) by (simp_all add: plain_core_def)
  have "blocks_already_read g \<le> total_blocks_to_read g" using assms(3) by (simp add: plain_core_def word_le_nat_alt)
  then have left: "unat (total_blocks_to_read g - blocks_already_read g) = ?k - b"
    using assms(3) by (simp add: unat_sub plain_core_def)
  define k where "k = ?k"
  note left = left [folded k_def]
  have "unat (blocks_already_read g) = b" and nx: "next_fragment_object g = 0"
    using assms(3) by (simp_all add: plain_core_def)
  then have b0: "blocks_already_read g = 0 \<longleftrightarrow> b = 0" by (metis unat_eq_zero)
  have n: "unat n = (if b = 0 \<and> ?m * ?u < l - f + 1 then min ?m (unat (ge_first_read_size e)) else min ?m (k - b))"
    using assms(2) by (simp add: n_def next_blocks_to_read_def Let_def plain_object_def b0 nx word_less_nat_alt
        ucast16_nat ucast32_nat mu left requested_nat [OF assms(3)] min_def)
  have wide: "?m < k" if "?m * ?u < l - f + 1"
  proof (rule ccontr)
    assume "\<not> ?m < k"
    then have "k * ?u \<le> ?m * ?u" by (intro mult_le_mono1) simp
    moreover have "f div ?u * ?u \<le> f" by simp
    moreover have "l < f div ?u * ?u + k * ?u"
      using range_below_last_unit(1) [OF u(1) fl] unfolding add_mult_distrib k_def by simp
    ultimately show False using that fl by linarith
  qed
  have bk: "b < k" using b by (simp add: k_def)
  have "0 < unat n \<and> b + unat n \<le> k \<and> unat n \<le> ?m"
    using n m fr bk wide by (auto simp: min_def split: if_splits)
  then show "0 < unat n" "b + unat n \<le> ?k" "unat n \<le> ?m" unfolding k_def by blast+
qed

lemma block_start_add: "block_start e ob f b + n * unit_nat e ob = block_start e ob f (b + n)"
  by (simp add: block_start_def algebra_simps)

lemma block_start_bound:
  assumes "plain_object e ob" "wants_blocks e ob f l b n g"
  shows "block_start e ob f (b + n) < 2 ^ 62"
proof -
  let ?u = "unit_nat e ob"
  have u: "0 < ?u" "?u \<le> 33554432" using unit_nat_bounds [OF assms(1)] by auto
  have fl: "f \<le> l" "l < 2 ^ 61" "b + n \<le> l div ?u - f div ?u + 1"
    using assms(2) by (simp_all add: wants_blocks_def plain_core_def)
  have "f div ?u \<le> l div ?u" using fl(1) by (rule div_le_mono)
  with fl(3) have "f div ?u + (b + n) \<le> l div ?u + 1" by simp
  then have "block_start e ob f (b + n) \<le> (l div ?u + 1) * ?u"
    unfolding block_start_def by (rule mult_le_mono1)
  also have "\<dots> \<le> l + ?u" by (simp add: algebra_simps)
  finally show ?thesis using u fl(2) by simp
qed

section \<open>The steps\<close>

lemma calm_check: "calm_env e \<Longrightarrow> get_check_shutdown e g = (g, [], False)"
  by (simp add: get_check_shutdown_def check_shutdown_and_rollback_def calm_env_def)

text \<open>The request waits for the bytes of the next \<open>n\<close> units.\<close>

definition waiting_read ::
  "get_env \<Rightarrow> S3ObjectMetadata \<Rightarrow> nat \<Rightarrow> nat \<Rightarrow> nat \<Rightarrow> nat \<Rightarrow> (size_t \<times> size_t) list \<Rightarrow> get_action \<Rightarrow> bool" where
  "waiting_read e ob f l b n es g \<longleftrightarrow> wants_blocks e ob f l b n g
     \<and> (\<exists>r. g_reader g = Some r \<and> reader_at (om_oid ob) (unit_of e (om_layout_id ob)) (block_start e ob f (b + n)) True r
          \<and> read_launched (om_oid ob) (block_start e ob f b) (block_start e ob f (b + n)) es r)"

definition waiting_open :: "get_env \<Rightarrow> S3ObjectMetadata \<Rightarrow> nat \<Rightarrow> nat \<Rightarrow> nat \<Rightarrow> nat \<Rightarrow> get_action \<Rightarrow> bool" where
  "waiting_open e ob f l b n g \<longleftrightarrow> wants_blocks e ob f l b n g
     \<and> (\<exists>r. g_reader g = Some r \<and> reader_at (om_oid ob) (unit_of e (om_layout_id ob)) (block_start e ob f b) False r
          \<and> mr_state r = Rdr_reading \<and> mr_num_of_blocks_to_read r = blocks_to_read g)"

lemma core_blocks: "plain_core e ob f l b g \<Longrightarrow> plain_core e ob f l b (g\<lparr>blocks_to_read := n, g_reader := r\<rparr>)"
  by (simp add: plain_core_def)

lemma read_object_data_launches:
  assumes "calm_env e" "plain_object e ob" "plain_core e ob f l b g"
  shows "read_object_data e g = launch_read e ob g"
proof -
  have "unat (blocks_already_read g) \<noteq> unat (total_blocks_to_read g)" using assms(3) by (simp add: plain_core_def)
  then have "blocks_already_read g \<noteq> total_blocks_to_read g" by metis
  then show ?thesis
    using assms calm_check [OF assms(1), of g]
    by (simp add: read_object_data.simps plain_core_def plain_object_def option.map_id0 case_prod_beta)
qed

lemma launch_opens:
  assumes "calm_env e" "plain_object e ob" "plain_core e ob f l b g" "g_reader g = Some r"
    "reader_at (om_oid ob) (unit_of e (om_layout_id ob)) (block_start e ob f b) False r"
  obtains g' n where "read_object_data e g = Some (g', [Reader Open_object])" "waiting_open e ob f l b n g'"
    "read_object_reply_started g' = read_object_reply_started g"
proof -
  define n where "n = next_blocks_to_read e ob (unit_of e (om_layout_id ob)) r g"
  note n = next_blocks_ok [OF assms(1-3), of r, folded n_def]
  define r' where "r' = r\<lparr>mr_state := Rdr_reading, mr_num_of_blocks_to_read := n, mr_is_object_opened := False\<rparr>"
  have "reader_read_object_data (ge_motr e) n r = Some (r', [Open_object], True)"
    using assms(1,5)
    by (simp add: reader_read_object_data_def open_object_def reader_at_def calm_env_def pool_call_def r'_def)
  moreover have "n > 0" using n(1) by (simp add: word_less_nat_alt)
  ultimately have "launch_read e ob g = Some (g\<lparr>blocks_to_read := n, g_reader := Some r'\<rparr>, [Reader Open_object])"
    using assms(2,4) by (simp add: launch_read_def current_layout_def plain_object_def flip: n_def)
  moreover have "waiting_open e ob f l b (unat n) (g\<lparr>blocks_to_read := n, g_reader := Some r'\<rparr>)"
    using n assms(5) core_blocks [OF assms(3)] by (simp add: waiting_open_def wants_blocks_def r'_def reader_at_def)
  ultimately show ?thesis using that read_object_data_launches [OF assms(1-3)] by simp
qed

lemma reads_next_units:
  assumes "calm_env e" "plain_object e ob" "wants_blocks e ob f l b n g"
    "reader_at (om_oid ob) (unit_of e (om_layout_id ob)) (block_start e ob f b) True r"
    "mr_num_of_blocks_to_read r = blocks_to_read g"
  obtains r' es where "Motr_Reader.read_object (ge_motr e) r = Some (r', [Read_object es], True)"
    "waiting_read e ob f l b n es (g\<lparr>g_reader := Some r'\<rparr>)"
proof -
  have n: "unat (mr_num_of_blocks_to_read r) = n" "0 < mr_num_of_blocks_to_read r"
    using assms(3,5) by (simp_all add: wants_blocks_def word_less_nat_alt)
  have "block_start e ob f b + n * unit_nat e ob < 2 ^ 62"
    using block_start_bound [OF assms(2,3)] by (simp add: block_start_add)
  then obtain r' es where r': "Motr_Reader.read_object (ge_motr e) r = Some (r', [Read_object es], True)"
      "reader_at (om_oid ob) (unit_of e (om_layout_id ob)) (block_start e ob f (b + n)) True r'"
      "read_launched (om_oid ob) (block_start e ob f b) (block_start e ob f (b + n)) es r'"
    using read_object_pool [of "ge_motr e", OF _ assms(4)] assms(1,2) n
    by (metis (no_types, lifting) block_start_add calm_env_def plain_object_def unit_nat_def)
  moreover have "wants_blocks e ob f l b n (g\<lparr>g_reader := Some r'\<rparr>)"
    using assms(3) by (simp add: wants_blocks_def plain_core_def)
  ultimately show ?thesis using that by (simp add: waiting_read_def)
qed

lemma launch_reads:
  assumes "calm_env e" "plain_object e ob" "plain_core e ob f l b g" "g_reader g = Some r"
    "reader_at (om_oid ob) (unit_of e (om_layout_id ob)) (block_start e ob f b) True r"
  obtains g' n es where "read_object_data e g = Some (g', [Reader (Read_object es)])" "waiting_read e ob f l b n es g'"
    "read_object_reply_started g' = read_object_reply_started g"
proof -
  define n where "n = next_blocks_to_read e ob (unit_of e (om_layout_id ob)) r g"
  note n = next_blocks_ok [OF assms(1-3), of r, folded n_def]
  define r1 where "r1 = r\<lparr>mr_state := Rdr_reading, mr_num_of_blocks_to_read := n\<rparr>"
  have "wants_blocks e ob f l b (unat n) (g\<lparr>blocks_to_read := n\<rparr>)"
    using n assms(3) by (simp add: wants_blocks_def plain_core_def)
  moreover have "reader_at (om_oid ob) (unit_of e (om_layout_id ob)) (block_start e ob f b) True r1"
    using assms(5) by (simp add: reader_at_def r1_def)
  ultimately obtain r' es where r': "Motr_Reader.read_object (ge_motr e) r1 = Some (r', [Read_object es], True)"
      "waiting_read e ob f l b (unat n) es (g\<lparr>blocks_to_read := n, g_reader := Some r'\<rparr>)"
    using reads_next_units [OF assms(1,2), of f l b "unat n" "g\<lparr>blocks_to_read := n\<rparr>" r1] by (auto simp: r1_def)
  have "reader_read_object_data (ge_motr e) n r = Some (r', [Read_object es], True)"
    using assms(5) r'(1) by (simp add: reader_read_object_data_def reader_at_def r1_def)
  moreover have "n > 0" using n(1) by (simp add: word_less_nat_alt)
  ultimately have "launch_read e ob g = Some (g\<lparr>blocks_to_read := n, g_reader := Some r'\<rparr>, [Reader (Read_object es)])"
    using assms(2,4) by (simp add: launch_read_def current_layout_def plain_object_def flip: n_def)
  with r'(2) show ?thesis using that read_object_data_launches [OF assms(1-3)] by simp
qed

lemma settle_reader [simp]: "get_settle e (Some (g, outs @ [Reader ro])) = Some (g, outs @ [Reader ro])"
  "get_settle e (Some (g, [Reader ro])) = Some (g, [Reader ro])"
  by (simp_all add: get_settle_def)

lemma settle_finished [simp]:
  "get_settle e (Some (g, outs @ [Base_out (Engine Finished)])) = Some (g, outs @ [Base_out (Engine Finished)])"
  by (simp add: get_settle_def)

lemma opened_reads:
  assumes "calm_env e" "plain_object e ob" "waiting_open e ob f l b n g"
  obtains g' es where "get_step app di e Object_opened g = Some (g', [Reader (Read_object es)])"
    "waiting_read e ob f l b n es g'" "read_object_reply_started g' = read_object_reply_started g"
proof -
  from assms(3) obtain r where r: "g_reader g = Some r" "wants_blocks e ob f l b n g"
      "reader_at (om_oid ob) (unit_of e (om_layout_id ob)) (block_start e ob f b) False r"
      "mr_state r = Rdr_reading" "mr_num_of_blocks_to_read r = blocks_to_read g"
    by (auto simp: waiting_open_def)
  have "reader_at (om_oid ob) (unit_of e (om_layout_id ob)) (block_start e ob f b) True (r\<lparr>mr_is_object_opened := True\<rparr>)"
    using r(3) by (simp add: reader_at_def)
  then obtain r' es where r': "Motr_Reader.read_object (ge_motr e) (r\<lparr>mr_is_object_opened := True\<rparr>) = Some (r', [Read_object es], True)"
      "waiting_read e ob f l b n es (g\<lparr>g_reader := Some r'\<rparr>)"
    by (rule reads_next_units [OF assms(1,2) r(2)]) (simp_all add: r(5))
  then have "get_handle app di e Object_opened g = Some (g\<lparr>g_reader := Some r'\<rparr>, [Reader (Read_object es)])"
    using r by (simp add: with_reader_def open_object_successful_def)
  then show ?thesis using that r'(2) by (simp add: get_step_def)
qed

section \<open>One run of data\<close>

text \<open>Where the bytes of the run begin that belong to the range.\<close>

definition run_start :: "get_env \<Rightarrow> S3ObjectMetadata \<Rightarrow> nat \<Rightarrow> nat \<Rightarrow> nat" where
  "run_start e ob f b = max f (block_start e ob f b)"

lemma block_start_above:
  assumes "plain_object e ob" "0 < b" shows "f < block_start e ob f b"
proof -
  let ?u = "unit_nat e ob"
  have "f < (f div ?u + 1) * ?u"
    using dividend_less_div_times [OF unit_nat_bounds(1) [OF assms(1)], of f] by (simp add: algebra_simps)
  also have "\<dots> \<le> block_start e ob f b"
    unfolding block_start_def using assms(2) by (intro mult_le_mono1) simp
  finally show ?thesis .
qed

lemma run_start_facts:
  assumes "plain_object e ob" "plain_core e ob f l b g"
  shows "run_start e ob f b = (if b = 0 then f else block_start e ob f b)" "run_start e ob f b \<le> l"
    "unat (data_sent_to_client g) = run_start e ob f b - f" "f \<le> run_start e ob f b"
    "b \<noteq> 0 \<Longrightarrow> f < block_start e ob f b"
proof -
  let ?u = "unit_nat e ob"
  have lo: "block_start e ob f 0 \<le> f" by (simp add: block_start_def)
  have hi: "f < block_start e ob f b" if "b \<noteq> 0" using that by (intro block_start_above [OF assms(1)]) simp
  show rs: "run_start e ob f b = (if b = 0 then f else block_start e ob f b)"
    using lo hi by (auto simp: run_start_def)
  show "b \<noteq> 0 \<Longrightarrow> f < block_start e ob f b" by (rule hi)
  have "f \<le> l" "b \<le> l div ?u - f div ?u" using assms(2) by (simp_all add: plain_core_def)
  moreover from this(1) have "f div ?u \<le> l div ?u" by (rule div_le_mono)
  ultimately have "f div ?u + b \<le> l div ?u" by linarith
  then have "block_start e ob f b \<le> l div ?u * ?u" unfolding block_start_def by (rule mult_le_mono1)
  also have "\<dots> \<le> l" by simp
  finally show "run_start e ob f b \<le> l" using \<open>f \<le> l\<close> by (simp add: rs)
  show "unat (data_sent_to_client g) = run_start e ob f b - f"
    using assms(2) unfolding rs by (simp add: plain_core_def block_start_def)
  show "f \<le> run_start e ob f b" by (simp add: run_start_def)
qed

lemma skip_first:
  assumes plain: "plain_object e ob" and wants: "wants_blocks e ob f l b n g"
    and ev: "ev_buf ev = Some (map at [block_start e ob f b..<block_start e ob f (b + n)])"
  obtains ev1 len where
    "skip_to_first_byte (unit_of e (om_layout_id ob)) (g\<lparr>blocks_already_read := x\<rparr>) ev = (ev1, len)"
    "ev_buf ev1 = Some (map at [run_start e ob f b..<block_start e ob f (b + n)])"
    "unat len = block_start e ob f (b + n) - run_start e ob f b"
proof -
  let ?u = "unit_nat e ob" and ?uw = "unit_of e (om_layout_id ob)"
  let ?i = "block_start e ob f b" and ?j = "block_start e ob f (b + n)"
  have core: "plain_core e ob f l b g" using wants by (simp add: wants_blocks_def)
  have j: "?j = ?i + n * ?u" by (simp add: block_start_add)
  have big: "?j < 2 ^ 62" by (rule block_start_bound [OF plain wants])
  have nu: "unat (blocks_to_read g * ?uw) = n * ?u"
    using wants big j by (subst unat_mult) (simp_all add: wants_blocks_def unit_nat_def)
  have off: "unat (first_byte_offset_to_read g mod ?uw) = f mod ?u"
    using core by (simp add: unat_mod plain_core_def unit_nat_def)
  have sent: "data_sent_to_client g = 0 \<longleftrightarrow> b = 0"
    unfolding unat_eq_zero [symmetric] using run_start_facts(1,3,5) [OF plain core] by (cases "b = 0") auto
  show ?thesis
  proof (cases "b = 0 \<and> f mod ?u \<noteq> 0")
    case True
    have nz: "first_byte_offset_to_read g mod ?uw \<noteq> 0" using True off by (metis unat_eq_zero)
    have i: "?i + f mod ?u = f" using True div_mult_mod_eq [of f ?u] by (simp add: block_start_def)
    define ev1 where "ev1 = drain_data (first_byte_offset_to_read g mod ?uw) ev"
    have buf: "ev_buf ev1 = Some (map at [f..<?j])"
      using i by (simp add: ev1_def drain_data_def ev off drop_map)
    have "skip_to_first_byte ?uw (g\<lparr>blocks_already_read := x\<rparr>) ev = (ev1, get_evbuff_length ev1)"
      using nz True sent by (simp add: skip_to_first_byte_def ev1_def Let_def)
    moreover have "unat (get_evbuff_length ev1) = ?j - f"
      using big buf by (simp add: get_evbuff_length_def unat_of_nat take_bit_nat_eq_self less_imp_diff_less)
    ultimately show ?thesis using that buf True run_start_facts(1) [OF plain core] by simp
  next
    case False
    have z: "\<not> (data_sent_to_client g = 0 \<and> first_byte_offset_to_read g mod ?uw \<noteq> 0)"
      using False sent off by (metis unat_eq_zero)
    have i: "run_start e ob f b = ?i"
      using False run_start_facts(1) [OF plain core] by (auto simp: block_start_def minus_mod_eq_div_mult [symmetric])
    have "skip_to_first_byte ?uw (g\<lparr>blocks_already_read := x\<rparr>) ev = (ev, blocks_to_read g * ?uw)"
      using z by (auto simp: skip_to_first_byte_def Let_def)
    then show ?thesis using that ev nu j by (simp add: i)
  qed
qed

lemma evbuff_length: "ev_buf ev = Some bs \<Longrightarrow> length bs < 2 ^ 62 \<Longrightarrow> unat (get_evbuff_length ev) = length bs"
  by (simp add: get_evbuff_length_def unat_of_nat take_bit_nat_eq_self)

lemma cut_run:
  assumes plain: "plain_object e ob" and wants: "wants_blocks e ob f l b n g"
    and ev: "ev_buf ev = Some (map at [run_start e ob f b..<block_start e ob f (b + n)])"
    and len: "unat len = block_start e ob f (b + n) - run_start e ob f b"
  obtains ev2 where "cut_to_length ob (g\<lparr>blocks_already_read := x\<rparr>) len ev = Some ev2"
    "ev_buf ev2 = Some (map at [run_start e ob f b..<min (Suc l) (block_start e ob f (b + n))])"
proof -
  let ?s = "run_start e ob f b" and ?j = "block_start e ob f (b + n)" and ?g = "g\<lparr>blocks_already_read := x\<rparr>"
  have core: "plain_core e ob f l b g" using wants by (simp add: wants_blocks_def)
  note rs = run_start_facts [OF plain core]
  have big: "?j < 2 ^ 62" by (rule block_start_bound [OF plain wants])
  have fl: "f \<le> l" "l < 2 ^ 61" using core by (simp_all add: plain_core_def)
  have req: "unat (get_requested_content_length ?g) = l - f + 1"
    using requested_nat [OF core] by (simp add: get_requested_content_length_def)
  have "block_start e ob f b < ?j"
    using wants unit_nat_bounds [OF plain] by (simp add: wants_blocks_def flip: block_start_add)
  moreover have "f < ?j" using wants by (intro block_start_above [OF plain]) (simp add: wants_blocks_def)
  ultimately have sj: "?s < ?j" by (simp add: run_start_def)
  have evl: "unat (get_evbuff_length ev) = ?j - ?s" using ev big by (simp add: evbuff_length less_imp_diff_less)
  have sum: "unat (data_sent_to_client g + len) = ?j - f"
    using big sj rs(3,4) len by (subst unat_add) auto
  have cond: "(data_sent_to_client ?g + len \<ge> get_requested_content_length ?g \<or> get_evbuff_length ev \<ge> get_requested_content_length ?g)
      \<longleftrightarrow> l < ?j"
    unfolding word_le_nat_alt req evl using sum rs(4) fl sj by auto
  show ?thesis
  proof (cases "l < ?j")
    case True
    have "data_sent_to_client g \<le> get_requested_content_length ?g"
      unfolding word_le_nat_alt req rs(3) using rs(2) by linarith
    then have "unat (get_requested_content_length ?g - data_sent_to_client ?g) = Suc l - ?s"
      using rs(2,3,4) fl by (simp add: unat_sub req)
    moreover have "take (Suc l - ?s) [?s..<?j] = [?s..<Suc l]"
      using True rs(2) by (simp add: take_upt)
    ultimately have "ev_buf (ev\<lparr>ev_buf := Some (take (unat (get_requested_content_length ?g - data_sent_to_client ?g)) (map at [?s..<?j]))\<rparr>)
        = Some (map at [?s..<min (Suc l) ?j])"
      using True by (simp add: take_map min_def)
    with that show ?thesis
      unfolding cut_to_length_def Let_def using cond True ev by (simp add: read_drain_data_from_buffer_def)
  next
    case False
    then show ?thesis using that ev cond plain unfolding cut_to_length_def Let_def
      by (simp add: plain_object_def min_def)
  qed
qed

text \<open>The state after a run was sent that did not reach the end of the range.\<close>

lemma core_after_run:
  assumes plain: "plain_object e ob" and wants: "wants_blocks e ob f l b n g"
    and short: "block_start e ob f (b + n) \<le> l"
    and sent: "unat sent = block_start e ob f (b + n) - run_start e ob f b"
  shows "plain_core e ob f l (b + n)
      (g\<lparr>blocks_already_read := blocks_already_read g + blocks_to_read g,
         data_sent_to_client := data_sent_to_client g + sent,
         data_sent_to_client_for_object := y, g_reader := r, read_object_reply_started := z\<rparr>)"
proof -
  let ?u = "unit_nat e ob" and ?j = "block_start e ob f (b + n)"
  have core: "plain_core e ob f l b g" and n: "unat (blocks_to_read g) = n" "0 < n"
    and bn: "b + n \<le> l div ?u - f div ?u + 1"
    using wants by (simp_all add: wants_blocks_def)
  note rs = run_start_facts [OF plain core]
  have u: "0 < ?u" using unit_nat_bounds [OF plain] by simp
  have l: "l < 2 ^ 61" and b: "unat (blocks_already_read g) = b" using core by (simp_all add: plain_core_def)
  have "(f div ?u + (b + n)) * ?u \<le> l" using short by (simp add: block_start_def)
  then have "f div ?u + (b + n) \<le> l div ?u" using u by (simp add: less_eq_div_iff_mult_less_eq)
  then have bn': "b + n \<le> l div ?u - f div ?u" by linarith
  have "l div ?u \<le> l" by simp
  then have "b + n < 2 ^ 61" using bn' l by linarith
  then have blocks: "unat (blocks_already_read g + blocks_to_read g) = b + n"
    by (subst unat_add) (simp_all add: b n)
  have "f < ?j" using n by (intro block_start_above [OF plain]) simp
  moreover have "block_start e ob f b \<le> ?j" by (simp flip: block_start_add)
  ultimately have sj: "run_start e ob f b \<le> ?j" by (simp add: run_start_def)
  have "unat (data_sent_to_client g + sent) = ?j - f"
    using sj rs(3,4) sent short l by (subst unat_add) auto
  then show ?thesis using core bn' n blocks by (simp add: plain_core_def block_start_def)
qed

lemma response_after_run:
  assumes "calm_action (oa_act g)" "oa_object g = Some ob" "g_reader g = Some r" "mr_state r = Rdr_success"
  shows "snd (send_response g) = [Base_out Reply_end, Base_out (Engine Finished)]"
  using assms by (simp add: send_response_def get_response_def oa_done_def action_done_def calm_action_def
      reject_if_shutting_down_def is_error_state_def Let_def)

text \<open>The state once the buffer \<open>ev\<close> was sent.\<close>

definition sent_state :: "S3MotrReader \<Rightarrow> S3Evbuffer \<Rightarrow> get_action \<Rightarrow> get_action" where
  "sent_state r ev g =
     g\<lparr>blocks_already_read := blocks_already_read g + blocks_to_read g,
       data_sent_to_client := data_sent_to_client g + get_evbuff_length ev,
       data_sent_to_client_for_object := data_sent_to_client_for_object g + get_evbuff_length ev,
       g_reader := Some (r\<lparr>mr_evbuffer := Some (ev\<lparr>ev_buf := None\<rparr>)\<rparr>)\<rparr>"

lemma send_run_bytes:
  assumes plain: "plain_object e ob" and wants: "wants_blocks e ob f l b n g"
    and ev: "ev_buf ev = Some (map at [block_start e ob f b..<block_start e ob f (b + n)])"
  obtains ev3 where
    "send_run e ob r ev (unit_of e (om_layout_id ob)) g =
       map_option (\<lambda>(g3, outs). (g3, Base_out (Reply_body (map at [run_start e ob f b..<min (Suc l) (block_start e ob f (b + n))])) # outs))
         (after_send e ob (sent_state r ev3 g))"
    "unat (get_evbuff_length ev3) = min (Suc l) (block_start e ob f (b + n)) - run_start e ob f b"
proof -
  let ?j = "block_start e ob f (b + n)" and ?s = "run_start e ob f b" and ?uw = "unit_of e (om_layout_id ob)"
  let ?g = "g\<lparr>blocks_already_read := blocks_already_read g + blocks_to_read g\<rparr>"
  obtain ev2 len where ev2: "skip_to_first_byte ?uw ?g ev = (ev2, len)" "ev_buf ev2 = Some (map at [?s..<?j])"
      "unat len = ?j - ?s"
    by (rule skip_first [OF plain wants ev])
  obtain ev3 where ev3: "cut_to_length ob ?g len ev2 = Some ev3" "ev_buf ev3 = Some (map at [?s..<min (Suc l) ?j])"
    by (rule cut_run [OF plain wants ev2(2,3)])
  have "unat (get_evbuff_length ev3) = min (Suc l) ?j - ?s"
    using block_start_bound [OF plain wants] by (subst evbuff_length [OF ev3(2)]) auto
  then show ?thesis
    using that ev2(1) ev3 by (simp add: send_run_def release_ownership_def sent_state_def case_prod_beta Let_def)
qed

lemma sent_state_facts:
  assumes plain: "plain_object e ob" and wants: "wants_blocks e ob f l b n g"
    and sent: "unat (get_evbuff_length ev) = min (Suc l) (block_start e ob f (b + n)) - run_start e ob f b"
  shows "data_sent_to_client (sent_state r ev g) = get_requested_content_length (sent_state r ev g)
           \<longleftrightarrow> l < block_start e ob f (b + n)" (is ?reached)
    and "block_start e ob f (b + n) \<le> l \<Longrightarrow> plain_core e ob f l (b + n) (sent_state r ev g)"
proof -
  let ?j = "block_start e ob f (b + n)" and ?g = "sent_state r ev g"
  have core: "plain_core e ob f l b g" using wants by (simp add: wants_blocks_def)
  note rs = run_start_facts [OF plain core]
  have fl: "f \<le> l" "l < 2 ^ 61" using core by (simp_all add: plain_core_def)
  have fj: "f < ?j" using wants by (intro block_start_above [OF plain]) (simp add: wants_blocks_def)
  moreover have "block_start e ob f b \<le> ?j" by (simp flip: block_start_add)
  ultimately have sj: "run_start e ob f b \<le> ?j" by (simp add: run_start_def)
  have "unat (data_sent_to_client ?g) = min (Suc l) ?j - f"
    using sent rs(2,3,4) fl sj unfolding sent_state_def by (simp, subst unat_add) auto
  moreover have "unat (get_requested_content_length ?g) = l - f + 1"
    using requested_nat [OF core] by (simp add: get_requested_content_length_def sent_state_def)
  ultimately show ?reached using fl fj unfolding word_unat_eq_iff by auto
  show "plain_core e ob f l (b + n) ?g" if "?j \<le> l"
    using core_after_run [OF plain wants that, of "get_evbuff_length ev"] sent that
    by (simp add: sent_state_def plain_core_def)
qed

text \<open>What the reader holds when the bytes of a run have arrived.\<close>

definition filled_reader :: "bytes list \<Rightarrow> S3Evbuffer \<Rightarrow> S3MotrReader \<Rightarrow> S3MotrReader" where
  "filled_reader data ev r =
     r\<lparr>mr_data := data, mr_evbuffer := Some (ev\<lparr>ev_buf := Some (concat data)\<rparr>), mr_state := Rdr_success\<rparr>"

lemma read_done_runs:
  assumes calm: "calm_env e" and plain: "plain_object e ob" and core: "plain_core e ob f l b g"
    and r: "g_reader g = Some r" "mr_evbuffer r = Some ev"
  shows "get_step app (False, False, calc) e (Read_done data []) g =
      get_settle e (map_option (\<lambda>(g2, outs). (g2, (if read_object_reply_started g then []
          else map Base_out (data_headers e ob (g\<lparr>g_reader := Some (filled_reader data ev r)\<rparr>))) @ outs))
        (send_run e ob (filled_reader data ev r) (ev\<lparr>ev_buf := Some (concat data)\<rparr>) (unit_of e (om_layout_id ob))
          (g\<lparr>g_reader := Some (filled_reader data ev r), read_object_reply_started := True\<rparr>)))"
proof -
  have "unit_of e (om_layout_id ob) \<noteq> 0" using plain by (auto simp: plain_object_def unit_ok_def)
  then show ?thesis
    using r core plain
    by (simp add: get_step_def with_reader_def read_object_successful_def motr_filled_def send_data_to_client_def
        calm_check [OF calm] plain_core_def current_layout_def plain_object_def filled_reader_def case_prod_beta)
qed

lemma after_run:
  assumes calm: "calm_env e" and plain: "plain_object e ob" and wants: "wants_blocks e ob f l b n g"
    and sent: "unat (get_evbuff_length ev) = min (Suc l) (block_start e ob f (b + n)) - run_start e ob f b"
    and r: "reader_at (om_oid ob) (unit_of e (om_layout_id ob)) (block_start e ob f (b + n)) True r" "mr_state r = Rdr_success"
  obtains (final) g' where "l < block_start e ob f (b + n)"
      "after_send e ob (sent_state r ev g) = Some (g', [Base_out Reply_end, Base_out (Engine Finished)])"
  | (more) g' n' es' where "block_start e ob f (b + n) \<le> l"
      "after_send e ob (sent_state r ev g) = Some (g', [Reader (Read_object es')])"
      "waiting_read e ob f l (b + n) n' es' g'" "read_object_reply_started g' = read_object_reply_started g"
proof -
  let ?j = "block_start e ob f (b + n)" and ?g = "sent_state r ev g"
  note facts = sent_state_facts [OF plain wants sent, of r]
  have core: "plain_core e ob f l b g" using wants by (simp add: wants_blocks_def)
  have env: "client_connected (ge_act e)" "\<not> is_object_extended ob"
    using calm plain by (simp_all add: calm_env_def plain_object_def)
  show ?thesis
  proof (cases "l < ?j")
    case True
    then have "after_send e ob ?g = Some (send_response ?g)" using facts(1) env by (simp add: after_send_def)
    moreover have "snd (send_response ?g) = [Base_out Reply_end, Base_out (Engine Finished)]"
      using core r(2)
      by (intro response_after_run [where r = "r\<lparr>mr_evbuffer := Some (ev\<lparr>ev_buf := None\<rparr>)\<rparr>" and ob = ob])
        (simp_all add: sent_state_def plain_core_def)
    ultimately show ?thesis using final True by (cases "send_response ?g") simp
  next
    case False
    then have "after_send e ob ?g = read_object_data e ?g" using facts(1) env by (simp add: after_send_def)
    moreover have "reader_at (om_oid ob) (unit_of e (om_layout_id ob)) ?j True (r\<lparr>mr_evbuffer := Some (ev\<lparr>ev_buf := None\<rparr>)\<rparr>)"
      using r(1) by (simp add: reader_at_def)
    ultimately show ?thesis
      using launch_reads [OF calm plain facts(2), of "r\<lparr>mr_evbuffer := Some (ev\<lparr>ev_buf := None\<rparr>)\<rparr>"] more False
      by (auto simp: sent_state_def)
  qed
qed

lemma run_sent:
  fixes store :: "m0_uint128 \<Rightarrow> nat \<Rightarrow> char" and app :: m0_uint128 and calc :: calculate_pi
  assumes calm: "calm_env e" and plain: "plain_object e ob" and w: "waiting_read e ob f l b n es g"
  defines "res \<equiv> get_step app (False, False, calc) e (Read_done (map (motr_bytes store (om_oid ob)) es) []) g"
    and "starts \<equiv> (if read_object_reply_started g then [] else [reply_status e])"
  obtains
    (final) g' outs where "l < block_start e ob f (b + n)"
      "res = Some (g', outs @ [Base_out Reply_end, Base_out (Engine Finished)])"
      "reply_body outs = map (store (om_oid ob)) [run_start e ob f b..<Suc l]" "reply_starts outs = starts"
  | (more) g' outs n' es' where "block_start e ob f (b + n) \<le> l" "res = Some (g', outs @ [Reader (Read_object es')])"
      "reply_body outs = map (store (om_oid ob)) [run_start e ob f b..<block_start e ob f (b + n)]"
      "reply_starts outs = starts" "waiting_read e ob f l (b + n) n' es' g'" "read_object_reply_started g'"
proof -
  let ?j = "block_start e ob f (b + n)" and ?s = "run_start e ob f b" and ?at = "store (om_oid ob)"
  define data where "data = map (motr_bytes store (om_oid ob)) es"
  from w obtain r ev where r: "g_reader g = Some r" "mr_evbuffer r = Some ev" and wants: "wants_blocks e ob f l b n g"
      and pos: "reader_at (om_oid ob) (unit_of e (om_layout_id ob)) ?j True r"
      and bytes: "concat data = map ?at [block_start e ob f b..<?j]"
    by (auto simp: waiting_read_def read_launched_def data_def)
  have core: "plain_core e ob f l b g" using wants by (simp add: wants_blocks_def)
  define r1 where "r1 = filled_reader data ev r"
  define g1 where "g1 = g\<lparr>g_reader := Some r1, read_object_reply_started := True\<rparr>"
  define hs where "hs = (if read_object_reply_started g then [] else map Base_out (data_headers e ob (g\<lparr>g_reader := Some r1\<rparr>)))"
  have hs: "reply_body hs = []" "reply_starts hs = starts" by (simp_all add: hs_def starts_def)
  have wants1: "wants_blocks e ob f l b n g1" using wants by (simp add: g1_def wants_blocks_def plain_core_def)
  obtain ev3 where ev3: "send_run e ob r1 (ev\<lparr>ev_buf := Some (concat data)\<rparr>) (unit_of e (om_layout_id ob)) g1 =
       map_option (\<lambda>(g3, outs). (g3, Base_out (Reply_body (map ?at [?s..<min (Suc l) ?j])) # outs)) (after_send e ob (sent_state r1 ev3 g1))"
      "unat (get_evbuff_length ev3) = min (Suc l) ?j - ?s"
    by (rule send_run_bytes [OF plain wants1, of "ev\<lparr>ev_buf := Some (concat data)\<rparr>" ?at r1]) (simp add: bytes)
  have res: "res = get_settle e (map_option (\<lambda>(g3, outs). (g3, (hs @ [Base_out (Reply_body (map ?at [?s..<min (Suc l) ?j]))]) @ outs))
      (after_send e ob (sent_state r1 ev3 g1)))"
    unfolding res_def data_def [symmetric]
      read_done_runs [OF calm plain core r, of app calc data, folded r1_def, folded g1_def hs_def] ev3(1)
    by (cases "after_send e ob (sent_state r1 ev3 g1)") auto
  have "reader_at (om_oid ob) (unit_of e (om_layout_id ob)) ?j True r1" "mr_state r1 = Rdr_success"
    using pos by (simp_all add: r1_def filled_reader_def reader_at_def)
  then show ?thesis
  proof (rule after_run [OF calm plain wants1 ev3(2)])
    fix g' assume "l < ?j" "after_send e ob (sent_state r1 ev3 g1) = Some (g', [Base_out Reply_end, Base_out (Engine Finished)])"
    then show ?thesis
      using final [of g' "hs @ [Base_out (Reply_body (map ?at [?s..<Suc l]))]"] hs
        settle_finished [of e g' "hs @ [Base_out (Reply_body (map ?at [?s..<Suc l])), Base_out Reply_end]"]
      by (simp add: res min_def)
  next
    fix g' n' es'
    assume "?j \<le> l" "after_send e ob (sent_state r1 ev3 g1) = Some (g', [Reader (Read_object es')])"
      "waiting_read e ob f l (b + n) n' es' g'" "read_object_reply_started g' = read_object_reply_started g1"
    then show ?thesis
      using more [of g' "hs @ [Base_out (Reply_body (map ?at [?s..<?j]))]" es' n'] hs
        settle_reader(1) [of e g' "hs @ [Base_out (Reply_body (map ?at [?s..<?j]))]" "Read_object es'"]
      by (simp add: res min_def g1_def)
  qed
qed

section \<open>The whole reply\<close>

text \<open>The units left to read bound the number of steps.\<close>

definition units_left :: "get_env \<Rightarrow> S3ObjectMetadata \<Rightarrow> nat \<Rightarrow> nat \<Rightarrow> nat \<Rightarrow> nat" where
  "units_left e ob f l b = l div unit_nat e ob - f div unit_nat e ob + 1 - b"

definition served :: "get_env \<Rightarrow> S3ObjectMetadata \<Rightarrow> (m0_uint128 \<Rightarrow> nat \<Rightarrow> char) \<Rightarrow> nat \<Rightarrow> nat \<Rightarrow> nat list \<Rightarrow> get_out list \<Rightarrow> bool" where
  "served e ob store from l starts outs \<longleftrightarrow>
     (\<exists>pre. outs = pre @ [Base_out Reply_end, Base_out (Engine Finished)]
        \<and> reply_body outs = map (store (om_oid ob)) [from..<Suc l] \<and> reply_starts outs = starts)"

lemma finished_serve:
  "get_serve (Suc m) app di e store (g, outs @ [Base_out Reply_end, Base_out (Engine Finished)]) =
     Some (g, outs @ [Base_out Reply_end, Base_out (Engine Finished)])"
  by simp

lemma serve_step:
  "get_answer store out g = Some ev \<Longrightarrow> get_step app di e ev g = Some r \<Longrightarrow>
     get_serve (Suc m) app di e store (g, [out]) = map_option (\<lambda>(g2, outs2). (g2, out # outs2)) (get_serve m app di e store r)"
  by simp

lemma serve_prefix:
  "outs \<noteq> [] \<Longrightarrow> get_serve m app di e store (g, pre @ outs) =
     map_option (\<lambda>(g2, outs2). (g2, pre @ outs2)) (get_serve m app di e store (g, outs))"
  by (cases m) (auto simp: option.map_comp comp_def case_prod_unfold split: option.splits)

lemma serve_reads:
  assumes calm: "calm_env e" and plain: "plain_object e ob"
  shows "waiting_read e ob f l b n es g \<Longrightarrow> units_left e ob f l b < m \<Longrightarrow>
    \<exists>g' outs. get_serve m app (False, False, calc) e store (g, [Reader (Read_object es)]) = Some (g', Reader (Read_object es) # outs)
      \<and> served e ob store (run_start e ob f b) l (if read_object_reply_started g then [] else [reply_status e]) outs"
proof (induction m arbitrary: b n es g)
  case (Suc m)
  have wants: "wants_blocks e ob f l b n g" using Suc.prems by (simp add: waiting_read_def)
  then have m: "0 < m" using Suc.prems(2) by (auto simp: wants_blocks_def plain_core_def units_left_def)
  let ?ev = "Read_done (map (motr_bytes store (om_oid ob)) es) []"
  have ans: "get_answer store (Reader (Read_object es)) g = Some ?ev"
    using Suc.prems(1) by (auto simp: waiting_read_def reader_at_def)
  from calm plain Suc.prems(1) show ?case
  proof (cases rule: run_sent [where store = store and app = app and calc = calc])
    case (final g' outs)
    obtain k where k: "m = Suc k" using m by (cases m) auto
    show ?thesis
      using final(3,4) unfolding serve_step [OF ans final(2)] unfolding k finished_serve by (auto simp: served_def)
  next
    case (more g' outs n' es')
    have "units_left e ob f l (b + n) < m"
      using Suc.prems(2) wants by (auto simp: units_left_def wants_blocks_def)
    from Suc.IH [OF more(5) this] obtain g2 outs2 where
        IH: "get_serve m app (False, False, calc) e store (g', [Reader (Read_object es')]) = Some (g2, Reader (Read_object es') # outs2)"
        "served e ob store (run_start e ob f (b + n)) l [] outs2"
      using more(6) by auto
    have step: "get_serve m app (False, False, calc) e store (g', outs @ [Reader (Read_object es')]) =
        Some (g2, outs @ Reader (Read_object es') # outs2)"
      by (simp add: serve_prefix IH(1) del: get_serve.simps)
    have "run_start e ob f (b + n) = block_start e ob f (b + n)"
      using block_start_above [OF plain, of "b + n" f] wants by (simp add: run_start_def wants_blocks_def)
    moreover have "run_start e ob f b \<le> block_start e ob f (b + n)"
      using block_start_above [OF plain, of "b + n" f] wants
      by (auto simp: run_start_def wants_blocks_def simp flip: block_start_add)
    ultimately have "[run_start e ob f b..<Suc l] = [run_start e ob f b..<block_start e ob f (b + n)] @ [run_start e ob f (b + n)..<Suc l]"
      using more(1) upt_add_eq_append [of "run_start e ob f b" "block_start e ob f (b + n)" "Suc l - block_start e ob f (b + n)"] by simp
    then have "served e ob store (run_start e ob f b) l (if read_object_reply_started g then [] else [reply_status e])
        (outs @ Reader (Read_object es') # outs2)"
      using IH(2) more(3,4) by (auto simp: served_def)
    then show ?thesis unfolding serve_step [OF ans more(2)] step by simp
  qed
qed simp

section \<open>From the metadata to the reply\<close>

text \<open>The metadata has been loaded and the request is authorized: its own tasks are next.\<close>

definition own_tasks :: "get_task list" where
  "own_tasks = [validate_object_info, check_full_or_range_object_read, read_object, send_response_to_s3_client]"

definition at_validation :: "S3ObjectMetadata \<Rightarrow> get_action \<Rightarrow> bool" where
  "at_validation ob g \<longleftrightarrow>
     oa_object g = Some ob \<and> calm_action (oa_act g)
     \<and> 0 < task_iteration_index (oa_act g) \<and> drop (task_iteration_index (oa_act g) - 1) (task_list (oa_act g)) = own_tasks
     \<and> blocks_already_read g = 0 \<and> data_sent_to_client g = 0 \<and> first_byte_offset_to_read g = 0
     \<and> next_fragment_object g = 0 \<and> \<not> read_object_reply_started g"

text \<open>The offsets that the header of the request asks for.\<close>

definition wanted_range :: "string \<Rightarrow> size_t \<Rightarrow> (size_t \<times> size_t) \<times> bool" where
  "wanted_range header len = (if header = [] then ((0, len - 1), True) else parse_range header len (0, len - 1))"

lemma next_calm:
  assumes "calm_env e" "task_iteration_index (oa_act g) < length (task_list (oa_act g))"
  shows "get_next e g = (g\<lparr>oa_act := (oa_act g)\<lparr>task_iteration_index := Suc (task_iteration_index (oa_act g))\<rparr>\<rparr>,
    [Base_out (Engine (Ran (task_list (oa_act g) ! task_iteration_index (oa_act g))))])"
  using assms by (simp add: get_next_def oa_next_def action_next_def checked_def check_shutdown_and_rollback_def
      calm_env_def is_s3_client_read_error_def)

lemma own_tasks_length: "length own_tasks = 4"
  by (simp add: own_tasks_def)

lemma own_task_nth:
  assumes "at_validation ob g"
  shows "task_list (oa_act g) ! task_iteration_index (oa_act g) = check_full_or_range_object_read"
    "task_list (oa_act g) ! Suc (task_iteration_index (oa_act g)) = read_object"
    "Suc (Suc (task_iteration_index (oa_act g))) < length (task_list (oa_act g))"
proof -
  define k where "k = task_iteration_index (oa_act g) - 1"
  have dr: "drop k (task_list (oa_act g)) = own_tasks" and k: "task_iteration_index (oa_act g) = Suc k"
    using assms by (auto simp: at_validation_def k_def)
  from dr have "length (task_list (oa_act g)) - k = 4" by (metis length_drop own_tasks_length)
  then have len: "length (task_list (oa_act g)) = k + 4" by simp
  have nth: "task_list (oa_act g) ! (k + i) = own_tasks ! i" for i
    using len by (simp flip: dr)
  from nth [of 1] nth [of 2] show
    "task_list (oa_act g) ! task_iteration_index (oa_act g) = check_full_or_range_object_read"
    "task_list (oa_act g) ! Suc (task_iteration_index (oa_act g)) = read_object"
    by (simp_all add: k own_tasks_def)
  show "Suc (Suc (task_iteration_index (oa_act g))) < length (task_list (oa_act g))" by (simp add: k len)
qed

lemma wanted_range_valid:
  assumes "wanted_range header len = ((f, l), True)" "len \<noteq> 0"
  shows "f \<le> l" "l < len"
proof -
  have "unat len \<noteq> 0" using assms(2) by (simp add: unat_eq_zero)
  then have last: "len - 1 < len" using assms(2) by (simp add: word_less_nat_alt unat_minus_one)
  have "f \<le> l \<and> l < len"
    using assms(1) last
    by (auto simp: wanted_range_def parse_range_def Let_def not_less not_le split: if_splits option.splits
        intro: le_less_trans)
  then show "f \<le> l" "l < len" by auto
qed

text \<open>The units that hold the range.\<close>

lemma total_blocks_nat:
  assumes plain: "plain_object e ob" and len: "unat len < 2 ^ 61" and fl: "f \<le> l" "l < len"
    and g: "get_content_len g = len" "first_byte_offset_to_read g = f" "last_byte_offset_to_read g = l"
      "total_blocks_in_object g = (len + (unit_of e (om_layout_id ob) - 1)) div unit_of e (om_layout_id ob)"
  obtains t where "set_total_blocks_to_read_from_object e ob g = Some (g\<lparr>total_blocks_to_read := t\<rparr>)"
    "unat t = unat l div unit_nat e ob - unat f div unit_nat e ob + 1"
proof -
  let ?uw = "unit_of e (om_layout_id ob)" and ?u = "unit_nat e ob"
  have u: "0 < ?u" "?u \<le> 33554432" and nz: "?uw \<noteq> 0"
    using unit_nat_bounds [OF plain] plain by (auto simp: plain_object_def unit_ok_def)
  have fl': "unat f \<le> unat l" "unat l < unat len" using fl by (simp_all add: word_le_nat_alt word_less_nat_alt)
  have shift: "unat ((x + ?uw) div ?uw) = unat x div ?u + 1" if "x \<le> l" for x
  proof -
    have "unat x \<le> unat l" using that by (simp add: word_le_nat_alt)
    then have "unat (x + ?uw) = unat x + ?u" using u len fl' unfolding unit_nat_def [symmetric]
      by (subst unat_add) (simp_all add: unit_nat_def)
    then show ?thesis using u(1) by (simp add: unat_div div_add_self2 flip: unit_nat_def)
  qed
  show ?thesis
  proof (cases "reads_everything g")
    case True
    then have eq: "f = 0" "len = l + 1" using g by (simp_all add: reads_everything_def)
    have sum: "len + (?uw - 1) = l + ?uw" by (simp add: eq)
    have "unat (total_blocks_in_object g) = unat l div ?u + 1" unfolding g(4) sum using shift [of l] by simp
    then show ?thesis using that [of "total_blocks_in_object g"] True eq(1)
      by (simp add: set_total_blocks_to_read_from_object_def)
  next
    case False
    have "(f + ?uw) div ?uw \<le> (l + ?uw) div ?uw"
      unfolding word_le_nat_alt shift [OF fl(1)] shift [OF order_refl] using div_le_mono [OF fl'(1)] by simp
    then have "unat ((l + ?uw) div ?uw - (f + ?uw) div ?uw) = unat l div ?u - unat f div ?u"
      by (simp add: unat_sub shift fl(1))
    moreover have "unat l div ?u - unat f div ?u < 2 ^ 61"
      using len fl' by (meson div_le_dividend le_less_trans less_imp_diff_less less_trans)
    ultimately have "unat ((l + ?uw) div ?uw - (f + ?uw) div ?uw + 1) = unat l div ?u - unat f div ?u + 1"
      by (subst unat_add) simp_all
    then show ?thesis using that False nz g(2,3) by (simp add: set_total_blocks_to_read_from_object_def Let_def)
  qed
qed

text \<open>The task \<open>read_object\<close> opens the Motr object.\<close>

lemma read_object_opens:
  assumes calm: "calm_env e" and plain: "plain_object e ob" and len: "unat len < 2 ^ 61" and fl: "f \<le> l" "l < len"
    and g: "get_content_len g = len" "first_byte_offset_to_read g = f" "last_byte_offset_to_read g = l"
      "total_blocks_in_object g = (len + (unit_of e (om_layout_id ob) - 1)) div unit_of e (om_layout_id ob)"
      "oa_object g = Some ob" "calm_action (oa_act g)" "blocks_already_read g = 0" "data_sent_to_client g = 0"
      "next_fragment_object g = 0" "\<not> read_object_reply_started g"
  obtains g' n where "do_read_object e g = Some (g', [Reader Open_object])"
    "waiting_open e ob (unat f) (unat l) 0 n g'" "\<not> read_object_reply_started g'"
proof -
  let ?uw = "unit_of e (om_layout_id ob)" and ?u = "unit_nat e ob"
  obtain t where t: "set_total_blocks_to_read_from_object e ob g = Some (g\<lparr>total_blocks_to_read := t\<rparr>)"
      "unat t = unat l div ?u - unat f div ?u + 1"
    by (rule total_blocks_nat [OF plain len fl g(1-4)])
  define r where "r = set_last_index (f - f mod ?uw) (S3MotrReader_init (ge_layouts e) (om_oid ob) (om_layout_id ob) (get_pvid ob))"
  define g1 where "g1 = g\<lparr>total_blocks_to_read := t, g_reader := Some r\<rparr>"
  have nz: "?uw \<noteq> 0" and frag: "om_obj_fragments ob = 0" using plain by (auto simp: plain_object_def unit_ok_def)
  have ro: "do_read_object e g = read_object_data e g1"
    using t(1) nz frag g(2,5) by (simp add: do_read_object_def g1_def r_def)
  have "unat f \<le> unat l" "unat l < unat len" using fl by (simp_all add: word_le_nat_alt word_less_nat_alt)
  then have core: "plain_core e ob (unat f) (unat l) 0 g1"
    using g t(2) len by (simp add: plain_core_def g1_def)
  have "unat (f - f mod ?uw) = unat f - unat f mod ?u"
    by (simp add: unat_sub word_le_nat_alt unat_mod unit_nat_def)
  then have at: "reader_at (om_oid ob) ?uw (block_start e ob (unat f) 0) False r"
    by (simp add: reader_at_def r_def set_last_index_def S3MotrReader_init_def unit_of_def block_start_def minus_mod_eq_div_mult)
  obtain g' n where "read_object_data e g1 = Some (g', [Reader Open_object])" "waiting_open e ob (unat f) (unat l) 0 n g'"
      "read_object_reply_started g' = read_object_reply_started g1"
    by (rule launch_opens [OF calm plain core _ at]) (simp add: g1_def)
  then show ?thesis using that ro g(10) by (simp add: g1_def)
qed

lemma validation_runs:
  assumes calm: "calm_env e" and plain: "plain_object e ob" and at: "at_validation ob g"
    and len: "snd (get_content_length ob) = len" "len \<noteq> 0" "unat len < 2 ^ 61"
    and range: "wanted_range (ge_range_header e) len = ((f, l), True)"
  obtains g' pre n where
    "get_settle e (Some (g, [Base_out (Engine (Ran validate_object_info))])) = Some (g', pre @ [Reader Open_object])"
    "reply_body pre = []" "reply_starts pre = []" "waiting_open e ob (unat f) (unat l) 0 n g'" "\<not> read_object_reply_started g'"
proof -
  let ?uw = "unit_of e (om_layout_id ob)"
  note nth = own_task_nth [OF at]
  have fl: "f \<le> l" "l < len" by (rule wanted_range_valid [OF range len(2)])+
  have obj: "oa_object g = Some ob" "first_byte_offset_to_read g = 0" using at by (simp_all add: at_validation_def)
  have nz: "?uw \<noteq> 0" and frag: "om_obj_fragments ob = 0" using plain by (auto simp: plain_object_def unit_ok_def)
  define pre where "pre = Base_out (Set_object_size len) # (if check_object_tags_exists ob
       then [Base_out (Out_header ''x-amz-tagging-count'' (to_dec (object_tags_count ob)))] else [])"
  define tasks where "tasks k = (oa_act g)\<lparr>task_iteration_index := k + task_iteration_index (oa_act g)\<rparr>" for k :: nat
  define g1 where "g1 = g\<lparr>get_content_len := len, last_byte_offset_to_read := len - 1, total_objects := 1,
      total_blocks_in_object := (len + (?uw - 1)) div ?uw, oa_act := tasks 1\<rparr>"
  define g2 where "g2 = g1\<lparr>first_byte_offset_to_read := f, last_byte_offset_to_read := l, oa_act := tasks 2\<rparr>"
  have s1: "do_validate_object_info e g = Some (g1, pre @ [Base_out (Engine (Ran check_full_or_range_object_read))])"
    using obj len(1,2) frag nz nth(1,3)
    by (simp add: do_validate_object_info_def next_calm [OF calm] pre_def g1_def tasks_def Let_def)
  have s2: "do_check_full_or_range e g1 = (g2, [Base_out (Engine (Ran read_object))])"
    using range nth(2,3) obj(2)
    by (auto simp: do_check_full_or_range_def wanted_range_def validate_range_header_and_set_read_options_def
        next_calm [OF calm] g1_def g2_def tasks_def split: if_splits)
  obtain g' n where s3: "do_read_object e g2 = Some (g', [Reader Open_object])"
      "waiting_open e ob (unat f) (unat l) 0 n g'" "\<not> read_object_reply_started g'"
    by (rule read_object_opens [OF calm plain len(3) fl, of g2])
      (use at in \<open>simp_all add: g2_def g1_def tasks_def at_validation_def calm_action_def\<close>)
  obtain k where k: "number_of_tasks (oa_act g) = Suc (Suc k)"
    using nth(3) by (metis Suc_lessE number_of_tasks_def)
  have "get_settle e (Some (g, [Base_out (Engine (Ran validate_object_info))])) =
      Some (g', (Base_out (Engine (Ran validate_object_info)) # pre @ [Base_out (Engine (Ran check_full_or_range_object_read)),
        Base_out (Engine (Ran read_object))]) @ [Reader Open_object])"
    by (simp add: get_settle_def k s1 s2 s3(1))
  moreover have "reply_body pre = []" "reply_starts pre = []" by (simp_all add: pre_def)
  ultimately show ?thesis using that s3(2,3) by simp
qed

text \<open>C4: A GET of an object that is not split sends exactly the requested bytes.  Once the metadata
  of a plain object is loaded, with Motr and memory available and no shutdown, the request runs
  to its end: it starts one reply with the right status, the bodies it sends are together the bytes
  of the object from the first to the last requested offset (the reference: the list of the stored bytes
  at these offsets), whatever number of runs the unit size and the options lead to, and then the
  reply is ended and the action is done.  As many steps as the range has units plus three suffice.
\<close>

theorem plain_get_sends_range:
  assumes "calm_env e" "plain_object e ob" "at_validation ob g"
    and "snd (get_content_length ob) = len" "len \<noteq> 0" "unat len < 2 ^ 61"
    and "wanted_range (ge_range_header e) len = ((f, l), True)"
    and "unat l div unit_nat e ob - unat f div unit_nat e ob + 3 \<le> m"
  shows "\<exists>g' outs.
      (case get_settle e (Some (g, [Base_out (Engine (Ran validate_object_info))])) of
         None \<Rightarrow> None
       | Some r \<Rightarrow> get_serve m app (False, False, calc) e store r)
        = Some (g', outs @ [Base_out Reply_end, Base_out (Engine Finished)])
      \<and> reply_starts outs = [if ge_range_header e = [] then 200 else 206]
      \<and> reply_body outs = map (store (om_oid ob)) [unat f..<Suc (unat l)]"
proof -
  obtain g1 pre n where v: "get_settle e (Some (g, [Base_out (Engine (Ran validate_object_info))])) = Some (g1, pre @ [Reader Open_object])"
      "reply_body pre = []" "reply_starts pre = []" "waiting_open e ob (unat f) (unat l) 0 n g1" "\<not> read_object_reply_started g1"
    by (rule validation_runs [OF assms(1-7)])
  obtain g2 es where o2: "get_step app (False, False, calc) e Object_opened g1 = Some (g2, [Reader (Read_object es)])"
      "waiting_read e ob (unat f) (unat l) 0 n es g2" "read_object_reply_started g2 = read_object_reply_started g1"
    by (rule opened_reads [OF assms(1,2) v(4)])
  obtain k where k: "m = Suc k" "units_left e ob (unat f) (unat l) 0 < k"
    using assms(8) by (cases m) (auto simp: units_left_def)
  obtain g3 outs where s: "get_serve k app (False, False, calc) e store (g2, [Reader (Read_object es)]) = Some (g3, Reader (Read_object es) # outs)"
      "served e ob store (run_start e ob (unat f) 0) (unat l) [reply_status e] outs"
    using serve_reads [OF assms(1,2) o2(2) k(2), of app calc store] v(5) o2(3) by auto
  have "run_start e ob (unat f) 0 = unat f" by (simp add: run_start_def block_start_def)
  with s(2) obtain outs' where outs: "outs = outs' @ [Base_out Reply_end, Base_out (Engine Finished)]"
      "reply_body outs' = map (store (om_oid ob)) [unat f..<Suc (unat l)]" "reply_starts outs' = [reply_status e]"
    by (auto simp: served_def simp del: upt_Suc)
  have "get_serve m app (False, False, calc) e store (g1, pre @ [Reader Open_object])
      = Some (g3, (pre @ Reader Open_object # Reader (Read_object es) # outs') @ [Base_out Reply_end, Base_out (Engine Finished)])"
    unfolding k(1) by (subst serve_prefix, simp) (simp add: o2(1) s(1) outs(1) del: get_serve.simps add: serve_step)
  then show ?thesis using v outs(2,3) by (auto simp: reply_status_def simp del: get_serve.simps)
qed

end
