(* ===== verification/Get_Reply.thy ===== *)
theory Get_Reply
  imports Get_Run Object_Versioning
begin

text \<open>
  The meaning of the header \<open>Range\<close>, concrete requests, and what a GET of a multipart object
  sends when the last part fits into the padding of an earlier one.
\<close>

section \<open>The header Range\<close>

lemma digit_plain:
  assumes "c \<in> set (to_dec n)"
  shows "\<not> c_isspace c" "c \<noteq> CHR ''-''" "c \<noteq> CHR '',''" "c \<noteq> CHR ''=''"
  using to_dec_digits [OF assms] by (auto simp: c_isspace_def)

lemma trim_to_dec [simp]: "trim (to_dec n) = to_dec n"
proof -
  have "dropWhile c_isspace xs = xs" if "set xs \<subseteq> set (to_dec n)" for xs
    using that digit_plain(1) [of _ n] by (cases xs) auto
  then show ?thesis by (simp add: trim_def ltrim_def rtrim_def)
qed

lemma trim_Nil [simp]: "trim [] = []"
  by (simp add: trim_def ltrim_def rtrim_def)

lemma to_dec_only_digits [simp]: "string_has_only_digits (to_dec n)"
  using to_dec_digits [of _ n] unfolding string_has_only_digits_def list_all_iff by blast

lemma c_atol_to_dec: "n < 2 ^ 63 \<Longrightarrow> c_atol (to_dec n) = int n"
  by (simp add: c_atol_def scan_number_to_dec no_nul_to_dec LONG_MAX_def)

lemma find_before_dash:
  assumes "CHR ''-'' \<notin> set xs" shows "str_find ''-'' (xs @ CHR ''-'' # ys) = Some (length xs)"
  using assms by (simp add: str_find_char takeWhile_append)

text \<open>A single range whose two numbers are \<open>xs\<close> and \<open>ys\<close>, each a decimal number or nothing.\<close>

lemma parse_single_range:
  assumes "xs = [] \<or> (\<exists>n. xs = to_dec n)" "ys = [] \<or> (\<exists>n. ys = to_dec n)" "xs \<noteq> [] \<or> ys \<noteq> []"
  shows "parse_range (''bytes='' @ xs @ CHR ''-'' # ys) len cur =
    (let first = (if xs = [] then len - of_int (c_atol ys) else of_int (c_atol xs));
         last0 = (if xs = [] \<or> ys = [] then len - 1 else of_int (c_atol ys));
         last = (if last0 > len - 1 then len - 1 else last0)
     in ((first, last), \<not> (first \<ge> len \<or> first > last)))"
proof -
  have no: "CHR ''-'' \<notin> set xs" "CHR '','' \<notin> set xs" "CHR '','' \<notin> set ys"
    using assms(1,2) by (auto dest: digit_plain(2,3))
  define h where "h = ''bytes='' @ xs @ CHR ''-'' # ys"
  have h: "str_find ''='' h = Some 5" "take 5 h = ''bytes''" "drop (Suc 5) h = xs @ CHR ''-'' # ys" "\<not> list_all c_isspace h"
    by (simp_all add: h_def c_isspace_def)
  have b: "trim ''bytes'' = ''bytes''" by (simp add: trim_def ltrim_def rtrim_def c_isspace_def)
  have c: "str_find '','' (xs @ CHR ''-'' # ys) = None" using no by (simp add: str_find_char)
  have t: "trim xs = xs" "trim ys = ys" "xs \<noteq> [] \<longrightarrow> string_has_only_digits xs" "ys \<noteq> [] \<longrightarrow> string_has_only_digits ys"
    using assms(1,2) by auto
  have "parse_range h len cur =
    (let first = (if xs = [] then len - of_int (c_atol ys) else of_int (c_atol xs));
         last0 = (if xs = [] \<or> ys = [] then len - 1 else of_int (c_atol ys));
         last = (if last0 > len - 1 then len - 1 else last0)
     in ((first, last), \<not> (first \<ge> len \<or> first > last)))"
    unfolding parse_range_def h(1) option.case Let_def h(2,3) b c find_before_dash [OF no(1)]
    using assms(3) t by (simp add: h(4))
  then show ?thesis by (simp only: h_def)
qed

lemma of_nat_order:
  assumes "x < 2 ^ 64" "y < 2 ^ 64"
  shows "(of_nat x :: size_t) \<le> of_nat y \<longleftrightarrow> x \<le> y" "(of_nat x :: size_t) < of_nat y \<longleftrightarrow> x < y"
  using assms by (simp_all add: word_le_nat_alt word_less_nat_alt unat_of_nat take_bit_nat_eq_self)

lemma of_nat_pred: "0 < len \<Longrightarrow> (of_nat len :: size_t) - 1 = of_nat (len - 1)"
  by (cases len) simp_all

lemma suffix_in_range:
  assumes "0 < len" "len < 2 ^ 61" "n < 2 ^ 63"
  shows "\<not> ((of_nat len - of_nat n :: size_t) \<ge> of_nat len \<or> of_nat len - of_nat n > (of_nat (len - 1) :: size_t))
    \<longleftrightarrow> 0 < n \<and> n \<le> len"
proof (cases "n \<le> len")
  case True
  then have "(of_nat len - of_nat n :: size_t) = of_nat (len - n)" by simp
  then show ?thesis using assms True by (auto simp: of_nat_order not_le not_less simp del: of_nat_diff)
next
  case False
  then have lt: "(of_nat len :: size_t) < of_nat n" using assms by (simp add: of_nat_order)
  then have "unat (of_nat len - of_nat n :: size_t) = 2 ^ 64 + len - n"
    using assms False by (simp add: unat_sub_if' unat_of_nat take_bit_nat_eq_self word_le_nat_alt)
  then have "(of_nat len :: size_t) \<le> of_nat len - of_nat n"
    using assms False by (simp add: word_le_nat_alt unat_of_nat take_bit_nat_eq_self)
  then show ?thesis using False by auto
qed

text \<open>C36: The three forms of a single byte range.  For an object of \<open>len\<close> bytes, \<open>bytes=a-b\<close> selects
  the bytes from \<open>a\<close> to \<open>b\<close>, cut at the end of the object, and is refused when \<open>a\<close> is not below
  \<open>len\<close> or above \<open>b\<close>; \<open>bytes=a-\<close> selects the bytes from \<open>a\<close> on; \<open>bytes=-n\<close> selects the last \<open>n\<close>
  bytes and is refused when \<open>n\<close> is 0 or larger than the object.
\<close>

theorem range_header_meaning:
  assumes "0 < len" "len < 2 ^ 61" "a < 2 ^ 63" "b < 2 ^ 63"
  shows "parse_range (''bytes='' @ to_dec a @ ''-'' @ to_dec b) (of_nat len) cur
           = ((of_nat a, of_nat (min b (len - 1))), a < len \<and> a \<le> b)
       \<and> parse_range (''bytes='' @ to_dec a @ ''-'') (of_nat len) cur = ((of_nat a, of_nat (len - 1)), a < len)
       \<and> parse_range (''bytes=-'' @ to_dec b) (of_nat len) cur
           = ((of_nat len - of_nat b, of_nat (len - 1)), 0 < b \<and> b \<le> len)"
proof (intro conjI)
  define p where "p = len - 1"
  have p: "(of_nat len :: size_t) - 1 = of_nat p" "len = Suc p" 
    using assms(1) of_nat_pred [OF assms(1)] unfolding p_def by simp_all
  have bounds: "a < 2 ^ 64" "b < 2 ^ 64" "len < 2 ^ 64" "p < 2 ^ 64" using assms by (auto simp: p_def)
  note ord = of_nat_order [OF bounds(1,2)] of_nat_order [OF bounds(3,1)] of_nat_order [OF bounds(4,1)]
    of_nat_order [OF bounds(4,2)] of_nat_order [OF bounds(2,1)]
  note num = c_atol_to_dec [OF assms(3)] c_atol_to_dec [OF assms(4)]
  show "parse_range (''bytes='' @ to_dec a @ ''-'' @ to_dec b) (of_nat len) cur
      = ((of_nat a, of_nat (min b (len - 1))), a < len \<and> a \<le> b)"
    using parse_single_range [of "to_dec a" "to_dec b" "of_nat len" cur]
    by (auto simp: Let_def num p(1) ord min_def simp flip: p_def) (auto simp: p(2))
  show "parse_range (''bytes='' @ to_dec a @ ''-'') (of_nat len) cur = ((of_nat a, of_nat (len - 1)), a < len)"
    using parse_single_range [of "to_dec a" "[]" "of_nat len" cur]
    by (auto simp: Let_def num p(1) ord simp flip: p_def) (auto simp: p(2))
  show "parse_range (''bytes=-'' @ to_dec b) (of_nat len) cur
      = ((of_nat len - of_nat b, of_nat (len - 1)), 0 < b \<and> b \<le> len)"
    using suffix_in_range [OF assms(1,2,4)] parse_single_range [of "[]" "to_dec b" "of_nat len" cur]
    unfolding p_def [symmetric] by (simp add: Let_def num p(1))
qed

lemma to_dec_500: "to_dec 500 = ''500''"
  by (simp add: to_dec.simps char_of_def bit_0)

theorem range_header_meaning_witness:
  "parse_range ''bytes=-500'' 400 (0, 399) = ((400 - 500, 399), False)"
  using range_header_meaning [of 400 0 500 "(0, 399)"] by (simp add: to_dec_500)

section \<open>A concrete request\<close>

definition pool_motr :: motr_call where
  "pool_motr = \<lparr>mc_pool_buffer_size = 16384, mc_reserve = (\<lambda>n u. Some (replicate n u)), mc_rw_op_ctx = True,
     mc_entity_open = 0, mc_obj_op = 0\<rparr>"

definition sample_get_env :: "string \<Rightarrow> get_env" where
  "sample_get_env header =
     \<lparr>ge_act = \<lparr>is_s3_shutting_down = False, client_connected = True, s3_client_read_error = [],
                is_chunk_auth_op_aborted = False, auth_error_code = [], auth_error_message = []\<rparr>,
      ge_layouts = S3MotrLayoutMap_init, ge_units_per_request = 4, ge_first_read_size = 2, ge_outstanding_length = 0,
      ge_write_buffer_multiple = 1, ge_pool_above_threshold = True, ge_delay_timer_fails = False, ge_motr = pool_motr,
      ge_range_header = header, ge_gmt = (\<lambda>s. s)\<rparr>"

lemma sample_get_env_calm: "calm_env (sample_get_env h)"
  by (simp add: calm_env_def sample_get_env_def pool_call_def pool_motr_def)

lemma sample_unit: "unit_of (sample_get_env h) 3 = 16384"
  by (simp add: unit_of_def sample_get_env_def get_unit_size_for_layout_def S3MotrLayoutMap_init_def map_index_def map_get_def)

definition sample_get_object :: S3ObjectMetadata where
  "sample_get_object = sample_object\<lparr>om_layout_id := 3, om_system := [(''Content-Length'', ''40000'')]\<rparr>"

lemma sample_get_object_fields:
  "om_layout_id sample_get_object = 3" "om_obj_fragments sample_get_object = 0" "\<not> is_object_extended sample_get_object"
  "om_oid sample_get_object = \<lparr>u_hi = 1, u_lo = 2\<rparr>"
  by (simp_all add: sample_get_object_def sample_object_def set_oid_def S3ObjectMetadata_init_def om_initialize_def Let_def
      is_object_extended_def)

lemma sample_get_object_length: "snd (get_content_length sample_get_object) = 40000"
proof -
  have "to_dec 40000 = ''40000''" by (simp add: to_dec.simps char_of_def bit_0)
  then have "c_atol ''40000'' = 40000" using c_atol_to_dec [of 40000] by simp
  then show ?thesis
    by (simp add: get_content_length_def om_attribute_at_def sample_get_object_def map_index_def map_get_def)
qed

lemma sample_plain: "plain_object (sample_get_env h) sample_get_object"
  using sample_unit [of h]
  by (simp add: plain_object_def sample_get_object_fields unit_ok_def check_outbuffer_and_mempool_stats_def
      get_motr_read_payload_size_def unit_of_def) (simp add: sample_get_env_def)

definition sample_get_action :: get_action where
  "sample_get_action =
     (let g = get_action_init sample_object_request True []
      in g\<lparr>oa_object := Some sample_get_object, oa_act := (oa_act g)\<lparr>task_iteration_index := 2\<rparr>\<rparr>)"

lemma sample_at_validation: "at_validation sample_get_object sample_get_action"
  by (simp add: at_validation_def sample_get_action_def get_action_init_def object_action_init_def S3Action_init_def
      S3Action_setup_steps_def Action_init_def action_setup_steps_def check_authorization_header_def add_task_def Let_def
      own_tasks_def calm_action_def object_action.defs get_action.defs)

theorem plain_get_sends_range_witness:
  "\<exists>g' outs.
      (case get_settle (sample_get_env ''bytes=20000-35000'') (Some (sample_get_action, [Base_out (Engine (Ran validate_object_info))])) of
         None \<Rightarrow> None
       | Some r \<Rightarrow> get_serve 4 zero_id (False, False, \<lambda>_ _ _ _. None) (sample_get_env ''bytes=20000-35000'') (\<lambda>_ i. char_of i) r)
        = Some (g', outs @ [Base_out Reply_end, Base_out (Engine Finished)])
      \<and> reply_starts outs = [206] \<and> reply_body outs = map char_of [20000..<Suc 35000]"
proof -
  have "to_dec 20000 = ''20000''" "to_dec 35000 = ''35000''"
    by (simp_all add: to_dec.simps char_of_def bit_0)
  then have "parse_range ''bytes=20000-35000'' 40000 (0, 39999) = ((20000, 35000), True)"
    using parse_single_range [of "''20000''" "''35000''" 40000 "(0, 39999)"] c_atol_to_dec [of 20000] c_atol_to_dec [of 35000]
    by (simp add: Let_def) metis
  then have r: "wanted_range (ge_range_header (sample_get_env ''bytes=20000-35000'')) 40000 = ((20000, 35000), True)"
    by (simp add: wanted_range_def sample_get_env_def)
  have h: "(if ge_range_header (sample_get_env ''bytes=20000-35000'') = [] then 200 else 206) = (206 :: nat)"
    by (simp add: sample_get_env_def)
  have un: "unat (20000 :: size_t) = 20000" "unat (35000 :: size_t) = 35000" by simp_all
  have u: "unit_nat (sample_get_env ''bytes=20000-35000'') sample_get_object = 16384"
    by (simp add: unit_nat_def sample_get_object_fields sample_unit)
  have len: "(40000 :: size_t) \<noteq> 0" "unat (40000 :: size_t) < 2 ^ 61" by simp_all
  have m: "unat (35000 :: size_t) div unit_nat (sample_get_env ''bytes=20000-35000'') sample_get_object
      - unat (20000 :: size_t) div unit_nat (sample_get_env ''bytes=20000-35000'') sample_get_object + 3 \<le> 4"
    by (simp add: u)
  show ?thesis
    using plain_get_sends_range [OF sample_get_env_calm sample_plain sample_at_validation sample_get_object_length len r m,
        of zero_id "\<lambda>_ _ _ _. None" "\<lambda>_ i. char_of i"]
    unfolding un h .
qed

section \<open>A read that cannot be launched\<close>

text \<open>A GET whose Motr object cannot be opened is answered twice.  The reader calls the failure
  handler and also returns false, so \<open>InternalError\<close> is sent and the action is finished, and then
  \<open>ServiceUnavailable\<close> is sent and the action is finished again; the failure that was posted to the main
  thread will call the handler once more.
\<close>

theorem failed_open_answered_twice:
  assumes "\<not> is_s3_shutting_down (ge_act e)" "check_outbuffer_and_mempool_stats e ob" "oa_object g = Some ob"
    and "calm_action (oa_act g)" "\<not> read_object_reply_started g" "current_layout ob g = Some lid" "g_reader g = Some r"
    and "\<not> mr_is_object_opened r" "blocks_already_read g \<noteq> total_blocks_to_read g"
    and "0 < next_blocks_to_read e ob (unit_of e lid) r g" "mc_entity_open (ge_motr e) = rc" "rc \<noteq> 0"
  shows "\<exists>g'. read_object_data e g = Some (g',
      [Reader (Post_open_failed rc), Base_out (Respond ''InternalError''), Base_out (Engine Finished),
       Base_out (Out_header ''Retry-After'' ''1''), Base_out (Respond ''ServiceUnavailable''), Base_out (Engine Finished)])"
proof -
  have "get_check_shutdown e g = (g, [], False)"
    using assms(1) by (simp add: get_check_shutdown_def check_shutdown_and_rollback_def)
  then have "read_object_data e g = launch_read e ob g"
    using assms(2,3,9) by (simp add: read_object_data.simps option.map_id0 case_prod_beta)
  then show ?thesis
    using assms(4-8,10-12)
    by (simp add: launch_read_def reader_read_object_data_def open_object_def read_object_data_failed_def send_response_def
        get_response_def oa_done_def action_done_def get_set_error_def oa_set_error_def set_s3_error_def calm_action_def
        reject_if_shutting_down_def is_error_state_def Let_def)
qed

definition closed_env :: get_env where
  "closed_env = (sample_get_env [])\<lparr>ge_motr := pool_motr\<lparr>mc_entity_open := -5\<rparr>\<rparr>"

definition reading_action :: get_action where
  "reading_action = sample_get_action\<lparr>last_byte_offset_to_read := 39999, total_blocks_to_read := 3,
     g_reader := Some (S3MotrReader_init S3MotrLayoutMap_init (om_oid sample_get_object) 3 \<lparr>f_container = 0, f_key = 0\<rparr>)\<rparr>"

theorem failed_open_answered_twice_witness:
  "\<exists>g'. read_object_data closed_env reading_action = Some (g',
      [Reader (Post_open_failed (- 5)), Base_out (Respond ''InternalError''), Base_out (Engine Finished),
       Base_out (Out_header ''Retry-After'' ''1''), Base_out (Respond ''ServiceUnavailable''), Base_out (Engine Finished)])"
proof (rule failed_open_answered_twice [where ob = sample_get_object and lid = 3])
  show "check_outbuffer_and_mempool_stats closed_env sample_get_object"
    using sample_plain [of "[]"] by (simp add: plain_object_def check_outbuffer_and_mempool_stats_def closed_env_def)
  show "g_reader reading_action =
      Some (S3MotrReader_init S3MotrLayoutMap_init (om_oid sample_get_object) 3 \<lparr>f_container = 0, f_key = 0\<rparr>)"
    by (simp add: reading_action_def)
  have u: "unit_of closed_env 3 = 16384" using sample_unit [of "[]"] by (simp add: unit_of_def closed_env_def)
  have fields: "blocks_already_read sample_get_action = 0" "next_fragment_object sample_get_action = 0"
      "first_byte_offset_to_read sample_get_action = 0" "calm_action (oa_act sample_get_action)"
      "\<not> read_object_reply_started sample_get_action" "oa_object sample_get_action = Some sample_get_object"
    using sample_at_validation by (simp_all add: at_validation_def)
  show "0 < next_blocks_to_read closed_env sample_get_object (unit_of closed_env 3)
      (S3MotrReader_init S3MotrLayoutMap_init (om_oid sample_get_object) 3 \<lparr>f_container = 0, f_key = 0\<rparr>) reading_action"
    by (simp add: next_blocks_to_read_def u Let_def reading_action_def fields get_requested_content_length_def
        sample_get_object_fields closed_env_def sample_get_env_def)
  show "oa_object reading_action = Some sample_get_object" "calm_action (oa_act reading_action)"
    "\<not> read_object_reply_started reading_action" "blocks_already_read reading_action \<noteq> total_blocks_to_read reading_action"
    by (simp_all add: reading_action_def fields)
  show "current_layout sample_get_object reading_action = Some 3"
    by (simp add: current_layout_def sample_get_object_fields)
qed (simp_all add: closed_env_def sample_get_env_def pool_motr_def S3MotrReader_init_def)

end
