(* ===== verification/Get_Multipart.thy ===== *)
theory Get_Multipart
  imports Get_Reply
begin

text \<open>
  GET of an object that consists of several Motr objects.  The test that recognises the last run
  compares with the length of the whole request before the size of the current object is taken into
  account, so the padding of an object can be taken for data.
\<close>

lemma collect_infos_length: "collect_infos e ob entries mp n infos = Some infos' \<Longrightarrow> length infos' = length infos + n"
  by (induction e ob entries mp n infos rule: collect_infos.induct) (auto split: option.splits)

lemma collect_infos_prefix:
  "collect_infos e ob entries mp n infos = Some infos' \<Longrightarrow> take (length infos) infos' = infos"
proof (induction n arbitrary: infos)
  case (Suc n)
  then obtain i where "collect_infos e ob entries mp n (infos @ [i]) = Some infos'" by (auto split: option.splits)
  from Suc.IH [OF this] have "take (Suc (length infos)) infos' = infos @ [i]" by simp
  then have "take (length infos) (take (Suc (length infos)) infos') = infos" by simp
  then show ?case by (simp add: min_def)
qed simp

lemma first_info:
  assumes "collect_infos e ob entries True n [] = Some (i # infos)"
  shows "start_offset_in_object i = 0" "n = Suc (length infos)" "unit_of e (object_layout i) \<noteq> 0"
proof -
  show n: "n = Suc (length infos)" using collect_infos_length [OF assms] by simp
  then obtain j where j: "info_of e ob entries True [] = Some j" "collect_infos e ob entries True (length infos) [j] = Some (i # infos)"
    using assms by (auto split: option.splits)
  from collect_infos_prefix [OF j(2)] have "i = j" by simp
  with j(1) show "start_offset_in_object i = 0" "unit_of e (object_layout i) \<noteq> 0"
    by (auto simp: info_of_def extended_info_def info_start_def Let_def split: option.splits if_splits)
qed

text \<open>A multipart object whose first Motr object, with its padding, is as long as the whole object.\<close>

definition padded_multipart :: "get_env \<Rightarrow> S3ObjectMetadata \<Rightarrow> S3ObjectExtendedMetadata \<Rightarrow> S3ExtendedObjectInfo \<Rightarrow> S3ExtendedObjectInfo list \<Rightarrow> size_t \<Rightarrow> bool" where
  "padded_multipart e ob x i infos len \<longleftrightarrow>
     is_object_extended ob \<and> om_obj_parts ob \<noteq> 0 \<and> om_obj_fragments ob \<noteq> 0 \<and> check_outbuffer_and_mempool_stats e ob
     \<and> snd (get_content_length ob) = len \<and> len \<noteq> 0 \<and> unat len < 2 ^ 61
     \<and> collect_infos e ob (x_ext_objects x) True (unat (om_obj_fragments ob)) [] = Some (i # infos)
     \<and> unit_ok (unit_of e (object_layout i))
     \<and> unat len \<le> unat (eo_total_blocks i) * unat (unit_of e (object_layout i))
     \<and> eo_total_blocks i \<le> ucast (ge_units_per_request e)"

definition whole_object :: "S3ObjectMetadata \<Rightarrow> size_t \<Rightarrow> S3ExtendedObjectInfo \<Rightarrow> S3ExtendedObjectInfo list \<Rightarrow> get_action \<Rightarrow> bool" where
  "whole_object ob len i infos g \<longleftrightarrow>
     oa_object g = Some ob \<and> calm_action (oa_act g) \<and> get_content_len g = len \<and> first_byte_offset_to_read g = 0
     \<and> last_byte_offset_to_read g = len - 1 \<and> extended_objects g = i # infos \<and> total_objects g = Suc (length infos)
     \<and> blocks_already_read g = 0 \<and> data_sent_to_client g = 0 \<and> next_fragment_object g = 0 \<and> \<not> read_object_reply_started g"

lemma padded_blocks:
  assumes "calm_env e" "padded_multipart e ob x i infos len"
  shows "0 < eo_total_blocks i" "unat (eo_total_blocks i) * unat (unit_of e (object_layout i)) < 2 ^ 42"
    "unat (eo_total_blocks i) \<le> unat (ge_units_per_request e)"
proof -
  have pad: "unat len \<le> unat (eo_total_blocks i) * unat (unit_of e (object_layout i))" "len \<noteq> 0"
      "unit_ok (unit_of e (object_layout i))" "eo_total_blocks i \<le> ucast (ge_units_per_request e)"
    using assms(2) by (simp_all add: padded_multipart_def)
  show le: "unat (eo_total_blocks i) \<le> unat (ge_units_per_request e)"
    using pad(4) by (simp add: word_le_nat_alt ucast16_nat)
  have "0 < unat len" using pad(2) by (simp add: unat_gt_0)
  then have "eo_total_blocks i \<noteq> 0" using pad(1) by auto
  then show "0 < eo_total_blocks i" by (simp add: word_gt_0)
  have "unat (unit_of e (object_layout i)) \<le> 33554432" using pad(3) by (simp add: unit_ok_def word_le_nat_alt)
  from units_times_unit(2) [OF this] show "unat (eo_total_blocks i) * unat (unit_of e (object_layout i)) < 2 ^ 42"
    using le by (meson le_less_trans mult_le_mono1)
qed

text \<open>The first Motr object is being read in one run; \<open>r\<close> is its reader.\<close>

definition reads_first :: "S3ObjectMetadata \<Rightarrow> size_t \<Rightarrow> S3ExtendedObjectInfo \<Rightarrow> S3MotrReader \<Rightarrow> get_action \<Rightarrow> bool" where
  "reads_first ob len i r g \<longleftrightarrow>
     oa_object g = Some ob \<and> calm_action (oa_act g) \<and> get_content_len g = len \<and> first_byte_offset_to_read g = 0
     \<and> last_byte_offset_to_read g = len - 1 \<and> (\<exists>infos. extended_objects g = i # infos) \<and> data_sent_to_client g = 0
     \<and> next_fragment_object g = 0 \<and> \<not> read_object_reply_started g \<and> blocks_to_read g = eo_total_blocks i
     \<and> g_reader g = Some r \<and> mr_num_of_blocks_to_read r = eo_total_blocks i"

lemma padded_opens:
  assumes calm: "calm_env e" and pad: "padded_multipart e ob x i infos len" and g: "whole_object ob len i infos g"
  obtains g' r where "do_read_object e g = Some (g', [Reader Open_object])"
    "reads_first ob len (i\<lparr>total_readable_blocks := eo_total_blocks i\<rparr>) r g'"
    "reader_at (object_OID i) (unit_of e (object_layout i)) 0 False r" "mr_state r = Rdr_reading"
proof -
  let ?n = "eo_total_blocks i" and ?u = "unit_of e (object_layout i)"
  let ?i = "i\<lparr>total_readable_blocks := ?n\<rparr>" and ?infos = "map (\<lambda>o1. o1\<lparr>total_readable_blocks := eo_total_blocks o1\<rparr>) infos"
  note blocks = padded_blocks [OF calm pad]
  have coll: "collect_infos e ob (x_ext_objects x) True (unat (om_obj_fragments ob)) [] = Some (i # infos)"
    and ext: "is_object_extended ob" "om_obj_fragments ob \<noteq> 0" "check_outbuffer_and_mempool_stats e ob"
      "unat len \<le> unat ?n * unat ?u" "?n \<le> ucast (ge_units_per_request e)"
    using pad by (simp_all add: padded_multipart_def)
  note first = first_info [OF coll]
  define r0 where "r0 = set_last_index 0 (S3MotrReader_init (ge_layouts e) (object_OID i) (object_layout i) (object_pvid i))"
  define g1 where "g1 = g\<lparr>total_blocks_to_read_all_objects := total_blocks_to_read_all_objects g + (?n + sum_list (map eo_total_blocks infos)),
      extended_objects := ?i # ?infos, total_objects_to_read := Suc (length infos)\<rparr>"
  define g2 where "g2 = g1\<lparr>blocks_already_read := 0, data_sent_to_client_for_object := 0, total_blocks_to_read := ?n, g_reader := Some r0\<rparr>"
  define r1 where "r1 = r0\<lparr>mr_state := Rdr_reading, mr_num_of_blocks_to_read := ?n, mr_is_object_opened := False\<rparr>"
  have "set_total_blocks_to_read_from_fragmented_object e g = Some g1"
    using g by (simp add: set_total_blocks_to_read_from_fragmented_object_def whole_object_def reads_everything_def g1_def Let_def)
  moreover have "?u div ?u = 1" by (rule unit_div_self [OF first(3)])
  then have "open_fragment e g1 = Some g2"
    using g first by (simp add: open_fragment_def set_total_blocks_to_read_from_next_object_def whole_object_def g1_def g2_def r0_def Let_def)
  moreover have mu: "unat (ucast (ge_units_per_request e) * ?u) = unat (ge_units_per_request e) * unat ?u"
    using pad by (intro units_times_unit) (simp add: padded_multipart_def unit_ok_def word_le_nat_alt)
  have "unat len \<le> unat (ge_units_per_request e) * unat ?u"
    using ext(4) blocks(3) by (meson le_trans mult_le_mono1)
  then have small: "\<not> ucast (ge_units_per_request e) * ?u < len" by (simp add: word_less_nat_alt mu)
  have "\<not> ucast (ge_units_per_request e) < ?n" using ext(5) by (simp add: not_less)
  with small have "next_blocks_to_read e ob ?u r0 g2 = ?n"
    using g by (simp add: next_blocks_to_read_def g2_def g1_def whole_object_def get_requested_content_length_def Let_def r0_def
        set_last_index_def)
  then have "launch_read e ob g2 = Some (g2\<lparr>blocks_to_read := ?n, g_reader := Some r1\<rparr>, [Reader Open_object])"
    using calm ext(1) g blocks(1)
    by (simp add: launch_read_def current_layout_def g2_def g1_def whole_object_def reader_read_object_data_def open_object_def
        calm_env_def pool_call_def r0_def set_last_index_def S3MotrReader_init_def r1_def Let_def)
  moreover have "0 \<noteq> ?n" using blocks(1) by auto
  ultimately have "do_read_object e g = Some (g2\<lparr>blocks_to_read := ?n, g_reader := Some r1\<rparr>, [Reader Open_object])"
    using g ext calm_check [OF calm, of g2]
    by (simp add: do_read_object_def whole_object_def read_fragmented_object_def read_object_data.simps g2_def g1_def)
  moreover have "reads_first ob len ?i r1 (g2\<lparr>blocks_to_read := ?n, g_reader := Some r1\<rparr>)"
    using g by (simp add: reads_first_def whole_object_def g2_def g1_def r1_def)
  moreover have "reader_at (object_OID i) ?u 0 False r1" "mr_state r1 = Rdr_reading"
    by (simp_all add: reader_at_def r1_def r0_def set_last_index_def S3MotrReader_init_def unit_of_def)
  ultimately show ?thesis using that by blast
qed

lemma padded_reads:
  assumes calm: "calm_env e" and pad: "padded_multipart e ob x i infos len"
    and g: "reads_first ob len (i\<lparr>total_readable_blocks := eo_total_blocks i\<rparr>) r g"
    and r: "reader_at (object_OID i) (unit_of e (object_layout i)) 0 False r" "mr_state r = Rdr_reading"
  obtains g' r' es where "get_step app di e Object_opened g = Some (g', [Reader (Read_object es)])"
    "reads_first ob len (i\<lparr>total_readable_blocks := eo_total_blocks i\<rparr>) r' g'"
    "mr_oid r' = object_OID i"
    "read_launched (object_OID i) 0 (unat (eo_total_blocks i) * unat (unit_of e (object_layout i))) es r'"
proof -
  note blocks = padded_blocks [OF calm pad]
  have u: "unit_ok (unit_of e (object_layout i))" using pad by (simp add: padded_multipart_def)
  have num: "mr_num_of_blocks_to_read r = eo_total_blocks i" "g_reader g = Some r" using g by (simp_all add: reads_first_def)
  let ?r = "r\<lparr>mr_is_object_opened := True\<rparr>"
  have mc: "pool_call (ge_motr e)" using calm by (simp add: calm_env_def)
  have at: "reader_at (object_OID i) (unit_of e (object_layout i)) 0 True ?r" using r(1) by (simp add: reader_at_def)
  obtain r' es where r': "Motr_Reader.read_object (ge_motr e) ?r = Some (r', [Read_object es], True)"
      "reader_at (object_OID i) (unit_of e (object_layout i)) (0 + unat (mr_num_of_blocks_to_read ?r) * unat (unit_of e (object_layout i))) True r'"
      "read_launched (object_OID i) 0 (0 + unat (mr_num_of_blocks_to_read ?r) * unat (unit_of e (object_layout i))) es r'"
    by (rule read_object_pool [OF mc at u]) (use blocks num in auto)
  have keep: "mr_num_of_blocks_to_read r' = eo_total_blocks i"
    using r'(1) num(1) by (auto simp: Motr_Reader.read_object_def init_read_op_ctx_def Let_def case_prod_beta bind_eq_Some_conv
        split: if_splits option.splits)
  have "get_step app di e Object_opened g = Some (g\<lparr>g_reader := Some r'\<rparr>, [Reader (Read_object es)])"
    using num(2) r(2) r'(1) by (simp add: get_step_def with_reader_def open_object_successful_def)
  moreover have "reads_first ob len (i\<lparr>total_readable_blocks := eo_total_blocks i\<rparr>) r' (g\<lparr>g_reader := Some r'\<rparr>)"
    using g keep by (simp add: reads_first_def)
  ultimately show ?thesis using that r'(2,3) num(1) by (simp add: reader_at_def)
qed

lemma padded_sends:
  assumes calm: "calm_env e" and pad: "padded_multipart e ob x i infos len"
    and g: "reads_first ob len (i\<lparr>total_readable_blocks := eo_total_blocks i\<rparr>) r g"
    and r: "mr_oid r = object_OID i"
      "read_launched (object_OID i) 0 (unat (eo_total_blocks i) * unat (unit_of e (object_layout i))) es r"
  obtains g' outs where
    "get_step app (False, False, calc) e (Read_done (map (motr_bytes store (mr_oid r)) es) []) g =
       Some (g', outs @ [Base_out Reply_end, Base_out (Engine Finished)])"
    "reply_body outs = map (store (object_OID i)) [0..<unat len]" "reply_starts outs = [reply_status e]"
proof -
  let ?n = "eo_total_blocks i" and ?u = "unit_of e (object_layout i)" and ?at = "store (object_OID i)"
  define data where "data = map (motr_bytes store (mr_oid r)) es"
  obtain ev where ev: "mr_evbuffer r = Some ev" and bytes: "concat data = map ?at [0..<unat ?n * unat ?u]"
    using r by (auto simp: read_launched_def data_def)
  note blocks = padded_blocks [OF calm pad]
  have ext: "is_object_extended ob" "unat len \<le> unat ?n * unat ?u" "len \<noteq> 0" "?u \<noteq> 0"
    using pad by (auto simp: padded_multipart_def unit_ok_def)
  define r1 where "r1 = filled_reader data ev r"
  define g1 where "g1 = g\<lparr>g_reader := Some r1, read_object_reply_started := True, blocks_already_read := blocks_already_read g + ?n\<rparr>"
  define ev1 where "ev1 = ev\<lparr>ev_buf := Some (concat data)\<rparr>"
  have ds: "data_sent_to_client g1 = 0" using g by (simp add: g1_def reads_first_def)
  have buf: "ev_buf ev1 = Some (map ?at [0..<unat ?n * unat ?u])" by (simp add: ev1_def bytes)
  have req: "get_requested_content_length g1 = len" using g by (simp add: g1_def reads_first_def get_requested_content_length_def)
  have big: "unat ?n * unat ?u < 2 ^ 62" using blocks(2) by simp
  have nu: "unat (?n * ?u) = unat ?n * unat ?u" using big by (intro unat_mult) simp
  have "get_evbuff_length ev1 \<ge> len"
    using ext(2) big evbuff_length [of ev1] bytes by (simp add: word_le_nat_alt ev1_def)
  then have cut: "cut_to_length ob g1 (?n * ?u) ev1 = Some (ev1\<lparr>ev_buf := Some (map ?at [0..<unat len])\<rparr>)"
    using ext(2) buf ds by (simp add: cut_to_length_def req Let_def read_drain_data_from_buffer_def take_map take_upt)
  have skip: "skip_to_first_byte ?u g1 ev1 = (ev1, ?n * ?u)"
    using g by (simp add: skip_to_first_byte_def g1_def reads_first_def Let_def)
  define g2 where "g2 = g1\<lparr>data_sent_to_client := len, data_sent_to_client_for_object := data_sent_to_client_for_object g + len,
      g_reader := Some (r1\<lparr>mr_evbuffer := Some (ev1\<lparr>ev_buf := None\<rparr>)\<rparr>)\<rparr>"
  have sent: "get_evbuff_length (ev1\<lparr>ev_buf := Some (map ?at [0..<unat len])\<rparr>) = len" by (simp add: get_evbuff_length_def)
  have after: "after_send e ob g2 = Some (send_response g2)"
    using calm ext(1) req by (simp add: after_send_def calm_env_def g2_def get_requested_content_length_def)
  have resp: "snd (send_response g2) = [Base_out Reply_end, Base_out (Engine Finished)]"
    using g by (intro response_after_run [where ob = ob and r = "r1\<lparr>mr_evbuffer := Some (ev1\<lparr>ev_buf := None\<rparr>)\<rparr>"])
      (simp_all add: g2_def g1_def reads_first_def r1_def filled_reader_def)
  have run: "send_run e ob r1 ev1 ?u (g\<lparr>g_reader := Some r1, read_object_reply_started := True\<rparr>)
      = Some (fst (send_response g2), Base_out (Reply_body (map ?at [0..<unat len])) # snd (send_response g2))"
  proof -
    have "g1\<lparr>data_sent_to_client := data_sent_to_client g1 + len, data_sent_to_client_for_object := data_sent_to_client_for_object g1 + len,
        g_reader := Some (r1\<lparr>mr_evbuffer := Some (ev1\<lparr>ev_buf := None\<rparr>)\<rparr>)\<rparr> = g2"
      using g by (simp add: g2_def g1_def reads_first_def)
    moreover have "(g\<lparr>g_reader := Some r1, read_object_reply_started := True\<rparr>)
        \<lparr>blocks_already_read := blocks_already_read g + blocks_to_read g\<rparr> = g1"
      using g by (simp add: g1_def reads_first_def)
    ultimately show ?thesis
      using skip cut sent after
      by (simp add: send_run_def release_ownership_def Let_def case_prod_beta)
  qed
  define hs where "hs = map Base_out (data_headers e ob (g\<lparr>g_reader := Some r1\<rparr>))"
  have "get_step app (False, False, calc) e (Read_done data []) g
      = get_settle e (Some (fst (send_response g2), (hs @ [Base_out (Reply_body (map ?at [0..<unat len])), Base_out Reply_end]) @ [Base_out (Engine Finished)]))"
    using g ev ext(1,4) run resp
    by (auto simp: get_step_def with_reader_def read_object_successful_def motr_filled_def send_data_to_client_def calm_check [OF calm]
        reads_first_def current_layout_def r1_def filled_reader_def ev1_def hs_def)
  then show ?thesis
    using that [of "fst (send_response g2)" "hs @ [Base_out (Reply_body (map ?at [0..<unat len]))]"]
    by (simp add: hs_def data_def del: settle_finished) (simp add: settle_finished [of _ _ "_ @ [_, _]", simplified])
qed

lemma padded_validation:
  assumes calm: "calm_env e" "ge_range_header e = []" and at: "at_validation ob g" "oa_ext g = Some x" "extended_objects g = []"
    and pad: "padded_multipart e ob x i infos len"
  obtains g' pre r where
    "get_settle e (Some (g, [Base_out (Engine (Ran validate_object_info))])) = Some (g', pre @ [Reader Open_object])"
    "reply_body pre = []" "reply_starts pre = []" "reads_first ob len (i\<lparr>total_readable_blocks := eo_total_blocks i\<rparr>) r g'"
    "reader_at (object_OID i) (unit_of e (object_layout i)) 0 False r" "mr_state r = Rdr_reading"
proof -
  note nth = own_task_nth [OF at(1)]
  have obj: "oa_object g = Some ob" using at by (simp add: at_validation_def)
  have ext: "om_obj_fragments ob \<noteq> 0" "om_obj_parts ob \<noteq> 0" "snd (get_content_length ob) = len" "len \<noteq> 0"
      "collect_infos e ob (x_ext_objects x) True (unat (om_obj_fragments ob)) [] = Some (i # infos)"
    using pad by (simp_all add: padded_multipart_def)
  define pre where "pre = Base_out (Set_object_size len) # (if check_object_tags_exists ob
       then [Base_out (Out_header ''x-amz-tagging-count'' (to_dec (object_tags_count ob)))] else [])"
  define tasks where "tasks k = (oa_act g)\<lparr>task_iteration_index := k + task_iteration_index (oa_act g)\<rparr>" for k :: nat
  define g1 where "g1 = g\<lparr>get_content_len := len, last_byte_offset_to_read := len - 1, total_objects := Suc (length infos),
      extended_objects := i # infos, total_blocks_in_object := total_blocks_in_object g + (eo_total_blocks i + sum_list (map eo_total_blocks infos)),
      oa_act := tasks 1\<rparr>"
  define g2 where "g2 = g1\<lparr>oa_act := tasks 2\<rparr>"
  have s1: "do_validate_object_info e g = Some (g1, pre @ [Base_out (Engine (Ran check_full_or_range_object_read))])"
    using obj ext at(2,3) nth(1,3) first_info(2) [OF ext(5)]
    by (simp add: do_validate_object_info_def next_calm [OF calm(1)] pre_def g1_def tasks_def Let_def)
  have s2: "do_check_full_or_range e g1 = (g2, [Base_out (Engine (Ran read_object))])"
    using nth(2,3) by (simp add: do_check_full_or_range_def calm(2) next_calm [OF calm(1)] g1_def g2_def tasks_def)
  have "whole_object ob len i infos g2"
    using at(1) by (simp add: whole_object_def g2_def g1_def tasks_def at_validation_def calm_action_def)
  from padded_opens [OF calm(1) pad this] obtain g' r where s3: "do_read_object e g2 = Some (g', [Reader Open_object])"
      "reads_first ob len (i\<lparr>total_readable_blocks := eo_total_blocks i\<rparr>) r g'"
      "reader_at (object_OID i) (unit_of e (object_layout i)) 0 False r" "mr_state r = Rdr_reading" by metis
  obtain k where k: "number_of_tasks (oa_act g) = Suc (Suc k)"
    using nth(3) by (metis Suc_lessE number_of_tasks_def)
  have "get_settle e (Some (g, [Base_out (Engine (Ran validate_object_info))])) =
      Some (g', (Base_out (Engine (Ran validate_object_info)) # pre @ [Base_out (Engine (Ran check_full_or_range_object_read)),
        Base_out (Engine (Ran read_object))]) @ [Reader Open_object])"
    by (simp add: get_settle_def k s1 s2 s3(1))
  moreover have "reply_body pre = []" "reply_starts pre = []" by (simp_all add: pre_def)
  ultimately show ?thesis using that s3(2-4) by simp
qed

text \<open>C37: A GET of a multipart object can return the wrong bytes.  If the first part with the padding of
  its last unit is at least as long as the whole object, the reply consists of the first Motr object
  alone: after the data of the first part it sends the padding, and the other parts are not read.
\<close>

theorem multipart_get_sends_padding:
  assumes "calm_env e" "ge_range_header e = []" "at_validation ob g" "oa_ext g = Some x" "extended_objects g = []"
    and "padded_multipart e ob x i infos len" "3 \<le> m"
  shows "\<exists>g' outs.
      (case get_settle e (Some (g, [Base_out (Engine (Ran validate_object_info))])) of
         None \<Rightarrow> None
       | Some r \<Rightarrow> get_serve m app (False, False, calc) e store r)
        = Some (g', outs @ [Base_out Reply_end, Base_out (Engine Finished)])
      \<and> reply_starts outs = [200] \<and> reply_body outs = map (store (object_OID i)) [0..<unat len]"
proof -
  obtain g1 pre r where v: "get_settle e (Some (g, [Base_out (Engine (Ran validate_object_info))])) = Some (g1, pre @ [Reader Open_object])"
      "reply_body pre = []" "reply_starts pre = []" "reads_first ob len (i\<lparr>total_readable_blocks := eo_total_blocks i\<rparr>) r g1"
      "reader_at (object_OID i) (unit_of e (object_layout i)) 0 False r" "mr_state r = Rdr_reading"
    by (rule padded_validation [OF assms(1-6)])
  obtain g2 r2 es where o2: "get_step app (False, False, calc) e Object_opened g1 = Some (g2, [Reader (Read_object es)])"
      "reads_first ob len (i\<lparr>total_readable_blocks := eo_total_blocks i\<rparr>) r2 g2" "mr_oid r2 = object_OID i"
      "read_launched (object_OID i) 0 (unat (eo_total_blocks i) * unat (unit_of e (object_layout i))) es r2"
    by (rule padded_reads [OF assms(1,6) v(4-6)])
  obtain g3 outs where o3: "get_step app (False, False, calc) e (Read_done (map (motr_bytes store (mr_oid r2)) es) []) g2 =
        Some (g3, outs @ [Base_out Reply_end, Base_out (Engine Finished)])"
      "reply_body outs = map (store (object_OID i)) [0..<unat len]" "reply_starts outs = [reply_status e]"
    by (rule padded_sends [OF assms(1,6) o2(2-4)])
  have k: "m = Suc (Suc (Suc (m - 3)))" using assms(7) by simp
  have ans: "get_answer store (Reader Open_object) g1 = Some Object_opened"
      "get_answer store (Reader (Read_object es)) g2 = Some (Read_done (map (motr_bytes store (mr_oid r2)) es) [])"
    using o2(2) by (simp_all add: reads_first_def)
  have "get_serve m app (False, False, calc) e store (g1, pre @ [Reader Open_object])
      = Some (g3, (pre @ Reader Open_object # Reader (Read_object es) # outs) @ [Base_out Reply_end, Base_out (Engine Finished)])"
    by (subst k, subst serve_prefix, simp)
      (simp only: serve_step [OF ans(1) o2(1)] serve_step [OF ans(2) o3(1)] finished_serve option.map prod.case append_assoc append_Cons append_Nil)
  then show ?thesis using v(1-3) o3(2,3) assms(2) by (auto simp: reply_status_def simp del: get_serve.simps)
qed

definition sample_part :: "nat \<Rightarrow> size_t \<Rightarrow> s3_part_frag_context" where
  "sample_part n sz = \<lparr>fr_motr_OID = \<lparr>u_hi = of_nat n, u_lo = 7\<rparr>, fr_PVID = \<lparr>f_container = 0, f_key = 0\<rparr>, fr_versionID = [],
     fr_item_size = sz, fr_layout_id = 3, fr_part_number = of_nat n, fr_is_multipart = True\<rparr>"

definition sample_parts :: S3ObjectExtendedMetadata where
  "sample_parts = (S3ObjectExtendedMetadata_init sample_object_request [] [] [] 2 2)
     \<lparr>x_ext_objects := [(1, [sample_part 1 20000]), (2, [sample_part 2 5000])]\<rparr>"

definition sample_multipart :: S3ObjectMetadata where
  "sample_multipart = sample_get_object\<lparr>om_obj_type := only_parts, om_obj_parts := 2, om_obj_fragments := 2,
     om_system := [(''Content-Length'', ''25000'')]\<rparr>"

definition sample_info :: "nat \<Rightarrow> size_t \<Rightarrow> size_t \<Rightarrow> size_t \<Rightarrow> S3ExtendedObjectInfo" where
  "sample_info n start blocks sz = \<lparr>start_offset_in_object = start, eo_total_blocks = blocks, object_size = sz,
     requested_object_size = sz, total_readable_blocks = 0, object_OID = \<lparr>u_hi = of_nat n, u_lo = 7\<rparr>, object_layout = 3,
     object_pvid = \<lparr>f_container = 0, f_key = 0\<rparr>\<rparr>"

lemma sample_padded:
  "padded_multipart (sample_get_env []) sample_multipart sample_parts (sample_info 1 0 2 20000) [sample_info 2 20000 1 5000] 25000"
proof -
  have "to_dec 25000 = ''25000''" by (simp add: to_dec.simps char_of_def bit_0)
  then have len: "c_atol ''25000'' = 25000" using c_atol_to_dec [of 25000] by simp
  have u: "unit_of (sample_get_env []) 3 = 16384" by (rule sample_unit)
  have coll: "collect_infos (sample_get_env []) sample_multipart (x_ext_objects sample_parts) True (Suc (Suc 0)) []
      = Some [sample_info 1 0 2 20000, sample_info 2 20000 1 5000]"
    by (simp add: info_of_def entry_at_def map_get_def sample_parts_def extended_info_def info_start_def Let_def
        sample_part_def sample_info_def u)
  have frag: "unat (om_obj_fragments sample_multipart) = Suc (Suc 0)" by (simp add: sample_multipart_def)
  have "check_outbuffer_and_mempool_stats (sample_get_env []) sample_multipart"
    using sample_plain [of "[]"] by (simp add: plain_object_def check_outbuffer_and_mempool_stats_def sample_multipart_def)
  moreover have "is_object_extended sample_multipart" "om_obj_parts sample_multipart \<noteq> 0" "om_obj_fragments sample_multipart \<noteq> 0"
      "snd (get_content_length sample_multipart) = 25000" "ge_units_per_request (sample_get_env []) = 4"
    using len by (simp_all add: sample_multipart_def is_object_extended_def get_content_length_def
        om_attribute_at_def map_index_def map_get_def sample_get_env_def)
  ultimately show ?thesis
    unfolding padded_multipart_def frag coll by (simp add: sample_info_def u unit_ok_def)
qed

theorem multipart_get_sends_padding_witness:
  "\<exists>g' outs.
      (case get_settle (sample_get_env []) (Some (sample_get_action\<lparr>oa_object := Some sample_multipart, oa_ext := Some sample_parts\<rparr>,
            [Base_out (Engine (Ran validate_object_info))])) of
         None \<Rightarrow> None
       | Some r \<Rightarrow> get_serve 3 zero_id (False, False, \<lambda>_ _ _ _. None) (sample_get_env []) (\<lambda>ident i. if u_hi ident = 1 then char_of (i mod 7) else CHR ''B'') r)
        = Some (g', outs @ [Base_out Reply_end, Base_out (Engine Finished)])
      \<and> reply_starts outs = [200] \<and> reply_body outs = map (\<lambda>i. char_of (i mod 7)) [0..<unat (25000 :: size_t)]"
proof -
  have "at_validation sample_multipart (sample_get_action\<lparr>oa_object := Some sample_multipart, oa_ext := Some sample_parts\<rparr>)"
    using sample_at_validation by (simp add: at_validation_def)
  moreover have "extended_objects (sample_get_action\<lparr>oa_object := Some sample_multipart, oa_ext := Some sample_parts\<rparr>) = []"
    by (simp add: sample_get_action_def get_action_init_def object_action.defs get_action.defs Let_def)
  moreover have "ge_range_header (sample_get_env []) = []" by (simp add: sample_get_env_def)
  moreover have "(\<lambda>i. if u_hi (object_OID (sample_info 1 0 2 20000)) = 1 then char_of (i mod 7) else CHR ''B'') = (\<lambda>i :: nat. char_of (i mod 7))"
    by (simp add: sample_info_def)
  ultimately show ?thesis
    using multipart_get_sends_padding [OF sample_get_env_calm _ _ _ _ sample_padded, of _ 3 zero_id "\<lambda>_ _ _ _. None"
        "\<lambda>ident i. if u_hi ident = 1 then char_of (i mod 7) else CHR ''B''"] by simp
qed

end
