(* ===== verification/MD5_Hash.thy ===== *)
theory MD5_Hash
  imports Motr_Reader Base64
begin

text \<open>
  \<open>server/s3_md5_hash.cc\<close>: the running MD5 of what is written to Motr.  The digest is computed
  by Motr's \<open>m0_client_calculate_pi\<close>, which is not part of the program: it is the parameter
  \<open>motr_pi\<close>, a function of the flag, of the context in the protection information, of the seed
  and of the buffers.  What it stores through its pointers is the record \<open>pi_out\<close>.

  The context \<open>MD5_CTX\<close> is a block of 92 bytes.  The digest that was never computed is \<open>None\<close>, and
  so is the result of a function that reads it; a failed assertion and a null pointer are
  \<open>None\<close> as well.  The log functions are left out.
\<close>

datatype m0_pi_calc_flag = M0_PI_NO_FLAG | M0_PI_CALC_UNIT_ZERO | M0_PI_SKIP_CALC_FINAL

record pi_out =
  po_rc :: int
  po_prev :: bytes
  po_ctx :: bytes
  po_value :: bytes
  po_plain :: bytes

type_synonym pi_seed = "size_t \<times> m0_uint128"

type_synonym motr_pi = "m0_pi_calc_flag \<Rightarrow> bytes \<Rightarrow> pi_seed option \<Rightarrow> bytes list \<Rightarrow> pi_out"

record MD5hash =
  md5ctx :: bytes
  md5ctx_pre_unaligned :: bytes
  md5_digest :: "bytes option"
  md5_status :: int
  is_finalized :: bool
  checksum_saved :: bool
  is_initialized :: bool
  inc_digest_prev :: bytes
  has_update_bufvec :: bool

definition zero_ctx :: bytes where "zero_ctx = replicate 92 (CHR 0x00)"

definition md5_Reset :: "motr_pi \<Rightarrow> bool \<Rightarrow> MD5hash \<Rightarrow> MD5hash" where
  "md5_Reset calc call_init h =
     (let h1 = h\<lparr>md5_status := 0, inc_digest_prev := zero_ctx, has_update_bufvec := call_init\<rparr>;
          r = calc M0_PI_CALC_UNIT_ZERO zero_ctx None [];
          h2 = (if call_init
                then h1\<lparr>md5_status := po_rc r, inc_digest_prev := po_prev r, md5ctx := po_ctx r, is_initialized := True\<rparr>
                else h1)
      in h2\<lparr>is_finalized := False\<rparr>)"

definition MD5hash_init :: "motr_pi \<Rightarrow> bool \<Rightarrow> MD5hash" where
  "MD5hash_init calc call_init =
     md5_Reset calc call_init
       \<lparr>md5ctx = zero_ctx, md5ctx_pre_unaligned = zero_ctx, md5_digest = None, md5_status = 0, is_finalized = False,
        checksum_saved = False, is_initialized = False, inc_digest_prev = zero_ctx, has_update_bufvec = False\<rparr>"

definition save_motr_unit_checksum :: "bytes \<Rightarrow> MD5hash \<Rightarrow> MD5hash" where
  "save_motr_unit_checksum current_digest h = h\<lparr>md5ctx := current_digest, checksum_saved := True\<rparr>"

definition save_motr_unit_checksum_for_unaligned_bufs :: "bytes \<Rightarrow> MD5hash \<Rightarrow> MD5hash" where
  "save_motr_unit_checksum_for_unaligned_bufs current_digest h = h\<lparr>md5ctx_pre_unaligned := current_digest\<rparr>"

text \<open>A null input is \<open>None\<close>.  Without the allocation of \<open>Reset\<close> the buffer vector is null.\<close>

definition md5_Update :: "motr_pi \<Rightarrow> bytes option \<Rightarrow> MD5hash \<Rightarrow> (MD5hash \<times> int) option" where
  "md5_Update calc input h =
     (case input of
        None \<Rightarrow> Some (h, -1)
      | Some data \<Rightarrow>
          if md5_status h < 0 then Some (h, -1)
          else if \<not> has_update_bufvec h then None
          else (let r = calc M0_PI_SKIP_CALC_FINAL (md5ctx h) None [data];
                    h1 = h\<lparr>md5_status := po_rc r, md5ctx := po_ctx r\<rparr>
                in Some (h1, if po_rc r < 0 then -1 else 0)))"

text \<open>
  \<open>s3_calculate_unit_pi\<close>: \<open>first\<close> and \<open>seed\<close> are the two bits of \<open>s3_flag\<close>, \<open>entry\<close> is the element of
  the attribute vector, \<open>unit_data\<close> the buffers of the unit.  The result is the element filled
  in and the digest context.
\<close>

definition s3_calculate_unit_pi ::
  "motr_pi \<Rightarrow> bool \<Rightarrow> pi_seed option \<Rightarrow> bytes list \<Rightarrow> m0_generic_pi \<Rightarrow> MD5hash
   \<Rightarrow> (MD5hash \<times> m0_generic_pi \<times> bytes) option" where
  "s3_calculate_unit_pi calc first seed unit_data entry h =
     (let prev = (if \<not> first \<and> checksum_saved h then md5ctx h else pi_prev_context entry);
          r = calc (if first then M0_PI_CALC_UNIT_ZERO else M0_PI_NO_FLAG) prev seed unit_data;
          h1 = (if first then h\<lparr>is_initialized := True\<rparr> else h)
      in if po_rc r \<noteq> 0 then None
         else Some (save_motr_unit_checksum (po_ctx r) h1,
                    entry\<lparr>pi_prev_context := po_prev r, pi_value := po_value r\<rparr>, po_ctx r))"

definition s3_calculate_unaligned_buffs_pi ::
  "motr_pi \<Rightarrow> bool \<Rightarrow> bytes list \<Rightarrow> MD5hash \<Rightarrow> (MD5hash \<times> bytes) option" where
  "s3_calculate_unaligned_buffs_pi calc first unit_data h =
     (let prev = (if first then zero_ctx else md5ctx_pre_unaligned h);
          r = calc (if first then M0_PI_CALC_UNIT_ZERO else M0_PI_NO_FLAG) prev None unit_data;
          h1 = (if first then h\<lparr>is_initialized := True\<rparr> else h)
      in if po_rc r \<noteq> 0 then None
         else Some (h1\<lparr>md5_digest := Some (po_plain r), is_finalized := True\<rparr>, po_ctx r))"

definition md5_final_step :: "motr_pi \<Rightarrow> MD5hash \<Rightarrow> MD5hash \<times> int" where
  "md5_final_step calc h =
     (let r = calc M0_PI_SKIP_CALC_FINAL (md5ctx h) None [];
          h1 = h\<lparr>md5_status := po_rc r, inc_digest_prev := po_prev r, md5ctx := po_ctx r, md5_digest := Some (po_plain r)\<rparr>
      in if po_rc r < 0 then (h1, -1) else (h1\<lparr>is_finalized := True\<rparr>, 0))"

definition md5_Finalize :: "motr_pi \<Rightarrow> MD5hash \<Rightarrow> MD5hash \<times> int" where
  "md5_Finalize calc h =
     (if is_finalized h then (h, 0)
      else if is_initialized h then md5_final_step calc h
      else (let r = calc M0_PI_CALC_UNIT_ZERO (inc_digest_prev h) None [];
                h1 = h\<lparr>md5_status := po_rc r, inc_digest_prev := po_prev r, md5ctx := po_ctx r\<rparr>
            in if po_rc r < 0 then (h1, -1) else md5_final_step calc h1))"

definition md5_Finalized :: "MD5hash \<Rightarrow> MD5hash" where "md5_Finalized h = h\<lparr>is_finalized := True\<rparr>"

definition md5_Initialized :: "MD5hash \<Rightarrow> MD5hash" where "md5_Initialized h = h\<lparr>is_initialized := True\<rparr>"

text \<open>Two digits for every byte.\<close>

definition hex_byte :: "char \<Rightarrow> string" where
  "hex_byte c = (let ch = (of_char c :: nat) in [hex_digit (ch div 16), hex_digit (ch mod 16)])"

definition hex_string :: "bytes \<Rightarrow> string" where "hex_string bs = concat (map hex_byte bs)"

definition with_digest :: "motr_pi \<Rightarrow> (bytes \<Rightarrow> string) \<Rightarrow> MD5hash \<Rightarrow> (MD5hash \<times> string) option" where
  "with_digest calc f h =
     (let (h1, rc) = md5_Finalize calc h
      in if rc < 0 then Some (h1, []) else map_option (\<lambda>d. (h1, f d)) (md5_digest h1))"

definition get_md5_string :: "motr_pi \<Rightarrow> MD5hash \<Rightarrow> (MD5hash \<times> string) option" where
  "get_md5_string calc h = with_digest calc hex_string h"

definition get_md5_base64enc_string :: "motr_pi \<Rightarrow> MD5hash \<Rightarrow> (MD5hash \<times> string) option" where
  "get_md5_base64enc_string calc h = with_digest calc base64_encode h"

end
