(* ===== verification/Motr_Writer.thy ===== *)
theory Motr_Writer
  imports MD5_Hash
begin

text \<open>
  \<open>server/s3_motr_writer.cc\<close>: creation, writing and deletion of Motr objects.  A write takes a
  sequence of buffers, pads it to whole Motr units, gives every buffer its place in the object
  and computes the protection information of every unit and the running MD5 of the data.

  A buffer is its content, which fills the whole buffer, and the number of bytes that are
  data.  The Motr calls, the pool of buffers and the options read during one call are the record
  \<open>writer_env\<close>; what a call launches, posts or calls is the list it returns.  A failed
  assertion, a null pointer, a division by zero and an access outside an allocated vector are
  \<open>None\<close>.  Timers, logging and the sets of live contexts are left out.
\<close>

section \<open>State\<close>

datatype S3MotrWiterOpState =
    Wr_start | Wr_failed_to_launch | Wr_failed | Wr_creating | Wr_created | Wr_saved | Wr_writing
  | Wr_deleting | Wr_deleted | Wr_success | Wr_exists | Wr_missing

type_synonym S3BufferSequence = "(bytes \<times> size_t) list"

record S3MotrWiter =
  w_oid_list :: "m0_uint128 list"
  w_layout_ids :: "32 word list"
  w_pv_ids :: "m0_fid list"
  w_state :: S3MotrWiterOpState
  w_content_md5 :: string
  w_last_index :: size_t
  w_size_in_current_write :: size_t
  w_motr_unit_size :: size_t
  w_total_written :: size_t
  w_is_object_opened :: bool
  w_is_first_write_part_segment :: bool
  w_obj_ctx :: "m0_fid list option"
  w_place_holder :: "bytes option"
  w_last_op_was_write :: bool
  w_di_check :: bool
  w_unit_size_for_place_holder :: int
  w_buffer_sequence :: S3BufferSequence
  w_size_of_each_buf :: size_t
  w_corrupt_fill_zero :: bool
  w_md5 :: MD5hash
  w_writer_context :: "S3AsyncOpContextBase option"
  w_delete_context :: "S3AsyncOpContextBase option"

text \<open>
  \<open>we_entity_open i\<close> and \<open>we_entity_delete i\<close> are the return codes for the \<open>i\<close>th object of a launch;
  \<open>we_placeholder\<close> is the buffer the pool gives for padding, \<open>None\<close> when it is exhausted.
\<close>

record writer_env =
  we_layouts :: S3MotrLayoutMap
  we_pi :: motr_pi
  we_pi_md5 :: bool
  we_pool_buffer_size :: int
  we_placeholder :: "bytes option"
  we_rw_op_ctx :: bool
  we_entity_create :: int
  we_entity_open :: "nat \<Rightarrow> int"
  we_entity_delete :: "nat \<Rightarrow> int"
  we_obj_op :: int
  we_corrupt_on_write :: bool
  we_teardown_called :: bool

datatype writer_out =
    Create_object m0_uint128
  | Open_objects "m0_uint128 list"
  | Write_object "(size_t \<times> size_t) list" "bytes list" "m0_generic_pi list option"
  | Delete_objects "m0_uint128 list"
  | Release_place_holder int
  | Writer_on_success
  | Writer_on_failed
  | Post_create_failed int
  | Post_writer_open_failed int
  | Post_write_failed int
  | Post_delete_failed int

text \<open>\<open>uri_oid\<close> is the id that \<open>S3UriToMotrOID\<close> makes from the name of the request.\<close>

definition S3MotrWiter_init :: "motr_pi \<Rightarrow> bool \<Rightarrow> m0_uint128 \<Rightarrow> S3MotrWiter" where
  "S3MotrWiter_init calc di uri_oid =
     \<lparr>w_oid_list = [uri_oid], w_layout_ids = [], w_pv_ids = [], w_state = Wr_start, w_content_md5 = [],
      w_last_index = 0, w_size_in_current_write = 0, w_motr_unit_size = 0, w_total_written = 0,
      w_is_object_opened = False, w_is_first_write_part_segment = False, w_obj_ctx = None, w_place_holder = None,
      w_last_op_was_write = False, w_di_check = di, w_unit_size_for_place_holder = -1, w_buffer_sequence = [],
      w_size_of_each_buf = 0, w_corrupt_fill_zero = False, w_md5 = MD5hash_init calc False,
      w_writer_context = None, w_delete_context = None\<rparr>"

definition S3MotrWiter_init_at :: "motr_pi \<Rightarrow> bool \<Rightarrow> m0_uint128 \<Rightarrow> m0_fid \<Rightarrow> size_t \<Rightarrow> S3MotrWiter" where
  "S3MotrWiter_init_at calc di object_id pv_id offset =
     (S3MotrWiter_init calc di object_id)\<lparr>w_pv_ids := [pv_id], w_last_index := offset\<rparr>"

definition reset_buffers_if_any :: "int \<Rightarrow> S3MotrWiter \<Rightarrow> S3MotrWiter \<times> writer_out list" where
  "reset_buffers_if_any buf_unit_sz w =
     (if w_place_holder w \<noteq> None \<and> w_last_op_was_write w \<and> buf_unit_sz \<noteq> -1
      then (w\<lparr>w_place_holder := None\<rparr>, [Release_place_holder buf_unit_sz]) else (w, []))"

definition clean_up_contexts :: "writer_env \<Rightarrow> S3MotrWiter \<Rightarrow> S3MotrWiter" where
  "clean_up_contexts env w =
     (let w1 = w\<lparr>w_writer_context := None, w_delete_context := None\<rparr>
      in if we_teardown_called env then w1 else w1\<lparr>w_obj_ctx := None\<rparr>)"

definition S3MotrWiter_destroy :: "writer_env \<Rightarrow> S3MotrWiter \<Rightarrow> S3MotrWiter \<times> writer_out list" where
  "S3MotrWiter_destroy env w =
     (let (w1, outs) = reset_buffers_if_any (w_unit_size_for_place_holder w) w in (clean_up_contexts env w1, outs))"

definition set_oid :: "m0_uint128 \<Rightarrow> S3MotrWiter \<Rightarrow> S3MotrWiter" where
  "set_oid i w = w\<lparr>w_is_object_opened := False, w_oid_list := [i]\<rparr>"

definition set_layout_id :: "32 word \<Rightarrow> S3MotrWiter \<Rightarrow> S3MotrWiter" where
  "set_layout_id i w = w\<lparr>w_layout_ids := [i]\<rparr>"

definition first_write_part_request :: "bool \<Rightarrow> S3MotrWiter \<Rightarrow> S3MotrWiter" where
  "first_write_part_request b w = w\<lparr>w_is_first_write_part_segment := b\<rparr>"

definition get_oid :: "S3MotrWiter \<Rightarrow> m0_uint128 option" where
  "get_oid w = (case w_oid_list w of [i] \<Rightarrow> Some i | _ \<Rightarrow> None)"

definition get_layout_id :: "S3MotrWiter \<Rightarrow> (32 word) option" where
  "get_layout_id w = (case w_layout_ids w of [i] \<Rightarrow> Some i | _ \<Rightarrow> None)"

definition get_ppvid :: "S3MotrWiter \<Rightarrow> m0_fid option" where
  "get_ppvid w = (case w_obj_ctx w of Some (p # _) \<Rightarrow> Some p | _ \<Rightarrow> None)"

section \<open>Opening\<close>

text \<open>
  The objects are opened in order until one cannot be launched.  The pool version of an object
  is set once its launch was accepted; those not reached keep the zero they were allocated
  with.  \<open>get_ppvid\<close> sees the objects that were initialised, which includes the one that failed.
\<close>

definition zero_fid :: m0_fid where "zero_fid = \<lparr>f_container = 0, f_key = 0\<rparr>"

fun open_loop :: "(nat \<Rightarrow> int) \<Rightarrow> nat \<Rightarrow> m0_fid list \<Rightarrow> m0_fid list \<times> int" where
  "open_loop rc i [] = ([], 0)"
| "open_loop rc i (p # ps) =
     (if rc i \<noteq> 0 then ([zero_fid], rc i) else (let (qs, r) = open_loop rc (Suc i) ps in (p # qs, r)))"

definition open_objects :: "writer_env \<Rightarrow> S3MotrWiter \<Rightarrow> (S3MotrWiter \<times> writer_out list \<times> int) option" where
  "open_objects env w =
     (let w1 = w\<lparr>w_is_object_opened := False\<rparr>;
          w2 = (if w_obj_ctx w1 \<noteq> None then clean_up_contexts env w1 else w1);
          n = length (w_oid_list w2)
      in if length (w_layout_ids w2) \<noteq> n \<or> length (w_pv_ids w2) \<noteq> n then None
         else (let (pvers, rc) = open_loop (we_entity_open env) 0 (w_pv_ids w2);
                   w3 = w2\<lparr>w_obj_ctx := Some pvers\<rparr>
               in if rc \<noteq> 0 then Some (w3\<lparr>w_state := Wr_failed_to_launch\<rparr>, [Post_writer_open_failed rc], rc)
                  else Some (w3, [Open_objects (w_oid_list w3)], 0)))"

text \<open>\<open>all_missing\<close>: every reply of the launch was that the object does not exist.\<close>

definition all_missing :: "S3AsyncOpContextBase \<Rightarrow> S3MotrWiter \<Rightarrow> bool" where
  "all_missing ctx w = list_all (\<lambda>i. get_errno_for (int i) ctx = - ENOENT) [0..<length (w_oid_list w)]"

definition open_objects_failed :: "S3AsyncOpContextBase \<Rightarrow> S3MotrWiter \<Rightarrow> S3MotrWiter \<times> writer_out list" where
  "open_objects_failed ctx w =
     (w\<lparr>w_is_object_opened := False,
        w_state := (if w_state w = Wr_failed_to_launch then Wr_failed_to_launch
                    else if all_missing ctx w then Wr_missing else Wr_failed)\<rparr>, [Writer_on_failed])"

section \<open>Creation\<close>

text \<open>The buffer that padded the last write goes back to the pool before the writer is used for another object.\<close>

definition release_before_reuse :: "S3MotrWiter \<Rightarrow> S3MotrWiter \<times> writer_out list" where
  "release_before_reuse w =
     (let (w1, outs) = (if w_last_op_was_write w \<and> w_layout_ids w \<noteq> []
                        then reset_buffers_if_any (w_unit_size_for_place_holder w) w else (w, []))
      in (w1\<lparr>w_last_op_was_write := False\<rparr>, outs))"

definition create_object :: "writer_env \<Rightarrow> m0_uint128 \<Rightarrow> 32 word \<Rightarrow> S3MotrWiter \<Rightarrow> S3MotrWiter \<times> writer_out list" where
  "create_object env object_id layoutid w =
     (let (w1, outs) = release_before_reuse w;
          w2 = set_layout_id layoutid (set_oid object_id w1);
          w3 = (if w_obj_ctx w2 \<noteq> None then clean_up_contexts env w2 else w2)\<lparr>w_obj_ctx := Some [zero_fid]\<rparr>
      in if we_entity_create env \<noteq> 0
         then (w3\<lparr>w_state := Wr_failed_to_launch\<rparr>, outs @ [Post_create_failed (we_entity_create env)])
         else (w3\<lparr>w_state := Wr_creating\<rparr>, outs @ [Create_object object_id]))"

text \<open>Motr gives the pool version of the new object.\<close>

definition create_object_successful :: "m0_fid \<Rightarrow> S3MotrWiter \<Rightarrow> (S3MotrWiter \<times> writer_out list) option" where
  "create_object_successful pver' w =
     (case w_obj_ctx w of
        Some (_ # ps) \<Rightarrow> Some (w\<lparr>w_is_object_opened := True, w_state := Wr_created, w_obj_ctx := Some (pver' # ps)\<rparr>, [Writer_on_success])
      | _ \<Rightarrow> None)"

definition create_object_failed :: "S3AsyncOpContextBase \<Rightarrow> S3MotrWiter \<Rightarrow> S3MotrWiter \<times> writer_out list" where
  "create_object_failed ctx w =
     (w\<lparr>w_is_object_opened := False,
        w_state := (if w_state w = Wr_failed_to_launch then Wr_failed_to_launch
                    else if get_errno_for 0 ctx = - EEXIST then Wr_exists else Wr_failed)\<rparr>, [Writer_on_failed])"

section \<open>The buffers of one write\<close>

text \<open>
  The vectors of \<open>s3_motr_rw_op_context\<close> and the variables of \<open>set_up_motr_data_buffers\<close>.  The
  data vector and the index vector are filled from the front, so \<open>buf_idx\<close> is their length;
  \<open>wx_pi\<close> is the vector of the buffers of one unit.
\<close>

record write_ctx =
  wx_buf_count :: nat
  wx_data :: "bytes list"
  wx_ext :: "(size_t \<times> size_t) list"
  wx_attr :: "m0_generic_pi list"
  wx_pi :: "(bytes \<times> size_t) list"
  wl_saved_last_index :: size_t
  wl_initial_part :: bool
  wl_first_unit :: bool
  wl_seed_unit :: bool
  wl_chksum_buf_idx :: nat
  wl_unaligned_buf_idx_offset :: nat
  wl_pi_idx :: nat
  wl_at_unit_boundary :: bool

definition rw_op_ctx :: "bool \<Rightarrow> nat \<Rightarrow> nat \<Rightarrow> S3MotrWiter \<Rightarrow> write_ctx" where
  "rw_op_ctx pi_md5 motr_buf_count buffers_per_unit w =
     \<lparr>wx_buf_count = motr_buf_count, wx_data = [], wx_ext = [],
      wx_attr = replicate (motr_buf_count div buffers_per_unit)
                  \<lparr>pi_is_md5_inc_context = pi_md5, pi_prev_context = zero_ctx, pi_value = replicate 16 (CHR 0x00)\<rparr>,
      wx_pi = replicate buffers_per_unit (replicate 8 (CHR 0x00), 8),
      wl_saved_last_index = w_last_index w, wl_initial_part = w_is_first_write_part_segment w,
      wl_first_unit = False, wl_seed_unit = False, wl_chksum_buf_idx = 0, wl_unaligned_buf_idx_offset = 0,
      wl_pi_idx = 0, wl_at_unit_boundary = False\<rparr>"

definition add_buffer_to_motr_structures :: "bytes \<Rightarrow> S3MotrWiter \<times> write_ctx \<Rightarrow> (S3MotrWiter \<times> write_ctx) option" where
  "add_buffer_to_motr_structures buf = (\<lambda>(w, c).
     let sz = w_size_of_each_buf w in
     if wx_buf_count c \<le> length (wx_data c) \<or> length (wx_pi c) \<le> wl_pi_idx c then None
     else Some (w\<lparr>w_last_index := w_last_index w + sz\<rparr>,
                c\<lparr>wx_data := wx_data c @ [buf], wx_ext := wx_ext c @ [(w_last_index w, sz)],
                  wx_pi := (wx_pi c)[wl_pi_idx c := (buf, sz)], wl_pi_idx := Suc (wl_pi_idx c)\<rparr>))"

definition pi_buffers :: "nat \<Rightarrow> write_ctx \<Rightarrow> bytes list" where
  "pi_buffers n c = map (\<lambda>(b, len). take (unat len) b) (take n (wx_pi c))"

text \<open>The seed holds the place of the unit in the object, when the unit gets one.\<close>

definition calc_unit_pi :: "motr_pi \<Rightarrow> S3MotrWiter \<times> write_ctx \<Rightarrow> (S3MotrWiter \<times> write_ctx) option" where
  "calc_unit_pi calc = (\<lambda>(w, c).
     let seed_unit = wl_seed_unit c \<or> w_di_check w; k = wl_chksum_buf_idx c in
     if length (wx_attr c) \<le> k then None
     else case w_oid_list w of
            [] \<Rightarrow> None
          | i # _ \<Rightarrow>
              map_option (\<lambda>(h, entry, _). (w\<lparr>w_md5 := h\<rparr>,
                   c\<lparr>wx_attr := (wx_attr c)[k := entry], wl_seed_unit := seed_unit, wl_chksum_buf_idx := Suc k\<rparr>))
                (s3_calculate_unit_pi calc (wl_first_unit c)
                   (if seed_unit then Some (wl_saved_last_index c, i) else None)
                   (pi_buffers (length (wx_pi c)) c) (wx_attr c ! k) (w_md5 w)))"

definition calc_final_pi :: "motr_pi \<Rightarrow> nat \<Rightarrow> S3MotrWiter \<times> write_ctx \<Rightarrow> (S3MotrWiter \<times> write_ctx) option" where
  "calc_final_pi calc v_nr = (\<lambda>(w, c).
     map_option (\<lambda>(h, _). (w\<lparr>w_md5 := h\<rparr>, c))
       (s3_calculate_unaligned_buffs_pi calc (wl_first_unit c) (pi_buffers v_nr c) (w_md5 w)))"

text \<open>\<open>v_nr\<close> is the number of buffers that a finalizing call takes into account.\<close>

definition calc_pi_info ::
  "motr_pi \<Rightarrow> bool \<Rightarrow> bool \<Rightarrow> bool \<Rightarrow> nat \<Rightarrow> S3MotrWiter \<times> write_ctx \<Rightarrow> (S3MotrWiter \<times> write_ctx) option" where
  "calc_pi_info calc reset_initial_buffers is_called_for_unaligned_buffers is_finalize_call v_nr = (\<lambda>(w, c).
     let ini = (wl_saved_last_index c = 0 \<or> wl_initial_part c);
         c1 = c\<lparr>wl_first_unit := (wl_first_unit c \<or> ini), wl_initial_part := (wl_initial_part c \<and> \<not> reset_initial_buffers)\<rparr>
     in map_option (\<lambda>(w1, c2).
          (w1, if is_called_for_unaligned_buffers then c2
               else c2\<lparr>wl_saved_last_index := w_last_index w1, wl_pi_idx := 0,
                       wl_unaligned_buf_idx_offset := length (wx_data c2), wl_first_unit := False,
                       wl_at_unit_boundary := True\<rparr>))
          (if is_finalize_call then calc_final_pi calc v_nr (w, c1) else calc_unit_pi calc (w, c1)))"

text \<open>One buffer of data: it joins the vectors, and at the end of a unit the unit's checksum is computed.\<close>

definition feed_buffer :: "motr_pi \<Rightarrow> bytes \<times> size_t \<Rightarrow> S3MotrWiter \<times> write_ctx \<Rightarrow> (S3MotrWiter \<times> write_ctx) option" where
  "feed_buffer calc b = (\<lambda>(w, c).
     add_buffer_to_motr_structures (fst b) (w, c\<lparr>wl_at_unit_boundary := False\<rparr>) \<bind> (\<lambda>(w1, c1).
       let w2 = w1\<lparr>w_size_in_current_write := w_size_in_current_write w1 + snd b\<rparr>
       in if w_motr_unit_size w2 = 0 then None
          else if w_size_in_current_write w2 mod w_motr_unit_size w2 = 0
          then calc_pi_info calc True False False 0 (w2, c1) else Some (w2, c1)))"

fun feed_buffers :: "motr_pi \<Rightarrow> S3BufferSequence \<Rightarrow> S3MotrWiter \<times> write_ctx \<Rightarrow> (S3MotrWiter \<times> write_ctx) option" where
  "feed_buffers calc [] s = Some s"
| "feed_buffers calc (b # bs) s = feed_buffer calc b s \<bind> feed_buffers calc bs"

definition find_and_allocate_placeholder_for_data_alignment ::
  "writer_env \<Rightarrow> S3MotrWiter \<times> write_ctx \<Rightarrow> (S3MotrWiter \<times> write_ctx) \<times> writer_out list" where
  "find_and_allocate_placeholder_for_data_alignment env = (\<lambda>(w, c).
     if length (wx_data c) < wx_buf_count c
     then (let (w1, outs) = reset_buffers_if_any (we_pool_buffer_size env) (w\<lparr>w_unit_size_for_place_holder := we_pool_buffer_size env\<rparr>)
           in ((w1\<lparr>w_place_holder := we_placeholder env\<rparr>, c), outs))
     else ((w, c), []))"

fun pad_loop :: "nat \<Rightarrow> S3MotrWiter \<times> write_ctx \<Rightarrow> (S3MotrWiter \<times> write_ctx) option" where
  "pad_loop 0 s = Some s"
| "pad_loop (Suc n) (w, c) =
     (case w_place_holder w of
        None \<Rightarrow> None
      | Some buf \<Rightarrow> add_buffer_to_motr_structures buf (w, c) \<bind> pad_loop n)"

definition align_data_to_motr_unit_size :: "S3MotrWiter \<times> write_ctx \<Rightarrow> (S3MotrWiter \<times> write_ctx) option" where
  "align_data_to_motr_unit_size s = pad_loop (wx_buf_count (snd s) - length (wx_data (snd s))) s"

definition save_for_unaligned :: "S3MotrWiter \<Rightarrow> S3MotrWiter" where
  "save_for_unaligned w =
     (if checksum_saved (w_md5 w)
      then w\<lparr>w_md5 := save_motr_unit_checksum_for_unaligned_bufs (md5ctx (w_md5 w)) (w_md5 w)\<rparr> else w)"

text \<open>What follows the loop over the data; \<open>len_in_buf\<close> is the number of data bytes in the last buffer.\<close>

definition finish_set_up ::
  "writer_env \<Rightarrow> size_t \<Rightarrow> S3MotrWiter \<times> write_ctx \<Rightarrow> ((S3MotrWiter \<times> write_ctx) \<times> writer_out list) option" where
  "finish_set_up env len_in_buf = (\<lambda>(w, c).
     let number_of_unit_unaligned = length (wx_data c) - wl_unaligned_buf_idx_offset c;
         last_idx = (if number_of_unit_unaligned \<noteq> 0 then wl_pi_idx c - 1 else 0);
         (s1, outs) = find_and_allocate_placeholder_for_data_alignment env (save_for_unaligned w, c)
     in align_data_to_motr_unit_size s1 \<bind> (\<lambda>(w2, c2).
          (if w_di_check w2 \<and> number_of_unit_unaligned \<noteq> 0
           then calc_pi_info (we_pi env) False True False 0 (w2, c2\<lparr>wl_first_unit := False, wl_seed_unit := True\<rparr>)
           else Some (w2, c2)) \<bind> (\<lambda>(w3, c3).
          if length (wx_data c3) \<noteq> wx_buf_count c3 then None
          else if \<not> wl_at_unit_boundary c3 \<or> len_in_buf \<noteq> w_size_of_each_buf w3
          then (if length (wx_pi c3) \<le> last_idx then None
                else map_option (\<lambda>s. (s, outs))
                       (calc_pi_info (we_pi env) False True True (Suc last_idx)
                          (w3, c3\<lparr>wl_first_unit := False, wl_seed_unit := False,
                                  wx_pi := (wx_pi c3)[last_idx := (fst (wx_pi c3 ! last_idx), len_in_buf)]\<rparr>)))
          else Some ((w3, c3), outs))))"

definition set_up_motr_data_buffers ::
  "writer_env \<Rightarrow> S3BufferSequence \<Rightarrow> S3MotrWiter \<times> write_ctx \<Rightarrow> ((S3MotrWiter \<times> write_ctx) \<times> writer_out list) option" where
  "set_up_motr_data_buffers env bs = (\<lambda>(w, c).
     feed_buffers (we_pi env) bs (w\<lparr>w_size_in_current_write := 0\<rparr>, c)
       \<bind> finish_set_up env (if bs = [] then 0 else snd (last bs)))"

section \<open>Writing\<close>

text \<open>The fault injection of the data integrity tests, after the checksums were computed.\<close>

definition corrupt_on_write :: "S3MotrWiter \<times> write_ctx \<Rightarrow> S3MotrWiter \<times> write_ctx" where
  "corrupt_on_write = (\<lambda>(w, c).
     let at_0 = (case wx_ext c of (i, _) # _ \<Rightarrow> i = 0 | [] \<Rightarrow> False);
         ch = (case wx_data c of (x # _) # _ \<Rightarrow> Some x | _ \<Rightarrow> None);
         zero = w_corrupt_fill_zero w \<or> at_0 \<and> ch = Some (CHR ''z'');
         data1 = (if at_0 \<and> ch = Some (CHR ''f'') then (CHR 0x00 # tl (hd (wx_data c))) # tl (wx_data c) else wx_data c);
         data2 = (if zero then map (\<lambda>b. replicate (length b) (CHR 0x00)) data1 else data1)
     in (w\<lparr>w_corrupt_fill_zero := zero\<rparr>, c\<lparr>wx_data := data2\<rparr>))"

definition buffers_per_unit :: "size_t \<Rightarrow> size_t \<Rightarrow> nat" where
  "buffers_per_unit unit sz = (let n = unat (unit div sz) in if n = 0 then 1 else n)"

definition padded_count :: "nat \<Rightarrow> nat \<Rightarrow> nat" where
  "padded_count per_unit n =
     (if per_unit > 1 \<and> n mod per_unit > 0 then n + (per_unit - n mod per_unit) else n)"

definition launch_write :: "writer_env \<Rightarrow> S3MotrWiter \<times> write_ctx \<Rightarrow> S3MotrWiter \<times> writer_out list" where
  "launch_write env = (\<lambda>(w, c).
     if we_obj_op env \<noteq> 0 then (w\<lparr>w_state := Wr_failed_to_launch\<rparr>, [Post_write_failed (we_obj_op env)])
     else (w, [Write_object (wx_ext c) (wx_data c) (if w_di_check w then Some (wx_attr c) else None)]))"

definition write_opened :: "writer_env \<Rightarrow> S3MotrWiter \<Rightarrow> (S3MotrWiter \<times> writer_out list) option" where
  "write_opened env w =
     (case w_layout_ids w of
        [] \<Rightarrow> None
      | lid # _ \<Rightarrow>
          (let unit = get_unit_size_for_layout (we_layouts env) lid;
               per_unit = buffers_per_unit unit (w_size_of_each_buf w);
               count = padded_count per_unit (length (w_buffer_sequence w));
               w1 = w\<lparr>w_motr_unit_size := unit, w_writer_context := Some (S3AsyncOpContextBase_init 1), w_buffer_sequence := []\<rparr>
           in if \<not> w_is_object_opened w \<or> w_size_of_each_buf w = 0 \<or> \<not> we_rw_op_ctx env then None
              else set_up_motr_data_buffers env (w_buffer_sequence w) (w1, rw_op_ctx (we_pi_md5 env) count per_unit w1)
                     \<bind> (\<lambda>(s, outs).
                       let (w2, c2) = (if we_corrupt_on_write env then corrupt_on_write s else s);
                           (w3, outs3) = launch_write env (w2\<lparr>w_last_op_was_write := True\<rparr>, c2)
                       in Some (w3, outs @ outs3))))"

definition write_content :: "writer_env \<Rightarrow> S3BufferSequence \<Rightarrow> size_t \<Rightarrow> S3MotrWiter \<Rightarrow> (S3MotrWiter \<times> writer_out list) option" where
  "write_content env bs size_of_each_buf w =
     (if w_layout_ids w = [] \<or> bs = [] \<or> unat size_of_each_buf mod 4096 \<noteq> 0
         \<or> \<not> list_all (\<lambda>b. snd b = size_of_each_buf) (butlast bs) \<or> length (w_oid_list w) \<noteq> 1 then None
      else (let w1 = w\<lparr>w_buffer_sequence := bs, w_size_of_each_buf := size_of_each_buf, w_state := Wr_writing\<rparr>
            in if w_is_object_opened w1 then write_opened env w1
               else map_option (\<lambda>(w2, outs, _). (w2, outs)) (open_objects env w1)))"

definition write_content_successful :: "S3MotrWiter \<Rightarrow> S3MotrWiter \<times> writer_out list" where
  "write_content_successful w =
     (w\<lparr>w_total_written := w_total_written w + w_size_in_current_write w, w_state := Wr_saved\<rparr>, [Writer_on_success])"

text \<open>A failed launch is recorded as an ordinary failure.\<close>

definition write_content_failed :: "S3AsyncOpContextBase \<Rightarrow> S3MotrWiter \<Rightarrow> S3MotrWiter \<times> writer_out list" where
  "write_content_failed ctx w = (w\<lparr>w_state := Wr_failed, w_writer_context := Some ctx\<rparr>, [Writer_on_failed])"

section \<open>Deletion\<close>

fun delete_loop :: "(nat \<Rightarrow> int) \<Rightarrow> nat \<Rightarrow> nat \<Rightarrow> int" where
  "delete_loop rc i 0 = 0"
| "delete_loop rc i (Suc n) = (if rc i \<noteq> 0 then rc i else delete_loop rc (Suc i) n)"

definition delete_opened :: "writer_env \<Rightarrow> S3MotrWiter \<Rightarrow> (S3MotrWiter \<times> writer_out list) option" where
  "delete_opened env w =
     (let n = length (w_oid_list w); rc = delete_loop (we_entity_delete env) 0 n;
          w1 = w\<lparr>w_delete_context := Some (S3AsyncOpContextBase_init n)\<rparr>
      in case w_obj_ctx w of
           None \<Rightarrow> None
         | Some ps \<Rightarrow>
             if \<not> w_is_object_opened w \<or> length ps < n \<or> length (w_pv_ids w) < n then None
             else if rc \<noteq> 0 then Some (w1\<lparr>w_state := Wr_failed_to_launch\<rparr>, [Post_delete_failed rc])
             else Some (w1\<lparr>w_obj_ctx := Some (take n (w_pv_ids w) @ drop n ps)\<rparr>, [Delete_objects (w_oid_list w)]))"

definition delete_object :: "writer_env \<Rightarrow> m0_uint128 \<Rightarrow> 32 word \<Rightarrow> m0_fid \<Rightarrow> S3MotrWiter \<Rightarrow> (S3MotrWiter \<times> writer_out list) option" where
  "delete_object env object_id layoutid pv_id w =
     (let (w1, outs) = release_before_reuse w;
          w2 = (set_layout_id layoutid (set_oid object_id w1))\<lparr>w_pv_ids := [pv_id], w_state := Wr_deleting\<rparr>
      in if w_is_object_opened w2 then map_option (\<lambda>(w3, outs3). (w3, outs @ outs3)) (delete_opened env w2)
         else map_option (\<lambda>(w3, outs3, _). (w3, outs @ outs3)) (open_objects env w2))"

definition delete_objects_list ::
  "writer_env \<Rightarrow> m0_uint128 list \<Rightarrow> 32 word list \<Rightarrow> m0_fid list \<Rightarrow> S3MotrWiter \<Rightarrow> (S3MotrWiter \<times> writer_out list) option" where
  "delete_objects_list env oids layoutids pvids w =
     map_option (\<lambda>(w1, outs, _). (w1, outs))
       (open_objects env (w\<lparr>w_oid_list := oids, w_layout_ids := layoutids, w_pv_ids := pvids, w_state := Wr_deleting\<rparr>))"

definition delete_objects_successful :: "S3MotrWiter \<Rightarrow> S3MotrWiter \<times> writer_out list" where
  "delete_objects_successful w = (w\<lparr>w_state := Wr_deleted\<rparr>, [Writer_on_success])"

definition delete_objects_failed :: "S3AsyncOpContextBase \<Rightarrow> S3MotrWiter \<Rightarrow> S3MotrWiter \<times> writer_out list" where
  "delete_objects_failed ctx w =
     (w\<lparr>w_delete_context := Some ctx,
        w_state := (if w_state w = Wr_failed_to_launch then Wr_failed_to_launch
                    else if all_missing ctx w then Wr_missing else Wr_failed)\<rparr>, [Writer_on_failed])"

definition open_objects_successful :: "writer_env \<Rightarrow> S3MotrWiter \<Rightarrow> (S3MotrWiter \<times> writer_out list) option" where
  "open_objects_successful env w =
     (let w1 = w\<lparr>w_is_object_opened := True\<rparr>
      in case w_state w1 of
           Wr_writing \<Rightarrow> write_opened env w1
         | Wr_deleting \<Rightarrow> delete_opened env w1
         | _ \<Rightarrow> Some (w1, []))"

section \<open>Results\<close>

definition get_op_ret_code_for :: "int \<Rightarrow> S3MotrWiter \<Rightarrow> int" where
  "get_op_ret_code_for index w = (case w_writer_context w of None \<Rightarrow> - ENOENT | Some ctx \<Rightarrow> get_errno_for index ctx)"

definition get_op_ret_code_for_delete_op :: "int \<Rightarrow> S3MotrWiter \<Rightarrow> int" where
  "get_op_ret_code_for_delete_op index w = (case w_delete_context w of None \<Rightarrow> - ENOENT | Some ctx \<Rightarrow> get_errno_for index ctx)"

definition get_content_md5 :: "motr_pi \<Rightarrow> S3MotrWiter \<Rightarrow> (S3MotrWiter \<times> string) option" where
  "get_content_md5 calc w =
     (if w_content_md5 w \<noteq> [] then Some (w, w_content_md5 w)
      else map_option (\<lambda>(h, s). (w\<lparr>w_md5 := h, w_content_md5 := s\<rparr>, s))
             (get_md5_string calc (fst (md5_Finalize calc (w_md5 w)))))"

definition content_md5_matches :: "motr_pi \<Rightarrow> string \<Rightarrow> S3MotrWiter \<Rightarrow> (S3MotrWiter \<times> bool) option" where
  "content_md5_matches calc md5_base64 w =
     map_option (\<lambda>(h, s). (w\<lparr>w_md5 := h\<rparr>, s = md5_base64)) (get_md5_base64enc_string calc (w_md5 w))"

end
