(* ===== verification/Writer_Data.thy ===== *)
theory Writer_Data
  imports Motr_Writer
begin

text \<open>
  What the writer of \<open>Motr_Writer\<close> makes of a sequence of writes: where the data goes, the
  protection information of the units, and the MD5 that becomes the ETag.

  \<open>incremental_md5\<close> is what the code relies on of Motr's \<open>m0_client_calculate_pi\<close>: it continues the
  context it is given, or a new one for the first unit, over the buffers; it adds the seed only to
  the value that is stored.  MD5 itself is given by its three functions.
\<close>

definition incremental_md5 ::
  "bytes \<Rightarrow> (bytes \<Rightarrow> bytes \<Rightarrow> bytes) \<Rightarrow> (bytes \<Rightarrow> bytes) \<Rightarrow> (pi_seed \<Rightarrow> bytes) \<Rightarrow> motr_pi \<Rightarrow> bool" where
  "incremental_md5 MD5_Init MD5_Update MD5_Final seed_str calc \<longleftrightarrow>
     (\<forall>ctx a b. MD5_Update (MD5_Update ctx a) b = MD5_Update ctx (a @ b)) \<and> (\<forall>ctx. MD5_Update ctx [] = ctx)
     \<and> (\<forall>flag prev seed bufs.
          let p = (if flag = M0_PI_CALC_UNIT_ZERO then MD5_Init else prev);
              ctx = foldl MD5_Update p bufs;
              r = calc flag prev seed bufs
          in po_rc r = 0 \<and> po_prev r = p \<and> po_ctx r = ctx \<and> po_plain r = MD5_Final ctx
             \<and> (flag \<noteq> M0_PI_SKIP_CALC_FINAL \<longrightarrow>
                  po_value r = MD5_Final (case seed of None \<Rightarrow> ctx | Some s \<Rightarrow> MD5_Update ctx (seed_str s))))"

text \<open>A sequence of writes to an opened object, each of which Motr completes.\<close>

fun write_run :: "writer_env \<Rightarrow> size_t \<Rightarrow> S3BufferSequence list \<Rightarrow> S3MotrWiter \<Rightarrow> (S3MotrWiter \<times> writer_out list) option" where
  "write_run env sz [] w = Some (w, [])"
| "write_run env sz (bs # bss) w =
     write_content env bs sz w \<bind> (\<lambda>(w1, outs1).
       map_option (\<lambda>(w3, outs3). (w3, outs1 @ outs3)) (write_run env sz bss (fst (write_content_successful w1))))"

definition buffer_data :: "S3BufferSequence \<Rightarrow> bytes" where
  "buffer_data bs = concat (map (\<lambda>(b, len). take (unat len) b) bs)"

text \<open>
  What a client of the writer hands over: full buffers and whole units, except at the end of the
  last write.  \<open>B\<close> is the size of a buffer, \<open>k\<close> the number of buffers in a unit.
\<close>

definition full_buffers :: "nat \<Rightarrow> S3BufferSequence \<Rightarrow> bool" where
  "full_buffers B bs = list_all (\<lambda>(b, len). length b = B \<and> unat len = B) bs"

definition last_write_ok :: "nat \<Rightarrow> S3BufferSequence \<Rightarrow> bool" where
  "last_write_ok B bs \<longleftrightarrow> bs \<noteq> [] \<and> full_buffers B (butlast bs)
     \<and> length (fst (last bs)) = B \<and> 0 < unat (snd (last bs)) \<and> unat (snd (last bs)) \<le> B"

definition unit_write_ok :: "nat \<Rightarrow> nat \<Rightarrow> S3BufferSequence \<Rightarrow> bool" where
  "unit_write_ok B k bs \<longleftrightarrow> bs \<noteq> [] \<and> full_buffers B bs \<and> length bs mod k = 0"

definition writes_ok :: "nat \<Rightarrow> nat \<Rightarrow> S3BufferSequence list \<Rightarrow> bool" where
  "writes_ok B k bss \<longleftrightarrow> bss \<noteq> [] \<and> list_all (unit_write_ok B k) (butlast bss) \<and> last_write_ok B (last bss)"

text \<open>The unit is a number of whole buffers; memory is available and the write is launched.\<close>

definition write_env_ok :: "writer_env \<Rightarrow> 32 word \<Rightarrow> size_t \<Rightarrow> nat \<Rightarrow> bool" where
  "write_env_ok env lid sz k \<longleftrightarrow>
     unat (get_unit_size_for_layout (we_layouts env) lid) = k * unat sz \<and> 0 < k \<and> 0 < unat sz \<and> unat sz mod 4096 = 0
     \<and> we_pi_md5 env \<and> we_rw_op_ctx env \<and> we_obj_op env = 0 \<and> \<not> we_corrupt_on_write env
     \<and> (\<exists>p. we_placeholder env = Some p \<and> length p = unat sz)"

definition object_created :: "32 word \<Rightarrow> m0_uint128 \<Rightarrow> S3MotrWiter \<Rightarrow> bool" where
  "object_created lid i w \<longleftrightarrow> w_is_object_opened w \<and> w_layout_ids w = [lid] \<and> w_oid_list w = [i]
     \<and> \<not> w_is_first_write_part_segment w \<and> w_content_md5 w = []"

text \<open>The reader's digest function is Motr's, with the seed of the unit.\<close>

definition reader_pi :: "motr_pi \<Rightarrow> calculate_pi" where
  "reader_pi calc prev i offset unit_data =
     (let r = calc M0_PI_NO_FLAG prev (Some (offset, i)) unit_data
      in if po_rc r = 0 then Some (po_value r) else None)"

section \<open>MD5\<close>

text \<open>\<open>md5_at D h\<close>: the data of the whole units written so far is \<open>D\<close>.\<close>

definition md5_at :: "bytes \<Rightarrow> (bytes \<Rightarrow> bytes \<Rightarrow> bytes) \<Rightarrow> bytes \<Rightarrow> MD5hash \<Rightarrow> bool" where
  "md5_at ini upd D h \<longleftrightarrow> \<not> is_finalized h
     \<and> (D \<noteq> [] \<longrightarrow> checksum_saved h \<and> is_initialized h \<and> md5ctx h = upd ini D)"

lemma incremental_out:
  assumes "incremental_md5 ini upd fin sb calc"
  shows "po_rc (calc flag prev seed bufs) = 0"
    "po_prev (calc flag prev seed bufs) = (if flag = M0_PI_CALC_UNIT_ZERO then ini else prev)"
    "po_ctx (calc flag prev seed bufs) = upd (if flag = M0_PI_CALC_UNIT_ZERO then ini else prev) (concat bufs)"
    "po_plain (calc flag prev seed bufs) = fin (upd (if flag = M0_PI_CALC_UNIT_ZERO then ini else prev) (concat bufs))"
    "upd (upd c a) b = upd c (a @ b)" "upd c [] = c"
proof -
  have app: "upd (upd c a) b = upd c (a @ b)" and nil: "upd c [] = c" for c a b
    using assms by (simp_all add: incremental_md5_def)
  then show "upd (upd c a) b = upd c (a @ b)" "upd c [] = c" .
  have fold: "foldl upd c bufs = upd c (concat bufs)" for c
    by (induction bufs arbitrary: c) (simp_all add: app nil)
  show "po_rc (calc flag prev seed bufs) = 0"
    "po_prev (calc flag prev seed bufs) = (if flag = M0_PI_CALC_UNIT_ZERO then ini else prev)"
    "po_ctx (calc flag prev seed bufs) = upd (if flag = M0_PI_CALC_UNIT_ZERO then ini else prev) (concat bufs)"
    "po_plain (calc flag prev seed bufs) = fin (upd (if flag = M0_PI_CALC_UNIT_ZERO then ini else prev) (concat bufs))"
    using assms fold by (simp_all add: incremental_md5_def Let_def)
qed

lemma incremental_value:
  assumes "incremental_md5 ini upd fin sb calc" "flag \<noteq> M0_PI_SKIP_CALC_FINAL"
  shows "reader_pi calc (po_prev (calc flag prev (Some (off, i)) bufs)) i off bufs
           = Some (po_value (calc flag prev (Some (off, i)) bufs))"
  using assms by (auto simp: incremental_md5_def Let_def reader_pi_def)

text \<open>One whole unit: the running digest goes on, and the entry validates for the reader.\<close>

lemma unit_pi_step:
  assumes "incremental_md5 ini upd fin sb calc" "md5_at ini upd D h" "first \<longleftrightarrow> D = []" "concat U \<noteq> []"
    "s3_calculate_unit_pi calc first seed U entry h = Some (h', entry', ctx)"
  shows "md5_at ini upd (D @ concat U) h'" "md5ctx_pre_unaligned h' = md5ctx_pre_unaligned h"
    "pi_is_md5_inc_context entry' = pi_is_md5_inc_context entry"
  using assms incremental_out [OF assms(1)]
  by (auto simp: s3_calculate_unit_pi_def Let_def md5_at_def save_motr_unit_checksum_def split: if_splits)

lemma unit_pi_validates:
  assumes "incremental_md5 ini upd fin sb calc"
    "s3_calculate_unit_pi calc first (Some (off, i)) U entry h = Some (h', entry', ctx)"
  shows "reader_pi calc (pi_prev_context entry') i off U = Some (pi_value entry')"
proof -
  define flag where "flag = (if first then M0_PI_CALC_UNIT_ZERO else M0_PI_NO_FLAG)"
  define prev where "prev = (if \<not> first \<and> checksum_saved h then md5ctx h else pi_prev_context entry)"
  have "entry' = entry\<lparr>pi_prev_context := po_prev (calc flag prev (Some (off, i)) U),
                       pi_value := po_value (calc flag prev (Some (off, i)) U)\<rparr>"
    using assms(2) by (auto simp: s3_calculate_unit_pi_def Let_def flag_def prev_def split: if_splits)
  moreover have "flag \<noteq> M0_PI_SKIP_CALC_FINAL" by (simp add: flag_def)
  ultimately show ?thesis using incremental_value [OF assms(1)] by simp
qed

lemma unit_pi_total:
  assumes "incremental_md5 ini upd fin sb calc"
  shows "\<exists>h' entry' ctx. s3_calculate_unit_pi calc first seed U entry h = Some (h', entry', ctx)"
  using incremental_out(1) [OF assms] by (simp add: s3_calculate_unit_pi_def Let_def)

section \<open>Units in the reader's eyes\<close>

lemma bytes_processed_append: "CalculateBytesProcessed (xs @ ys) = CalculateBytesProcessed xs + CalculateBytesProcessed ys"
  by (simp add: CalculateBytesProcessed_def)

lemma bytes_processed_full:
  "list_all (\<lambda>b. length b = B) xs \<Longrightarrow> CalculateBytesProcessed xs = of_nat (length xs * B)"
  by (induction xs) (simp_all add: CalculateBytesProcessed_def)

lemma validate_units_snoc:
  assumes "length data = k * length pis"
  shows "validate_units calc i k idx (pis @ [p]) (data @ U) \<longleftrightarrow>
     validate_units calc i k idx pis data \<and> pi_is_md5_inc_context p
     \<and> ValidateStoredMD5Chksum calc i (idx + CalculateBytesProcessed data) (take k U) p"
  using assms
proof (induction pis arbitrary: idx data)
  case Nil
  then show ?case by (simp add: CalculateBytesProcessed_def)
next
  case (Cons q pis)
  have "CalculateBytesProcessed (take k data) + CalculateBytesProcessed (drop k data) = CalculateBytesProcessed data"
    using bytes_processed_append [of "take k data" "drop k data"] by simp
  moreover have "length (drop k data) = k * length pis" "length data \<ge> k" using Cons.prems by simp_all
  ultimately show ?case using Cons.IH [of "drop k data"] by (simp add: add.assoc)
qed

section \<open>The loop over the buffers\<close>

text \<open>
  The state of the loop after the full buffers \<open>fs\<close>, in an object that already holds \<open>D\<close>:
  \<open>done_count\<close> of them make up whole units.
\<close>

definition done_count :: "nat \<Rightarrow> nat \<Rightarrow> nat" where "done_count k n = n - n mod k"

definition feed_state ::
  "S3MotrWiter \<Rightarrow> nat \<Rightarrow> nat \<Rightarrow> bytes \<Rightarrow> bytes list \<Rightarrow> MD5hash \<Rightarrow> (bytes \<times> size_t) list \<Rightarrow> m0_generic_pi list \<Rightarrow> bool \<Rightarrow> bool
   \<Rightarrow> S3MotrWiter \<times> write_ctx" where
  "feed_state w k cnt D fs h ps attr sd bd =
     (let n = length fs; sz = w_size_of_each_buf w; B = unat sz
      in (w\<lparr>w_size_in_current_write := of_nat (n * B), w_last_index := of_nat (length D + n * B), w_md5 := h\<rparr>,
          \<lparr>wx_buf_count = cnt, wx_data = fs, wx_ext = map (\<lambda>j. (of_nat (length D + j * B), sz)) [0..<n], wx_attr = attr, wx_pi = ps,
           wl_saved_last_index = of_nat (length D + done_count k n * B), wl_initial_part = False, wl_first_unit = False,
           wl_seed_unit = sd, wl_chksum_buf_idx = n div k, wl_unaligned_buf_idx_offset = done_count k n,
           wl_pi_idx = n mod k, wl_at_unit_boundary = bd\<rparr>))"

definition attr_ok :: "motr_pi \<Rightarrow> bool \<Rightarrow> m0_uint128 \<Rightarrow> nat \<Rightarrow> bytes \<Rightarrow> bytes list \<Rightarrow> m0_generic_pi list \<Rightarrow> nat \<Rightarrow> bool" where
  "attr_ok calc di i k D fs attr units \<longleftrightarrow> list_all pi_is_md5_inc_context attr
     \<and> (di \<longrightarrow> validate_units (reader_pi calc) i k (of_nat (length D)) (take units attr) (take (units * k) fs))"

definition feed_inv ::
  "bytes \<Rightarrow> (bytes \<Rightarrow> bytes \<Rightarrow> bytes) \<Rightarrow> motr_pi \<Rightarrow> S3MotrWiter \<Rightarrow> nat \<Rightarrow> nat \<Rightarrow> bytes \<Rightarrow> bytes list \<Rightarrow> MD5hash
   \<Rightarrow> (bytes \<times> size_t) list \<Rightarrow> m0_generic_pi list \<Rightarrow> bool" where
  "feed_inv ini upd calc w k cnt D fs h ps attr \<longleftrightarrow>
     (let n = length fs; sz = w_size_of_each_buf w
      in list_all (\<lambda>b. length b = unat sz) fs \<and> n \<le> cnt \<and> length ps = k
         \<and> take (n mod k) ps = map (\<lambda>b. (b, sz)) (drop (done_count k n) fs) \<and> length attr = cnt div k
         \<and> attr_ok calc (w_di_check w) (hd (w_oid_list w)) k D fs attr (n div k)
         \<and> md5_at ini upd (D @ concat (take (done_count k n) fs)) h)"

lemma done_count_mult: "done_count k n = n div k * k"
  by (simp add: done_count_def minus_mod_eq_div_mult)

lemma done_count_Suc:
  "0 < k \<Longrightarrow> done_count k (Suc n) = (if Suc n mod k = 0 then Suc n else done_count k n)"
  by (auto simp: done_count_def mod_Suc)

lemma concat_length_full: "list_all (\<lambda>b. length b = B) xs \<Longrightarrow> length (concat xs) = length xs * B"
  by (induction xs) simp_all

lemma take_update_at: "j < length ps \<Longrightarrow> take (Suc j) (ps[j := x]) = take j ps @ [x]"
  by (simp add: take_Suc_conv_app_nth)

lemma word_mod_zero_iff:
  assumes "unat u = m" "n < 2 ^ 64"
  shows "(of_nat n :: size_t) mod u = 0 \<longleftrightarrow> n mod m = 0"
proof -
  have "unat (of_nat n :: size_t) = n" using assms(2) by (simp add: unsigned_of_nat take_bit_nat_eq_self)
  then show ?thesis using assms(1) by (simp add: unat_mod flip: unat_eq_zero)
qed

lemma saved_zero_iff:
  assumes "length X < 2 ^ 64"
  shows "(of_nat (length X) :: size_t) = 0 \<longleftrightarrow> X = []"
proof -
  have "unat (of_nat (length X) :: size_t) = length X" using assms by (simp add: unsigned_of_nat take_bit_nat_eq_self)
  then show ?thesis by (auto simp flip: unat_eq_zero)
qed

lemma feed_add:
  assumes inv: "feed_inv ini upd calc w k cnt D fs h ps attr" and k: "0 < k" "length fs < cnt"
  shows "add_buffer_to_motr_structures b
           (let (w1, c1) = feed_state w k cnt D fs h ps attr sd bd in (w1, c1\<lparr>wl_at_unit_boundary := False\<rparr>)) =
         Some (let (w1, c1) = feed_state w k cnt D fs h ps attr sd False;
                   sz = w_size_of_each_buf w; n = length fs
               in (w1\<lparr>w_last_index := of_nat (length D + Suc n * unat sz)\<rparr>,
                   c1\<lparr>wx_data := fs @ [b], wx_ext := map (\<lambda>j. (of_nat (length D + j * unat sz), sz)) [0..<Suc n],
                      wx_pi := ps[n mod k := (b, sz)], wl_pi_idx := Suc (n mod k)\<rparr>))"
  using assms by (simp add: feed_state_def feed_inv_def add_buffer_to_motr_structures_def Let_def not_le algebra_simps)

text \<open>What the full vector of one unit holds.\<close>

lemma pi_buffers_full:
  assumes "n mod k = k - 1" "0 < k" "length ps = k" "take (n mod k) ps = map (\<lambda>b. (b, sz)) us"
    "list_all (\<lambda>b. length b = unat sz) us" "length b = unat sz"
  shows "map (\<lambda>(b, len). take (unat len) b) (take k (ps[n mod k := (b, sz)])) = us @ [b]"
proof -
  have "take k (ps[n mod k := (b, sz)]) = take (n mod k) ps @ [(b, sz)]"
    using assms(1-3) take_update_at [of "n mod k" ps "(b, sz)"] by simp
  then have eq: "take k (ps[n mod k := (b, sz)]) = map (\<lambda>b. (b, sz)) us @ [(b, sz)]" using assms(4) by simp
  have "map (\<lambda>b. take (unat sz) b) us = us" using assms(5) by (intro map_idI) (auto simp: list_all_iff)
  then show ?thesis unfolding eq using assms(6) by (simp add: comp_def)
qed

lemma attr_ok_unit:
  assumes "attr_ok calc di i k D fs attr m" "length fs = m * k" "length U = k" "m < length attr"
    "list_all (\<lambda>b. length b = B) fs" "pi_is_md5_inc_context e"
    "di \<Longrightarrow> reader_pi calc (pi_prev_context e) i (of_nat (length D + m * k * B)) U = Some (pi_value e)"
  shows "attr_ok calc di i k D (fs @ U) (attr[m := e]) (Suc m)"
proof -
  have "take (Suc m) (attr[m := e]) = take m attr @ [e]" using assms(4) by (rule take_update_at)
  moreover have "take (Suc m * k) (fs @ U) = fs @ U" using assms(2,3) by simp
  moreover have "CalculateBytesProcessed fs = of_nat (m * k * B)"
    using bytes_processed_full [OF assms(5)] assms(2) by simp
  moreover have "list_all pi_is_md5_inc_context (attr[m := e])"
    using assms(1,6) set_update_subset_insert [of attr m e] by (auto simp: attr_ok_def list_all_iff)
  ultimately show ?thesis using assms validate_units_snoc [of fs k "take m attr" "reader_pi calc" i "of_nat (length D)" e U]
    by (auto simp: attr_ok_def ValidateStoredMD5Chksum_def mult.commute)
qed

lemma attr_ok_more:
  assumes "attr_ok calc di i k D fs attr m" "m * k \<le> length fs"
  shows "attr_ok calc di i k D (fs @ U) attr m"
  using assms by (simp add: attr_ok_def)

lemma feed_inside_unit:
  assumes inv: "feed_inv ini upd calc w k cnt D fs h ps attr" and k: "0 < k" "length fs < cnt" and b: "length b = unat (w_size_of_each_buf w)"
    and in_unit: "Suc (length fs) mod k \<noteq> 0"
  shows "feed_inv ini upd calc w k cnt D (fs @ [b]) h (ps[length fs mod k := (b, w_size_of_each_buf w)]) attr"
proof -
  let ?n = "length fs"
  have mod: "Suc ?n mod k = Suc (?n mod k)" "Suc ?n div k = ?n div k" using in_unit by (auto simp: mod_Suc div_Suc)
  have dc: "done_count k (Suc ?n) = done_count k ?n" using in_unit k(1) by (simp add: done_count_Suc)
  have le: "done_count k ?n \<le> ?n" by (simp add: done_count_def)
  have "take (Suc (?n mod k)) (ps[?n mod k := (b, w_size_of_each_buf w)]) = take (?n mod k) ps @ [(b, w_size_of_each_buf w)]"
    using inv k(1) by (intro take_update_at) (simp add: feed_inv_def Let_def)
  moreover have "?n div k * k \<le> ?n" by simp
  ultimately show ?thesis using inv k b mod dc le attr_ok_more
    by (simp add: feed_inv_def Let_def)
qed

lemma unit_end_arith:
  assumes "Suc n mod k = 0" "0 < k"
  shows "n mod k = k - 1" "Suc n = Suc (n div k) * k" "Suc n div k = Suc (n div k)" "done_count k n = n div k * k"
    "done_count k n + k = Suc n"
proof -
  show md: "n mod k = k - 1" using assms by (auto simp: mod_Suc split: if_splits)
  have "n = n div k * k + n mod k" by simp
  then show eq: "Suc n = Suc (n div k) * k" using md assms(2) by simp
  show "Suc n div k = Suc (n div k)" using assms by (simp add: div_Suc)
  show "done_count k n = n div k * k" by (rule done_count_mult)
  then show "done_count k n + k = Suc n" using eq by simp
qed

lemma calc_at_boundary:
  assumes "w_oid_list w = [i]" "wl_chksum_buf_idx c < length (wx_attr c)" "\<not> wl_initial_part c" "\<not> wl_first_unit c"
    "pi_buffers (length (wx_pi c)) c = U"
    "s3_calculate_unit_pi calc (wl_saved_last_index c = 0)
       (if wl_seed_unit c \<or> w_di_check w then Some (wl_saved_last_index c, i) else None) U
       (wx_attr c ! wl_chksum_buf_idx c) (w_md5 w) = Some (h', e, ctx)"
  shows "calc_pi_info calc True False False 0 (w, c) =
     Some (w\<lparr>w_md5 := h'\<rparr>,
           c\<lparr>wx_attr := (wx_attr c)[wl_chksum_buf_idx c := e], wl_seed_unit := wl_seed_unit c \<or> w_di_check w,
             wl_chksum_buf_idx := Suc (wl_chksum_buf_idx c), wl_saved_last_index := w_last_index w, wl_pi_idx := 0,
             wl_unaligned_buf_idx_offset := length (wx_data c), wl_at_unit_boundary := True\<rparr>)"
  using assms by (cases c) (simp add: calc_pi_info_def calc_unit_pi_def Let_def pi_buffers_def split del: if_split cong: if_cong)

lemma feed_unit_end:
  assumes inc: "incremental_md5 ini upd fin sb calc"
    and inv: "feed_inv ini upd calc w k cnt D fs h ps attr" and k: "0 < k" "length fs < cnt"
    and b: "length b = unat (w_size_of_each_buf w)" "0 < unat (w_size_of_each_buf w)"
    and unit_end: "Suc (length fs) mod k = 0" and i: "w_oid_list w = [i]"
    and bound: "length D + Suc (length fs) * unat (w_size_of_each_buf w) < 2 ^ 64"
    and st: "feed_state w k cnt D (fs @ [b]) h (ps[length fs mod k := (b, w_size_of_each_buf w)]) attr sd False = (w1, c1)"
  shows "\<exists>h' attr' sd'. calc_pi_info calc True False False 0
           (w1, c1\<lparr>wl_saved_last_index := of_nat (length D + done_count k (length fs) * unat (w_size_of_each_buf w)),
                   wl_chksum_buf_idx := length fs div k, wl_unaligned_buf_idx_offset := done_count k (length fs),
                   wl_pi_idx := Suc (length fs mod k)\<rparr>)
         = Some (feed_state w k cnt D (fs @ [b]) h' (ps[length fs mod k := (b, w_size_of_each_buf w)]) attr' sd' True)
       \<and> feed_inv ini upd calc w k cnt D (fs @ [b]) h' (ps[length fs mod k := (b, w_size_of_each_buf w)]) attr'"
proof -
  let ?n = "length fs" and ?sz = "w_size_of_each_buf w" and ?B = "unat (w_size_of_each_buf w)"
  let ?a = "done_count k ?n" and ?ps = "ps[length fs mod k := (b, w_size_of_each_buf w)]"
  let ?U = "drop ?a fs @ [b]" and ?X = "D @ concat (take ?a fs)" and ?m = "?n div k"
  from inv have full: "list_all (\<lambda>b. length b = ?B) fs" and ps: "length ps = k"
    "take (?n mod k) ps = map (\<lambda>b. (b, ?sz)) (drop ?a fs)" and attr: "length attr = cnt div k"
    "attr_ok calc (w_di_check w) i k D fs attr ?m" and md5: "md5_at ini upd ?X h"
    by (simp_all add: feed_inv_def Let_def i)
  note arith = unit_end_arith [OF unit_end k(1)]
  have le: "?a \<le> ?n" by (simp add: done_count_def)
  have U: "length ?U = k" "list_all (\<lambda>b. length b = ?B) (drop ?a fs)" "list_all (\<lambda>b. length b = ?B) (take ?a fs)"
    using arith(5) le full by (auto simp: list_all_iff dest: in_set_dropD in_set_takeD)
  have m: "?m < length attr"
    using k attr(1) div_le_mono [of "Suc ?n" cnt k] arith(3) by simp
  have X: "length ?X = length D + ?a * ?B" using concat_length_full [OF U(3)] by (simp add: done_count_def)
  have lt: "length ?X < 2 ^ 64" using bound X le mult_le_mono1 [of ?a "Suc ?n" ?B] by linarith
  have first: "(of_nat (length D + ?a * ?B) :: size_t) = 0 \<longleftrightarrow> ?X = []" using saved_zero_iff [OF lt] X by simp
  have nonempty: "concat ?U \<noteq> []" using b by auto
  let ?seed = "if sd \<or> w_di_check w then Some (of_nat (length D + ?a * ?B) :: size_t, i) else None"
  obtain h' e ctx where unit: "s3_calculate_unit_pi calc (?X = []) ?seed ?U (attr ! ?m) h = Some (h', e, ctx)"
    using unit_pi_total [OF inc] by blast
  note step = unit_pi_step [OF inc md5 _ nonempty unit]
  have val: "w_di_check w \<Longrightarrow> reader_pi calc (pi_prev_context e) i (of_nat (length D + ?m * k * ?B)) ?U = Some (pi_value e)"
    using unit_pi_validates [OF inc, of _ "of_nat (length D + ?a * ?B)" i] unit arith(4) by simp
  have bufs: "map (\<lambda>(b, len). take (unat len) b) (take k ?ps) = ?U"
    using pi_buffers_full [OF arith(1) k(1) ps U(2) b(1)] .
  have calc: "calc_pi_info calc True False False 0
           (w1, c1\<lparr>wl_saved_last_index := of_nat (length D + ?a * ?B), wl_chksum_buf_idx := ?m,
                   wl_unaligned_buf_idx_offset := ?a, wl_pi_idx := Suc (?n mod k)\<rparr>)
         = Some (feed_state w k cnt D (fs @ [b]) h' ?ps (attr[?m := e]) (sd \<or> w_di_check w) True)"
  proof -
    let ?c = "c1\<lparr>wl_saved_last_index := of_nat (length D + ?a * ?B), wl_chksum_buf_idx := ?m,
                   wl_unaligned_buf_idx_offset := ?a, wl_pi_idx := Suc (?n mod k)\<rparr>"
    have c1: "wx_attr c1 = attr" "wx_pi c1 = ?ps" "\<not> wl_initial_part c1" "\<not> wl_first_unit c1" "wl_seed_unit c1 = sd"
      and w1: "w_oid_list w1 = [i]" "w_md5 w1 = h" "w_di_check w1 = w_di_check w"
      using st i by (auto simp: feed_state_def Let_def)
    have "calc_pi_info calc True False False 0 (w1, ?c) =
     Some (w1\<lparr>w_md5 := h'\<rparr>,
           ?c\<lparr>wx_attr := (wx_attr ?c)[wl_chksum_buf_idx ?c := e], wl_seed_unit := wl_seed_unit ?c \<or> w_di_check w1,
             wl_chksum_buf_idx := Suc (wl_chksum_buf_idx ?c), wl_saved_last_index := w_last_index w1, wl_pi_idx := 0,
             wl_unaligned_buf_idx_offset := length (wx_data ?c), wl_at_unit_boundary := True\<rparr>)"
    proof (rule calc_at_boundary)
      show "s3_calculate_unit_pi calc (wl_saved_last_index ?c = 0)
         (if wl_seed_unit ?c \<or> w_di_check w1 then Some (wl_saved_last_index ?c, i) else None) ?U
         (wx_attr ?c ! wl_chksum_buf_idx ?c) (w_md5 w1) = Some (h', e, ctx)"
        using unit c1 w1 first by (simp del: of_nat_add of_nat_mult split del: if_split cong: if_cong)
    qed (use c1 w1 m ps(1) bufs in \<open>simp_all add: pi_buffers_def\<close>)
    then show ?thesis using st by (auto simp: feed_state_def Let_def unit_end arith(3) done_count_Suc k(1))
  qed
  have at: "attr_ok calc (w_di_check w) i k D (take ?a fs @ ?U) (attr[?m := e]) (Suc ?m)"
  proof (rule attr_ok_unit [OF _ _ U(1) m U(3) _ val])
    show "attr_ok calc (w_di_check w) i k D (take ?a fs) attr ?m" using attr(2) by (simp add: attr_ok_def arith(4))
    show "length (take ?a fs) = ?m * k" using le arith(4) by simp
    show "pi_is_md5_inc_context e" using step(3) attr(2) m by (simp add: attr_ok_def list_all_length)
  qed
  have same: "take ?a fs @ ?U = fs @ [b]" "?X @ concat ?U = D @ concat (fs @ [b])"
    by (simp, metis append_assoc append_take_drop_id concat_append)
  have "attr_ok calc (w_di_check w) i k D (fs @ [b]) (attr[?m := e]) (Suc ?m)" "md5_at ini upd (D @ concat (fs @ [b])) h'"
    using at step(1) [OF refl] unfolding same by this+
  then show ?thesis
    using calc full ps(1) attr(1) b k(2) unit_end arith(3)
    by (intro exI conjI) (assumption, simp add: feed_inv_def Let_def i done_count_Suc k(1))
qed

lemma feed_full:
  assumes inc: "incremental_md5 ini upd fin sb calc"
    and inv: "feed_inv ini upd calc w k cnt D fs h ps attr" and k: "0 < k" "length fs < cnt"
    and b: "length b = unat (w_size_of_each_buf w)" "0 < unat (w_size_of_each_buf w)" and i: "w_oid_list w = [i]"
    and bound: "length D + Suc (length fs) * unat (w_size_of_each_buf w) < 2 ^ 64"
    and unit: "unat (w_motr_unit_size w) = k * unat (w_size_of_each_buf w)"
  shows "\<exists>h' ps' attr' sd'. feed_buffer calc (b, w_size_of_each_buf w) (feed_state w k cnt D fs h ps attr sd bd)
       = Some (feed_state w k cnt D (fs @ [b]) h' ps' attr' sd' (Suc (length fs) mod k = 0))
     \<and> feed_inv ini upd calc w k cnt D (fs @ [b]) h' ps' attr'"
proof -
  let ?n = "length fs" and ?sz = "w_size_of_each_buf w" and ?B = "unat (w_size_of_each_buf w)"
  let ?ps = "ps[length fs mod k := (b, w_size_of_each_buf w)]"
  obtain w1 c1 where st: "feed_state w k cnt D (fs @ [b]) h ?ps attr sd False = (w1, c1)" by force
  let ?c = "c1\<lparr>wl_saved_last_index := of_nat (length D + done_count k ?n * ?B), wl_chksum_buf_idx := ?n div k,
               wl_unaligned_buf_idx_offset := done_count k ?n, wl_pi_idx := Suc (?n mod k)\<rparr>"
  have u0: "w_motr_unit_size w \<noteq> 0" using unit k(1) b(2) by auto
  have fb: "feed_buffer calc (b, ?sz) (feed_state w k cnt D fs h ps attr sd bd) =
      (if Suc ?n mod k = 0 then calc_pi_info calc True False False 0 (w1, ?c) else Some (w1, ?c))"
  proof -
    have "(of_nat (Suc ?n * ?B) :: size_t) mod w_motr_unit_size w = 0 \<longleftrightarrow> Suc ?n mod k = 0"
      using word_mod_zero_iff [OF unit, of "Suc ?n * ?B"] bound b(2) mod_mult_mult2 [of "Suc ?n" ?B k]
      by (simp del: mult_Suc of_nat_mult)
    moreover have sum: "(of_nat (?n * ?B) :: size_t) + ?sz = of_nat (Suc ?n * ?B)" by simp
    moreover obtain w0 c0 where st0: "feed_state w k cnt D fs h ps attr sd bd = (w0, c0)" by force
    moreover have "add_buffer_to_motr_structures b (w0, c0\<lparr>wl_at_unit_boundary := False\<rparr>)
        = Some (w1\<lparr>w_size_in_current_write := of_nat (?n * ?B)\<rparr>, ?c)"
      using feed_add [OF inv k, of b sd bd] st st0 by (cases w) (auto simp: feed_state_def Let_def algebra_simps)
    moreover have "w_motr_unit_size w1 = w_motr_unit_size w" using st by (auto simp: feed_state_def Let_def)
    ultimately have "feed_buffer calc (b, ?sz) (feed_state w k cnt D fs h ps attr sd bd) =
        (let w2 = w1\<lparr>w_size_in_current_write := of_nat (Suc ?n * ?B)\<rparr>
         in if Suc ?n mod k = 0 then calc_pi_info calc True False False 0 (w2, ?c) else Some (w2, ?c))"
      using u0 by (simp add: feed_buffer_def Let_def del: mult_Suc of_nat_mult of_nat_add)
    moreover have "w1\<lparr>w_size_in_current_write := of_nat (Suc ?n * ?B)\<rparr> = w1"
      using st by (cases w) (auto simp: feed_state_def Let_def algebra_simps)
    ultimately show ?thesis by (simp only: Let_def)
  qed
  show ?thesis
  proof (cases "Suc ?n mod k = 0")
    case True
    then show ?thesis using feed_unit_end [OF inc inv k b True i bound st] fb by auto
  next
    case False
    then have "(w1, ?c) = feed_state w k cnt D (fs @ [b]) h ?ps attr sd False"
      using st by (auto simp: feed_state_def Let_def done_count_Suc k(1) mod_Suc div_Suc)
    then show ?thesis using feed_inside_unit [OF inv k b(1) False] fb False by auto
  qed
qed

lemma feed_all:
  assumes inc: "incremental_md5 ini upd fin sb calc" and k: "0 < k"
    and B: "0 < unat (w_size_of_each_buf w)" and i: "w_oid_list w = [i]"
    and unit: "unat (w_motr_unit_size w) = k * unat (w_size_of_each_buf w)"
  shows "full_buffers (unat (w_size_of_each_buf w)) bs \<Longrightarrow> feed_inv ini upd calc w k cnt D fs h ps attr
     \<Longrightarrow> length fs + length bs \<le> cnt \<Longrightarrow> length D + cnt * unat (w_size_of_each_buf w) < 2 ^ 64
     \<Longrightarrow> \<exists>h' ps' attr' sd' bd'. feed_buffers calc bs (feed_state w k cnt D fs h ps attr sd bd)
       = Some (feed_state w k cnt D (fs @ map fst bs) h' ps' attr' sd' bd')
     \<and> feed_inv ini upd calc w k cnt D (fs @ map fst bs) h' ps' attr'
     \<and> (bs \<noteq> [] \<longrightarrow> bd' = ((length fs + length bs) mod k = 0))"
proof (induction bs arbitrary: fs h ps attr sd bd)
  case Nil
  then show ?case by simp blast
next
  case (Cons b bs)
  obtain c where b: "b = (c, w_size_of_each_buf w)" "length c = unat (w_size_of_each_buf w)"
    using Cons.prems(1) by (cases b) (auto simp: full_buffers_def word_unat_eq_iff)
  have n: "length fs < cnt" using Cons.prems(3) by simp
  have "Suc (length fs) * unat (w_size_of_each_buf w) \<le> cnt * unat (w_size_of_each_buf w)" using n by (intro mult_le_mono1) simp
  then have bound: "length D + Suc (length fs) * unat (w_size_of_each_buf w) < 2 ^ 64" using Cons.prems(4) by linarith
  obtain h1 ps1 attr1 sd1 where one: "feed_buffer calc b (feed_state w k cnt D fs h ps attr sd bd)
       = Some (feed_state w k cnt D (fs @ [c]) h1 ps1 attr1 sd1 (Suc (length fs) mod k = 0))"
     "feed_inv ini upd calc w k cnt D (fs @ [c]) h1 ps1 attr1"
    using feed_full [OF inc Cons.prems(2) k n b(2) B i bound unit] b(1) by blast
  have "full_buffers (unat (w_size_of_each_buf w)) bs" "length (fs @ [c]) + length bs \<le> cnt"
    using Cons.prems(1,3) by (simp_all add: full_buffers_def)
  from Cons.IH [OF this(1) one(2) this(2) Cons.prems(4), of sd1 "Suc (length fs) mod k = 0"]
  obtain h2 ps2 attr2 sd2 bd2 where
    "feed_buffers calc bs (feed_state w k cnt D (fs @ [c]) h1 ps1 attr1 sd1 (Suc (length fs) mod k = 0))
       = Some (feed_state w k cnt D ((fs @ [c]) @ map fst bs) h2 ps2 attr2 sd2 bd2)"
     "feed_inv ini upd calc w k cnt D ((fs @ [c]) @ map fst bs) h2 ps2 attr2"
     "bs \<noteq> [] \<longrightarrow> bd2 = ((length (fs @ [c]) + length bs) mod k = 0)" by blast
  note more = this
  show ?case
  proof (cases "bs = []")
    case True
    then show ?thesis using one b(1) by simp blast
  next
    case False
    then show ?thesis using one(1) b(1) more by simp blast
  qed
qed

lemma feed_last:
  assumes inv: "feed_inv ini upd calc w k cnt D fs h ps attr" and k: "0 < k" "length fs < cnt"
    and len: "0 < unat len" "unat len \<le> unat (w_size_of_each_buf w)"
    and bound: "length D + Suc (length fs) * unat (w_size_of_each_buf w) < 2 ^ 64"
    and unit: "unat (w_motr_unit_size w) = k * unat (w_size_of_each_buf w)"
    and open_unit: "unat len < unat (w_size_of_each_buf w) \<or> Suc (length fs) mod k \<noteq> 0"
  shows "feed_buffer calc (b, len) (feed_state w k cnt D fs h ps attr sd bd) =
     Some (let (w1, c1) = feed_state w k cnt D fs h ps attr sd False;
               sz = w_size_of_each_buf w; n = length fs
           in (w1\<lparr>w_last_index := of_nat (length D + Suc n * unat sz), w_size_in_current_write := of_nat (n * unat sz + unat len)\<rparr>,
               c1\<lparr>wx_data := fs @ [b], wx_ext := map (\<lambda>j. (of_nat (length D + j * unat sz), sz)) [0..<Suc n],
                  wx_pi := ps[n mod k := (b, sz)], wl_pi_idx := Suc (n mod k)\<rparr>))"
proof -
  let ?n = "length fs" and ?sz = "w_size_of_each_buf w" and ?B = "unat (w_size_of_each_buf w)"
  have u0: "w_motr_unit_size w \<noteq> 0" using unit k(1) len by auto
  have lt: "?n * ?B + unat len < 2 ^ 64" using bound len by simp
  have "(?n * ?B + unat len) mod (k * ?B) \<noteq> 0"
  proof (cases "unat len = ?B")
    case True
    then have "(?n * ?B + unat len) mod (k * ?B) = (Suc ?n mod k) * ?B"
      using mod_mult_mult2 [of "Suc ?n" ?B k] by (simp add: add.commute)
    then show ?thesis using open_unit True len by simp
  next
    case False
    then have "(?n * ?B + unat len) mod ?B \<noteq> 0" using len by simp
    then show ?thesis using mod_mod_cancel [of ?B "k * ?B" "?n * ?B + unat len"] by (metis dvd_triv_right mod_0)
  qed
  then have "(of_nat (?n * ?B + unat len) :: size_t) mod w_motr_unit_size w \<noteq> 0"
    using word_mod_zero_iff [OF unit lt] by simp
  moreover have "(of_nat (?n * ?B) :: size_t) + len = of_nat (?n * ?B + unat len)" by simp
  moreover obtain w1 c1 where st: "feed_state w k cnt D fs h ps attr sd False = (w1, c1)" by force
  moreover have "feed_state w k cnt D fs h ps attr sd bd = (w1, c1\<lparr>wl_at_unit_boundary := bd\<rparr>)"
    "c1\<lparr>wl_at_unit_boundary := False\<rparr> = c1" "w_motr_unit_size w1 = w_motr_unit_size w"
    "w_size_in_current_write w1 = of_nat (?n * ?B)"
    using st by (auto simp: feed_state_def Let_def)
  ultimately show ?thesis using feed_add [OF inv k, of b sd bd] u0
    by (simp add: feed_buffer_def Let_def del: mult_Suc of_nat_mult of_nat_add)
qed

section \<open>Padding\<close>

definition padded :: "bytes \<Rightarrow> nat \<Rightarrow> S3MotrWiter \<Rightarrow> write_ctx \<Rightarrow> S3MotrWiter \<times> write_ctx" where
  "padded p r w c =
     (let sz = w_size_of_each_buf w; idx = wl_pi_idx c
      in (w\<lparr>w_last_index := w_last_index w + of_nat r * sz\<rparr>,
          c\<lparr>wx_data := wx_data c @ replicate r p,
            wx_ext := wx_ext c @ map (\<lambda>j. (w_last_index w + of_nat j * sz, sz)) [0..<r],
            wx_pi := take idx (wx_pi c) @ replicate r (p, sz) @ drop (idx + r) (wx_pi c), wl_pi_idx := idx + r\<rparr>))"

lemma pad_one:
  assumes "wl_pi_idx c < length (wx_pi c)" "length (wx_data c) < wx_buf_count c"
  shows "add_buffer_to_motr_structures p (w, c) = Some (padded p 1 w c)"
proof -
  have "(wx_pi c)[wl_pi_idx c := x] = take (wl_pi_idx c) (wx_pi c) @ [x] @ drop (Suc (wl_pi_idx c)) (wx_pi c)" for x
    using assms(1) by (simp add: upd_conv_take_nth_drop)
  then show ?thesis using assms by (simp add: add_buffer_to_motr_structures_def padded_def Let_def)
qed

lemma padded_more:
  assumes "wl_pi_idx c + Suc r \<le> length (wx_pi c)"
  shows "(case padded p 1 w c of (w1, c1) \<Rightarrow> padded p r w1 c1) = padded p (Suc r) w c"
proof -
  have "map (\<lambda>j. (x + sz + of_nat j * sz, sz)) [0..<r] = map (\<lambda>j. (x + of_nat j * sz, sz)) [Suc 0..<Suc r]" for x sz :: size_t
    by (simp add: map_Suc_upt [symmetric] comp_def algebra_simps del: upt_Suc)
  moreover have "[0..<Suc r] = 0 # [Suc 0..<Suc r]" "[0..<Suc 0] = [0]" by (simp_all add: upt_conv_Cons del: upt_Suc)
  ultimately show ?thesis using assms
    by (cases w, cases c) (simp add: padded_def Let_def algebra_simps min_def drop_Cons' del: upt_Suc)
qed

lemma pad_loop_eq:
  assumes "r \<noteq> 0 \<longrightarrow> w_place_holder w = Some p" "wl_pi_idx c + r \<le> length (wx_pi c)"
    "length (wx_data c) + r \<le> wx_buf_count c"
  shows "pad_loop r (w, c) = Some (padded p r w c)"
  using assms
proof (induction r arbitrary: w c)
  case 0
  then show ?case by (simp add: padded_def Let_def)
next
  case (Suc r)
  obtain w1 c1 where one: "padded p 1 w c = (w1, c1)" by force
  then have "r \<noteq> 0 \<longrightarrow> w_place_holder w1 = Some p" "wl_pi_idx c1 + r \<le> length (wx_pi c1)" "length (wx_data c1) + r \<le> wx_buf_count c1"
    using Suc.prems by (auto simp: padded_def Let_def)
  then have "pad_loop r (w1, c1) = Some (padded p r w1 c1)" by (rule Suc.IH)
  moreover have "padded p r w1 c1 = padded p (Suc r) w c" using padded_more [OF Suc.prems(2), of p w] one by simp
  ultimately show ?case using Suc.prems pad_one [of c p w] one by simp
qed

section \<open>A write of whole units\<close>

lemma rw_start:
  assumes "w_last_index w = of_nat (length D)" "\<not> w_is_first_write_part_segment w" "md5_at ini upd D (w_md5 w)" "0 < k"
  shows "\<exists>ps attr. (w\<lparr>w_size_in_current_write := 0\<rparr>, rw_op_ctx True cnt k w)
       = feed_state w k cnt D [] (w_md5 w) ps attr False False
     \<and> feed_inv ini upd calc w k cnt D [] (w_md5 w) ps attr"
proof -
  have "(w\<lparr>w_size_in_current_write := 0\<rparr>, rw_op_ctx True cnt k w) =
      feed_state w k cnt D [] (w_md5 w) (wx_pi (rw_op_ctx True cnt k w)) (wx_attr (rw_op_ctx True cnt k w)) False False"
    using assms by (cases w) (simp add: feed_state_def rw_op_ctx_def Let_def done_count_def)
  moreover have "feed_inv ini upd calc w k cnt D [] (w_md5 w) (wx_pi (rw_op_ctx True cnt k w)) (wx_attr (rw_op_ctx True cnt k w))"
    using assms by (simp add: feed_inv_def Let_def rw_op_ctx_def attr_ok_def done_count_def list_all_iff)
  ultimately show ?thesis by blast
qed

lemma finish_aligned:
  assumes "length fs = cnt" "cnt mod k = 0"
  shows "finish_set_up env (w_size_of_each_buf w) (feed_state w k cnt D fs h ps attr sd True) =
     Some ((\<lambda>(w1, c1). (save_for_unaligned w1, c1)) (feed_state w k cnt D fs h ps attr sd True), [])"
proof -
  have "w_size_of_each_buf (save_for_unaligned v) = w_size_of_each_buf v" for v by (simp add: save_for_unaligned_def)
  then show ?thesis using assms
    by (simp add: finish_set_up_def feed_state_def Let_def done_count_def
        find_and_allocate_placeholder_for_data_alignment_def align_data_to_motr_unit_size_def)
qed

text \<open>What one write adds, whatever its size: where the buffers go and the state the next write finds.\<close>

definition written ::
  "writer_env \<Rightarrow> size_t \<Rightarrow> nat \<Rightarrow> m0_uint128 \<Rightarrow> nat \<Rightarrow> bytes list \<Rightarrow> bool \<Rightarrow> writer_out list \<Rightarrow> bool" where
  "written env sz k i start data di outs \<longleftrightarrow>
     (\<exists>attr rel. outs = rel @ [Write_object (map (\<lambda>j. (of_nat (start + j * unat sz), sz)) [0..<length data]) data
                              (if di then Some attr else None)]
        \<and> set rel \<subseteq> range Release_place_holder \<and> list_all (\<lambda>b. length b = unat sz) data \<and> length data mod k = 0
        \<and> (di \<longrightarrow> length attr = length data div k
                 \<and> validate_units (reader_pi (we_pi env)) i k (of_nat start) attr data))"

lemma write_content_opened:
  assumes env: "write_env_ok env lid sz k" and w: "object_created lid i w" and bs: "bs \<noteq> []" "list_all (\<lambda>b. snd b = sz) (butlast bs)"
  shows "\<exists>w1. write_content env bs sz w =
       set_up_motr_data_buffers env bs (w1, rw_op_ctx True (padded_count k (length bs)) k w1)
         \<bind> (\<lambda>(s, outs). let (w3, outs3) = launch_write env (fst s\<lparr>w_last_op_was_write := True\<rparr>, snd s) in Some (w3, outs @ outs3))
     \<and> object_created lid i w1 \<and> w_last_index w1 = w_last_index w \<and> w_md5 w1 = w_md5 w \<and> w_di_check w1 = w_di_check w
     \<and> w_total_written w1 = w_total_written w \<and> w_size_of_each_buf w1 = sz
     \<and> unat (w_motr_unit_size w1) = k * unat sz"
proof -
  let ?u = "get_unit_size_for_layout (we_layouts env) lid"
  let ?w1 = "w\<lparr>w_buffer_sequence := [], w_size_of_each_buf := sz, w_state := Wr_writing, w_motr_unit_size := ?u,
              w_writer_context := Some (S3AsyncOpContextBase_init 1)\<rparr>"
  have u: "unat ?u = k * unat sz" "0 < k" "0 < unat sz" using env by (simp_all add: write_env_ok_def)
  then have "unat (?u div sz) = k" by (simp add: unat_div)
  then have k: "buffers_per_unit ?u sz = k" using u(2) by (simp add: buffers_per_unit_def Let_def)
  have "write_content env bs sz w =
       set_up_motr_data_buffers env bs (?w1, rw_op_ctx True (padded_count k (length bs)) k ?w1)
         \<bind> (\<lambda>(s, outs). let (w3, outs3) = launch_write env (fst s\<lparr>w_last_op_was_write := True\<rparr>, snd s) in Some (w3, outs @ outs3))"
    using env w bs u(3) k unfolding write_content_def write_opened_def
    by (cases w) (auto simp: object_created_def write_env_ok_def Let_def split_def)
  then show ?thesis using w u(1) by (intro exI [of _ ?w1]) (simp add: object_created_def)
qed

lemma full_buffer_data:
  assumes "full_buffers B bs"
  shows "buffer_data bs = concat (map fst bs)" "length (buffer_data bs) = length bs * B" "list_all (\<lambda>b. length b = B) (map fst bs)"
  using assms by (induction bs) (auto simp: full_buffers_def buffer_data_def)

lemma full_buffer_sizes: "full_buffers (unat sz) bs \<Longrightarrow> list_all (\<lambda>b. snd b = sz) bs"
  by (auto simp: full_buffers_def list_all_iff word_unat_eq_iff)

lemma full_butlast: "list_all P xs \<Longrightarrow> list_all P (butlast xs)"
  by (auto simp: list_all_iff dest: in_set_butlastD)

lemma padded_count_whole: "n mod k = 0 \<Longrightarrow> padded_count k n = n"
  by (simp add: padded_count_def)

lemma launch_write_ok:
  "write_env_ok env lid sz k \<Longrightarrow> launch_write env (w, c) = (w, [Write_object (wx_ext c) (wx_data c) (if w_di_check w then Some (wx_attr c) else None)])"
  by (simp add: launch_write_def write_env_ok_def)

lemma write_units:
  assumes inc: "incremental_md5 ini upd fin sb (we_pi env)" and env: "write_env_ok env lid sz k" and w: "object_created lid i w"
    and at: "w_last_index w = of_nat (length D)" "md5_at ini upd D (w_md5 w)"
    and bs: "unit_write_ok (unat sz) k bs" and bound: "length D + length bs * unat sz < 2 ^ 64"
  shows "\<exists>w' outs. write_content env bs sz w = Some (w', outs) \<and> written env sz k i (length D) (map fst bs) (w_di_check w) outs
     \<and> object_created lid i w' \<and> w_last_index w' = of_nat (length (D @ buffer_data bs)) \<and> md5_at ini upd (D @ buffer_data bs) (w_md5 w')
     \<and> w_di_check w' = w_di_check w \<and> w_total_written w' = w_total_written w
     \<and> w_size_in_current_write w' = of_nat (length (buffer_data bs))"
proof -
  have k: "0 < k" "0 < unat sz" using env by (simp_all add: write_env_ok_def)
  have full: "full_buffers (unat sz) bs" "bs \<noteq> []" "length bs mod k = 0" using bs by (simp_all add: unit_write_ok_def)
  note data = full_buffer_data [OF full(1)]
  obtain w1 where wc: "write_content env bs sz w =
       set_up_motr_data_buffers env bs (w1, rw_op_ctx True (padded_count k (length bs)) k w1)
         \<bind> (\<lambda>(s, outs). let (w3, outs3) = launch_write env (fst s\<lparr>w_last_op_was_write := True\<rparr>, snd s) in Some (w3, outs @ outs3))"
    and w1: "object_created lid i w1" "w_last_index w1 = w_last_index w" "w_md5 w1 = w_md5 w" "w_di_check w1 = w_di_check w"
      "w_total_written w1 = w_total_written w" "w_size_of_each_buf w1 = sz" "unat (w_motr_unit_size w1) = k * unat sz"
    using write_content_opened [OF env w full(2) full_butlast [OF full_buffer_sizes [OF full(1)]]] by blast
  obtain ps attr where start: "(w1\<lparr>w_size_in_current_write := 0\<rparr>, rw_op_ctx True (length bs) k w1)
       = feed_state w1 k (length bs) D [] (w_md5 w1) ps attr False False"
     "feed_inv ini upd (we_pi env) w1 k (length bs) D [] (w_md5 w1) ps attr"
    using rw_start [of w1 D ini upd k "length bs" "we_pi env"] at w1 k by (auto simp: object_created_def)
  obtain h' ps' attr' sd' where fed: "feed_buffers (we_pi env) bs (feed_state w1 k (length bs) D [] (w_md5 w1) ps attr False False)
       = Some (feed_state w1 k (length bs) D (map fst bs) h' ps' attr' sd' True)"
     "feed_inv ini upd (we_pi env) w1 k (length bs) D (map fst bs) h' ps' attr'"
    using feed_all [OF inc k(1) _ _ _ _ start(2), of i bs False False] w1 full k bound by (auto simp: object_created_def)
  have inv: "length attr' = length bs div k" "attr_ok (we_pi env) (w_di_check w) i k D (map fst bs) attr' (length bs div k)"
      "md5_at ini upd (D @ buffer_data bs) h'"
    using fed(2) full(3) w1 data(1) by (simp_all add: feed_inv_def Let_def object_created_def done_count_def)
  obtain w2 c2 where st: "feed_state w1 k (length bs) D (map fst bs) h' ps' attr' sd' True = (w2, c2)" by force
  then have c2: "wx_data c2 = map fst bs" "wx_ext c2 = map (\<lambda>j. (of_nat (length D + j * unat sz), sz)) [0..<length bs]" "wx_attr c2 = attr'"
    and w2: "object_created lid i w2" "w_last_index w2 = of_nat (length D + length bs * unat sz)" "w_md5 w2 = h'"
      "w_di_check w2 = w_di_check w" "w_total_written w2 = w_total_written w" "w_size_in_current_write w2 = of_nat (length bs * unat sz)"
    using w1 by (auto simp: feed_state_def Let_def object_created_def)
  have last: "snd (last bs) = sz" using full_buffer_sizes [OF full(1)] full(2) by (simp add: list_all_iff)
  have "set_up_motr_data_buffers env bs (w1, rw_op_ctx True (padded_count k (length bs)) k w1) = Some ((save_for_unaligned w2, c2), [])"
    using start fed st finish_aligned [of "map fst bs" "length bs" k env w1 D h' ps' attr' sd'] full last w1(6)
    by (simp add: set_up_motr_data_buffers_def padded_count_whole)
  then have result: "write_content env bs sz w = Some ((save_for_unaligned w2)\<lparr>w_last_op_was_write := True\<rparr>,
      [Write_object (wx_ext c2) (wx_data c2) (if w_di_check w2 then Some (wx_attr c2) else None)])" (is "_ = Some (?w', ?outs)")
    using wc launch_write_ok [OF env] by (simp add: save_for_unaligned_def)
  have "written env sz k i (length D) (map fst bs) (w_di_check w) ?outs"
    unfolding written_def using c2 w2(4) inv data(3) full(3)
    by (intro exI [of _ attr'] exI [of _ "[]"]) (auto simp: attr_ok_def div_mult_mod_eq)
  moreover have "object_created lid i ?w'" "w_last_index ?w' = of_nat (length (D @ buffer_data bs))"
      "md5_at ini upd (D @ buffer_data bs) (w_md5 ?w')" "w_di_check ?w' = w_di_check w" "w_total_written ?w' = w_total_written w"
      "w_size_in_current_write ?w' = of_nat (length (buffer_data bs))"
    using w2 inv(3) data(2)
    by (auto simp: object_created_def save_for_unaligned_def md5_at_def save_motr_unit_checksum_for_unaligned_bufs_def)
  ultimately show ?thesis using result by blast
qed

section \<open>The last write\<close>

lemma padded_count_arith:
  assumes "0 < k"
  shows "padded_count k (Suc n) = Suc n + (k - Suc (n mod k))" "padded_count k (Suc n) = Suc (n div k) * k"
proof -
  have lt: "n mod k < k" using assms by simp
  show one: "padded_count k (Suc n) = Suc n + (k - Suc (n mod k))"
    using assms lt by (auto simp: padded_count_def mod_Suc)
  have "Suc n + (k - Suc (n mod k)) = n - n mod k + k" using lt mod_less_eq_dividend [of n k] by linarith
  then show "padded_count k (Suc n) = Suc (n div k) * k" using one by (simp add: minus_mod_eq_div_mult)
qed

lemma calc_padded_unit:
  assumes "w_oid_list w = [i]" "wl_chksum_buf_idx c < length (wx_attr c)" "\<not> wl_initial_part c" "\<not> wl_first_unit c" "wl_seed_unit c"
    "pi_buffers (length (wx_pi c)) c = U"
    "s3_calculate_unit_pi calc (wl_saved_last_index c = 0) (Some (wl_saved_last_index c, i)) U
       (wx_attr c ! wl_chksum_buf_idx c) (w_md5 w) = Some (h', e, ctx)"
  shows "calc_pi_info calc False True False 0 (w, c) =
     Some (w\<lparr>w_md5 := h'\<rparr>,
           c\<lparr>wx_attr := (wx_attr c)[wl_chksum_buf_idx c := e], wl_first_unit := (wl_saved_last_index c = 0),
             wl_chksum_buf_idx := Suc (wl_chksum_buf_idx c)\<rparr>)"
  using assms by (cases c) (simp add: calc_pi_info_def calc_unit_pi_def Let_def pi_buffers_def)

lemma calc_final_unit:
  assumes "\<not> wl_initial_part c" "\<not> wl_first_unit c"
    "s3_calculate_unaligned_buffs_pi calc (wl_saved_last_index c = 0) (pi_buffers v_nr c) (w_md5 w) = Some (h', ctx)"
  shows "calc_pi_info calc False True True v_nr (w, c) = Some (w\<lparr>w_md5 := h'\<rparr>, c\<lparr>wl_first_unit := (wl_saved_last_index c = 0)\<rparr>)"
  using assms by (cases c) (simp add: calc_pi_info_def calc_final_pi_def Let_def pi_buffers_def)

text \<open>The MD5 of the data is taken from the state before the padded unit was digested.\<close>

lemma final_pi_digest:
  assumes "incremental_md5 ini upd fin sb calc" "X \<noteq> [] \<longrightarrow> md5ctx_pre_unaligned h = upd ini X"
  shows "\<exists>h' ctx. s3_calculate_unaligned_buffs_pi calc (X = []) bufs h = Some (h', ctx) \<and> is_finalized h'
     \<and> md5_digest h' = Some (fin (upd ini (X @ concat bufs)))"
  using assms incremental_out [OF assms(1)] by (auto simp: s3_calculate_unaligned_buffs_pi_def Let_def)

text \<open>Two writers that differ only in their padding buffer, their position and their digest.\<close>

definition same_object :: "S3MotrWiter \<Rightarrow> S3MotrWiter \<Rightarrow> bool" where
  "same_object v w \<longleftrightarrow> w_oid_list w = w_oid_list v \<and> w_layout_ids w = w_layout_ids v \<and> w_is_object_opened w = w_is_object_opened v
     \<and> w_is_first_write_part_segment w = w_is_first_write_part_segment v \<and> w_content_md5 w = w_content_md5 v
     \<and> w_di_check w = w_di_check v \<and> w_size_of_each_buf w = w_size_of_each_buf v
     \<and> w_size_in_current_write w = w_size_in_current_write v \<and> w_total_written w = w_total_written v"

lemma allocate_placeholder:
  "\<exists>wA outs. find_and_allocate_placeholder_for_data_alignment env (v, c) = ((wA, c), outs)
     \<and> set outs \<subseteq> range Release_place_holder \<and> (length (wx_data c) < wx_buf_count c \<longrightarrow> w_place_holder wA = we_placeholder env)
     \<and> same_object v wA \<and> w_md5 wA = w_md5 v \<and> w_last_index wA = w_last_index v"
  by (cases "length (wx_data c) < wx_buf_count c"; cases "w_place_holder v \<noteq> None \<and> w_last_op_was_write v \<and> we_pool_buffer_size env \<noteq> -1")
    (simp_all add: find_and_allocate_placeholder_for_data_alignment_def reset_buffers_if_any_def same_object_def Let_def)

lemma padded_facts:
  assumes "padded p r w c = (w', c')" "wl_pi_idx c + r = length (wx_pi c)" "take (wl_pi_idx c) (wx_pi c) = us"
  shows "same_object w w'" "w_md5 w' = w_md5 w" "wx_data c' = wx_data c @ replicate r p"
    "wx_ext c' = wx_ext c @ map (\<lambda>j. (w_last_index w + of_nat j * w_size_of_each_buf w, w_size_of_each_buf w)) [0..<r]"
    "wx_pi c' = us @ replicate r (p, w_size_of_each_buf w)" "wx_attr c' = wx_attr c" "wx_buf_count c' = wx_buf_count c"
    "wl_saved_last_index c' = wl_saved_last_index c" "wl_initial_part c' = wl_initial_part c"
    "wl_chksum_buf_idx c' = wl_chksum_buf_idx c" "wl_at_unit_boundary c' = wl_at_unit_boundary c"
  using assms by (auto simp: padded_def Let_def same_object_def)

lemma save_for_unaligned_facts:
  assumes "md5_at ini upd X (w_md5 w)"
  shows "same_object w (save_for_unaligned w)" "w_last_index (save_for_unaligned w) = w_last_index w"
    "md5_at ini upd X (w_md5 (save_for_unaligned w))" "X \<noteq> [] \<longrightarrow> md5ctx_pre_unaligned (w_md5 (save_for_unaligned w)) = upd ini X"
  using assms
  by (auto simp: save_for_unaligned_def md5_at_def same_object_def save_motr_unit_checksum_for_unaligned_bufs_def)

lemma finish_open:
  assumes inc: "incremental_md5 ini upd fin sb (we_pi env)" and p: "we_placeholder env = Some p" "length p = unat (w_size_of_each_buf w)"
    and cnt: "length (wx_data c) + r = wx_buf_count c" and unal: "wl_unaligned_buf_idx_offset c < length (wx_data c)"
    and pi_idx: "wl_pi_idx c = Suc (length us)" "wl_pi_idx c + r = length (wx_pi c)"
      "take (wl_pi_idx c) (wx_pi c) = map (\<lambda>b. (b, w_size_of_each_buf w)) (us @ [b])"
    and full: "list_all (\<lambda>b. length b = unat (w_size_of_each_buf w)) (us @ [b])"
    and c: "\<not> wl_initial_part c" "\<not> wl_at_unit_boundary c" "wl_saved_last_index c = of_nat (length X)" "length X < 2 ^ 64"
      "wl_chksum_buf_idx c < length (wx_attr c)"
    and md5: "md5_at ini upd X (w_md5 w)" and i: "w_oid_list w = [i]"
  shows "\<exists>w' c' outs e. finish_set_up env len (w, c) = Some ((w', c'), outs) \<and> set outs \<subseteq> range Release_place_holder \<and> same_object w w'
     \<and> wx_data c' = wx_data c @ replicate r p
     \<and> wx_ext c' = wx_ext c @ map (\<lambda>j. (w_last_index w + of_nat j * w_size_of_each_buf w, w_size_of_each_buf w)) [0..<r]
     \<and> (w_di_check w \<longrightarrow> wx_attr c' = (wx_attr c)[wl_chksum_buf_idx c := e]
          \<and> pi_is_md5_inc_context e = pi_is_md5_inc_context (wx_attr c ! wl_chksum_buf_idx c)
          \<and> reader_pi (we_pi env) (pi_prev_context e) i (of_nat (length X)) (us @ [b] @ replicate r p) = Some (pi_value e))
     \<and> is_finalized (w_md5 w') \<and> md5_digest (w_md5 w') = Some (fin (upd ini (X @ concat us @ take (unat len) b)))"
proof -
  let ?sz = "w_size_of_each_buf w" and ?v = "save_for_unaligned w"
  note v = save_for_unaligned_facts [OF md5]
  obtain wA outs where alloc: "find_and_allocate_placeholder_for_data_alignment env (?v, c) = ((wA, c), outs)"
    "set outs \<subseteq> range Release_place_holder" "length (wx_data c) < wx_buf_count c \<longrightarrow> w_place_holder wA = we_placeholder env"
    "same_object ?v wA" "w_md5 wA = w_md5 ?v" "w_last_index wA = w_last_index ?v" using allocate_placeholder [of env ?v c] by blast
  have szA: "w_size_of_each_buf wA = ?sz" "w_oid_list wA = [i]" "w_di_check wA = w_di_check w"
    using alloc(4) v(1) i by (simp_all add: same_object_def)
  obtain w2 c2 where pad: "padded p r wA c = (w2, c2)" by force
  note P = padded_facts [OF pad pi_idx(2) pi_idx(3)]
  have "wx_buf_count c - length (wx_data c) = r" using cnt by simp
  then have align: "align_data_to_motr_unit_size (wA, c) = Some (w2, c2)"
    using pad_loop_eq [of r wA p c] pad cnt alloc(3) p(1) pi_idx(2) by (simp add: align_data_to_motr_unit_size_def)
  have first: "(wl_saved_last_index c2 = 0) = (X = [])" using saved_zero_iff [OF c(4)] P(8) c(3) by simp
  let ?U = "us @ [b] @ replicate r p"
  have takes: "map (\<lambda>b. take (unat ?sz) b) us = us" "take (unat ?sz) b = b" "take (unat ?sz) p = p"
    using full p(2) by (auto simp: list_all_iff intro: map_idI)
  then have U: "pi_buffers (length (wx_pi c2)) c2 = ?U"
    by (simp add: pi_buffers_def P(5) szA comp_def)
  let ?di = "w_di_check w" and ?k = "wl_chksum_buf_idx c" and ?c = "c2\<lparr>wl_first_unit := False, wl_seed_unit := True\<rparr>"
  obtain h1 e ctx where unit: "s3_calculate_unit_pi (we_pi env) (X = []) (Some (of_nat (length X), i)) ?U (wx_attr c ! ?k) (w_md5 w2) = Some (h1, e, ctx)"
    using unit_pi_total [OF inc] by blast
  have pre: "X \<noteq> [] \<longrightarrow> md5ctx_pre_unaligned h1 = upd ini X" "X \<noteq> [] \<longrightarrow> md5ctx_pre_unaligned (w_md5 w2) = upd ini X"
    using unit v(4) P(2) alloc(5) by (auto simp: s3_calculate_unit_pi_def Let_def save_motr_unit_checksum_def split: if_splits)
  have e: "pi_is_md5_inc_context e = pi_is_md5_inc_context (wx_attr c ! ?k)"
    using unit by (auto simp: s3_calculate_unit_pi_def Let_def split: if_splits)
  have di: "calc_pi_info (we_pi env) False True False 0 (w2, ?c) =
      Some (w2\<lparr>w_md5 := h1\<rparr>, ?c\<lparr>wx_attr := (wx_attr ?c)[wl_chksum_buf_idx ?c := e], wl_first_unit := (wl_saved_last_index ?c = 0),
             wl_chksum_buf_idx := Suc (wl_chksum_buf_idx ?c)\<rparr>)"
    using P szA c U unit first same_object_def by (intro calc_padded_unit [of _ i _ ?U]) (simp_all add: pi_buffers_def)
  define w3 where "w3 = (if ?di then w2\<lparr>w_md5 := h1\<rparr> else w2)"
  define c3 where "c3 = (if ?di then ?c\<lparr>wx_attr := (wx_attr ?c)[wl_chksum_buf_idx ?c := e], wl_first_unit := (wl_saved_last_index ?c = 0),
             wl_chksum_buf_idx := Suc (wl_chksum_buf_idx ?c)\<rparr> else c2)"
  let ?c4 = "c3\<lparr>wl_first_unit := False, wl_seed_unit := False,
                wx_pi := (wx_pi c3)[length us := (fst (wx_pi c3 ! length us), len)]\<rparr>"
  have same: "same_object w w3" using v(1) alloc(4) P(1) by (simp add: w3_def same_object_def)
  have c3: "wx_data c3 = wx_data c @ replicate r p" "wx_buf_count c3 = wx_buf_count c" "wx_pi c3 = wx_pi c2" "wx_ext c3 = wx_ext c2"
      "\<not> wl_at_unit_boundary c3" "\<not> wl_initial_part c3" "wl_saved_last_index c3 = wl_saved_last_index c2"
    using P c by (auto simp: c3_def)
  have pis: "wx_pi c2 = map (\<lambda>b. (b, ?sz)) us @ (b, ?sz) # replicate r (p, ?sz)" using P(5) szA(1) by simp
  then have bufs: "pi_buffers (Suc (length us)) ?c4 = us @ [take (unat len) b]"
    using takes(1) by (simp add: pi_buffers_def c3(3) list_update_append nth_append comp_def)
  have "X \<noteq> [] \<longrightarrow> md5ctx_pre_unaligned (w_md5 w3) = upd ini X" using pre by (simp add: w3_def)
  then obtain h2 ctx2 where fin: "s3_calculate_unaligned_buffs_pi (we_pi env) (X = []) (us @ [take (unat len) b]) (w_md5 w3) = Some (h2, ctx2)"
    "is_finalized h2" "md5_digest h2 = Some (fin (upd ini (X @ concat (us @ [take (unat len) b]))))"
    using final_pi_digest [OF inc] by blast
  have final: "calc_pi_info (we_pi env) False True True (Suc (length us)) (w3, ?c4) =
      Some (w3\<lparr>w_md5 := h2\<rparr>, ?c4\<lparr>wl_first_unit := (wl_saved_last_index ?c4 = 0)\<rparr>)"
    using c3 first fin(1) bufs by (intro calc_final_unit [where h' = h2 and ctx = ctx2]) (simp_all del: concat_append)
  let ?w' = "w3\<lparr>w_md5 := h2\<rparr>" and ?c' = "?c4\<lparr>wl_first_unit := (wl_saved_last_index ?c4 = 0)\<rparr>"
  have result: "finish_set_up env len (w, c) = Some ((?w', ?c'), outs)"
  proof -
    have "w_di_check w2 = ?di" using P(1) szA by (simp add: same_object_def)
    then have "(if w_di_check w2 \<and> length (wx_data c) - wl_unaligned_buf_idx_offset c \<noteq> 0
        then calc_pi_info (we_pi env) False True False 0 (w2, ?c) else Some (w2, c2)) = Some (w3, c3)"
      using di unal by (simp add: w3_def c3_def)
    then show ?thesis using alloc(1) align final c3 cnt unal pi_idx(1) pis
      by (simp add: finish_set_up_def Let_def)
  qed
  moreover have "wx_attr ?c' = (wx_attr c)[?k := e]" if "?di" using that P by (simp add: c3_def)
  moreover have "reader_pi (we_pi env) (pi_prev_context e) i (of_nat (length X)) ?U = Some (pi_value e)"
    by (rule unit_pi_validates [OF inc unit])
  ultimately show ?thesis using alloc(2,6) v(2) same c3 P(4) szA(1) fin e
    by (intro exI [of _ ?w'] exI [of _ ?c'] exI [of _ outs] exI [of _ e] conjI) (simp_all add: same_object_def)
qed

lemma content_md5_finalized:
  assumes "w_content_md5 w = []" "is_finalized (w_md5 w)" "md5_digest (w_md5 w) = Some d"
  shows "\<exists>w'. get_content_md5 calc w = Some (w', hex_string d)"
  using assms by (simp add: get_content_md5_def get_md5_string_def with_digest_def md5_Finalize_def)

lemma content_md5_at:
  assumes "incremental_md5 ini upd fin sb calc" "w_content_md5 w = []" "md5_at ini upd X (w_md5 w)" "X \<noteq> []"
  shows "\<exists>w'. get_content_md5 calc w = Some (w', hex_string (fin (upd ini X)))"
  using assms(2-4) incremental_out [OF assms(1)]
  by (simp add: get_content_md5_def get_md5_string_def with_digest_def md5_Finalize_def md5_final_step_def Let_def md5_at_def)

lemma feed_buffers_snoc: "feed_buffers calc (bs @ [b]) s = feed_buffers calc bs s \<bind> feed_buffer calc b"
  by (induction bs arbitrary: s) (auto split: Option.bind_split)

text \<open>After the last buffer, which does not end a unit.\<close>

definition last_state where
  "last_state w k cnt D fs h ps attr sd b len =
     (let (w1, c1) = feed_state w k cnt D fs h ps attr sd False; sz = w_size_of_each_buf w; n = length fs
      in (w1\<lparr>w_last_index := of_nat (length D + Suc n * unat sz), w_size_in_current_write := of_nat (n * unat sz + unat len)\<rparr>,
          c1\<lparr>wx_data := fs @ [b], wx_ext := map (\<lambda>j. (of_nat (length D + j * unat sz), sz)) [0..<Suc n],
             wx_pi := ps[n mod k := (b, sz)], wl_pi_idx := Suc (n mod k)\<rparr>))"

lemma last_state_facts:
  assumes "last_state w k cnt D fs h ps attr sd b len = (w1, c1)"
  shows "same_object w (w1\<lparr>w_size_in_current_write := w_size_in_current_write w\<rparr>)" "w_md5 w1 = h"
    "w_last_index w1 = of_nat (length D + Suc (length fs) * unat (w_size_of_each_buf w))"
    "w_size_in_current_write w1 = of_nat (length fs * unat (w_size_of_each_buf w) + unat len)"
    "wx_data c1 = fs @ [b]" "wx_buf_count c1 = cnt"
    "wx_ext c1 = map (\<lambda>j. (of_nat (length D + j * unat (w_size_of_each_buf w)), w_size_of_each_buf w)) [0..<Suc (length fs)]"
    "wx_pi c1 = ps[length fs mod k := (b, w_size_of_each_buf w)]" "wl_pi_idx c1 = Suc (length fs mod k)" "wx_attr c1 = attr"
    "wl_unaligned_buf_idx_offset c1 = done_count k (length fs)" "\<not> wl_initial_part c1" "\<not> wl_at_unit_boundary c1"
    "wl_saved_last_index c1 = of_nat (length D + done_count k (length fs) * unat (w_size_of_each_buf w))"
    "wl_chksum_buf_idx c1 = length fs div k"
  using assms by (auto simp: last_state_def feed_state_def Let_def same_object_def)

lemma map_upt_add: "map f [0..<a + m] = map f [0..<a] @ map (\<lambda>j. f (a + j)) [0..<m]"
  by (induction m) simp_all

lemma write_open_end:
  assumes inc: "incremental_md5 ini upd fin sb (we_pi env)" and env: "write_env_ok env lid sz k" and w: "object_created lid i w"
    and at: "w_last_index w = of_nat (length D)" "md5_at ini upd D (w_md5 w)"
    and bs: "last_write_ok (unat sz) bs" and bound: "length D + padded_count k (length bs) * unat sz < 2 ^ 64"
    and open_end: "unat (snd (last bs)) < unat sz \<or> length bs mod k \<noteq> 0"
  shows "\<exists>w' outs pads. write_content env bs sz w = Some (w', outs)
     \<and> written env sz k i (length D) (map fst bs @ pads) (w_di_check w) outs \<and> w_content_md5 w' = []
     \<and> length (map fst bs @ pads) = padded_count k (length bs)
     \<and> is_finalized (w_md5 w') \<and> md5_digest (w_md5 w') = Some (fin (upd ini (D @ buffer_data bs)))
     \<and> w_total_written w' = w_total_written w \<and> w_size_in_current_write w' = of_nat (length (buffer_data bs))"
proof -
  define xs where "xs = butlast bs"
  obtain b len where last: "last bs = (b, len)" by force
  have bs_eq: "bs = xs @ [(b, len)]" using bs last append_butlast_last_id [of bs] by (simp add: xs_def last_write_ok_def)
  define n where "n = length xs"
  define fs where "fs = map fst xs"
  define cnt where "cnt = padded_count k (Suc n)"
  let ?B = "unat sz" and ?a = "done_count k n" and ?r = "cnt - Suc n"
  have k: "0 < k" "0 < ?B" using env by (simp_all add: write_env_ok_def)
  have full: "full_buffers ?B xs" and b: "length b = ?B" and len: "0 < unat len" "unat len \<le> ?B"
    using bs last by (simp_all add: last_write_ok_def xs_def)
  note data = full_buffer_data [OF full]
  have len_bs: "length bs = Suc n" "length fs = n" by (simp_all add: bs_eq n_def fs_def)
  note cnt = padded_count_arith [OF k(1), of n, folded cnt_def]
  have bnd: "length D + cnt * ?B < 2 ^ 64" using bound len_bs by (simp add: cnt_def)
  have "bs \<noteq> []" "list_all (\<lambda>b. snd b = sz) (butlast bs)" using full_buffer_sizes [OF full] by (simp_all add: bs_eq)
  from write_content_opened [OF env w this] obtain w1 where wc: "write_content env bs sz w =
       set_up_motr_data_buffers env bs (w1, rw_op_ctx True cnt k w1)
         \<bind> (\<lambda>(s, outs). let (w3, outs3) = launch_write env (fst s\<lparr>w_last_op_was_write := True\<rparr>, snd s) in Some (w3, outs @ outs3))"
    and w1: "object_created lid i w1" "w_last_index w1 = w_last_index w" "w_md5 w1 = w_md5 w" "w_di_check w1 = w_di_check w"
      "w_total_written w1 = w_total_written w" "w_size_of_each_buf w1 = sz" "unat (w_motr_unit_size w1) = k * unat sz"
    unfolding cnt_def len_bs(1) [symmetric] by blast
  obtain ps attr where start: "(w1\<lparr>w_size_in_current_write := 0\<rparr>, rw_op_ctx True cnt k w1)
       = feed_state w1 k cnt D [] (w_md5 w1) ps attr False False"
     "feed_inv ini upd (we_pi env) w1 k cnt D [] (w_md5 w1) ps attr"
    using rw_start [of w1 D ini upd k cnt "we_pi env"] at w1 k by (auto simp: object_created_def)
  have w1': "0 < unat (w_size_of_each_buf w1)" "w_oid_list w1 = [i]" "unat (w_motr_unit_size w1) = k * unat (w_size_of_each_buf w1)"
      "full_buffers (unat (w_size_of_each_buf w1)) xs" "length [] + length xs \<le> cnt" "length D + cnt * unat (w_size_of_each_buf w1) < 2 ^ 64"
    using w1 full k bnd cnt(1) by (simp_all add: object_created_def n_def)
  from feed_all [OF inc k(1) w1'(1-4) start(2) w1'(5,6), of False False]
  obtain h' ps' attr' sd' bd' where fed: "feed_buffers (we_pi env) xs (feed_state w1 k cnt D [] (w_md5 w1) ps attr False False)
       = Some (feed_state w1 k cnt D fs h' ps' attr' sd' bd')"
     "feed_inv ini upd (we_pi env) w1 k cnt D fs h' ps' attr'"
    unfolding fs_def append_Nil by blast
  obtain wL cL where st: "last_state w1 k cnt D fs h' ps' attr' sd' b len = (wL, cL)" by force
  note L = last_state_facts [OF st, unfolded len_bs w1(6)]
  have "Suc n * ?B \<le> cnt * ?B" using cnt(1) by (intro mult_le_mono1) simp
  then have "length D + Suc n * ?B < 2 ^ 64" using bnd by linarith
  then have "feed_buffer (we_pi env) (b, len) (feed_state w1 k cnt D fs h' ps' attr' sd' bd') = Some (wL, cL)"
    using feed_last [OF fed(2) k(1), of len b sd' bd'] len open_end last len_bs cnt(1) w1 st by (simp add: last_state_def)
  then have fed_all: "feed_buffers (we_pi env) bs (w1\<lparr>w_size_in_current_write := 0\<rparr>, rw_op_ctx True cnt k w1) = Some (wL, cL)"
    using fed(1) start(1) bs_eq feed_buffers_snoc by simp
  let ?X = "D @ concat (take ?a fs)" and ?us = "drop ?a fs"
  have inv: "list_all (\<lambda>b. length b = ?B) fs" "length ps' = k" "take (n mod k) ps' = map (\<lambda>b. (b, sz)) ?us" "length attr' = cnt div k"
      "attr_ok (we_pi env) (w_di_check w) i k D fs attr' (n div k)" "md5_at ini upd ?X h'"
    using fed(2) w1 w1'(2) len_bs by (simp_all add: feed_inv_def Let_def)
  have le: "?a \<le> n" "length ?us = n mod k" "n mod k < k" using k(1) by (simp_all add: done_count_def len_bs)
  have X: "length ?X = length D + ?a * ?B"
    using concat_length_full [of ?B "take ?a fs"] inv(1) len_bs le by (auto simp: list_all_iff dest: in_set_takeD)
  have "?a * ?B \<le> cnt * ?B" using le(1) cnt(1) by (intro mult_le_mono1) simp
  then have Xlt: "length ?X < 2 ^ 64" using X bnd by linarith
  obtain p where p: "we_placeholder env = Some p" "length p = ?B" using env by (auto simp: write_env_ok_def)
  have wL: "w_size_of_each_buf wL = sz" "w_oid_list wL = [i]" "w_di_check wL = w_di_check w" "w_content_md5 wL = []"
      "w_total_written wL = w_total_written w"
    using L(1) w1 by (simp_all add: same_object_def object_created_def)
  have r: "Suc (n mod k) + ?r = k" "Suc n + ?r = cnt" using cnt(1) le(3) by simp_all
  have pis: "take (Suc (n mod k)) (ps'[n mod k := (b, sz)]) = map (\<lambda>b. (b, sz)) (?us @ [b])"
    using take_update_at [of "n mod k" ps' "(b, sz)"] inv(2,3) le(3) by simp
  have m: "n div k < length attr'" using inv(4) cnt(2) k(1) by simp
  have "\<exists>w' c' outs e. finish_set_up env len (wL, cL) = Some ((w', c'), outs) \<and> set outs \<subseteq> range Release_place_holder
      \<and> same_object wL w' \<and> wx_data c' = wx_data cL @ replicate ?r p
      \<and> wx_ext c' = wx_ext cL @ map (\<lambda>j. (w_last_index wL + of_nat j * w_size_of_each_buf wL, w_size_of_each_buf wL)) [0..<?r]
      \<and> (w_di_check wL \<longrightarrow> wx_attr c' = (wx_attr cL)[wl_chksum_buf_idx cL := e]
          \<and> pi_is_md5_inc_context e = pi_is_md5_inc_context (wx_attr cL ! wl_chksum_buf_idx cL)
          \<and> reader_pi (we_pi env) (pi_prev_context e) i (of_nat (length ?X)) (?us @ [b] @ replicate ?r p) = Some (pi_value e))
      \<and> is_finalized (w_md5 w') \<and> md5_digest (w_md5 w') = Some (fin (upd ini (?X @ concat ?us @ take (unat len) b)))"
  proof (rule finish_open [OF inc p(1)])
    show "list_all (\<lambda>b. length b = unat (w_size_of_each_buf wL)) (?us @ [b])"
      using inv(1) b by (auto simp: list_all_iff wL dest: in_set_dropD)
    show "take (wl_pi_idx cL) (wx_pi cL) = map (\<lambda>b. (b, w_size_of_each_buf wL)) (?us @ [b])" using pis by (simp add: L wL)
    show "wl_saved_last_index cL = of_nat (length ?X)" unfolding X by (rule L)
  qed (use p(2) L wL r inv le m Xlt len_bs in \<open>simp_all\<close>)
  then obtain w' c' outs e where fin: "finish_set_up env len (wL, cL) = Some ((w', c'), outs)" "set outs \<subseteq> range Release_place_holder"
      "same_object wL w'" "wx_data c' = fs @ [b] @ replicate ?r p"
      "wx_ext c' = wx_ext cL @ map (\<lambda>j. (w_last_index wL + of_nat j * sz, sz)) [0..<?r]"
      "w_di_check w \<longrightarrow> wx_attr c' = attr'[n div k := e] \<and> pi_is_md5_inc_context e = pi_is_md5_inc_context (attr' ! (n div k))
          \<and> reader_pi (we_pi env) (pi_prev_context e) i (of_nat (length ?X)) (?us @ [b] @ replicate ?r p) = Some (pi_value e)"
      "is_finalized (w_md5 w')" "md5_digest (w_md5 w') = Some (fin (upd ini (?X @ concat ?us @ take (unat len) b)))"
    unfolding L(5,10,15) wL(1,3) by (metis append_assoc)
  let ?U = "?us @ [b] @ replicate ?r p" and ?data = "map fst bs @ replicate ?r p"
  have same: "?data = take ?a fs @ ?U" "length ?data = cnt" "length ?U = k" "cnt mod k = 0" "cnt div k = Suc (n div k)"
    using r le cnt(2) k(1) len_bs by (simp_all add: bs_eq fs_def)
  have all_full: "list_all (\<lambda>b. length b = ?B) ?data" using inv(1) b p(2) by (auto simp: list_all_iff bs_eq fs_def)
  have ext: "wx_ext c' = map (\<lambda>j. (of_nat (length D + j * ?B), sz)) [0..<cnt]"
    using fin(5) L(3,7) map_upt_add [of "\<lambda>j. (of_nat (length D + j * ?B) :: size_t, sz)" "Suc n" ?r] r(2)
    by (simp add: algebra_simps del: upt_Suc)
  have attr: "length (attr'[n div k := e]) = cnt div k \<and> validate_units (reader_pi (we_pi env)) i k (of_nat (length D)) (attr'[n div k := e]) ?data"
    if di: "w_di_check w"
  proof -
    have "attr_ok (we_pi env) (w_di_check w) i k D (take ?a fs @ ?U) (attr'[n div k := e]) (Suc (n div k))"
    proof (rule attr_ok_unit [OF _ _ same(3) m])
      show "attr_ok (we_pi env) (w_di_check w) i k D (take ?a fs) attr' (n div k)"
        using inv(5) by (simp add: attr_ok_def done_count_mult)
      show "length (take ?a fs) = n div k * k" using le(1) len_bs by (simp add: done_count_mult)
      show "list_all (\<lambda>b. length b = ?B) (take ?a fs)" using inv(1) by (auto simp: list_all_iff dest: in_set_takeD)
      show "pi_is_md5_inc_context e" using fin(6) di inv(5) m by (simp add: attr_ok_def list_all_length)
      show "reader_pi (we_pi env) (pi_prev_context e) i (of_nat (length D + n div k * k * ?B)) ?U = Some (pi_value e)"
        using fin(6) di X by (simp add: done_count_mult)
    qed
    then have "validate_units (reader_pi (we_pi env)) i k (of_nat (length D)) (take (Suc (n div k)) (attr'[n div k := e])) (take (Suc (n div k) * k) ?data)"
      using di unfolding attr_ok_def same(1) [symmetric] by blast
    moreover have "take (Suc (n div k) * k) ?data = ?data" using same(2) cnt(2) by (intro take_all) simp
    moreover have "take (Suc (n div k)) (attr'[n div k := e]) = attr'[n div k := e]" using inv(4) same(5) by (intro take_all) simp
    ultimately have "validate_units (reader_pi (we_pi env)) i k (of_nat (length D)) (attr'[n div k := e]) ?data" by (simp only:)
    then show ?thesis by (simp add: inv(4))
  qed
  have digest: "?X @ concat ?us @ take (unat len) b = D @ buffer_data bs"
    using data(1) by (simp add: bs_eq buffer_data_def fs_def) (metis append_take_drop_id concat_append fs_def)
  have size: "of_nat (n * ?B + unat len) = (of_nat (length (buffer_data bs)) :: size_t)"
    using data(2) b len by (simp add: bs_eq buffer_data_def n_def min_def)
  let ?w' = "w'\<lparr>w_last_op_was_write := True\<rparr>"
  let ?outs = "outs @ [Write_object (wx_ext c') (wx_data c') (if w_di_check w then Some (wx_attr c') else None)]"
  have "set_up_motr_data_buffers env bs (w1, rw_op_ctx True cnt k w1) = Some ((w', c'), outs)"
    using fed_all fin(1) last by (simp add: set_up_motr_data_buffers_def bs_eq)
  then have "write_content env bs sz w = Some (?w', ?outs)"
    using wc launch_write_ok [OF env] fin(3) wL(3) by (simp add: same_object_def)
  moreover have "written env sz k i (length D) ?data (w_di_check w) ?outs"
    unfolding written_def using fin(2,4,6) ext attr same all_full
    by (intro exI [of _ "attr'[n div k := e]"] exI [of _ outs]) (simp add: bs_eq fs_def)
  moreover have "length ?data = padded_count k (length bs)" using same(2) len_bs(1) by (simp only: cnt_def)
  moreover have "w_content_md5 ?w' = []" "is_finalized (w_md5 ?w')" "md5_digest (w_md5 ?w') = Some (fin (upd ini (D @ buffer_data bs)))"
      "w_total_written ?w' = w_total_written w" "w_size_in_current_write ?w' = of_nat (length (buffer_data bs))"
    using fin(3,7,8) wL L(4) digest size by (simp_all add: same_object_def)
  ultimately show ?thesis by blast
qed

end
