(* ===== verification/Writer_Run.thy ===== *)
theory Writer_Run
  imports Writer_Data
begin

text \<open>
  A whole sequence of writes: the bytes that end up in the Motr object, the checksums that are
  stored with them, and the ETag.
\<close>

text \<open>What the writes do to the bytes of the object.\<close>

definition put_extent :: "(size_t \<times> size_t) \<times> bytes \<Rightarrow> (nat \<Rightarrow> char option) \<Rightarrow> nat \<Rightarrow> char option" where
  "put_extent x m = (case x of ((idx, len), b) \<Rightarrow>
     \<lambda>j. if unat idx \<le> j \<and> j < unat idx + unat len then Some (b ! (j - unat idx)) else m j)"

fun object_image :: "writer_out list \<Rightarrow> (nat \<Rightarrow> char option) \<Rightarrow> nat \<Rightarrow> char option" where
  "object_image [] m = m"
| "object_image (Write_object ext data attr # outs) m = object_image outs (fold put_extent (zip ext data) m)"
| "object_image (_ # outs) m = object_image outs m"

fun is_write :: "writer_out \<Rightarrow> bool" where
  "is_write (Write_object ext data attr) = True"
| "is_write _ = False"

text \<open>A write stores one checksum for each unit of \<open>u\<close> bytes, and a reader that reads back exactly
  what it wrote accepts them; with the integrity check enabled every write stores them.\<close>

fun write_validates :: "motr_pi \<Rightarrow> bool \<Rightarrow> nat \<Rightarrow> m0_uint128 \<Rightarrow> writer_out \<Rightarrow> bool" where
  "write_validates calc di u i (Write_object ext data (Some attr)) =
     (attr \<noteq> [] \<and> length (concat data) = length attr * u \<and> (\<forall>r. mr_oid r = i \<longrightarrow> mr_data r = data \<longrightarrow> mr_starting_index_for_read r = fst (hd ext)
        \<longrightarrow> map_option snd (ValidateStoredChksum (reader_pi calc) attr r) = Some True))"
| "write_validates calc di u i (Write_object ext data None) = (\<not> di)"
| "write_validates calc di u i _ = True"

lemma object_image_append: "object_image (xs @ ys) m = object_image ys (object_image xs m)"
  by (induction xs m rule: object_image.induct) simp_all

lemma object_image_release: "set rel \<subseteq> range Release_place_holder \<Longrightarrow> object_image rel m = m"
  by (induction rel) auto

text \<open>Contiguous extents of full buffers.\<close>

lemma put_extents:
  assumes "list_all (\<lambda>b. length b = unat sz) data" "start + length data * unat sz < 2 ^ 64"
  shows "fold put_extent (zip (map (\<lambda>j. (of_nat (start + j * unat sz), sz)) [0..<length data]) data) m j
     = (if start \<le> j \<and> j < start + length (concat data) then Some (concat data ! (j - start)) else m j)"
  using assms
proof (induction data arbitrary: j rule: rev_induct)
  case Nil
  then show ?case by auto
next
  case (snoc b data)
  let ?B = "unat sz" and ?n = "length data"
  have len: "length (concat data) = ?n * ?B" using concat_length_full snoc.prems(1) by auto
  have b: "length b = ?B" and full: "list_all (\<lambda>b. length b = ?B) data" using snoc.prems(1) by simp_all
  have "unat (of_nat (start + ?n * ?B) :: size_t) = start + ?n * ?B"
    using snoc.prems(2) by (simp add: unsigned_of_nat take_bit_nat_eq_self del: of_nat_add of_nat_mult)
  moreover have "start + ?n * ?B < 2 ^ 64" using snoc.prems(2) by simp
  ultimately show ?case using snoc.IH [OF full] len b
    by (auto simp: put_extent_def nth_append simp del: of_nat_add of_nat_mult)
qed

lemma written_image:
  assumes "written env sz k i start data di outs" "start + length data * unat sz < 2 ^ 64"
  shows "object_image outs m j = (if start \<le> j \<and> j < start + length (concat data) then Some (concat data ! (j - start)) else m j)"
  using assms put_extents [of sz data start m j]
  by (auto simp: written_def object_image_append object_image_release)

lemma written_validates:
  assumes "written env sz k i start data di outs" "0 < k" "data \<noteq> []"
  shows "list_all (write_validates (we_pi env) di (k * unat sz) i) outs" "length (filter is_write outs) = 1"
proof -
  obtain attr rel where outs: "outs = rel @ [Write_object (map (\<lambda>j. (of_nat (start + j * unat sz), sz)) [0..<length data]) data
                              (if di then Some attr else None)]"
    and rel: "set rel \<subseteq> range Release_place_holder" and mod: "length data mod k = 0"
    and full: "list_all (\<lambda>b. length b = unat sz) data"
    and di: "di \<Longrightarrow> length attr = length data div k \<and> validate_units (reader_pi (we_pi env)) i k (of_nat start) attr data"
    using assms(1) by (auto simp: written_def)
  have k: "length data = length data div k * k" using mod by auto
  then have "length data div k \<noteq> 0" using assms(3) by (metis length_0_conv mult_0)
  then have "length data div (length data div k) = k" "length data mod (length data div k) = 0"
    using k by (metis nonzero_mult_div_cancel_left, metis mod_mult_self1_is_0)
  moreover have "hd (map (\<lambda>j. (of_nat (start + j * unat sz) :: size_t, sz)) [0..<length data]) = (of_nat start, sz)"
    using assms(3) by (simp add: hd_map)
  moreover have "length (concat data) = length data div k * (k * unat sz)"
    using k concat_length_full [OF full] by (metis mult.assoc)
  ultimately have "write_validates (we_pi env) di (k * unat sz) i (last outs)"
    using di \<open>length data div k \<noteq> 0\<close> by (auto simp: outs ValidateStoredChksum_def)
  moreover have "list_all (write_validates (we_pi env) di (k * unat sz) i) rel" using rel by (auto simp: list_all_iff)
  ultimately show "list_all (write_validates (we_pi env) di (k * unat sz) i) outs" by (simp add: outs)
  have "filter is_write rel = []" using rel by (auto simp: filter_empty_conv)
  then show "length (filter is_write outs) = 1" by (simp add: outs)
qed

lemma last_write_data:
  assumes "last_write_ok B bs"
  shows "length (buffer_data bs) \<le> length (concat (map fst bs))" "buffer_data bs = take (length (buffer_data bs)) (concat (map fst bs))"
    "buffer_data bs \<noteq> []" "length (concat (map fst bs)) = length bs * B"
proof -
  obtain b len where last: "last bs = (b, len)" by force
  have bs: "bs = butlast bs @ [(b, len)]" using assms last append_butlast_last_id [of bs] by (simp add: last_write_ok_def)
  have len: "length b = B" "unat len \<le> B" "0 < unat len" and full: "full_buffers B (butlast bs)"
    using assms last by (simp_all add: last_write_ok_def)
  have eq: "buffer_data bs = concat (map fst (butlast bs)) @ take (unat len) b" "concat (map fst bs) = concat (map fst (butlast bs)) @ b"
    using full_buffer_data(1) [OF full] by (subst bs, simp add: buffer_data_def)+
  have "length bs * B = (length bs - 1) * B + B" using assms by (cases bs) (auto simp: last_write_ok_def)
  then show "length (buffer_data bs) \<le> length (concat (map fst bs))" "buffer_data bs = take (length (buffer_data bs)) (concat (map fst bs))"
    "buffer_data bs \<noteq> []" "length (concat (map fst bs)) = length bs * B"
    using eq len full_buffer_data(2) [OF full] by (auto simp: full_buffer_data(1) [OF full])
qed

lemma write_last:
  assumes inc: "incremental_md5 ini upd fin sb (we_pi env)" and env: "write_env_ok env lid sz k" and w: "object_created lid i w"
    and at: "w_last_index w = of_nat (length D)" "md5_at ini upd D (w_md5 w)"
    and bs: "last_write_ok (unat sz) bs" and bound: "length D + padded_count k (length bs) * unat sz < 2 ^ 64"
  shows "\<exists>w' outs pads. write_content env bs sz w = Some (w', outs)
     \<and> written env sz k i (length D) (map fst bs @ pads) (w_di_check w) outs \<and> length (map fst bs @ pads) = padded_count k (length bs)
     \<and> (\<exists>v. get_content_md5 (we_pi env) (fst (write_content_successful w')) = Some (v, hex_string (fin (upd ini (D @ buffer_data bs)))))
     \<and> w_total_written w' = w_total_written w \<and> w_size_in_current_write w' = of_nat (length (buffer_data bs))"
proof (cases "unat (snd (last bs)) < unat sz \<or> length bs mod k \<noteq> 0")
  case True
  from write_open_end [OF inc env w at bs bound True] show ?thesis
    using content_md5_finalized [of "fst (write_content_successful _)"] by (force simp: write_content_successful_def)
next
  case False
  then have "full_buffers (unat sz) bs"
    using bs append_butlast_last_id [of bs] list_all_append [of _ "butlast bs" "[last bs]"]
    by (auto simp: last_write_ok_def full_buffers_def split_def)
  then have ok: "unit_write_ok (unat sz) k bs" using False bs by (simp add: unit_write_ok_def last_write_ok_def)
  have "length D + length bs * unat sz < 2 ^ 64" using bound False by (simp add: padded_count_whole)
  from write_units [OF inc env w at ok this] obtain w' outs where W: "write_content env bs sz w = Some (w', outs)"
     "written env sz k i (length D) (map fst bs) (w_di_check w) outs" "object_created lid i w'"
     "md5_at ini upd (D @ buffer_data bs) (w_md5 w')" "w_total_written w' = w_total_written w"
     "w_size_in_current_write w' = of_nat (length (buffer_data bs))" by blast
  have "\<exists>v. get_content_md5 (we_pi env) (fst (write_content_successful w')) = Some (v, hex_string (fin (upd ini (D @ buffer_data bs))))"
    using W(3,4) last_write_data(3) [OF bs] by (intro content_md5_at [OF inc]) (auto simp: write_content_successful_def object_created_def)
  moreover have "length bs = padded_count k (length bs)" using False by (simp add: padded_count_whole)
  ultimately show ?thesis using W by (intro exI [of _ w'] exI [of _ outs] exI [of _ "[]"]) simp
qed

text \<open>\<open>holds\<close>: the object begins with these bytes.\<close>

definition holds :: "bytes \<Rightarrow> (nat \<Rightarrow> char option) \<Rightarrow> bool" where
  "holds D m \<longleftrightarrow> (\<forall>j < length D. m j = Some (D ! j))"

lemma holds_written:
  assumes "written env sz k i (length D) data di outs" "length D + length data * unat sz < 2 ^ 64" "holds D m"
    "X = take (length X) (concat data)" "length X \<le> length (concat data)"
  shows "holds (D @ X) (object_image outs m)"
proof -
  have "X ! j = concat data ! j" if "j < length X" for j using assms(4) that by (metis nth_take)
  then show ?thesis using assms(3,5) written_image [OF assms(1,2)] by (auto simp: holds_def nth_append)
qed

lemma padded_le: "0 < k \<Longrightarrow> padded_count k n \<le> n + k"
  by (simp add: padded_count_def)

lemma buffer_data_append: "buffer_data (xs @ ys) = buffer_data xs @ buffer_data ys"
  by (simp add: buffer_data_def)

lemma write_run_spec:
  assumes inc: "incremental_md5 ini upd fin sb (we_pi env)" and env: "write_env_ok env lid sz k"
  shows "writes_ok (unat sz) k bss \<Longrightarrow> object_created lid i w \<Longrightarrow> w_last_index w = of_nat (length D)
     \<Longrightarrow> md5_at ini upd D (w_md5 w) \<Longrightarrow> w_total_written w = of_nat (length D)
     \<Longrightarrow> length D + (length (concat bss) + k) * unat sz < 2 ^ 64
     \<Longrightarrow> \<exists>w' outs. write_run env sz bss w = Some (w', outs)
       \<and> (\<exists>v. get_content_md5 (we_pi env) w' = Some (v, hex_string (fin (upd ini (D @ buffer_data (concat bss))))))
       \<and> w_total_written w' = of_nat (length (D @ buffer_data (concat bss)))
       \<and> (\<forall>m. holds D m \<longrightarrow> holds (D @ buffer_data (concat bss)) (object_image outs m))
       \<and> list_all (write_validates (we_pi env) (w_di_check w) (k * unat sz) i) outs
       \<and> length (filter is_write outs) = length bss"
proof (induction bss arbitrary: w D)
  case Nil
  then show ?case by (simp add: writes_ok_def)
next
  case (Cons bs bss)
  have k: "0 < k" using env by (simp add: write_env_ok_def)
  show ?case
  proof (cases "bss = []")
    case True
    then have ok: "last_write_ok (unat sz) bs" using Cons.prems(1) by (simp add: writes_ok_def)
    have "padded_count k (length bs) * unat sz \<le> (length bs + k) * unat sz" by (intro mult_le_mono1 padded_le k)
    then have bound: "length D + padded_count k (length bs) * unat sz < 2 ^ 64" using Cons.prems(6) True by (simp only: concat.simps append_Nil2)
    obtain w' outs pads where W: "write_content env bs sz w = Some (w', outs)"
       "written env sz k i (length D) (map fst bs @ pads) (w_di_check w) outs" "length (map fst bs @ pads) = padded_count k (length bs)"
       "\<exists>v. get_content_md5 (we_pi env) (fst (write_content_successful w')) = Some (v, hex_string (fin (upd ini (D @ buffer_data bs))))"
       "w_total_written w' = w_total_written w" "w_size_in_current_write w' = of_nat (length (buffer_data bs))"
      using write_last [OF inc env Cons.prems(2-4) ok bound] by blast
    note data = last_write_data [OF ok]
    have "holds (D @ buffer_data bs) (object_image outs m)" if "holds D m" for m
      using W(3) bound data(1,2) that by (intro holds_written [OF W(2)]) (simp_all add: take_append)
    moreover have "list_all (write_validates (we_pi env) (w_di_check w) (k * unat sz) i) outs"
        "length (filter is_write outs) = 1"
      using ok by (intro written_validates [OF W(2) k]; auto simp: last_write_ok_def)+
    ultimately show ?thesis using W Cons.prems(5) True by (auto simp: write_content_successful_def)
  next
    case False
    then have ok: "unit_write_ok (unat sz) k bs" "writes_ok (unat sz) k bss" using Cons.prems(1) by (simp_all add: writes_ok_def)
    have full: "full_buffers (unat sz) bs" "bs \<noteq> []" using ok(1) by (simp_all add: unit_write_ok_def)
    note data = full_buffer_data [OF full(1)]
    have bound: "length D + length bs * unat sz < 2 ^ 64"
        "length (D @ buffer_data bs) + (length (concat bss) + k) * unat sz < 2 ^ 64"
      using Cons.prems(6) data(2) by (simp_all add: algebra_simps)
    obtain w' outs where W: "write_content env bs sz w = Some (w', outs)"
       "written env sz k i (length D) (map fst bs) (w_di_check w) outs" "object_created lid i w'"
       "w_last_index w' = of_nat (length (D @ buffer_data bs))" "md5_at ini upd (D @ buffer_data bs) (w_md5 w')"
       "w_di_check w' = w_di_check w" "w_total_written w' = w_total_written w" "w_size_in_current_write w' = of_nat (length (buffer_data bs))"
      using write_units [OF inc env Cons.prems(2-4) ok(1) bound(1)] by blast
    let ?w = "fst (write_content_successful w')"
    have "object_created lid i ?w" "w_last_index ?w = of_nat (length (D @ buffer_data bs))" "md5_at ini upd (D @ buffer_data bs) (w_md5 ?w)"
        "w_total_written ?w = of_nat (length (D @ buffer_data bs))"
      using W Cons.prems(5) by (simp_all add: write_content_successful_def object_created_def)
    from Cons.IH [OF ok(2) this bound(2)] obtain w2 outs2 where R: "write_run env sz bss ?w = Some (w2, outs2)"
       "\<exists>v. get_content_md5 (we_pi env) w2 = Some (v, hex_string (fin (upd ini ((D @ buffer_data bs) @ buffer_data (concat bss)))))"
       "w_total_written w2 = of_nat (length ((D @ buffer_data bs) @ buffer_data (concat bss)))"
       "\<forall>m. holds (D @ buffer_data bs) m \<longrightarrow> holds ((D @ buffer_data bs) @ buffer_data (concat bss)) (object_image outs2 m)"
       "list_all (write_validates (we_pi env) (w_di_check ?w) (k * unat sz) i) outs2"
       "length (filter is_write outs2) = length bss" by blast
    have "holds (D @ buffer_data bs) (object_image outs m)" if "holds D m" for m
      using bound(1) data(1) that by (intro holds_written [OF W(2)]) simp_all
    moreover have "list_all (write_validates (we_pi env) (w_di_check w) (k * unat sz) i) outs" "length (filter is_write outs) = 1"
      using full(2) by (intro written_validates [OF W(2) k]; simp)+
    ultimately show ?thesis using W(1,6) R by (simp add: buffer_data_append object_image_append write_content_successful_def)
  qed
qed

section \<open>Properties\<close>

text \<open>C11: The ETag of an uploaded object is the MD5 of its bytes.  Whatever the sequence of
  writes, as long as every write but the last consists of whole Motr units, the digest the writer
  reports after the last write is the MD5 of the data, although the units are padded, checksummed
  one by one and digested again with their padding.  The number of bytes written is that of the
  data.\<close>

theorem content_md5_is_md5_of_data:
  assumes "incremental_md5 MD5_Init MD5_Update MD5_Final seed_str (we_pi env)" "write_env_ok env lid sz k"
    "writes_ok (unat sz) k bss" "(length (concat bss) + k) * unat sz < 2 ^ 64"
    "object_created lid i w" "w_last_index w = 0" "w_total_written w = 0" "\<not> is_finalized (w_md5 w)"
  shows "\<exists>w' outs v. write_run env sz bss w = Some (w', outs)
     \<and> get_content_md5 (we_pi env) w' = Some (v, hex_string (MD5_Final (MD5_Update MD5_Init (buffer_data (concat bss)))))
     \<and> w_total_written w' = of_nat (length (buffer_data (concat bss)))"
proof -
  have "md5_at MD5_Init MD5_Update [] (w_md5 w)" using assms(8) by (simp add: md5_at_def)
  then show ?thesis using write_run_spec [OF assms(1,2,3,5), of "[]"] assms(4,6,7) by auto
qed

text \<open>C12: The bytes of an upload reach the Motr object in order and without gaps: after the
  writes, byte \<open>j\<close> of the object is byte \<open>j\<close> of the data, whatever the object held before and
  whatever the padding buffer holds.\<close>

theorem writes_store_data:
  assumes "incremental_md5 MD5_Init MD5_Update MD5_Final seed_str (we_pi env)" "write_env_ok env lid sz k"
    "writes_ok (unat sz) k bss" "(length (concat bss) + k) * unat sz < 2 ^ 64"
    "object_created lid i w" "w_last_index w = 0" "w_total_written w = 0" "\<not> is_finalized (w_md5 w)"
  shows "\<exists>w' outs. write_run env sz bss w = Some (w', outs)
     \<and> (\<forall>j < length (buffer_data (concat bss)). object_image outs m j = Some (buffer_data (concat bss) ! j))"
proof -
  have "md5_at MD5_Init MD5_Update [] (w_md5 w)" "holds [] m" using assms(8) by (simp_all add: md5_at_def holds_def)
  then show ?thesis using write_run_spec [OF assms(1,2,3,5), of "[]"] assms(4,6,7) by (auto simp: holds_def)
qed

text \<open>C38: The checksums stored with the data validate when it is read back: with the
  integrity check enabled each of the writes reaches Motr and carries one entry for each unit, of the
  size the object's layout gives, of the data it writes (padding included), and a reader that reads
  the extents of that write accepts the data.\<close>

theorem stored_checksums_validate:
  assumes "incremental_md5 MD5_Init MD5_Update MD5_Final seed_str (we_pi env)" "write_env_ok env lid sz k"
    "writes_ok (unat sz) k bss" "(length (concat bss) + k) * unat sz < 2 ^ 64"
    "object_created lid i w" "w_last_index w = 0" "w_total_written w = 0" "\<not> is_finalized (w_md5 w)" "w_di_check w"
  shows "\<exists>w' outs. write_run env sz bss w = Some (w', outs) \<and> length (filter is_write outs) = length bss
     \<and> list_all (write_validates (we_pi env) True (unat (get_unit_size_for_layout (we_layouts env) lid)) i) outs"
proof -
  have "md5_at MD5_Init MD5_Update [] (w_md5 w)" "unat (get_unit_size_for_layout (we_layouts env) lid) = k * unat sz"
    using assms(2,8) by (simp_all add: md5_at_def write_env_ok_def)
  then show ?thesis using write_run_spec [OF assms(1,2,3,5), of "[]"] assms(4,6,7,9) by auto
qed

section \<open>A concrete upload\<close>

text \<open>A digest that keeps what it was fed stands for MD5; the object is created and two writes follow.\<close>

definition sample_pi :: motr_pi where
  "sample_pi flag prev seed bufs =
     (let p = (if flag = M0_PI_CALC_UNIT_ZERO then [] else prev); ctx = p @ concat bufs
      in \<lparr>po_rc = 0, po_prev = p, po_ctx = ctx,
          po_value = (case seed of None \<Rightarrow> ctx | Some s \<Rightarrow> ctx @ to_dec (unat (fst s))), po_plain = ctx\<rparr>)"

lemma sample_pi_incremental: "incremental_md5 [] (@) (\<lambda>ctx. ctx) (\<lambda>s. to_dec (unat (fst s))) sample_pi"
proof -
  have "foldl (@) p bufs = p @ concat bufs" for p :: bytes and bufs by (induction bufs arbitrary: p) simp_all
  then show ?thesis by (simp add: incremental_md5_def sample_pi_def Let_def)
qed

definition sample_writer_env :: writer_env where
  "sample_writer_env =
     \<lparr>we_layouts = sample_layouts, we_pi = sample_pi, we_pi_md5 = True, we_pool_buffer_size = 4096,
      we_placeholder = Some (replicate 4096 (CHR ''p'')), we_rw_op_ctx = True, we_entity_create = 0,
      we_entity_open = (\<lambda>_. 0), we_entity_delete = (\<lambda>_. 0), we_obj_op = 0, we_corrupt_on_write = False,
      we_teardown_called = False\<rparr>"

definition sample_oid :: m0_uint128 where "sample_oid = \<lparr>u_hi = 1, u_lo = 2\<rparr>"

definition sample_writer :: S3MotrWiter where
  "sample_writer =
     (case create_object_successful \<lparr>f_container = 3, f_key = 4\<rparr>
             (fst (create_object sample_writer_env sample_oid 3 (S3MotrWiter_init sample_pi True sample_oid))) of
        Some (w, _) \<Rightarrow> w)"

definition sample_writes :: "S3BufferSequence list" where
  "sample_writes = [replicate 4 (replicate 4096 (CHR ''a''), 4096), [(replicate 4096 (CHR ''b''), 10)]]"

lemma sample_write_conditions:
  "write_env_ok sample_writer_env 3 4096 4" "writes_ok (unat (4096 :: size_t)) 4 sample_writes"
  "(length (concat sample_writes) + 4) * unat (4096 :: size_t) < 2 ^ 64" "object_created 3 sample_oid sample_writer"
  "w_last_index sample_writer = 0" "w_total_written sample_writer = 0" "\<not> is_finalized (w_md5 sample_writer)" "w_di_check sample_writer"
  by (simp_all add: write_env_ok_def sample_writer_env_def get_unit_size_for_layout_def sample_layouts_fields S3MotrLayoutMap_init_def map_index_def map_get_def
      writes_ok_def sample_writes_def unit_write_ok_def last_write_ok_def full_buffers_def list_all_iff
      sample_writer_def create_object_successful_def create_object_def release_before_reuse_def
      S3MotrWiter_init_def set_oid_def set_layout_id_def object_created_def MD5hash_init_def md5_Reset_def Let_def)

theorem content_md5_is_md5_of_data_witness:
  "\<exists>w' outs v. write_run sample_writer_env 4096 sample_writes sample_writer = Some (w', outs)
     \<and> get_content_md5 sample_pi w' = Some (v, hex_string (buffer_data (concat sample_writes)))
     \<and> w_total_written w' = of_nat (length (buffer_data (concat sample_writes)))"
  using content_md5_is_md5_of_data [of "[]" "(@)" "\<lambda>ctx. ctx" "\<lambda>s. to_dec (unat (fst s))" sample_writer_env, OF _ sample_write_conditions(1-7)]
    sample_pi_incremental by (simp add: sample_writer_env_def)

theorem writes_store_data_witness:
  "\<exists>w' outs. write_run sample_writer_env 4096 sample_writes sample_writer = Some (w', outs)
     \<and> (\<forall>j < length (buffer_data (concat sample_writes)). object_image outs (\<lambda>_. None) j = Some (buffer_data (concat sample_writes) ! j))"
  using writes_store_data [of "[]" "(@)" "\<lambda>ctx. ctx" "\<lambda>s. to_dec (unat (fst s))" sample_writer_env, OF _ sample_write_conditions(1-7)]
    sample_pi_incremental by (simp add: sample_writer_env_def)

theorem stored_checksums_validate_witness:
  "\<exists>w' outs. write_run sample_writer_env 4096 sample_writes sample_writer = Some (w', outs)
     \<and> length (filter is_write outs) = 2 \<and> list_all (write_validates sample_pi True 16384 sample_oid) outs"
proof -
  have "length sample_writes = 2" by (simp add: sample_writes_def)
  then show ?thesis
    using stored_checksums_validate [of "[]" "(@)" "\<lambda>ctx. ctx" "\<lambda>s. to_dec (unat (fst s))" sample_writer_env, OF _ sample_write_conditions]
      sample_pi_incremental sample_write_conditions(1)
    by (simp add: sample_writer_env_def write_env_ok_def)
qed

end
