(* ===== verification/Delete_Object.thy ===== *)
theory Delete_Object
  imports Get_Object Object_Engine Motr_Writer
begin

text \<open>
  \<open>server/s3_probable_delete_record.cc\<close> and \<open>server/s3_delete_object_action.cc\<close>: deletion of an
  object.  Before the metadata is removed a record of the object is put into the index of probably
  dead objects, from which the background deletion cleans up; after the response the record is
  marked, the Motr object is deleted and the record is removed.

  The action extends \<open>object_action\<close>; the metadata is removed by the engine of \<open>Object_Engine\<close>
  and the data by the writer of \<open>Motr_Writer\<close>.  A handler returns the new state and what it did;
  a request to the store or to Motr, and a call of a task or of a virtual function, is always the
  last entry.  A failed assertion, a null pointer and an exception of \<open>at\<close> are \<open>None\<close>.
\<close>

section \<open>The record of a probably dead object\<close>

record S3ProbableDeleteRecord =
  pd_record_key :: string
  pd_old_object_oid :: m0_uint128
  pd_object_key_in_index :: string
  pd_current_object_oid :: m0_uint128
  pd_object_layout_id :: "32 word"
  pd_pvid_str :: string
  pd_object_list_idx_oid :: m0_uint128
  pd_objects_version_list_idx_oid :: m0_uint128
  pd_version_key_in_index :: string
  pd_force_delete :: bool
  pd_is_multipart :: bool
  pd_part_list_idx_oid :: m0_uint128
  pd_fragment :: "32 word"
  pd_part :: "32 word"
  pd_extended_md_idx_oid :: m0_uint128
  pd_ext_version_id :: string
  pd_mp_parent_oid :: m0_uint128

definition zero_oid :: m0_uint128 where "zero_oid = \<lparr>u_hi = 0, u_lo = 0\<rparr>"

text \<open>The constructor checks its arguments with assertions.\<close>

definition S3ProbableDeleteRecord_new :: "S3ProbableDeleteRecord \<Rightarrow> S3ProbableDeleteRecord option" where
  "S3ProbableDeleteRecord_new r =
     (if pd_object_key_in_index r = [] \<or> pd_object_layout_id r = -1 \<or> pd_object_list_idx_oid r = zero_oid
         \<or> (if pd_is_multipart r then pd_part_list_idx_oid r = zero_oid else pd_objects_version_list_idx_oid r = zero_oid)
      then None else Some r)"

record pd_env =
  pe_lib :: jsoncpp
  pe_motr_process_fid :: string
  pe_global_instance_id :: m0_uint128
  pe_now :: string

definition json_bool :: "bool \<Rightarrow> json" where
  "json_bool b = JStr (if b then ''true'' else ''false'')"

definition probable_doc :: "pd_env \<Rightarrow> S3ProbableDeleteRecord \<Rightarrow> (string, json) std_map" where
  "probable_doc e r =
     (let r1 = map_put ''old_oid'' (JStr (uint128_to_string (pd_old_object_oid r))) [];
          r2 = map_put ''object_key_in_index'' (JStr (pd_object_key_in_index r)) r1;
          r3 = map_put ''object_layout_id'' (JInt (sint (pd_object_layout_id r))) r2;
          r4 = map_put ''object_list_index_oid'' (JStr (uint128_to_string (pd_object_list_idx_oid r))) r3;
          r5 = map_put ''objects_version_list_index_oid'' (JStr (uint128_to_string (pd_objects_version_list_idx_oid r))) r4;
          r6 = map_put ''motr_process_fid'' (JStr (c_str (pe_motr_process_fid e))) r5;
          r7 = map_put ''global_instance_id'' (JStr (uint128_to_string (pe_global_instance_id e))) r6;
          r8 = map_put ''pv_id'' (JStr (c_str (pd_pvid_str r))) (map_put ''force_delete'' (json_bool (pd_force_delete r)) r7);
          r9 = map_put ''is_multipart'' (json_bool (pd_is_multipart r)) r8;
          r10 = (if pd_is_multipart r then map_put ''part_list_idx_oid'' (JStr (uint128_to_string (pd_part_list_idx_oid r))) r9 else r9);
          r11 = map_put ''version_key_in_index'' (JStr (pd_version_key_in_index r)) r10;
          r12 = (if pd_fragment r \<noteq> 0 then map_put ''fno'' (JInt (uint (pd_fragment r))) r11 else r11);
          r13 = (if pd_part r \<noteq> 0 then map_put ''part'' (JInt (uint (pd_part r))) r12 else r12);
          r14 = (if pd_fragment r \<noteq> 0 \<or> pd_part r \<noteq> 0
                 then map_put ''extended_md_idx_oid'' (JStr (uint128_to_string (pd_extended_md_idx_oid r)))
                        (map_put ''parent_oid'' (JStr (uint128_to_string (pd_mp_parent_oid r)))
                          (map_put ''ext_version_id'' (JStr (pd_ext_version_id r)) r13)) else r13)
      in map_put ''create_timestamp'' (JStr (pe_now e)) r14)"

definition probable_to_json :: "pd_env \<Rightarrow> S3ProbableDeleteRecord \<Rightarrow> string" where
  "probable_to_json e r = writer_write (pe_lib e) (JObj (probable_doc e r))"

definition set_force_delete :: "bool \<Rightarrow> S3ProbableDeleteRecord \<Rightarrow> S3ProbableDeleteRecord" where
  "set_force_delete flag r = r\<lparr>pd_force_delete := flag\<rparr>"

section \<open>State of the action\<close>

datatype S3DeleteObjectActionState =
    Del_empty | Del_validationFailed | Del_probableEntryRecordFailed | Del_metadataDeleted | Del_metadataDeleteFailed

datatype del_task =
    Del_base s3_base_task | populate_probable_dead_oid_list | delete_metadata | Del_send_response
  | mark_oids_for_deletion | Del_delete_objects | mark_oid_for_deletion | Del_delete_object | remove_probable_record

text \<open>The operations in flight, with the handlers they were started with.\<close>

datatype del_wait =
    Wait_probable_record | Wait_marked | Wait_marked_partly "32 word" | Wait_record_removed | Wait_oids_removed

datatype del_cont = After_metadata | After_version | After_version_keyval | After_fragments | After_fragments_keyval

datatype del_writer_cont = Then_remove_probable_record | Then_delete_objects_success

record del_action = "del_task object_action" +
  d_oid_str :: string
  d_rec :: "S3ProbableDeleteRecord option"
  d_rec_list :: "S3ProbableDeleteRecord list"
  d_extended_objects :: "S3ExtendedObjectInfo list"
  d_state :: S3DeleteObjectActionState
  d_total_processed_count :: "32 word"
  d_writer :: "S3MotrWiter option"
  d_writer_cont :: "del_writer_cont option"

record del_env =
  de_act :: action_env
  de_pd :: pd_env
  de_obj :: object_env
  de_writer :: writer_env
  de_di_check :: bool
  de_delayed_delete :: bool
  de_probable_idx :: s3_motr_idx_layout
  de_app_id :: m0_uint128
  de_uri_oid :: m0_uint128

datatype del_out =
    D_base "del_task oa_out"
  | D_kv del_wait kvs_op
  | D_obj del_cont object_waiting kvs_op
  | D_ext del_cont ext_waiting kvs_op
  | D_writer writer_out

type_synonym del_result = "del_action \<times> del_out list"

definition MAX_OIDS_FOR_DELETION :: nat where "MAX_OIDS_FOR_DELETION = 30"

definition del_action_init :: "object_request \<Rightarrow> bool \<Rightarrow> string list \<Rightarrow> del_action" where
  "del_action_init req is_auth_disabled in_headers =
     (let a = object_action_init req is_auth_disabled in_headers False False Del_base;
          act = add_task Del_send_response (add_task delete_metadata (add_task populate_probable_dead_oid_list
                  ((oa_act a)\<lparr>action_uses_cleanup := True\<rparr>)))
      in object_action.extend (a\<lparr>oa_act := act\<rparr>) (del_action.fields [] None [] [] Del_empty 0 None None))"

definition del_next :: "del_env \<Rightarrow> del_action \<Rightarrow> del_result" where
  "del_next e d = (let (d1, outs) = oa_next (de_act e) d in (d1, map D_base outs))"

definition del_done :: "del_action \<Rightarrow> del_result" where
  "del_done d = (let (d1, outs) = oa_done d in (d1, map D_base outs))"

section \<open>The response and the start of the cleanup\<close>

definition set_cleanup_tasks :: "del_task list \<Rightarrow> del_action \<Rightarrow> del_action" where
  "set_cleanup_tasks ts d = d\<lparr>oa_act := fold add_task ts (oa_act d)\<rparr>"

definition del_start :: "del_env \<Rightarrow> del_action \<Rightarrow> del_result" where
  "del_start e d = (let (act, ev) = action_start (de_act e) (oa_act d) in (d\<lparr>oa_act := act\<rparr>, map (D_base \<circ> Engine) ev))"

definition startcleanup :: "del_env \<Rightarrow> del_action \<Rightarrow> del_result option" where
  "startcleanup e d =
     (let d1 = d\<lparr>oa_act := (clear_tasks (oa_act d))\<lparr>cleanup_started := True\<rparr>\<rparr>
      in case d_state d1 of
           Del_validationFailed \<Rightarrow> Some (del_done d1)
         | Del_probableEntryRecordFailed \<Rightarrow> Some (del_done d1)
         | Del_metadataDeleted \<Rightarrow>
             map_option (\<lambda>ob. del_start e (set_cleanup_tasks
                 (if om_obj_fragments ob > 0 then [mark_oids_for_deletion, Del_delete_objects]
                  else [mark_oid_for_deletion, Del_delete_object]) d1)) (oa_object d1)
         | Del_metadataDeleteFailed \<Rightarrow> Some (del_start e (set_cleanup_tasks [remove_probable_record] d1))
         | Del_empty \<Rightarrow> None)"

definition del_send_response :: "del_env \<Rightarrow> del_action \<Rightarrow> del_result option" where
  "del_send_response e d =
     (let act = oa_act d;
          reply = (if is_error_state act \<and> s3_error_code act \<noteq> []
                   then Some ((if s3_error_code act = ''ServiceUnavailable'' then [Out_header ''Retry-After'' ''1''] else [])
                              @ [Respond (s3_error_code act)])
                   else if \<not> non_zero (oid (oa_obj_list_idx_lo d)) then Some [Respond_status 204 []]
                   else (case oa_object d of
                           None \<Rightarrow> None
                         | Some ob \<Rightarrow> if om_state ob = Omissing \<or> om_state ob = Odeleted then Some [Respond_status 204 []] else None))
      in case reply of
           None \<Rightarrow> None
         | Some outs \<Rightarrow> map_option (\<lambda>(d1, outs1). (d1, map D_base outs @ outs1)) (startcleanup e d))"

definition del_fail :: "del_env \<Rightarrow> S3DeleteObjectActionState \<Rightarrow> string option \<Rightarrow> del_action \<Rightarrow> del_result option" where
  "del_fail e s code d =
     (let d1 = d\<lparr>d_state := s\<rparr>
      in del_send_response e (case code of None \<Rightarrow> d1 | Some c \<Rightarrow> oa_set_error c d1))"

definition del_fetch_bucket_info_failed :: "del_env \<Rightarrow> del_action \<Rightarrow> del_result option" where
  "del_fetch_bucket_info_failed e d =
     (case oa_bucket d of
        None \<Rightarrow> None
      | Some b \<Rightarrow>
          del_fail e Del_validationFailed
            (Some (if bm_state b = Bfailed_to_launch then ''ServiceUnavailable''
                   else if bm_state b = Bmissing then ''NoSuchBucket'' else ''InternalError'')) d)"

text \<open>The state of the action is left as it is.\<close>

definition del_fetch_ext_object_info_failed :: "del_env \<Rightarrow> del_action \<Rightarrow> del_result option" where
  "del_fetch_ext_object_info_failed e d = del_send_response e (oa_set_error ''InternalError'' d)"

definition del_fetch_object_info_failed :: "del_env \<Rightarrow> del_action \<Rightarrow> del_result option" where
  "del_fetch_object_info_failed e d =
     (if \<not> non_zero (oid (oa_obj_list_idx_lo d)) then del_fail e Del_validationFailed None d
      else case oa_object d of
             None \<Rightarrow> None
           | Some ob \<Rightarrow>
               del_fail e Del_validationFailed
                 (if om_state ob = Omissing then None
                  else if om_state ob = Ofailed_to_launch then Some ''ServiceUnavailable'' else Some ''InternalError'') d)"

section \<open>Records of the objects\<close>

definition put_record :: "del_env \<Rightarrow> del_wait \<Rightarrow> string \<Rightarrow> S3ProbableDeleteRecord \<Rightarrow> del_action \<Rightarrow> del_result option" where
  "put_record e w key r d =
     map_option (\<lambda>(_, kvs). (d, [D_kv w (Put_keyval (de_probable_idx e) kvs)]))
       (put_keyval_one 0 (de_probable_idx e) key (probable_to_json (de_pd e) r) S3MotrKVSWriter_init)"

definition add_object_oid_to_probable_dead_oid_list :: "del_env \<Rightarrow> S3ObjectMetadata \<Rightarrow> S3BucketMetadata \<Rightarrow> del_action \<Rightarrow> del_result option" where
  "add_object_oid_to_probable_dead_oid_list e ob b d =
     (let key = size_based_bucketing_of_objects (uint128_to_string (om_oid ob)) (unat (snd (get_content_length ob)))
      in get_version_key_in_index ob \<bind> (\<lambda>vkey.
           S3ProbableDeleteRecord_new
             \<lparr>pd_record_key = key, pd_old_object_oid = zero_oid, pd_object_key_in_index = om_object_name ob,
              pd_current_object_oid = om_oid ob, pd_object_layout_id = om_layout_id ob, pd_pvid_str = om_pvid_str ob,
              pd_object_list_idx_oid = oid (object_list_index_layout b),
              pd_objects_version_list_idx_oid = oid (objects_version_list_index_layout b), pd_version_key_in_index = vkey,
              pd_force_delete = False, pd_is_multipart = False, pd_part_list_idx_oid = zero_oid, pd_fragment = 0, pd_part = 0,
              pd_extended_md_idx_oid = zero_oid, pd_ext_version_id = [], pd_mp_parent_oid = zero_oid\<rparr> \<bind> (\<lambda>r.
           put_record e Wait_probable_record key r (d\<lparr>d_oid_str := key, d_rec := Some r\<rparr>))))"

definition add_object_oid_to_probable_dead_oid_list_failed :: "del_env \<Rightarrow> del_action \<Rightarrow> del_result option" where
  "add_object_oid_to_probable_dead_oid_list_failed e d = del_fail e Del_probableEntryRecordFailed (Some ''InternalError'') d"

text \<open>The record of part \<open>i + 1\<close> of a multipart object.\<close>

definition part_record :: "S3ObjectMetadata \<Rightarrow> S3BucketMetadata \<Rightarrow> string \<Rightarrow> nat \<Rightarrow> s3_part_frag_context \<Rightarrow> S3ProbableDeleteRecord option" where
  "part_record ob b vkey i fr =
     S3ProbableDeleteRecord_new
       \<lparr>pd_record_key = size_based_bucketing_of_objects (uint128_to_string (fr_motr_OID fr)) (unat (fr_item_size fr)),
        pd_old_object_oid = zero_oid, pd_object_key_in_index = om_object_name ob, pd_current_object_oid = fr_motr_OID fr,
        pd_object_layout_id = fr_layout_id fr, pd_pvid_str = fid_to_string (fr_PVID fr),
        pd_object_list_idx_oid = oid (object_list_index_layout b),
        pd_objects_version_list_idx_oid = oid (objects_version_list_index_layout b), pd_version_key_in_index = vkey,
        pd_force_delete = False, pd_is_multipart = False, pd_part_list_idx_oid = zero_oid, pd_fragment = 1, pd_part = of_nat (i + 1),
        pd_extended_md_idx_oid = oid (extended_metadata_index_layout b), pd_ext_version_id = fr_versionID fr,
        pd_mp_parent_oid = om_oid ob\<rparr>"

definition parent_record :: "S3ObjectMetadata \<Rightarrow> S3BucketMetadata \<Rightarrow> string \<Rightarrow> nat \<Rightarrow> S3ProbableDeleteRecord option" where
  "parent_record ob b vkey total_objs =
     S3ProbableDeleteRecord_new
       \<lparr>pd_record_key = size_based_bucketing_of_objects (uint128_to_string (om_oid ob)) 0,
        pd_old_object_oid = zero_oid, pd_object_key_in_index = om_object_name ob, pd_current_object_oid = om_oid ob,
        pd_object_layout_id = 0, pd_pvid_str = [],
        pd_object_list_idx_oid = oid (object_list_index_layout b),
        pd_objects_version_list_idx_oid = oid (objects_version_list_index_layout b), pd_version_key_in_index = vkey,
        pd_force_delete = False, pd_is_multipart = False, pd_part_list_idx_oid = zero_oid, pd_fragment = 1, pd_part = of_nat total_objs,
        pd_extended_md_idx_oid = oid (extended_metadata_index_layout b), pd_ext_version_id = om_rev_epoch_version_id_key ob,
        pd_mp_parent_oid = zero_oid\<rparr>"

definition part_info :: "s3_part_frag_context \<Rightarrow> S3ExtendedObjectInfo" where
  "part_info fr =
     \<lparr>start_offset_in_object = 0, eo_total_blocks = 0, object_size = fr_item_size fr, requested_object_size = 0,
      total_readable_blocks = 0, object_OID = fr_motr_OID fr, object_layout = fr_layout_id fr, object_pvid = fr_PVID fr\<rparr>"

fun collect_parts ::
  "S3ObjectMetadata \<Rightarrow> S3BucketMetadata \<Rightarrow> (int, s3_part_frag_context list) std_map \<Rightarrow> nat \<Rightarrow> nat
   \<Rightarrow> (S3ProbableDeleteRecord list \<times> S3ExtendedObjectInfo list) option" where
  "collect_parts ob b entries i 0 = Some ([], [])"
| "collect_parts ob b entries i (Suc n) =
     (case entry_at entries (int i + 1) 0 of
        None \<Rightarrow> None
      | Some fr \<Rightarrow>
          (case get_version_key_in_index ob \<bind> (\<lambda>vkey. part_record ob b vkey i fr) of
             None \<Rightarrow> None
           | Some r \<Rightarrow> map_option (\<lambda>(rs, infos). (r # rs, part_info fr # infos)) (collect_parts ob b entries (Suc i) n)))"

text \<open>A fragmented object that is not multipart is not handled: nothing is collected.\<close>

definition add_oids_to_probable_dead_oid_list :: "del_env \<Rightarrow> S3ObjectMetadata \<Rightarrow> S3BucketMetadata \<Rightarrow> del_action \<Rightarrow> del_result option" where
  "add_oids_to_probable_dead_oid_list e ob b d =
     (case oa_ext d of
        None \<Rightarrow> None
      | Some x \<Rightarrow>
          if om_obj_parts ob = 0 then Some (del_next e d)
          else (let n = unat (om_obj_fragments ob) in
                collect_parts ob b (x_ext_objects x) 0 n \<bind> (\<lambda>(rs, infos).
                get_version_key_in_index ob \<bind> (\<lambda>vkey.
                parent_record ob b vkey n \<bind> (\<lambda>p.
                Some (del_next e (d\<lparr>d_rec_list := d_rec_list d @ rs @ [p], d_extended_objects := d_extended_objects d @ infos\<rparr>)))))))"

definition populate_probable_dead_oids :: "del_env \<Rightarrow> del_action \<Rightarrow> del_result option" where
  "populate_probable_dead_oids e d =
     (case (oa_object d, oa_bucket d) of
        (Some ob, Some b) \<Rightarrow>
          if om_obj_fragments ob = 0 then add_object_oid_to_probable_dead_oid_list e ob b d
          else add_oids_to_probable_dead_oid_list e ob b d
      | _ \<Rightarrow> None)"

section \<open>Removal of the metadata\<close>

definition remove_keys :: "del_env \<Rightarrow> del_wait \<Rightarrow> string list \<Rightarrow> del_action \<Rightarrow> del_result option" where
  "remove_keys e w keys d =
     map_option (\<lambda>_. (d, [D_kv w (Delete_keyval (de_probable_idx e) keys)]))
       (delete_keyval 0 (de_probable_idx e) keys S3MotrKVSWriter_init)"

definition remove_oids_from_probable_record_index :: "del_env \<Rightarrow> del_action \<Rightarrow> del_result option" where
  "remove_oids_from_probable_record_index e d =
     (if d_rec_list d = [] then Some (del_next e d)
      else remove_keys e Wait_oids_removed (map pd_record_key (d_rec_list d)) d)"

text \<open>Both handlers of the extended metadata's \<open>remove\<close> are the same function.\<close>

definition fragments_removed :: "del_env \<Rightarrow> del_cont \<Rightarrow> del_action \<Rightarrow> del_result option" where
  "fragments_removed e c d =
     (if c = After_fragments then remove_oids_from_probable_record_index e d else Some (del_next e d))"

definition ext_after :: "del_env \<Rightarrow> del_cont \<Rightarrow> del_action \<Rightarrow> S3ObjectExtendedMetadata \<times> ext_out \<Rightarrow> del_result option" where
  "ext_after e c d r =
     (let d1 = d\<lparr>oa_ext := Some (fst r)\<rparr>
      in case snd r of
           Ext_send w op \<Rightarrow> Some (d1, [D_ext c w op])
         | Ext_silent \<Rightarrow> Some (d1, [])
         | _ \<Rightarrow> fragments_removed e c d1)"

text \<open>\<open>remove_fragments\<close> and \<open>remove_fragments_keyval\<close> differ in what follows.\<close>

definition remove_ext_entries :: "del_env \<Rightarrow> del_cont \<Rightarrow> del_action \<Rightarrow> del_result option" where
  "remove_ext_entries e c d =
     (case oa_object d of
        None \<Rightarrow> fragments_removed e c d
      | Some ob \<Rightarrow>
          if \<not> is_object_extended ob then fragments_removed e c d
          else (case oa_ext d of
                  None \<Rightarrow> None
                | Some x \<Rightarrow> if has_entries x then ext_remove (ov_ext (de_obj e)) x \<bind> ext_after e c d
                            else fragments_removed e c d))"

definition remove_fragments :: "del_env \<Rightarrow> del_action \<Rightarrow> del_result option" where
  "remove_fragments e d = remove_ext_entries e After_fragments d"

definition remove_fragments_keyval :: "del_env \<Rightarrow> del_action \<Rightarrow> del_result option" where
  "remove_fragments_keyval e d = remove_ext_entries e After_fragments_keyval d"

definition delete_metadata_successful :: "del_env \<Rightarrow> del_action \<Rightarrow> del_result" where
  "delete_metadata_successful e d = del_next e (d\<lparr>d_state := Del_metadataDeleted\<rparr>)"

definition delete_metadata_failed :: "del_env \<Rightarrow> del_action \<Rightarrow> del_result option" where
  "delete_metadata_failed e d = del_fail e Del_metadataDeleteFailed (Some ''InternalError'') d"

text \<open>The handlers that an operation of the object metadata was started with.\<close>

fun obj_handler :: "del_env \<Rightarrow> del_cont \<Rightarrow> bool \<Rightarrow> del_action \<Rightarrow> del_result option" where
  "obj_handler e After_metadata ok d = (if ok then Some (delete_metadata_successful e d) else delete_metadata_failed e d)"
| "obj_handler e After_version ok d = remove_fragments e d"
| "obj_handler e After_version_keyval ok d = remove_fragments_keyval e d"
| "obj_handler e _ ok d = None"

definition obj_after :: "del_env \<Rightarrow> del_cont \<Rightarrow> del_action \<Rightarrow> object_engine \<times> object_out \<Rightarrow> del_result option" where
  "obj_after e c d r =
     (let d1 = d\<lparr>oa_object := Some (oe_meta (fst r)), oa_ext := oe_ext (fst r)\<rparr>
      in case snd r of
           Obj_send w op \<Rightarrow> Some (d1, [D_obj c w op])
         | Obj_success \<Rightarrow> obj_handler e c True d1
         | Obj_failed \<Rightarrow> obj_handler e c False d1
         | Obj_silent \<Rightarrow> Some (d1, []))"

definition with_object ::
  "del_env \<Rightarrow> del_cont \<Rightarrow> (object_engine \<Rightarrow> (object_engine \<times> object_out) option) \<Rightarrow> del_action \<Rightarrow> del_result option" where
  "with_object e c f d =
     (case oa_object d of
        None \<Rightarrow> None
      | Some ob \<Rightarrow> f \<lparr>oe_meta = ob, oe_ext = oa_ext d, oe_writer_state = W_start\<rparr> \<bind> obj_after e c d)"

definition do_delete_metadata :: "del_env \<Rightarrow> del_action \<Rightarrow> del_result option" where
  "do_delete_metadata e d = with_object e After_metadata om_remove d"

section \<open>Marking the records\<close>

definition do_mark_oid_for_deletion :: "del_env \<Rightarrow> del_action \<Rightarrow> del_result option" where
  "do_mark_oid_for_deletion e d =
     (case d_rec d of
        None \<Rightarrow> None
      | Some r \<Rightarrow>
          if d_oid_str d = [] then None
          else (let r1 = set_force_delete True r in put_record e Wait_marked (d_oid_str d) r1 (d\<lparr>d_rec := Some r1\<rparr>)))"

definition kv_to_write :: "32 word \<Rightarrow> 32 word" where
  "kv_to_write to_be_processed =
     (let max = of_nat MAX_OIDS_FOR_DELETION in if to_be_processed - max > max then max else to_be_processed)"

definition do_mark_oids_for_deletion :: "del_env \<Rightarrow> del_action \<Rightarrow> del_result option" where
  "do_mark_oids_for_deletion e d =
     (if d_rec_list d = [] then Some (del_next e d)
      else (let n = kv_to_write (of_nat (length (d_rec_list d)) - d_total_processed_count d);
                recs = map (set_force_delete True) (d_rec_list d);
                kvs = fold (\<lambda>r. map_put (pd_record_key r) (probable_to_json (de_pd e) r)) recs [];
                d1 = d\<lparr>d_rec_list := recs\<rparr>;
                lo = de_probable_idx e
            in if length recs \<le> MAX_OIDS_FOR_DELETION
               then map_option (\<lambda>(_, slots). (d1, [D_kv Wait_marked (Put_keyval lo slots)])) (put_keyval 0 lo kvs S3MotrKVSWriter_init)
               else map_option (\<lambda>(_, slots). (d1, [D_kv (Wait_marked_partly n) (Put_keyval lo slots)]))
                      (put_partial_keyval 0 lo kvs (unat (d_total_processed_count d)) (unat n) S3MotrKVSWriter_init)))"

definition del_save_partial_successful :: "del_env \<Rightarrow> 32 word \<Rightarrow> del_action \<Rightarrow> del_result option" where
  "del_save_partial_successful e processed_count d =
     (let d1 = d\<lparr>d_total_processed_count := d_total_processed_count d + processed_count\<rparr>
      in if unat (d_total_processed_count d1) < length (d_rec_list d1) then do_mark_oids_for_deletion e d1
         else Some (del_next e d1))"

definition del_save_partial_failed :: "del_env \<Rightarrow> del_action \<Rightarrow> del_result" where
  "del_save_partial_failed e d = del_next e d"

section \<open>Deletion of the data\<close>

definition del_motr_delete ::
  "del_env \<Rightarrow> del_writer_cont \<Rightarrow> m0_uint128 \<Rightarrow> 32 word \<Rightarrow> m0_fid \<Rightarrow> del_action \<Rightarrow> del_result option" where
  "del_motr_delete e c object_id layoutid pv_id d =
     (let w = (case d_writer d of Some w \<Rightarrow> w | None \<Rightarrow> S3MotrWiter_init (we_pi (de_writer e)) (de_di_check e) (de_uri_oid e))
      in map_option (\<lambda>(w1, outs). (d\<lparr>d_writer := Some w1, d_writer_cont := Some c\<rparr>, map D_writer outs))
           (Motr_Writer.delete_object (de_writer e) object_id layoutid pv_id w))"

definition do_remove_probable_record :: "del_env \<Rightarrow> del_action \<Rightarrow> del_result option" where
  "do_remove_probable_record e d =
     (if d_oid_str d = [] then None else remove_keys e Wait_record_removed [d_oid_str d] d)"

definition do_delete_object :: "del_env \<Rightarrow> del_action \<Rightarrow> del_result option" where
  "do_delete_object e d =
     (case oa_object d of
        None \<Rightarrow> None
      | Some ob \<Rightarrow>
          if non_zero (om_oid ob) \<and> de_delayed_delete e then Some (del_next e d)
          else del_motr_delete e Then_remove_probable_record (om_oid ob) (om_layout_id ob) (get_pvid ob) d)"

text \<open>With no object left nothing is called: the action waits for ever.\<close>

definition do_delete_objects :: "del_env \<Rightarrow> del_action \<Rightarrow> del_result option" where
  "do_delete_objects e d =
     (if de_delayed_delete e then with_object e After_version_keyval remove_version_metadata d
      else if d_extended_objects d = [] then Some (d, [])
      else (let o1 = last (d_extended_objects d)
            in del_motr_delete e Then_delete_objects_success (object_OID o1) (object_layout o1) (object_pvid o1) d))"

definition del_delete_objects_success :: "del_env \<Rightarrow> del_action \<Rightarrow> del_result option" where
  "del_delete_objects_success e d =
     (if d_extended_objects d = [] then Some (del_next e d)
      else (let d1 = d\<lparr>d_extended_objects := butlast (d_extended_objects d)\<rparr>
            in if d_extended_objects d1 \<noteq> [] then do_delete_objects e d1
               else with_object e After_version remove_version_metadata d1))"

text \<open>\<open>delete_object\<close> and \<open>delete_objects\<close> give \<open>next\<close> for a failure.\<close>

fun del_writer_outs :: "del_env \<Rightarrow> writer_out list \<Rightarrow> del_action \<Rightarrow> del_result option" where
  "del_writer_outs e [] d = Some (d, [])"
| "del_writer_outs e (Writer_on_success # outs) d =
     (case d_writer_cont d of
        None \<Rightarrow> None
      | Some Then_remove_probable_record \<Rightarrow> do_remove_probable_record e d
      | Some Then_delete_objects_success \<Rightarrow> del_delete_objects_success e d)"
| "del_writer_outs e (Writer_on_failed # outs) d = Some (del_next e d)"
| "del_writer_outs e (ro # outs) d = map_option (\<lambda>(d1, os). (d1, D_writer ro # os)) (del_writer_outs e outs d)"

definition with_writer ::
  "del_env \<Rightarrow> (S3MotrWiter \<Rightarrow> (S3MotrWiter \<times> writer_out list) option) \<Rightarrow> del_action \<Rightarrow> del_result option" where
  "with_writer e f d =
     (case d_writer d of
        None \<Rightarrow> None
      | Some w \<Rightarrow> f w \<bind> (\<lambda>(w1, outs). del_writer_outs e outs (d\<lparr>d_writer := Some w1\<rparr>)))"

section \<open>The request as a whole\<close>

definition del_set_authorization_meta :: "del_env \<Rightarrow> del_action \<Rightarrow> del_result option" where
  "del_set_authorization_meta e d =
     (case oa_bucket d of
        None \<Rightarrow> None
      | Some b \<Rightarrow>
          (let (d1, outs) = del_next e d in Some (d1, D_base (Set_acl_and_policy (encoded_acl b) (bucket_policy b)) # outs)))"

fun del_task_body :: "del_env \<Rightarrow> del_task \<Rightarrow> del_action \<Rightarrow> del_result option" where
  "del_task_body e (Del_base check_authentication) d = Some (d, [])"
| "del_task_body e (Del_base load_metadata) d = (let (d1, outs) = oa_load_metadata d in Some (d1, map D_base outs))"
| "del_task_body e (Del_base set_authorization_meta) d = del_set_authorization_meta e d"
| "del_task_body e (Del_base check_authorization) d = Some (d, [])"
| "del_task_body e populate_probable_dead_oid_list d = populate_probable_dead_oids e d"
| "del_task_body e delete_metadata d = do_delete_metadata e d"
| "del_task_body e Del_send_response d = del_send_response e d"
| "del_task_body e mark_oids_for_deletion d = do_mark_oids_for_deletion e d"
| "del_task_body e Del_delete_objects d = do_delete_objects e d"
| "del_task_body e mark_oid_for_deletion d = do_mark_oid_for_deletion e d"
| "del_task_body e Del_delete_object d = do_delete_object e d"
| "del_task_body e remove_probable_record d = do_remove_probable_record e d"

text \<open>The call that a list of outputs ends with, \<open>None\<close> when it ends with something else.\<close>

fun del_call :: "del_env \<Rightarrow> del_out \<Rightarrow> (del_action \<Rightarrow> del_result option) option" where
  "del_call e (D_base (Engine (Ran t))) = Some (del_task_body e t)"
| "del_call e (D_base (Engine SendResponse)) = Some (del_send_response e)"
| "del_call e (D_base (Engine StartCleanup)) = Some (startcleanup e)"
| "del_call e (D_base Fetch_object_info_failed) = Some (del_fetch_object_info_failed e)"
| "del_call e _ = None"

text \<open>
  A call that does nothing at once is one that waits.  Fuel that runs out before the calls end is
  \<open>None\<close>; a handler starts a chain of at most four calls.
\<close>

fun del_perform :: "nat \<Rightarrow> del_env \<Rightarrow> del_result \<Rightarrow> del_result option" where
  "del_perform n e (d, outs) =
     (case (if outs = [] then None else del_call e (last outs)) of
        None \<Rightarrow> Some (d, outs)
      | Some body \<Rightarrow>
          (case n of
             0 \<Rightarrow> None
           | Suc m \<Rightarrow>
               (case body d of
                  None \<Rightarrow> None
                | Some (d1, outs1) \<Rightarrow>
                    if outs1 = [] then Some (d1, outs)
                    else map_option (\<lambda>(d2, outs2). (d2, outs @ outs2)) (del_perform m e (d1, outs1)))))"

declare del_perform.simps [simp del]

datatype del_event =
    Del_started
  | Del_authenticated
  | Del_authentication_failed
  | Del_bucket_loaded S3BucketMetadata
  | Del_bucket_load_failed S3BucketMetadata
  | Del_object_loaded S3ObjectMetadata
  | Del_object_load_failed S3ObjectMetadata
  | Del_ext_loaded S3ObjectExtendedMetadata
  | Del_ext_load_failed S3ObjectExtendedMetadata
  | Del_authorized
  | Del_authorization_failed
  | Kv_reply del_wait kvs_result
  | Obj_reply del_cont object_waiting kvs_result
  | Ext_reply del_cont ext_waiting kvs_result
  | Motr_opened
  | Motr_open_failed S3AsyncOpContextBase
  | Motr_deleted
  | Motr_delete_failed S3AsyncOpContextBase

definition del_engine :: "(del_task action \<times> del_task event list) \<Rightarrow> del_action \<Rightarrow> del_result" where
  "del_engine r d = (d\<lparr>oa_act := fst r\<rparr>, map (D_base \<circ> Engine) (snd r))"

definition del_from_base :: "del_action \<times> del_task oa_out list \<Rightarrow> del_result" where
  "del_from_base r = (fst r, map D_base (snd r))"

text \<open>The handlers of the requests to the index of probably dead objects: most are \<open>next\<close>.\<close>

fun del_kv_handler :: "del_env \<Rightarrow> del_wait \<Rightarrow> bool \<Rightarrow> del_action \<Rightarrow> del_result option" where
  "del_kv_handler e Wait_probable_record ok d =
     (if ok then Some (del_next e d) else add_object_oid_to_probable_dead_oid_list_failed e d)"
| "del_kv_handler e (Wait_marked_partly n) ok d =
     (if ok then del_save_partial_successful e n d else Some (del_save_partial_failed e d))"
| "del_kv_handler e _ ok d = Some (del_next e d)"

fun del_handle :: "del_env \<Rightarrow> del_event \<Rightarrow> del_action \<Rightarrow> del_result option" where
  "del_handle e Del_started d = Some (del_engine (action_start (de_act e) (oa_act d)) d)"
| "del_handle e Del_authenticated d = Some (del_engine (check_authentication_successful (de_act e) (oa_act d)) d)"
| "del_handle e Del_authentication_failed d = Some (del_engine (check_authentication_failed (de_act e) (oa_act d)) d)"
| "del_handle e (Del_bucket_loaded b) d = map_option del_from_base (fetch_bucket_info_success (de_app_id e) False b d)"
| "del_handle e (Del_bucket_load_failed b) d = del_fetch_bucket_info_failed e (d\<lparr>oa_bucket := Some b\<rparr>)"
| "del_handle e (Del_object_loaded ob) d = map_option del_from_base (fetch_object_info_success (de_act e) ob d)"
| "del_handle e (Del_object_load_failed ob) d = del_fetch_object_info_failed e (d\<lparr>oa_object := Some ob\<rparr>)"
| "del_handle e (Del_ext_loaded x) d = Some (del_from_base (fetch_ext_object_info_success (de_act e) x d))"
| "del_handle e (Del_ext_load_failed x) d = del_fetch_ext_object_info_failed e (d\<lparr>oa_ext := Some x\<rparr>)"
| "del_handle e Del_authorized d = Some (del_engine (check_authorization_successful (de_act e) (oa_act d)) d)"
| "del_handle e Del_authorization_failed d = Some (del_engine (check_authorization_failed (de_act e) (oa_act d)) d)"
| "del_handle e (Kv_reply w r) d = del_kv_handler e w (r = Write_done) d"
| "del_handle e (Obj_reply c w r) d = with_object e c (object_deliver (de_obj e) w r) d"
| "del_handle e (Ext_reply c w r) d = (case oa_ext d of None \<Rightarrow> None | Some x \<Rightarrow> ext_deliver (ov_ext (de_obj e)) w r x \<bind> ext_after e c d)"
| "del_handle e Motr_opened d = with_writer e (open_objects_successful (de_writer e)) d"
| "del_handle e (Motr_open_failed ctx) d = with_writer e (Some \<circ> open_objects_failed ctx) d"
| "del_handle e Motr_deleted d = with_writer e (Some \<circ> delete_objects_successful) d"
| "del_handle e (Motr_delete_failed ctx) d = with_writer e (Some \<circ> delete_objects_failed ctx) d"

definition del_step :: "del_env \<Rightarrow> del_event \<Rightarrow> del_action \<Rightarrow> del_result option" where
  "del_step e ev d = del_handle e ev d \<bind> del_perform 8 e"

end
