(* ===== verification/Delete_Run.thy ===== *)
theory Delete_Run
  imports Delete_Object Writer_Run
begin

text \<open>
  A deletion against a store that may fail.  The world is the key-value indices and the set of
  Motr objects; it performs a request or refuses it, and in the latter case it is unchanged.  The
  environment (the client's connection, the launch codes of Motr, the options) may be another
  one at every step.  A run that stops early is a server that dies at that moment, and so is a
  failed assertion.
\<close>

type_synonym del_world = "kvs_indices \<times> m0_uint128 set"

datatype del_fault = Perform | Refuse S3MotrKVSWriterOpState S3AsyncOpContextBase

definition write_verdict :: "del_fault \<Rightarrow> kvs_op \<Rightarrow> kvs_indices \<Rightarrow> kvs_result" where
  "write_verdict f op st = (case f of Perform \<Rightarrow> kvs_answer op st | Refuse ws ctx \<Rightarrow> Write_error ws)"

definition write_effect :: "del_fault \<Rightarrow> kvs_op \<Rightarrow> kvs_indices \<Rightarrow> kvs_indices" where
  "write_effect f op st = (if f = Perform then kvs_effect op st else st)"

definition errno_ctx :: "int \<Rightarrow> nat \<Rightarrow> S3AsyncOpContextBase" where
  "errno_ctx rc n = (S3AsyncOpContextBase_init n)\<lparr>ops_response := replicate n (S3AsyncOpResponse_init\<lparr>status := failed, error_code := rc\<rparr>)\<rparr>"

fun del_answer :: "del_fault \<Rightarrow> del_out \<Rightarrow> del_world \<Rightarrow> (del_world \<times> del_event) option" where
  "del_answer f (D_kv w op) (st, mo) = Some ((write_effect f op st, mo), Kv_reply w (write_verdict f op st))"
| "del_answer f (D_obj c w op) (st, mo) = Some ((write_effect f op st, mo), Obj_reply c w (write_verdict f op st))"
| "del_answer f (D_ext c w op) (st, mo) = Some ((write_effect f op st, mo), Ext_reply c w (write_verdict f op st))"
| "del_answer f (D_writer (Open_objects ids)) (st, mo) =
     Some ((st, mo), case f of
        Perform \<Rightarrow> if list_all (\<lambda>i. i \<in> mo) ids then Motr_opened else Motr_open_failed (errno_ctx (- ENOENT) (length ids))
      | Refuse ws ctx \<Rightarrow> Motr_open_failed ctx)"
| "del_answer f (D_writer (Delete_objects ids)) (st, mo) =
     Some (case f of
        Perform \<Rightarrow> ((st, mo - set ids), Motr_deleted)
      | Refuse ws ctx \<Rightarrow> ((st, mo), Motr_delete_failed ctx))"
| "del_answer f (D_writer (Post_writer_open_failed rc)) wo = Some (wo, Motr_open_failed (errno_ctx rc 1))"
| "del_answer f (D_writer (Post_delete_failed rc)) wo = Some (wo, Motr_delete_failed (errno_ctx rc 1))"
| "del_answer f _ wo = None"

text \<open>The result is the world, everything that was done, and the action unless an assertion failed.\<close>

fun del_run :: "(del_env \<times> del_fault) list \<Rightarrow> del_world \<Rightarrow> del_result \<Rightarrow> del_world \<times> del_out list \<times> del_action option" where
  "del_run [] wo (d, outs) = (wo, outs, Some d)"
| "del_run ((e, f) # efs) wo (d, outs) =
     (case (if outs = [] then None else del_answer f (last outs) wo) of
        None \<Rightarrow> (wo, outs, Some d)
      | Some (wo1, ev) \<Rightarrow>
          (case del_step e ev d of
             None \<Rightarrow> (wo1, outs, None)
           | Some r \<Rightarrow> (case del_run efs wo1 r of (wo2, log, v) \<Rightarrow> (wo2, outs @ log, v))))"

text \<open>The request from the moment the client is authorized.\<close>

definition del_request :: "del_env \<Rightarrow> (del_env \<times> del_fault) list \<Rightarrow> del_world \<Rightarrow> del_action \<Rightarrow> del_world \<times> del_out list \<times> del_action option" where
  "del_request e efs wo d = (case del_step e Del_authorized d of None \<Rightarrow> (wo, [], None) | Some r \<Rightarrow> del_run efs wo r)"

section \<open>Objects without fragments\<close>

definition dead_key :: "S3ObjectMetadata \<Rightarrow> string" where
  "dead_key ob = size_based_bucketing_of_objects (uint128_to_string (om_oid ob)) (unat (snd (get_content_length ob)))"

definition listed :: "S3ObjectMetadata \<Rightarrow> del_world \<Rightarrow> bool" where
  "listed ob wo \<longleftrightarrow> map_get (fst wo (list_oid ob)) (om_object_name ob) \<noteq> None"

definition recorded :: "m0_uint128 \<Rightarrow> S3ObjectMetadata \<Rightarrow> del_world \<Rightarrow> bool" where
  "recorded pidx ob wo \<longleftrightarrow> map_get (fst wo pidx) (dead_key ob) \<noteq> None"

definition stored :: "S3ObjectMetadata \<Rightarrow> del_world \<Rightarrow> bool" where
  "stored ob wo \<longleftrightarrow> om_oid ob \<in> snd wo"

text \<open>No entry without data, and no data without an entry or a record.\<close>

definition no_loss :: "m0_uint128 \<Rightarrow> S3ObjectMetadata \<Rightarrow> del_world \<Rightarrow> bool" where
  "no_loss pidx ob wo \<longleftrightarrow>
     (listed ob wo \<longrightarrow> stored ob wo) \<and> (stored ob wo \<longrightarrow> listed ob wo \<or> recorded pidx ob wo)"

definition indices_apart :: "m0_uint128 \<Rightarrow> S3ObjectMetadata \<Rightarrow> bool" where
  "indices_apart pidx ob \<longleftrightarrow> pidx \<noteq> list_oid ob \<and> pidx \<noteq> version_oid ob \<and> list_oid ob \<noteq> version_oid ob"

text \<open>The action when its bucket and object are loaded and the request is authorized.\<close>

definition del_ready :: "S3ObjectMetadata \<Rightarrow> del_action \<Rightarrow> bool" where
  "del_ready ob d \<longleftrightarrow> oa_object d = Some ob \<and> om_obj_fragments ob = 0 \<and> d_state d = Del_empty \<and> d_writer d = None
     \<and> \<not> check_shutdown_signal (oa_act d) \<and> action_uses_cleanup (oa_act d) \<and> \<not> cleanup_started (oa_act d)
     \<and> drop (task_iteration_index (oa_act d)) (task_list (oa_act d)) = [populate_probable_dead_oid_list, delete_metadata, Del_send_response]"

section \<open>The phases of a deletion\<close>

text \<open>\<open>ts\<close> are the tasks still to run.\<close>

definition del_at :: "S3ObjectMetadata \<Rightarrow> S3DeleteObjectActionState \<Rightarrow> bool \<Rightarrow> del_task list \<Rightarrow> del_action \<Rightarrow> bool" where
  "del_at ob s cleaning ts d \<longleftrightarrow> (\<exists>os. oa_object d = Some (ob\<lparr>om_state := os\<rparr>)) \<and> om_obj_fragments ob = 0 \<and> d_state d = s
     \<and> d_oid_str d = dead_key ob \<and> d_rec d \<noteq> None
     \<and> \<not> check_shutdown_signal (oa_act d) \<and> action_uses_cleanup (oa_act d) \<and> cleanup_started (oa_act d) = cleaning
     \<and> drop (task_iteration_index (oa_act d)) (task_list (oa_act d)) = ts"

definition deleting_with :: "S3ObjectMetadata \<Rightarrow> S3MotrWiter \<Rightarrow> bool" where
  "deleting_with ob w \<longleftrightarrow> w_oid_list w = [om_oid ob] \<and> length (w_layout_ids w) = 1 \<and> length (w_pv_ids w) = 1
     \<and> w_state w = Wr_deleting \<and> (\<exists>ps. w_obj_ctx w = Some ps \<and> ps \<noteq> [])"

fun del_phase :: "s3_motr_idx_layout \<Rightarrow> S3ObjectMetadata \<Rightarrow> del_world \<Rightarrow> del_action \<Rightarrow> del_out \<Rightarrow> bool" where
  "del_phase lo ob wo d (D_kv Wait_probable_record op) \<longleftrightarrow>
     del_at ob Del_empty False [delete_metadata, Del_send_response] d \<and> d_writer d = None
     \<and> (\<exists>v. op = Put_keyval lo [(dead_key ob, v)]) \<and> listed ob wo \<and> stored ob wo"
| "del_phase lo ob wo d (D_obj After_metadata Wait_remove_object op) \<longleftrightarrow>
     del_at ob Del_empty False [Del_send_response] d \<and> d_writer d = None
     \<and> op = Delete_keyval (om_object_list_index_layout ob) [om_object_name ob] \<and> listed ob wo \<and> stored ob wo \<and> recorded (oid lo) ob wo"
| "del_phase lo ob wo d (D_obj After_metadata Wait_remove_version op) \<longleftrightarrow>
     del_at ob Del_empty False [Del_send_response] d \<and> d_writer d = None
     \<and> (\<exists>ks. op = Delete_keyval (om_objects_version_list_index_layout ob) ks) \<and> \<not> listed ob wo \<and> recorded (oid lo) ob wo"
| "del_phase lo ob wo d (D_kv Wait_marked op) \<longleftrightarrow>
     del_at ob Del_metadataDeleted True [Del_delete_object] d \<and> d_writer d = None
     \<and> (\<exists>v. op = Put_keyval lo [(dead_key ob, v)]) \<and> \<not> listed ob wo \<and> recorded (oid lo) ob wo"
| "del_phase lo ob wo d (D_writer (Open_objects ids)) \<longleftrightarrow>
     del_at ob Del_metadataDeleted True [] d \<and> d_writer_cont d = Some Then_remove_probable_record
     \<and> (\<exists>w. d_writer d = Some w \<and> deleting_with ob w) \<and> \<not> listed ob wo \<and> recorded (oid lo) ob wo"
| "del_phase lo ob wo d (D_writer (Delete_objects ids)) \<longleftrightarrow>
     del_at ob Del_metadataDeleted True [] d \<and> d_writer_cont d = Some Then_remove_probable_record
     \<and> d_writer d \<noteq> None \<and> ids = [om_oid ob] \<and> \<not> listed ob wo \<and> recorded (oid lo) ob wo"
| "del_phase lo ob wo d (D_writer (Post_writer_open_failed rc)) \<longleftrightarrow>
     del_at ob Del_metadataDeleted True [] d \<and> d_writer d \<noteq> None \<and> \<not> listed ob wo \<and> recorded (oid lo) ob wo"
| "del_phase lo ob wo d (D_writer (Post_delete_failed rc)) \<longleftrightarrow>
     del_at ob Del_metadataDeleted True [] d \<and> d_writer d \<noteq> None \<and> \<not> listed ob wo \<and> recorded (oid lo) ob wo"
| "del_phase lo ob wo d (D_kv Wait_record_removed op) \<longleftrightarrow>
     (\<exists>s. del_at ob s True [] d) \<and> op = Delete_keyval lo [dead_key ob] \<and> listed ob wo = stored ob wo"
| "del_phase lo ob wo d (D_base (Engine Finished)) \<longleftrightarrow> no_loss (oid lo) ob wo"
| "del_phase lo ob wo d _ = False"

lemma del_phase_no_loss: "del_phase lo ob wo d p \<Longrightarrow> no_loss (oid lo) ob wo"
  by (induction lo ob wo d p rule: del_phase.induct) (auto simp: no_loss_def)

lemma drop_nth_Cons: "drop i xs = t # ts \<Longrightarrow> i < length xs \<and> xs ! i = t \<and> drop (Suc i) xs = ts"
  by (metis Cons_nth_drop_Suc drop_eq_Nil2 list.distinct(1) list.inject not_le)

lemma del_next_cleaning:
  assumes "del_at ob s True ts d"
  shows "\<exists>d1. del_next e d = (d1, [D_base (Engine (case ts of [] \<Rightarrow> Finished | t # _ \<Rightarrow> Ran t))])
     \<and> d_writer d1 = d_writer d \<and> d_writer_cont d1 = d_writer_cont d \<and> (ts \<noteq> [] \<longrightarrow> del_at ob s True (tl ts) d1)"
  using assms
  by (cases ts) (auto simp: del_at_def del_next_def oa_next_def action_next_def checked_def action_done_def split_def
      dest!: drop_nth_Cons)

text \<open>Outside the cleanup \<open>next\<close> runs the next task, or gives up on the client.\<close>

lemma del_next_serving:
  assumes "del_at ob s False (t # ts) d"
  shows "\<exists>d1 ev. del_next e d = (d1, [D_base (Engine ev)]) \<and> d_writer d1 = d_writer d
     \<and> (ev = Ran t \<and> del_at ob s False ts d1 \<or> (ev = StartCleanup \<or> ev = SendResponse) \<and> del_at ob s False (t # ts) d1)"
  using assms drop_nth_Cons [of "task_iteration_index (oa_act d)" "task_list (oa_act d)" t ts]
  by (auto simp: del_at_def del_next_def oa_next_def action_next_def checked_def client_read_error_def
      cleanup_or_rollback_def set_s3_error_def Let_def split_def)

lemma del_next_calm:
  assumes "del_at ob s False (t # ts) d" "client_connected (de_act e)" "s3_client_read_error (de_act e) = []"
  shows "del_next e d = (d\<lparr>oa_act := (oa_act d)\<lparr>task_iteration_index := Suc (task_iteration_index (oa_act d))\<rparr>\<rparr>, [D_base (Engine (Ran t))])"
  using assms drop_nth_Cons [of "task_iteration_index (oa_act d)" "task_list (oa_act d)" t ts]
  by (auto simp: del_at_def del_next_def oa_next_def action_next_def checked_def is_s3_client_read_error_def)

lemma del_at_advance:
  "del_at ob s c (t # ts) d \<Longrightarrow> del_at ob s c ts (d\<lparr>oa_act := (oa_act d)\<lparr>task_iteration_index := Suc (task_iteration_index (oa_act d))\<rparr>\<rparr>)"
  by (auto simp: del_at_def dest: drop_nth_Cons)

definition cleaning_up :: "del_task list \<Rightarrow> del_action \<Rightarrow> del_action" where
  "cleaning_up ts d = d\<lparr>oa_act := (oa_act d)\<lparr>task_list := ts, task_iteration_index := 1, cleanup_started := True\<rparr>\<rparr>"

lemma del_at_cleaning_up:
  "del_at ob s c ts d \<Longrightarrow> del_at ob s True us (cleaning_up (u # us) d) \<and> d_writer (cleaning_up (u # us) d) = d_writer d"
  by (auto simp: del_at_def cleaning_up_def)

lemma del_start_tasks:
  assumes "\<not> check_shutdown_signal (oa_act d)"
  shows "del_start e (set_cleanup_tasks (t # ts) (d\<lparr>oa_act := (clear_tasks (oa_act d))\<lparr>cleanup_started := True\<rparr>\<rparr>))
     = (cleaning_up (t # ts) d, [D_base (Engine (Ran t))])"
proof -
  have tasks: "fold add_task us a = a\<lparr>task_list := task_list a @ us\<rparr>" for us :: "del_task list" and a
    by (induction us arbitrary: a) (simp_all add: add_task_def)
  show ?thesis
    using assms by (simp add: set_cleanup_tasks_def tasks add_task_def Let_def del_start_def action_start_def checked_def clear_tasks_def cleaning_up_def)
qed

lemma startcleanup_deleted:
  assumes "del_at ob Del_metadataDeleted c ts d"
  shows "startcleanup e d = Some (cleaning_up [mark_oid_for_deletion, Del_delete_object] d, [D_base (Engine (Ran mark_oid_for_deletion))])"
proof -
  from assms obtain os where "oa_object d = Some (ob\<lparr>om_state := os\<rparr>)" "om_obj_fragments ob = 0" "\<not> check_shutdown_signal (oa_act d)"
    "d_state d = Del_metadataDeleted" by (auto simp: del_at_def)
  then show ?thesis by (simp add: startcleanup_def Let_def del_start_tasks)
qed

lemma startcleanup_delete_failed:
  assumes "del_at ob Del_metadataDeleteFailed c ts d"
  shows "startcleanup e d = Some (cleaning_up [remove_probable_record] d, [D_base (Engine (Ran remove_probable_record))])"
  using assms by (simp add: del_at_def startcleanup_def Let_def del_start_tasks)

lemma dead_key_nonempty [simp]: "dead_key ob \<noteq> []"
  by (simp add: dead_key_def size_based_bucketing_of_objects_def)

lemma mark_oid_puts:
  assumes "del_at ob s c ts d"
  shows "\<exists>d1 v. do_mark_oid_for_deletion e d = Some (d1, [D_kv Wait_marked (Put_keyval (de_probable_idx e) [(dead_key ob, v)])])
     \<and> (\<exists>r. pd_force_delete r \<and> v = probable_to_json (de_pd e) r)
     \<and> del_at ob s c ts d1 \<and> d_writer d1 = d_writer d"
proof -
  obtain r where r: "d_rec d = Some r" using assms by (auto simp: del_at_def)
  let ?r = "set_force_delete True r"
  have "do_mark_oid_for_deletion e d = Some (d\<lparr>d_rec := Some ?r\<rparr>,
      [D_kv Wait_marked (Put_keyval (de_probable_idx e) [(dead_key ob, probable_to_json (de_pd e) ?r)])])"
    using assms r by (auto simp: del_at_def do_mark_oid_for_deletion_def put_record_def put_keyval_one_def Let_def)
  moreover have "pd_force_delete ?r" by (simp add: set_force_delete_def)
  moreover have "del_at ob s c ts (d\<lparr>d_rec := Some ?r\<rparr>)" using assms by (auto simp: del_at_def)
  ultimately show ?thesis by (intro exI [of _ "d\<lparr>d_rec := Some ?r\<rparr>"]) auto
qed

lemma remove_record_deletes:
  assumes "del_at ob s c ts d"
  shows "do_remove_probable_record e d = Some (d, [D_kv Wait_record_removed (Delete_keyval (de_probable_idx e) [dead_key ob])])"
  using assms by (simp add: del_at_def do_remove_probable_record_def remove_keys_def delete_keyval_def)

section \<open>Safety of every step\<close>

definition goes_on :: "s3_motr_idx_layout \<Rightarrow> S3ObjectMetadata \<Rightarrow> del_world \<Rightarrow> del_result option \<Rightarrow> bool" where
  "goes_on lo ob wo r = (case r of
       None \<Rightarrow> True
     | Some (d, outs) \<Rightarrow> outs \<noteq> [] \<and> del_phase lo ob wo d (last outs)
         \<and> (D_base (Respond_status 204 []) \<in> set outs \<longrightarrow> \<not> listed ob wo))"

lemma goes_on_stop:
  assumes "outs \<noteq> []" "del_call e (last outs) = None" "del_phase lo ob wo d (last outs)"
    "D_base (Respond_status 204 []) \<in> set outs \<Longrightarrow> \<not> listed ob wo"
  shows "goes_on lo ob wo (del_perform n e (d, outs))"
  using assms by (subst del_perform.simps) (simp add: goes_on_def)

lemma goes_on_call:
  assumes "outs \<noteq> []" "del_call e (last outs) = Some body" "D_base (Respond_status 204 []) \<in> set outs \<Longrightarrow> \<not> listed ob wo"
    "\<And>d1 outs1. body d = Some (d1, outs1) \<Longrightarrow> outs1 \<noteq> [] \<and> goes_on lo ob wo (del_perform n e (d1, outs1))"
  shows "goes_on lo ob wo (del_perform (Suc n) e (d, outs))"
proof (cases "body d")
  case None
  then show ?thesis using assms(1,2) by (subst del_perform.simps) (simp add: goes_on_def)
next
  case (Some r)
  then obtain d1 outs1 where r: "body d = Some (d1, outs1)" by (cases r) auto
  from assms(4) [OF r] have "outs1 \<noteq> []" "goes_on lo ob wo (del_perform n e (d1, outs1))" by auto
  then show ?thesis
    using assms(1-3) r by (subst del_perform.simps) (auto simp: goes_on_def split: option.splits)
qed

lemmas goes_on_first = goes_on_call [where n = 7, simplified]

text \<open>What follows once the metadata is deleted: the record is marked.\<close>

lemma cleanup_goes_on:
  assumes d: "del_at ob Del_metadataDeleted c ts d" "d_writer d = None" and wo: "\<not> listed ob wo" "recorded (oid lo) ob wo"
    and e: "de_probable_idx e = lo" and start: "startcleanup e d = Some (d1, outs1)"
  shows "outs1 \<noteq> [] \<and> goes_on lo ob wo (del_perform (Suc n) e (d1, pre @ outs1))"
proof -
  from startcleanup_deleted [OF d(1), of e] start del_at_cleaning_up [OF d(1), of "[Del_delete_object]" mark_oid_for_deletion]
  have 1: "outs1 = [D_base (Engine (Ran mark_oid_for_deletion))]" "del_at ob Del_metadataDeleted True [Del_delete_object] d1"
    "d_writer d1 = None" using d(2) by auto
  obtain d2 v where 2: "do_mark_oid_for_deletion e d1 = Some (d2, [D_kv Wait_marked (Put_keyval lo [(dead_key ob, v)])])"
    "del_at ob Del_metadataDeleted True [Del_delete_object] d2" "d_writer d2 = None"
    using mark_oid_puts [OF 1(2), of e] e 1(3) by auto
  have "goes_on lo ob wo (del_perform n e (d2, [D_kv Wait_marked (Put_keyval lo [(dead_key ob, v)])]))"
    using 2 wo by (intro goes_on_stop) auto
  then have "goes_on lo ob wo (del_perform (Suc n) e (d1, pre @ outs1))"
    using 1(1) 2(1) wo(1) by (intro goes_on_call) auto
  then show ?thesis using 1(1) by simp
qed

lemma map_put_found [simp]: "map_get (map_put k v m) k = Some v"
  by (induction m) (auto simp: map_get_def)

lemmas world_defs = listed_def recorded_def stored_def no_loss_def indices_apart_def write_effect_def write_verdict_def
  put_all_def delete_all_get

lemma send_response_empty: "d_state d = Del_empty \<Longrightarrow> del_send_response e d = None"
  by (auto simp: del_send_response_def startcleanup_def Let_def split: option.splits)

lemma send_response_cleans:
  "del_send_response e d = Some (d1, outs) \<Longrightarrow> \<exists>pre outs1. outs = pre @ outs1 \<and> startcleanup e d = Some (d1, outs1)"
  by (auto simp: del_send_response_def Let_def split: option.splits if_splits)

lemma send_response_error:
  "is_error_state (oa_act d) \<Longrightarrow> s3_error_code (oa_act d) \<noteq> [] \<Longrightarrow> del_send_response e d = Some (d1, outs) \<Longrightarrow>
     \<exists>pre outs1. outs = pre @ outs1 \<and> D_base (Respond_status 204 []) \<notin> set pre \<and> startcleanup e d = Some (d1, outs1)"
  by (auto simp: del_send_response_def Let_def)

text \<open>The metadata is gone, whatever became of the client.\<close>

lemma deleted_goes_on:
  assumes d: "del_at ob Del_empty False [Del_send_response] d" "d_writer d = None"
    and wo: "\<not> listed ob wo" "recorded (oid lo) ob wo" and e: "de_probable_idx e = lo"
  shows "goes_on lo ob wo (del_perform (Suc (Suc (Suc n))) e (delete_metadata_successful e d))"
proof -
  have "del_at ob Del_metadataDeleted False [Del_send_response] (d\<lparr>d_state := Del_metadataDeleted\<rparr>)"
    using d(1) by (auto simp: del_at_def)
  from del_next_serving [OF this, of e] obtain d1 ev ts where
    next': "delete_metadata_successful e d = (d1, [D_base (Engine ev)])" and w: "d_writer d1 = None"
    and ev: "ev = Ran Del_send_response \<or> ev = StartCleanup \<or> ev = SendResponse"
    and at: "del_at ob Del_metadataDeleted False ts d1"
    using d(2) by (auto simp: delete_metadata_successful_def)
  have clean: "outs2 \<noteq> [] \<and> goes_on lo ob wo (del_perform (Suc m) e (d2, pre @ outs2))"
    if "startcleanup e d1 = Some (d2, outs2)" for d2 outs2 pre m
    by (rule cleanup_goes_on [OF at w wo e that])
  have "outs2 \<noteq> [] \<and> goes_on lo ob wo (del_perform (Suc (Suc n)) e (d2, outs2))"
    if "startcleanup e d1 = Some (d2, outs2)" for d2 outs2 using clean [OF that, of "Suc n" "[]"] by simp
  moreover have "outs2 \<noteq> [] \<and> goes_on lo ob wo (del_perform (Suc (Suc n)) e (d2, outs2))"
    if "del_send_response e d1 = Some (d2, outs2)" for d2 outs2
    using send_response_cleans [OF that] clean [of d2 _ "Suc n"] by auto
  moreover obtain body where body: "del_call e (D_base (Engine ev)) = Some body" "body d1 = startcleanup e d1 \<or> body d1 = del_send_response e d1"
    using ev by auto
  ultimately show ?thesis
    unfolding next' by (intro goes_on_call [where body = body]) (simp_all, metis)
qed

lemma step_probable_record:
  assumes ph: "del_phase lo ob wo d (D_kv Wait_probable_record op)" and ap: "indices_apart (oid lo) ob" and e: "de_probable_idx e = lo"
    and ans: "del_answer f (D_kv Wait_probable_record op) wo = Some (wo1, ev)"
  shows "goes_on lo ob wo1 (del_step e ev d) \<and> no_loss (oid lo) ob wo1 \<and> listed ob wo1"
proof -
  obtain st mo where wo: "wo = (st, mo)" by (cases wo)
  from ph obtain v where at: "del_at ob Del_empty False [delete_metadata, Del_send_response] d" and w: "d_writer d = None"
    and op: "op = Put_keyval lo [(dead_key ob, v)]" and in': "listed ob wo" "stored ob wo" by auto
  have wo1: "wo1 = (write_effect f op st, mo)" and ev: "ev = Kv_reply Wait_probable_record (write_verdict f op st)"
    using ans wo by auto
  have in1: "listed ob wo1" "stored ob wo1" using in' ap by (auto simp: wo wo1 op world_defs)
  have "goes_on lo ob wo1 (del_step e ev d)"
  proof (cases f)
    case Perform
    then have rec: "recorded (oid lo) ob wo1" by (simp add: wo1 op world_defs)
    from del_next_serving [OF at, of e] obtain d1 ev1 where nx: "del_next e d = (d1, [D_base (Engine ev1)])"
      and w1: "d_writer d1 = None"
      and ev1: "ev1 = Ran delete_metadata \<and> del_at ob Del_empty False [Del_send_response] d1
          \<or> (ev1 = StartCleanup \<or> ev1 = SendResponse) \<and> d_state d1 = Del_empty" using w by (auto simp: del_at_def)
    have step: "del_step e ev d = del_perform 8 e (d1, [D_base (Engine ev1)])"
      using Perform by (simp add: del_step_def ev op write_verdict_def nx)
    have "outs2 \<noteq> [] \<and> goes_on lo ob wo1 (del_perform 7 e (d2, outs2))"
      if at1: "del_at ob Del_empty False [Del_send_response] d1" and del: "do_delete_metadata e d1 = Some (d2, outs2)" for d2 outs2
    proof -
      from at1 obtain os where ob1: "oa_object d1 = Some (ob\<lparr>om_state := os\<rparr>)" by (auto simp: del_at_def)
      with del have "d2 = d1\<lparr>oa_object := Some (ob\<lparr>om_state := os\<rparr>), oa_ext := oa_ext d1\<rparr>"
        and outs: "outs2 = [D_obj After_metadata Wait_remove_object (Delete_keyval (om_object_list_index_layout ob) [om_object_name ob])]"
        by (auto simp: do_delete_metadata_def with_object_def om_remove_def remove_object_metadata_def obj_after_def Let_def split: if_splits)
      then have "del_at ob Del_empty False [Del_send_response] d2" "d_writer d2 = None" using at1 w1 by (auto simp: del_at_def)
      then show ?thesis using outs in1 rec by (auto intro!: goes_on_stop)
    qed
    then show ?thesis
      unfolding step using ev1 by (auto intro!: goes_on_first simp: send_response_empty startcleanup_def Let_def)
  next
    case (Refuse ws ctx)
    let ?d = "oa_set_error ''InternalError'' (d\<lparr>d_state := Del_probableEntryRecordFailed\<rparr>)"
    have err: "is_error_state (oa_act ?d)" "s3_error_code (oa_act ?d) \<noteq> []"
      by (simp_all add: oa_set_error_def set_s3_error_def is_error_state_def)
    have "startcleanup e ?d = Some (del_done (?d\<lparr>oa_act := (clear_tasks (oa_act ?d))\<lparr>cleanup_started := True\<rparr>\<rparr>))"
      by (simp add: startcleanup_def Let_def oa_set_error_def)
    moreover have "\<exists>d1. del_done d0 = (d1, [D_base (Engine Finished)])" for d0
      by (simp add: del_done_def oa_done_def action_done_def)
    ultimately obtain d1 where sc: "startcleanup e ?d = Some (d1, [D_base (Engine Finished)])" by metis
    have "outs \<noteq> [] \<and> last outs = D_base (Engine Finished) \<and> D_base (Respond_status 204 []) \<notin> set outs"
      if "del_send_response e ?d = Some (d2, outs)" for d2 outs
      using send_response_error [OF err that] sc by auto
    moreover have "no_loss (oid lo) ob wo1" using in1 by (simp add: no_loss_def)
    ultimately have "outs \<noteq> [] \<and> goes_on lo ob wo1 (del_perform 8 e (d2, outs))"
      if "del_send_response e ?d = Some (d2, outs)" for d2 outs
      using that by (auto intro!: goes_on_stop)
    then show ?thesis
      using Refuse
      by (auto simp: del_step_def ev write_verdict_def add_object_oid_to_probable_dead_oid_list_failed_def del_fail_def
          bind_eq_Some_conv goes_on_def split: bind_splits option.splits)
  qed
  then show ?thesis using in1 by (simp add: no_loss_def)
qed

lemma finished_goes_on:
  assumes "del_at ob s True [] d" "no_loss (oid lo) ob wo"
  shows "goes_on lo ob wo (del_perform n e (del_next e d))"
  using del_next_cleaning [OF assms(1), of e] assms(2) by (auto intro!: goes_on_stop)

text \<open>The metadata could not be deleted: the record is taken back.\<close>

lemma delete_failed_goes_on:
  assumes at: "del_at ob Del_empty False ts d" and wo: "listed ob wo" "stored ob wo" and e: "de_probable_idx e = lo"
    and r: "delete_metadata_failed e d = Some (d2, outs)"
  shows "goes_on lo ob wo (del_perform (Suc n) e (d2, outs))"
proof -
  let ?d = "oa_set_error ''InternalError'' (d\<lparr>d_state := Del_metadataDeleteFailed\<rparr>)"
  have at': "del_at ob Del_metadataDeleteFailed False ts ?d" using at by (auto simp: del_at_def oa_set_error_def set_s3_error_def)
  have err: "is_error_state (oa_act ?d)" "s3_error_code (oa_act ?d) \<noteq> []"
    by (simp_all add: oa_set_error_def set_s3_error_def is_error_state_def)
  from r have "del_send_response e ?d = Some (d2, outs)" by (simp add: delete_metadata_failed_def del_fail_def)
  from send_response_error [OF err this] startcleanup_delete_failed [OF at', of e] del_at_cleaning_up [OF at', of "[]" remove_probable_record]
  obtain pre where outs: "outs = pre @ [D_base (Engine (Ran remove_probable_record))]" "D_base (Respond_status 204 []) \<notin> set pre"
    and at2: "del_at ob Del_metadataDeleteFailed True [] d2" by auto
  have "goes_on lo ob wo (del_perform n e (d2, [D_kv Wait_record_removed (Delete_keyval lo [dead_key ob])]))"
    using at2 wo by (intro goes_on_stop) auto
  then show ?thesis
    using outs remove_record_deletes [OF at2, of e] e by (intro goes_on_call) auto
qed

lemma with_object_at:
  assumes "del_at ob s c ts d"
  obtains os where "\<And>f k. with_object e k f d = f \<lparr>oe_meta = ob\<lparr>om_state := os\<rparr>, oe_ext = oa_ext d, oe_writer_state = W_start\<rparr> \<bind> obj_after e k d"
  using assms by (auto simp: del_at_def with_object_def)

lemma del_at_object:
  "del_at ob s c ts d \<Longrightarrow> del_at ob s c ts (d\<lparr>oa_object := Some (ob\<lparr>om_state := os\<rparr>), oa_ext := x\<rparr>)"
  by (auto simp: del_at_def)

lemma step_remove_object:
  assumes ph: "del_phase lo ob wo d (D_obj After_metadata Wait_remove_object op)" and ap: "indices_apart (oid lo) ob" and e: "de_probable_idx e = lo"
    and ans: "del_answer f (D_obj After_metadata Wait_remove_object op) wo = Some (wo1, ev)"
  shows "goes_on lo ob wo1 (del_step e ev d) \<and> no_loss (oid lo) ob wo1"
proof -
  obtain st mo where wo: "wo = (st, mo)" by (cases wo)
  from ph have at: "del_at ob Del_empty False [Del_send_response] d" and w: "d_writer d = None"
    and op: "op = Delete_keyval (om_object_list_index_layout ob) [om_object_name ob]"
    and in': "listed ob wo" "stored ob wo" "recorded (oid lo) ob wo" by auto
  have wo1: "wo1 = (write_effect f op st, mo)" and ev: "ev = Obj_reply After_metadata Wait_remove_object (write_verdict f op st)"
    using ans wo by auto
  obtain os where wit: "\<And>f k. with_object e k f d = f \<lparr>oe_meta = ob\<lparr>om_state := os\<rparr>, oe_ext = oa_ext d, oe_writer_state = W_start\<rparr> \<bind> obj_after e k d"
    using with_object_at [OF at] by metis
  show ?thesis
  proof (cases f)
    case Perform
    then have gone: "\<not> listed ob wo1" "recorded (oid lo) ob wo1" using in' ap by (auto simp: wo wo1 op world_defs)
    have "goes_on lo ob wo1 (del_step e ev d)"
    proof (cases "om_is_multipart ob")
      case True
      have "goes_on lo ob wo1 (del_perform (Suc (Suc (Suc 5))) e
          (delete_metadata_successful e (d\<lparr>oa_object := Some (ob\<lparr>om_state := Odeleted\<rparr>), oa_ext := oa_ext d\<rparr>)))"
        by (rule deleted_goes_on [OF del_at_object [OF at] _ gone e]) (simp add: w)
      with True Perform show ?thesis
        by (simp add: del_step_def ev op write_verdict_def wit remove_object_metadata_successful_def oe_set_state_def obj_after_def)
    next
      case False
      have at1: "del_at ob Del_empty False [Del_send_response] (d\<lparr>oa_object := Some (ob\<lparr>om_state := os\<rparr>), oa_ext := oa_ext d\<rparr>)"
        by (rule del_at_object [OF at])
      from False Perform at1 w gone show ?thesis
        by (auto simp: del_step_def ev op write_verdict_def wit remove_object_metadata_successful_def remove_version_metadata_def
            Let_def obj_after_def bind_eq_Some_conv goes_on_def [of _ _ _ None] split: bind_splits intro!: goes_on_stop)
    qed
    then show ?thesis using gone by (simp add: no_loss_def)
  next
    case (Refuse ws ctx)
    then have same: "wo1 = wo" by (simp add: wo1 wo write_effect_def)
    obtain os1 where handle: "del_handle e ev d = delete_metadata_failed e (d\<lparr>oa_object := Some (ob\<lparr>om_state := os1\<rparr>), oa_ext := oa_ext d\<rparr>)"
      using Refuse by (auto simp: ev write_verdict_def wit om_write_failed_def oe_set_state_def obj_after_def)
    have "goes_on lo ob wo1 (del_step e ev d)"
    proof (cases "del_handle e ev d")
      case (Some r)
      then obtain d2 outs where r: "del_handle e ev d = Some (d2, outs)" by (cases r) auto
      with delete_failed_goes_on [OF del_at_object [OF at] in'(1,2) e trans [OF handle [symmetric] r], of 7] show ?thesis
        using same by (simp add: del_step_def)
    qed (simp add: del_step_def goes_on_def)
    then show ?thesis using in' same by (simp add: no_loss_def)
  qed
qed

lemma step_remove_version:
  assumes ph: "del_phase lo ob wo d (D_obj After_metadata Wait_remove_version op)" and ap: "indices_apart (oid lo) ob" and e: "de_probable_idx e = lo"
    and ans: "del_answer f (D_obj After_metadata Wait_remove_version op) wo = Some (wo1, ev)"
  shows "goes_on lo ob wo1 (del_step e ev d) \<and> no_loss (oid lo) ob wo1 \<and> \<not> listed ob wo1"
proof -
  obtain st mo where wo: "wo = (st, mo)" by (cases wo)
  from ph obtain ks where at: "del_at ob Del_empty False [Del_send_response] d" and w: "d_writer d = None"
    and op: "op = Delete_keyval (om_objects_version_list_index_layout ob) ks"
    and in': "\<not> listed ob wo" "recorded (oid lo) ob wo" by auto
  have wo1: "wo1 = (write_effect f op st, mo)" and ev: "ev = Obj_reply After_metadata Wait_remove_version (write_verdict f op st)"
    using ans wo by auto
  have gone: "\<not> listed ob wo1" "recorded (oid lo) ob wo1" using in' ap by (auto simp: wo wo1 op world_defs)
  obtain os where wit: "\<And>f k. with_object e k f d = f \<lparr>oe_meta = ob\<lparr>om_state := os\<rparr>, oe_ext = oa_ext d, oe_writer_state = W_start\<rparr> \<bind> obj_after e k d"
    using with_object_at [OF at] by metis
  have "goes_on lo ob wo1 (del_perform (Suc (Suc (Suc 5))) e
      (delete_metadata_successful e (d\<lparr>oa_object := Some (ob\<lparr>om_state := Odeleted\<rparr>), oa_ext := oa_ext d\<rparr>)))"
    by (rule deleted_goes_on [OF del_at_object [OF at] _ gone e]) (simp add: w)
  then have "goes_on lo ob wo1 (del_step e ev d)"
    by (cases f) (simp_all add: del_step_def ev op write_verdict_def wit remove_version_metadata_done_def oe_set_state_def obj_after_def)
  then show ?thesis using gone by (simp add: no_loss_def)
qed

lemma del_at_writer: "del_at ob s c ts d \<Longrightarrow> del_at ob s c ts (d\<lparr>d_writer := w, d_writer_cont := k\<rparr>)"
  "del_at ob s c ts d \<Longrightarrow> del_at ob s c ts (d\<lparr>d_writer := w\<rparr>)"
  by (auto simp: del_at_def)

text \<open>A new writer opens the object before it deletes it.\<close>

lemma new_writer_deletes:
  "\<exists>w outs. Motr_Writer.delete_object env (om_oid ob) lid pv (S3MotrWiter_init calc di uri) = Some (w, outs)
     \<and> (if we_entity_open env 0 = 0 then outs = [Open_objects [om_oid ob]] \<and> deleting_with ob w
        else outs = [Post_writer_open_failed (we_entity_open env 0)])"
  by (simp add: Motr_Writer.delete_object_def release_before_reuse_def S3MotrWiter_init_def Motr_Writer.set_oid_def
      Motr_Writer.set_layout_id_def open_objects_def Let_def deleting_with_def split_def)

lemma opened_writer_deletes:
  assumes "deleting_with ob w"
  shows "\<exists>w1. open_objects_successful env w = Some (w1, if we_entity_delete env 0 = 0 then [Delete_objects [om_oid ob]]
     else [Post_delete_failed (we_entity_delete env 0)])"
proof -
  from assms obtain p ps where "w_obj_ctx w = Some (p # ps)" by (auto simp: deleting_with_def neq_Nil_conv)
  then show ?thesis using assms by (simp add: deleting_with_def open_objects_successful_def delete_opened_def Let_def)
qed

lemma step_marked:
  assumes ph: "del_phase lo ob wo d (D_kv Wait_marked op)" and ap: "indices_apart (oid lo) ob" and e: "de_probable_idx e = lo"
    and ans: "del_answer f (D_kv Wait_marked op) wo = Some (wo1, ev)"
  shows "goes_on lo ob wo1 (del_step e ev d) \<and> no_loss (oid lo) ob wo1 \<and> \<not> listed ob wo1"
proof -
  obtain st mo where wo: "wo = (st, mo)" by (cases wo)
  from ph obtain v where at: "del_at ob Del_metadataDeleted True [Del_delete_object] d" and w: "d_writer d = None"
    and op: "op = Put_keyval lo [(dead_key ob, v)]" and in': "\<not> listed ob wo" "recorded (oid lo) ob wo" by auto
  have wo1: "wo1 = (write_effect f op st, mo)" and ev: "ev = Kv_reply Wait_marked (write_verdict f op st)"
    using ans wo by auto
  have gone: "\<not> listed ob wo1" "recorded (oid lo) ob wo1" using in' ap by (auto simp: wo wo1 op world_defs)
  then have safe: "no_loss (oid lo) ob wo1" by (simp add: no_loss_def)
  from del_next_cleaning [OF at, of e] obtain d1 where
    nx: "del_next e d = (d1, [D_base (Engine (Ran Del_delete_object))])" and at1: "del_at ob Del_metadataDeleted True [] d1"
    and w1: "d_writer d1 = None" using w by auto
  obtain os where ob1: "oa_object d1 = Some (ob\<lparr>om_state := os\<rparr>)" using at1 by (auto simp: del_at_def)
  let ?pv = "get_pvid (ob\<lparr>om_state := os\<rparr>)"
  obtain w2 outs where wr: "Motr_Writer.delete_object (de_writer e) (om_oid ob) (om_layout_id ob) ?pv
        (S3MotrWiter_init (we_pi (de_writer e)) (de_di_check e) (de_uri_oid e)) = Some (w2, outs)"
    and wr2: "if we_entity_open (de_writer e) 0 = 0 then outs = [Open_objects [om_oid ob]] \<and> deleting_with ob w2
        else outs = [Post_writer_open_failed (we_entity_open (de_writer e) 0)]"
    using new_writer_deletes by blast
  have "outs1 \<noteq> [] \<and> goes_on lo ob wo1 (del_perform 7 e (d2, outs1))" if body: "do_delete_object e d1 = Some (d2, outs1)" for d2 outs1
  proof (cases "non_zero (om_oid ob) \<and> de_delayed_delete e")
    case True
    then have "del_next e d1 = (d2, outs1)" using body ob1 by (simp add: do_delete_object_def)
    then show ?thesis using del_next_cleaning [OF at1, of e] finished_goes_on [OF at1 safe, of 7 e] by auto
  next
    case False
    then have "d2 = d1\<lparr>d_writer := Some w2, d_writer_cont := Some Then_remove_probable_record\<rparr>" "outs1 = map D_writer outs"
      using body ob1 w1 wr by (auto simp: do_delete_object_def del_motr_delete_def)
    then show ?thesis
      using wr2 gone del_at_writer(1) [OF at1, of "Some Then_remove_probable_record" "Some w2"]
      by (auto split: if_splits intro!: goes_on_stop)
  qed
  then have "goes_on lo ob wo1 (del_step e ev d)"
    by (auto simp: del_step_def ev nx intro!: goes_on_first)
  then show ?thesis using safe gone by simp
qed

lemma writer_failed_goes_on:
  assumes "del_at ob s True [] d" "d_writer d \<noteq> None" "no_loss (oid lo) ob wo" "ev = Motr_open_failed ctx \<or> ev = Motr_delete_failed ctx"
  shows "goes_on lo ob wo (del_step e ev d)"
proof -
  from assms(2) obtain w where w: "d_writer d = Some w" by auto
  obtain w1 where "del_handle e ev d = Some (del_next e (d\<lparr>d_writer := Some w1\<rparr>))"
    using assms(4) w by (auto simp: with_writer_def open_objects_failed_def delete_objects_failed_def)
  then show ?thesis
    using finished_goes_on [OF del_at_writer(2) [OF assms(1)] assms(3), of 8 e "Some w1"] by (simp add: del_step_def)
qed

lemma step_open:
  assumes ph: "del_phase lo ob wo d (D_writer (Open_objects ids))"
    and ans: "del_answer f (D_writer (Open_objects ids)) wo = Some (wo1, ev)"
  shows "goes_on lo ob wo1 (del_step e ev d) \<and> wo1 = wo"
proof -
  obtain st mo where wo: "wo = (st, mo)" by (cases wo)
  from ph obtain w where at: "del_at ob Del_metadataDeleted True [] d" and k: "d_writer_cont d = Some Then_remove_probable_record"
    and w: "d_writer d = Some w" "deleting_with ob w" and gone: "\<not> listed ob wo" "recorded (oid lo) ob wo" by auto
  have same: "wo1 = wo" using ans wo by auto
  have safe: "no_loss (oid lo) ob wo" using gone by (simp add: no_loss_def)
  from opened_writer_deletes [OF w(2), of "de_writer e"] obtain w1 where
    op: "open_objects_successful (de_writer e) w = Some (w1, if we_entity_delete (de_writer e) 0 = 0 then [Delete_objects [om_oid ob]]
       else [Post_delete_failed (we_entity_delete (de_writer e) 0)])" by blast
  have "goes_on lo ob wo (del_step e Motr_opened d)"
    using op w gone k del_at_writer(2) [OF at, of "Some w1"] by (auto simp: del_step_def with_writer_def intro!: goes_on_stop)
  moreover have "ev = Motr_opened \<or> (\<exists>ctx. ev = Motr_open_failed ctx)" using ans wo by (auto split: del_fault.splits if_splits)
  ultimately show ?thesis using writer_failed_goes_on [OF at _ safe] w same by auto
qed

lemma step_delete:
  assumes ph: "del_phase lo ob wo d (D_writer (Delete_objects ids))" and e: "de_probable_idx e = lo"
    and ans: "del_answer f (D_writer (Delete_objects ids)) wo = Some (wo1, ev)"
  shows "goes_on lo ob wo1 (del_step e ev d) \<and> no_loss (oid lo) ob wo1 \<and> \<not> listed ob wo1"
proof -
  obtain st mo where wo: "wo = (st, mo)" by (cases wo)
  from ph obtain w where at: "del_at ob Del_metadataDeleted True [] d" and k: "d_writer_cont d = Some Then_remove_probable_record"
    and w: "d_writer d = Some w" and ids: "ids = [om_oid ob]" and gone: "\<not> listed ob wo" "recorded (oid lo) ob wo" by auto
  show ?thesis
  proof (cases f)
    case Perform
    let ?d = "d\<lparr>d_writer := Some (w\<lparr>w_state := Wr_deleted\<rparr>)\<rparr>"
    have wo1: "wo1 = (st, mo - {om_oid ob})" "ev = Motr_deleted" using ans wo ids Perform by auto
    have "\<not> listed ob wo1" "\<not> stored ob wo1" using gone by (simp_all add: wo wo1 listed_def stored_def)
    moreover have "goes_on lo ob wo1 (del_step e ev d)"
      using calculation del_at_writer(2) [OF at] w k remove_record_deletes [OF del_at_writer(2) [OF at], of e] e
      by (auto simp: del_step_def wo1 with_writer_def delete_objects_successful_def intro!: goes_on_stop exI)
    ultimately show ?thesis by (simp add: no_loss_def)
  next
    case (Refuse ws ctx)
    then have "wo1 = wo" "ev = Motr_delete_failed ctx" using ans wo by auto
    moreover have "no_loss (oid lo) ob wo" using gone by (simp add: no_loss_def)
    ultimately show ?thesis using writer_failed_goes_on [OF at] w gone by simp
  qed
qed

lemma step_record_removed:
  assumes ph: "del_phase lo ob wo d (D_kv Wait_record_removed op)" and ap: "indices_apart (oid lo) ob"
    and ans: "del_answer f (D_kv Wait_record_removed op) wo = Some (wo1, ev)"
  shows "goes_on lo ob wo1 (del_step e ev d) \<and> no_loss (oid lo) ob wo1 \<and> listed ob wo1 = listed ob wo"
proof -
  obtain st mo where wo: "wo = (st, mo)" by (cases wo)
  from ph obtain s where at: "del_at ob s True [] d" and op: "op = Delete_keyval lo [dead_key ob]" and in': "listed ob wo = stored ob wo" by auto
  have wo1: "wo1 = (write_effect f op st, mo)" and ev: "ev = Kv_reply Wait_record_removed (write_verdict f op st)" using ans wo by auto
  have same: "listed ob wo1 = listed ob wo" "stored ob wo1 = stored ob wo" using ap by (auto simp: wo wo1 op world_defs)
  then have "no_loss (oid lo) ob wo1" using in' by (simp add: no_loss_def)
  then show ?thesis using finished_goes_on [OF at, of lo wo1 8 e] same by (simp add: del_step_def ev)
qed

lemma step_post:
  assumes ph: "del_phase lo ob wo d (D_writer p)" and p: "p = Post_writer_open_failed rc \<or> p = Post_delete_failed rc"
    and ans: "del_answer f (D_writer p) wo = Some (wo1, ev)"
  shows "goes_on lo ob wo1 (del_step e ev d) \<and> wo1 = wo"
proof -
  from ph p have "del_at ob Del_metadataDeleted True [] d" "d_writer d \<noteq> None" "no_loss (oid lo) ob wo" by (auto simp: no_loss_def)
  moreover have "wo1 = wo" "\<exists>ctx. ev = Motr_open_failed ctx \<or> ev = Motr_delete_failed ctx" using ans p by auto
  ultimately show ?thesis using writer_failed_goes_on by blast
qed

lemma phase_step:
  assumes ph: "del_phase lo ob wo d p" and ap: "indices_apart (oid lo) ob" and e: "de_probable_idx e = lo"
    and ans: "del_answer f p wo = Some (wo1, ev)"
  shows "goes_on lo ob wo1 (del_step e ev d) \<and> no_loss (oid lo) ob wo1 \<and> (\<not> listed ob wo \<longrightarrow> \<not> listed ob wo1)"
proof -
  consider op where "p = D_kv Wait_probable_record op" | op where "p = D_obj After_metadata Wait_remove_object op"
    | op where "p = D_obj After_metadata Wait_remove_version op" | op where "p = D_kv Wait_marked op"
    | ids where "p = D_writer (Open_objects ids)" | ids where "p = D_writer (Delete_objects ids)"
    | rc q where "p = D_writer q" "q = Post_writer_open_failed rc \<or> q = Post_delete_failed rc"
    | op where "p = D_kv Wait_record_removed op" | "p = D_base (Engine Finished)"
    using ph by (induction lo ob wo d p rule: del_phase.induct) auto
  then show ?thesis
  proof cases
    case 1 then show ?thesis using step_probable_record [OF _ ap e] ph ans by (metis del_phase.simps(1))
  next
    case 2 then show ?thesis using step_remove_object [OF _ ap e] ph ans by (metis del_phase.simps(2))
  next
    case 3 then show ?thesis using step_remove_version [OF _ ap e] ph ans by metis
  next
    case 4 then show ?thesis using step_marked [OF _ ap e] ph ans by metis
  next
    case 5 then show ?thesis using step_open ph ans del_phase_no_loss [OF ph] by metis
  next
    case 6 then show ?thesis using step_delete [OF _ e] ph ans by metis
  next
    case 7 then show ?thesis using step_post [OF _ _ ans [unfolded 7(1)]] ph del_phase_no_loss [OF ph] by metis
  next
    case 8 then show ?thesis using step_record_removed [OF _ ap] ph ans by metis
  next
    case 9 then show ?thesis using ans by simp
  qed
qed

lemma run_safe:
  assumes "goes_on lo ob wo (Some (d, outs))" "indices_apart (oid lo) ob" "\<forall>(e, f) \<in> set efs. de_probable_idx e = lo"
    "del_run efs wo (d, outs) = (wo', log, v)"
  shows "no_loss (oid lo) ob wo' \<and> (\<not> listed ob wo \<or> D_base (Respond_status 204 []) \<in> set log \<longrightarrow> \<not> listed ob wo')"
  using assms
proof (induction efs arbitrary: wo d outs log)
  case Nil
  then show ?case using del_phase_no_loss [of lo ob wo d "last outs"] by (auto simp: goes_on_def)
next
  case (Cons ef efs)
  obtain e f where ef: "ef = (e, f)" by force
  from Cons.prems(1) have outs: "outs \<noteq> []" and ph: "del_phase lo ob wo d (last outs)"
    and sent: "D_base (Respond_status 204 []) \<in> set outs \<longrightarrow> \<not> listed ob wo" by (auto simp: goes_on_def)
  show ?case
  proof (cases "del_answer f (last outs) wo")
    case None
    then show ?thesis using Cons.prems(4) ef outs sent del_phase_no_loss [OF ph] by auto
  next
    case (Some r)
    then obtain wo1 ev where ans: "del_answer f (last outs) wo = Some (wo1, ev)" by (cases r) auto
    have e: "de_probable_idx e = lo" using Cons.prems(3) ef by simp
    from phase_step [OF ph Cons.prems(2) e ans] have on: "goes_on lo ob wo1 (del_step e ev d)" "no_loss (oid lo) ob wo1"
      "\<not> listed ob wo \<longrightarrow> \<not> listed ob wo1" by auto
    show ?thesis
    proof (cases "del_step e ev d")
      case None
      then show ?thesis using Cons.prems(4) ef outs ans on sent by auto
    next
      case (Some q)
      then obtain d1 outs1 where q: "del_step e ev d = Some (d1, outs1)" by (cases q) auto
      obtain log1 where run: "del_run efs wo1 (d1, outs1) = (wo', log1, v)" "log = outs @ log1"
        using Cons.prems(4) ef outs ans q by (auto split: prod.splits)
      from Cons.IH [OF on(1) [unfolded q] Cons.prems(2) _ run(1)] Cons.prems(3) ef
      show ?thesis using run(2) sent on(3) by auto
    qed
  qed
qed

lemma start_goes_on:
  assumes d: "del_ready ob d" and wo: "listed ob wo" "stored ob wo" and e: "de_probable_idx e = lo"
  shows "goes_on lo ob wo (del_step e Del_authorized d)"
proof -
  let ?d = "d\<lparr>oa_act := (oa_act d)\<lparr>task_iteration_index := Suc (task_iteration_index (oa_act d))\<rparr>\<rparr>"
  let ?next = "del_engine (action_next (de_act e) (oa_act d)) d"
  from d have "task_iteration_index (oa_act d) < length (task_list (oa_act d))"
    "task_list (oa_act d) ! task_iteration_index (oa_act d) = populate_probable_dead_oid_list"
    "drop (Suc (task_iteration_index (oa_act d))) (task_list (oa_act d)) = [delete_metadata, Del_send_response]"
    by (auto simp: del_ready_def dest: drop_nth_Cons)
  with d have next': "?next = (?d, [D_base (Engine (Ran populate_probable_dead_oid_list))])
      \<or> (\<exists>d1 ev. ?next = (d1, [D_base (Engine ev)]) \<and> (ev = StartCleanup \<or> ev = SendResponse) \<and> d_state d1 = Del_empty)"
    by (auto simp: del_ready_def del_engine_def action_next_def checked_def client_read_error_def
        cleanup_or_rollback_def set_s3_error_def Let_def)
  have put: "outs \<noteq> [] \<and> goes_on lo ob wo (del_perform 7 e (d2, outs))"
    if body: "populate_probable_dead_oids e ?d = Some (d2, outs)" for d2 outs
  proof -
    from body d e obtain r v where "d2 = ?d\<lparr>d_oid_str := dead_key ob, d_rec := Some r\<rparr>"
      and outs: "outs = [D_kv Wait_probable_record (Put_keyval lo [(dead_key ob, v)])]"
      by (auto simp: del_ready_def populate_probable_dead_oids_def add_object_oid_to_probable_dead_oid_list_def Let_def
          put_record_def put_keyval_one_def dead_key_def [symmetric] bind_eq_Some_conv split: option.splits if_splits)
    then have "del_at ob Del_empty False [delete_metadata, Del_send_response] d2" "d_writer d2 = None"
      using d by (auto simp: del_at_def del_ready_def dest: drop_nth_Cons intro!: exI [of _ "om_state ob"])
    then show ?thesis using outs wo by (auto intro!: goes_on_stop)
  qed
  show ?thesis
    using next' put
    by (auto simp: del_step_def check_authorization_successful_def intro!: goes_on_first simp: send_response_empty startcleanup_def Let_def)
qed

section \<open>A deletion that nothing disturbs\<close>

definition del_calm :: "s3_motr_idx_layout \<Rightarrow> del_env \<Rightarrow> bool" where
  "del_calm lo e \<longleftrightarrow> de_probable_idx e = lo \<and> client_connected (de_act e) \<and> s3_client_read_error (de_act e) = []
     \<and> we_entity_open (de_writer e) 0 = 0 \<and> we_entity_delete (de_writer e) 0 = 0"

text \<open>What the constructor of the record asserts.\<close>

definition recordable :: "S3BucketMetadata \<Rightarrow> S3ObjectMetadata \<Rightarrow> bool" where
  "recordable b ob \<longleftrightarrow> object_ready ob \<and> om_layout_id ob \<noteq> -1
     \<and> oid (object_list_index_layout b) \<noteq> zero_oid \<and> oid (objects_version_list_index_layout b) \<noteq> zero_oid"

definition del_fine :: "S3ObjectMetadata \<Rightarrow> S3DeleteObjectActionState \<Rightarrow> bool \<Rightarrow> del_task list \<Rightarrow> del_action \<Rightarrow> bool" where
  "del_fine ob s c ts d \<longleftrightarrow> del_at ob s c ts d \<and> \<not> is_error_state (oa_act d)"

lemma fine_populate:
  assumes d: "del_ready ob d" "oa_bucket d = Some b" "\<not> is_error_state (oa_act d)" and ok: "recordable b ob" and e: "del_calm lo e"
  shows "\<exists>d1 v pre. del_step e Del_authorized d = Some (d1, pre @ [D_kv Wait_probable_record (Put_keyval lo [(dead_key ob, v)])])
     \<and> del_fine ob Del_empty False [delete_metadata, Del_send_response] d1 \<and> d_writer d1 = None"
proof -
  let ?d = "d\<lparr>oa_act := (oa_act d)\<lparr>task_iteration_index := Suc (task_iteration_index (oa_act d))\<rparr>\<rparr>"
  from d(1) have t: "task_iteration_index (oa_act d) < length (task_list (oa_act d))"
    "task_list (oa_act d) ! task_iteration_index (oa_act d) = populate_probable_dead_oid_list"
    "drop (Suc (task_iteration_index (oa_act d))) (task_list (oa_act d)) = [delete_metadata, Del_send_response]"
    by (auto simp: del_ready_def dest: drop_nth_Cons)
  have nx: "del_engine (action_next (de_act e) (oa_act d)) d = (?d, [D_base (Engine (Ran populate_probable_dead_oid_list))])"
    using d(1) e t by (simp add: del_ready_def del_engine_def action_next_def checked_def del_calm_def is_s3_client_read_error_def)
  have "\<exists>v d2. populate_probable_dead_oids e ?d = Some (d2, [D_kv Wait_probable_record (Put_keyval lo [(dead_key ob, v)])])
      \<and> d_rec d2 \<noteq> None \<and> d2 = ?d\<lparr>d_oid_str := dead_key ob, d_rec := d_rec d2\<rparr>"
    using d ok e
    by (simp add: del_ready_def populate_probable_dead_oids_def add_object_oid_to_probable_dead_oid_list_def Let_def recordable_def
        object_ready_def get_version_key_in_index_def S3ProbableDeleteRecord_new_def put_record_def put_keyval_one_def
        dead_key_def [symmetric] del_calm_def)
  then obtain v d2 where body: "populate_probable_dead_oids e ?d = Some (d2, [D_kv Wait_probable_record (Put_keyval lo [(dead_key ob, v)])])"
    and d2: "d_rec d2 \<noteq> None" "d2 = ?d\<lparr>d_oid_str := dead_key ob, d_rec := d_rec d2\<rparr>" by blast
  have "del_fine ob Del_empty False [delete_metadata, Del_send_response] d2 \<and> d_writer d2 = None"
    using d t d2(1) by (subst (1 2) d2(2)) (auto simp: del_fine_def del_at_def del_ready_def is_error_state_def intro!: exI [of _ "om_state ob"])
  moreover have "del_step e Del_authorized d = Some (d2,
      [D_base (Engine (Ran populate_probable_dead_oid_list)), D_kv Wait_probable_record (Put_keyval lo [(dead_key ob, v)])])"
    by (simp add: del_step_def check_authorization_successful_def nx body del_perform.simps)
  ultimately show ?thesis
    by (intro exI [of _ d2] exI [of _ v] exI [of _ "[D_base (Engine (Ran populate_probable_dead_oid_list))]"]) simp
qed

lemma fine_next:
  assumes "del_fine ob s c (t # ts) d" "del_calm lo e"
  shows "\<exists>d1. del_next e d = (d1, [D_base (Engine (Ran t))]) \<and> del_fine ob s c ts d1 \<and> d_writer d1 = d_writer d
     \<and> oa_object d1 = oa_object d \<and> oa_ext d1 = oa_ext d"
proof -
  let ?d = "d\<lparr>oa_act := (oa_act d)\<lparr>task_iteration_index := Suc (task_iteration_index (oa_act d))\<rparr>\<rparr>"
  have "del_next e d = (?d, [D_base (Engine (Ran t))])"
    using assms drop_nth_Cons [of "task_iteration_index (oa_act d)" "task_list (oa_act d)" t ts]
    by (auto simp: del_fine_def del_at_def del_calm_def del_next_def oa_next_def action_next_def checked_def is_s3_client_read_error_def)
  moreover have "del_fine ob s c ts ?d" using assms(1) del_at_advance [of ob s c t ts d] by (simp add: del_fine_def is_error_state_def)
  ultimately show ?thesis by simp
qed

lemma del_fine_object:
  "del_fine ob s c ts d \<Longrightarrow> del_fine ob s c ts (d\<lparr>oa_object := Some (ob\<lparr>om_state := os\<rparr>), oa_ext := x\<rparr>)"
  by (auto simp: del_fine_def del_at_def)

lemma fine_record_put:
  assumes d: "del_fine ob Del_empty False [delete_metadata, Del_send_response] d" "d_writer d = None" and ok: "object_ready ob" and e: "del_calm lo e"
  shows "\<exists>d1 pre. del_step e (Kv_reply Wait_probable_record Write_done) d
       = Some (d1, pre @ [D_obj After_metadata Wait_remove_object (Delete_keyval (om_object_list_index_layout ob) [om_object_name ob])])
     \<and> del_fine ob Del_empty False [Del_send_response] d1 \<and> d_writer d1 = None"
proof -
  from fine_next [OF d(1) e] obtain d1 where nx: "del_next e d = (d1, [D_base (Engine (Ran delete_metadata))])"
    and d1: "del_fine ob Del_empty False [Del_send_response] d1" "d_writer d1 = None" using d(2) by auto
  from d1(1) obtain os where ob1: "oa_object d1 = Some (ob\<lparr>om_state := os\<rparr>)" by (auto simp: del_fine_def del_at_def)
  let ?d = "d1\<lparr>oa_object := Some (ob\<lparr>om_state := os\<rparr>), oa_ext := oa_ext d1\<rparr>"
  let ?p = "[D_obj After_metadata Wait_remove_object (Delete_keyval (om_object_list_index_layout ob) [om_object_name ob])]"
  have "do_delete_metadata e d1 = Some (?d, ?p)"
    using ok by (simp add: do_delete_metadata_def with_object_def ob1 om_remove_def remove_object_metadata_def obj_after_def Let_def object_ready_def)
  then have "del_step e (Kv_reply Wait_probable_record Write_done) d = Some (?d, [D_base (Engine (Ran delete_metadata))] @ ?p)"
    by (simp add: del_step_def nx del_perform.simps)
  moreover have "del_fine ob Del_empty False [Del_send_response] ?d" by (rule del_fine_object [OF d1(1)])
  ultimately show ?thesis using d1(2)
    by (intro exI [of _ ?d] exI [of _ "[D_base (Engine (Ran delete_metadata))]"]) simp
qed

lemma fine_object_removed:
  assumes d: "del_fine ob Del_empty False [Del_send_response] d" "d_writer d = None" and ok: "object_ready ob"
  shows "\<exists>d1. del_step e (Obj_reply After_metadata Wait_remove_object Write_done) d
       = Some (d1, [D_obj After_metadata Wait_remove_version (Delete_keyval (om_objects_version_list_index_layout ob) [version_key ob])])
     \<and> del_fine ob Del_empty False [Del_send_response] d1 \<and> d_writer d1 = None"
proof -
  from d(1) obtain os where ob1: "oa_object d = Some (ob\<lparr>om_state := os\<rparr>)" by (auto simp: del_fine_def del_at_def)
  let ?d = "d\<lparr>oa_object := Some (ob\<lparr>om_state := os\<rparr>), oa_ext := oa_ext d\<rparr>"
  have "del_step e (Obj_reply After_metadata Wait_remove_object Write_done) d
       = Some (?d, [D_obj After_metadata Wait_remove_version (Delete_keyval (om_objects_version_list_index_layout ob) [version_key ob])])"
    using ok
    by (simp add: del_step_def with_object_def ob1 remove_object_metadata_successful_def object_ready_def remove_version_metadata_def
        get_version_key_in_index_def version_key_def Let_def obj_after_def del_perform.simps)
  moreover have "del_fine ob Del_empty False [Del_send_response] ?d" by (rule del_fine_object [OF d(1)])
  ultimately show ?thesis using d(2) by (intro exI [of _ ?d]) simp
qed

lemma fine_version_removed:
  assumes d: "del_fine ob Del_empty False [Del_send_response] d" "d_writer d = None" and e: "del_calm lo e"
  shows "\<exists>d1 v pre. del_step e (Obj_reply After_metadata Wait_remove_version Write_done) d
       = Some (d1, pre @ [D_kv Wait_marked (Put_keyval lo [(dead_key ob, v)])])
     \<and> (\<exists>r. pd_force_delete r \<and> v = probable_to_json (de_pd e) r)
     \<and> D_base (Respond_status 204 []) \<in> set pre \<and> del_fine ob Del_metadataDeleted True [Del_delete_object] d1 \<and> d_writer d1 = None"
proof -
  from d(1) obtain os where ob1: "oa_object d = Some (ob\<lparr>om_state := os\<rparr>)" by (auto simp: del_fine_def del_at_def)
  let ?d = "d\<lparr>oa_object := Some (ob\<lparr>om_state := Odeleted\<rparr>), oa_ext := oa_ext d, d_state := Del_metadataDeleted\<rparr>"
  have "del_fine ob Del_metadataDeleted False [Del_send_response] ?d" using d(1) by (auto simp: del_fine_def del_at_def)
  from fine_next [OF this e] obtain d1 where nx: "del_next e ?d = (d1, [D_base (Engine (Ran Del_send_response))])"
    and d1: "del_fine ob Del_metadataDeleted False [] d1" "d_writer d1 = None" "oa_object d1 = Some (ob\<lparr>om_state := Odeleted\<rparr>)"
    using d(2) by auto
  let ?d2 = "cleaning_up [mark_oid_for_deletion, Del_delete_object] d1"
  have at1: "del_at ob Del_metadataDeleted False [] d1" using d1(1) by (simp add: del_fine_def)
  have send: "del_send_response e d1 = Some (?d2, [D_base (Respond_status 204 []), D_base (Engine (Ran mark_oid_for_deletion))])"
    using d1 startcleanup_deleted [OF at1, of e] by (simp add: del_send_response_def del_fine_def)
  have at2: "del_at ob Del_metadataDeleted True [Del_delete_object] ?d2" "d_writer ?d2 = None"
    using del_at_cleaning_up [OF at1] d1(2) by auto
  from mark_oid_puts [OF at2(1), of e] obtain d3 v where
    mark: "do_mark_oid_for_deletion e ?d2 = Some (d3, [D_kv Wait_marked (Put_keyval lo [(dead_key ob, v)])])"
    and v: "\<exists>r. pd_force_delete r \<and> v = probable_to_json (de_pd e) r"
    and d3: "del_at ob Del_metadataDeleted True [Del_delete_object] d3" "d_writer d3 = None" using at2(2) e by (auto simp: del_calm_def)
  have "oa_act d3 = oa_act ?d2" using mark by (auto simp: do_mark_oid_for_deletion_def put_record_def Let_def split: option.splits if_splits)
  then have "\<not> is_error_state (oa_act d3)" using d1(1) by (simp add: del_fine_def cleaning_up_def is_error_state_def)
  moreover have "del_step e (Obj_reply After_metadata Wait_remove_version Write_done) d = Some (d3,
      [D_base (Engine (Ran Del_send_response)), D_base (Respond_status 204 []), D_base (Engine (Ran mark_oid_for_deletion)),
       D_kv Wait_marked (Put_keyval lo [(dead_key ob, v)])])"
    using nx by (simp add: del_step_def with_object_def ob1 remove_version_metadata_done_def oe_set_state_def obj_after_def
        delete_metadata_successful_def send mark del_perform.simps)
  ultimately show ?thesis using d3 v
    by (intro exI [of _ d3] exI [of _ v] exI [of _ "[D_base (Engine (Ran Del_send_response)), D_base (Respond_status 204 []),
          D_base (Engine (Ran mark_oid_for_deletion))]"]) (simp add: del_fine_def)
qed

lemma fine_marked:
  assumes d: "del_fine ob Del_metadataDeleted True [Del_delete_object] d" "d_writer d = None" and e: "del_calm lo e"
    and now: "\<not> (non_zero (om_oid ob) \<and> de_delayed_delete e)"
  shows "\<exists>d1 w pre. del_step e (Kv_reply Wait_marked Write_done) d = Some (d1, pre @ [D_writer (Open_objects [om_oid ob])])
     \<and> del_fine ob Del_metadataDeleted True [] d1 \<and> d_writer d1 = Some w \<and> deleting_with ob w \<and> d_writer_cont d1 = Some Then_remove_probable_record"
proof -
  from fine_next [OF d(1) e] obtain d1 where nx: "del_next e d = (d1, [D_base (Engine (Ran Del_delete_object))])"
    and d1: "del_fine ob Del_metadataDeleted True [] d1" "d_writer d1 = None" using d(2) by auto
  from d1(1) obtain os where ob1: "oa_object d1 = Some (ob\<lparr>om_state := os\<rparr>)" by (auto simp: del_fine_def del_at_def)
  obtain w where wr: "Motr_Writer.delete_object (de_writer e) (om_oid ob) (om_layout_id ob) (get_pvid (ob\<lparr>om_state := os\<rparr>))
        (S3MotrWiter_init (we_pi (de_writer e)) (de_di_check e) (de_uri_oid e)) = Some (w, [Open_objects [om_oid ob]])" "deleting_with ob w"
    using new_writer_deletes [of "de_writer e" ob] e unfolding del_calm_def by metis
  let ?d = "d1\<lparr>d_writer := Some w, d_writer_cont := Some Then_remove_probable_record\<rparr>"
  have "do_delete_object e d1 = Some (?d, [D_writer (Open_objects [om_oid ob])])"
    using ob1 wr(1) d1(2) now by (auto simp: do_delete_object_def del_motr_delete_def)
  then have "del_step e (Kv_reply Wait_marked Write_done) d = Some (?d, [D_base (Engine (Ran Del_delete_object)), D_writer (Open_objects [om_oid ob])])"
    by (simp add: del_step_def nx del_perform.simps)
  moreover have "del_fine ob Del_metadataDeleted True [] ?d" using d1(1) by (auto simp: del_fine_def del_at_def)
  ultimately show ?thesis using wr(2)
    by (intro exI [of _ ?d] exI [of _ w] exI [of _ "[D_base (Engine (Ran Del_delete_object))]"]) simp
qed

text \<open>With delayed deletion the request ends here.\<close>

lemma fine_marked_delayed:
  assumes d: "del_fine ob Del_metadataDeleted True [Del_delete_object] d" and e: "del_calm lo e"
    and later: "non_zero (om_oid ob)" "de_delayed_delete e"
  shows "\<exists>d1. del_step e (Kv_reply Wait_marked Write_done) d = Some (d1, [D_base (Engine (Ran Del_delete_object)), D_base (Engine Finished)])"
proof -
  from fine_next [OF d e] obtain d1 where nx: "del_next e d = (d1, [D_base (Engine (Ran Del_delete_object))])"
    and d1: "del_fine ob Del_metadataDeleted True [] d1" by auto
  from d1 obtain os where ob1: "oa_object d1 = Some (ob\<lparr>om_state := os\<rparr>)" by (auto simp: del_fine_def del_at_def)
  have at1: "del_at ob Del_metadataDeleted True [] d1" using d1 by (simp add: del_fine_def)
  obtain d2 where "del_next e d1 = (d2, [D_base (Engine Finished)])" using del_next_cleaning [OF at1, of e] by auto
  then have "do_delete_object e d1 = Some (d2, [D_base (Engine Finished)])" using ob1 later by (simp add: do_delete_object_def)
  then show ?thesis using nx by (simp add: del_step_def del_perform.simps)
qed

lemma fine_opened:
  assumes d: "del_fine ob Del_metadataDeleted True [] d" "d_writer d = Some w" "deleting_with ob w"
      "d_writer_cont d = Some Then_remove_probable_record" and e: "del_calm lo e"
  shows "\<exists>d1 w1. del_step e Motr_opened d = Some (d1, [D_writer (Delete_objects [om_oid ob])])
     \<and> del_fine ob Del_metadataDeleted True [] d1 \<and> d_writer d1 = Some w1 \<and> d_writer_cont d1 = Some Then_remove_probable_record"
proof -
  from opened_writer_deletes [OF d(3), of "de_writer e"] e obtain w1 where
    "open_objects_successful (de_writer e) w = Some (w1, [Delete_objects [om_oid ob]])" by (auto simp: del_calm_def)
  then have "del_step e Motr_opened d = Some (d\<lparr>d_writer := Some w1\<rparr>, [D_writer (Delete_objects [om_oid ob])])"
    using d(2) by (simp add: del_step_def with_writer_def del_perform.simps)
  moreover have "del_fine ob Del_metadataDeleted True [] (d\<lparr>d_writer := Some w1\<rparr>)" using d(1) by (auto simp: del_fine_def del_at_def)
  ultimately show ?thesis using d(4) by simp
qed

lemma fine_deleted:
  assumes d: "del_fine ob Del_metadataDeleted True [] d" "d_writer d = Some w" "d_writer_cont d = Some Then_remove_probable_record" and e: "del_calm lo e"
  shows "\<exists>d1. del_step e Motr_deleted d = Some (d1, [D_kv Wait_record_removed (Delete_keyval lo [dead_key ob])])
     \<and> del_at ob Del_metadataDeleted True [] d1"
proof -
  have at: "del_at ob Del_metadataDeleted True [] (d\<lparr>d_writer := Some (w\<lparr>w_state := Wr_deleted\<rparr>)\<rparr>)"
    using d(1) by (auto simp: del_fine_def del_at_def)
  with remove_record_deletes [OF at, of e] d e show ?thesis
    by (simp add: del_step_def with_writer_def delete_objects_successful_def del_calm_def del_perform.simps)
qed

lemma fine_finished:
  assumes "del_at ob s True [] d"
  shows "\<exists>d1. del_step e (Kv_reply Wait_record_removed Write_done) d = Some (d1, [D_base (Engine Finished)])"
  using del_next_cleaning [OF assms, of e] by (auto simp: del_step_def del_perform.simps)

text \<open>The store when the metadata is deleted and the record is about to be marked.\<close>

definition before_marking :: "s3_motr_idx_layout \<Rightarrow> S3ObjectMetadata \<Rightarrow> string \<Rightarrow> kvs_indices \<Rightarrow> kvs_indices" where
  "before_marking lo ob v st =
     kvs_effect (Delete_keyval (om_objects_version_list_index_layout ob) [version_key ob])
       (kvs_effect (Delete_keyval (om_object_list_index_layout ob) [om_object_name ob])
         (kvs_effect (Put_keyval lo [(dead_key ob, v)]) st))"

lemma before_marking_frame:
  fixes v1 v4 :: string
  assumes "indices_apart (oid lo) ob" "kvs_wf st"
  defines "st4 \<equiv> kvs_effect (Put_keyval lo [(dead_key ob, v4)]) (before_marking lo ob v1 st)"
  shows "map_get (st4 (list_oid ob)) n = (if n = om_object_name ob then None else map_get (st (list_oid ob)) n)"
    "map_get (st4 (version_oid ob)) n = (if n = version_key ob then None else map_get (st (version_oid ob)) n)"
    "map_get (st4 (oid lo)) n = (if n = dead_key ob then Some v4 else map_get (st (oid lo)) n)"
    "i \<notin> {oid lo, list_oid ob, version_oid ob} \<Longrightarrow> st4 i = st i"
  using assms(1,2)
  by (auto simp: st4_def before_marking_def indices_apart_def put_all_def delete_all_get kvs_wf_def)

lemma deletion_until_marked:
  assumes "del_ready ob d" "oa_bucket d = Some b" "\<not> is_error_state (oa_act d)" "recordable b ob"
    and calm: "del_calm lo e0" "del_calm lo e1" "del_calm lo e3"
  shows "\<exists>d4 v1 v4 p p4. (\<forall>efs. del_request e0 ((e1, Perform) # (e2, Perform) # (e3, Perform) # efs) (st, mo) d =
      (case del_run efs (before_marking lo ob v1 st, mo) (d4, p4 @ [D_kv Wait_marked (Put_keyval lo [(dead_key ob, v4)])]) of
         (wo2, log, v) \<Rightarrow> (wo2, p @ log, v)))
    \<and> D_base (Respond_status 204 []) \<in> set p4 \<and> (\<exists>r. pd_force_delete r \<and> v4 = probable_to_json (de_pd e3) r)
    \<and> del_fine ob Del_metadataDeleted True [Del_delete_object] d4 \<and> d_writer d4 = None"
proof -
  have ok: "object_ready ob" using assms(4) by (simp add: recordable_def)
  obtain d1 v1 p1 where s0: "del_step e0 Del_authorized d = Some (d1, p1 @ [D_kv Wait_probable_record (Put_keyval lo [(dead_key ob, v1)])])"
    and d1: "del_fine ob Del_empty False [delete_metadata, Del_send_response] d1" "d_writer d1 = None"
    using fine_populate [OF assms(1-4) calm(1)] by blast
  obtain d2 p2 where s1: "del_step e1 (Kv_reply Wait_probable_record Write_done) d1
       = Some (d2, p2 @ [D_obj After_metadata Wait_remove_object (Delete_keyval (om_object_list_index_layout ob) [om_object_name ob])])"
    and d2: "del_fine ob Del_empty False [Del_send_response] d2" "d_writer d2 = None"
    using fine_record_put [OF d1 ok calm(2)] by blast
  obtain d3 where s2: "del_step e2 (Obj_reply After_metadata Wait_remove_object Write_done) d2
       = Some (d3, [D_obj After_metadata Wait_remove_version (Delete_keyval (om_objects_version_list_index_layout ob) [version_key ob])])"
    and d3: "del_fine ob Del_empty False [Del_send_response] d3" "d_writer d3 = None"
    using fine_object_removed [OF d2 ok] by blast
  obtain d4 v4 p4 where s3: "del_step e3 (Obj_reply After_metadata Wait_remove_version Write_done) d3
       = Some (d4, p4 @ [D_kv Wait_marked (Put_keyval lo [(dead_key ob, v4)])])"
    and d4: "D_base (Respond_status 204 []) \<in> set p4" "\<exists>r. pd_force_delete r \<and> v4 = probable_to_json (de_pd e3) r"
      "del_fine ob Del_metadataDeleted True [Del_delete_object] d4" "d_writer d4 = None"
    using fine_version_removed [OF d3 calm(3)] by blast
  let ?p = "p1 @ [D_kv Wait_probable_record (Put_keyval lo [(dead_key ob, v1)])]
    @ p2 @ [D_obj After_metadata Wait_remove_object (Delete_keyval (om_object_list_index_layout ob) [om_object_name ob]),
            D_obj After_metadata Wait_remove_version (Delete_keyval (om_objects_version_list_index_layout ob) [version_key ob])]"
  have "del_request e0 ((e1, Perform) # (e2, Perform) # (e3, Perform) # efs) (st, mo) d =
      (case del_run efs (before_marking lo ob v1 st, mo) (d4, p4 @ [D_kv Wait_marked (Put_keyval lo [(dead_key ob, v4)])]) of
         (wo2, log, v) \<Rightarrow> (wo2, ?p @ log, v))" for efs
    by (simp add: del_request_def s0 s1 s2 s3 write_effect_def write_verdict_def before_marking_def split: prod.split)
  with d4 show ?thesis by blast
qed

lemma deletion_after_marked:
  assumes d4: "del_fine ob Del_metadataDeleted True [Del_delete_object] d4" "d_writer d4 = None"
    and calm: "del_calm lo e4" "del_calm lo e5" "del_calm lo e6" and now: "\<not> (non_zero (om_oid ob) \<and> de_delayed_delete e4)"
    and stored: "om_oid ob \<in> mo"
  shows "\<exists>d' log. del_run (map (\<lambda>e. (e, Perform)) [e4, e5, e6, e7]) (st, mo) (d4, p4 @ [D_kv Wait_marked (Put_keyval lo [(dead_key ob, v4)])])
      = ((kvs_effect (Delete_keyval lo [dead_key ob]) (kvs_effect (Put_keyval lo [(dead_key ob, v4)]) st), mo - {om_oid ob}), log, Some d')
    \<and> last log = D_base (Engine Finished) \<and> log \<noteq> [] \<and> set p4 \<subseteq> set log"
proof -
  obtain d5 w5 p5 where s4: "del_step e4 (Kv_reply Wait_marked Write_done) d4 = Some (d5, p5 @ [D_writer (Open_objects [om_oid ob])])"
    and d5: "del_fine ob Del_metadataDeleted True [] d5" "d_writer d5 = Some w5" "deleting_with ob w5" "d_writer_cont d5 = Some Then_remove_probable_record"
    using fine_marked [OF d4 calm(1) now] by blast
  obtain d6 w6 where s5: "del_step e5 Motr_opened d5 = Some (d6, [D_writer (Delete_objects [om_oid ob])])"
    and d6: "del_fine ob Del_metadataDeleted True [] d6" "d_writer d6 = Some w6" "d_writer_cont d6 = Some Then_remove_probable_record"
    using fine_opened [OF d5 calm(2)] by blast
  obtain d7 where s6: "del_step e6 Motr_deleted d6 = Some (d7, [D_kv Wait_record_removed (Delete_keyval lo [dead_key ob])])"
    and d7: "del_at ob Del_metadataDeleted True [] d7" using fine_deleted [OF d6 calm(3)] by blast
  obtain d8 where s7: "del_step e7 (Kv_reply Wait_record_removed Write_done) d7 = Some (d8, [D_base (Engine Finished)])"
    using fine_finished [OF d7] by blast
  show ?thesis using stored by (auto simp: s4 s5 s6 s7 write_effect_def write_verdict_def)
qed

section \<open>The properties\<close>

text \<open>C3: Deleting an object without fragments never loses data.  Whichever requests to the
  key-value store and to Motr are refused, wherever the client disconnects, and at whatever
  moment the server dies or an assertion fails: while the object is listed its data is there, and
  while its data is there it is listed or a record lets the background deletion find it; a
  client that was sent 204 finds the object no more.\<close>

theorem deletion_never_loses_data:
  assumes "del_ready ob d" "listed ob wo" "stored ob wo" "indices_apart (oid lo) ob" "\<forall>(e, f) \<in> set ((e0, f0) # efs). de_probable_idx e = lo"
  shows "case del_request e0 efs wo d of (wo', log, v) \<Rightarrow>
     (listed ob wo' \<longrightarrow> stored ob wo') \<and> (stored ob wo' \<longrightarrow> listed ob wo' \<or> recorded (oid lo) ob wo')
     \<and> (D_base (Respond_status 204 []) \<in> set log \<longrightarrow> \<not> listed ob wo')"
proof -
  obtain wo' log v where run: "del_request e0 efs wo d = (wo', log, v)" by (cases "del_request e0 efs wo d")
  have on: "goes_on lo ob wo (del_step e0 Del_authorized d)" using assms by (intro start_goes_on) auto
  show ?thesis
  proof (cases "del_step e0 Del_authorized d")
    case None
    then show ?thesis using assms(2,3) by (simp add: del_request_def)
  next
    case (Some r)
    then obtain d1 outs where r: "del_step e0 Del_authorized d = Some (d1, outs)" by (cases r) auto
    with run have "del_run efs wo (d1, outs) = (wo', log, v)" by (simp add: del_request_def)
    from run_safe [OF on [unfolded r] assms(4) _ this] assms(5) show ?thesis using run by (auto simp: no_loss_def)
  qed
qed

text \<open>C14: A deletion of an object without fragments that nothing disturbs is carried out, with delayed deletion configured or
  not.  After at most seven replies the client was sent 204, the request is finished, and the entries
  of the object and of its version are gone.  Without delayed deletion (or for an object without an
  id) its data is gone too, and so is the record in the index of probably dead objects; with delayed
  deletion the data is left to the background deletion and the record stays, marked for
  forced deletion.  Nothing else has changed: no other entry of the object list, no other version, no
  other record, no other index and no other Motr object.\<close>

theorem deletion_completes:
  assumes "del_ready ob d" "oa_bucket d = Some b" "\<not> is_error_state (oa_act d)" "recordable b ob" "indices_apart (oid lo) ob"
    and "stored ob wo" "kvs_wf (fst wo)"
    and es: "list_all (\<lambda>e. del_calm lo e \<and> de_delayed_delete e = delayed) (e0 # es)" "length es = 7"
  shows "\<exists>wo' log d'. del_request e0 (map (\<lambda>e. (e, Perform)) es) wo d = (wo', log, Some d')
     \<and> last log = D_base (Engine Finished) \<and> D_base (Respond_status 204 []) \<in> set log
     \<and> \<not> listed ob wo' \<and> map_get (fst wo' (version_oid ob)) (version_key ob) = None
     \<and> (if delayed \<and> non_zero (om_oid ob)
         then snd wo' = snd wo \<and> (\<exists>e \<in> set es. \<exists>r. pd_force_delete r
                \<and> map_get (fst wo' (oid lo)) (dead_key ob) = Some (probable_to_json (de_pd e) r))
         else snd wo' = snd wo - {om_oid ob} \<and> \<not> recorded (oid lo) ob wo')
     \<and> (\<forall>n. n \<noteq> om_object_name ob \<longrightarrow> map_get (fst wo' (list_oid ob)) n = map_get (fst wo (list_oid ob)) n)
     \<and> (\<forall>n. n \<noteq> version_key ob \<longrightarrow> map_get (fst wo' (version_oid ob)) n = map_get (fst wo (version_oid ob)) n)
     \<and> (\<forall>n. n \<noteq> dead_key ob \<longrightarrow> map_get (fst wo' (oid lo)) n = map_get (fst wo (oid lo)) n)
     \<and> (\<forall>i. i \<notin> {oid lo, list_oid ob, version_oid ob} \<longrightarrow> fst wo' i = fst wo i)"
proof -
  obtain st mo where wo: "wo = (st, mo)" by (cases wo)
  obtain e1 e2 e3 e4 e5 e6 e7 where es': "es = [e1, e2, e3, e4, e5, e6, e7]"
    using es(2) by (auto simp: numeral_eq_Suc length_Suc_conv)
  have calm: "del_calm lo e0" "del_calm lo e1" "del_calm lo e3" "del_calm lo e4" "del_calm lo e5" "del_calm lo e6"
    and dl: "de_delayed_delete e4 = delayed" using es(1) es' by auto
  obtain d4 v1 v4 p p4 where till: "\<And>efs. del_request e0 ((e1, Perform) # (e2, Perform) # (e3, Perform) # efs) wo d =
      (case del_run efs (before_marking lo ob v1 st, mo) (d4, p4 @ [D_kv Wait_marked (Put_keyval lo [(dead_key ob, v4)])]) of
         (wo2, log, v) \<Rightarrow> (wo2, p @ log, v))"
    and sent: "D_base (Respond_status 204 []) \<in> set p4" and v4: "\<exists>r. pd_force_delete r \<and> v4 = probable_to_json (de_pd e3) r"
    and d4: "del_fine ob Del_metadataDeleted True [Del_delete_object] d4" "d_writer d4 = None"
    using deletion_until_marked [OF assms(1-4) calm(1-3), of e2 st mo] unfolding wo by blast
  define st4 where "st4 = kvs_effect (Put_keyval lo [(dead_key ob, v4)]) (before_marking lo ob v1 st)"
  have wf: "kvs_wf st" using assms(7) by (simp add: wo)
  note marked = before_marking_frame [OF assms(5) wf, where ?v1.0 = v1 and ?v4.0 = v4, folded st4_def]
  show ?thesis
  proof (cases "delayed \<and> non_zero (om_oid ob)")
    case True
    with dl fine_marked_delayed [OF d4(1) calm(4)] obtain d5 where
      "del_step e4 (Kv_reply Wait_marked Write_done) d4 = Some (d5, [D_base (Engine (Ran Del_delete_object)), D_base (Engine Finished)])" by blast
    then have "del_request e0 (map (\<lambda>e. (e, Perform)) es) wo d = ((st4, mo),
        p @ p4 @ [D_kv Wait_marked (Put_keyval lo [(dead_key ob, v4)]), D_base (Engine (Ran Del_delete_object)), D_base (Engine Finished)], Some d5)"
      unfolding es' list.map till by (simp add: write_effect_def write_verdict_def st4_def)
    moreover have "\<exists>e \<in> set es. \<exists>r. pd_force_delete r \<and> map_get (st4 (oid lo)) (dead_key ob) = Some (probable_to_json (de_pd e) r)"
      using v4 marked(3) es' by auto
    ultimately show ?thesis using True sent marked by (simp add: wo listed_def)
  next
    case False
    with dl have now: "\<not> (non_zero (om_oid ob) \<and> de_delayed_delete e4)" by blast
    define st8 where "st8 = kvs_effect (Delete_keyval lo [dead_key ob]) st4"
    obtain d' log where run: "del_run (map (\<lambda>e. (e, Perform)) [e4, e5, e6, e7]) (before_marking lo ob v1 st, mo)
          (d4, p4 @ [D_kv Wait_marked (Put_keyval lo [(dead_key ob, v4)])]) = ((st8, mo - {om_oid ob}), log, Some d')"
      and log: "last log = D_base (Engine Finished)" "log \<noteq> []" "set p4 \<subseteq> set log"
      using deletion_after_marked [OF d4 calm(4-6) now, of mo e7 "before_marking lo ob v1 st" p4 v4] assms(6)
      unfolding wo stored_def st8_def st4_def by auto
    have "del_request e0 (map (\<lambda>e. (e, Perform)) es) wo d = ((st8, mo - {om_oid ob}), p @ log, Some d')"
      unfolding es' list.map till using run by simp
    moreover have "map_get (st8 (oid lo)) n = (if n = dead_key ob then None else map_get (st (oid lo)) n)"
        "i \<noteq> oid lo \<Longrightarrow> st8 i = st4 i" for n i
      using marked(3) by (simp_all add: st8_def delete_all_get)
    moreover have "list_oid ob \<noteq> oid lo" "version_oid ob \<noteq> oid lo" using assms(5) by (auto simp: indices_apart_def)
    ultimately show ?thesis using False sent log marked by (auto simp: wo listed_def recorded_def)
  qed
qed

text \<open>C39: A client that disconnects before the metadata is deleted makes the server fail: the
  cleanup of a deletion that has not begun runs into \<open>assert(false)\<close>, both when the first task of
  the deletion is due and when the record was written.\<close>

theorem early_disconnect_asserts:
  assumes "d_state d = Del_empty" "\<not> check_shutdown_signal (oa_act d)" "action_uses_cleanup (oa_act d)" "\<not> cleanup_started (oa_act d)"
    "task_iteration_index (oa_act d) < length (task_list (oa_act d))" "\<not> client_connected (de_act e)" "s3_client_read_error (de_act e) = []"
  shows "del_step e Del_authorized d = None \<and> del_step e (Kv_reply Wait_probable_record Write_done) d = None"
  using assms
  by (simp add: del_step_def check_authorization_successful_def del_engine_def del_next_def oa_next_def action_next_def checked_def
      is_s3_client_read_error_def cleanup_or_rollback_def del_perform.simps startcleanup_def Let_def)

section \<open>Witnesses\<close>

definition sample_dead_idx :: s3_motr_idx_layout where "sample_dead_idx = zero_layout\<lparr>oid := \<lparr>u_hi = 1, u_lo = 3\<rparr>\<rparr>"

definition doomed_object :: S3ObjectMetadata where "doomed_object = oe_meta sample_engine"

definition doomed_bucket :: S3BucketMetadata where
  "doomed_bucket = (S3BucketMetadata_init (bucket_request.truncate sample_object_request) [])
     \<lparr>object_list_index_layout := om_object_list_index_layout doomed_object,
      objects_version_list_index_layout := om_objects_version_list_index_layout doomed_object\<rparr>"

definition sample_del_env :: del_env where
  "sample_del_env =
     \<lparr>de_act = calm, de_pd = \<lparr>pe_lib = ov_lib sample_object_env, pe_motr_process_fid = [], pe_global_instance_id = zero_oid, pe_now = ''now''\<rparr>,
      de_obj = sample_object_env, de_writer = sample_writer_env, de_di_check = True, de_delayed_delete = False,
      de_probable_idx = sample_dead_idx, de_app_id = zero_oid, de_uri_oid = zero_oid\<rparr>"

definition sample_del_action :: del_action where
  "sample_del_action =
     (let d = del_action_init sample_object_request False []
      in d\<lparr>oa_bucket := Some doomed_bucket, oa_object := Some doomed_object, oa_act := (oa_act d)\<lparr>task_iteration_index := 3\<rparr>\<rparr>)"

definition sample_del_world :: del_world where
  "sample_del_world = ((\<lambda>i. if i = list_oid doomed_object then [(om_object_name doomed_object, ''{}'')] else []), {om_oid doomed_object})"

lemma doomed_object_fields: "om_obj_fragments doomed_object = 0" "om_layout_id doomed_object \<noteq> -1"
  by (simp_all add: doomed_object_def sample_engine_def sample_object_def Object_Metadata.set_oid_def S3ObjectMetadata_init_def om_initialize_def Let_def)

lemma sample_del_ready:
  "del_ready doomed_object sample_del_action" "oa_bucket sample_del_action = Some doomed_bucket" "\<not> is_error_state (oa_act sample_del_action)"
  by (simp_all add: del_ready_def sample_del_action_def del_action_init_def object_action_init_def S3Action_init_def S3Action_setup_steps_def
      Action_init_def action_setup_steps_def check_authorization_header_def add_task_def Let_def object_action.defs del_action.defs
      doomed_object_fields is_error_state_def)

lemma sample_del_fields:
  "listed doomed_object sample_del_world" "stored doomed_object sample_del_world" "indices_apart (oid sample_dead_idx) doomed_object"
  "de_probable_idx sample_del_env = sample_dead_idx" "del_calm sample_dead_idx sample_del_env"
  by (simp_all add: listed_def stored_def sample_del_world_def map_get_def indices_apart_def doomed_object_def sample_engine_def
      sample_dead_idx_def sample_del_env_def del_calm_def calm_def sample_writer_env_def zero_layout_def)

lemma sample_recordable: "recordable doomed_bucket doomed_object"
  using sample_engine_ready(1) doomed_object_fields(2)
  by (simp add: recordable_def doomed_bucket_def doomed_object_def sample_engine_def sample_object_fields zero_oid_def
      S3BucketMetadata_init_def)

theorem deletion_never_loses_data_witness:
  "case del_request sample_del_env [(sample_del_env, Perform), (sample_del_env, Refuse W_failed (errno_ctx 1 1)), (sample_del_env, Perform)]
        sample_del_world sample_del_action of (wo', log, v) \<Rightarrow>
     (listed doomed_object wo' \<longrightarrow> stored doomed_object wo')
     \<and> (stored doomed_object wo' \<longrightarrow> listed doomed_object wo' \<or> recorded (oid sample_dead_idx) doomed_object wo')
     \<and> (D_base (Respond_status 204 []) \<in> set log \<longrightarrow> \<not> listed doomed_object wo')"
  by (rule deletion_never_loses_data [OF sample_del_ready(1) sample_del_fields(1-3), where ?f0.0 = Perform]) (simp add: sample_del_fields(4))

theorem deletion_completes_witness:
  "\<exists>wo' log d'. del_request sample_del_env (map (\<lambda>e. (e, Perform)) (replicate 7 sample_del_env)) sample_del_world sample_del_action = (wo', log, Some d')
     \<and> last log = D_base (Engine Finished) \<and> D_base (Respond_status 204 []) \<in> set log \<and> \<not> listed doomed_object wo' \<and> snd wo' = {}"
proof -
  have calm: "list_all (\<lambda>e. del_calm sample_dead_idx e \<and> de_delayed_delete e = False) (sample_del_env # replicate 7 sample_del_env)"
    using sample_del_fields(5) by (simp add: list_all_iff) (simp add: sample_del_env_def)
  have "kvs_wf (fst sample_del_world)" by (simp add: kvs_wf_def sample_del_world_def map_wf_def)
  from deletion_completes [OF sample_del_ready sample_recordable sample_del_fields(3,2) this calm length_replicate]
  obtain wo' log d' where "del_request sample_del_env (map (\<lambda>e. (e, Perform)) (replicate 7 sample_del_env)) sample_del_world sample_del_action = (wo', log, Some d')"
      "last log = D_base (Engine Finished)" "D_base (Respond_status 204 []) \<in> set log" "\<not> listed doomed_object wo'"
      "snd wo' = snd sample_del_world - {om_oid doomed_object}"
    by (auto simp del: replicate.simps)
  then show ?thesis by (intro exI [of _ wo'] exI [of _ log] exI [of _ d']) (simp add: sample_del_world_def)
qed

theorem early_disconnect_asserts_witness:
  "del_step (sample_del_env\<lparr>de_act := calm\<lparr>client_connected := False\<rparr>\<rparr>) Del_authorized sample_del_action = None"
  using early_disconnect_asserts [of sample_del_action "sample_del_env\<lparr>de_act := calm\<lparr>client_connected := False\<rparr>\<rparr>"] sample_del_ready(1)
    drop_nth_Cons [of "task_iteration_index (oa_act sample_del_action)" "task_list (oa_act sample_del_action)"]
  by (auto simp: del_ready_def calm_def)

end
