(* ===== verification/List_Response.thy ===== *)
theory List_Response
  imports Object_Metadata
begin

text \<open>
  \<open>server/s3_object_list_response.cc\<close> and \<open>server/s3_object_list_v2_response.cc\<close>: the answer to a
  listing of objects, of uploads or of parts, and its XML.  The fields that only version 2 has
  are the record \<open>list_v2\<close>; a response of version 1 has none.  libevent's URI functions and
  libxml2's escaping are arguments; both see the string up to its first NUL.  Of a part only
  the four strings that the response prints are kept.
\<close>

record list_lib =
  ll_uriencode :: "string \<Rightarrow> string"
  ll_uridecode :: "string \<Rightarrow> string"
  ll_xmlEncode :: "string \<Rightarrow> string option"

record listed_part =
  lp_part_number :: string
  lp_last_modified_iso :: string
  lp_md5 :: string
  lp_content_length_str :: string

record list_v2 =
  lv_continuation_token :: string
  lv_fetch_owner :: bool
  lv_start_after :: string
  lv_cont_token_specified :: bool

record S3ObjectListResponse =
  lr_encoding_type :: string
  lr_bucket_name :: string
  lr_object_name :: string
  lr_user_name :: string
  lr_user_id :: string
  lr_storage_class :: string
  lr_upload_id :: string
  lr_account_name :: string
  lr_account_id :: string
  lr_canonical_id :: string
  lr_object_list :: "S3ObjectMetadata list"
  lr_part_list :: "(int, listed_part) std_map"
  lr_common_prefixes :: "(string, unit) std_map"
  lr_request_prefix :: string
  lr_request_delimiter :: string
  lr_request_marker_key :: string
  lr_request_marker_uploadid :: string
  lr_max_keys :: string
  lr_response_is_truncated :: bool
  lr_chop_uploadid :: bool
  lr_next_marker_key :: string
  lr_max_uploads :: string
  lr_max_parts :: string
  lr_next_marker_uploadid :: string
  lr_key_count :: string
  lr_v2 :: "list_v2 option"

definition S3ObjectListResponse_init :: "string \<Rightarrow> S3ObjectListResponse" where
  "S3ObjectListResponse_init encoding_type =
     \<lparr>lr_encoding_type = encoding_type, lr_bucket_name = [], lr_object_name = [], lr_user_name = [], lr_user_id = [],
      lr_storage_class = [], lr_upload_id = [], lr_account_name = [], lr_account_id = [], lr_canonical_id = [],
      lr_object_list = [], lr_part_list = [], lr_common_prefixes = [], lr_request_prefix = [], lr_request_delimiter = [],
      lr_request_marker_key = [], lr_request_marker_uploadid = [], lr_max_keys = [], lr_response_is_truncated = False,
      lr_chop_uploadid = False, lr_next_marker_key = [], lr_max_uploads = [], lr_max_parts = [],
      lr_next_marker_uploadid = [], lr_key_count = [], lr_v2 = None\<rparr>"

definition S3ObjectListResponseV2_init :: "string \<Rightarrow> S3ObjectListResponse" where
  "S3ObjectListResponseV2_init encoding_type =
     (S3ObjectListResponse_init encoding_type)\<lparr>lr_v2 :=
        Some \<lparr>lv_continuation_token = [], lv_fetch_owner = False, lv_start_after = [], lv_cont_token_specified = False\<rparr>\<rparr>"

definition get_response_format_key_value :: "list_lib \<Rightarrow> S3ObjectListResponse \<Rightarrow> string \<Rightarrow> string" where
  "get_response_format_key_value lib r key_value =
     (if lr_encoding_type r = ''url'' then ll_uriencode lib (c_str key_value) else key_value)"

section \<open>Filling the response\<close>

definition set_object_name :: "list_lib \<Rightarrow> string \<Rightarrow> S3ObjectListResponse \<Rightarrow> S3ObjectListResponse" where
  "set_object_name lib name r = r\<lparr>lr_object_name := get_response_format_key_value lib r name\<rparr>"

definition set_request_marker_key :: "list_lib \<Rightarrow> string \<Rightarrow> S3ObjectListResponse \<Rightarrow> S3ObjectListResponse" where
  "set_request_marker_key lib marker r = r\<lparr>lr_request_marker_key := get_response_format_key_value lib r marker\<rparr>"

definition set_key_count :: "size_t \<Rightarrow> S3ObjectListResponse \<Rightarrow> S3ObjectListResponse" where
  "set_key_count keys r = r\<lparr>lr_key_count := to_dec (unat keys)\<rparr>"

definition set_response_is_truncated :: "bool \<Rightarrow> S3ObjectListResponse \<Rightarrow> S3ObjectListResponse" where
  "set_response_is_truncated flag r = r\<lparr>lr_response_is_truncated := flag\<rparr>"

definition set_next_marker_key :: "list_lib \<Rightarrow> string \<Rightarrow> bool \<Rightarrow> S3ObjectListResponse \<Rightarrow> S3ObjectListResponse" where
  "set_next_marker_key lib nxt url_encode r =
     r\<lparr>lr_next_marker_key := (if url_encode then get_response_format_key_value lib r nxt else nxt)\<rparr>"

definition get_next_marker_key :: "list_lib \<Rightarrow> S3ObjectListResponse \<Rightarrow> string" where
  "get_next_marker_key lib r =
     (if lr_encoding_type r = ''url'' then ll_uridecode lib (c_str (lr_next_marker_key r)) else lr_next_marker_key r)"

definition add_object :: "S3ObjectMetadata \<Rightarrow> S3ObjectListResponse \<Rightarrow> S3ObjectListResponse" where
  "add_object ob r = r\<lparr>lr_object_list := lr_object_list r @ [ob]\<rparr>"

definition add_common_prefix :: "string \<Rightarrow> S3ObjectListResponse \<Rightarrow> S3ObjectListResponse" where
  "add_common_prefix common_prefix r = r\<lparr>lr_common_prefixes := map_put common_prefix () (lr_common_prefixes r)\<rparr>"

definition is_prefix_in_common_prefix :: "string \<Rightarrow> S3ObjectListResponse \<Rightarrow> bool" where
  "is_prefix_in_common_prefix check_prefix r \<longleftrightarrow> map_get (lr_common_prefixes r) check_prefix \<noteq> None"

text \<open>The key is \<open>strtoul\<close> of the part number with base 0, given as a number.\<close>

definition add_part :: "int \<Rightarrow> listed_part \<Rightarrow> S3ObjectListResponse \<Rightarrow> S3ObjectListResponse" where
  "add_part number part r = r\<lparr>lr_part_list := map_put number part (lr_part_list r)\<rparr>"

text \<open>\<open>size\<close> and \<open>common_prefixes_size\<close> are unsigned ints; their sum is one too.\<close>

definition list_count :: "S3ObjectListResponse \<Rightarrow> size_t" where
  "list_count r = ucast (of_nat (length (lr_object_list r)) + of_nat (length (lr_common_prefixes r)) :: 32 word)"

definition get_keys :: "S3ObjectListResponse \<Rightarrow> string list" where
  "get_keys r = map om_object_name (lr_object_list r)"

definition set_continuation_token :: "string \<Rightarrow> S3ObjectListResponse \<Rightarrow> S3ObjectListResponse" where
  "set_continuation_token token r =
     r\<lparr>lr_v2 := map_option (\<lambda>v. v\<lparr>lv_cont_token_specified := True, lv_continuation_token := token\<rparr>) (lr_v2 r)\<rparr>"

definition set_fetch_owner :: "bool \<Rightarrow> S3ObjectListResponse \<Rightarrow> S3ObjectListResponse" where
  "set_fetch_owner need_owner_info r = r\<lparr>lr_v2 := map_option (\<lambda>v. v\<lparr>lv_fetch_owner := need_owner_info\<rparr>) (lr_v2 r)\<rparr>"

definition set_start_after :: "string \<Rightarrow> S3ObjectListResponse \<Rightarrow> S3ObjectListResponse" where
  "set_start_after in_start_after r = r\<lparr>lr_v2 := map_option (\<lambda>v. v\<lparr>lv_start_after := in_start_after\<rparr>) (lr_v2 r)\<rparr>"

section \<open>The XML\<close>

definition xml_decl :: string where
  "xml_decl = ''<?xml version=\"1.0\" encoding=\"UTF-8\"?>''"

definition xml_ns :: string where
  "xml_ns = '' xmlns=\"http://s3.amazonaws.com/doc/2006-03-01/\">''"

abbreviation xml_of :: "list_lib \<Rightarrow> string \<Rightarrow> string \<Rightarrow> string" where
  "xml_of lib tag val \<equiv> format_xml_string (ll_xmlEncode lib) tag val False"

definition xml_bool :: "bool \<Rightarrow> string" where
  "xml_bool b = (if b then ''true'' else ''false'')"

definition contents_xml :: "list_lib \<Rightarrow> S3ObjectListResponse \<Rightarrow> (S3ObjectMetadata \<Rightarrow> bool) \<Rightarrow> S3ObjectMetadata \<Rightarrow> string" where
  "contents_xml lib r shows_owner ob =
     ''<Contents>'' @ xml_of lib ''Key'' (get_response_format_key_value lib r (om_object_name ob))
     @ xml_of lib ''LastModified'' (snd (get_last_modified_iso ob))
     @ format_xml_string (ll_xmlEncode lib) ''ETag'' (snd (get_md5 ob)) True
     @ xml_of lib ''Size'' (snd (get_content_length_str ob))
     @ xml_of lib ''StorageClass'' (snd (get_storage_class ob))
     @ (if shows_owner ob
        then ''<Owner>'' @ xml_of lib ''ID'' (om_canonical_id ob) @ xml_of lib ''DisplayName'' (om_account_name ob) @ ''</Owner>''
        else [])
     @ ''</Contents>''"

text \<open>The last character of the prefix is replaced by the delimiter.\<close>

definition prefix_xml :: "list_lib \<Rightarrow> S3ObjectListResponse \<Rightarrow> string \<Rightarrow> string" where
  "prefix_xml lib r prefix =
     ''<CommonPrefixes>''
     @ xml_of lib ''Prefix'' (get_response_format_key_value lib r (butlast prefix) @ lr_request_delimiter r)
     @ ''</CommonPrefixes>''"

definition list_head_xml :: "list_lib \<Rightarrow> S3ObjectListResponse \<Rightarrow> string" where
  "list_head_xml lib r =
     xml_decl @ ''<ListBucketResult'' @ xml_ns @ xml_of lib ''Name'' (lr_bucket_name r) @ xml_of lib ''Prefix'' (lr_request_prefix r)
     @ (if lr_request_delimiter r \<noteq> [] then xml_of lib ''Delimiter'' (lr_request_delimiter r) else [])
     @ (if lr_encoding_type r = ''url'' then xml_of lib ''EncodingType'' ''url'' else [])"

definition list_tail_xml :: "list_lib \<Rightarrow> S3ObjectListResponse \<Rightarrow> (S3ObjectMetadata \<Rightarrow> bool) \<Rightarrow> string" where
  "list_tail_xml lib r shows_owner =
     xml_of lib ''IsTruncated'' (xml_bool (lr_response_is_truncated r))
     @ concat (map (contents_xml lib r shows_owner) (lr_object_list r))
     @ concat (map (prefix_xml lib r \<circ> fst) (lr_common_prefixes r)) @ ''</ListBucketResult>''"

definition list_get_xml :: "list_lib \<Rightarrow> string \<Rightarrow> string \<Rightarrow> string \<Rightarrow> S3ObjectListResponse \<Rightarrow> string" where
  "list_get_xml lib requestor_canonical_id bucket_owner_user_id requestor_user_id r =
     list_head_xml lib r @ xml_of lib ''Marker'' (lr_request_marker_key r) @ xml_of lib ''MaxKeys'' (lr_max_keys r)
     @ (if lr_response_is_truncated r then xml_of lib ''NextMarker'' (lr_next_marker_key r) else [])
     @ list_tail_xml lib r (\<lambda>ob. requestor_canonical_id = om_canonical_id ob \<or> bucket_owner_user_id = requestor_user_id)"

definition list_v2_get_xml :: "list_lib \<Rightarrow> list_v2 \<Rightarrow> S3ObjectListResponse \<Rightarrow> string" where
  "list_v2_get_xml lib v r =
     list_head_xml lib r @ xml_of lib ''KeyCount'' (lr_key_count r)
     @ (if lv_cont_token_specified v then xml_of lib ''ContinuationToken'' (lv_continuation_token v) else [])
     @ xml_of lib ''MaxKeys'' (lr_max_keys r)
     @ (if lr_response_is_truncated r then xml_of lib ''NextContinuationToken'' (lr_next_marker_key r) else [])
     @ (if lv_start_after v \<noteq> [] then xml_of lib ''StartAfter'' (lv_start_after v) else [])
     @ list_tail_xml lib r (\<lambda>ob. lv_fetch_owner v)"

text \<open>\<open>rfind\<close> of the separator of the upload id.\<close>

definition chop_at_last_bar :: "string \<Rightarrow> string" where
  "chop_at_last_bar s = (if CHR ''|'' \<in> set s then rev (drop 1 (dropWhile (\<lambda>c. c \<noteq> CHR ''|'') (rev s))) else s)"

definition upload_xml :: "list_lib \<Rightarrow> S3ObjectListResponse \<Rightarrow> S3ObjectMetadata \<Rightarrow> string" where
  "upload_xml lib r ob =
     (let name = (if lr_chop_uploadid r then chop_at_last_bar (om_object_name ob) else om_object_name ob);
          who = xml_of lib ''ID'' (om_user_id ob) @ xml_of lib ''DisplayName'' (om_user_name ob)
      in ''<Upload>'' @ xml_of lib ''Key'' (get_response_format_key_value lib r name)
         @ xml_of lib ''UploadId'' (om_upload_id ob) @ ''<Initiator>'' @ who @ ''</Initiator>'' @ ''<Owner>'' @ who @ ''</Owner>''
         @ xml_of lib ''StorageClass'' (lr_storage_class r) @ xml_of lib ''Initiated'' (snd (get_last_modified_iso ob)) @ ''</Upload>'')"

definition get_multiupload_xml :: "list_lib \<Rightarrow> S3ObjectListResponse \<Rightarrow> string" where
  "get_multiupload_xml lib r =
     xml_decl @ ''<ListMultipartUploadsResult'' @ xml_ns @ xml_of lib ''Bucket'' (lr_bucket_name r)
     @ xml_of lib ''KeyMarker'' (lr_request_marker_key r) @ xml_of lib ''UploadIdMarker'' (lr_request_marker_uploadid r)
     @ xml_of lib ''NextKeyMarker'' (lr_next_marker_key r) @ xml_of lib ''NextUploadIdMarker'' (lr_next_marker_uploadid r)
     @ xml_of lib ''MaxUploads'' (lr_max_uploads r) @ xml_of lib ''IsTruncated'' (xml_bool (lr_response_is_truncated r))
     @ (if lr_encoding_type r = ''url'' then xml_of lib ''EncodingType'' ''url'' else [])
     @ concat (map (upload_xml lib r) (lr_object_list r))
     @ concat (map (\<lambda>e. ''<CommonPrefixes>'' @ xml_of lib ''Prefix'' (fst e) @ ''</CommonPrefixes>'') (lr_common_prefixes r))
     @ ''</ListMultipartUploadsResult>''"

definition part_xml :: "list_lib \<Rightarrow> listed_part \<Rightarrow> string" where
  "part_xml lib p =
     ''<Part>'' @ xml_of lib ''PartNumber'' (lp_part_number p) @ xml_of lib ''LastModified'' (lp_last_modified_iso p)
     @ format_xml_string (ll_xmlEncode lib) ''ETag'' (lp_md5 p) True @ xml_of lib ''Size'' (lp_content_length_str p) @ ''</Part>''"

definition get_multipart_xml :: "list_lib \<Rightarrow> S3ObjectListResponse \<Rightarrow> string" where
  "get_multipart_xml lib r =
     xml_decl @ ''<ListPartsResult'' @ xml_ns @ xml_of lib ''Bucket'' (lr_bucket_name r)
     @ xml_of lib ''Key'' (get_response_format_key_value lib r (lr_object_name r)) @ xml_of lib ''UploadID'' (lr_upload_id r)
     @ ''<Initiator>'' @ xml_of lib ''ID'' (lr_user_id r) @ xml_of lib ''DisplayName'' (lr_user_name r) @ ''</Initiator>''
     @ ''<Owner>'' @ xml_of lib ''ID'' (lr_account_id r) @ xml_of lib ''DisplayName'' (lr_account_name r) @ ''</Owner>''
     @ xml_of lib ''StorageClass'' (lr_storage_class r) @ xml_of lib ''PartNumberMarker'' (lr_request_marker_key r)
     @ xml_of lib ''NextPartNumberMarker'' (if lr_next_marker_key r = [] then ''0'' else lr_next_marker_key r)
     @ xml_of lib ''MaxParts'' (lr_max_parts r) @ xml_of lib ''IsTruncated'' (xml_bool (lr_response_is_truncated r))
     @ (if lr_encoding_type r = ''url'' then xml_of lib ''EncodingType'' ''url'' else [])
     @ concat (map (part_xml lib \<circ> snd) (lr_part_list r)) @ ''</ListPartsResult>''"

section \<open>Counting\<close>

lemma map_put_length: "map_get m k = None \<Longrightarrow> length (map_put k v m) = Suc (length m)"
  by (induction m) (auto simp: map_get_def split: if_splits)

end
