(* ===== verification/Bucket_Listing.thy ===== *)
theory Bucket_Listing
  imports List_Response Object_Action
begin

text \<open>
  \<open>server/s3_bucket_action_base.cc\<close>, \<open>server/s3_get_bucket_action.cc\<close> and
  \<open>server/s3_get_bucket_action_v2.cc\<close>: the listing of the objects of a bucket, with prefix,
  delimiter, marker and maximal number of keys.  The object list index is read in batches; keys
  that contain the delimiter behind the prefix are rolled up into a common prefix, and the rest
  of such a group is skipped by continuing the reading behind it.

  Version 2 of the interface is the same class with three functions overridden; an action of
  version 2 has the record \<open>v2_query\<close>.  Handlers return the new state and what was done, a
  request to the index or a call always last.  A null pointer and an exception of the JSON
  library are \<open>None\<close>.
\<close>

datatype list_task = List_base s3_base_task | validate_request | get_next_objects | List_send_response

record v2_query =
  vq_fetch_owner :: bool
  vq_cont_token :: string
  vq_start_after :: string

record list_action =
  l_act :: "list_task action"
  l_request :: object_request
  l_bucket :: "S3BucketMetadata option"
  l_max_record_count :: size_t
  l_retry_count :: "16 word"
  l_reader :: "S3MotrKVSReaderOpState option"
  l_first_next_keyval_call :: bool
  l_check_any_more_keys :: bool
  l_saved_last_key :: string
  l_object_list :: S3ObjectListResponse
  l_last_key :: string
  l_fetch_successful :: bool
  l_total_keys_visited :: size_t
  l_prefix :: string
  l_delimiter :: string
  l_marker_key :: string
  l_max_keys :: size_t
  l_key_Count :: size_t
  l_v2 :: "v2_query option"

record list_env =
  le_act :: action_env
  le_lib :: list_lib
  le_json :: jsoncpp
  le_fi :: di_switches
  le_app_id :: m0_uint128
  le_query :: "string \<Rightarrow> string option"
  le_fetch_count :: size_t
  le_retry_after_sec :: nat

text \<open>The flag of a read tells whether the start key itself is excluded.\<close>

datatype list_out =
    L_base "list_task oa_out"
  | L_next_keyval s3_motr_idx_layout string size_t bool

type_synonym list_result = "list_action \<times> list_out list"

definition query_value :: "list_env \<Rightarrow> string \<Rightarrow> string" where
  "query_value e name = (case le_query e name of None \<Rightarrow> [] | Some v \<Rightarrow> v)"

text \<open>The members that the constructors leave unset are set before they are read.\<close>

definition list_action_init :: "list_env \<Rightarrow> bool \<Rightarrow> object_request \<Rightarrow> bool \<Rightarrow> string list \<Rightarrow> list_action" where
  "list_action_init e v2 req is_auth_disabled in_headers =
     (let act = add_task List_send_response (add_task get_next_objects (add_task validate_request
                  (S3Action_init is_auth_disabled in_headers True False False List_base)));
          enc = query_value e ''encoding-type''
      in \<lparr>l_act = act, l_request = req, l_bucket = None, l_max_record_count = 0, l_retry_count = 0, l_reader = None,
          l_first_next_keyval_call = True, l_check_any_more_keys = False, l_saved_last_key = [],
          l_object_list = (if v2 then S3ObjectListResponseV2_init enc else S3ObjectListResponse_init enc), l_last_key = [],
          l_fetch_successful = False, l_total_keys_visited = 0, l_prefix = [], l_delimiter = [], l_marker_key = [],
          l_max_keys = 0, l_key_Count = 0,
          l_v2 = (if v2 then Some \<lparr>vq_fetch_owner = False, vq_cont_token = [], vq_start_after = []\<rparr> else None)\<rparr>)"

definition list_engine :: "(list_task action \<times> list_task event list) \<Rightarrow> list_action \<Rightarrow> list_result" where
  "list_engine r l = (l\<lparr>l_act := fst r\<rparr>, map (L_base \<circ> Engine) (snd r))"

definition list_next :: "list_env \<Rightarrow> list_action \<Rightarrow> list_result" where
  "list_next e l = list_engine (action_next (le_act e) (l_act l)) l"

definition list_done :: "list_action \<Rightarrow> list_result" where
  "list_done l = list_engine (action_done (l_act l)) l"

definition list_set_error :: "string \<Rightarrow> list_action \<Rightarrow> list_action" where
  "list_set_error code l = l\<lparr>l_act := set_s3_error code (l_act l)\<rparr>"

section \<open>The base class of the bucket requests\<close>

definition list_fetch_bucket_info :: "list_action \<Rightarrow> list_result" where
  "list_fetch_bucket_info l =
     (let b = S3BucketMetadata_init (bucket_request.truncate (l_request l)) [] in (l\<lparr>l_bucket := Some b\<rparr>, [L_base (Load_bucket b)]))"

definition list_fetch_bucket_info_success :: "list_env \<Rightarrow> S3BucketMetadata \<Rightarrow> list_action \<Rightarrow> list_result" where
  "list_fetch_bucket_info_success e b l =
     (let (l1, outs) = list_next e (l\<lparr>l_bucket := Some b\<rparr>)
      in (l1, L_base (Audit_bucket_owner (snd (get_owner_canonical_id b))) # outs))"

definition list_set_authorization_meta :: "list_env \<Rightarrow> list_action \<Rightarrow> list_result option" where
  "list_set_authorization_meta e l =
     (case l_bucket l of
        None \<Rightarrow> None
      | Some b \<Rightarrow>
          (let (l1, outs) = list_next e l in Some (l1, L_base (Set_acl_and_policy (encoded_acl b) (bucket_policy b)) # outs)))"

section \<open>The response\<close>

definition list_error_reply :: "list_env \<Rightarrow> list_action \<Rightarrow> list_task oa_out list" where
  "list_error_reply e l =
     (let code = s3_error_code (l_act l)
      in (if code = ''ServiceUnavailable'' \<or> code = ''InternalError'' then [Out_header ''Connection'' ''close''] else [])
         @ (if code = ''ServiceUnavailable''
            then [Out_header ''Retry-After'' (if reject_if_shutting_down (l_act l) then to_dec (le_retry_after_sec e) else ''1'')] else [])
         @ [Respond code])"

text \<open>
  The token that continues a listing of version 2 is the next marker, obfuscated and in
  base 64; it replaces the marker in the response before the XML is made.
\<close>

definition next_token :: "string \<Rightarrow> string" where
  "next_token marker = base64_encode (obfuscator_encode marker)"

definition list_success_reply :: "list_env \<Rightarrow> S3BucketMetadata \<Rightarrow> list_action \<Rightarrow> S3ObjectListResponse \<times> string" where
  "list_success_reply e b l =
     (let r = l_object_list l; lib = le_lib e; req = l_request l
      in case lr_v2 r of
           None \<Rightarrow> (r, list_get_xml lib (rq_canonical_id req) (snd (get_owner_id b)) (rq_user_id req) r)
         | Some v \<Rightarrow>
             (let r1 = set_next_marker_key lib (next_token (get_next_marker_key lib r)) False r in (r1, list_v2_get_xml lib v r1)))"

definition list_send_response :: "list_env \<Rightarrow> list_action \<Rightarrow> list_result option" where
  "list_send_response e l =
     (if reject_if_shutting_down (l_act l) \<or> is_error_state (l_act l) \<and> s3_error_code (l_act l) \<noteq> [] then
        (let (l1, outs) = list_done l in Some (l1, map L_base (list_error_reply e l) @ outs))
      else if l_fetch_successful l then
        (case l_bucket l of
           None \<Rightarrow> None
         | Some b \<Rightarrow>
             (let (r, xml) = list_success_reply e b l; (l1, outs) = list_done (l\<lparr>l_object_list := r\<rparr>)
              in Some (l1, L_base (Respond_status 200 xml) # outs)))
      else (let (l1, outs) = list_done l in Some (l1, L_base (Respond ''InternalError'') # outs)))"

definition list_fetch_bucket_info_failed :: "list_env \<Rightarrow> S3BucketMetadata \<Rightarrow> list_action \<Rightarrow> list_result option" where
  "list_fetch_bucket_info_failed e b l =
     list_send_response e (list_set_error
       (if bm_state b = Bmissing then ''NoSuchBucket''
        else if bm_state b = Bfailed_to_launch then ''ServiceUnavailable'' else ''InternalError'') (l\<lparr>l_bucket := Some b\<rparr>))"

section \<open>The parameters of the request\<close>

definition v2_validate_request :: "list_env \<Rightarrow> list_action \<Rightarrow> list_action" where
  "v2_validate_request e l =
     (case l_v2 l of
        None \<Rightarrow> l
      | Some q \<Rightarrow>
          (let q1 = q\<lparr>vq_cont_token := (case le_query e ''continuation-token'' of None \<Rightarrow> vq_cont_token q | Some t \<Rightarrow> t),
                      vq_fetch_owner := (query_value e ''fetch-owner'' = ''true''), vq_start_after := query_value e ''start-after''\<rparr>;
               r = l_object_list l;
               r1 = (case le_query e ''continuation-token'' of None \<Rightarrow> r | Some t \<Rightarrow> set_continuation_token t r)
           in l\<lparr>l_v2 := Some q1, l_object_list := set_start_after (vq_start_after q1) (set_fetch_owner (vq_fetch_owner q1) r1)\<rparr>))"

definition after_validate_request :: "list_env \<Rightarrow> list_action \<Rightarrow> list_result" where
  "after_validate_request e l =
     (case l_v2 l of
        None \<Rightarrow> list_next e l
      | Some q \<Rightarrow>
          (let key = (if vq_cont_token q = [] then vq_start_after q else obfuscator_decode (base64_decode (vq_cont_token q)))
           in list_next e (l\<lparr>l_last_key := key, l_marker_key := key\<rparr>)))"

definition do_validate_request :: "list_env \<Rightarrow> list_action \<Rightarrow> list_result option" where
  "do_validate_request e l0 =
     (let l = v2_validate_request e l0;
          marker = query_value e ''marker'';
          r1 = (l_object_list l)\<lparr>lr_bucket_name := rq_bucket_name (l_request l), lr_request_prefix := query_value e ''prefix'',
                                lr_request_delimiter := query_value e ''delimiter''\<rparr>;
          r2 = (if marker \<noteq> [] then set_request_marker_key (le_lib e) marker r1 else r1);
          l1 = l\<lparr>l_prefix := query_value e ''prefix'', l_delimiter := query_value e ''delimiter'', l_marker_key := marker,
                 l_last_key := marker, l_object_list := r2\<rparr>;
          max_k = query_value e ''max-keys''
      in if max_k = [] then Some (after_validate_request e (l1\<lparr>l_max_keys := 1000, l_object_list := r2\<lparr>lr_max_keys := ''1000''\<rparr>\<rparr>))
         else case S3CommonUtilities_stoul max_k of
                None \<Rightarrow> list_send_response e (list_set_error ''InvalidArgument'' l1)
              | Some n \<Rightarrow> Some (after_validate_request e (l1\<lparr>l_max_keys := n, l_object_list := r2\<lparr>lr_max_keys := max_k\<rparr>\<rparr>)))"

section \<open>Reading the index\<close>

definition MAX_RETRY_COUNT :: int where "MAX_RETRY_COUNT = 5"

definition next_record_count :: "list_env \<Rightarrow> list_action \<Rightarrow> size_t" where
  "next_record_count e l =
     (if l_reader l = Some R_failed_e2big
      then (if sint (l_retry_count l) > MAX_RETRY_COUNT then 1 else l_max_record_count l div 2)
      else le_fetch_count e)"

definition do_get_next_objects :: "list_env \<Rightarrow> list_action \<Rightarrow> list_result option" where
  "do_get_next_objects e l =
     (if \<not> client_connected (le_act e) then Some (list_done l)
      else case l_bucket l of
        None \<Rightarrow> None
      | Some b \<Rightarrow>
          (let lo = object_list_index_layout b;
               l1 = l\<lparr>l_max_record_count := next_record_count e l, l_reader := Some (case l_reader l of None \<Rightarrow> R_empty | Some s \<Rightarrow> s)\<rparr>
           in if l_max_keys l = 0 \<or> \<not> non_zero (oid lo)
              then list_send_response e (l1\<lparr>l_fetch_successful := True, l_object_list := set_key_count (l_key_Count l1) (l_object_list l1)\<rparr>)
              else if l_prefix l \<noteq> [] \<and> l_marker_key l = [] \<and> l_first_next_keyval_call l
              then Some (l1\<lparr>l_first_next_keyval_call := False, l_last_key := l_prefix l\<rparr>,
                         [L_next_keyval lo (l_prefix l) (l_max_record_count l1) False])
              else Some (l1, [L_next_keyval lo (l_last_key l1) (l_max_record_count l1) True])))"

text \<open>
  The variables of the loop over one batch.  \<open>sc_length\<close> counts the keys of the batch that are
  not yet done: every pass takes at most one away, so it does not wrap.
\<close>

record scan =
  sc_list :: S3ObjectListResponse
  sc_last_key :: string
  sc_length :: nat
  sc_in_common_prefix :: bool
  sc_last_common_prefix :: string
  sc_no_further_match :: bool
  sc_skip_remaining :: bool
  sc_json_error :: bool

definition str_find_from :: "string \<Rightarrow> string \<Rightarrow> nat \<Rightarrow> nat option" where
  "str_find_from t s pos = map_option (\<lambda>i. i + pos) (str_find t (drop pos s))"

text \<open>A pass of the loop ends the loop (\<open>True\<close>) or goes on to the next key.\<close>

definition stop_scan :: "scan \<Rightarrow> scan \<times> bool" where
  "stop_scan s = (s\<lparr>sc_no_further_match := True, sc_length := 0\<rparr>, True)"

definition add_listed :: "list_env \<Rightarrow> list_action \<Rightarrow> string \<Rightarrow> scan \<Rightarrow> scan option" where
  "add_listed e l v s =
     map_option (\<lambda>(ob, rc). if rc \<noteq> 0 then s\<lparr>sc_json_error := True\<rparr> else s\<lparr>sc_list := add_object ob (sc_list s)\<rparr>)
       (om_from_json (le_json e) (le_fi e) v (S3ObjectMetadata_init (le_app_id e) (l_request l) [] [] False []))"

definition end_of_pass :: "list_action \<Rightarrow> string \<Rightarrow> scan \<Rightarrow> scan \<times> bool" where
  "end_of_pass l k s =
     (let s1 = s\<lparr>sc_length := sc_length s - 1\<rparr>
      in if sc_length s1 = 0 \<or> \<not> sc_in_common_prefix s1 \<and> list_count (sc_list s1) = l_max_keys l
         then (s1\<lparr>sc_last_key := k\<rparr>, True) else (s1, False))"

definition roll_up :: "list_action \<Rightarrow> string \<Rightarrow> nat \<Rightarrow> scan \<Rightarrow> scan \<times> bool" where
  "roll_up l k pos s =
     (let common_prefix = take (pos + 1) k;
          skip = (\<not> is_prefix_in_common_prefix common_prefix (sc_list s));
          s1 = (if common_prefix \<noteq> l_marker_key l
                then s\<lparr>sc_list := add_common_prefix common_prefix (sc_list s), sc_last_common_prefix := common_prefix,
                       sc_in_common_prefix := True\<rparr> else s)\<lparr>sc_skip_remaining := skip\<rparr>
      in if skip then (s1\<lparr>sc_last_key := common_prefix @ [CHR 0xFF]\<rparr>, True) else end_of_pass l k s1)"

text \<open>The four branches on prefix and delimiter; without a prefix every key matches at position 0.\<close>

definition scan_body :: "list_env \<Rightarrow> list_action \<Rightarrow> string \<Rightarrow> string \<Rightarrow> scan \<Rightarrow> (scan \<times> bool) option" where
  "scan_body e l k v s =
     (if str_find (l_prefix l) k = Some 0 then
        (case (if l_delimiter l = [] then None else str_find_from (l_delimiter l) k (length (l_prefix l))) of
           None \<Rightarrow> map_option (end_of_pass l k) (add_listed e l v s)
         | Some pos \<Rightarrow> Some (roll_up l k pos s))
      else if k > l_prefix l then Some (stop_scan s)
      else Some (end_of_pass l k s))"

definition scan_key :: "list_env \<Rightarrow> list_action \<Rightarrow> string \<times> string \<Rightarrow> scan \<Rightarrow> (scan \<times> bool) option" where
  "scan_key e l = (\<lambda>(k, v) s.
     if \<not> sc_in_common_prefix s then scan_body e l k v s
     else if l_prefix l \<noteq> [] \<and> str_find (l_prefix l) k = None then
       (if k > l_prefix l then Some (stop_scan s)
        else (let s1 = s\<lparr>sc_length := sc_length s - 1\<rparr> in Some (s1, sc_length s1 = 0)))
     else if str_find (sc_last_common_prefix s) k = None then
       (if list_count (sc_list s) = l_max_keys l then Some (s\<lparr>sc_last_key := sc_last_common_prefix s\<rparr>, True)
        else scan_body e l k v (s\<lparr>sc_in_common_prefix := False, sc_last_common_prefix := []\<rparr>))
     else Some (s\<lparr>sc_length := sc_length s - 1, sc_last_key := k\<rparr>, False))"

fun scan_keys :: "list_env \<Rightarrow> list_action \<Rightarrow> (string \<times> string) list \<Rightarrow> scan \<Rightarrow> scan option" where
  "scan_keys e l [] s = Some s"
| "scan_keys e l (kv # kvs) s =
     (case scan_key e l kv s of
        None \<Rightarrow> None
      | Some (s1, stop) \<Rightarrow> if stop then Some s1 else scan_keys e l kvs s1)"

section \<open>The replies\<close>

text \<open>The read that only asks whether any key is left.\<close>

definition any_more_keys :: "list_env \<Rightarrow> (string \<times> string) list \<Rightarrow> list_action \<Rightarrow> list_result option" where
  "any_more_keys e kvps l =
     (let more = (kvps \<noteq> [] \<and> (l_prefix l = [] \<or> str_find (l_prefix l) (fst (hd kvps)) \<noteq> None));
          r = (if more then set_next_marker_key (le_lib e) (l_saved_last_key l) True (set_response_is_truncated True (l_object_list l))
               else l_object_list l)
      in list_send_response e (l\<lparr>l_check_any_more_keys := False, l_fetch_successful := True, l_object_list := set_key_count (l_key_Count l) r\<rparr>))"

definition finish_listing :: "list_env \<Rightarrow> list_action \<Rightarrow> list_result option" where
  "finish_listing e l =
     list_send_response e (l\<lparr>l_fetch_successful := True, l_object_list := set_key_count (l_key_Count l) (l_object_list l)\<rparr>)"

definition after_scan :: "list_env \<Rightarrow> (string \<times> string) list \<Rightarrow> scan \<Rightarrow> list_action \<Rightarrow> list_result option" where
  "after_scan e kvps s l0 =
     (let l = l0\<lparr>l_object_list := sc_list s, l_last_key := sc_last_key s, l_key_Count := list_count (sc_list s)\<rparr>
      in if l_key_Count l = l_max_keys l \<or> \<not> sc_skip_remaining s \<and> of_nat (length kvps) < l_max_record_count l \<or> sc_no_further_match s
         then (if l_key_Count l = l_max_keys l \<and> sc_length s \<noteq> 0 then
                 (if sc_skip_remaining s
                  then do_get_next_objects e (l\<lparr>l_check_any_more_keys := True,
                         l_saved_last_key := (if sc_in_common_prefix s then sc_last_common_prefix s else l_saved_last_key l)\<rparr>)
                  else (let key = (if sc_in_common_prefix s then sc_last_common_prefix s else sc_last_key s)
                        in finish_listing e (l\<lparr>l_last_key := key, l_object_list :=
                             set_next_marker_key (le_lib e) key True (set_response_is_truncated True (l_object_list l))\<rparr>)))
               else finish_listing e l)
         else do_get_next_objects e l)"

definition get_next_objects_successful :: "list_env \<Rightarrow> (string \<times> string) list \<Rightarrow> list_action \<Rightarrow> list_result option" where
  "get_next_objects_successful e kvps l0 =
     (case check_shutdown_and_rollback (le_act e) False (l_act l0) of
        (act, ev, shut) \<Rightarrow>
          if shut then Some (l0\<lparr>l_act := act, l_reader := Some R_present\<rparr>, map (L_base \<circ> Engine) ev)
          else
            (let l = l0\<lparr>l_act := act, l_reader := Some R_present, l_retry_count := 0\<rparr>
             in if l_check_any_more_keys l then any_more_keys e kvps l
                else
                  (let l1 = l\<lparr>l_total_keys_visited := l_total_keys_visited l + of_nat (length kvps)\<rparr>
                   in scan_keys e l1 kvps
                        \<lparr>sc_list = l_object_list l1, sc_last_key = l_last_key l1, sc_length = length kvps, sc_in_common_prefix = False,
                         sc_last_common_prefix = [], sc_no_further_match = False, sc_skip_remaining = False, sc_json_error = False\<rparr>
                      \<bind> (\<lambda>s. after_scan e kvps s l1))))"

definition get_next_objects_failed :: "list_env \<Rightarrow> S3MotrKVSReaderOpState \<Rightarrow> list_action \<Rightarrow> list_result option" where
  "get_next_objects_failed e rs l0 =
     (let l = l0\<lparr>l_reader := Some rs\<rparr>
      in if rs = R_missing
         then list_send_response e (l\<lparr>l_check_any_more_keys := False, l_fetch_successful := True,
                                      l_object_list := set_key_count (l_key_Count l) (l_object_list l)\<rparr>)
         else if rs = R_failed_to_launch then list_send_response e (list_set_error ''ServiceUnavailable'' l)
         else if rs = R_failed_e2big \<and> \<not> l_max_record_count l \<le> 1
         then do_get_next_objects e (l\<lparr>l_retry_count := l_retry_count l + 1\<rparr>)
         else list_send_response e ((list_set_error ''InternalError'' l)\<lparr>l_fetch_successful := False\<rparr>))"

section \<open>The request as a whole\<close>

fun list_task_body :: "list_env \<Rightarrow> list_task \<Rightarrow> list_action \<Rightarrow> list_result option" where
  "list_task_body e (List_base check_authentication) l = Some (l, [])"
| "list_task_body e (List_base load_metadata) l = Some (list_fetch_bucket_info l)"
| "list_task_body e (List_base set_authorization_meta) l = list_set_authorization_meta e l"
| "list_task_body e (List_base check_authorization) l = Some (l, [])"
| "list_task_body e validate_request l = do_validate_request e l"
| "list_task_body e get_next_objects l = do_get_next_objects e l"
| "list_task_body e List_send_response l = list_send_response e l"

fun list_call :: "list_env \<Rightarrow> list_out \<Rightarrow> (list_action \<Rightarrow> list_result option) option" where
  "list_call e (L_base (Engine (Ran t))) = Some (list_task_body e t)"
| "list_call e (L_base (Engine SendResponse)) = Some (list_send_response e)"
| "list_call e _ = None"

text \<open>As \<open>del_perform\<close>: exhausted fuel with a call pending is \<open>None\<close>; a handler starts at most three calls.\<close>

fun list_perform :: "nat \<Rightarrow> list_env \<Rightarrow> list_result \<Rightarrow> list_result option" where
  "list_perform n e (l, outs) =
     (case (if outs = [] then None else list_call e (last outs)) of
        None \<Rightarrow> Some (l, outs)
      | Some body \<Rightarrow>
          (case n of
             0 \<Rightarrow> None
           | Suc m \<Rightarrow>
               (case body l of
                  None \<Rightarrow> None
                | Some (l1, outs1) \<Rightarrow>
                    if outs1 = [] then Some (l1, outs)
                    else map_option (\<lambda>(l2, outs2). (l2, outs @ outs2)) (list_perform m e (l1, outs1)))))"

declare list_perform.simps [simp del]

datatype list_event =
    List_started
  | List_authenticated
  | List_authentication_failed
  | List_bucket_loaded S3BucketMetadata
  | List_bucket_load_failed S3BucketMetadata
  | List_authorized
  | List_authorization_failed
  | List_fetched "(string \<times> string) list"
  | List_fetch_failed S3MotrKVSReaderOpState

fun list_handle :: "list_env \<Rightarrow> list_event \<Rightarrow> list_action \<Rightarrow> list_result option" where
  "list_handle e List_started l = Some (list_engine (action_start (le_act e) (l_act l)) l)"
| "list_handle e List_authenticated l = Some (list_engine (check_authentication_successful (le_act e) (l_act l)) l)"
| "list_handle e List_authentication_failed l = Some (list_engine (check_authentication_failed (le_act e) (l_act l)) l)"
| "list_handle e (List_bucket_loaded b) l = Some (list_fetch_bucket_info_success e b l)"
| "list_handle e (List_bucket_load_failed b) l = list_fetch_bucket_info_failed e b l"
| "list_handle e List_authorized l = Some (list_engine (check_authorization_successful (le_act e) (l_act l)) l)"
| "list_handle e List_authorization_failed l = Some (list_engine (check_authorization_failed (le_act e) (l_act l)) l)"
| "list_handle e (List_fetched kvps) l = get_next_objects_successful e kvps l"
| "list_handle e (List_fetch_failed rs) l = get_next_objects_failed e rs l"

definition list_step :: "list_env \<Rightarrow> list_event \<Rightarrow> list_action \<Rightarrow> list_result option" where
  "list_step e ev l = list_handle e ev l \<bind> list_perform 8 e"

end
