(* ===== verification/Listing_Run.thy ===== *)
theory Listing_Run
  imports Bucket_Listing
begin

text \<open>
  What a listing returns.  The specification is independent of batches, of retries and of the
  skipping of groups: the keys behind the marker are filtered by the prefix, every key is
  classified as an entry of its own or as a member of a group, and each entry is listed once.
\<close>

section \<open>Keys, prefixes and groups in their order\<close>

lemma is_prefix_le: "is_prefix p x \<Longrightarrow> p \<le> (x :: string)"
  by (induction p x rule: is_prefix.induct) auto

lemma is_prefix_convex: "p \<le> k \<Longrightarrow> k \<le> x \<Longrightarrow> is_prefix p x \<Longrightarrow> is_prefix p (k :: string)"
proof (induction p x arbitrary: k rule: is_prefix.induct)
  case (3 a p b x)
  then show ?case by (cases k) auto
qed auto

lemma below_ff: "is_prefix cp x \<Longrightarrow> CHR 0xFF \<notin> set x \<Longrightarrow> x < cp @ [CHR 0xFF]"
proof (induction cp x rule: is_prefix.induct)
  case (1 s)
  show ?case
  proof (cases s)
    case (Cons c cs)
    with 1 have "c \<noteq> CHR 0xFF" by auto
    moreover have "(of_char c :: nat) < 256" by simp
    moreover have "(of_char (CHR 0xFF) :: nat) = 255" by simp
    moreover have "(of_char c :: nat) \<noteq> of_char (CHR 0xFF)" using calculation(1) by (simp del: of_char_Char)
    ultimately have "(of_char c :: nat) < of_char (CHR 0xFF)" by linarith
    then have "c < CHR 0xFF" by (simp only: less_char_def)
    then show ?thesis using Cons by simp
  qed simp
qed auto

lemma str_find_0: "str_find t s = Some 0 \<longleftrightarrow> is_prefix t s"
  by (cases s; cases t) auto

section \<open>The specification\<close>

datatype list_entry = Key string | Roll string

definition entry_of :: "string \<Rightarrow> string \<Rightarrow> string \<Rightarrow> list_entry" where
  "entry_of p d k =
     (case (if d = [] then None else str_find_from d k (length p)) of None \<Rightarrow> Key k | Some pos \<Rightarrow> Roll (take (pos + 1) k))"

definition raw_entries :: "string \<Rightarrow> string \<Rightarrow> string \<Rightarrow> string list \<Rightarrow> list_entry list" where
  "raw_entries p d m ks = filter (\<lambda>x. x \<noteq> Roll m) (map (entry_of p d) (filter (is_prefix p) ks))"

definition list_entries :: "string \<Rightarrow> string \<Rightarrow> string \<Rightarrow> string list \<Rightarrow> list_entry list" where
  "list_entries p d m ks = remdups (raw_entries p d m ks)"

definition entry_keys :: "list_entry list \<Rightarrow> string list" where
  "entry_keys E = concat (map (\<lambda>x. case x of Key k \<Rightarrow> [k] | Roll cp \<Rightarrow> []) E)"

definition entry_prefixes :: "list_entry list \<Rightarrow> string list" where
  "entry_prefixes E = concat (map (\<lambda>x. case x of Key k \<Rightarrow> [] | Roll cp \<Rightarrow> [cp]) E)"

text \<open>A one-character delimiter ends its group; the first one behind the prefix decides.\<close>

lemma str_find_single:
  "str_find [c] s = (if c \<in> set s then Some (length (takeWhile (\<lambda>x. x \<noteq> c) s)) else None)"
  by (induction s) (auto simp: is_prefix_iff)

lemma takeWhile_to: "c \<notin> set u \<Longrightarrow> takeWhile (\<lambda>x. x \<noteq> c) (u @ c # v) = u"
  by (induction u) auto

lemma entry_of_RollD:
  assumes "entry_of p [c] k = Roll cp" "is_prefix p k"
  shows "\<exists>u v. k = p @ u @ c # v \<and> c \<notin> set u \<and> cp = p @ u @ [c]"
proof -
  obtain r where k: "k = p @ r" using assms(2) by (auto simp: is_prefix_iff)
  with assms(1) have "c \<in> set r" and cp: "cp = take (length (takeWhile (\<lambda>x. x \<noteq> c) r) + length p + 1) (p @ r)"
    by (auto simp: entry_of_def str_find_from_def str_find_single split: if_splits)
  then obtain u v where r: "r = u @ c # v" "c \<notin> set u" by (meson split_list_first)
  then have "takeWhile (\<lambda>x. x \<noteq> c) r = u" by (simp add: takeWhile_to)
  then show ?thesis using k r cp by auto
qed

lemma entry_of_Roll_intro: "c \<notin> set u \<Longrightarrow> is_prefix (p @ u @ [c]) x \<Longrightarrow> entry_of p [c] x = Roll (p @ u @ [c])"
  by (auto simp: entry_of_def str_find_from_def str_find_single is_prefix_iff takeWhile_to)

lemma entry_of_Key: "entry_of p d k = Key k' \<Longrightarrow> k' = k"
  by (auto simp: entry_of_def split: option.splits if_splits)

text \<open>The members of a group are the keys up to its prefix followed by the greatest character.\<close>

lemma group_keys:
  assumes d: "length d \<le> 1" and k: "entry_of p d k = Roll cp" "is_prefix p k" and x: "CHR 0xFF \<notin> set x" "k \<le> x"
  shows "x < cp @ [CHR 0xFF] \<longleftrightarrow> is_prefix p x \<and> entry_of p d x = Roll cp"
proof -
  obtain c where dc: "d = [c]" using d k(1) by (cases d) (auto simp: entry_of_def)
  from entry_of_RollD [OF k(1) [unfolded dc] k(2)] obtain u v where
    kk: "k = p @ u @ c # v" and c: "c \<notin> set u" and cp: "cp = p @ u @ [c]" by blast
  have "is_prefix cp k" using kk cp by (auto simp: is_prefix_iff)
  then have le: "cp \<le> x" using is_prefix_le x(2) by (meson order_trans)
  show ?thesis
  proof
    assume "x < cp @ [CHR 0xFF]"
    then have "is_prefix cp x" using is_prefix_convex [OF le, of "cp @ [CHR 0xFF]"] by (simp add: is_prefix_iff)
    moreover from this have "is_prefix p x" using cp by (auto simp: is_prefix_iff)
    ultimately show "is_prefix p x \<and> entry_of p d x = Roll cp" using entry_of_Roll_intro [OF c] cp dc by simp
  next
    assume a: "is_prefix p x \<and> entry_of p d x = Roll cp"
    from a entry_of_RollD [of p c x cp] dc have "is_prefix cp x" by (auto simp: is_prefix_iff)
    then show "x < cp @ [CHR 0xFF]" using below_ff x(1) by blast
  qed
qed

lemma remdups_group: "set us \<subseteq> {x} \<Longrightarrow> x \<notin> set vs \<Longrightarrow> remdups (x # us @ vs) = x # remdups vs"
  by (induction us) auto

lemma remdups_append_distinct: "distinct xs \<Longrightarrow> set xs \<inter> set ys = {} \<Longrightarrow> remdups (xs @ ys) = xs @ remdups ys"
  by (induction xs) auto

lemma raw_entries_append: "raw_entries p d m (xs @ ys) = raw_entries p d m xs @ raw_entries p d m ys"
  by (simp add: raw_entries_def)

lemma sorted_split: "sorted_wrt (<) ks \<Longrightarrow> y \<notin> set ks \<Longrightarrow> ks = filter (\<lambda>x. x < y) ks @ filter (\<lambda>x. y < x) (ks :: 'a :: linorder list)"
proof (induction ks)
  case (Cons a ks)
  show ?case
  proof (cases "a < y")
    case False
    with Cons.prems have "\<forall>x\<in>set (a # ks). y < x" by force
    then have "filter (\<lambda>x. x < y) (a # ks) = []" "filter (\<lambda>x. y < x) (a # ks) = a # ks"
      by (auto simp: filter_empty_conv filter_id_conv)
    then show ?thesis by (metis append_Nil)
  qed (use Cons in \<open>auto simp: not_less_iff_gr_or_eq\<close>)
qed simp

text \<open>The rest of a group is passed over at once.\<close>

lemma list_entries_group:
  assumes d: "length d \<le> 1" and srt: "sorted_wrt (<) (k # ks)" and ff: "\<forall>x\<in>set ks. CHR 0xFF \<notin> set x"
    and k: "entry_of p d k = Roll cp" "is_prefix p k"
  shows "list_entries p d m (k # ks) = (if cp = m then [] else [Roll cp]) @ list_entries p d m (filter (\<lambda>x. cp @ [CHR 0xFF] < x) ks)"
proof -
  let ?in = "\<lambda>x. x < cp @ [CHR 0xFF]"
  have mem: "?in x \<longleftrightarrow> is_prefix p x \<and> entry_of p d x = Roll cp" if "x \<in> set ks" for x
    using group_keys [OF d k, of x] that ff srt by auto
  have ne: "x \<noteq> cp @ [CHR 0xFF]" if "x \<in> set ks" for x using that ff by auto
  have split: "ks = filter ?in ks @ filter (\<lambda>x. cp @ [CHR 0xFF] < x) ks"
    using srt ne by (intro sorted_split) auto
  let ?us = "raw_entries p d m (filter ?in ks)" and ?vs = "raw_entries p d m (filter (\<lambda>x. cp @ [CHR 0xFF] < x) ks)"
  have us: "set ?us \<subseteq> {Roll cp}" "cp = m \<Longrightarrow> ?us = []" using mem by (auto simp: raw_entries_def filter_empty_conv)
  have vs: "Roll cp \<notin> set ?vs"
  proof
    assume "Roll cp \<in> set ?vs"
    then obtain x where "x \<in> set ks" "cp @ [CHR 0xFF] < x" "is_prefix p x \<and> entry_of p d x = Roll cp"
      unfolding raw_entries_def by auto
    then show False using mem [of x] less_asym by blast
  qed
  have "raw_entries p d m (k # ks) = (if cp = m then [] else [Roll cp]) @ ?us @ ?vs"
    by (subst split) (simp add: raw_entries_def k)
  then show ?thesis using us vs remdups_group [OF us(1) vs] by (simp add: list_entries_def)
qed

section \<open>What a response holds\<close>

definition holds :: "S3ObjectListResponse \<Rightarrow> list_entry list \<Rightarrow> bool" where
  "holds r E \<longleftrightarrow> get_keys r = entry_keys E \<and> map_wf (lr_common_prefixes r)
     \<and> fst ` set (lr_common_prefixes r) = set (entry_prefixes E) \<and> length (lr_common_prefixes r) = length (entry_prefixes E)"

lemma entry_keys_simps [simp]: "entry_keys [] = []" "entry_keys (E @ F) = entry_keys E @ entry_keys F"
  "entry_keys (Key k # E) = k # entry_keys E" "entry_keys (Roll cp # E) = entry_keys E"
  by (simp_all add: entry_keys_def)

lemma entry_prefixes_simps [simp]: "entry_prefixes [] = []" "entry_prefixes (E @ F) = entry_prefixes E @ entry_prefixes F"
  "entry_prefixes (Key k # E) = entry_prefixes E" "entry_prefixes (Roll cp # E) = cp # entry_prefixes E"
  by (simp_all add: entry_prefixes_def)

lemma entry_counts: "length (entry_keys E) + length (entry_prefixes E) = length E"
proof (induction E)
  case (Cons x E)
  then show ?case by (cases x) auto
qed simp

lemma in_entry_prefixes: "cp \<in> set (entry_prefixes E) \<longleftrightarrow> Roll cp \<in> set E"
proof (induction E)
  case (Cons x E)
  then show ?case by (cases x) auto
qed simp

lemma holds_count:
  assumes "holds r E" "length E < 2 ^ 32"
  shows "list_count r = of_nat (length E)"
proof -
  have "length (lr_object_list r) + length (lr_common_prefixes r) = length E"
    using assms(1) entry_counts [of E] by (metis holds_def get_keys_def length_map)
  then have "(of_nat (length (lr_object_list r)) + of_nat (length (lr_common_prefixes r)) :: 32 word) = of_nat (length E)"
    by (metis of_nat_add)
  then have "list_count r = ucast (of_nat (length E) :: 32 word)" by (simp add: list_count_def)
  also have "\<dots> = of_nat (length E)" using assms(2) by (simp add: word_eq_iff_unsigned unsigned_ucast_eq unsigned_of_nat take_bit_nat_eq_self)
  finally show ?thesis .
qed

lemma holds_full:
  assumes "holds r F" "length F < 2 ^ 32"
  shows "list_count r = n \<longleftrightarrow> length F = unat n"
proof -
  have "unat (of_nat (length F) :: size_t) = length F" using assms(2) by (simp add: unsigned_of_nat take_bit_nat_eq_self)
  then show ?thesis using holds_count [OF assms] by (metis word_unat_eq_iff)
qed

lemma holds_add_object: "holds r E \<Longrightarrow> om_object_name ob = k \<Longrightarrow> holds (add_object ob r) (E @ [Key k])"
  by (simp add: holds_def add_object_def get_keys_def)

lemma holds_in_prefixes: "holds r E \<Longrightarrow> is_prefix_in_common_prefix cp r \<longleftrightarrow> Roll cp \<in> set E"
  using in_entry_prefixes [of cp E] dom_map_get [of "lr_common_prefixes r"]
  by (auto simp: holds_def is_prefix_in_common_prefix_def dom_def)

lemma holds_add_prefix:
  assumes "holds r E" "Roll cp \<notin> set E"
  shows "holds (add_common_prefix cp r) (E @ [Roll cp])"
proof -
  have "map_get (lr_common_prefixes r) cp = None"
    using holds_in_prefixes [OF assms(1), of cp] assms(2) unfolding is_prefix_in_common_prefix_def by blast
  then show ?thesis
    using assms(1) by (simp add: holds_def add_common_prefix_def get_keys_def fst_set_map_put map_put_length)
qed

section \<open>One batch\<close>

definition readable :: "list_env \<Rightarrow> list_action \<Rightarrow> (string \<times> string) list \<Rightarrow> bool" where
  "readable e l kvs \<longleftrightarrow> (\<forall>(k, v) \<in> set kvs. \<exists>ob. om_from_json (le_json e) (le_fi e) v
       (S3ObjectMetadata_init (le_app_id e) (l_request l) [] [] False []) = Some (ob, 0) \<and> om_object_name ob = k)"

abbreviation raw_of :: "list_action \<Rightarrow> (string \<times> string) list \<Rightarrow> list_entry list" where
  "raw_of l kvs \<equiv> raw_entries (l_prefix l) (l_delimiter l) (l_marker_key l) (map fst kvs)"

definition no_groups :: "list_action \<Rightarrow> (string \<times> string) list \<Rightarrow> bool" where
  "no_groups l kvs \<longleftrightarrow> (\<forall>(k, v) \<in> set kvs. is_prefix (l_prefix l) k \<longrightarrow> entry_of (l_prefix l) (l_delimiter l) k = Key k)"

text \<open>
  How the loop over a batch ends: at a group, which is skipped; at a key behind all that match;
  or because the batch or the listing is full.
\<close>

definition batch_end :: "list_action \<Rightarrow> nat \<Rightarrow> (string \<times> string) list \<Rightarrow> (string \<times> string) list \<Rightarrow> scan \<Rightarrow> bool" where
  "batch_end l n xs ys s \<longleftrightarrow>
     (if sc_skip_remaining s then
        (\<exists>zs k v cp. xs = zs @ [(k, v)] \<and> no_groups l zs \<and> is_prefix (l_prefix l) k \<and> entry_of (l_prefix l) (l_delimiter l) k = Roll cp
           \<and> sc_last_key s = cp @ [CHR 0xFF] \<and> sc_length s = Suc (length ys) \<and> \<not> sc_no_further_match s
           \<and> (if cp = l_marker_key l then n < unat (l_max_keys l) else sc_in_common_prefix s \<and> sc_last_common_prefix s = cp))
      else no_groups l xs \<and> \<not> sc_in_common_prefix s
        \<and> (if sc_no_further_match s
           then sc_length s = 0 \<and> ys \<noteq> [] \<and> l_prefix l < fst (hd ys) \<and> \<not> is_prefix (l_prefix l) (fst (hd ys))
           else xs \<noteq> [] \<and> sc_last_key s = fst (last xs) \<and> sc_length s = length ys \<and> (ys \<noteq> [] \<longrightarrow> n = unat (l_max_keys l))))"

definition scan_outcome :: "list_action \<Rightarrow> list_entry list \<Rightarrow> (string \<times> string) list \<Rightarrow> scan \<Rightarrow> bool" where
  "scan_outcome l E kvs s \<longleftrightarrow>
     (\<exists>xs ys. kvs = xs @ ys \<and> holds (sc_list s) (E @ raw_of l xs) \<and> length (E @ raw_of l xs) \<le> unat (l_max_keys l)
       \<and> batch_end l (length (E @ raw_of l xs)) xs ys s)"

lemma raw_of_key:
  "is_prefix (l_prefix l) k \<Longrightarrow> entry_of (l_prefix l) (l_delimiter l) k = Key k \<Longrightarrow> raw_of l [(k, v)] = [Key k]"
  "\<not> is_prefix (l_prefix l) k \<Longrightarrow> raw_of l [(k, v)] = []"
  by (simp_all add: raw_entries_def)

lemma no_groups_Cons: "no_groups l (kv # kvs) \<longleftrightarrow> no_groups l [kv] \<and> no_groups l kvs"
  by (auto simp: no_groups_def)

lemma batch_end_Cons:
  assumes "batch_end l n xs ys s" "no_groups l [kv]"
  shows "batch_end l n (kv # xs) ys s"
proof (cases "sc_skip_remaining s")
  case True
  then show ?thesis using assms no_groups_Cons [of l kv] unfolding batch_end_def by (metis append_Cons)
next
  case False
  then show ?thesis using assms no_groups_Cons [of l kv xs] by (auto simp: batch_end_def)
qed

text \<open>The outcome for the rest of a batch is one for the batch.\<close>

lemma scan_outcome_Cons:
  assumes "scan_outcome l (E @ raw_of l [kv]) kvs s" "no_groups l [kv]"
  shows "scan_outcome l E (kv # kvs) s"
proof -
  from assms(1) obtain xs ys where o: "kvs = xs @ ys" "holds (sc_list s) ((E @ raw_of l [kv]) @ raw_of l xs)"
    "length ((E @ raw_of l [kv]) @ raw_of l xs) \<le> unat (l_max_keys l)" "batch_end l (length ((E @ raw_of l [kv]) @ raw_of l xs)) xs ys s"
    unfolding scan_outcome_def by blast
  have raw: "E @ raw_of l (kv # xs) = (E @ raw_of l [kv]) @ raw_of l xs"
    using raw_entries_append [of _ _ _ "[fst kv]" "map fst xs"] by simp
  show ?thesis
    unfolding scan_outcome_def
    by (rule exI [of _ "kv # xs"], rule exI [of _ ys], unfold raw) (use o batch_end_Cons [OF o(4) assms(2)] in simp)
qed

lemma scan_keys_outcome:
  assumes "kvs \<noteq> []" "\<not> sc_in_common_prefix s" "\<not> sc_no_further_match s" "\<not> sc_skip_remaining s" "sc_length s = length kvs"
    "holds (sc_list s) E" "length E < unat (l_max_keys l)" "length E + length kvs < 2 ^ 32" "readable e l kvs"
    "\<forall>(k, v) \<in> set kvs. \<forall>cp. is_prefix (l_prefix l) k \<and> entry_of (l_prefix l) (l_delimiter l) k = Roll cp \<longrightarrow> Roll cp \<notin> set E"
  shows "\<exists>s'. scan_keys e l kvs s = Some s' \<and> scan_outcome l E kvs s'"
  using assms
proof (induction kvs arbitrary: s E)
  case (Cons kv kvs)
  obtain k v where kv: "kv = (k, v)" by force
  have pass: "\<exists>s'. (case end_of_pass l k s1 of (s2, stop) \<Rightarrow> if stop then Some s2 else scan_keys e l kvs s2) = Some s'
       \<and> scan_outcome l E (kv # kvs) s'"
    if h: "holds (sc_list s1) (E @ raw_of l [kv])" and no: "no_groups l [kv]" and s1: "s1 = s\<lparr>sc_list := sc_list s1\<rparr>" for s1
  proof -
    have sc: "\<not> sc_in_common_prefix s1" "\<not> sc_no_further_match s1" "\<not> sc_skip_remaining s1" "sc_length s1 = Suc (length kvs)"
      using Cons.prems(2-5) by (subst s1; simp)+
    have len: "length (raw_of l [kv]) \<le> 1" by (simp add: raw_entries_def)
    have cnt: "list_count (sc_list s1) = l_max_keys l \<longleftrightarrow> length (E @ raw_of l [kv]) = unat (l_max_keys l)"
      using h len Cons.prems(8) by (intro holds_full) auto
    show ?thesis
    proof (cases "kvs = [] \<or> list_count (sc_list s1) = l_max_keys l")
      case True
      let ?s = "s1\<lparr>sc_length := length kvs, sc_last_key := k\<rparr>"
      have "end_of_pass l k s1 = (?s, True)" using True sc by (simp add: end_of_pass_def Let_def)
      moreover have "batch_end l (length (E @ raw_of l [kv])) [kv] kvs ?s"
        using True cnt sc no kv by (auto simp: batch_end_def)
      then have "scan_outcome l E (kv # kvs) ?s"
        unfolding scan_outcome_def using h len Cons.prems(7) by (intro exI [of _ "[kv]"] exI [of _ kvs]) auto
      ultimately show ?thesis by simp
    next
      case False
      let ?s = "s1\<lparr>sc_length := length kvs\<rparr>"
      have "end_of_pass l k s1 = (?s, False)" using False sc by (simp add: end_of_pass_def Let_def)
      moreover have "\<exists>s'. scan_keys e l kvs ?s = Some s' \<and> scan_outcome l (E @ raw_of l [kv]) kvs s'"
      proof (rule Cons.IH)
        show "length (E @ raw_of l [kv]) < unat (l_max_keys l)" using False cnt len Cons.prems(7) by simp
        show "readable e l kvs" using Cons.prems(9) by (simp add: readable_def)
        show "\<forall>(k, v) \<in> set kvs. \<forall>cp. is_prefix (l_prefix l) k \<and> entry_of (l_prefix l) (l_delimiter l) k = Roll cp \<longrightarrow> Roll cp \<notin> set (E @ raw_of l [kv])"
          using Cons.prems(10) no kv by (auto simp: raw_entries_def no_groups_def)
      qed (use False sc h len Cons.prems(8) in auto)
      ultimately show ?thesis using scan_outcome_Cons [OF _ no] by auto
    qed
  qed
  have step: "scan_keys e l (kv # kvs) s = (case scan_body e l k v s of None \<Rightarrow> None | Some (s1, stop) \<Rightarrow> if stop then Some s1 else scan_keys e l kvs s1)"
    using Cons.prems(2) kv by (simp add: scan_key_def)
  show ?case
  proof (cases "is_prefix (l_prefix l) k")
    case False
    have raw: "raw_of l [kv] = []" using False kv raw_of_key(2) by simp
    have no: "no_groups l [kv]" using False kv by (simp add: no_groups_def)
    show ?thesis
    proof (cases "l_prefix l < k")
      case True
      let ?s = "s\<lparr>sc_no_further_match := True, sc_length := 0\<rparr>"
      have "scan_outcome l E (kv # kvs) ?s"
        unfolding scan_outcome_def using Cons.prems(2-7) True False kv
        by (intro exI [of _ "[]"] exI [of _ "kv # kvs"]) (auto simp: batch_end_def no_groups_def raw_entries_def)
      then show ?thesis using True False step by (simp add: scan_body_def str_find_0 stop_scan_def)
    next
      case below: False
      then show ?thesis
        using pass [of s] False step no raw Cons.prems(6) by (simp add: scan_body_def str_find_0)
    qed
  next
    case True
    show ?thesis
    proof (cases "entry_of (l_prefix l) (l_delimiter l) k")
      case (Key k')
      then have key: "entry_of (l_prefix l) (l_delimiter l) k = Key k" using entry_of_Key by blast
      obtain ob where ob: "om_from_json (le_json e) (le_fi e) v (S3ObjectMetadata_init (le_app_id e) (l_request l) [] [] False []) = Some (ob, 0)"
        "om_object_name ob = k" using Cons.prems(9) kv by (auto simp: readable_def)
      let ?s = "s\<lparr>sc_list := add_object ob (sc_list s)\<rparr>"
      have "scan_body e l k v s = Some (end_of_pass l k ?s)"
        using True key ob by (auto simp: scan_body_def str_find_0 add_listed_def entry_of_def split: option.splits if_splits)
      moreover have "holds (sc_list ?s) (E @ raw_of l [kv])" "no_groups l [kv]"
        using holds_add_object [OF Cons.prems(6) ob(2)] raw_of_key(1) [OF True key] True key kv by (simp_all add: no_groups_def)
      ultimately show ?thesis using pass [of ?s] step by simp
    next
      case (Roll cp)
      then obtain pos where pos: "(if l_delimiter l = [] then None else str_find_from (l_delimiter l) k (length (l_prefix l))) = Some pos"
        "cp = take (pos + 1) k" by (auto simp: entry_of_def split: option.splits)
      have new: "Roll cp \<notin> set E" using Cons.prems(10) kv True Roll by auto
      let ?s1 = "(if cp \<noteq> l_marker_key l then s\<lparr>sc_list := add_common_prefix cp (sc_list s), sc_last_common_prefix := cp, sc_in_common_prefix := True\<rparr> else s)"
      let ?s = "?s1\<lparr>sc_skip_remaining := True, sc_last_key := cp @ [CHR 0xFF]\<rparr>"
      have "\<not> is_prefix_in_common_prefix cp (sc_list s)" using holds_in_prefixes [OF Cons.prems(6)] new by blast
      then have body: "scan_body e l k v s = Some (?s, True)"
        using True pos by (simp add: scan_body_def str_find_0 roll_up_def Let_def)
      have raw: "raw_of l [kv] = (if cp = l_marker_key l then [] else [Roll cp])" using True Roll kv by (simp add: raw_entries_def)
      have "batch_end l (length (E @ raw_of l [kv])) [kv] kvs ?s"
        using True Roll kv raw Cons.prems(3,5,7) by (auto simp: batch_end_def no_groups_def)
      moreover have "holds (sc_list ?s) (E @ raw_of l [kv])"
        using raw holds_add_prefix [OF Cons.prems(6) new] Cons.prems(6) by simp
      ultimately have "scan_outcome l E (kv # kvs) ?s"
        unfolding scan_outcome_def using raw Cons.prems(7) by (intro exI [of _ "[kv]"] exI [of _ kvs]) auto
      then show ?thesis using step body by simp
    qed
  qed
qed simp

section \<open>The index\<close>

definition from_key :: "string \<Rightarrow> bool \<Rightarrow> (string, string) std_map \<Rightarrow> (string \<times> string) list" where
  "from_key k exclusive I = filter (\<lambda>x. if exclusive then k < fst x else k \<le> fst x) I"

text \<open>What Motr answers: at most \<open>n\<close> entries in key order.\<close>

definition index_answer :: "(string, string) std_map \<Rightarrow> string \<Rightarrow> size_t \<Rightarrow> bool \<Rightarrow> list_event" where
  "index_answer I k n exclusive =
     (let kvs = take (unat n) (from_key k exclusive I) in if kvs = [] then List_fetch_failed R_missing else List_fetched kvs)"

fun list_run :: "nat \<Rightarrow> list_env \<Rightarrow> (string, string) std_map \<Rightarrow> list_result \<Rightarrow> list_result option" where
  "list_run n e I (l, outs) =
     (case (if outs = [] then None else Some (last outs)) of
        Some (L_next_keyval lo k c exclusive) \<Rightarrow>
          (case n of
             0 \<Rightarrow> None
           | Suc m \<Rightarrow>
               (case list_step e (index_answer I k c exclusive) l of
                  None \<Rightarrow> None
                | Some r \<Rightarrow> map_option (\<lambda>(l2, outs2). (l2, outs @ outs2)) (list_run m e I r)))
      | _ \<Rightarrow> Some (l, outs))"

declare list_run.simps [simp del]

abbreviation keys_sorted :: "(string \<times> string) list \<Rightarrow> bool" where
  "keys_sorted I \<equiv> sorted_wrt (\<lambda>a b. fst a < fst b) I"

lemma keys_sorted_filter: "keys_sorted I \<Longrightarrow> keys_sorted (filter P I)"
  by (induction I) auto

lemma keys_sorted_map: "keys_sorted I \<longleftrightarrow> sorted_wrt (<) (map fst I)"
  by (simp add: sorted_wrt_map)

lemma keys_behind:
  assumes I: "keys_sorted I" and K: "from_key k ex I = xs @ zs" and xs: "xs \<noteq> []" and y: "fst (last xs) \<le> y"
  shows "filter (\<lambda>x. y < fst x) I = filter (\<lambda>x. y < fst x) zs"
proof -
  have "keys_sorted (from_key k ex I)" unfolding from_key_def by (rule keys_sorted_filter [OF I])
  then have srt: "keys_sorted (xs @ zs)" by (simp only: K)
  have "last xs \<in> set (from_key k ex I)" using xs K by simp
  then have k: "if ex then k < y else k \<le> y" using y by (auto simp: from_key_def split: if_splits)
  have "filter (\<lambda>x. y < fst x) I = filter (\<lambda>x. y < fst x) (from_key k ex I)"
    unfolding from_key_def filter_filter
  proof (rule filter_cong [OF refl])
    fix x :: "string \<times> string"
    show "y < fst x \<longleftrightarrow> (if ex then k < fst x else k \<le> fst x) \<and> y < fst x"
      using k by (cases ex) (simp_all, metis less_trans, metis le_less_trans less_imp_le)
  qed
  also have "\<dots> = filter (\<lambda>x. y < fst x) xs @ filter (\<lambda>x. y < fst x) zs" by (simp add: K)
  also have "filter (\<lambda>x. y < fst x) xs = []"
  proof -
    have "fst x \<le> fst (last xs)" if "x \<in> set xs" for x
    proof (cases "x = last xs")
      case False
      obtain us where us: "xs = us @ [last xs]" using xs by (metis append_butlast_last_id)
      then have "x \<in> set us" using that False by (metis UnE set_append set_ConsD empty_iff list.set(1))
      moreover have "keys_sorted (us @ [last xs])" using srt us by (metis sorted_wrt_append)
      ultimately show ?thesis by (auto simp: sorted_wrt_append)
    qed simp
    then show ?thesis using y by (fastforce simp: filter_empty_conv)
  qed
  finally show ?thesis by simp
qed

section \<open>Batches and entries\<close>

abbreviation entries_of :: "list_action \<Rightarrow> (string \<times> string) list \<Rightarrow> list_entry list" where
  "entries_of l kvs \<equiv> list_entries (l_prefix l) (l_delimiter l) (l_marker_key l) (map fst kvs)"

lemma entries_of_keys:
  assumes no: "no_groups l xs" and srt: "keys_sorted (xs @ ys)"
  shows "entries_of l (xs @ ys) = raw_of l xs @ entries_of l ys"
proof -
  have raw: "raw_of l xs = map Key (filter (is_prefix (l_prefix l)) (map fst xs))"
    using no by (induction xs) (auto simp: no_groups_def raw_entries_def)
  have dist: "distinct (map fst (xs @ ys))" using srt unfolding keys_sorted_map by (simp add: strict_sorted_iff)
  have "distinct (raw_of l xs)" using dist unfolding raw by (simp add: distinct_map inj_on_def)
  moreover have "k \<in> set (map fst ys)" if "Key k \<in> set (raw_of l ys)" for k
  proof -
    from that obtain x where x: "x \<in> set ys" "Key k = entry_of (l_prefix l) (l_delimiter l) (fst x)"
      unfolding raw_entries_def by auto
    then show ?thesis using entry_of_Key [OF x(2) [symmetric]] by simp
  qed
  then have "set (raw_of l xs) \<inter> set (raw_of l ys) = {}" using dist unfolding raw by auto
  ultimately show ?thesis by (simp add: list_entries_def raw_entries_append remdups_append_distinct)
qed

lemma entries_of_none:
  assumes "keys_sorted ys" "ys \<noteq> []" "l_prefix l < fst (hd ys)" "\<not> is_prefix (l_prefix l) (fst (hd ys))"
  shows "entries_of l ys = []"
proof -
  have "\<not> is_prefix (l_prefix l) (fst x)" if "x \<in> set ys" for x
  proof
    assume x: "is_prefix (l_prefix l) (fst x)"
    have "fst (hd ys) \<le> fst x" using assms(1,2) that by (cases ys) auto
    then show False using is_prefix_convex [of "l_prefix l" "fst (hd ys)" "fst x"] assms(3,4) x less_imp_le by blast
  qed
  then have "filter (is_prefix (l_prefix l)) (map fst ys) = []" by (auto simp: filter_empty_conv)
  then show ?thesis by (simp add: list_entries_def raw_entries_def)
qed

lemma entries_of_group:
  assumes d: "length (l_delimiter l) \<le> 1" and no: "no_groups l zs" and srt: "keys_sorted (zs @ (k, v) # ys)"
    and ff: "\<forall>x\<in>set ys. CHR 0xFF \<notin> set (fst x)"
    and k: "is_prefix (l_prefix l) k" "entry_of (l_prefix l) (l_delimiter l) k = Roll cp"
  shows "entries_of l (zs @ (k, v) # ys) = raw_of l (zs @ [(k, v)]) @ entries_of l (filter (\<lambda>x. cp @ [CHR 0xFF] < fst x) ys)"
proof -
  have "entries_of l (zs @ (k, v) # ys) = raw_of l zs @ entries_of l ((k, v) # ys)" using entries_of_keys [OF no srt] by simp
  also have "entries_of l ((k, v) # ys) = (if cp = l_marker_key l then [] else [Roll cp])
      @ list_entries (l_prefix l) (l_delimiter l) (l_marker_key l) (filter (\<lambda>x. cp @ [CHR 0xFF] < x) (map fst ys))"
  proof -
    have "sorted_wrt (<) (k # map fst ys)" "\<forall>x\<in>set (map fst ys). CHR 0xFF \<notin> set x"
      using srt ff by (simp_all add: sorted_wrt_append sorted_wrt_map)
    from list_entries_group [OF d this k(2,1), of "l_marker_key l"] show ?thesis by simp
  qed
  also have "filter (\<lambda>x. cp @ [CHR 0xFF] < x) (map fst ys) = map fst (filter (\<lambda>x. cp @ [CHR 0xFF] < fst x) ys)"
    by (simp add: filter_map o_def)
  finally show ?thesis using k by (simp add: raw_entries_def)
qed

section \<open>Continuing a listing\<close>

definition list_rest :: "list_action \<Rightarrow> (string, string) std_map \<Rightarrow> string \<Rightarrow> list_entry list" where
  "list_rest l I nm = list_entries (l_prefix l) (l_delimiter l) nm (map fst (from_key nm True I))"

lemma list_entries_marker:
  assumes "\<forall>x\<in>set ks. is_prefix p x \<longrightarrow> entry_of p d x \<noteq> Roll m \<and> entry_of p d x \<noteq> Roll m'"
  shows "list_entries p d m ks = list_entries p d m' ks"
proof -
  have "filter (\<lambda>x. x \<noteq> Roll m) (map (entry_of p d) (filter (is_prefix p) ks)) = filter (\<lambda>x. x \<noteq> Roll m') (map (entry_of p d) (filter (is_prefix p) ks))"
    using assms by (intro filter_cong) auto
  then show ?thesis by (simp add: list_entries_def raw_entries_def)
qed

lemma Roll_between:
  assumes d: "length d \<le> 1" and x: "entry_of p d x = Roll cp" "is_prefix p x" and k: "cp \<le> k" "k \<le> x"
  shows "is_prefix p k \<and> entry_of p d k = Roll cp"
proof -
  obtain c where dc: "d = [c]" using d x(1) by (cases d) (auto simp: entry_of_def)
  from entry_of_RollD [OF x(1) [unfolded dc] x(2)] obtain u v where
    xx: "x = p @ u @ c # v" "c \<notin> set u" and cp: "cp = p @ u @ [c]" by blast
  then have "is_prefix cp x" by (auto simp: is_prefix_iff)
  then have pre: "is_prefix cp k" using is_prefix_convex [OF k] by blast
  then have "is_prefix p k" using cp by (auto simp: is_prefix_iff)
  then show ?thesis using entry_of_Roll_intro [OF xx(2)] pre cp dc by simp
qed

text \<open>Behind a listed key the listing goes on with that key as its marker.\<close>

lemma rest_after_key:
  assumes d: "length (l_delimiter l) \<le> 1" and k0: "is_prefix (l_prefix l) k0 \<longrightarrow> entry_of (l_prefix l) (l_delimiter l) k0 = Key k0"
    and m: "l_marker_key l \<le> k0"
  shows "list_rest l I k0 = entries_of l (from_key k0 True I)"
  unfolding list_rest_def
proof (rule list_entries_marker, intro ballI impI conjI)
  fix x assume x: "x \<in> set (map fst (from_key k0 True I))" "is_prefix (l_prefix l) x"
  then have "k0 \<le> x" by (auto simp: from_key_def)
  with Roll_between [OF d _ x(2), of _ k0] k0 m show "entry_of (l_prefix l) (l_delimiter l) x \<noteq> Roll k0"
    "entry_of (l_prefix l) (l_delimiter l) x \<noteq> Roll (l_marker_key l)" by auto
qed

text \<open>Behind a group it goes on with the common prefix as its marker.\<close>

lemma rest_after_group:
  assumes d: "length (l_delimiter l) \<le> 1" and I: "keys_sorted I" and ff: "\<forall>x\<in>set I. CHR 0xFF \<notin> set (fst x)"
    and k: "is_prefix (l_prefix l) k" "entry_of (l_prefix l) (l_delimiter l) k = Roll cp" "cp \<noteq> l_marker_key l" "l_marker_key l \<le> k"
    and nff: "CHR 0xFF \<notin> set k"
  shows "list_rest l I cp = entries_of l (from_key (cp @ [CHR 0xFF]) True I)"
proof -
  let ?p = "l_prefix l" and ?d = "l_delimiter l" and ?bound = "cp @ [CHR 0xFF]"
  let ?K = "from_key cp True I"
  have srt: "sorted_wrt (<) (map fst ?K)" using keys_sorted_filter [OF I] unfolding from_key_def keys_sorted_map by blast
  have ne: "?bound \<notin> set (map fst ?K)"
  proof
    assume "?bound \<in> set (map fst ?K)"
    then obtain x where "x \<in> set I" "fst x = ?bound" by (auto simp: from_key_def)
    then show False using ff by (metis in_set_conv_decomp append_Nil2)
  qed
  have split: "map fst ?K = filter (\<lambda>x. x < ?bound) (map fst ?K) @ filter (\<lambda>x. ?bound < x) (map fst ?K)" by (rule sorted_split [OF srt ne])
  have cpend: "cp < ?bound" by (metis is_prefix_le is_prefix_iff less_le append_self_conv not_Cons_self2)
  have kend: "k < ?bound" using group_keys [OF d k(2,1) nff] k(1,2) by simp
  obtain c where dc: "?d = [c]" using d k(2) by (cases "?d") (auto simp: entry_of_def)
  from entry_of_RollD [OF k(2) [unfolded dc] k(1)] obtain u v where c: "c \<notin> set u" and cp: "cp = ?p @ u @ [c]" by blast
  have in_group: "is_prefix ?p x \<and> entry_of ?p ?d x = Roll cp" if "cp < x" "x < ?bound" for x
  proof -
    have "is_prefix cp x" using is_prefix_convex [of cp x ?bound] that by (auto simp: is_prefix_iff)
    then show ?thesis using entry_of_Roll_intro [OF c, of ?p x] cp dc by (auto simp: is_prefix_iff)
  qed
  have "raw_entries ?p ?d cp (filter (\<lambda>x. x < ?bound) (map fst ?K)) = []"
    using in_group by (auto simp: raw_entries_def filter_empty_conv from_key_def)
  then have "list_rest l I cp = list_entries ?p ?d cp (filter (\<lambda>x. ?bound < x) (map fst ?K))"
    unfolding list_rest_def list_entries_def by (subst split) (simp add: raw_entries_append)
  also have "filter (\<lambda>x. ?bound < x) (map fst ?K) = map fst (from_key ?bound True I)"
    using cpend by (auto simp: from_key_def filter_map o_def intro!: arg_cong [where f = "map fst"] filter_cong)
  also have "list_entries ?p ?d cp (map fst (from_key ?bound True I)) = entries_of l (from_key ?bound True I)"
  proof (rule list_entries_marker, intro ballI impI conjI)
    fix x assume x: "x \<in> set (map fst (from_key ?bound True I))" "is_prefix ?p x"
    then have gt: "?bound < x" by (auto simp: from_key_def)
    have kx: "k \<le> x" using kend gt by simp
    show "entry_of ?p ?d x \<noteq> Roll cp"
    proof
      assume "entry_of ?p ?d x = Roll cp"
      then have "x < ?bound" using group_keys [OF d k(2,1) _ kx] x ff by (auto simp: from_key_def)
      then show False using gt by simp
    qed
    show "entry_of ?p ?d x \<noteq> Roll (l_marker_key l)"
      using Roll_between [OF d _ x(2) k(4) kx] k(2,3) by auto
  qed
  finally show ?thesis .
qed

section \<open>The states of a listing\<close>

definition list_calm :: "list_env \<Rightarrow> bool" where
  "list_calm e \<longleftrightarrow> client_connected (le_act e) \<and> \<not> is_s3_shutting_down (le_act e) \<and> s3_client_read_error (le_act e) = [] \<and> le_fetch_count e \<noteq> 0"

definition serving :: "S3BucketMetadata \<Rightarrow> list_action \<Rightarrow> bool" where
  "serving b l \<longleftrightarrow> l_bucket l = Some b \<and> non_zero (oid (object_list_index_layout b)) \<and> l_max_keys l \<noteq> 0
     \<and> \<not> is_response_scheduled (l_act l) \<and> \<not> is_error_state (l_act l) \<and> l_reader l \<noteq> Some R_failed_e2big
     \<and> \<not> (l_prefix l \<noteq> [] \<and> l_marker_key l = [] \<and> l_first_next_keyval_call l) \<and> \<not> lr_response_is_truncated (l_object_list l)"

text \<open>A truncated response names the marker with which the listing goes on.\<close>

definition answered :: "list_env \<Rightarrow> S3BucketMetadata \<Rightarrow> (string, string) std_map \<Rightarrow> list_entry list \<Rightarrow> list_action \<Rightarrow> list_result \<Rightarrow> bool" where
  "answered e b I T l r \<longleftrightarrow>
     (\<exists>l0. snd r = [L_base (Respond_status 200 (snd (list_success_reply e b l0))), L_base (Engine Finished)]
       \<and> l_object_list (fst r) = fst (list_success_reply e b l0)
       \<and> holds (l_object_list l0) (take (unat (l_max_keys l)) T) \<and> lr_v2 (l_object_list l0) = lr_v2 (l_object_list l)
       \<and> l_request l0 = l_request l \<and> lr_encoding_type (l_object_list l0) = lr_encoding_type (l_object_list l)
       \<and> (lr_response_is_truncated (l_object_list l0) \<longrightarrow>
            (\<exists>nm. lr_next_marker_key (l_object_list l0) = get_response_format_key_value (le_lib e) (l_object_list l0) nm
               \<and> list_rest l I nm = drop (unat (l_max_keys l)) T)))"

lemma send_answers:
  assumes "serving b l" "holds (l_object_list l0) (take (unat (l_max_keys l)) T)" "l_act l0 = l_act l" "l_bucket l0 = Some b" "l_fetch_successful l0"
    "lr_v2 (l_object_list l0) = lr_v2 (l_object_list l)" "l_request l0 = l_request l" "lr_encoding_type (l_object_list l0) = lr_encoding_type (l_object_list l)"
    "lr_response_is_truncated (l_object_list l0) \<Longrightarrow>
       \<exists>nm. lr_next_marker_key (l_object_list l0) = get_response_format_key_value (le_lib e) (l_object_list l0) nm
          \<and> list_rest l I nm = drop (unat (l_max_keys l)) T"
  shows "\<exists>r. list_send_response e l0 = Some r \<and> answered e b I T l r"
proof -
  have "list_send_response e l0 =
      Some ((l0\<lparr>l_object_list := fst (list_success_reply e b l0), l_act := fst (action_done (l_act l))\<rparr>),
        [L_base (Respond_status 200 (snd (list_success_reply e b l0))), L_base (Engine Finished)])"
    using assms(1,3-5) by (simp add: list_send_response_def serving_def reject_if_shutting_down_def split_def list_done_def
        list_engine_def action_done_def Let_def)
  then show ?thesis using assms(2,6-9) by (auto simp: answered_def intro!: exI [of _ l0])
qed

lemma holds_keys_only:
  "lr_object_list r' = lr_object_list r \<Longrightarrow> lr_common_prefixes r' = lr_common_prefixes r \<Longrightarrow> holds r' E = holds r E"
  by (simp add: holds_def get_keys_def)

lemma get_next_reads:
  assumes "serving b l" "list_calm e"
  shows "do_get_next_objects e l = Some (l\<lparr>l_max_record_count := le_fetch_count e, l_reader := Some (case l_reader l of None \<Rightarrow> R_empty | Some s \<Rightarrow> s)\<rparr>,
     [L_next_keyval (object_list_index_layout b) (l_last_key l) (le_fetch_count e) True])"
  using assms by (auto simp: do_get_next_objects_def serving_def list_calm_def next_record_count_def Let_def)

text \<open>A read that is under way: a batch of the listing, or the question whether keys are left.\<close>

definition same_query :: "list_action \<Rightarrow> list_action \<Rightarrow> bool" where
  "same_query l l' \<longleftrightarrow> l_prefix l' = l_prefix l \<and> l_delimiter l' = l_delimiter l \<and> l_marker_key l' = l_marker_key l
     \<and> l_max_keys l' = l_max_keys l \<and> l_request l' = l_request l \<and> lr_v2 (l_object_list l') = lr_v2 (l_object_list l)
     \<and> lr_encoding_type (l_object_list l') = lr_encoding_type (l_object_list l)"

definition reading :: "list_env \<Rightarrow> S3BucketMetadata \<Rightarrow> (string, string) std_map \<Rightarrow> list_entry list \<Rightarrow> string \<Rightarrow> bool \<Rightarrow> list_action \<Rightarrow> bool" where
  "reading e b I T k ex l \<longleftrightarrow> serving b l \<and> l_max_record_count l = le_fetch_count e \<and> \<not> l_check_any_more_keys l
     \<and> (\<exists>E. holds (l_object_list l) E \<and> length E < unat (l_max_keys l) \<and> E @ entries_of l (from_key k ex I) = T)
     \<and> (\<forall>x\<in>set (from_key k ex I). l_marker_key l \<le> fst x)"

definition asking_more :: "list_env \<Rightarrow> S3BucketMetadata \<Rightarrow> (string, string) std_map \<Rightarrow> list_entry list \<Rightarrow> list_action \<Rightarrow> bool" where
  "asking_more e b I T l \<longleftrightarrow> serving b l \<and> l_check_any_more_keys l \<and> holds (l_object_list l) (take (unat (l_max_keys l)) T)
     \<and> list_rest l I (l_saved_last_key l) = drop (unat (l_max_keys l)) T"

lemma answered_query: "same_query l l' \<Longrightarrow> answered e b I T l' r = answered e b I T l r"
  by (simp add: same_query_def answered_def list_rest_def)

lemma asking_answers:
  assumes "asking_more e b I T l" "list_calm e"
  shows "\<exists>r. list_handle e (index_answer I k c ex) l = Some r \<and> answered e b I T l r"
proof -
  have l: "serving b l" "l_check_any_more_keys l" "holds (l_object_list l) (take (unat (l_max_keys l)) T)"
    "list_rest l I (l_saved_last_key l) = drop (unat (l_max_keys l)) T" using assms(1) by (auto simp: asking_more_def)
  show ?thesis
  proof (cases "take (unat c) (from_key k ex I) = []")
    case True
    let ?l = "l\<lparr>l_reader := Some R_missing, l_check_any_more_keys := False, l_fetch_successful := True,
                l_object_list := set_key_count (l_key_Count l) (l_object_list l)\<rparr>"
    have "list_handle e (index_answer I k c ex) l = list_send_response e ?l"
      using True by (simp add: index_answer_def get_next_objects_failed_def Let_def)
    moreover have "\<exists>r. list_send_response e ?l = Some r \<and> answered e b I T l r"
      using l(1,3) by (intro send_answers) (auto simp: serving_def set_key_count_def holds_def get_keys_def)
    ultimately show ?thesis by simp
  next
    case False
    define kvs where "kvs = take (unat c) (from_key k ex I)"
    let ?l = "l\<lparr>l_reader := Some R_present, l_retry_count := 0\<rparr>"
    define r where "r = (if kvs \<noteq> [] \<and> (l_prefix l = [] \<or> str_find (l_prefix l) (fst (hd kvs)) \<noteq> None)
        then set_next_marker_key (le_lib e) (l_saved_last_key l) True (set_response_is_truncated True (l_object_list l)) else l_object_list l)"
    let ?fin = "?l\<lparr>l_check_any_more_keys := False, l_fetch_successful := True, l_object_list := set_key_count (l_key_Count l) r\<rparr>"
    have "list_handle e (index_answer I k c ex) l = get_next_objects_successful e kvs l"
      using False by (simp add: index_answer_def kvs_def)
    also have "\<dots> = any_more_keys e kvs ?l"
      using l(2) assms(2) by (simp add: get_next_objects_successful_def list_calm_def check_shutdown_and_rollback_def)
    also have "\<dots> = list_send_response e ?fin" by (simp add: any_more_keys_def r_def Let_def)
    finally have handle: "list_handle e (index_answer I k c ex) l = list_send_response e ?fin" .
    have "\<exists>r. list_send_response e ?fin = Some r \<and> answered e b I T l r"
    proof (rule send_answers [OF l(1)])
      show "holds (l_object_list ?fin) (take (unat (l_max_keys l)) T)"
        using l(3) by (simp add: r_def set_key_count_def set_next_marker_key_def set_response_is_truncated_def holds_def get_keys_def)
      show "\<exists>nm. lr_next_marker_key (l_object_list ?fin) = get_response_format_key_value (le_lib e) (l_object_list ?fin) nm
          \<and> list_rest l I nm = drop (unat (l_max_keys l)) T" if "lr_response_is_truncated (l_object_list ?fin)"
        using that l(1,4) by (intro exI [of _ "l_saved_last_key l"])
          (auto simp: r_def set_key_count_def set_next_marker_key_def set_response_is_truncated_def get_response_format_key_value_def
            serving_def split: if_splits)
    qed (use l(1) in \<open>auto simp: serving_def r_def set_key_count_def set_next_marker_key_def set_response_is_truncated_def\<close>)
    then show ?thesis using handle by simp
  qed
qed

lemma scan_body_keeps:
  "scan_body e l k v s = Some (s1, stop) \<Longrightarrow>
     lr_response_is_truncated (sc_list s1) = lr_response_is_truncated (sc_list s) \<and> lr_v2 (sc_list s1) = lr_v2 (sc_list s)
     \<and> lr_encoding_type (sc_list s1) = lr_encoding_type (sc_list s)"
  by (auto simp: scan_body_def add_listed_def end_of_pass_def roll_up_def stop_scan_def add_object_def add_common_prefix_def Let_def
      split: if_splits option.splits)

lemma scan_keys_keeps:
  "scan_keys e l kvs s = Some s' \<Longrightarrow>
     lr_response_is_truncated (sc_list s') = lr_response_is_truncated (sc_list s) \<and> lr_v2 (sc_list s') = lr_v2 (sc_list s)
     \<and> lr_encoding_type (sc_list s') = lr_encoding_type (sc_list s)"
proof (induction kvs arbitrary: s)
  case (Cons kv kvs)
  obtain k v where kv: "kv = (k, v)" by force
  from Cons.prems obtain s1 stop where step: "scan_key e l kv s = Some (s1, stop)"
    and rest: "if stop then s' = s1 else scan_keys e l kvs s1 = Some s'" by (auto split: option.splits if_splits)
  have "lr_response_is_truncated (sc_list s1) = lr_response_is_truncated (sc_list s) \<and> lr_v2 (sc_list s1) = lr_v2 (sc_list s)
     \<and> lr_encoding_type (sc_list s1) = lr_encoding_type (sc_list s)"
    using step scan_body_keeps [of e l k v s s1 stop]
      scan_body_keeps [of e l k v "s\<lparr>sc_in_common_prefix := False, sc_last_common_prefix := []\<rparr>" s1 stop] kv
    by (auto simp: scan_key_def stop_scan_def Let_def split: if_splits)
  then show ?case using rest Cons.IH [of s1] by (auto split: if_splits)
qed simp

text \<open>What the listing assumes of the index and of the request.\<close>

definition list_setting :: "list_env \<Rightarrow> (string, string) std_map \<Rightarrow> list_action \<Rightarrow> bool" where
  "list_setting e I l \<longleftrightarrow> map_wf I \<and> length I < 2 ^ 31 \<and> (\<forall>x\<in>set I. CHR 0xFF \<notin> set (fst x)) \<and> readable e l I
     \<and> length (l_delimiter l) \<le> 1 \<and> list_calm e"

lemma finish_answers:
  assumes "serving b l" "same_query l l1" "holds (l_object_list l1) (take (unat (l_max_keys l)) T)" "l_act l1 = l_act l" "l_bucket l1 = Some b"
    "lr_response_is_truncated (l_object_list l1) \<Longrightarrow>
       \<exists>nm. lr_next_marker_key (l_object_list l1) = get_response_format_key_value (le_lib e) (l_object_list l1) nm
          \<and> list_rest l I nm = drop (unat (l_max_keys l)) T"
  shows "\<exists>r. finish_listing e l1 = Some r \<and> answered e b I T l r"
  unfolding finish_listing_def using assms
  by (intro send_answers) (auto simp: set_key_count_def holds_def get_keys_def same_query_def get_response_format_key_value_def)

definition goes_on_reading :: "list_env \<Rightarrow> S3BucketMetadata \<Rightarrow> (string, string) std_map \<Rightarrow> list_entry list \<Rightarrow> nat \<Rightarrow> list_action \<Rightarrow> list_result \<Rightarrow> bool" where
  "goes_on_reading e b I T n l r \<longleftrightarrow>
     (\<exists>k. snd r = [L_next_keyval (object_list_index_layout b) k (le_fetch_count e) True] \<and> same_query l (fst r)
       \<and> (reading e b I T k True (fst r) \<and> length (from_key k True I) < n \<or> asking_more e b I T (fst r)))"

text \<open>The next batch is read behind the last key.\<close>

lemma reads_behind:
  assumes l1: "serving b l1" "same_query l l1" "\<not> l_check_any_more_keys l1" "list_calm e"
    and E: "holds (l_object_list l1) E" "length E < unat (l_max_keys l)" "E @ entries_of l (from_key (l_last_key l1) True I) = T"
    and m: "l_marker_key l \<le> l_last_key l1"
  shows "\<exists>l'. do_get_next_objects e l1 = Some (l', [L_next_keyval (object_list_index_layout b) (l_last_key l1) (le_fetch_count e) True])
     \<and> same_query l l' \<and> reading e b I T (l_last_key l1) True l'"
proof -
  let ?l = "l1\<lparr>l_max_record_count := le_fetch_count e, l_reader := Some (case l_reader l1 of None \<Rightarrow> R_empty | Some s \<Rightarrow> s)\<rparr>"
  have srv: "serving b ?l" using l1(1) by (auto simp: serving_def split: option.splits)
  have marker: "\<forall>x\<in>set (from_key (l_last_key l1) True I). l_marker_key l \<le> fst x" using m by (auto simp: from_key_def)
  have "reading e b I T (l_last_key l1) True ?l"
    using srv E l1(2,3) marker by (auto simp: reading_def same_query_def)
  then show ?thesis
    using get_next_reads [OF l1(1,4)] l1(2) by (auto simp: same_query_def)
qed

lemma reads_on:
  assumes l1: "serving b l1" "same_query l l1" "\<not> l_check_any_more_keys l1" "list_calm e"
    and E: "holds (l_object_list l1) E" "length E < unat (l_max_keys l)" "E @ entries_of l (from_key (l_last_key l1) True I) = T"
    and m: "l_marker_key l \<le> l_last_key l1" and n: "length (from_key (l_last_key l1) True I) < n"
  shows "\<exists>r. do_get_next_objects e l1 = Some r \<and> goes_on_reading e b I T n l r"
  using reads_behind [OF l1 E m] n by (auto simp: goes_on_reading_def)

lemma asks_more:
  assumes l1: "serving b l1" "same_query l l1" "l_check_any_more_keys l1" "list_calm e"
    and E: "holds (l_object_list l1) (take (unat (l_max_keys l)) T)" "list_rest l I (l_saved_last_key l1) = drop (unat (l_max_keys l)) T"
  shows "\<exists>r. do_get_next_objects e l1 = Some r \<and> goes_on_reading e b I T n l r"
proof -
  let ?l = "l1\<lparr>l_max_record_count := le_fetch_count e, l_reader := Some (case l_reader l1 of None \<Rightarrow> R_empty | Some s \<Rightarrow> s)\<rparr>"
  have srv: "serving b ?l" using l1(1) by (auto simp: serving_def split: option.splits)
  then have "asking_more e b I T ?l" using E l1(2,3) by (auto simp: asking_more_def same_query_def list_rest_def)
  then show ?thesis
    using get_next_reads [OF l1(1,4)] l1(2) by (auto simp: goes_on_reading_def same_query_def)
qed

text \<open>A batch was read up to \<open>zs\<close>, the rest of the keys \<open>K\<close>; the entries so far are \<open>F\<close>.\<close>

definition batch_at :: "list_env \<Rightarrow> S3BucketMetadata \<Rightarrow> (string, string) std_map \<Rightarrow> list_entry list \<Rightarrow> list_action
    \<Rightarrow> (string \<times> string) list \<Rightarrow> (string \<times> string) list \<Rightarrow> (string \<times> string) list \<Rightarrow> list_entry list \<Rightarrow> scan \<Rightarrow> list_action \<Rightarrow> bool" where
  "batch_at e b I T l K xs zs F s l1 \<longleftrightarrow>
     list_setting e I l \<and> serving b l \<and> serving b l1 \<and> same_query l l1 \<and> \<not> l_check_any_more_keys l1
     \<and> l_max_record_count l1 = le_fetch_count e \<and> l_act l1 = l_act l \<and> (\<exists>k ex. K = from_key k ex I) \<and> K = xs @ zs
     \<and> (\<forall>x\<in>set K. l_marker_key l \<le> fst x) \<and> holds (sc_list s) F \<and> length F \<le> unat (l_max_keys l) \<and> length F < 2 ^ 32
     \<and> (\<exists>E. F = E @ raw_of l xs \<and> E @ entries_of l K = T)
     \<and> \<not> lr_response_is_truncated (sc_list s) \<and> lr_v2 (sc_list s) = lr_v2 (l_object_list l)
     \<and> lr_encoding_type (sc_list s) = lr_encoding_type (l_object_list l)"

definition scanned :: "scan \<Rightarrow> list_action \<Rightarrow> list_action" where
  "scanned s l = l\<lparr>l_object_list := sc_list s, l_last_key := sc_last_key s, l_key_Count := list_count (sc_list s)\<rparr>"

lemma batch_facts:
  assumes "batch_at e b I T l K xs zs F s l1"
  shows "keys_sorted I" "length (l_delimiter l) \<le> 1" "\<forall>x\<in>set I. CHR 0xFF \<notin> set (fst x)" "list_calm e" "serving b l"
    "keys_sorted (xs @ zs)" "set (xs @ zs) \<subseteq> set I" "serving b (scanned s l1)" "same_query l (scanned s l1)" "\<not> l_check_any_more_keys (scanned s l1)"
    "list_count (sc_list s) = l_max_keys l1 \<longleftrightarrow> length F = unat (l_max_keys l)"
proof -
  from assms obtain k ex where K: "K = from_key k ex I" "K = xs @ zs" unfolding batch_at_def by blast
  show I: "keys_sorted I" using assms by (simp add: batch_at_def list_setting_def map_wf_def sorted_wrt_map)
  have "keys_sorted K" unfolding K(1) from_key_def by (rule keys_sorted_filter [OF I])
  then show "keys_sorted (xs @ zs)" by (simp only: K(2))
  show "set (xs @ zs) \<subseteq> set I" using K by (metis filter_is_subset from_key_def)
  show "list_count (sc_list s) = l_max_keys l1 \<longleftrightarrow> length F = unat (l_max_keys l)"
    using assms holds_full [of "sc_list s" F "l_max_keys l1"] by (simp add: batch_at_def same_query_def)
qed (use assms in \<open>auto simp: batch_at_def list_setting_def serving_def same_query_def scanned_def\<close>)

lemma batch_rest:
  assumes "batch_at e b I T l K xs zs F s l1" "xs \<noteq> []" "fst (last xs) \<le> y"
  shows "from_key y True I = filter (\<lambda>x. y < fst x) zs"
proof -
  from assms(1) obtain k ex where "K = from_key k ex I" "K = xs @ zs" unfolding batch_at_def by blast
  then have "from_key k ex I = xs @ zs" by simp
  from keys_behind [OF batch_facts(1) [OF assms(1)] this assms(2,3)] show ?thesis by (simp add: from_key_def)
qed

text \<open>What follows, for each way in which the loop over the batch ends: at a group,\<close>

lemma after_group:
  assumes at: "batch_at e b I T l K xs zs F s l1" and skip: "sc_skip_remaining s" "sc_length s \<noteq> 0" "\<not> sc_no_further_match s"
    and xs: "xs = ws @ [(k, v)]" "no_groups l ws" and k: "is_prefix (l_prefix l) k" "entry_of (l_prefix l) (l_delimiter l) k = Roll cp"
    and last: "sc_last_key s = cp @ [CHR 0xFF]"
    and cp: "if cp = l_marker_key l then length F < unat (l_max_keys l) else sc_in_common_prefix s \<and> sc_last_common_prefix s = cp"
  shows "\<exists>r. after_scan e bs s l1 = Some r \<and> goes_on_reading e b I T (length K) l r"
proof -
  note I = batch_facts(1) [OF at] and d = batch_facts(2) [OF at] and ff = batch_facts(3) [OF at] and calm = batch_facts(4) [OF at]
    and srt = batch_facts(6) [OF at] and sub = batch_facts(7) [OF at] and l2 = batch_facts(8-10) [OF at] and full = batch_facts(11) [OF at]
  have kff: "CHR 0xFF \<notin> set k" using ff sub xs(1) by auto
  have kend: "k < cp @ [CHR 0xFF]" using group_keys [OF d k(2,1) kff] k by simp
  have mk: "l_marker_key l \<le> k" using at xs(1) by (auto simp: batch_at_def)
  have rest: "from_key (cp @ [CHR 0xFF]) True I = filter (\<lambda>x. cp @ [CHR 0xFF] < fst x) zs"
    using batch_rest [OF at, of "cp @ [CHR 0xFF]"] xs(1) kend by simp
  have K: "K = ws @ (k, v) # zs" using at xs(1) by (simp add: batch_at_def)
  have srt': "keys_sorted (ws @ (k, v) # zs)" using srt xs(1) by simp
  have ff': "\<forall>x\<in>set zs. CHR 0xFF \<notin> set (fst x)" using ff sub by auto
  have "entries_of l K = raw_of l xs @ entries_of l (filter (\<lambda>x. cp @ [CHR 0xFF] < fst x) zs)"
    unfolding K xs(1) by (rule entries_of_group [OF d xs(2) srt' ff' k])
  then have T: "F @ entries_of l (from_key (cp @ [CHR 0xFF]) True I) = T" using at rest by (auto simp: batch_at_def)
  have h: "holds (sc_list s) F" and len: "length F \<le> unat (l_max_keys l)" using at by (auto simp: batch_at_def)
  show ?thesis
  proof (cases "length F = unat (l_max_keys l)")
    case True
    then have cp': "cp \<noteq> l_marker_key l" "sc_in_common_prefix s" "sc_last_common_prefix s = cp" using cp by (auto split: if_splits)
    let ?m = "(scanned s l1)\<lparr>l_check_any_more_keys := True, l_saved_last_key := cp\<rparr>"
    have "after_scan e bs s l1 = do_get_next_objects e ?m" using True full skip cp' by (simp add: after_scan_def scanned_def Let_def)
    moreover have "take (unat (l_max_keys l)) T = F" "list_rest l I cp = drop (unat (l_max_keys l)) T"
      using rest_after_group [OF d I ff k cp'(1) mk kff] T True by auto
    then have "\<exists>r. do_get_next_objects e ?m = Some r \<and> goes_on_reading e b I T (length K) l r"
      using l2 h by (intro asks_more [OF _ _ _ calm]) (auto simp: serving_def same_query_def scanned_def)
    ultimately show ?thesis by simp
  next
    case False
    have "length (from_key (cp @ [CHR 0xFF]) True I) \<le> length zs" unfolding rest by (rule length_filter_le)
    then have "length (from_key (cp @ [CHR 0xFF]) True I) < length K" using at xs(1) by (simp add: batch_at_def)
    moreover have "after_scan e bs s l1 = do_get_next_objects e (scanned s l1)" using full False skip by (simp add: after_scan_def scanned_def Let_def)
    ultimately show ?thesis
      using reads_on [OF l2 calm, of F I T] h len False T last mk kend by (simp add: scanned_def)
  qed
qed

text \<open>behind the keys with the prefix,\<close>

lemma after_last_match:
  assumes at: "batch_at e b I T l K xs zs F s l1" and no: "no_groups l xs" and fin: "sc_no_further_match s" "sc_length s = 0" "zs \<noteq> []"
      "l_prefix l < fst (hd zs)" "\<not> is_prefix (l_prefix l) (fst (hd zs))"
  shows "\<exists>r. after_scan e bs s l1 = Some r \<and> answered e b I T l r"
proof -
  have "entries_of l zs = []" using entries_of_none [of zs l] fin(3-5) batch_facts(6) [OF at] by (simp add: sorted_wrt_append)
  then have "take (unat (l_max_keys l)) T = F" using entries_of_keys [OF no batch_facts(6) [OF at]] at by (auto simp: batch_at_def)
  moreover have "after_scan e bs s l1 = finish_listing e (scanned s l1)" using fin(1,2) by (simp add: after_scan_def scanned_def Let_def)
  ultimately show ?thesis
    using at finish_answers [OF batch_facts(5) [OF at] batch_facts(9) [OF at], of T e I] by (auto simp: batch_at_def scanned_def serving_def)
qed

text \<open>with a full listing inside the batch,\<close>

lemma after_full:
  assumes at: "batch_at e b I T l K xs zs F s l1" and no: "no_groups l xs" and xs: "xs \<noteq> []" "sc_last_key s = fst (last xs)"
    and full: "length F = unat (l_max_keys l)" "sc_length s \<noteq> 0" "\<not> sc_skip_remaining s" "\<not> sc_in_common_prefix s"
  shows "\<exists>r. after_scan e bs s l1 = Some r \<and> answered e b I T l r"
proof -
  let ?k = "fst (last xs)"
  let ?t = "(scanned s l1)\<lparr>l_last_key := ?k, l_object_list := set_next_marker_key (le_lib e) ?k True (set_response_is_truncated True (sc_list s))\<rparr>"
  have in_xs: "last xs \<in> set xs" using xs(1) by simp
  have rest: "from_key ?k True I = zs"
    using batch_rest [OF at xs(1), of ?k] batch_facts(6) [OF at] in_xs by (auto simp: filter_id_conv sorted_wrt_append)
  have T: "F @ entries_of l zs = T" using entries_of_keys [OF no batch_facts(6) [OF at]] at by (auto simp: batch_at_def)
  have "is_prefix (l_prefix l) ?k \<longrightarrow> entry_of (l_prefix l) (l_delimiter l) ?k = Key ?k" using no in_xs by (auto simp: no_groups_def)
  moreover have "l_marker_key l \<le> ?k" using at in_xs by (auto simp: batch_at_def)
  ultimately have page: "list_rest l I ?k = drop (unat (l_max_keys l)) T"
    using rest_after_key [OF batch_facts(2) [OF at], of ?k I] rest T full(1) by auto
  have "after_scan e bs s l1 = finish_listing e ?t" using batch_facts(11) [OF at] full xs(2) by (simp add: after_scan_def scanned_def Let_def)
  moreover have "\<exists>r. finish_listing e ?t = Some r \<and> answered e b I T l r"
  proof (rule finish_answers [OF batch_facts(5) [OF at]])
    show "\<exists>nm. lr_next_marker_key (l_object_list ?t) = get_response_format_key_value (le_lib e) (l_object_list ?t) nm
        \<and> list_rest l I nm = drop (unat (l_max_keys l)) T"
      using page by (intro exI [of _ ?k]) (simp add: set_next_marker_key_def set_response_is_truncated_def get_response_format_key_value_def)
    have "take (unat (l_max_keys l)) T = F" using T full(1) by auto
    then show "holds (l_object_list ?t) (take (unat (l_max_keys l)) T)"
      using at by (simp add: batch_at_def set_next_marker_key_def set_response_is_truncated_def holds_def get_keys_def)
  qed (use at in \<open>auto simp: batch_at_def scanned_def serving_def same_query_def set_next_marker_key_def set_response_is_truncated_def\<close>)
  ultimately show ?thesis by simp
qed

text \<open>or at the end of the batch.\<close>

lemma whole_batch_reads:
  assumes at: "batch_at e b I T l K bs us F s l1" and no: "no_groups l bs" and bs: "bs \<noteq> []" "sc_last_key s = fst (last bs)"
    and fin: "sc_length s = 0" "\<not> sc_skip_remaining s" "\<not> sc_no_further_match s"
    and more: "length F \<noteq> unat (l_max_keys l)" "length bs = unat (le_fetch_count e)"
  shows "\<exists>l'. after_scan e bs s l1 = Some (l', [L_next_keyval (object_list_index_layout b) (fst (last bs)) (le_fetch_count e) True])
     \<and> same_query l l' \<and> reading e b I T (fst (last bs)) True l' \<and> from_key (fst (last bs)) True I = us"
proof -
  let ?k = "fst (last bs)"
  have in_bs: "last bs \<in> set bs" using bs(1) by simp
  have rest: "from_key ?k True I = us"
    using batch_rest [OF at bs(1), of ?k] batch_facts(6) [OF at] in_bs by (auto simp: filter_id_conv sorted_wrt_append)
  have T: "F @ entries_of l us = T" using entries_of_keys [OF no batch_facts(6) [OF at]] at by (auto simp: batch_at_def)
  have h: "holds (sc_list s) F" "length F \<le> unat (l_max_keys l)" and mk: "l_marker_key l \<le> ?k"
    and cnt: "l_max_record_count l1 = le_fetch_count e" using at in_bs by (auto simp: batch_at_def)
  have "unat (of_nat (length bs) :: size_t) = length bs" by (simp add: more(2))
  then have "after_scan e bs s l1 = do_get_next_objects e (scanned s l1)"
    using batch_facts(11) [OF at] more cnt fin by (simp add: after_scan_def scanned_def Let_def word_less_nat_alt)
  then show ?thesis
    using reads_behind [OF batch_facts(8-10) [OF at] batch_facts(4) [OF at], of F I T] h more(1) T rest bs(2) mk by (simp add: scanned_def)
qed

lemma after_whole_batch:
  assumes at: "batch_at e b I T l K bs us F s l1" and no: "no_groups l bs" and bs: "bs \<noteq> []" "sc_last_key s = fst (last bs)" "bs = take (unat (le_fetch_count e)) K"
    and fin: "sc_length s = 0" "\<not> sc_skip_remaining s" "\<not> sc_no_further_match s"
  shows "\<exists>r. after_scan e bs s l1 = Some r \<and> (answered e b I T l r \<or> goes_on_reading e b I T (length K) l r)"
proof -
  let ?k = "fst (last bs)"
  have in_bs: "last bs \<in> set bs" using bs(1) by simp
  have rest: "from_key ?k True I = us"
    using batch_rest [OF at bs(1), of ?k] batch_facts(6) [OF at] in_bs by (auto simp: filter_id_conv sorted_wrt_append)
  have T: "F @ entries_of l us = T" using entries_of_keys [OF no batch_facts(6) [OF at]] at by (auto simp: batch_at_def)
  have K: "K = bs @ us" and h: "length F \<le> unat (l_max_keys l)"
    and cnt: "l_max_record_count l1 = le_fetch_count e" using at by (auto simp: batch_at_def)
  have fin': "\<exists>r. finish_listing e (scanned s l1) = Some r \<and> answered e b I T l r" if "take (unat (l_max_keys l)) T = F"
    using at that finish_answers [OF batch_facts(5) [OF at] batch_facts(9) [OF at], of T e I] by (auto simp: batch_at_def scanned_def serving_def)
  have bound: "length bs \<le> unat (le_fetch_count e)" using bs(3) by (metis length_take min.cobounded2)
  then have nat: "unat (of_nat (length bs) :: size_t) = length bs"
    using order.strict_trans1 [OF bound unsigned_less] by (simp add: unsigned_of_nat take_bit_nat_eq_self)
  consider "length F = unat (l_max_keys l)" | "length F \<noteq> unat (l_max_keys l)" "length bs < unat (le_fetch_count e)"
    | "length F \<noteq> unat (l_max_keys l)" "length bs = unat (le_fetch_count e)" using bound by linarith
  then show ?thesis
  proof cases
    case 1
    then have "after_scan e bs s l1 = finish_listing e (scanned s l1)" using batch_facts(11) [OF at] fin by (simp add: after_scan_def scanned_def Let_def)
    moreover have "take (unat (l_max_keys l)) T = F" using T 1 by auto
    ultimately show ?thesis using fin' by auto
  next
    case 2
    then have "us = []" using K bs(3) by (metis append_Nil2 length_append length_take list.size(3) min_def nat_less_le same_append_eq take_all)
    then have "take (unat (l_max_keys l)) T = F" using T h by (auto simp: list_entries_def raw_entries_def)
    moreover have "after_scan e bs s l1 = finish_listing e (scanned s l1)"
      using 2 nat cnt fin by (simp add: after_scan_def scanned_def Let_def word_less_nat_alt)
    ultimately show ?thesis using fin' by auto
  next
    case 3
    moreover have "length us < length K" using K bs(1) by simp
    ultimately show ?thesis
      using whole_batch_reads [OF at no bs(1,2) fin 3] by (auto simp: goes_on_reading_def)
  qed
qed

section \<open>A read and its answer\<close>

text \<open>What the entries of a listing have in common: each once, none the marker's own group.\<close>

definition entries_ok :: "(string, string) std_map \<Rightarrow> list_action \<Rightarrow> list_entry list \<Rightarrow> bool" where
  "entries_ok I l T \<longleftrightarrow> distinct T \<and> Roll (l_marker_key l) \<notin> set T \<and> length T \<le> length I"

lemma new_groups:
  assumes "distinct (E @ entries_of l K)" "Roll (l_marker_key l) \<notin> set E"
    and "(k, v) \<in> set K" "is_prefix (l_prefix l) k" "entry_of (l_prefix l) (l_delimiter l) k = Roll cp"
  shows "Roll cp \<notin> set E"
proof (cases "cp = l_marker_key l")
  case False
  then have "Roll cp \<in> set (entries_of l K)" using assms(3-5) by (force simp: list_entries_def raw_entries_def)
  then show ?thesis using assms(1) by auto
qed (use assms(2) in simp)

lemma after_any_scan:
  assumes at: "batch_at e b I T l K xs (ys @ us) F s l1" and bs: "xs @ ys = take (unat (le_fetch_count e)) K"
    and fin: "batch_end l (length F) xs ys s"
  shows "\<exists>r. after_scan e (xs @ ys) s l1 = Some r \<and> (answered e b I T l r \<or> goes_on_reading e b I T (length K) l r)"
proof (cases "sc_skip_remaining s")
  case True
  with fin obtain ws k v cp where g: "xs = ws @ [(k, v)]" "no_groups l ws" "is_prefix (l_prefix l) k"
      "entry_of (l_prefix l) (l_delimiter l) k = Roll cp" "sc_last_key s = cp @ [CHR 0xFF]" "sc_length s \<noteq> 0" "\<not> sc_no_further_match s"
      "if cp = l_marker_key l then length F < unat (l_max_keys l) else sc_in_common_prefix s \<and> sc_last_common_prefix s = cp"
    unfolding batch_end_def by auto
  from after_group [OF at True g(6,7,1-5,8)] show ?thesis by blast
next
  case False
  with fin have no: "no_groups l xs" "\<not> sc_in_common_prefix s" by (auto simp: batch_end_def)
  show ?thesis
  proof (cases "sc_no_further_match s")
    case True
    with fin False have "sc_length s = 0" "ys \<noteq> []" "l_prefix l < fst (hd ys)" "\<not> is_prefix (l_prefix l) (fst (hd ys))"
      by (auto simp: batch_end_def)
    then show ?thesis using after_last_match [OF at no(1) True, of "xs @ ys"] by auto
  next
    case nf: False
    with fin False have x: "xs \<noteq> []" "sc_last_key s = fst (last xs)" "sc_length s = length ys" "ys \<noteq> [] \<longrightarrow> length F = unat (l_max_keys l)"
      by (auto simp: batch_end_def)
    show ?thesis
    proof (cases "ys = []")
      case True
      then show ?thesis using after_whole_batch [of e b I T l K xs us F s l1] at no(1) x bs False nf by simp
    next
      case ys: False
      then show ?thesis using after_full [OF at no(1) x(1,2) _ _ False no(2), of "xs @ ys"] x(3,4) by auto
    qed
  qed
qed

lemma outcome_query: "same_query l l' \<Longrightarrow> scan_outcome l' = scan_outcome l"
  by (simp add: fun_eq_iff scan_outcome_def batch_end_def no_groups_def same_query_def)

text \<open>The loop over the batch that a read brings.\<close>

lemma batch_scanned:
  assumes rd: "reading e b I T k ex l" and st: "list_setting e I l" and ok: "entries_ok I l T"
    and K: "K = from_key k ex I" and bs: "bs = take (unat (le_fetch_count e)) K" "bs \<noteq> []"
  shows "\<exists>s xs ys E l1. list_handle e (index_answer I k (le_fetch_count e) ex) l = after_scan e bs s l1 \<and> bs = xs @ ys
     \<and> batch_at e b I T l K xs (ys @ drop (unat (le_fetch_count e)) K) (E @ raw_of l xs) s l1 \<and> batch_end l (length (E @ raw_of l xs)) xs ys s
     \<and> E @ entries_of l K = T"
proof -
  define us where "us = drop (unat (le_fetch_count e)) K"
  from rd obtain E where E: "holds (l_object_list l) E" "length E < unat (l_max_keys l)" "E @ entries_of l K = T" and srv: "serving b l"
    and mk: "\<forall>x\<in>set K. l_marker_key l \<le> fst x" and cnt: "l_max_record_count l = le_fetch_count e" "\<not> l_check_any_more_keys l"
    by (auto simp: reading_def K)
  have calm: "list_calm e" using st by (simp add: list_setting_def)
  let ?l = "l\<lparr>l_reader := Some R_present, l_retry_count := 0, l_total_keys_visited := l_total_keys_visited l + of_nat (length bs)\<rparr>"
  let ?s = "\<lparr>sc_list = l_object_list l, sc_last_key = l_last_key l, sc_length = length bs, sc_in_common_prefix = False,
              sc_last_common_prefix = [], sc_no_further_match = False, sc_skip_remaining = False, sc_json_error = False\<rparr>"
  have "index_answer I k (le_fetch_count e) ex = List_fetched bs" using bs K by (simp add: index_answer_def Let_def)
  then have handle: "list_handle e (index_answer I k (le_fetch_count e) ex) l = scan_keys e ?l bs ?s \<bind> (\<lambda>s. after_scan e bs s ?l)"
    using cnt calm by (simp add: get_next_objects_successful_def list_calm_def check_shutdown_and_rollback_def Let_def)
  have sub: "set bs \<subseteq> set K" "set K \<subseteq> set I" by (auto simp: bs(1) K from_key_def dest: in_set_takeD)
  have lens: "length E + length bs < 2 ^ 32"
  proof -
    have "length bs \<le> length K" by (simp add: bs(1))
    also have "length K \<le> length I" unfolding K from_key_def by (rule length_filter_le)
    finally have "length bs \<le> length I" .
    moreover have "length E \<le> length I" using ok E(3) by (auto simp: entries_ok_def)
    ultimately show ?thesis using st by (simp add: list_setting_def)
  qed
  have "\<exists>s'. scan_keys e ?l bs ?s = Some s' \<and> scan_outcome ?l E bs s'"
  proof (rule scan_keys_outcome [OF bs(2)])
    show "readable e ?l bs" using st sub by (auto simp: list_setting_def readable_def)
    show "\<forall>(k, v) \<in> set bs. \<forall>cp. is_prefix (l_prefix ?l) k \<and> entry_of (l_prefix ?l) (l_delimiter ?l) k = Roll cp \<longrightarrow> Roll cp \<notin> set E"
      using new_groups [of E l K] ok E(3) sub(1) by (auto simp: entries_ok_def)
  qed (use E(1,2) lens in auto)
  then obtain s' where s': "scan_keys e ?l bs ?s = Some s'" "scan_outcome ?l E bs s'" by blast
  have "same_query l ?l" by (simp add: same_query_def)
  then have "scan_outcome l E bs s'" using s'(2) outcome_query [of l ?l] by simp
  then obtain xs ys where o: "bs = xs @ ys" "holds (sc_list s') (E @ raw_of l xs)" "length (E @ raw_of l xs) \<le> unat (l_max_keys l)"
    "batch_end l (length (E @ raw_of l xs)) xs ys s'" unfolding scan_outcome_def by blast
  have "length (raw_of l xs) \<le> length bs"
    using o(1) by (auto simp: raw_entries_def intro!: le_trans [OF length_filter_le] trans_le_add1)
  then have lF: "length (E @ raw_of l xs) < 2 ^ 32" using lens by simp
  have KK: "K = xs @ (ys @ us)" using o(1) append_take_drop_id [of "unat (le_fetch_count e)" K] by (simp add: bs(1) us_def)
  have ex: "\<exists>k' ex'. K = from_key k' ex' I" unfolding K by blast
  have "batch_at e b I T l K xs (ys @ us) (E @ raw_of l xs) s' ?l"
    unfolding batch_at_def using st srv cnt KK ex mk o(2,3) lF E(3) scan_keys_keeps [OF s'(1)]
    by (auto simp: serving_def same_query_def)
  then show ?thesis
    unfolding handle s'(1) us_def using o(1,4) E(3)
    by (intro exI [of _ s'] exI [of _ xs] exI [of _ ys] exI [of _ E] exI [of _ ?l]) simp
qed

lemma empty_read_handled:
  assumes "reading e b I T k ex l" "list_calm e" "from_key k ex I = []"
  shows "\<exists>r. list_handle e (index_answer I k (le_fetch_count e) ex) l = Some r \<and> answered e b I T l r"
proof -
  from assms(1,3) obtain E where E: "holds (l_object_list l) E" "length E < unat (l_max_keys l)" "T = E" and srv: "serving b l"
    by (auto simp: reading_def list_entries_def raw_entries_def)
  let ?l = "l\<lparr>l_reader := Some R_missing, l_check_any_more_keys := False, l_fetch_successful := True,
              l_object_list := set_key_count (l_key_Count l) (l_object_list l)\<rparr>"
  have "list_handle e (index_answer I k (le_fetch_count e) ex) l = list_send_response e ?l"
    using assms(3) by (simp add: index_answer_def get_next_objects_failed_def Let_def)
  moreover have "\<exists>r. list_send_response e ?l = Some r \<and> answered e b I T l r"
    using srv E by (intro send_answers) (auto simp: serving_def set_key_count_def holds_def get_keys_def)
  ultimately show ?thesis by auto
qed

lemma reading_handled:
  assumes rd: "reading e b I T k ex l" and st: "list_setting e I l" and ok: "entries_ok I l T"
  shows "\<exists>r. list_handle e (index_answer I k (le_fetch_count e) ex) l = Some r
     \<and> (answered e b I T l r \<or> goes_on_reading e b I T (length (from_key k ex I)) l r)"
proof (cases "from_key k ex I = []")
  case True
  then show ?thesis using empty_read_handled [OF rd] st by (auto simp: list_setting_def)
next
  case False
  define bs where "bs = take (unat (le_fetch_count e)) (from_key k ex I)"
  have "bs \<noteq> []" using False st by (simp add: bs_def list_setting_def list_calm_def unat_eq_0)
  from batch_scanned [OF rd st ok refl bs_def this] obtain s xs ys E l1 where
    h: "list_handle e (index_answer I k (le_fetch_count e) ex) l = after_scan e bs s l1" and b: "bs = xs @ ys"
    and at: "batch_at e b I T l (from_key k ex I) xs (ys @ drop (unat (le_fetch_count e)) (from_key k ex I)) (E @ raw_of l xs) s l1"
      "batch_end l (length (E @ raw_of l xs)) xs ys s" by blast
  show ?thesis unfolding h b by (rule after_any_scan [OF at(1) _ at(2)]) (simp flip: b add: bs_def)
qed

section \<open>All reads of a listing\<close>

lemma perform_stops: "snd r \<noteq> [] \<Longrightarrow> list_call e (last (snd r)) = None \<Longrightarrow> list_perform n e r = Some r"
  by (cases r) (simp add: list_perform.simps)

lemma step_stops:
  assumes "list_handle e ev l = Some r" "answered e b I T l r \<or> goes_on_reading e b I T n l r"
  shows "list_step e ev l = Some r"
  using assms perform_stops [of r e 8] by (auto simp: list_step_def answered_def goes_on_reading_def)

abbreviation list_read :: "list_env \<Rightarrow> S3BucketMetadata \<Rightarrow> string \<times> bool \<Rightarrow> list_out" where
  "list_read e b \<equiv> \<lambda>(k, ex). L_next_keyval (object_list_index_layout b) k (le_fetch_count e) ex"

lemma run_answered: "answered e b I T l r \<Longrightarrow> list_run n e I r = Some r"
  by (cases r) (auto simp: answered_def list_run.simps)

lemma run_read:
  "list_run (Suc m) e I (l, outs @ [L_next_keyval lo k c ex]) =
     (case list_step e (index_answer I k c ex) l of
        None \<Rightarrow> None
      | Some r \<Rightarrow> map_option (\<lambda>(l2, outs2). (l2, (outs @ [L_next_keyval lo k c ex]) @ outs2)) (list_run m e I r))"
  by (subst list_run.simps) simp

lemma run_asking:
  assumes "asking_more e b I T l" "list_calm e"
  shows "\<exists>r. list_run (Suc m) e I (l, outs @ [L_next_keyval lo k c ex]) = Some (fst r, outs @ [L_next_keyval lo k c ex] @ snd r)
     \<and> answered e b I T l r"
proof -
  obtain r where r: "list_handle e (index_answer I k c ex) l = Some r" "answered e b I T l r" using asking_answers [OF assms] by blast
  then have "list_step e (index_answer I k c ex) l = Some r" using step_stops by blast
  then show ?thesis using r(2) run_answered [OF r(2)] by (simp add: run_read split_def)
qed

lemma setting_query: "same_query l l' \<Longrightarrow> list_setting e I l' = list_setting e I l"
  by (simp add: same_query_def list_setting_def readable_def)

lemma run_reading:
  assumes "reading e b I T k ex l" "list_setting e I l" "entries_ok I l T" "length (from_key k ex I) < m"
  shows "\<exists>reads r. list_run m e I (l, outs @ [list_read e b (k, ex)]) = Some (fst r, outs @ map (list_read e b) ((k, ex) # reads) @ snd r)
     \<and> length reads < m \<and> answered e b I T l r"
  using assms
proof (induction m arbitrary: k ex l outs)
  case (Suc m)
  have calm: "list_calm e" using Suc.prems(2) by (simp add: list_setting_def)
  obtain r1 where h: "list_handle e (index_answer I k (le_fetch_count e) ex) l = Some r1"
    and o: "answered e b I T l r1 \<or> goes_on_reading e b I T (length (from_key k ex I)) l r1"
    using reading_handled [OF Suc.prems(1-3)] by blast
  note step = step_stops [OF h o]
  from o show ?case
  proof
    assume a: "answered e b I T l r1"
    then show ?thesis
      using step run_answered [OF a] by (intro exI [of _ "[]"] exI [of _ r1]) (simp add: run_read split_def)
  next
    assume g: "goes_on_reading e b I T (length (from_key k ex I)) l r1"
    obtain l1 os where r1: "r1 = (l1, os)" by force
    from g r1 obtain k1 where k1: "os = [] @ [list_read e b (k1, True)]" and q: "same_query l l1"
      and s: "reading e b I T k1 True l1 \<and> length (from_key k1 True I) < length (from_key k ex I) \<or> asking_more e b I T l1"
      by (auto simp: goes_on_reading_def)
    have "\<exists>reads r. list_run m e I r1 = Some (fst r, [] @ map (list_read e b) ((k1, True) # reads) @ snd r)
        \<and> length reads < m \<and> answered e b I T l1 r" if "m \<noteq> 0"
      using s
    proof
      assume "reading e b I T k1 True l1 \<and> length (from_key k1 True I) < length (from_key k ex I)"
      moreover have "list_setting e I l1" using Suc.prems(2) setting_query [OF q] by blast
      moreover have "entries_ok I l1 T" using Suc.prems(3) q unfolding entries_ok_def same_query_def by metis
      ultimately show ?thesis unfolding r1 k1 using Suc.prems(4) by (intro Suc.IH) linarith+
    next
      assume "asking_more e b I T l1"
      from run_asking [OF this calm, of "m - 1" "[]" "object_list_index_layout b" k1 "le_fetch_count e" True] that
      show ?thesis unfolding r1 k1 by (auto intro!: exI [of _ "[]"])
    qed
    moreover have "m \<noteq> 0"
    proof
      assume "m = 0"
      then have none: "from_key k ex I = []" using Suc.prems(4) by simp
      then have "answered e b I T l r1" using empty_read_handled [OF Suc.prems(1) calm none] h by simp
      then show False using g by (auto simp: answered_def goes_on_reading_def)
    qed
    ultimately obtain reads r where rr: "list_run m e I r1 = Some (fst r, map (list_read e b) ((k1, True) # reads) @ snd r)"
      "length reads < m" "answered e b I T l1 r" by auto
    then show ?thesis
      using step q answered_query [of l l1 e b I T r]
      by (intro exI [of _ "(k1, True) # reads"] exI [of _ r]) (simp add: run_read)
  qed
qed simp

section \<open>From the request to the first read\<close>

definition list_marker :: "list_env \<Rightarrow> list_action \<Rightarrow> string" where
  "list_marker e l =
     (if l_v2 l = None then query_value e ''marker''
      else if query_value e ''continuation-token'' = [] then query_value e ''start-after''
      else obfuscator_decode (base64_decode (query_value e ''continuation-token'')))"

definition list_max_keys :: "list_env \<Rightarrow> size_t option" where
  "list_max_keys e = (if query_value e ''max-keys'' = [] then Some 1000 else S3CommonUtilities_stoul (query_value e ''max-keys''))"

text \<open>A request whose bucket has been loaded, and which has been authorized.\<close>

definition list_loaded :: "S3BucketMetadata \<Rightarrow> list_action \<Rightarrow> bool" where
  "list_loaded b l \<longleftrightarrow> l_bucket l = Some b \<and> non_zero (oid (object_list_index_layout b))
     \<and> \<not> is_response_scheduled (l_act l) \<and> \<not> is_error_state (l_act l)
     \<and> l_reader l = None \<and> l_first_next_keyval_call l \<and> \<not> l_check_any_more_keys l
     \<and> holds (l_object_list l) [] \<and> \<not> lr_response_is_truncated (l_object_list l)
     \<and> (case l_v2 l of None \<Rightarrow> lr_v2 (l_object_list l) = None | Some q \<Rightarrow> vq_cont_token q = [] \<and> lr_v2 (l_object_list l) \<noteq> None)"

definition list_ready :: "S3BucketMetadata \<Rightarrow> list_action \<Rightarrow> bool" where
  "list_ready b l \<longleftrightarrow> list_loaded b l
     \<and> drop (task_iteration_index (l_act l)) (task_list (l_act l)) = [validate_request, get_next_objects, List_send_response]"

text \<open>
  The index is a map of at most \<open>2 ^ 31\<close> readable entries whose keys, being UTF-8, do not have the
  byte 255; the delimiter has one character, or none is given.
\<close>

definition list_world :: "list_env \<Rightarrow> (string, string) std_map \<Rightarrow> list_action \<Rightarrow> bool" where
  "list_world e I l \<longleftrightarrow> map_wf I \<and> length I < 2 ^ 31 \<and> (\<forall>x\<in>set I. CHR 0xFF \<notin> set (fst x)) \<and> readable e l I
     \<and> length (query_value e ''delimiter'') \<le> 1 \<and> list_calm e"

lemma list_next_runs:
  assumes "list_calm e" "drop (task_iteration_index (l_act l)) (task_list (l_act l)) = t # ts"
  shows "\<exists>a. list_next e l = (l\<lparr>l_act := a\<rparr>, [L_base (Engine (Ran t))]) \<and> drop (task_iteration_index a) (task_list a) = ts
     \<and> is_response_scheduled a = is_response_scheduled (l_act l) \<and> is_error_state a = is_error_state (l_act l)"
proof -
  let ?a = "(l_act l)\<lparr>task_iteration_index := Suc (task_iteration_index (l_act l))\<rparr>"
  have "task_iteration_index (l_act l) < length (task_list (l_act l)) \<and> task_list (l_act l) ! task_iteration_index (l_act l) = t"
    using assms(2) nth_via_drop by (metis drop_eq_Nil2 leI list.distinct(1))
  then have "list_next e l = (l\<lparr>l_act := ?a\<rparr>, [L_base (Engine (Ran t))])"
    using assms(1) by (simp add: list_next_def list_engine_def action_next_def checked_def check_shutdown_and_rollback_def list_calm_def
        is_s3_client_read_error_def)
  moreover have "drop (Suc (task_iteration_index (l_act l))) (task_list (l_act l)) = ts" using assms(2) by (metis drop_Suc drop_tl list.sel(3))
  ultimately show ?thesis by (intro exI [of _ ?a]) (simp add: is_error_state_def)
qed

lemma after_validate_marker:
  assumes "l_last_key l = l_marker_key l" "l_v2 l = None \<Longrightarrow> l_marker_key l = m"
    "\<And>q. l_v2 l = Some q \<Longrightarrow> (if vq_cont_token q = [] then vq_start_after q else obfuscator_decode (base64_decode (vq_cont_token q))) = m"
  shows "after_validate_request e l = list_next e (l\<lparr>l_last_key := m, l_marker_key := m\<rparr>)"
proof (cases "l_v2 l")
  case None
  then have "l\<lparr>l_last_key := m, l_marker_key := m\<rparr> = l" using assms(1,2) by (cases l) simp
  then show ?thesis using None by (simp add: after_validate_request_def)
next
  case (Some q)
  show ?thesis using assms(3) [OF Some] by (simp add: after_validate_request_def Some Let_def)
qed

lemma v2_validate_facts:
  assumes "list_loaded b l" "l' = v2_validate_request e l"
  shows "l_act l' = l_act l \<and> l_request l' = l_request l \<and> l_bucket l' = l_bucket l \<and> l_reader l' = l_reader l
      \<and> l_first_next_keyval_call l' = l_first_next_keyval_call l \<and> l_check_any_more_keys l' = l_check_any_more_keys l"
    and "l_v2 l' = None \<Longrightarrow> query_value e ''marker'' = list_marker e l"
    and "\<And>q. l_v2 l' = Some q \<Longrightarrow>
      (if vq_cont_token q = [] then vq_start_after q else obfuscator_decode (base64_decode (vq_cont_token q))) = list_marker e l"
    and "lr_object_list (l_object_list l') = lr_object_list (l_object_list l) \<and> lr_common_prefixes (l_object_list l') = lr_common_prefixes (l_object_list l)
      \<and> lr_response_is_truncated (l_object_list l') = lr_response_is_truncated (l_object_list l)
      \<and> (l_v2 l = None \<longleftrightarrow> lr_v2 (l_object_list l') = None) \<and> lr_encoding_type (l_object_list l') = lr_encoding_type (l_object_list l)"
  using assms(1) unfolding assms(2)
  by (auto simp: v2_validate_request_def list_loaded_def list_marker_def query_value_def set_start_after_def set_fetch_owner_def
      set_continuation_token_def Let_def split: option.splits if_splits)

lemma validation_keeps:
  assumes "list_loaded b l" "list_max_keys e = Some n"
  shows "\<exists>l1. do_validate_request e l = Some (list_next e l1) \<and> l_act l1 = l_act l \<and> l_request l1 = l_request l
     \<and> l_prefix l1 = query_value e ''prefix'' \<and> l_delimiter l1 = query_value e ''delimiter'' \<and> l_marker_key l1 = list_marker e l
     \<and> l_last_key l1 = list_marker e l \<and> l_max_keys l1 = n \<and> l_bucket l1 = Some b \<and> l_reader l1 = None \<and> l_first_next_keyval_call l1
     \<and> \<not> l_check_any_more_keys l1 \<and> holds (l_object_list l1) [] \<and> \<not> lr_response_is_truncated (l_object_list l1)
     \<and> (l_v2 l = None \<longleftrightarrow> lr_v2 (l_object_list l1) = None) \<and> lr_encoding_type (l_object_list l1) = lr_encoding_type (l_object_list l)"
proof -
  let ?m = "query_value e ''marker''"
  let ?l = "v2_validate_request e l"
  let ?r1 = "(l_object_list ?l)\<lparr>lr_bucket_name := rq_bucket_name (l_request ?l), lr_request_prefix := query_value e ''prefix'',
                                lr_request_delimiter := query_value e ''delimiter''\<rparr>"
  let ?r2 = "(if ?m \<noteq> [] then set_request_marker_key (le_lib e) ?m ?r1 else ?r1)"
  let ?r3 = "?r2\<lparr>lr_max_keys := (if query_value e ''max-keys'' = [] then ''1000'' else query_value e ''max-keys'')\<rparr>"
  let ?l1 = "?l\<lparr>l_prefix := query_value e ''prefix'', l_delimiter := query_value e ''delimiter'', l_marker_key := ?m,
                 l_last_key := ?m, l_max_keys := n, l_object_list := ?r3\<rparr>"
  let ?l2 = "?l1\<lparr>l_last_key := list_marker e l, l_marker_key := list_marker e l\<rparr>"
  have "do_validate_request e l = Some (after_validate_request e ?l1)"
    using assms(2) by (auto simp: do_validate_request_def list_max_keys_def Let_def split: if_splits option.splits)
  moreover have "after_validate_request e ?l1 = list_next e ?l2"
    by (rule after_validate_marker) (use v2_validate_facts(2,3) [OF assms(1) refl, of e] in simp_all)
  moreover note v2_validate_facts(1,4) [OF assms(1) refl, of e]
  ultimately show ?thesis
    using assms(1) by (intro exI [of _ ?l2]) (auto simp: list_loaded_def holds_def get_keys_def set_request_marker_key_def)
qed

text \<open>The entries that remain behind the marker of the request.\<close>

definition wanted :: "list_env \<Rightarrow> (string, string) std_map \<Rightarrow> string \<Rightarrow> list_entry list" where
  "wanted e I m = list_entries (query_value e ''prefix'') (query_value e ''delimiter'') m (map fst (from_key m True I))"

lemma from_prefix: "p \<noteq> [] \<Longrightarrow> list_entries p d m (map fst (from_key p False I)) = list_entries p d m (map fst (from_key [] True I))"
proof -
  assume p: "p \<noteq> []"
  have "filter (is_prefix p) (map fst (from_key p False I)) = filter (is_prefix p) (map fst (from_key [] True I))"
    unfolding from_key_def filter_map filter_filter o_def using p is_prefix_le [of p]
    by (intro arg_cong [where f = "map fst"] filter_cong) (auto simp: is_prefix_iff neq_Nil_conv)
  then show ?thesis by (simp add: list_entries_def raw_entries_def)
qed

lemma wanted_ok: "l_marker_key l = m \<Longrightarrow> entries_ok I l (wanted e I m)"
proof -
  have "length (wanted e I m) \<le> length (from_key m True I)"
    unfolding wanted_def list_entries_def raw_entries_def
    by (intro le_trans [OF length_remdups_leq] le_trans [OF length_filter_le]) (simp add: le_trans [OF length_filter_le])
  also have "\<dots> \<le> length I" unfolding from_key_def by (rule length_filter_le)
  finally show "l_marker_key l = m \<Longrightarrow> entries_ok I l (wanted e I m)"
    by (auto simp: entries_ok_def wanted_def list_entries_def raw_entries_def)
qed

lemma first_read:
  assumes l: "l_bucket l = Some b" "non_zero (oid (object_list_index_layout b))" "\<not> is_response_scheduled (l_act l)" "\<not> is_error_state (l_act l)"
      "l_reader l = None" "l_first_next_keyval_call l" "\<not> l_check_any_more_keys l" "holds (l_object_list l) []"
      "\<not> lr_response_is_truncated (l_object_list l)" "l_last_key l = l_marker_key l" "l_max_keys l \<noteq> 0"
    and calm: "list_calm e" and q: "l_prefix l = query_value e ''prefix''" "l_delimiter l = query_value e ''delimiter''"
  shows "\<exists>l' k ex. do_get_next_objects e l = Some (l', [list_read e b (k, ex)]) \<and> same_query l l' \<and> l_object_list l' = l_object_list l
     \<and> reading e b I (wanted e I (l_marker_key l)) k ex l' \<and> (l_prefix l = [] \<longrightarrow> k = l_marker_key l \<and> ex)"
proof (cases "l_prefix l \<noteq> [] \<and> l_marker_key l = []")
  case True
  let ?l = "l\<lparr>l_max_record_count := le_fetch_count e, l_reader := Some R_empty, l_first_next_keyval_call := False, l_last_key := l_prefix l\<rparr>"
  have "do_get_next_objects e l = Some (?l, [list_read e b (l_prefix l, False)])"
    using True l calm by (simp add: do_get_next_objects_def list_calm_def next_record_count_def Let_def)
  moreover have "reading e b I (wanted e I (l_marker_key l)) (l_prefix l) False ?l"
    using True l q from_prefix [of "l_prefix l" "l_delimiter l" "[]" I]
    by (auto simp: reading_def serving_def wanted_def unat_gt_0 intro!: exI [of _ "[]"])
  ultimately show ?thesis using True by (intro exI conjI) (auto simp: same_query_def)
next
  case False
  let ?l = "l\<lparr>l_max_record_count := le_fetch_count e, l_reader := Some R_empty\<rparr>"
  have "do_get_next_objects e l = Some (?l, [list_read e b (l_marker_key l, True)])"
    using False l calm by (auto simp: do_get_next_objects_def list_calm_def next_record_count_def Let_def)
  moreover have "reading e b I (wanted e I (l_marker_key l)) (l_marker_key l) True ?l"
    using False l q by (auto simp: reading_def serving_def wanted_def unat_gt_0 from_key_def intro!: exI [of _ "[]"])
  ultimately show ?thesis by (intro exI conjI) (auto simp: same_query_def)
qed

lemma perform_call:
  assumes "list_call e o1 = Some body" "body l = Some (l1, outs1)" "outs1 \<noteq> []"
  shows "list_perform (Suc n) e (l, [o1]) = map_option (\<lambda>(l2, outs2). (l2, o1 # outs2)) (list_perform n e (l1, outs1))"
  using assms by (subst list_perform.simps) simp

text \<open>The parameters of the request, the first read, and what has not changed since.\<close>

lemma request_reads:
  assumes rdy: "list_ready b l" and wo: "list_world e I l" and n: "list_max_keys e = Some n" "n \<noteq> 0"
  shows "\<exists>l1 k ex. list_step e List_authorized l
       = Some (l1, [L_base (Engine (Ran validate_request)), L_base (Engine (Ran get_next_objects)), list_read e b (k, ex)])
     \<and> reading e b I (wanted e I (list_marker e l)) k ex l1 \<and> list_setting e I l1 \<and> entries_ok I l1 (wanted e I (list_marker e l))
     \<and> l_max_keys l1 = n \<and> l_request l1 = l_request l \<and> (l_v2 l = None \<longleftrightarrow> lr_v2 (l_object_list l1) = None)
     \<and> lr_encoding_type (l_object_list l1) = lr_encoding_type (l_object_list l)
     \<and> l_prefix l1 = query_value e ''prefix'' \<and> l_delimiter l1 = query_value e ''delimiter''
     \<and> (l_prefix l1 = [] \<longrightarrow> k = list_marker e l \<and> ex)"
proof -
  have calm: "list_calm e" using wo by (simp add: list_world_def)
  obtain a where a: "list_next e l = (l\<lparr>l_act := a\<rparr>, [L_base (Engine (Ran validate_request))])"
      "drop (task_iteration_index a) (task_list a) = [get_next_objects, List_send_response]"
      "is_response_scheduled a = is_response_scheduled (l_act l)" "is_error_state a = is_error_state (l_act l)"
    using list_next_runs [OF calm, of l] rdy by (auto simp: list_ready_def)
  let ?l = "l\<lparr>l_act := a\<rparr>"
  have "list_loaded b ?l" using rdy a(3,4) by (auto simp: list_ready_def list_loaded_def split: option.splits)
  from validation_keeps [OF this n(1)] obtain l2 where v: "do_validate_request e ?l = Some (list_next e l2)" and l2: "l_act l2 = a"
      "l_request l2 = l_request l" "l_prefix l2 = query_value e ''prefix''" "l_delimiter l2 = query_value e ''delimiter''"
      "l_marker_key l2 = list_marker e l" "l_last_key l2 = list_marker e l" "l_max_keys l2 = n" "l_bucket l2 = Some b" "l_reader l2 = None"
      "l_first_next_keyval_call l2" "\<not> l_check_any_more_keys l2" "holds (l_object_list l2) []" "\<not> lr_response_is_truncated (l_object_list l2)"
      "l_v2 l = None \<longleftrightarrow> lr_v2 (l_object_list l2) = None" "lr_encoding_type (l_object_list l2) = lr_encoding_type (l_object_list l)"
    by (auto simp: list_marker_def)
  obtain a2 where a2: "list_next e l2 = (l2\<lparr>l_act := a2\<rparr>, [L_base (Engine (Ran get_next_objects))])"
      "is_response_scheduled a2 = is_response_scheduled a" "is_error_state a2 = is_error_state a"
    using list_next_runs [OF calm, of l2] a(2) l2(1) by auto
  let ?l3 = "l2\<lparr>l_act := a2\<rparr>"
  have "\<exists>l' k ex. do_get_next_objects e ?l3 = Some (l', [list_read e b (k, ex)]) \<and> same_query ?l3 l' \<and> l_object_list l' = l_object_list ?l3
     \<and> reading e b I (wanted e I (l_marker_key ?l3)) k ex l' \<and> (l_prefix ?l3 = [] \<longrightarrow> k = l_marker_key ?l3 \<and> ex)"
    by (rule first_read [OF _ _ _ _ _ _ _ _ _ _ _ calm]) (use l2 rdy a(3,4) a2(2,3) n(2) in \<open>simp_all add: list_ready_def list_loaded_def\<close>)
  then obtain l1 k ex where r: "do_get_next_objects e ?l3 = Some (l1, [list_read e b (k, ex)])" "same_query l2 l1" "l_object_list l1 = l_object_list l2"
      "reading e b I (wanted e I (list_marker e l)) k ex l1" "l_prefix l2 = [] \<longrightarrow> k = list_marker e l \<and> ex"
    using l2(5) by (auto simp: same_query_def)
  have "list_step e List_authorized l = list_perform 8 e (?l, [L_base (Engine (Ran validate_request))])"
    using a(1) by (simp add: list_step_def check_authorization_successful_def list_next_def)
  also have "\<dots> = map_option (\<lambda>(l2, outs2). (l2, L_base (Engine (Ran validate_request)) # outs2))
      (list_perform 7 e (?l3, [L_base (Engine (Ran get_next_objects))]))"
    using perform_call [of e "L_base (Engine (Ran validate_request))" _ ?l ?l3 _ 7] v a2(1) by simp
  also have "list_perform 7 e (?l3, [L_base (Engine (Ran get_next_objects))]) = map_option (\<lambda>(l2, outs2). (l2, L_base (Engine (Ran get_next_objects)) # outs2))
      (list_perform 6 e (l1, [list_read e b (k, ex)]))"
    using perform_call [of e "L_base (Engine (Ran get_next_objects))" _ ?l3 l1 _ 6] r(1) by simp
  also have "list_perform 6 e (l1, [list_read e b (k, ex)]) = Some (l1, [list_read e b (k, ex)])" by (rule perform_stops) simp_all
  finally have step: "list_step e List_authorized l
       = Some (l1, [L_base (Engine (Ran validate_request)), L_base (Engine (Ran get_next_objects)), list_read e b (k, ex)])" by simp
  have q: "l_prefix l1 = l_prefix l2" "l_delimiter l1 = l_delimiter l2" "l_marker_key l1 = l_marker_key l2" "l_max_keys l1 = l_max_keys l2"
    "l_request l1 = l_request l2" using r(2) by (simp_all add: same_query_def)
  moreover have "list_setting e I l1" using wo q l2(2,4) by (simp add: list_world_def list_setting_def readable_def)
  moreover have "entries_ok I l1 (wanted e I (list_marker e l))" by (rule wanted_ok) (simp add: q l2(5))
  ultimately show ?thesis using step r(3-5) l2 by (intro exI [of _ l1] exI [of _ k] exI [of _ ex]) simp
qed

section \<open>The listing as a whole\<close>

definition list_request :: "list_env \<Rightarrow> (string, string) std_map \<Rightarrow> list_action \<Rightarrow> list_result option" where
  "list_request e I l = list_step e List_authorized l \<bind> list_run (length I + 1) e I"

text \<open>The XML that a response stands for.\<close>

definition list_xml :: "list_env \<Rightarrow> S3BucketMetadata \<Rightarrow> object_request \<Rightarrow> S3ObjectListResponse \<Rightarrow> string" where
  "list_xml e b req r =
     (case lr_v2 r of
        None \<Rightarrow> list_get_xml (le_lib e) (rq_canonical_id req) (snd (get_owner_id b)) (rq_user_id req) r
      | Some v \<Rightarrow> list_v2_get_xml (le_lib e) v r)"

text \<open>The marker of the request that a client sends for the next page.\<close>

definition next_page :: "S3ObjectListResponse \<Rightarrow> string" where
  "next_page r = (if lr_v2 r = None then lr_next_marker_key r else obfuscator_decode (base64_decode (lr_next_marker_key r)))"

lemma answered_facts:
  assumes "answered e b I T l r"
  shows "snd r = [L_base (Respond_status 200 (list_xml e b (l_request l) (l_object_list (fst r)))), L_base (Engine Finished)]"
    "holds (l_object_list (fst r)) (take (unat (l_max_keys l)) T)" "lr_v2 (l_object_list (fst r)) = lr_v2 (l_object_list l)"
    "lr_response_is_truncated (l_object_list (fst r)) \<Longrightarrow> lr_encoding_type (l_object_list l) \<noteq> ''url'' \<Longrightarrow>
       list_rest l I (next_page (l_object_list (fst r))) = drop (unat (l_max_keys l)) T"
proof -
  from assms obtain l0 where l0: "snd r = [L_base (Respond_status 200 (snd (list_success_reply e b l0))), L_base (Engine Finished)]"
      "l_object_list (fst r) = fst (list_success_reply e b l0)" "holds (l_object_list l0) (take (unat (l_max_keys l)) T)"
      "lr_v2 (l_object_list l0) = lr_v2 (l_object_list l)" "l_request l0 = l_request l" "lr_encoding_type (l_object_list l0) = lr_encoding_type (l_object_list l)"
      "lr_response_is_truncated (l_object_list l0) \<longrightarrow>
         (\<exists>nm. lr_next_marker_key (l_object_list l0) = get_response_format_key_value (le_lib e) (l_object_list l0) nm
            \<and> list_rest l I nm = drop (unat (l_max_keys l)) T)"
    unfolding answered_def by blast
  show "snd r = [L_base (Respond_status 200 (list_xml e b (l_request l) (l_object_list (fst r)))), L_base (Engine Finished)]"
    "holds (l_object_list (fst r)) (take (unat (l_max_keys l)) T)" "lr_v2 (l_object_list (fst r)) = lr_v2 (l_object_list l)"
    using l0(1-5) by (auto simp: list_success_reply_def list_xml_def set_next_marker_key_def holds_def get_keys_def Let_def split: option.splits)
  assume "lr_response_is_truncated (l_object_list (fst r))" "lr_encoding_type (l_object_list l) \<noteq> ''url''"
  then have t: "lr_response_is_truncated (l_object_list l0)" "lr_encoding_type (l_object_list l0) \<noteq> ''url''"
    using l0(2,6) by (auto simp: list_success_reply_def set_next_marker_key_def Let_def split: option.splits)
  then obtain nm where nm: "lr_next_marker_key (l_object_list l0) = nm" "list_rest l I nm = drop (unat (l_max_keys l)) T"
    using l0(7) by (auto simp: get_response_format_key_value_def)
  have "next_page (l_object_list (fst r)) = nm"
    using l0(2) nm(1) t(2) by (auto simp: next_page_def list_success_reply_def set_next_marker_key_def get_next_marker_key_def next_token_def
        obfuscator_roundtrip Let_def split: option.splits)
  then show "list_rest l I (next_page (l_object_list (fst r))) = drop (unat (l_max_keys l)) T" using nm(2) by simp
qed

lemma request_answered:
  assumes "list_ready b l" "list_world e I l" "list_max_keys e = Some n" "n \<noteq> 0"
  shows "\<exists>l1 reads r. list_request e I l = Some (fst r, [L_base (Engine (Ran validate_request)), L_base (Engine (Ran get_next_objects))]
         @ map (list_read e b) reads @ snd r)
     \<and> length reads \<le> length I + 1 \<and> answered e b I (wanted e I (list_marker e l)) l1 r
     \<and> l_max_keys l1 = n \<and> l_request l1 = l_request l \<and> (l_v2 l = None \<longleftrightarrow> lr_v2 (l_object_list l1) = None)
     \<and> lr_encoding_type (l_object_list l1) = lr_encoding_type (l_object_list l)
     \<and> l_prefix l1 = query_value e ''prefix'' \<and> l_delimiter l1 = query_value e ''delimiter''"
proof -
  let ?pre = "[L_base (Engine (Ran validate_request)), L_base (Engine (Ran get_next_objects))] :: list_out list"
  obtain l1 k ex where s: "list_step e List_authorized l = Some (l1, ?pre @ [list_read e b (k, ex)])"
      "reading e b I (wanted e I (list_marker e l)) k ex l1" "list_setting e I l1" "entries_ok I l1 (wanted e I (list_marker e l))"
    and l1: "l_max_keys l1 = n" "l_request l1 = l_request l" "l_v2 l = None \<longleftrightarrow> lr_v2 (l_object_list l1) = None"
      "lr_encoding_type (l_object_list l1) = lr_encoding_type (l_object_list l)"
      "l_prefix l1 = query_value e ''prefix''" "l_delimiter l1 = query_value e ''delimiter''"
    using request_reads [OF assms] by auto
  have "length (from_key k ex I) < length I + 1" using length_filter_le [of _ I] by (simp add: from_key_def le_imp_less_Suc)
  from run_reading [OF s(2-4) this, of ?pre] obtain reads r where
    "list_run (length I + 1) e I (l1, ?pre @ [list_read e b (k, ex)]) = Some (fst r, ?pre @ map (list_read e b) ((k, ex) # reads) @ snd r)"
    "length reads < length I + 1" "answered e b I (wanted e I (list_marker e l)) l1 r" by blast
  then show ?thesis
    using s(1) l1 unfolding list_request_def by (intro exI [of _ l1] exI [of _ "(k, ex) # reads"] exI [of _ r]) simp
qed

text \<open>C2: A listing returns exactly what it should.  For any prefix, marker or continuation token, limit,
  batch size and delimiter of at most one character, an authorized listing of a bucket whose index
  answers every read ends with status 200 and the XML of a response that has the keys, in
  order, and the common prefixes of the first \<open>n\<close> entries behind the marker: the keys with the prefix, each
  group with a common delimiter counted once.  The reference filters and classifies the whole index;
  the code reads it in batches, skips groups and stops early.  As many reads as the index
  has keys, plus one, suffice.\<close>

theorem listing_is_exact:
  assumes "list_ready b l" "list_world e I l" "list_max_keys e = Some n" "n \<noteq> 0"
  shows "\<exists>l' reads. list_request e I l = Some (l', [L_base (Engine (Ran validate_request)), L_base (Engine (Ran get_next_objects))]
         @ map (list_read e b) reads
         @ [L_base (Respond_status 200 (list_xml e b (l_request l) (l_object_list l'))), L_base (Engine Finished)])
     \<and> length reads \<le> length I + 1
     \<and> get_keys (l_object_list l') = entry_keys (take (unat n) (wanted e I (list_marker e l)))
     \<and> map_wf (lr_common_prefixes (l_object_list l'))
     \<and> fst ` set (lr_common_prefixes (l_object_list l')) = set (entry_prefixes (take (unat n) (wanted e I (list_marker e l))))"
proof -
  obtain l1 reads r where r: "list_request e I l = Some (fst r, [L_base (Engine (Ran validate_request)), L_base (Engine (Ran get_next_objects))]
         @ map (list_read e b) reads @ snd r)" "length reads \<le> length I + 1"
      "answered e b I (wanted e I (list_marker e l)) l1 r" "l_max_keys l1 = n" "l_request l1 = l_request l"
    using request_answered [OF assms] by blast
  show ?thesis
    using r(1,2,4,5) answered_facts(1,2) [OF r(3)] by (intro exI [of _ "fst r"] exI [of _ reads]) (simp add: holds_def)
qed

text \<open>C13: Pages fit together.  When keys are not URL-encoded and the response is truncated, the next marker, or for version 2
  the continuation token as the next request decodes it, is one behind which exactly the
  entries remain that this page does not show: the next page neither repeats nor loses an
  entry.\<close>

theorem listing_pages_continue:
  assumes "list_ready b l" "list_world e I l" "list_max_keys e = Some n" "n \<noteq> 0"
    and "list_request e I l = Some (l', outs)" "lr_response_is_truncated (l_object_list l')" "lr_encoding_type (l_object_list l) \<noteq> ''url''"
  shows "wanted e I (next_page (l_object_list l')) = drop (unat n) (wanted e I (list_marker e l))"
proof -
  obtain l1 reads r where r: "list_request e I l = Some (fst r, [L_base (Engine (Ran validate_request)), L_base (Engine (Ran get_next_objects))]
         @ map (list_read e b) reads @ snd r)"
      "answered e b I (wanted e I (list_marker e l)) l1 r" "l_max_keys l1 = n"
      "l_prefix l1 = query_value e ''prefix''" "l_delimiter l1 = query_value e ''delimiter''"
      "lr_encoding_type (l_object_list l1) = lr_encoding_type (l_object_list l)"
    using request_answered [OF assms(1-4)] by blast
  have "l' = fst r" using r(1) assms(5) by simp
  then show ?thesis using answered_facts(4) [OF r(2)] assms(6,7) r(3-6) by (simp add: list_rest_def wanted_def)
qed

section \<open>A full batch\<close>

lemma no_delimiter:
  assumes "l_prefix l = []" "l_delimiter l = []"
  shows "raw_of l xs = map (Key \<circ> fst) xs" "entries_of l xs = remdups (map (Key \<circ> fst) xs)"
    "entry_of (l_prefix l) (l_delimiter l) k = Key k" "is_prefix (l_prefix l) k"
  using assms by (simp_all add: raw_entries_def list_entries_def entry_of_def filter_id_conv is_prefix_iff o_def)

lemma send_flag:
  assumes "list_send_response e l0 = Some r"
  shows "lr_response_is_truncated (l_object_list (fst r)) = lr_response_is_truncated (l_object_list l0)"
    "last (snd r) = L_base (Engine Finished)"
  using assms by (auto simp: list_send_response_def list_success_reply_def list_done_def list_engine_def set_next_marker_key_def split_def Let_def
      action_done_def split: if_splits option.splits)

lemma page_flag:
  assumes at: "batch_at e b I T l K xs (ys @ us) F s l1" and q: "l_prefix l = []" "l_delimiter l = []"
    and fin: "batch_end l (length F) xs ys s" and F: "F = E @ raw_of l xs" and n: "unat (l_max_keys l) \<le> length E + length (xs @ ys)"
    and r: "after_scan e (xs @ ys) s l1 = Some r"
  shows "lr_response_is_truncated (l_object_list (fst r)) \<longleftrightarrow> unat (l_max_keys l) < length E + length (xs @ ys)"
    "last (snd r) = L_base (Engine Finished)"
proof -
  have skip: "\<not> sc_skip_remaining s" using fin no_delimiter(3,4) [OF q] by (auto simp: batch_end_def)
  then have nf: "\<not> sc_no_further_match s" using fin no_delimiter(4) [OF q] by (auto simp: batch_end_def)
  have xs: "length F = length E + length xs" "length F \<le> unat (l_max_keys l)" using F no_delimiter(1) [OF q] at by (simp_all add: batch_at_def)
  have f: "\<not> sc_in_common_prefix s" "sc_length s = length ys" "ys \<noteq> [] \<longrightarrow> length F = unat (l_max_keys l)"
    using fin skip nf by (auto simp: batch_end_def)
  have full: "length F = unat (l_max_keys l)" using n xs f(3) by (cases "ys = []") auto
  let ?t = "(scanned s l1)\<lparr>l_last_key := sc_last_key s,
      l_object_list := set_next_marker_key (le_lib e) (sc_last_key s) True (set_response_is_truncated True (sc_list s))\<rparr>"
  have "after_scan e (xs @ ys) s l1 = finish_listing e (if ys = [] then scanned s l1 else ?t)"
    using batch_facts(11) [OF at] full f(1,2) skip by (simp add: after_scan_def scanned_def Let_def)
  moreover have "\<not> lr_response_is_truncated (sc_list s)" using at by (simp add: batch_at_def)
  moreover have "unat (l_max_keys l) < length E + length (xs @ ys) \<longleftrightarrow> ys \<noteq> []" using full xs(1) by (cases ys) auto
  ultimately show "lr_response_is_truncated (l_object_list (fst r)) \<longleftrightarrow> unat (l_max_keys l) < length E + length (xs @ ys)"
    "last (snd r) = L_base (Engine Finished)"
    using send_flag [of e _ r] r
    by (auto simp: finish_listing_def scanned_def set_key_count_def set_next_marker_key_def set_response_is_truncated_def split: if_splits)
qed

lemma plain_entries:
  assumes "l_prefix l = []" "l_delimiter l = []" "map_wf I"
  shows "entries_of l (from_key k ex I) = map (Key \<circ> fst) (from_key k ex I)"
proof -
  have "distinct (map fst I)" using assms(3) by (simp add: map_wf_def strict_sorted_iff)
  then have "distinct (map fst (from_key k ex I))" unfolding from_key_def by (rule distinct_map_filter)
  then have "distinct (map (Key \<circ> fst) (from_key k ex I))" by (simp add: distinct_map inj_on_def)
  then show ?thesis using no_delimiter(2) [OF assms(1,2)] by (simp add: distinct_remdups_id)
qed

text \<open>Batch after batch: what is left of the limit decides when the remaining keys fill it.\<close>

lemma plain_run_flag:
  assumes "reading e b I T k ex l" "list_setting e I l" "entries_ok I l T" "l_prefix l = []" "l_delimiter l = []"
    and "unat (l_max_keys l) < length T" "length (from_key k ex I) < m"
  shows "\<exists>r outs'. list_run m e I (l, outs @ [list_read e b (k, ex)]) = Some (fst r, outs') \<and> answered e b I T l r
     \<and> (lr_response_is_truncated (l_object_list (fst r)) \<longleftrightarrow>
          \<not> unat (le_fetch_count e) dvd (unat (l_max_keys l) + length (from_key k ex I) - length T))"
  using assms
proof (induction m arbitrary: k ex l outs)
  case (Suc m)
  let ?c = "unat (le_fetch_count e)" and ?n = "unat (l_max_keys l)"
  define K where "K = from_key k ex I"
  note rd = Suc.prems(1) and st = Suc.prems(2) and ok = Suc.prems(3) and q = Suc.prems(4,5)
  have c: "0 < ?c" using st by (simp add: list_setting_def list_calm_def unat_gt_0)
  have plain: "entries_of l (from_key k ex I) = map (Key \<circ> fst) (from_key k ex I)" for k ex
    using plain_entries [OF q] st by (simp add: list_setting_def)
  obtain E0 where E0: "length E0 < ?n" "E0 @ entries_of l K = T" using rd by (auto simp: reading_def K_def)
  then have E0: "length E0 < ?n" "length E0 + length K = length T" using plain [of k ex] by (auto simp: K_def)
  then have K: "K \<noteq> []" "?n < length E0 + length K" using Suc.prems(6) by auto
  then have "take ?c K \<noteq> []" using c by simp
  from batch_scanned [OF rd st ok K_def refl this] obtain sc xs ys E l2 where
    h: "list_handle e (index_answer I k (le_fetch_count e) ex) l = after_scan e (take ?c K) sc l2" and b: "take ?c K = xs @ ys"
    and at: "batch_at e b I T l K xs (ys @ drop ?c K) (E @ raw_of l xs) sc l2"
      "batch_end l (length (E @ raw_of l xs)) xs ys sc" and E: "E @ entries_of l K = T" by blast
  have lenE: "length E = length E0" using E E0(2) plain [of k ex] by (auto simp: K_def)
  have len: "length (xs @ ys) = min (length K) ?c" by (simp flip: b)
  have rem: "?n + length (from_key k ex I) - length T = ?n - length E" using E0 lenE by (simp flip: K_def)
  show ?case
  proof (cases "?n - length E \<le> ?c")
    case True
    obtain r where r: "after_scan e (xs @ ys) sc l2 = Some r"
        "answered e b I T l r \<or> goes_on_reading e b I T (length K) l r"
      using after_any_scan [OF at(1) b [symmetric] at(2)] by blast
    have "?n \<le> length E + length (xs @ ys)" using True K(2) len lenE by linarith
    from page_flag [OF at(1) q at(2) refl this r(1)]
    have fin: "lr_response_is_truncated (l_object_list (fst r)) \<longleftrightarrow> ?n < length E + length (xs @ ys)" "last (snd r) = L_base (Engine Finished)" .
    then have ans: "answered e b I T l r" using r(2) by (auto simp: goes_on_reading_def)
    have "list_step e (index_answer I k (le_fetch_count e) ex) l = Some r" using step_stops h b r by simp
    then have "\<exists>outs'. list_run (Suc m) e I (l, outs @ [list_read e b (k, ex)]) = Some (fst r, outs')"
      unfolding split by (subst run_read) (simp add: run_answered [OF ans] split_def)
    moreover have "?n < length E + length (xs @ ys) \<longleftrightarrow> ?n - length E < ?c" using K(2) len lenE E0(1) by linarith
    moreover have "?c dvd (?n - length E) \<longleftrightarrow> ?n - length E = ?c"
      using True E0(1) lenE by (auto dest: dvd_imp_le)
    ultimately have "lr_response_is_truncated (l_object_list (fst r)) \<longleftrightarrow> \<not> ?c dvd (?n - length E)"
        "\<exists>outs'. list_run (Suc m) e I (l, outs @ [list_read e b (k, ex)]) = Some (fst r, outs')"
      using fin(1) True by auto
    with ans show ?thesis unfolding rem by blast
  next
    case False
    have F: "length (E @ raw_of l xs) = length E + length xs" using no_delimiter(1) [OF q] by simp
    have skip: "\<not> sc_skip_remaining sc" using at(2) no_delimiter(3,4) [OF q] by (auto simp: batch_end_def)
    then have nf: "\<not> sc_no_further_match sc" using at(2) no_delimiter(4) [OF q] by (auto simp: batch_end_def)
    have lt: "length E + length xs < ?n" using False len by (simp add: min_def split: if_splits)
    then have ys: "ys = []" using at(2) skip nf F by (auto simp: batch_end_def)
    then have fin: "no_groups l xs" "xs \<noteq> []" "sc_last_key sc = fst (last xs)" "sc_length sc = 0"
      using at(2) skip nf by (auto simp: batch_end_def)
    have xs: "length xs = ?c" "take ?c K = xs" using False K(2) len lenE ys b by auto
    have at': "batch_at e b I T l K xs (drop ?c K) (E @ raw_of l xs) sc l2" using at(1) ys by simp
    have "length (E @ raw_of l xs) \<noteq> ?n" using lt F by simp
    from whole_batch_reads [OF at' fin(1-4) skip nf this xs(1)] obtain l' where
      r: "after_scan e xs sc l2 = Some (l', [list_read e b (fst (last xs), True)])" and q': "same_query l l'"
      and rd': "reading e b I T (fst (last xs)) True l'" and rest: "from_key (fst (last xs)) True I = drop ?c K" by auto
    have "length (drop ?c K) < length K" using K(1) c by simp
    then have go: "goes_on_reading e b I T (length K) l (l', [list_read e b (fst (last xs), True)])"
      using q' rd' rest by (simp add: goes_on_reading_def)
    have step: "list_step e (index_answer I k (le_fetch_count e) ex) l = Some (l', [list_read e b (fst (last xs), True)])"
      using step_stops [OF _ disjI2 [OF go]] h r xs(2) by simp
    have l': "list_setting e I l'" "entries_ok I l' T" "l_prefix l' = []" "l_delimiter l' = []" "l_max_keys l' = l_max_keys l"
      using st ok q q' setting_query [OF q'] by (auto simp: same_query_def entries_ok_def)
    have "unat (l_max_keys l') < length T" "length (from_key (fst (last xs)) True I) < m"
      using Suc.prems(6,7) l'(5) rest \<open>length (drop ?c K) < length K\<close> by (simp_all add: K_def)
    from Suc.IH [OF rd' l'(1-4) this, of "[]"] obtain r' outs' where
      r': "list_run m e I (l', [] @ [list_read e b (fst (last xs), True)]) = Some (fst r', outs')" "answered e b I T l' r'"
      "lr_response_is_truncated (l_object_list (fst r')) \<longleftrightarrow> \<not> ?c dvd (?n + length (drop ?c K) - length T)"
      unfolding rest l'(5) by blast
    have "?n + length (drop ?c K) - length T = ?n - length E - ?c" using False E0 lenE K(2) by simp
    moreover have "?c dvd (?n - length E - ?c) \<longleftrightarrow> ?c dvd (?n - length E)" using False dvd_minus_self [of ?c "?n - length E"] by linarith
    ultimately have flag: "lr_response_is_truncated (l_object_list (fst r')) \<longleftrightarrow> \<not> ?c dvd (?n - length E)" using r'(3) by simp
    have "list_run (Suc m) e I (l, outs @ [list_read e b (k, ex)]) = Some (fst r', (outs @ [list_read e b (k, ex)]) @ outs')"
      unfolding split by (subst run_read) (use step r'(1) in simp)
    then show ?thesis using answered_query [OF q'] r'(2) flag unfolding rem by blast
  qed
qed simp

lemma plain_listing:
  assumes "list_ready b l" "list_world e I l" "list_max_keys e = Some n" "n \<noteq> 0"
    and "query_value e ''prefix'' = []" "query_value e ''delimiter'' = []"
    and "unat n < length (from_key (list_marker e l) True I)"
  shows "\<exists>l' outs. list_request e I l = Some (l', outs)
     \<and> (lr_response_is_truncated (l_object_list l') \<longleftrightarrow> \<not> unat (le_fetch_count e) dvd unat n)
     \<and> get_keys (l_object_list l') = take (unat n) (map fst (from_key (list_marker e l) True I))"
proof -
  let ?m = "list_marker e l" and ?pre = "[L_base (Engine (Ran validate_request)), L_base (Engine (Ran get_next_objects))] :: list_out list"
  define K where "K = from_key ?m True I"
  obtain l1 where s: "list_step e List_authorized l = Some (l1, ?pre @ [list_read e b (?m, True)])"
      "reading e b I (wanted e I ?m) ?m True l1" "list_setting e I l1" "entries_ok I l1 (wanted e I ?m)"
    and l1: "l_max_keys l1 = n" "l_prefix l1 = []" "l_delimiter l1 = []"
    using request_reads [OF assms(1-4)] assms(5,6) by auto
  have W: "wanted e I ?m = map (Key \<circ> fst) K"
    using plain_entries [OF l1(2,3), of I ?m True] s(3) unfolding wanted_def K_def assms(5,6) l1(2,3)
    by (simp add: list_entries_def raw_entries_def entry_of_def filter_id_conv list_setting_def)
  have "length K < Suc (length I)" using length_filter_le [of _ I] by (simp add: K_def from_key_def le_imp_less_Suc)
  moreover have "unat (l_max_keys l1) < length (wanted e I ?m)" using assms(7) l1(1) by (simp add: W K_def)
  ultimately obtain r outs where r: "list_run (Suc (length I)) e I (l1, ?pre @ [list_read e b (?m, True)]) = Some (fst r, outs)"
      "answered e b I (wanted e I ?m) l1 r" "lr_response_is_truncated (l_object_list (fst r)) \<longleftrightarrow> \<not> unat (le_fetch_count e) dvd unat n"
    using plain_run_flag [OF s(2-4) l1(2,3), of "Suc (length I)" ?pre] l1(1) unfolding K_def [symmetric] W length_map by (metis add_diff_cancel_right')
  have "get_keys (l_object_list (fst r)) = take (unat n) (map fst K)"
    using answered_facts(2) [OF r(2)] l1(1) W by (simp add: holds_def entry_keys_def take_map o_def flip: map_concat)
  moreover have "list_request e I l = Some (fst r, outs)" using r(1) unfolding list_request_def s(1) by simp
  ultimately show ?thesis using r(3) by (auto simp: K_def)
qed

text \<open>C40: \<open>IsTruncated\<close> depends on the size of a batch and not on what is left.  Take a listing without prefix and
  delimiter of a bucket with more keys behind the marker than the \<open>n\<close> that the request asks for.  The page has the
  first \<open>n\<close> keys, but it is marked as truncated just when \<open>n\<close> is not a multiple of the number of keys that one
  read of the index brings; a client that asks for such a multiple is told that it has seen all.\<close>

theorem full_batch_hides_rest:
  assumes "list_ready b l" "list_world e I l" "list_max_keys e = Some n" "n \<noteq> 0"
    and "query_value e ''prefix'' = []" "query_value e ''delimiter'' = []"
    and "unat n < length (from_key (list_marker e l) True I)"
  shows "\<exists>l' outs. list_request e I l = Some (l', outs)
     \<and> (lr_response_is_truncated (l_object_list l') \<longleftrightarrow> \<not> unat (le_fetch_count e) dvd unat n)
     \<and> get_keys (l_object_list l') = take (unat n) (map fst (from_key (list_marker e l) True I))"
  by (rule plain_listing [OF assms])

section \<open>Witnesses\<close>

text \<open>A JSON library for index values that are just the name of the object.\<close>

definition name_lib :: jsoncpp where
  "name_lib = (one_document_lib JNull)\<lparr>reader_parse := \<lambda>s. Some (JObj [(''Object-Name'', JStr s)])\<rparr>"

definition listed_bucket :: S3BucketMetadata where
  "listed_bucket =
     (let b = S3BucketMetadata_init (bucket_request.truncate sample_object_request) []
      in b\<lparr>object_list_index_layout := (object_list_index_layout b)\<lparr>oid := \<lparr>u_hi = 1, u_lo = 2\<rparr>\<rparr>\<rparr>)"

definition sample_list_env :: "size_t \<Rightarrow> list_env" where
  "sample_list_env count =
     \<lparr>le_act = calm, le_lib = \<lparr>ll_uriencode = id, ll_uridecode = id, ll_xmlEncode = Some\<rparr>, le_json = name_lib, le_fi = no_faults,
      le_app_id = zero_id, le_query = map_of [(''max-keys'', ''1'')], le_fetch_count = count, le_retry_after_sec = 1\<rparr>"

definition sample_list :: "list_action" where
  "sample_list =
     (let l = list_action_init (sample_list_env 1) False sample_object_request False []
      in l\<lparr>l_bucket := Some listed_bucket, l_act := (l_act l)\<lparr>task_iteration_index := 3\<rparr>\<rparr>)"

definition sample_index :: "(string, string) std_map" where
  "sample_index = [(''a'', ''a''), (''b'', ''b'')]"

lemma sample_list_ready: "list_ready listed_bucket sample_list"
  by (simp add: list_ready_def list_loaded_def sample_list_def list_action_init_def listed_bucket_def S3Action_init_def S3Action_setup_steps_def
      Action_init_def action_setup_steps_def check_authorization_header_def add_task_def is_error_state_def holds_def get_keys_def
      S3ObjectListResponse_init_def map_wf_def non_zero_def Let_def)

lemma no_part_layout: "to_idx_layout [] \<noteq> None"
  by code_simp

lemma name_object:
  assumes "no_nul v"
  shows "\<exists>ob. om_from_json name_lib no_faults v (S3ObjectMetadata_init zero_id req [] [] False []) = Some (ob, 0) \<and> om_object_name ob = v"
proof -
  obtain lo where "to_idx_layout [] = Some lo" using no_part_layout by blast
  then show ?thesis
    using assms by (simp add: om_from_json_def name_lib_def no_faults_def object_from_root_def json_string_def json_int_def json_at_def one_document_lib_def
      fragment_fields_def json_isMember_def multipart_fields_def json_merge_map_def getMemberNames_def om_load_owner_def om_acl_from_json_def
      S3ObjectMetadata_init_def om_initialize_def json_number_def at_signs_def map_get_def Let_def)
qed

lemma sample_list_world: "c \<noteq> 0 \<Longrightarrow> list_world (sample_list_env c) sample_index sample_list"
  using name_object [of "''a''" "l_request sample_list"] name_object [of "''b''" "l_request sample_list"]
  by (simp add: list_world_def sample_index_def map_wf_def readable_def sample_list_env_def query_value_def list_calm_def calm_def no_nul_def)

lemma sample_queries: "query_value (sample_list_env c) ''prefix'' = []"
  "query_value (sample_list_env c) ''delimiter'' = []" "list_marker (sample_list_env c) sample_list = []"
  by (simp_all add: sample_list_env_def query_value_def list_marker_def sample_list_def list_action_init_def Let_def)

lemma sample_max: "list_max_keys (sample_list_env c) = Some 1"
  by (simp add: sample_list_env_def list_max_keys_def query_value_def S3CommonUtilities_stoul_def scan_number_def c_isspace_def)

lemma sample_more: "unat (1 :: size_t) < length (from_key [] True sample_index)"
  by (simp add: from_key_def sample_index_def)

theorem listing_is_exact_witness:
  "\<exists>l' reads. list_request (sample_list_env 5) sample_index sample_list
     = Some (l', [L_base (Engine (Ran validate_request)), L_base (Engine (Ran get_next_objects))] @ map (list_read (sample_list_env 5) listed_bucket) reads
         @ [L_base (Respond_status 200 (list_xml (sample_list_env 5) listed_bucket (l_request sample_list) (l_object_list l'))), L_base (Engine Finished)])
     \<and> get_keys (l_object_list l') = [''a'']"
proof -
  have "entry_keys (take (unat (1 :: size_t)) (wanted (sample_list_env 5) sample_index [])) = [''a'']"
    by (simp add: wanted_def sample_queries from_key_def sample_index_def list_entries_def raw_entries_def entry_of_def)
  then show ?thesis
    using listing_is_exact [OF sample_list_ready sample_list_world [of 5] sample_max] sample_queries(3) [of 5] by auto
qed

theorem listing_pages_continue_witness:
  "\<exists>l' outs. list_request (sample_list_env 5) sample_index sample_list = Some (l', outs)
     \<and> wanted (sample_list_env 5) sample_index (next_page (l_object_list l')) = [Key ''b'']"
proof -
  obtain l' outs where l': "list_request (sample_list_env 5) sample_index sample_list = Some (l', outs)" "lr_response_is_truncated (l_object_list l')"
    using plain_listing [OF sample_list_ready sample_list_world [of 5] sample_max] sample_queries [of 5] sample_more
    by (auto simp: sample_list_env_def)
  have "lr_encoding_type (l_object_list sample_list) \<noteq> ''url''"
    by (simp add: sample_list_def list_action_init_def S3ObjectListResponse_init_def query_value_def sample_list_env_def Let_def)
  from listing_pages_continue [OF sample_list_ready sample_list_world sample_max _ l' this]
  have "wanted (sample_list_env 5) sample_index (next_page (l_object_list l')) = drop 1 (wanted (sample_list_env 5) sample_index [])"
    by (simp add: sample_queries)
  then show ?thesis
    using l'(1) by (simp add: wanted_def sample_queries from_key_def sample_index_def list_entries_def raw_entries_def entry_of_def)
qed

theorem full_batch_hides_rest_witness:
  "\<exists>l' outs. list_request (sample_list_env 1) sample_index sample_list = Some (l', outs) \<and> \<not> lr_response_is_truncated (l_object_list l')
     \<and> get_keys (l_object_list l') = [''a'']"
  using full_batch_hides_rest [OF sample_list_ready sample_list_world [of 1] sample_max] sample_queries [of 1] sample_more
  by (auto simp: sample_list_env_def from_key_def sample_index_def)

end
