(* ===== verification/Spec2Isabelle.thy ===== *)
theory Spec2Isabelle
  imports Chunk_Parser Async_Buffer Async_Buffer_Opt Common_Utilities Bucket_Proxy Bucket_Engine
    Action_Base Object_Versioning Object_Metadata Motr_Async Kvs_Client Ext_Reload Object_Engine Get_Multipart Writer_Run Delete_Run Listing_Run
begin

text \<open>
  Verification of the C++ S3 server (src/server).

  \<^bold>\<open>The program.\<close>  The server receives S3 requests over HTTP, runs each as an action (a list of
  tasks driven by asynchronous completions) and keeps data and metadata in Motr: object data in
  Motr objects, buckets and object metadata as JSON values in Motr key-value indices.  An
  action calls the metadata engines, the readers and the writers; each of these sends requests
  to Motr and is called back by an event on the main thread.  A request is therefore a state
  (a record), a handler for each event, and a list of things that the handler did; a request to
  Motr or a further call is always the last of them.

  \<^bold>\<open>Theories.\<close>
  \<^item> \<open>S3_Prelude\<close>: byte strings, decimal printing, errors as sums and the lemmas the components share.
  \<^item> \<open>Chunk_Parser\<close> (s3_chunk_payload_parser.cc, s3_sha256.cc): the parser of signed chunked
    uploads over buffer extents.  It refines a parser that reads one byte at a time, gives back the
    data and the signatures of every well-formed upload, and does not run out of spare buffers.
  \<^item> \<open>Byte_Fifo\<close>, \<open>Async_Buffer\<close>, \<open>Async_Buffer_Opt\<close> (s3_async_buffer.cc,
    s3_async_buffer_opt.cc): the two containers of received body data; both are first-in
    first-out queues of bytes.
  \<^item> \<open>Base64\<close>, \<open>Motr_Ids\<close>, \<open>Common_Utilities\<close>, \<open>Object_Versioning\<close>
    (base64.cc, s3_m0_uint128_helper.cc, s3_common_utilities.cc, s3_object_versioning_helper.cc):
    the codecs and their round trips, and the order of version keys.
  \<^item> \<open>Std_Map\<close>, \<open>Json_Doc\<close>: the std::map and JSON documents the metadata classes use; the
    JSON library is a parameter with its print/parse law as a hypothesis.
  \<^item> \<open>Bucket_Metadata\<close>, \<open>Bucket_Cache\<close>, \<open>Bucket_Proxy\<close>, \<open>Bucket_Engine\<close>
    (s3_bucket_metadata*.cc, s3_global_bucket_index_metadata.cc): the JSON form of a bucket, the
    cache with its bound and its waiting handlers, and the chains of index operations that load,
    save, update and remove a bucket.
  \<^item> \<open>Object_Metadata\<close>, \<open>Ext_Metadata\<close>, \<open>Ext_Reload\<close>, \<open>Object_Engine\<close>
    (s3_object_metadata.cc): the JSON form of an object and of the parts of an extended object,
    and their load, save and remove chains against an index store.
  \<^item> \<open>Kvs\<close>, \<open>Motr_Async\<close>, \<open>Kvs_Client\<close> (s3_fake_motr_kvs.cc, s3_asyncop_context_base.cc,
    s3_motr_rw_common.cc, s3_motr_kvs_reader.cc, s3_motr_kvs_writer.cc): completion of an
    operation exactly once, and the reader and writer as clients of an index store.
  \<^item> \<open>Action_Base\<close> (action_base.cc, s3_action_base.cc, motr_action_base.cc): task lists,
    rollback lists, shutdown and client errors, with tasks in order and a bound on the responses
    that the engine sends by itself.
  \<^item> \<open>Motr_Layout\<close>, \<open>Motr_Reader\<close>, \<open>Object_Action\<close>, \<open>Get_Object\<close>
    (s3_motr_layout.cc, s3_motr_reader.cc, s3_object_action_base.cc, s3_get_object_action.cc):
    the read path.  \<open>Get_Run\<close> runs a GET of a plain object and compares the bytes sent with the
    requested range, \<open>Get_Reply\<close> gives the meaning of the header Range, and \<open>Get_Multipart\<close>
    what is sent for an object of several Motr objects.
  \<^item> \<open>MD5_Hash\<close>, \<open>Motr_Writer\<close> (s3_md5_hash.cc, s3_motr_writer.cc): the running digest and
    the object writer with its buffers, extents and checksums.  \<open>Writer_Data\<close> follows one
    write through its buffers; \<open>Writer_Run\<close> shows for a sequence of writes which bytes are
    stored, that the stored checksums are accepted by the reader, and which digest results.
  \<^item> \<open>Delete_Object\<close> (s3_delete_object_action.cc, s3_probable_delete_record.cc): the deletion of
    an object with its record for the background deletion.  \<open>Delete_Run\<close> runs it against a store
    that may refuse any request and a server that may stop after any of them, and shows what an
    undisturbed deletion changes, with delayed deletion configured or not.
  \<^item> \<open>List_Response\<close>, \<open>Bucket_Listing\<close> (s3_object_list_response.cc, s3_object_list_v2_response.cc,
    s3_bucket_action_base.cc, s3_get_bucket_action.cc, s3_get_bucket_action_v2.cc): both versions of
    the listing of a bucket.  \<open>Listing_Run\<close> compares what a run returns with a specification
    that filters the whole index and knows neither batches nor skipped groups.

  \<^bold>\<open>Interfaces.\<close>  The locale \<open>byte_fifo\<close> is what a request expects of a container of body data
  and is interpreted on both containers.  The locale \<open>dictionary\<close> holds the laws of a std::map and is
  interpreted on the sorted association lists of \<open>Std_Map\<close>.  The locale \<open>motr_indices\<close>
  is the contract of an index store that the key-value client relies on; it is interpreted on the
  in-memory store of the sources.

  \<^bold>\<open>Bounds and fuel.\<close>  Machine integers are words of their width.  Where a handler calls the next
  one through the action engine, the composition has fuel and is undefined when the fuel is used up
  with a call pending; the theorems about runs show that it is not.  \<open>get_perform\<close> has the number of
  tasks plus two, since each call takes a task or is the response; \<open>get_serve\<close> has the number of units
  of the range plus three, one step for each run of units and three for the opening and the end;
  \<open>del_perform\<close> and \<open>list_perform\<close> have eight, and a handler starts at most four calls;
  \<open>del_run\<close> has one reply for each entry of its list; \<open>list_run\<close> has the number of keys plus
  one, since every read but the last goes on behind at least one key.

  \<^bold>\<open>Outside code.\<close>  Motr, jsoncpp, libxml2, libevent, the checksum functions of Motr, the
  authentication server and the options are arguments of the definitions.  What a theorem needs of
  them is a named predicate among its hypotheses, and its witness instantiates it.

  \<^bold>\<open>Not modelled.\<close>  The PUT, copy and multipart request classes, the deletion of several objects by one
  request, the bucket and sub-resource actions (policies, ACLs, tags) and the listings of buckets and
  of indices: they are further task lists over the modelled engine, metadata classes, reader and
  writer.  HTTP request parsing and routing, the authentication client, the Motr and libevent bindings, start-up
  and options, memory pools, statistics and logs: mostly calls of outside libraries.  Logging, timing
  and fault-injection switches inside the modelled functions are left out, except the switches that change
  data.
\<close>

end
